(* ===== verification/Xsh_Prelude.thy ===== *)
theory Xsh_Prelude
  imports Main "HOL-Library.Word"
begin

text \<open>
  Shared vocabulary of the development: the machine integers the Rust code uses, the checked
  and saturating operations of their standard library, results (\<open>Result<T, E>\<close> is the sum type
  \<open>'e + 'a\<close>, with \<open>Inl\<close> for \<open>Err\<close> and \<open>Inr\<close> for \<open>Ok\<close>), and generic facts on lists.
  A slice index or an assertion that panics in Rust is an \<open>option\<close> in the model.
\<close>

unbundle bit_operations_syntax

type_synonym u8 = "8 word"
type_synonym u16 = "16 word"
type_synonym u32 = "32 word"
type_synonym u64 = "64 word"

named_theorems panic_simps \<open>evaluation of operations that may panic\<close>

section \<open>Results\<close>

definition bindE :: "'e + 'a \<Rightarrow> ('a \<Rightarrow> 'e + 'b) \<Rightarrow> 'e + 'b" where
  "bindE r f = (case r of Inl e \<Rightarrow> Inl e | Inr a \<Rightarrow> f a)"

lemma bindE_simps [simp]:
  "bindE (Inl e) f = Inl e"
  "bindE (Inr a) f = f a"
  by (simp_all add: bindE_def)

lemma bindE_eq_Inr [simp]:
  "bindE r f = Inr b \<longleftrightarrow> (\<exists>a. r = Inr a \<and> f a = Inr b)"
  by (cases r) simp_all

lemma bindE_eq_Inl:
  "bindE r f = Inl e \<longleftrightarrow> r = Inl e \<or> (\<exists>a. r = Inr a \<and> f a = Inl e)"
  by (cases r) simp_all

lemma bindE_assoc: "bindE (bindE r f) g = bindE r (\<lambda>a. bindE (f a) g)"
  by (cases r) simp_all

definition ok_or :: "'a option \<Rightarrow> 'e \<Rightarrow> 'e + 'a" where
  "ok_or x e = (case x of None \<Rightarrow> Inl e | Some a \<Rightarrow> Inr a)"

lemma ok_or_simps [simp]: "ok_or None e = Inl e" "ok_or (Some a) e = Inr a"
  by (simp_all add: ok_or_def)

lemma ok_or_eq_Inr [simp]: "ok_or x e = Inr a \<longleftrightarrow> x = Some a"
  by (cases x) simp_all

section \<open>Checked arithmetic on unsigned words\<close>

definition checked_add :: "'a::len word \<Rightarrow> 'a word \<Rightarrow> 'a word option" where
  "checked_add a b = (if unat a + unat b < 2 ^ LENGTH('a) then Some (a + b) else None)"

definition checked_sub :: "'a::len word \<Rightarrow> 'a word \<Rightarrow> 'a word option" where
  "checked_sub a b = (if unat b \<le> unat a then Some (a - b) else None)"

definition checked_mul :: "'a::len word \<Rightarrow> 'a word \<Rightarrow> 'a word option" where
  "checked_mul a b = (if unat a * unat b < 2 ^ LENGTH('a) then Some (a * b) else None)"

definition saturating_add :: "'a::len word \<Rightarrow> 'a word \<Rightarrow> 'a word" where
  "saturating_add a b = (if unat a + unat b < 2 ^ LENGTH('a) then a + b else - 1)"

definition saturating_sub :: "'a::len word \<Rightarrow> 'a word \<Rightarrow> 'a word" where
  "saturating_sub a b = (if unat b \<le> unat a then a - b else 0)"

lemma unat_less_2p: "unat (a :: 'a::len word) < 2 ^ LENGTH('a)"
  by (rule unsigned_less)

lemma unat_of_nat_small: "n < 2 ^ LENGTH('a) \<Longrightarrow> unat (of_nat n :: 'a::len word) = n"
  by (simp add: unsigned_of_nat take_bit_nat_eq_self)

lemma unat_add_noflow:
  fixes a b :: "'a::len word"
  shows "unat a + unat b < 2 ^ LENGTH('a) \<Longrightarrow> unat (a + b) = unat a + unat b"
  by (simp add: unat_word_ariths)

lemma unat_sub_noflow:
  fixes a b :: "'a::len word"
  assumes "unat b \<le> unat a"
  shows "unat (a - b) = unat a - unat b"
proof -
  have "b \<le> a" using assms by (simp add: word_le_nat_alt)
  then show ?thesis by (simp add: unat_sub)
qed

lemma unat_mul_noflow:
  fixes a b :: "'a::len word"
  shows "unat a * unat b < 2 ^ LENGTH('a) \<Longrightarrow> unat (a * b) = unat a * unat b"
  by (simp add: unat_word_ariths)

lemma checked_add_Some:
  fixes a b :: "'a::len word"
  shows "checked_add a b = Some c \<longleftrightarrow> unat c = unat a + unat b"
proof
  assume "checked_add a b = Some c"
  then show "unat c = unat a + unat b"
    by (auto simp: checked_add_def unat_add_noflow split: if_splits)
next
  assume eq: "unat c = unat a + unat b"
  have "unat a + unat b < 2 ^ LENGTH('a)"
    using eq unat_less_2p [of c] by simp
  moreover from this have "unat (a + b) = unat c"
    using eq by (simp add: unat_add_noflow)
  ultimately show "checked_add a b = Some c"
    by (simp add: checked_add_def word_unat_eq_iff)
qed

lemma checked_add_None:
  fixes a b :: "'a::len word"
  shows "checked_add a b = None \<longleftrightarrow> 2 ^ LENGTH('a) \<le> unat a + unat b"
  by (auto simp: checked_add_def)

lemma checked_sub_Some:
  fixes a b :: "'a::len word"
  shows "checked_sub a b = Some c \<longleftrightarrow> unat a = unat c + unat b"
proof
  assume "checked_sub a b = Some c"
  then show "unat a = unat c + unat b"
    by (auto simp: checked_sub_def unat_sub_noflow split: if_splits)
next
  assume eq: "unat a = unat c + unat b"
  then have le: "unat b \<le> unat a" by simp
  have "unat (a - b) = unat c" using eq le by (simp add: unat_sub_noflow)
  with le show "checked_sub a b = Some c"
    by (simp add: checked_sub_def word_unat_eq_iff)
qed

lemma checked_mul_Some:
  fixes a b :: "'a::len word"
  shows "checked_mul a b = Some c \<longleftrightarrow> unat c = unat a * unat b"
proof
  assume "checked_mul a b = Some c"
  then show "unat c = unat a * unat b"
    by (auto simp: checked_mul_def unat_mul_noflow split: if_splits)
next
  assume eq: "unat c = unat a * unat b"
  have "unat a * unat b < 2 ^ LENGTH('a)"
    using eq unat_less_2p [of c] by simp
  moreover from this have "unat (a * b) = unat c"
    using eq by (simp add: unat_mul_noflow)
  ultimately show "checked_mul a b = Some c"
    by (simp add: checked_mul_def word_unat_eq_iff)
qed

lemma unat_minus_one_word: "unat (- 1 :: 'a::len word) = 2 ^ LENGTH('a) - 1"
  by (simp add: unsigned_minus_1_eq_mask mask_eq_exp_minus_1)

lemma unat_saturating_add:
  fixes a b :: "'a::len word"
  shows "unat (saturating_add a b) = min (unat a + unat b) (2 ^ LENGTH('a) - 1)"
  by (auto simp: saturating_add_def unat_add_noflow unat_minus_one_word min_def)

lemma unat_saturating_sub:
  fixes a b :: "'a::len word"
  shows "unat (saturating_sub a b) = unat a - unat b"
  by (simp add: saturating_sub_def unat_sub_noflow)

section \<open>Lists\<close>

lemma list_all_map_comp: "list_all P (map f xs) \<longleftrightarrow> list_all (P \<circ> f) xs"
  by (simp add: list_all_iff)

lemma take_drop_id_length: "n \<le> length xs \<Longrightarrow> length (take n xs) = n"
  by simp

text \<open>\<open>slice::get(i..j)\<close>: the bytes in the range, or nothing when it leaves the slice.\<close>

definition get_range :: "nat \<Rightarrow> nat \<Rightarrow> 'a list \<Rightarrow> 'a list option" where
  "get_range i j xs = (if i \<le> j \<and> j \<le> length xs then Some (take (j - i) (drop i xs)) else None)"

lemma get_range_Some:
  "get_range i j xs = Some ys \<longleftrightarrow> i \<le> j \<and> j \<le> length xs \<and> ys = take (j - i) (drop i xs)"
  by (auto simp: get_range_def)

lemma get_range_length: "get_range i j xs = Some ys \<Longrightarrow> length ys = j - i"
  by (auto simp: get_range_Some)

lemma get_range_append:
  "get_range (length xs) (length xs + length ys) (xs @ ys @ zs) = Some ys"
  by (simp add: get_range_def)

text \<open>The pieces of a list between separators, as Rust's \<open>split\<close> yields them: one more piece
  than there are separators, the pieces possibly empty.\<close>

fun split_on :: "'a \<Rightarrow> 'a list \<Rightarrow> 'a list list" where
  "split_on s [] = [[]]"
| "split_on s (x # xs) =
     (if x = s then [] # split_on s xs
      else (case split_on s xs of [] \<Rightarrow> [[x]] | p # ps \<Rightarrow> (x # p) # ps))"

fun join_with :: "'a \<Rightarrow> 'a list list \<Rightarrow> 'a list" where
  "join_with s [] = []"
| "join_with s [p] = p"
| "join_with s (p # ps) = p @ s # join_with s ps"

lemma split_on_nonempty [simp]: "split_on s xs \<noteq> []"
  by (cases xs) (auto split: list.splits)

lemma join_with_cons: "ps \<noteq> [] \<Longrightarrow> join_with s (p # ps) = p @ s # join_with s ps"
  by (cases ps) simp_all

lemma join_split_on [simp]: "join_with s (split_on s xs) = xs"
proof (induction xs)
  case Nil
  show ?case by simp
next
  case (Cons x xs)
  obtain p ps where sp: "split_on s xs = p # ps"
    by (cases "split_on s xs") auto
  show ?case
  proof (cases "x = s")
    case True
    then show ?thesis using Cons.IH by (simp add: join_with_cons)
  next
    case False
    then show ?thesis using Cons.IH sp by (cases ps) simp_all
  qed
qed

lemma split_on_no_sep: "p \<in> set (split_on s xs) \<Longrightarrow> s \<notin> set p"
  by (induction s xs arbitrary: p rule: split_on.induct) (auto split: if_splits list.splits)

lemma split_on_sep_free: "s \<notin> set p \<Longrightarrow> split_on s p = [p]"
  by (induction p) auto

lemma split_on_append_sep:
  "s \<notin> set p \<Longrightarrow> split_on s (p @ s # xs) = p # split_on s xs"
  by (induction p) auto

lemma split_join:
  assumes "ps \<noteq> []" and "\<And>p. p \<in> set ps \<Longrightarrow> s \<notin> set p"
  shows "split_on s (join_with s ps) = ps"
  using assms
proof (induction ps rule: join_with.induct)
  case (1 s)
  then show ?case by simp
next
  case (2 s p)
  then show ?case by (simp add: split_on_sep_free)
next
  case (3 s p v va)
  then show ?case by (simp add: split_on_append_sep)
qed

section \<open>Stateful fallible operations\<close>

text \<open>
  A method that takes \<open>&mut self\<close> and returns a \<open>Result\<close>: the result and the state it leaves,
  which a failure keeps too (an early return does not undo what was written).
\<close>

type_synonym ('s, 'e, 'a) op = "'s \<Rightarrow> ('e + 'a) \<times> 's"

definition retS :: "'a \<Rightarrow> ('s, 'e, 'a) op" where
  "retS a s = (Inr a, s)"

definition failS :: "'e \<Rightarrow> ('s, 'e, 'a) op" where
  "failS e s = (Inl e, s)"

definition bindS :: "('s, 'e, 'a) op \<Rightarrow> ('a \<Rightarrow> ('s, 'e, 'b) op) \<Rightarrow> ('s, 'e, 'b) op" where
  "bindS m f s = (case m s of (Inl e, s') \<Rightarrow> (Inl e, s') | (Inr a, s') \<Rightarrow> f a s')"

definition liftS :: "'e + 'a \<Rightarrow> ('s, 'e, 'a) op" where
  "liftS r s = (r, s)"

definition updS :: "('s \<Rightarrow> 's) \<Rightarrow> ('s, 'e, unit) op" where
  "updS f s = (Inr (), f s)"

definition map_errS :: "('e \<Rightarrow> 'f) \<Rightarrow> ('s, 'e, 'a) op \<Rightarrow> ('s, 'f, 'a) op" where
  "map_errS f m s = (case m s of (Inl e, s') \<Rightarrow> (Inl (f e), s') | (Inr a, s') \<Rightarrow> (Inr a, s'))"

lemma retS_app [simp]: "retS a s = (Inr a, s)"
  by (simp add: retS_def)

lemma failS_app [simp]: "failS e s = (Inl e, s)"
  by (simp add: failS_def)

lemma updS_app [simp]: "updS f s = (Inr (), f s)"
  by (simp add: updS_def)

lemma liftS_app [simp]: "liftS r s = (r, s)"
  by (simp add: liftS_def)

lemma bindS_Inr: "m s = (Inr a, s') \<Longrightarrow> bindS m f s = f a s'"
  by (simp add: bindS_def)

lemma bindS_Inl: "m s = (Inl e, s') \<Longrightarrow> bindS m f s = (Inl e, s')"
  by (simp add: bindS_def)

lemma bindS_ret [simp]: "bindS (retS a) f s = f a s"
  by (simp add: bindS_def)

lemma bindS_fail [simp]: "bindS (failS e) f s = (Inl e, s)"
  by (simp add: bindS_def)

lemma bindS_upd [simp]: "bindS (updS g) f s = f () (g s)"
  by (simp add: bindS_def)

lemma bindS_lift_Inr [simp]: "bindS (liftS (Inr a)) f s = f a s"
  by (simp add: bindS_def)

lemma bindS_lift_Inl [simp]: "bindS (liftS (Inl e)) f s = (Inl e, s)"
  by (simp add: bindS_def)

lemma bindS_eq_Inr:
  "bindS m f s = (Inr b, s') \<longleftrightarrow> (\<exists>a t. m s = (Inr a, t) \<and> f a t = (Inr b, s'))"
  by (auto simp: bindS_def split: prod.splits sum.splits)

lemma map_errS_eq_Inr: "map_errS f m s = (Inr b, s') \<longleftrightarrow> m s = (Inr b, s')"
  by (auto simp: map_errS_def split: prod.splits sum.splits)

lemma map_errS_Inr: "m s = (Inr b, s') \<Longrightarrow> map_errS f m s = (Inr b, s')"
  by (simp add: map_errS_def)

text \<open>An invariant of the state every step keeps, whatever the outcome.\<close>

definition keeps :: "('s \<Rightarrow> bool) \<Rightarrow> ('s, 'e, 'a) op \<Rightarrow> bool" where
  "keeps I m \<longleftrightarrow> (\<forall>s. I s \<longrightarrow> I (snd (m s)))"

lemma keepsI [intro]: "(\<And>s. I s \<Longrightarrow> I (snd (m s))) \<Longrightarrow> keeps I m"
  by (simp add: keeps_def)

lemma keepsD: "keeps I m \<Longrightarrow> I s \<Longrightarrow> I (snd (m s))"
  by (simp add: keeps_def)

lemma keeps_ret: "keeps I (retS a)"
  by (simp add: keeps_def)

lemma keeps_fail: "keeps I (failS e)"
  by (simp add: keeps_def)

lemma keeps_lift: "keeps I (liftS r)"
  by (simp add: keeps_def)

lemma keeps_bind: "keeps I m \<Longrightarrow> (\<And>a. keeps I (f a)) \<Longrightarrow> keeps I (bindS m f)"
  unfolding keeps_def bindS_def by (force split: prod.splits sum.splits)

lemma keeps_map_err: "keeps I m \<Longrightarrow> keeps I (map_errS f m)"
  unfolding keeps_def map_errS_def by (force split: prod.splits sum.splits)

lemma keeps_upd: "(\<And>s. I s \<Longrightarrow> I (f s)) \<Longrightarrow> keeps I (updS f)"
  by (simp add: keeps_def)

lemma keeps_if: "(c \<Longrightarrow> keeps I m) \<Longrightarrow> (\<not> c \<Longrightarrow> keeps I n) \<Longrightarrow> keeps I (if c then m else n)"
  by simp

lemmas keeps_intros = keeps_ret keeps_fail keeps_lift keeps_bind keeps_map_err keeps_if

section \<open>Numbers in messages\<close>

text \<open>The decimal digits \<open>Display\<close> writes for an unsigned integer.\<close>

fun show_nat :: "nat \<Rightarrow> string" where
  "show_nat n =
     (if n < 10 then [char_of (48 + n)]
      else show_nat (n div 10) @ [char_of (48 + n mod 10)])"

declare show_nat.simps [simp del]

section \<open>Texts as bytes\<close>

definition bytes_of :: "string \<Rightarrow> u8 list" where
  "bytes_of s = map (\<lambda>c. of_nat (of_char c)) s"

text \<open>\<open>u32::from_str_radix(text, 16)\<close>: an optional plus sign and at least one digit, no overflow.\<close>

definition hex_digit :: "u8 \<Rightarrow> nat option" where
  "hex_digit b =
     (if 48 \<le> b \<and> b \<le> 57 then Some (unat b - 48)
      else if 97 \<le> b \<and> b \<le> 102 then Some (unat b - 87)
      else if 65 \<le> b \<and> b \<le> 70 then Some (unat b - 55)
      else None)"

fun hex_digits :: "nat \<Rightarrow> u8 list \<Rightarrow> nat option" where
  "hex_digits acc [] = Some acc"
| "hex_digits acc (b # bs) =
     (case hex_digit b of None \<Rightarrow> None
      | Some d \<Rightarrow> if acc * 16 + d < 2 ^ 32 then hex_digits (acc * 16 + d) bs else None)"

definition u32_from_hex :: "u8 list \<Rightarrow> u32 option" where
  "u32_from_hex text =
     (let digits = (case text of [] \<Rightarrow> [] | b # bs \<Rightarrow> if b = 43 then bs else text)
      in if digits = [] then None else map_option of_nat (hex_digits 0 digits))"

end
