(* ===== verification/Xsh_Btree.thy ===== *)
theory Xsh_Btree
  imports Xsh_Prelude
begin

text \<open>
  Rust's \<open>BTreeMap\<close> as the code uses it: an association list with strictly increasing keys, so
  that iteration is in key order and two maps with the same entries are equal values. The
  locale \<open>ordered_map\<close> is the interface its clients rely on; it is interpreted on the list
  operations below, and the clients' facts about combining maps are proved inside it.
\<close>

type_synonym ('k, 'v) btree = "('k \<times> 'v) list"

definition bt_wf :: "('k::linorder, 'v) btree \<Rightarrow> bool" where
  "bt_wf m \<longleftrightarrow> sorted_wrt (<) (map fst m)"

definition bt_get :: "('k, 'v) btree \<Rightarrow> 'k \<Rightarrow> 'v option" where
  "bt_get m k = map_of m k"

fun bt_insert :: "'k::linorder \<Rightarrow> 'v \<Rightarrow> ('k, 'v) btree \<Rightarrow> ('k, 'v) btree" where
  "bt_insert k v [] = [(k, v)]"
| "bt_insert k v ((k', v') # m) =
     (if k < k' then (k, v) # (k', v') # m
      else if k = k' then (k, v) # m
      else (k', v') # bt_insert k v m)"

fun bt_remove :: "'k::linorder \<Rightarrow> ('k, 'v) btree \<Rightarrow> ('k, 'v) btree" where
  "bt_remove k [] = []"
| "bt_remove k ((k', v') # m) = (if k = k' then m else (k', v') # bt_remove k m)"

text \<open>\<open>entry(k).and_modify(f).or_insert(v)\<close>.\<close>

definition bt_upsert :: "'k::linorder \<Rightarrow> ('v \<Rightarrow> 'v) \<Rightarrow> 'v \<Rightarrow> ('k, 'v) btree \<Rightarrow> ('k, 'v) btree" where
  "bt_upsert k f v m = bt_insert k (case bt_get m k of None \<Rightarrow> v | Some w \<Rightarrow> f w) m"

text \<open>\<open>retain\<close> with a closure that rewrites each value before it is kept or dropped.\<close>

definition bt_retain :: "('v \<Rightarrow> 'v) \<Rightarrow> ('v \<Rightarrow> bool) \<Rightarrow> ('k, 'v) btree \<Rightarrow> ('k, 'v) btree" where
  "bt_retain f keep m = filter (\<lambda>(k, v). keep v) (map (\<lambda>(k, v). (k, f v)) m)"

lemma bt_wf_Nil [simp]: "bt_wf []"
  by (simp add: bt_wf_def)

lemma bt_wf_Cons [simp]: "bt_wf ((k, v) # m) \<longleftrightarrow> (\<forall>k' \<in> fst ` set m. k < k') \<and> bt_wf m"
  by (auto simp: bt_wf_def)

lemma bt_wf_distinct: "bt_wf m \<Longrightarrow> distinct (map fst m)"
  by (simp add: bt_wf_def strict_sorted_iff)

lemma bt_insert_keys: "fst ` set (bt_insert k v m) = insert k (fst ` set m)"
  by (induction k v m rule: bt_insert.induct) auto

lemma bt_insert_wf: "bt_wf m \<Longrightarrow> bt_wf (bt_insert k v m)"
  by (induction k v m rule: bt_insert.induct) (auto simp: bt_insert_keys)

lemma bt_get_none: "bt_wf m \<Longrightarrow> k \<notin> fst ` set m \<Longrightarrow> bt_get m k = None"
  by (simp add: bt_get_def map_of_eq_None_iff)

lemma bt_insert_get: "bt_wf m \<Longrightarrow> bt_get (bt_insert k v m) j = (if j = k then Some v else bt_get m j)"
  by (induction k v m rule: bt_insert.induct) (auto simp: bt_get_def)

lemma bt_remove_keys: "fst ` set (bt_remove k m) \<subseteq> fst ` set m"
  by (induction k m rule: bt_remove.induct) auto

lemma bt_remove_wf: "bt_wf m \<Longrightarrow> bt_wf (bt_remove k m)"
  using bt_remove_keys by (induction k m rule: bt_remove.induct) fastforce+

lemma bt_remove_get: "bt_wf m \<Longrightarrow> bt_get (bt_remove k m) j = (if j = k then None else bt_get m j)"
proof (induction k m rule: bt_remove.induct)
  case (1 k)
  then show ?case by (simp add: bt_get_def)
next
  case (2 k k' v' m)
  have "k' \<notin> fst ` set m" using "2.prems" by auto
  then have "map_of m k' = None" by (simp add: map_of_eq_None_iff)
  then show ?case using 2 by (auto simp: bt_get_def)
qed

lemma bt_ext:
  assumes "bt_wf m" and "bt_wf n" and "\<And>k. bt_get m k = bt_get n k"
  shows "m = n"
proof -
  have "map_of m = map_of n" using assms(3) by (simp add: bt_get_def fun_eq_iff)
  then have set_eq: "set m = set n"
    using assms(1,2) by (metis bt_wf_distinct set_map_of_compr)
  have sorted: "sorted (map fst m)" "sorted (map fst n)"
    and dist: "distinct (map fst m)" "distinct (map fst n)"
    using assms(1,2) by (auto simp: bt_wf_def strict_sorted_iff)
  show ?thesis
    by (rule map_sorted_distinct_set_unique [where f = fst])
      (use set_eq sorted dist in \<open>auto simp: distinct_map\<close>)
qed

section \<open>The interface\<close>

locale ordered_map =
  fixes empty :: 'm
    and get :: "'m \<Rightarrow> 'k \<Rightarrow> 'v option"
    and ins :: "'k \<Rightarrow> 'v \<Rightarrow> 'm \<Rightarrow> 'm"
    and del :: "'k \<Rightarrow> 'm \<Rightarrow> 'm"
    and inv :: "'m \<Rightarrow> bool"
  assumes inv_empty: "inv empty"
    and get_empty: "get empty k = None"
    and inv_ins: "inv m \<Longrightarrow> inv (ins k v m)"
    and get_ins: "inv m \<Longrightarrow> get (ins k v m) j = (if j = k then Some v else get m j)"
    and inv_del: "inv m \<Longrightarrow> inv (del k m)"
    and get_del: "inv m \<Longrightarrow> get (del k m) j = (if j = k then None else get m j)"
    and ext: "inv m \<Longrightarrow> inv n \<Longrightarrow> (\<And>k. get m k = get n k) \<Longrightarrow> m = n"
begin

lemma ins_ins_same: "inv m \<Longrightarrow> ins k v (ins k w m) = ins k v m"
  by (rule ext) (simp_all add: inv_ins get_ins)

lemma ins_commute: "inv m \<Longrightarrow> k \<noteq> j \<Longrightarrow> ins k v (ins j w m) = ins j w (ins k v m)"
  by (rule ext) (simp_all add: inv_ins get_ins)

lemma del_ins_same: "inv m \<Longrightarrow> get m k = None \<Longrightarrow> del k (ins k v m) = m"
  by (rule ext) (simp_all add: inv_ins get_ins inv_del get_del)

lemma ins_get_id: "inv m \<Longrightarrow> get m k = Some v \<Longrightarrow> ins k v m = m"
  by (rule ext) (simp_all add: inv_ins get_ins)

lemma del_absent: "inv m \<Longrightarrow> get m k = None \<Longrightarrow> del k m = m"
  by (rule ext) (simp_all add: inv_del get_del)

text \<open>Inserting a list of bindings one by one, as \<open>extend\<close> and \<open>collect\<close> do.\<close>

lemma fold_ins_inv: "inv m \<Longrightarrow> inv (fold (\<lambda>(k, v). ins k v) kvs m)"
  by (induction kvs arbitrary: m) (auto simp: inv_ins)

lemma fold_ins_get:
  "inv m \<Longrightarrow> get (fold (\<lambda>(k, v). ins k v) kvs m) j
     = (case map_of (rev kvs) j of None \<Rightarrow> get m j | Some v \<Rightarrow> Some v)"
proof (induction kvs arbitrary: m)
  case Nil
  then show ?case by simp
next
  case (Cons kv kvs)
  obtain k v where "kv = (k, v)" by (cases kv)
  then show ?case
    using Cons by (auto simp: inv_ins get_ins map_add_def split: option.splits)
qed

end

interpretation bt: ordered_map "[]" bt_get bt_insert bt_remove bt_wf
  by unfold_locales
    (auto simp: bt_insert_wf bt_insert_get bt_remove_wf bt_remove_get intro: bt_ext,
     simp add: bt_get_def)

section \<open>Derived operations\<close>

lemma bt_upsert_wf: "bt_wf m \<Longrightarrow> bt_wf (bt_upsert k f v m)"
  by (simp add: bt_upsert_def bt.inv_ins)

lemma bt_upsert_get:
  "bt_wf m \<Longrightarrow> bt_get (bt_upsert k f v m) j =
     (if j = k then Some (case bt_get m k of None \<Rightarrow> v | Some w \<Rightarrow> f w) else bt_get m j)"
  by (simp add: bt_upsert_def bt.get_ins)

lemma bt_retain_keys: "fst ` set (bt_retain f keep m) \<subseteq> fst ` set m"
  by (force simp: bt_retain_def)

lemma bt_retain_wf: "bt_wf m \<Longrightarrow> bt_wf (bt_retain f keep m)"
  by (induction m) (auto simp: bt_retain_def, force)

lemma bt_retain_get:
  "bt_wf m \<Longrightarrow> bt_get (bt_retain f keep m) k =
     (case bt_get m k of None \<Rightarrow> None | Some v \<Rightarrow> if keep (f v) then Some (f v) else None)"
proof (induction m)
  case Nil
  then show ?case by (simp add: bt_get_def bt_retain_def)
next
  case (Cons kv m)
  obtain k' v where kv: "kv = (k', v)" by (cases kv)
  have "k' \<notin> fst ` set (bt_retain f keep m)"
    using Cons.prems kv bt_retain_keys [of f keep m] by fastforce
  then have "bt_get (bt_retain f keep m) k' = None"
    by (simp add: bt_get_def map_of_eq_None_iff)
  moreover have "bt_retain f keep (kv # m) =
      (if keep (f v) then (k', f v) # bt_retain f keep m else bt_retain f keep m)"
    by (simp add: kv bt_retain_def)
  ultimately show ?case
    using Cons kv by (auto simp: bt_get_def split: option.splits)
qed

lemma bt_get_mem: "bt_wf m \<Longrightarrow> bt_get m k = Some v \<longleftrightarrow> (k, v) \<in> set m"
  by (simp add: bt_get_def bt_wf_distinct map_of_eq_Some_iff)

end
