(* ===== verification/Xsh_Effects.thy ===== *)
theory Xsh_Effects
  imports Xsh_Btree
begin

text \<open>
  Host effects and the symbolic effect contracts of the checker: \<open>src/syntax/node.rs\<close>
  (\<open>Effect\<close>), \<open>src/sema/effects.rs\<close> (\<open>EffectSet\<close>, \<open>EffectExpr\<close>, \<open>EffectContract\<close>,
  \<open>EffectPredicate\<close>) and the callable comparison of \<open>src/sema/types.rs\<close>. A set of effects is
  the \<open>u8\<close> bit mask of the code; \<open>es_set\<close> reads it as a set. A contract denotes the effects it
  allows under an assignment of its effect variables, and the operations and predicates of the
  code are related to that denotation.
\<close>

unbundle bit_operations_syntax

section \<open>Effects\<close>

datatype effect = Fs | Net | Process | Env | Time | Error | Io

definition ALL_effects :: "effect list" where
  "ALL_effects = [Fs, Net, Process, Env, Time, Error, Io]"

fun effect_as_str :: "effect \<Rightarrow> string" where
  "effect_as_str Fs = ''fs''"
| "effect_as_str Net = ''net''"
| "effect_as_str Process = ''process''"
| "effect_as_str Env = ''env''"
| "effect_as_str Time = ''time''"
| "effect_as_str Error = ''error''"
| "effect_as_str Io = ''io''"

definition effect_from_str :: "string \<Rightarrow> unit + effect" where
  "effect_from_str s =
     (if s = ''fs'' then Inr Fs
      else if s = ''net'' then Inr Net
      else if s = ''process'' then Inr Process
      else if s = ''env'' then Inr Env
      else if s = ''time'' then Inr Time
      else if s = ''error'' then Inr Error
      else if s = ''io'' then Inr Io
      else Inl ())"

text \<open>\<open>linux\<close> is the build's \<open>cfg!(target_os = "linux")\<close>.\<close>

definition from_module_call :: "bool \<Rightarrow> string \<Rightarrow> string \<Rightarrow> effect list" where
  "from_module_call linux m f =
     (if m \<in> {''fs'', ''archive'', ''compression'', ''fat'', ''diff'', ''elf'', ''patch'',
              ''user'', ''group'', ''module''} then [Fs]
      else if m = ''bytes'' then
        (if f \<in> {''resize'', ''read_at'', ''write_at'', ''zero_at'', ''copy'', ''copy_file''}
         then [Fs] else [])
      else if m = ''io'' then [Io]
      else if m = ''tui'' then (if f = ''read_secret'' then [Io] else [])
      else if m = ''net'' \<and> f = ''validate_root_bundle'' then []
      else if m \<in> {''net'', ''dns''} then [Net]
      else if m = ''env'' then [Env]
      else if m = ''error'' then [Error]
      else if m = ''time'' then (if f \<in> {''millis'', ''seconds''} then [] else [Time])
      else if m = ''system'' then
        (if f \<in> {''parse_long_double'', ''format_long_double'', ''long_double_precision''}
         then [] else [Env])
      else if m = ''applet'' then [Process]
      else if m \<in> {''process'', ''unix'', ''linux''} then
        (if f \<in> {''command_argv'', ''argv_words''} then []
         else if f = ''sample'' \<and> m = ''linux'' then [Fs]
         else if f = ''uptime_seconds'' \<and> m = ''unix'' \<and> linux then [Fs]
         else if f \<in> {''socket'', ''connect'', ''bind'', ''listen'', ''accept'', ''sendto'',
                      ''recvfrom'', ''link_up'', ''link_down'', ''set_ipv4_address'',
                      ''flush_ipv4_addresses'', ''add_default_ipv4_route'',
                      ''del_default_ipv4_route''} \<and> m = ''linux'' then [Process, Net]
         else if f \<in> {''connect_stream'', ''read_fd'', ''write_fd'', ''notify_ready'',
                      ''poll_fds''} \<and> m = ''unix'' then [Process, Net]
         else [Process])
      else if m = ''codec'' then
        (if f \<in> {''read'', ''read_as'', ''read_all'', ''write''} then [Fs] else [])
      else if m \<in> {''json'', ''yaml'', ''toml'', ''ini'', ''csv''} then
        (if f \<in> {''read'', ''write''} then [Fs] else [])
      else if m = ''mime'' then (if f \<in> {''lookup_ext'', ''lookup_path''} then [Fs] else [])
      else if m = ''path'' then (if f = ''resolve'' then [Fs] else [])
      else if m = ''hash'' then (if f = ''verify_file'' then [Fs] else [])
      else [])"

fun effect_covers :: "effect \<Rightarrow> effect \<Rightarrow> bool" where
  "effect_covers permission required \<longleftrightarrow>
     permission = required \<or> (permission = Io \<and> required \<in> {Fs, Net, Process, Env})"

definition effects_covers :: "effect list \<Rightarrow> effect \<Rightarrow> bool" where
  "effects_covers caller required \<longleftrightarrow> list_ex (\<lambda>permission. effect_covers permission required) caller"

lemma ALL_effects_complete [simp]: "e \<in> set ALL_effects"
  by (cases e) (simp_all add: ALL_effects_def)

lemma ALL_effects_distinct [simp]: "distinct ALL_effects"
  by (simp add: ALL_effects_def)

lemma effect_covers_trans: "effect_covers a b \<Longrightarrow> effect_covers b c \<Longrightarrow> effect_covers a c"
  by auto

lemma effect_covers_Error: "effect_covers Error e \<longleftrightarrow> e = Error"
  by auto

section \<open>Effect sets\<close>

type_synonym effect_set = u8

definition effect_position :: "effect \<Rightarrow> nat" where
  "effect_position e = length (takeWhile (\<lambda>c. c \<noteq> e) ALL_effects)"

definition es_empty :: effect_set where
  "es_empty = 0"

definition es_singleton :: "effect \<Rightarrow> effect_set" where
  "es_singleton e = push_bit (effect_position e) 1"

definition es_union :: "effect_set \<Rightarrow> effect_set \<Rightarrow> effect_set" where
  "es_union a b = a OR b"

definition es_intersection :: "effect_set \<Rightarrow> effect_set \<Rightarrow> effect_set" where
  "es_intersection a b = a AND b"

definition es_without :: "effect_set \<Rightarrow> effect_set \<Rightarrow> effect_set" where
  "es_without a b = a AND NOT b"

definition es_new :: "effect list \<Rightarrow> effect_set" where
  "es_new effects = foldl (\<lambda>set e. es_union set (es_singleton e)) es_empty effects"

definition es_all :: effect_set where
  "es_all = es_new ALL_effects"

definition es_from_bits :: "u8 \<Rightarrow> effect_set option" where
  "es_from_bits bits = (if bits AND NOT es_all = 0 then Some bits else None)"

definition es_contains :: "effect_set \<Rightarrow> effect \<Rightarrow> bool" where
  "es_contains s e \<longleftrightarrow> es_intersection s (es_singleton e) \<noteq> es_empty"

definition es_is_empty :: "effect_set \<Rightarrow> bool" where
  "es_is_empty s \<longleftrightarrow> s = es_empty"

definition es_iter :: "effect_set \<Rightarrow> effect list" where
  "es_iter s = filter (es_contains s) ALL_effects"

definition es_prohibited_requirements :: "effect_set \<Rightarrow> effect_set" where
  "es_prohibited_requirements s =
     es_new (filter (\<lambda>required. list_ex (\<lambda>excluded. effect_covers required excluded) (es_iter s))
       ALL_effects)"

text \<open>The set a mask stands for, and the masks the constructors can make.\<close>

definition es_set :: "effect_set \<Rightarrow> effect set" where
  "es_set s = {e. es_contains s e}"

definition es_valid :: "effect_set \<Rightarrow> bool" where
  "es_valid s \<longleftrightarrow> s AND NOT es_all = 0"

lemma effect_position_simps [simp]:
  "effect_position Fs = 0" "effect_position Net = 1" "effect_position Process = 2"
  "effect_position Env = 3" "effect_position Time = 4" "effect_position Error = 5"
  "effect_position Io = 6"
  by (simp_all add: effect_position_def ALL_effects_def)

lemma effect_position_inj [simp]: "effect_position a = effect_position b \<longleftrightarrow> a = b"
  by (cases a; cases b) simp_all

lemma effect_position_less: "effect_position e < 7"
  by (cases e) simp_all

lemma es_all_bits: "es_all = 127"
  by (simp add: es_all_def es_new_def ALL_effects_def es_union_def es_singleton_def es_empty_def)

lemma bit_es_singleton: "bit (es_singleton e) n \<longleftrightarrow> n = effect_position e"
  using effect_position_less [of e] by (auto simp: es_singleton_def bit_simps)

lemma es_contains_bit: "es_contains s e \<longleftrightarrow> bit s (effect_position e)"
  by (simp add: es_contains_def es_intersection_def es_empty_def es_singleton_def
      push_bit_of_1 and_exp_eq_0_iff_not_bit)

lemma es_set_bit: "e \<in> es_set s \<longleftrightarrow> bit s (effect_position e)"
  by (simp add: es_set_def es_contains_bit)

lemma es_valid_bit: "es_valid s \<longleftrightarrow> (\<forall>n \<ge> 7. \<not> bit s n)"
proof -
  have "es_valid s \<longleftrightarrow> s AND NOT (mask 7) = 0"
    by (simp add: es_valid_def es_all_bits mask_eq_exp_minus_1)
  also have "\<dots> \<longleftrightarrow> (\<forall>n < 8. \<not> (bit s n \<and> \<not> n < 7))"
    by (auto simp: bit_eq_iff bit_simps)
  also have "\<dots> \<longleftrightarrow> (\<forall>n \<ge> 7. \<not> bit s n)"
    using bit_imp_le_length [of s] by fastforce
  finally show ?thesis .
qed

lemma effect_at: "n < 7 \<Longrightarrow> \<exists>e. n = effect_position e"
proof -
  assume "n < 7"
  then consider "n = 0" | "n = 1" | "n = 2" | "n = 3" | "n = 4" | "n = 5" | "n = 6"
    by linarith
  then show ?thesis by cases (metis effect_position_simps)+
qed

lemma es_eqI: "es_valid a \<Longrightarrow> es_valid b \<Longrightarrow> es_set a = es_set b \<Longrightarrow> a = b"
proof (rule bit_word_eqI)
  fix n assume v: "es_valid a" "es_valid b" and eq: "es_set a = es_set b"
  show "bit a n = bit b n"
  proof (cases "n < 7")
    case True
    then obtain e where "n = effect_position e" using effect_at by blast
    then show ?thesis using eq by (metis es_set_bit)
  next
    case False
    then show ?thesis using v by (simp add: es_valid_bit)
  qed
qed


section \<open>The interface of effect sets\<close>

text \<open>
  What symbolic effects rely on: the operations behave as operations on sets of effects and
  keep validity, and a valid mask is determined by its set. The algebraic laws follow once.
\<close>

locale effect_set_ops =
  fixes emp :: 's
    and uni :: "'s \<Rightarrow> 's \<Rightarrow> 's"
    and int :: "'s \<Rightarrow> 's \<Rightarrow> 's"
    and dif :: "'s \<Rightarrow> 's \<Rightarrow> 's"
    and valid :: "'s \<Rightarrow> bool"
    and sem :: "'s \<Rightarrow> effect set"
  assumes valid_emp: "valid emp"
    and sem_emp: "sem emp = {}"
    and valid_uni: "valid a \<Longrightarrow> valid b \<Longrightarrow> valid (uni a b)"
    and sem_uni: "sem (uni a b) = sem a \<union> sem b"
    and valid_int: "valid a \<Longrightarrow> valid (int a b)"
    and sem_int: "sem (int a b) = sem a \<inter> sem b"
    and valid_dif: "valid a \<Longrightarrow> valid (dif a b)"
    and sem_dif: "sem (dif a b) = sem a - sem b"
    and sem_eqI: "valid a \<Longrightarrow> valid b \<Longrightarrow> sem a = sem b \<Longrightarrow> a = b"
begin

lemma uni_commute: "valid a \<Longrightarrow> valid b \<Longrightarrow> uni a b = uni b a"
  by (rule sem_eqI) (auto simp: valid_uni sem_uni)

lemma uni_assoc: "valid a \<Longrightarrow> valid b \<Longrightarrow> valid c \<Longrightarrow> uni (uni a b) c = uni a (uni b c)"
  by (rule sem_eqI) (auto simp: valid_uni sem_uni)

lemma uni_idem: "valid a \<Longrightarrow> uni a a = a"
  by (rule sem_eqI) (auto simp: valid_uni sem_uni)

lemma uni_emp: "valid a \<Longrightarrow> uni emp a = a" "valid a \<Longrightarrow> uni a emp = a"
  by (rule sem_eqI; auto simp: valid_uni valid_emp sem_uni sem_emp)+

lemma int_uni_distrib: "valid a \<Longrightarrow> valid b \<Longrightarrow> int (uni a b) c = uni (int a c) (int b c)"
  by (rule sem_eqI) (auto simp: valid_uni valid_int sem_uni sem_int)

lemma int_int: "valid a \<Longrightarrow> int (int a b) c = int (int a c) b"
  by (rule sem_eqI) (auto simp: valid_int sem_int)

lemma is_empty_iff: "valid a \<Longrightarrow> a = emp \<longleftrightarrow> sem a = {}"
  using sem_eqI [of a emp] by (auto simp: valid_emp sem_emp)

lemma uni_empty_iff: "valid a \<Longrightarrow> valid b \<Longrightarrow> uni a b = emp \<longleftrightarrow> a = emp \<and> b = emp"
  by (simp add: is_empty_iff valid_uni sem_uni)

end

interpretation es: effect_set_ops es_empty es_union es_intersection es_without es_valid es_set
proof unfold_locales
  show "es_valid es_empty" by (simp add: es_valid_def es_empty_def)
  show "es_set es_empty = {}" by (simp add: set_eq_iff es_set_bit es_empty_def)
  show "a = b" if "es_valid a" "es_valid b" "es_set a = es_set b" for a b
    using that by (rule es_eqI)
qed (auto simp: es_valid_bit es_set_bit es_union_def es_intersection_def es_without_def
       bit_simps set_eq_iff dest: bit_imp_le_length)

lemma es_valid_singleton [simp]: "es_valid (es_singleton e)"
  using effect_position_less [of e] by (auto simp: es_valid_bit bit_es_singleton)

lemma es_set_singleton [simp]: "es_set (es_singleton e) = {e}"
  by (auto simp: es_set_bit bit_es_singleton)

lemma es_fold_valid:
  "es_valid s \<Longrightarrow> es_valid (foldl (\<lambda>set e. es_union set (es_singleton e)) s effects)"
  by (induction effects arbitrary: s) (auto simp: es.valid_uni)

lemma es_fold_set:
  "es_set (foldl (\<lambda>set e. es_union set (es_singleton e)) s effects) = es_set s \<union> set effects"
  by (induction effects arbitrary: s) (auto simp: es.sem_uni)

lemma es_valid_new [simp]: "es_valid (es_new effects)"
  by (simp add: es_new_def es_fold_valid es.valid_emp)

lemma es_set_new [simp]: "es_set (es_new effects) = set effects"
  by (simp add: es_new_def es_fold_set es.sem_emp)

lemma es_valid_all [simp]: "es_valid es_all"
  by (simp add: es_all_def)

lemma es_set_all [simp]: "es_set es_all = UNIV"
  by (auto simp: es_all_def)

lemma es_iter_set [simp]: "set (es_iter s) = es_set s"
  by (auto simp: es_iter_def es_set_def)

lemma es_from_bits_Some: "es_from_bits b = Some s \<longleftrightarrow> s = b \<and> es_valid s"
  by (auto simp: es_from_bits_def es_valid_def)

lemma es_valid_prohibited [simp]: "es_valid (es_prohibited_requirements s)"
  by (simp add: es_prohibited_requirements_def)

lemma es_set_prohibited:
  "es_set (es_prohibited_requirements s) = {r. \<exists>x \<in> es_set s. effect_covers r x}"
  by (auto simp: es_prohibited_requirements_def list_ex_iff)

lemmas es_sem = es.sem_emp es.sem_uni es.sem_int es.sem_dif es_set_prohibited

section \<open>Effect expressions\<close>

record 'v effect_expr =
  direct :: effect_set
  variables :: "('v, effect_set) btree"

definition ee_finite :: "effect_set \<Rightarrow> 'v effect_expr" where
  "ee_finite d = \<lparr>direct = d, variables = []\<rparr>"

definition ee_variable :: "'v \<Rightarrow> 'v effect_expr" where
  "ee_variable v = \<lparr>direct = es_empty, variables = [(v, es_all)]\<rparr>"

definition ee_closed :: "'v effect_expr \<Rightarrow> effect_set option" where
  "ee_closed x = (if variables x = [] then Some (direct x) else None)"

definition ee_single_variable :: "'v effect_expr \<Rightarrow> 'v option" where
  "ee_single_variable x =
     (if \<not> es_is_empty (direct x) \<or> length (variables x) \<noteq> 1 then None
      else (case variables x of [] \<Rightarrow> None
            | (v, m) # _ \<Rightarrow> if m = es_all then Some v else None))"

definition ee_union :: "'v::linorder effect_expr \<Rightarrow> 'v effect_expr \<Rightarrow> 'v effect_expr" where
  "ee_union self other =
     \<lparr>direct = es_union (direct self) (direct other),
      variables = foldl (\<lambda>vs (v, m). bt_upsert v (\<lambda>current. es_union current m) m vs)
                    (variables self) (variables other)\<rparr>"

definition ee_masked :: "effect_set \<Rightarrow> 'v effect_expr \<Rightarrow> 'v effect_expr" where
  "ee_masked msk x =
     \<lparr>direct = es_intersection (direct x) msk,
      variables = bt_retain (\<lambda>m. es_intersection m msk) (\<lambda>m. \<not> es_is_empty m) (variables x)\<rparr>"

section \<open>Effect contracts\<close>

datatype 'v effect_contract = Unknown | Known "'v effect_expr"

datatype callable_kind = Pure | Proc | Stream

definition ec_finite :: "effect_set \<Rightarrow> 'v effect_contract" where
  "ec_finite s = Known (ee_finite s)"

definition ec_variable :: "'v \<Rightarrow> 'v effect_contract" where
  "ec_variable v = Known (ee_variable v)"

fun ec_for_invocation :: "callable_kind \<Rightarrow> 'v effect_contract \<Rightarrow> 'v effect_contract" where
  "ec_for_invocation Pure c = ec_finite es_empty"
| "ec_for_invocation Proc c = c"
| "ec_for_invocation Stream c = c"

fun ec_from_clause :: "effect list option \<Rightarrow> 'v effect_contract" where
  "ec_from_clause (Some effects) = ec_finite (es_new effects)"
| "ec_from_clause None = Unknown"

text \<open>\<open>Inl ()\<close> is \<open>Err(UnresolvedCallableEffects)\<close>.\<close>

fun ec_concrete :: "'v effect_contract \<Rightarrow> unit + effect list option" where
  "ec_concrete Unknown = Inr None"
| "ec_concrete (Known x) =
     ok_or (map_option (\<lambda>effects. Some (es_iter effects)) (ee_closed x)) ()"

fun ec_closed :: "'v effect_contract \<Rightarrow> effect_set option" where
  "ec_closed Unknown = None"
| "ec_closed (Known x) = ee_closed x"

fun ec_union :: "'v::linorder effect_contract \<Rightarrow> 'v effect_contract \<Rightarrow> 'v effect_contract" where
  "ec_union (Known a) (Known b) = Known (ee_union a b)"
| "ec_union _ _ = Unknown"

fun ec_masked :: "effect_set \<Rightarrow> 'v effect_contract \<Rightarrow> 'v effect_contract" where
  "ec_masked msk Unknown = Unknown"
| "ec_masked msk (Known x) = Known (ee_masked msk x)"

definition ec_capture_error :: "'v effect_contract \<Rightarrow> 'v effect_contract" where
  "ec_capture_error c = ec_masked (es_without es_all (es_singleton Error)) c"

fun substitute_variables ::
  "('v \<Rightarrow> 'e + 'w::linorder effect_contract) \<Rightarrow> ('v, effect_set) btree \<Rightarrow> 'w effect_contract \<Rightarrow>
     'e + 'w effect_contract" where
  "substitute_variables f [] result = Inr result"
| "substitute_variables f ((v, m) # vs) result =
     bindE (f v) (\<lambda>c. substitute_variables f vs (ec_union result (ec_masked m c)))"

definition ee_substitute ::
  "('v \<Rightarrow> 'e + 'w::linorder effect_contract) \<Rightarrow> 'v effect_expr \<Rightarrow> 'e + 'w effect_contract" where
  "ee_substitute f x = substitute_variables f (variables x) (ec_finite (direct x))"

fun ec_substitute ::
  "('v \<Rightarrow> 'e + 'w::linorder effect_contract) \<Rightarrow> 'v effect_contract \<Rightarrow> 'e + 'w effect_contract" where
  "ec_substitute f Unknown = Inr Unknown"
| "ec_substitute f (Known x) = ee_substitute f x"

definition callable_effects_match :: "'v effect_contract \<Rightarrow> 'w effect_contract \<Rightarrow> bool" where
  "callable_effects_match actual expected =
     (case (ec_concrete actual, ec_concrete expected) of
        (Inr _, Inr None) \<Rightarrow> True
      | (Inr (Some a), Inr (Some b)) \<Rightarrow>
          list_all (\<lambda>e. List.member b e) a \<and> list_all (\<lambda>e. List.member a e) b
      | _ \<Rightarrow> False)"


section \<open>Effect predicates\<close>

datatype 'v effect_predicate =
    Equal "'v effect_contract" "'v effect_contract"
  | Included "'v effect_contract" "'v effect_contract"
  | Covered "'v effect_contract" "'v effect_contract"
  | Excluded "'v effect_contract" effect_set

text \<open>
  The shared arm of \<open>Included\<close> and \<open>Covered\<close>: \<open>matches\<close> is equality for the first and
  \<open>effect_covers\<close> for the second.
\<close>

definition direct_covers ::
  "(effect \<Rightarrow> effect \<Rightarrow> bool) \<Rightarrow> 'v effect_expr \<Rightarrow> effect \<Rightarrow> bool" where
  "direct_covers matches right required \<longleftrightarrow>
     list_ex (\<lambda>permission. matches permission required) (es_iter (direct right))"

definition retained_mask :: "'v effect_expr \<Rightarrow> 'v \<Rightarrow> effect_set" where
  "retained_mask right v =
     (case bt_get (variables right) v of None \<Rightarrow> es_empty | Some m \<Rightarrow> m)"

definition expr_covered ::
  "(effect \<Rightarrow> effect \<Rightarrow> bool) \<Rightarrow> 'v effect_expr \<Rightarrow> 'v effect_expr \<Rightarrow> bool" where
  "expr_covered matches left right \<longleftrightarrow>
     list_all (direct_covers matches right) (es_iter (direct left)) \<and>
     list_all (\<lambda>(v, m).
       list_all (\<lambda>e. direct_covers matches right e \<or>
                     list_ex (\<lambda>candidate. candidate = e) (es_iter (retained_mask right v)))
         (es_iter m))
       (variables left)"

fun coverage_satisfaction ::
  "(effect \<Rightarrow> effect \<Rightarrow> bool) \<Rightarrow> 'v effect_contract \<Rightarrow> 'v effect_contract \<Rightarrow> bool option" where
  "coverage_satisfaction matches _ Unknown = Some True"
| "coverage_satisfaction matches Unknown (Known _) = Some False"
| "coverage_satisfaction matches (Known left) (Known right) =
     (if left = right then Some True
      else if expr_covered matches left right then Some True
      else if ee_closed left \<noteq> None \<and> ee_closed right \<noteq> None then Some False
      else None)"

fun satisfaction :: "'v effect_predicate \<Rightarrow> bool option" where
  "satisfaction (Equal left right) =
     (if left = right then Some True
      else if left = Unknown \<or> right = Unknown then Some False
      else (case ec_closed left of None \<Rightarrow> None
            | Some l \<Rightarrow> (case ec_closed right of None \<Rightarrow> None | Some r \<Rightarrow> Some (l = r))))"
| "satisfaction (Included left right) = coverage_satisfaction (=) left right"
| "satisfaction (Covered left right) = coverage_satisfaction effect_covers left right"
| "satisfaction (Excluded contract excluded) =
     (case contract of Unknown \<Rightarrow> Some False
      | Known x \<Rightarrow>
          (let prohibited = es_prohibited_requirements excluded in
           if \<not> es_is_empty (es_intersection (direct x) prohibited) then Some False
           else if list_all (\<lambda>(_, m). es_is_empty (es_intersection m prohibited)) (variables x)
                then Some True else None))"

fun effect_predicate_implies :: "'v::linorder effect_predicate \<Rightarrow> 'v effect_predicate \<Rightarrow> bool" where
  "effect_predicate_implies (Covered owned_left owned_right) (Covered required_left required_right) =
     (Covered owned_left owned_right = Covered required_left required_right \<or>
      (case (ec_closed owned_right, ec_closed required_right) of
         (Some owned, Some required) \<Rightarrow>
           (if owned_left = required_left then
              list_all (\<lambda>e. list_ex (\<lambda>p. effect_covers p e) (es_iter required)) (es_iter owned)
            else if required_left = ec_capture_error owned_left then
              list_all (\<lambda>e. list_ex (\<lambda>p. effect_covers p e) (es_iter required))
                (es_iter (es_without owned (es_singleton Error)))
            else False)
       | _ \<Rightarrow> False))"
| "effect_predicate_implies owned required = (owned = required)"

section \<open>What a contract allows under an assignment\<close>

definition ee_den :: "('v \<Rightarrow> effect set) \<Rightarrow> 'v effect_expr \<Rightarrow> effect set" where
  "ee_den \<sigma> x = es_set (direct x) \<union> {e. \<exists>v m. (v, m) \<in> set (variables x) \<and> e \<in> \<sigma> v \<and> e \<in> es_set m}"

definition ee_wf :: "'v::linorder effect_expr \<Rightarrow> bool" where
  "ee_wf x \<longleftrightarrow> es_valid (direct x) \<and> bt_wf (variables x) \<and>
     (\<forall>m \<in> snd ` set (variables x). es_valid m \<and> m \<noteq> es_empty)"

fun ec_den :: "('v \<Rightarrow> effect set) \<Rightarrow> 'v effect_contract \<Rightarrow> effect set option" where
  "ec_den \<sigma> Unknown = None"
| "ec_den \<sigma> (Known x) = Some (ee_den \<sigma> x)"

fun ec_wf :: "'v::linorder effect_contract \<Rightarrow> bool" where
  "ec_wf Unknown = True"
| "ec_wf (Known x) = ee_wf x"

text \<open>
  The meaning of a predicate: an unknown contract on the right is unrestricted, an unknown
  contract on the left satisfies no bound and no exclusion.
\<close>

definition covers_all :: "(effect \<Rightarrow> effect \<Rightarrow> bool) \<Rightarrow> effect set option \<Rightarrow> effect set option \<Rightarrow> bool" where
  "covers_all matches l r =
     (case r of None \<Rightarrow> True
      | Some allowed \<Rightarrow> (case l of None \<Rightarrow> False
          | Some needed \<Rightarrow> \<forall>e \<in> needed. \<exists>p \<in> allowed. matches p e))"

fun holds :: "('v \<Rightarrow> effect set) \<Rightarrow> 'v effect_predicate \<Rightarrow> bool" where
  "holds \<sigma> (Equal l r) \<longleftrightarrow> ec_den \<sigma> l = ec_den \<sigma> r"
| "holds \<sigma> (Included l r) \<longleftrightarrow> covers_all (=) (ec_den \<sigma> l) (ec_den \<sigma> r)"
| "holds \<sigma> (Covered l r) \<longleftrightarrow> covers_all effect_covers (ec_den \<sigma> l) (ec_den \<sigma> r)"
| "holds \<sigma> (Excluded c s) \<longleftrightarrow>
     (case ec_den \<sigma> c of None \<Rightarrow> False
      | Some needed \<Rightarrow> \<forall>e \<in> needed. \<not> (\<exists>x \<in> es_set s. effect_covers e x))"

fun predicate_wf :: "'v::linorder effect_predicate \<Rightarrow> bool" where
  "predicate_wf (Equal l r) \<longleftrightarrow> ec_wf l \<and> ec_wf r"
| "predicate_wf (Included l r) \<longleftrightarrow> ec_wf l \<and> ec_wf r"
| "predicate_wf (Covered l r) \<longleftrightarrow> ec_wf l \<and> ec_wf r"
| "predicate_wf (Excluded c s) \<longleftrightarrow> ec_wf c \<and> es_valid s"

section \<open>Expressions: well-formedness and denotation\<close>

lemma ee_wf_finite [simp]: "es_valid s \<Longrightarrow> ee_wf (ee_finite s)"
  by (simp add: ee_wf_def ee_finite_def)

lemma ee_wf_variable [simp]: "ee_wf (ee_variable v)"
  using es.valid_emp es_valid_all
  by (simp add: ee_wf_def ee_variable_def es_all_bits es_empty_def)

lemma ee_wf_mask:
  "ee_wf x \<Longrightarrow> (v, m) \<in> set (variables x) \<Longrightarrow> es_valid m \<and> m \<noteq> es_empty"
  by (force simp: ee_wf_def)

lemma ee_den_finite [simp]: "ee_den \<sigma> (ee_finite s) = es_set s"
  by (simp add: ee_den_def ee_finite_def)

lemma ee_den_variable [simp]: "ee_den \<sigma> (ee_variable v) = \<sigma> v"
  by (auto simp: ee_den_def ee_variable_def es_sem)

text \<open>The fold of \<open>union\<close>, entry by entry.\<close>

definition union_masks ::
  "('v::linorder, effect_set) btree \<Rightarrow> ('v, effect_set) btree \<Rightarrow> ('v, effect_set) btree" where
  "union_masks vs ws = foldl (\<lambda>vs (v, m). bt_upsert v (\<lambda>current. es_union current m) m vs) vs ws"

lemma ee_union_direct [simp]: "direct (ee_union a b) = es_union (direct a) (direct b)"
  by (simp add: ee_union_def)

lemma ee_union_variables:
  "variables (ee_union a b) = union_masks (variables a) (variables b)"
  by (simp add: ee_union_def union_masks_def)

lemma union_masks_Cons:
  "union_masks vs ((v, m) # ws) = union_masks (bt_upsert v (\<lambda>c. es_union c m) m vs) ws"
  by (simp add: union_masks_def)

lemma union_masks_wf: "bt_wf vs \<Longrightarrow> bt_wf (union_masks vs ws)"
  by (induction ws arbitrary: vs) (auto simp: union_masks_def bt_upsert_wf)

lemma union_masks_get:
  "bt_wf vs \<Longrightarrow> bt_wf ws \<Longrightarrow> bt_get (union_masks vs ws) k =
     (case (bt_get vs k, bt_get ws k) of
        (Some a, Some b) \<Rightarrow> Some (es_union a b)
      | (Some a, None) \<Rightarrow> Some a
      | (None, r) \<Rightarrow> r)"
proof (induction ws arbitrary: vs)
  case Nil
  then show ?case by (simp add: union_masks_def bt_get_def split: option.splits)
next
  case (Cons w ws)
  obtain v m where w: "w = (v, m)" by (cases w)
  have "v \<notin> fst ` set ws" using Cons.prems(2) w by auto
  then have none: "bt_get ws v = None" by (simp add: bt_get_def map_of_eq_None_iff)
  have "bt_get (w # ws) k = (if k = v then Some m else bt_get ws k)"
    by (simp add: w bt_get_def)
  then show ?case
    using Cons none w
    by (auto simp: union_masks_Cons bt_upsert_wf bt_upsert_get split: option.splits)
qed


lemma ee_wf_iff:
  "ee_wf x \<longleftrightarrow> es_valid (direct x) \<and> bt_wf (variables x) \<and>
     (\<forall>v m. bt_get (variables x) v = Some m \<longrightarrow> es_valid m \<and> m \<noteq> es_empty)"
  unfolding ee_wf_def by (force simp: bt_get_mem)

lemma ee_den_iff:
  "ee_wf x \<Longrightarrow> e \<in> ee_den \<sigma> x \<longleftrightarrow> e \<in> es_set (direct x) \<or>
     (\<exists>v m. bt_get (variables x) v = Some m \<and> e \<in> \<sigma> v \<and> e \<in> es_set m)"
  by (auto simp: ee_den_def ee_wf_iff bt_get_mem)

lemma ee_eqI:
  assumes "ee_wf a" and "ee_wf b" and "direct a = direct b"
    and "\<And>v. bt_get (variables a) v = bt_get (variables b) v"
  shows "a = (b :: 'v::linorder effect_expr)"
proof -
  have "variables a = variables b"
    using assms by (intro bt_ext) (auto simp: ee_wf_iff)
  then show ?thesis using assms(3) by simp
qed

lemma ee_union_wf: "ee_wf a \<Longrightarrow> ee_wf b \<Longrightarrow> ee_wf (ee_union a b)"
  unfolding ee_wf_iff
  by (auto simp: ee_union_variables union_masks_wf union_masks_get es.valid_uni es.uni_empty_iff
      split: option.splits)

lemma ee_union_get:
  "ee_wf a \<Longrightarrow> ee_wf b \<Longrightarrow> bt_get (variables (ee_union a b)) k =
     (case (bt_get (variables a) k, bt_get (variables b) k) of
        (Some m, Some n) \<Rightarrow> Some (es_union m n)
      | (Some m, None) \<Rightarrow> Some m
      | (None, r) \<Rightarrow> r)"
  by (simp add: ee_union_variables ee_wf_iff union_masks_get)

lemma ee_wf_get:
  "ee_wf x \<Longrightarrow> bt_get (variables x) v = Some m \<Longrightarrow> es_valid m \<and> m \<noteq> es_empty"
  by (simp add: ee_wf_iff)

lemma ee_wf_direct: "ee_wf x \<Longrightarrow> es_valid (direct x)"
  by (simp add: ee_wf_def)

lemma ee_union_den:
  "ee_wf a \<Longrightarrow> ee_wf b \<Longrightarrow> ee_den \<sigma> (ee_union a b) = ee_den \<sigma> a \<union> ee_den \<sigma> b"
proof (rule set_eqI)
  fix e
  assume wf: "ee_wf a" "ee_wf b"
  have "(\<exists>v m. bt_get (variables (ee_union a b)) v = Some m \<and> e \<in> \<sigma> v \<and> e \<in> es_set m) \<longleftrightarrow>
      (\<exists>v. e \<in> \<sigma> v \<and> ((\<exists>m. bt_get (variables a) v = Some m \<and> e \<in> es_set m) \<or>
                       (\<exists>m. bt_get (variables b) v = Some m \<and> e \<in> es_set m)))"
    (is "?l = ?r")
    unfolding ee_union_get [OF wf]
    by (rule iffI; clarify) (auto simp: es_sem split: option.splits, force+)
  then show "e \<in> ee_den \<sigma> (ee_union a b) \<longleftrightarrow> e \<in> ee_den \<sigma> a \<union> ee_den \<sigma> b"
    using wf by (auto simp: ee_den_iff ee_union_wf es_sem)
qed

lemma ee_masked_get:
  "ee_wf a \<Longrightarrow> bt_get (variables (ee_masked k a)) v =
     (case bt_get (variables a) v of None \<Rightarrow> None
      | Some m \<Rightarrow> if es_intersection m k = es_empty then None else Some (es_intersection m k))"
  by (auto simp: ee_masked_def ee_wf_iff bt_retain_get es_is_empty_def split: option.splits)

lemma ee_masked_direct [simp]: "direct (ee_masked k a) = es_intersection (direct a) k"
  by (simp add: ee_masked_def)

lemma ee_masked_finite [simp]: "ee_masked k (ee_finite s) = ee_finite (es_intersection s k)"
  by (simp add: ee_masked_def ee_finite_def bt_retain_def)

lemma ee_masked_variables:
  "variables (ee_masked k a) =
     bt_retain (\<lambda>m. es_intersection m k) (\<lambda>m. \<not> es_is_empty m) (variables a)"
  by (simp add: ee_masked_def)

lemma ee_masked_wf: "ee_wf a \<Longrightarrow> ee_wf (ee_masked k a)"
  unfolding ee_wf_iff [of "ee_masked k a"]
  by (auto simp: ee_masked_get ee_wf_iff es.valid_int split: option.splits if_splits)
     (auto simp: ee_masked_def bt_retain_wf)

lemma ee_masked_den: "ee_wf a \<Longrightarrow> ee_den \<sigma> (ee_masked k a) = ee_den \<sigma> a \<inter> es_set k"
proof (rule set_eqI)
  fix e
  assume wf: "ee_wf a"
  have nonempty: "es_intersection m k \<noteq> es_empty" if "e \<in> es_set m" "e \<in> es_set k" for m
    using that by (metis IntI empty_iff es.sem_emp es.sem_int)
  have "(\<exists>m. bt_get (variables (ee_masked k a)) v = Some m \<and> e \<in> \<sigma> v \<and> e \<in> es_set m) \<longleftrightarrow>
      (\<exists>m. bt_get (variables a) v = Some m \<and> e \<in> \<sigma> v \<and> e \<in> es_set m \<and> e \<in> es_set k)" for v
    using nonempty by (cases "bt_get (variables a) v") (auto simp: ee_masked_get [OF wf] es_sem)
  then show "e \<in> ee_den \<sigma> (ee_masked k a) \<longleftrightarrow> e \<in> ee_den \<sigma> a \<inter> es_set k"
    using wf by (auto simp: ee_den_iff ee_masked_wf es_sem)
qed

lemma ee_masked_union:
  assumes wf: "ee_wf a" "ee_wf b"
  shows "ee_masked k (ee_union a b) = ee_union (ee_masked k a) (ee_masked k b)"
proof (rule ee_eqI)
  fix v
  show "bt_get (variables (ee_masked k (ee_union a b))) v =
      bt_get (variables (ee_union (ee_masked k a) (ee_masked k b))) v"
    using ee_wf_get [OF wf(1), of v] ee_wf_get [OF wf(2), of v]
    by (auto simp: wf ee_masked_get ee_union_get ee_union_wf ee_masked_wf es.int_uni_distrib
          es.uni_empty_iff es.uni_emp es.valid_int es.valid_emp
        split: option.splits)
qed (use wf in \<open>simp_all add: ee_union_wf ee_masked_wf es.int_uni_distrib ee_wf_direct\<close>)

lemma ee_masked_compose:
  assumes wf: "ee_wf a"
  shows "ee_masked k (ee_masked j a) = ee_masked (es_intersection j k) a"
proof (rule ee_eqI)
  fix v
  have assoc: "es_intersection (es_intersection m j) k = es_intersection m (es_intersection j k)" for m
    by (simp add: es_intersection_def and.assoc)
  have zero: "es_intersection m j = es_empty \<Longrightarrow> es_intersection m (es_intersection j k) = es_empty" for m
    by (simp add: es_intersection_def es_empty_def and.assoc [symmetric])
  show "bt_get (variables (ee_masked k (ee_masked j a))) v =
      bt_get (variables (ee_masked (es_intersection j k) a)) v"
    using wf by (auto simp: ee_masked_get ee_masked_wf assoc zero split: option.splits)
qed (use wf in \<open>simp_all add: ee_masked_wf es_intersection_def and.assoc\<close>)

lemma ee_masked_empty:
  assumes wf: "ee_wf a"
  shows "ee_masked es_empty a = ee_finite es_empty"
proof (rule ee_eqI)
  fix v
  show "bt_get (variables (ee_masked es_empty a)) v = bt_get (variables (ee_finite es_empty :: _ effect_expr)) v"
    using wf by (auto simp: ee_masked_get ee_finite_def bt.get_empty es_intersection_def es_empty_def
        split: option.splits)
qed (use wf in \<open>simp_all add: ee_masked_wf es.valid_emp, simp add: ee_finite_def es_intersection_def es_empty_def\<close>)

lemma ee_union_empty: "ee_wf a \<Longrightarrow> ee_union a (ee_finite es_empty) = a"
  by (cases a) (simp add: ee_union_def ee_finite_def ee_wf_def es.uni_emp)

section \<open>Substitution\<close>

lemma substitute_variables_known:
  assumes "ee_wf a" and "es_valid (direct a)"
    and "\<And>v m. (v, m) \<in> set vs \<Longrightarrow> f v = Inr (Known (g v)) \<and> ee_wf (g v) \<and> es_valid m"
  shows "\<exists>y. substitute_variables f vs (Known a) = Inr (Known y) \<and> ee_wf y \<and>
    ee_den \<sigma> y = ee_den \<sigma> a \<union> {e. \<exists>v m. (v, m) \<in> set vs \<and> e \<in> ee_den \<sigma> (g v) \<and> e \<in> es_set m}"
  using assms
proof (induction vs arbitrary: a)
  case Nil
  then show ?case by simp
next
  case (Cons vm vs)
  obtain v m where vm: "vm = (v, m)" by (cases vm)
  have gv: "f v = Inr (Known (g v))" "ee_wf (g v)" using Cons.prems(3) [of v m] vm by auto
  let ?b = "ee_union a (ee_masked m (g v))"
  have wf: "ee_wf ?b" using Cons.prems(1) gv by (simp add: ee_union_wf ee_masked_wf)
  have "\<exists>y. substitute_variables f vs (Known ?b) = Inr (Known y) \<and> ee_wf y \<and>
    ee_den \<sigma> y = ee_den \<sigma> ?b \<union> {e. \<exists>v m. (v, m) \<in> set vs \<and> e \<in> ee_den \<sigma> (g v) \<and> e \<in> es_set m}"
    by (rule Cons.IH) (use wf Cons.prems(3) in \<open>auto simp: ee_wf_def\<close>)
  moreover have "ee_den \<sigma> ?b = ee_den \<sigma> a \<union> (ee_den \<sigma> (g v) \<inter> es_set m)"
    using Cons.prems(1) gv by (simp add: ee_union_den ee_masked_wf ee_masked_den)
  moreover have "{e. \<exists>u n. (u, n) \<in> set (vm # vs) \<and> e \<in> ee_den \<sigma> (g u) \<and> e \<in> es_set n} =
      (ee_den \<sigma> (g v) \<inter> es_set m) \<union> {e. \<exists>u n. (u, n) \<in> set vs \<and> e \<in> ee_den \<sigma> (g u) \<and> e \<in> es_set n}"
    unfolding vm by auto
  ultimately show ?case by (simp add: vm gv Un_assoc)
qed

lemma substitute_variables_masked:
  assumes "ee_wf a"
    and "\<And>v m. (v, m) \<in> set vs \<Longrightarrow> f v = Inr (Known (g v)) \<and> ee_wf (g v)"
  shows "bindE (substitute_variables f vs (Known a)) (\<lambda>c. Inr (ec_masked k c)) =
    substitute_variables f
      (bt_retain (\<lambda>m. es_intersection m k) (\<lambda>m. \<not> es_is_empty m) vs) (Known (ee_masked k a))"
  using assms
proof (induction vs arbitrary: a)
  case Nil
  then show ?case by (simp add: bt_retain_def)
next
  case (Cons vm vs)
  obtain v m where vm: "vm = (v, m)" by (cases vm)
  have gv: "f v = Inr (Known (g v))" "ee_wf (g v)" using Cons.prems(2) [of v m] vm by auto
  let ?b = "ee_union a (ee_masked m (g v))"
  have wf: "ee_wf ?b" using Cons.prems(1) gv by (simp add: ee_union_wf ee_masked_wf)
  have step: "ee_masked k ?b = ee_union (ee_masked k a) (ee_masked (es_intersection m k) (g v))"
    using Cons.prems(1) gv by (simp add: ee_masked_union ee_masked_wf ee_masked_compose)
  have dropped: "ee_masked k ?b = ee_masked k a" if "es_intersection m k = es_empty"
    using that Cons.prems(1) gv
    by (simp add: step ee_masked_empty ee_union_empty ee_masked_wf)
  have "bindE (substitute_variables f vs (Known ?b)) (\<lambda>c. Inr (ec_masked k c)) =
    substitute_variables f
      (bt_retain (\<lambda>m. es_intersection m k) (\<lambda>m. \<not> es_is_empty m) vs) (Known (ee_masked k ?b))"
    by (rule Cons.IH) (use wf Cons.prems(2) in auto)
  then show ?case
    using step dropped gv by (auto simp: vm bt_retain_def es_is_empty_def)
qed


text \<open>
  Substitution reads every variable once; when each yields a known contract the result allows
  exactly what the expression allows with each variable standing for its contract.
\<close>

lemma ee_substitute_known:
  fixes x :: "'v::linorder effect_expr" and g :: "'v \<Rightarrow> 'w::linorder effect_expr"
  assumes "ee_wf x"
    and "\<And>v. v \<in> fst ` set (variables x) \<Longrightarrow> f v = Inr (Known (g v)) \<and> ee_wf (g v)"
  shows "\<exists>y. ee_substitute f x = Inr (Known y) \<and> ee_wf y \<and>
    ee_den \<sigma> y = ee_den (\<lambda>v. ee_den \<sigma> (g v)) x"
proof -
  have "\<exists>y. substitute_variables f (variables x) (Known (ee_finite (direct x))) = Inr (Known y) \<and>
     ee_wf y \<and> ee_den \<sigma> y = ee_den \<sigma> (ee_finite (direct x) :: 'w effect_expr) \<union>
       {e. \<exists>v m. (v, m) \<in> set (variables x) \<and> e \<in> ee_den \<sigma> (g v) \<and> e \<in> es_set m}"
  proof (rule substitute_variables_known)
    show "ee_wf (ee_finite (direct x) :: 'w effect_expr)"
      using assms(1) by (simp add: ee_wf_direct)
    show "es_valid (direct (ee_finite (direct x) :: 'w effect_expr))"
      using assms(1) by (simp add: ee_finite_def ee_wf_direct)
    fix v m assume "(v, m) \<in> set (variables x)"
    then show "f v = Inr (Known (g v)) \<and> ee_wf (g v) \<and> es_valid m"
      using assms ee_wf_mask [OF assms(1)] by force
  qed
  then show ?thesis by (simp add: ee_substitute_def ec_finite_def ee_den_def [of _ x])
qed

lemma es_without_all: "es_intersection s (es_without es_all t) = es_without s t" if "es_valid s"
  by (rule es_eqI) (use that in \<open>auto simp: es.valid_int es.valid_dif es_sem\<close>)

lemma ee_substitute_masked:
  assumes "ee_wf x"
    and "\<And>v. v \<in> fst ` set (variables x) \<Longrightarrow> f v = Inr (Known (g v)) \<and> ee_wf (g v)"
  shows "bindE (ee_substitute f x) (\<lambda>c. Inr (ec_masked k c)) = ee_substitute f (ee_masked k x)"
proof -
  have "bindE (substitute_variables f (variables x) (Known (ee_finite (direct x))))
      (\<lambda>c. Inr (ec_masked k c)) =
    substitute_variables f (bt_retain (\<lambda>m. es_intersection m k) (\<lambda>m. \<not> es_is_empty m) (variables x))
      (Known (ee_masked k (ee_finite (direct x))))"
    by (rule substitute_variables_masked) (use assms in \<open>force simp: ee_wf_direct\<close>)+
  then show ?thesis
    by (simp add: ee_substitute_def ec_finite_def ee_masked_variables)
qed

section \<open>Deciding predicates\<close>

lemma expr_covered_iff:
  assumes wf: "ee_wf l" "ee_wf r" and refl: "\<And>e. matches e e"
  shows "expr_covered matches l r \<longleftrightarrow>
    (\<forall>\<sigma>. \<forall>e \<in> ee_den \<sigma> l. \<exists>p \<in> ee_den \<sigma> r. matches p e)" (is "?c \<longleftrightarrow> ?s")
proof
  assume ?c
  then have direct: "\<And>e. e \<in> es_set (direct l) \<Longrightarrow> \<exists>p \<in> es_set (direct r). matches p e"
    and vars: "\<And>v m e. (v, m) \<in> set (variables l) \<Longrightarrow> e \<in> es_set m \<Longrightarrow>
      (\<exists>p \<in> es_set (direct r). matches p e) \<or> e \<in> es_set (retained_mask r v)"
    by (auto simp: expr_covered_def direct_covers_def list_all_iff list_ex_iff)
  show ?s
  proof (intro allI ballI)
    fix \<sigma> e assume e: "e \<in> ee_den \<sigma> l"
    show "\<exists>p \<in> ee_den \<sigma> r. matches p e"
    proof (cases "\<exists>p \<in> es_set (direct r). matches p e")
      case True
      then show ?thesis by (auto simp: ee_den_def)
    next
      case False
      then obtain v m where vm: "(v, m) \<in> set (variables l)" "e \<in> \<sigma> v" "e \<in> es_set m"
        using e False direct by (force simp: ee_den_def)
      then have "e \<in> es_set (retained_mask r v)" using vars False by blast
      then have "e \<in> ee_den \<sigma> r"
        using vm wf(2) by (auto simp: retained_mask_def ee_den_iff es_sem split: option.splits)
      then show ?thesis using refl by blast
    qed
  qed
next
  assume s: ?s
  have "direct_covers matches r e" if "e \<in> es_set (direct l)" for e
    using s [rule_format, of e "\<lambda>_. {}"] that
    by (auto simp: ee_den_def direct_covers_def list_ex_iff)
  moreover have "direct_covers matches r e \<or> e \<in> es_set (retained_mask r v)"
    if "(v, m) \<in> set (variables l)" "e \<in> es_set m" for v m e
  proof -
    have "e \<in> ee_den (\<lambda>u. if u = v then {e} else {}) l"
      using that by (auto simp: ee_den_def)
    then obtain p where "p \<in> ee_den (\<lambda>u. if u = v then {e} else {}) r" "matches p e"
      using s by blast
    then show ?thesis
      using wf(2) by (auto simp: ee_den_iff direct_covers_def list_ex_iff retained_mask_def
          split: if_splits)
  qed
  ultimately show ?c
    by (auto simp: expr_covered_def list_all_iff list_ex_iff)
qed

lemma ee_closed_den: "ee_closed x = Some s \<Longrightarrow> ee_den \<sigma> x = es_set s"
  by (auto simp: ee_closed_def ee_den_def split: if_splits)

lemma ee_den_full: "ee_den \<sigma> x \<subseteq> ee_den (\<lambda>_. UNIV) x"
  by (auto simp: ee_den_def)

lemma ee_den_full_all:
  "(\<forall>e \<in> ee_den (\<lambda>_. UNIV) x. P e) \<longleftrightarrow>
     (\<forall>e \<in> es_set (direct x). P e) \<and> (\<forall>(v, m) \<in> set (variables x). \<forall>e \<in> es_set m. P e)"
  by (fastforce simp: ee_den_def)

lemma coverage_sound:
  assumes wf: "ec_wf l" "ec_wf r" and refl: "\<And>e. matches e e"
    and sat: "coverage_satisfaction matches l r = Some b"
  shows "covers_all matches (ec_den \<sigma> l) (ec_den \<sigma> r) = b"
proof (cases l; cases r)
  fix x y assume xy: "l = Known x" "r = Known y"
  have valid: "(\<forall>\<tau>. \<forall>e \<in> ee_den \<tau> x. \<exists>p \<in> ee_den \<tau> y. matches p e) \<longleftrightarrow> expr_covered matches x y"
    using expr_covered_iff [of x y matches] wf refl xy by simp
  show ?thesis
  proof (cases "x = y \<or> expr_covered matches x y")
    case True
    then show ?thesis using sat valid refl by (auto simp: xy covers_all_def split: if_splits)
  next
    case False
    then obtain s t where st: "ee_closed x = Some s" "ee_closed y = Some t" "b = False"
      using sat by (auto simp: xy split: if_splits)
    then have "\<exists>e \<in> es_set s. \<not> (\<exists>p \<in> es_set t. matches p e)"
      using valid False ee_closed_den by metis
    then show ?thesis
      using st ee_closed_den [OF st(1), of \<sigma>] ee_closed_den [OF st(2), of \<sigma>]
      by (auto simp: xy covers_all_def)
  qed
qed (use sat in \<open>auto simp: covers_all_def\<close>)

lemma coverage_complete:
  assumes wf: "ec_wf l" "ec_wf r" and refl: "\<And>e. matches e e"
  shows "(\<forall>\<sigma>. covers_all matches (ec_den \<sigma> l) (ec_den \<sigma> r)) \<longleftrightarrow>
    coverage_satisfaction matches l r = Some True"
proof (cases l; cases r)
  fix x y assume xy: "l = Known x" "r = Known y"
  show ?thesis
    using expr_covered_iff [of x y matches] wf refl by (auto simp: xy covers_all_def)
qed (auto simp: covers_all_def)


section \<open>Properties\<close>

text \<open>C29: a predicate the checker decides is decided correctly. Whenever \<open>satisfaction\<close> returns
  \<open>Some(b)\<close> on well-formed contracts, the predicate's meaning under every assignment of the
  effect variables is \<open>b\<close>.\<close>

theorem satisfaction_sound:
  assumes "predicate_wf p" and "satisfaction p = Some b"
  shows "holds \<sigma> p = b"
proof (cases p)
  case (Equal l r)
  then show ?thesis
    using assms ee_closed_den es_eqI
    by (cases l; cases r)
      (auto simp: ee_closed_def ee_den_def ee_wf_def split: option.splits if_splits)
next
  case (Included l r)
  then show ?thesis using assms coverage_sound [of l r "(=)"] by simp
next
  case (Covered l r)
  then show ?thesis using assms coverage_sound [of l r effect_covers] by simp
next
  case (Excluded c s)
  show ?thesis
  proof (cases c)
    case Unknown
    then show ?thesis using assms Excluded by simp
  next
    case (Known x)
    then have wf: "ee_wf x" using assms(1) Excluded by simp
    have empty: "es_intersection m (es_prohibited_requirements s) = es_empty \<longleftrightarrow>
        (\<forall>e \<in> es_set m. \<not> (\<exists>y \<in> es_set s. effect_covers e y))" if "es_valid m" for m
      using that by (auto simp: es.is_empty_iff es.valid_int es_sem)
    show ?thesis
      using assms(2) wf ee_wf_mask [OF wf] empty [OF ee_wf_direct [OF wf]] empty
      by (fastforce simp: Excluded Known Let_def es_is_empty_def ee_den_def list_all_iff
          split: if_splits)
  qed
qed

theorem satisfaction_sound_witness:
  "predicate_wf (Covered (Known (ee_masked (es_singleton Fs) (ee_variable (7::nat)))) (ec_finite (es_singleton Io)))
   \<and> holds (\<lambda>_. UNIV)
      (Covered (Known (ee_masked (es_singleton Fs) (ee_variable (7::nat)))) (ec_finite (es_singleton Io)))"
proof -
  let ?p = "Covered (Known (ee_masked (es_singleton Fs) (ee_variable (7::nat)))) (ec_finite (es_singleton Io))"
  have wf: "predicate_wf ?p" by (simp add: ec_finite_def ee_masked_wf)
  have sat: "satisfaction ?p = Some True" by code_simp
  show ?thesis using wf satisfaction_sound [OF wf sat, of "\<lambda>_. UNIV"] by simp
qed

text \<open>C30: the decision is complete for bounds and exclusions: a predicate other than an equation
  holds under every assignment of its variables exactly when \<open>satisfaction\<close> returns
  \<open>Some(true)\<close>, so the checker never leaves a valid bound undecided.\<close>

theorem satisfaction_complete:
  assumes wf: "predicate_wf p" and shape: "\<And>l r. p \<noteq> Equal l r"
  shows "(\<forall>\<sigma>. holds \<sigma> p) \<longleftrightarrow> satisfaction p = Some True"
proof (cases p)
  case (Equal l r)
  then show ?thesis using shape by simp
next
  case (Included l r)
  then show ?thesis using wf coverage_complete [of l r "(=)"] by simp
next
  case (Covered l r)
  then show ?thesis using wf coverage_complete [of l r effect_covers] by simp
next
  case (Excluded c s)
  show ?thesis
  proof (cases c)
    case Unknown
    then show ?thesis using Excluded by simp
  next
    case (Known x)
    then have x: "ee_wf x" using wf Excluded by simp
    let ?bad = "\<lambda>e. \<exists>y \<in> es_set s. effect_covers e y"
    have empty: "es_intersection m (es_prohibited_requirements s) = es_empty \<longleftrightarrow>
        (\<forall>e \<in> es_set m. \<not> ?bad e)" if "es_valid m" for m
      using that by (auto simp: es.is_empty_iff es.valid_int es_sem)
    have "(\<forall>\<sigma>. holds \<sigma> p) \<longleftrightarrow> (\<forall>\<sigma>. \<forall>e \<in> ee_den \<sigma> x. \<not> ?bad e)"
      by (simp add: Excluded Known)
    also have "\<dots> \<longleftrightarrow> (\<forall>e \<in> ee_den (\<lambda>_. UNIV) x. \<not> ?bad e)"
      using ee_den_full by blast
    also have "\<dots> \<longleftrightarrow> (\<forall>e \<in> es_set (direct x). \<not> ?bad e) \<and>
        (\<forall>(v, m) \<in> set (variables x). \<forall>e \<in> es_set m. \<not> ?bad e)"
      by (rule ee_den_full_all)
    also have "\<dots> \<longleftrightarrow> es_is_empty (es_intersection (direct x) (es_prohibited_requirements s)) \<and>
        (\<forall>(v, m) \<in> set (variables x).
           es_is_empty (es_intersection m (es_prohibited_requirements s)))"
      using empty ee_wf_direct [OF x] ee_wf_mask [OF x] by (fastforce simp: es_is_empty_def)
    also have "\<dots> \<longleftrightarrow> satisfaction p = Some True"
      by (auto simp: Excluded Known Let_def list_all_iff)
    finally show ?thesis .
  qed
qed

theorem satisfaction_complete_witness:
  "(\<forall>\<sigma>. holds \<sigma> (Included (ec_capture_error (ec_variable (7::nat))) (ec_variable 7)))
   \<and> \<not> (\<forall>\<sigma>. holds \<sigma> (Included (ec_variable (7::nat)) (ec_capture_error (ec_variable 7))))"
proof -
  let ?p = "Included (ec_capture_error (ec_variable (7::nat))) (ec_variable 7)"
  let ?q = "Included (ec_variable (7::nat)) (ec_capture_error (ec_variable 7))"
  have wf: "predicate_wf ?p" "predicate_wf ?q"
    by (simp_all add: ec_variable_def ec_capture_error_def ee_masked_wf)
  have sat: "satisfaction ?p = Some True" "satisfaction ?q = None" by code_simp+
  show ?thesis
    using satisfaction_complete [OF wf(1)] satisfaction_complete [OF wf(2)] sat by simp
qed

text \<open>\<open>effect_predicate_implies\<close> is sound: when it accepts, the required predicate holds under
  every assignment under which the owned predicate holds, including the case where the required
  subject is the owned subject with its \<open>error\<close> effect captured.\<close>

theorem effect_predicate_implies_sound:
  assumes implies: "effect_predicate_implies p q"
    and wf: "predicate_wf p" "predicate_wf q"
    and owned: "holds \<sigma> p"
  shows "holds \<sigma> q"
proof (cases "p = q")
  case True
  then show ?thesis using owned by simp
next
  case False
  then obtain ol or' rl rr os rs where pq: "p = Covered ol or'" "q = Covered rl rr"
    and closed: "ec_closed or' = Some os" "ec_closed rr = Some rs"
    using implies by (cases p; cases q) (auto split: option.splits)
  have den: "ec_den \<sigma> or' = Some (es_set os)" "ec_den \<sigma> rr = Some (es_set rs)"
    using closed ee_closed_den by (cases or'; cases rr; force)+
  obtain needed where needed: "ec_den \<sigma> ol = Some needed"
    "\<forall>e \<in> needed. \<exists>p \<in> es_set os. effect_covers p e"
    using owned by (auto simp: pq den covers_all_def split: option.splits)
  show ?thesis
  proof (cases "ol = rl")
    case True
    then have "\<forall>e \<in> es_set os. \<exists>p \<in> es_set rs. effect_covers p e"
      using implies False by (auto simp: pq closed list_all_iff list_ex_iff)
    then have "\<forall>e \<in> needed. \<exists>p \<in> es_set rs. effect_covers p e"
      using needed(2) effect_covers_trans by blast
    then show ?thesis using needed(1) True by (simp add: pq den covers_all_def)
  next
    case distinct: False
    then have rl: "rl = ec_capture_error ol"
      and avail: "\<forall>e \<in> es_set (es_without os (es_singleton Error)). \<exists>p \<in> es_set rs. effect_covers p e"
      using implies False by (auto simp: pq closed list_all_iff list_ex_iff split: if_splits)
    have rden: "ec_den \<sigma> rl = Some (needed - {Error})"
      using needed(1) wf(1) by (cases ol) (auto simp: rl pq ec_capture_error_def ee_masked_den es_sem)
    have "\<exists>p \<in> es_set rs. effect_covers p e" if e: "e \<in> needed" "e \<noteq> Error" for e
    proof -
      obtain p where p: "p \<in> es_set os" "effect_covers p e" using needed(2) e(1) by blast
      have "p \<noteq> Error"
      proof
        assume "p = Error"
        with p(2) have "effect_covers Error e" by (simp only:)
        then show False using e(2) by (simp only: effect_covers_Error)
      qed
      then have "p \<in> es_set (es_without os (es_singleton Error))"
        using p by (simp add: es.sem_dif)
      then obtain r where "r \<in> es_set rs" "effect_covers r p" using avail by blast
      then show ?thesis using p effect_covers_trans by blast
    qed
    then show ?thesis using rden by (simp add: pq den covers_all_def)
  qed
qed

theorem effect_predicate_implies_sound_witness:
  "holds (\<lambda>_. {Error}) (Covered (ec_variable (7::nat)) (ec_finite (es_singleton Error)))
   \<and> holds (\<lambda>_. {Error}) (Covered (ec_capture_error (ec_variable (7::nat))) (ec_finite es_empty))"
proof -
  let ?p = "Covered (ec_variable (7::nat)) (ec_finite (es_singleton Error))"
  let ?q = "Covered (ec_capture_error (ec_variable (7::nat))) (ec_finite es_empty)"
  have i: "effect_predicate_implies ?p ?q" by code_simp
  have wf: "predicate_wf ?p" "predicate_wf ?q"
    by (simp_all add: ec_variable_def ec_finite_def ec_capture_error_def ee_masked_wf es.valid_emp)
  have h: "holds (\<lambda>_. {Error}) ?p" by (simp add: ec_variable_def ec_finite_def covers_all_def)
  show ?thesis using h effect_predicate_implies_sound [OF i wf h] by simp
qed


text \<open>capturing the error effect commutes with instantiating effect variables: the checker
  may mask the inferred contract of a callable before or after its variables are replaced, and
  gets the same contract (not merely an equivalent one).\<close>

theorem capture_error_substitute:
  fixes x :: "'v::linorder effect_expr" and f :: "'v \<Rightarrow> 'e + 'w::linorder effect_contract"
  assumes "ee_wf x"
    and "\<And>v. v \<in> fst ` set (variables x) \<Longrightarrow> f v = Inr (Known (g v)) \<and> ee_wf (g v)"
  shows "bindE (ec_substitute f (Known x)) (\<lambda>c. Inr (ec_capture_error c)) =
    ec_substitute f (ec_capture_error (Known x))"
  using ee_substitute_masked [OF assms] by (simp add: ec_capture_error_def)

theorem capture_error_substitute_witness:
  "bindE (ec_substitute (\<lambda>_. Inr (Known (ee_finite es_all)) :: unit + nat effect_contract)
      (Known (ee_variable (7::nat)))) (\<lambda>c. Inr (ec_capture_error c)) =
   ec_substitute (\<lambda>_. Inr (Known (ee_finite es_all))) (ec_capture_error (Known (ee_variable (7::nat))))"
  by (rule capture_error_substitute [where g = "\<lambda>_. ee_finite es_all"])
     (simp_all add: ee_wf_finite)

text \<open>substitution means what it should: when every variable of an expression is mapped to a
  known contract, the result is a well-formed contract that allows, under any assignment, exactly
  what the expression allows with each variable standing for what its contract allows.\<close>

theorem substitute_denotes:
  fixes x :: "'v::linorder effect_expr" and g :: "'v \<Rightarrow> 'w::linorder effect_expr"
  assumes "ee_wf x"
    and "\<And>v. v \<in> fst ` set (variables x) \<Longrightarrow> f v = Inr (Known (g v)) \<and> ee_wf (g v)"
  shows "\<exists>y. ec_substitute f (Known x) = Inr (Known y) \<and> ee_wf y \<and>
    ec_den \<sigma> (Known y) = Some (ee_den (\<lambda>v. ee_den \<sigma> (g v)) x)"
  using ee_substitute_known [where \<sigma> = \<sigma>, OF assms] by simp

theorem substitute_denotes_witness:
  "\<exists>y. ec_substitute (\<lambda>v. Inr (Known (ee_finite (es_singleton Fs))) :: unit + nat effect_contract)
      (Known (ee_union (ee_finite (es_singleton Net)) (ee_variable (7::nat)))) = Inr (Known y) \<and>
    ee_wf y \<and> ec_den (\<lambda>_. {}) (Known y) = Some {Net, Fs}"
proof -
  let ?x = "ee_union (ee_finite (es_singleton Net)) (ee_variable (7::nat))"
  let ?f = "\<lambda>v. Inr (Known (ee_finite (es_singleton Fs))) :: unit + nat effect_contract"
  have "ee_wf ?x" by (simp add: ee_union_wf)
  from substitute_denotes [of ?x ?f "\<lambda>_. ee_finite (es_singleton Fs)" "\<lambda>_. {}", OF this]
  show ?thesis by (simp add: ee_union_den insert_commute)
qed

text \<open>a callable with a declared effect clause is accepted where another clause is expected
  exactly when the expectation is unrestricted or both clauses list the same effects, in any
  order and with any repetitions.\<close>

theorem declared_effects_match:
  "callable_effects_match (ec_from_clause actual) (ec_from_clause expected) \<longleftrightarrow>
     expected = None \<or> map_option set actual = map_option set expected \<and> expected \<noteq> None"
proof -
  have iff: "(\<forall>e \<in> set xs. e \<in> set ys) \<and> (\<forall>e \<in> set ys. e \<in> set xs) \<longleftrightarrow> set xs = set ys"
    for xs ys :: "effect list" by blast
  show ?thesis
    by (cases actual; cases expected)
      (auto simp: callable_effects_match_def ec_finite_def ee_closed_def ee_finite_def list_all_iff
        iff)
qed

text \<open>the \<open>u8\<close> masks are a canonical representation of sets of effects: a byte is accepted by
  \<open>from_bits\<close> exactly when it is rebuilt from the effects its iterator lists, every constructed set
  is accepted, and iterating a constructed set lists its effects in declaration order, once each.\<close>

theorem effect_bits_roundtrip:
  "(es_from_bits b \<noteq> None \<longleftrightarrow> es_new (es_iter b) = b) \<and>
   es_from_bits (es_new effects) = Some (es_new effects) \<and>
   es_iter (es_new effects) = filter (\<lambda>e. e \<in> set effects) ALL_effects"
proof (intro conjI)
  show "es_from_bits b \<noteq> None \<longleftrightarrow> es_new (es_iter b) = b"
  proof
    assume "es_from_bits b \<noteq> None"
    then have "es_valid b" by (auto simp: es_from_bits_Some)
    then show "es_new (es_iter b) = b" by (intro es_eqI) simp_all
  next
    assume "es_new (es_iter b) = b"
    then have "es_valid b" by (metis es_valid_new)
    then show "es_from_bits b \<noteq> None" by (simp add: es_from_bits_def es_valid_def)
  qed
  show "es_from_bits (es_new effects) = Some (es_new effects)"
    by (simp add: es_from_bits_Some)
  show "es_iter (es_new effects) = filter (\<lambda>e. e \<in> set effects) ALL_effects"
    using es_set_new [of effects] unfolding es_iter_def es_set_def
    by (intro filter_cong) auto
qed

end
