(* ===== verification/Xsh_Io.thy ===== *)
theory Xsh_Io
  imports Xsh_Prelude
begin

text \<open>
  The shared layer of the archive crate: errors (\<open>error.rs\<close>), entry metadata (\<open>entry.rs\<close>), the
  resource budget and the metered reader (\<open>budget.rs\<close>), and the cursor helpers that read from a
  sequential input (\<open>cursor.rs\<close>).

  The input behind the metered reader (a file or a decoder of another crate) is the list of
  results its successive reads yield: bytes, of which a read takes at most as many as its
  buffer holds, an interruption, or a failure; past the end of the list reads return no bytes.
  The cancellation callback of a budget is the list of its successive answers. Every way an
  input can split its bytes into short reads, fail or be interrupted is such a list.
\<close>

section \<open>Errors\<close>

datatype error_kind =
  Open | Io_error | Corrupt | Truncated | Unsupported | NeedsSeek | Unsafe | Collision_error
  | Limit | Canceled | Options

fun error_kind_name :: "error_kind \<Rightarrow> string" where
  "error_kind_name Open = ''Open''"
| "error_kind_name Io_error = ''Io''"
| "error_kind_name Corrupt = ''Corrupt''"
| "error_kind_name Truncated = ''Truncated''"
| "error_kind_name Unsupported = ''Unsupported''"
| "error_kind_name NeedsSeek = ''NeedsSeek''"
| "error_kind_name Unsafe = ''Unsafe''"
| "error_kind_name Collision_error = ''Collision''"
| "error_kind_name Limit = ''Limit''"
| "error_kind_name Canceled = ''Canceled''"
| "error_kind_name Options = ''Options''"

text \<open>The kinds of \<open>std::io::ErrorKind\<close> the code tells apart.\<close>

datatype io_kind = NotFound | AlreadyExists | UnexpectedEof | InvalidData | InvalidInput | Interrupted | Other_io

record error =
  kind :: error_kind
  message :: string
  entry :: "u8 list option"
  offset :: "u64 option"
  io_kind_of :: "io_kind option"

text \<open>
  A \<open>std::io::Error\<close> is a host error with its kind and text, or one that wraps an archive error
  (\<open>embedded\<close> finds it again along the chain of sources).
\<close>

datatype io_error = Host io_kind string | Embedded error

definition error_new :: "error_kind \<Rightarrow> string \<Rightarrow> error" where
  "error_new k m = \<lparr>kind = k, message = m, entry = None, offset = None, io_kind_of = None\<rparr>"

definition corrupt :: "string \<Rightarrow> error" where
  "corrupt m = error_new Corrupt m"

definition truncated :: "string \<Rightarrow> error" where
  "truncated m = error_new Truncated m"

definition unsupported :: "string \<Rightarrow> error" where
  "unsupported m = error_new Unsupported m"

definition with_entry :: "u8 list \<Rightarrow> error \<Rightarrow> error" where
  "with_entry name e = e\<lparr>entry := Some name\<rparr>"

definition unsafe_entry :: "u8 list \<Rightarrow> string \<Rightarrow> error" where
  "unsafe_entry name m = with_entry name (error_new Unsafe m)"

definition options_error :: "string \<Rightarrow> error" where
  "options_error m = error_new Options m"

definition limit_error :: "string \<Rightarrow> error" where
  "limit_error m = error_new Limit m"

definition canceled :: error where
  "canceled = error_new Canceled ''operation canceled''"

definition with_offset :: "u64 \<Rightarrow> error \<Rightarrow> error" where
  "with_offset n e = e\<lparr>offset := Some n\<rparr>"

definition with_context :: "string \<Rightarrow> error \<Rightarrow> error" where
  "with_context context e = e\<lparr>message := context @ '': '' @ message e\<rparr>"

definition with_cleanup :: "error \<Rightarrow> error \<Rightarrow> error" where
  "with_cleanup cleanup e = e\<lparr>message := message e @ ''; cleanup failed: '' @ message cleanup\<rparr>"

definition error_display :: "error \<Rightarrow> string" where
  "error_display e = error_kind_name (kind e) @ '': '' @ message e @
     (case offset e of None \<Rightarrow> '''' | Some n \<Rightarrow> '' (offset '' @ show_nat (unat n) @ '')'')"

text \<open>\<open>From<Error> for io::Error\<close> keeps the error inside and gives the host error a kind.\<close>

fun to_io_kind :: "error_kind \<Rightarrow> io_kind" where
  "to_io_kind Truncated = UnexpectedEof"
| "to_io_kind Corrupt = InvalidData"
| "to_io_kind _ = Other_io"

fun io_error_kind :: "io_error \<Rightarrow> io_kind" where
  "io_error_kind (Host k _) = k"
| "io_error_kind (Embedded e) = to_io_kind (kind e)"

fun io_error_text :: "io_error \<Rightarrow> string" where
  "io_error_text (Host _ m) = m"
| "io_error_text (Embedded e) = error_display e"

definition from_open :: "io_error \<Rightarrow> error" where
  "from_open e = (error_new Open (io_error_text e))\<lparr>io_kind_of := Some (io_error_kind e)\<rparr>"

definition from_host :: "io_error \<Rightarrow> error" where
  "from_host e = (error_new Io_error (io_error_text e))\<lparr>io_kind_of := Some (io_error_kind e)\<rparr>"

fun embedded :: "io_error \<Rightarrow> error option" where
  "embedded (Embedded e) = Some e"
| "embedded (Host _ _) = None"

definition from_read :: "io_error \<Rightarrow> error" where
  "from_read e =
     (case embedded e of Some inner \<Rightarrow> inner
      | None \<Rightarrow>
          (let k = (case io_error_kind e of
                      UnexpectedEof \<Rightarrow> Truncated
                    | InvalidData \<Rightarrow> Corrupt
                    | InvalidInput \<Rightarrow> Corrupt
                    | _ \<Rightarrow> Io_error)
           in (error_new k (io_error_text e))\<lparr>io_kind_of := Some (io_error_kind e)\<rparr>))"

section \<open>Entries\<close>

datatype format = Tar | Zip | Cpio

fun format_name :: "format \<Rightarrow> string" where
  "format_name Tar = ''tar''"
| "format_name Zip = ''zip''"
| "format_name Cpio = ''cpio''"

datatype entry_kind =
  File | Directory | Symlink | Hardlink | Fifo | CharDevice | BlockDevice | Other

fun entry_kind_name :: "entry_kind \<Rightarrow> string" where
  "entry_kind_name File = ''File''"
| "entry_kind_name Directory = ''Directory''"
| "entry_kind_name Symlink = ''Symlink''"
| "entry_kind_name Hardlink = ''Hardlink''"
| "entry_kind_name Fifo = ''Fifo''"
| "entry_kind_name CharDevice = ''CharDevice''"
| "entry_kind_name BlockDevice = ''BlockDevice''"
| "entry_kind_name Other = ''Other''"

text \<open>\<open>modified\<close> is an \<open>i64\<close>, read with \<open>sint\<close>.\<close>

record entry_meta =
  name :: "u8 list"
  ekind :: entry_kind
  entry_size :: "u64 option"
  mode :: "u32 option"
  modified :: "u64 option"
  uid :: "u32 option"
  gid :: "u32 option"
  link :: "u8 list option"
  device :: "(u32 \<times> u32) option"
  link_count :: "u32 option"

definition entry_meta_new :: "u8 list \<Rightarrow> entry_kind \<Rightarrow> entry_meta" where
  "entry_meta_new n k =
     \<lparr>name = n, ekind = k, entry_size = None, mode = None, modified = None, uid = None, gid = None,
      link = None, device = None, link_count = None\<rparr>"

definition meta_index_bytes :: "entry_meta \<Rightarrow> u64" where
  "meta_index_bytes m = 96 + of_nat (length (name m)) +
     (case link m of None \<Rightarrow> 0 | Some l \<Rightarrow> of_nat (length l))"

section \<open>The budget\<close>

record limits =
  lim_total_output :: u64
  lim_entry_output :: u64
  lim_entries :: u64
  lim_index_bytes :: u64
  lim_workspace_bytes :: u64

definition GIB :: u64 where
  "GIB = push_bit 30 1"

definition default_limits :: limits where
  "default_limits =
     \<lparr>lim_total_output = 256 * GIB, lim_entry_output = 64 * GIB, lim_entries = 4194304,
      lim_index_bytes = push_bit 20 256, lim_workspace_bytes = GIB\<rparr>"

record budget =
  limits :: limits
  total_output :: u64
  index_bytes :: u64
  entries :: u64
  cancels :: "bool list"

definition budget_new :: "limits \<Rightarrow> bool list \<Rightarrow> budget" where
  "budget_new l cs = \<lparr>limits = l, total_output = 0, index_bytes = 0, entries = 0, cancels = cs\<rparr>"

definition uncancelable :: "limits \<Rightarrow> budget" where
  "uncancelable l = budget_new l []"

definition checkpoint :: "(budget, error, unit) op" where
  "checkpoint b =
     (case cancels b of [] \<Rightarrow> (Inr (), b)
      | c # cs \<Rightarrow> (if c then Inl canceled else Inr (), b\<lparr>cancels := cs\<rparr>))"

definition output_allowance :: "budget \<Rightarrow> u64" where
  "output_allowance b = saturating_sub (lim_total_output (limits b)) (total_output b)"

definition charge_output :: "u64 \<Rightarrow> (budget, error, unit) op" where
  "charge_output bytes b =
     (let total = saturating_add (total_output b) bytes;
          b' = b\<lparr>total_output := total_output b + bytes\<rparr>
      in if lim_total_output (limits b) < total
         then (Inl (limit_error (''decoded output exceeds '' @
                 show_nat (unat (lim_total_output (limits b))) @ '' bytes'')), b')
         else (Inr (), b'))"

definition charge_index :: "u64 \<Rightarrow> (budget, error, unit) op" where
  "charge_index bytes b =
     (let total = saturating_add (index_bytes b) bytes;
          b' = b\<lparr>index_bytes := index_bytes b + bytes\<rparr>
      in if lim_index_bytes (limits b) < total
         then (Inl (limit_error (''entry metadata exceeds '' @
                 show_nat (unat (lim_index_bytes (limits b))) @ '' bytes'')), b')
         else (Inr (), b'))"

definition release_index :: "u64 \<Rightarrow> budget \<Rightarrow> budget" where
  "release_index bytes b = b\<lparr>index_bytes := index_bytes b - bytes\<rparr>"

definition count_entry :: "(budget, error, unit) op" where
  "count_entry b =
     (let total = entries b + 1;
          b' = b\<lparr>entries := entries b + 1\<rparr>
      in if lim_entries (limits b) < total
         then (Inl (limit_error (''archive has more than '' @
                 show_nat (unat (lim_entries (limits b))) @ '' entries'')), b')
         else (Inr (), b'))"

definition declare_entry_size :: "u64 \<Rightarrow> (budget, error, unit) op" where
  "declare_entry_size sz b =
     (if lim_entry_output (limits b) < sz
      then (Inl (limit_error (''entry declares '' @ show_nat (unat sz) @ '' bytes, over the '' @
              show_nat (unat (lim_entry_output (limits b))) @ '' byte entry limit'')), b)
      else (Inr (), b))"

section \<open>Completion\<close>

type_synonym completion = u8

definition INSPECTED :: completion where "INSPECTED = 1"
definition PAYLOAD_CONSUMED :: completion where "PAYLOAD_CONSUMED = 2"
definition CHECKSUM_VERIFIED :: completion where "CHECKSUM_VERIFIED = 4"
definition STRUCTURE_COMPLETE :: completion where "STRUCTURE_COMPLETE = 8"
definition OUTER_COMPLETE :: completion where "OUTER_COMPLETE = 16"

definition completion_contains :: "completion \<Rightarrow> completion \<Rightarrow> bool" where
  "completion_contains self other \<longleftrightarrow> self AND other = other"

definition completion_with :: "completion \<Rightarrow> completion \<Rightarrow> completion" where
  "completion_with self other = self OR other"

record finish =
  structure_complete :: bool
  checksum_verified :: bool

text \<open>\<open>Archive::finish\<close> over what the cursor's \<open>finish\<close> reports.\<close>

definition archive_finish :: "finish \<Rightarrow> bool \<Rightarrow> completion" where
  "archive_finish f payload_consumed =
     (let c = INSPECTED;
          c = (if payload_consumed then completion_with c PAYLOAD_CONSUMED else c);
          c = (if checksum_verified f then completion_with c CHECKSUM_VERIFIED else c)
      in if structure_complete f
         then completion_with (completion_with c STRUCTURE_COMPLETE) OUTER_COMPLETE
         else c)"

section \<open>The metered input\<close>

datatype io_event = Data "u8 list" | Failure io_error

text \<open>
  The input a cursor reads: the remaining events of the stream behind the metered reader, the
  shared budget, and the position \<open>Counted\<close> keeps.
\<close>

record port =
  events :: "io_event list"
  port_budget :: budget
  position :: u64

definition on_budget :: "(budget, 'e, 'a) op \<Rightarrow> ('x port_scheme, 'e, 'a) op" where
  "on_budget m p = (case m (port_budget p) of (r, b) \<Rightarrow> (r, p\<lparr>port_budget := b\<rparr>))"

fun inner_read :: "nat \<Rightarrow> io_event list \<Rightarrow> (io_error + u8 list) \<times> io_event list" where
  "inner_read n [] = (Inr [], [])"
| "inner_read n (Data bs # es) =
     (Inr (take n bs), if length bs \<le> n then es else Data (drop n bs) # es)"
| "inner_read n (Failure e # es) = (Inl e, es)"

definition port_inner_read :: "nat \<Rightarrow> ('x port_scheme, io_error, u8 list) op" where
  "port_inner_read n p = (case inner_read n (events p) of (r, es) \<Rightarrow> (r, p\<lparr>events := es\<rparr>))"

text \<open>\<open>Metered::read\<close> into a buffer of \<open>n\<close> bytes.\<close>

definition metered_read :: "nat \<Rightarrow> ('x port_scheme, io_error, u8 list) op" where
  "metered_read n =
     bindS (map_errS Embedded (on_budget checkpoint)) (\<lambda>_ p.
       (let allowance = saturating_add (output_allowance (port_budget p)) 1;
            want = min (unat allowance) n
        in bindS (port_inner_read want) (\<lambda>bs.
             bindS (map_errS Embedded (on_budget (charge_output (of_nat (length bs))))) (\<lambda>_.
               retS bs)) p))"

text \<open>\<open>Counted::read\<close>.\<close>

definition port_read :: "nat \<Rightarrow> ('x port_scheme, io_error, u8 list) op" where
  "port_read n =
     bindS (metered_read n) (\<lambda>bs.
       bindS (updS (\<lambda>p. p\<lparr>position := position p + of_nat (length bs)\<rparr>)) (\<lambda>_. retS bs))"

fun event_size :: "io_event \<Rightarrow> nat" where
  "event_size (Data bs) = Suc (length bs)"
| "event_size (Failure _) = 1"

definition events_size :: "io_event list \<Rightarrow> nat" where
  "events_size es = sum_list (map event_size es)"

lemma inner_read_size_le: "inner_read n es = (r, es') \<Longrightarrow> events_size es' \<le> events_size es"
  by (induction n es rule: inner_read.induct) (auto simp: events_size_def split: if_splits)

lemma inner_read_size_less:
  "inner_read n es = (r, es') \<Longrightarrow> r \<noteq> Inr [] \<Longrightarrow> events_size es' < events_size es"
  by (induction n es rule: inner_read.induct) (auto simp: events_size_def split: if_splits)

lemma inner_read_length: "inner_read n es = (Inr bs, es') \<Longrightarrow> length bs \<le> n"
  by (induction n es rule: inner_read.induct) auto

lemma on_budget_events [simp]: "events (snd (on_budget m p)) = events p"
  by (simp add: on_budget_def split: prod.splits)

lemma port_read_length: "port_read n p = (Inr bs, p') \<Longrightarrow> length bs \<le> n"
  by (auto simp: port_read_def metered_read_def Let_def bindS_def map_errS_def port_inner_read_def
      split: prod.splits sum.splits dest!: inner_read_length)

lemma port_read_events:
  assumes "port_read n p = (r, p')"
  shows "events_size (events p') \<le> events_size (events p)"
    and "r = Inr bs \<Longrightarrow> bs \<noteq> [] \<Longrightarrow> events_size (events p') < events_size (events p)"
    and "r = Inl (Host k m) \<Longrightarrow> events_size (events p') < events_size (events p)"
proof -
  obtain r1 p1 where cp: "on_budget checkpoint p = (r1, p1)"
    by (cases "on_budget checkpoint p")
  have e1: "events p1 = events p" using on_budget_events [of checkpoint p] by (simp add: cp)
  define want where "want = min (unat (saturating_add (output_allowance (port_budget p1)) 1)) n"
  obtain r2 es2 where ir: "inner_read want (events p1) = (r2, es2)"
    by (cases "inner_read want (events p1)")
  define p2 where "p2 = p1\<lparr>events := es2\<rparr>"
  have run: "port_read n p = (case r1 of Inl e \<Rightarrow> (Inl (Embedded e), p1)
      | Inr _ \<Rightarrow> (case r2 of Inl e \<Rightarrow> (Inl e, p2)
        | Inr bs \<Rightarrow> (case on_budget (charge_output (of_nat (length bs))) p2 of
            (Inl e, p3) \<Rightarrow> (Inl (Embedded e), p3)
          | (Inr _, p3) \<Rightarrow> (Inr bs, p3\<lparr>position := position p3 + of_nat (length bs)\<rparr>))))"
    using cp ir by (auto simp: port_read_def metered_read_def Let_def bindS_def map_errS_def
        port_inner_read_def want_def p2_def split: sum.splits prod.splits)
  have e2: "events p2 = es2" by (simp add: p2_def)
  have e3: "on_budget m p2 = (x, q) \<Longrightarrow> events q = es2" for m :: "(budget, error, unit) op" and x q
    using on_budget_events [of m p2] by (simp add: p2_def)
  show "events_size (events p') \<le> events_size (events p)"
    using assms run e1 e2 inner_read_size_le [OF ir]
    by (auto split: sum.splits prod.splits dest!: e3)
  show "events_size (events p') < events_size (events p)" if "r = Inr bs" "bs \<noteq> []"
    using that assms run e1 inner_read_size_less [OF ir]
    by (auto split: sum.splits prod.splits dest!: e3)
  show "events_size (events p') < events_size (events p)" if "r = Inl (Host k m)"
    using that assms run e1 e2 inner_read_size_less [OF ir]
    by (auto split: sum.splits prod.splits)
qed

section \<open>Cursor helpers\<close>

text \<open>
  The loop of \<open>read_up_to\<close>: \<open>filled\<close> is the part of the buffer of \<open>n\<close> bytes read so far. It
  ends because every turn but the last consumes an event or a byte of the input.
\<close>

function read_loop :: "nat \<Rightarrow> u8 list \<Rightarrow> ('x port_scheme, error, u8 list) op" where
  "read_loop n filled p =
     (if length filled < n then
        (case port_read (n - length filled) p of
           (Inr bs, p') \<Rightarrow> if bs = [] then (Inr filled, p') else read_loop n (filled @ bs) p'
         | (Inl (Host k m), p') \<Rightarrow>
             if k = Interrupted then read_loop n filled p'
             else (Inl (from_read (Host k m)), p')
         | (Inl (Embedded e), p') \<Rightarrow> (Inl (from_read (Embedded e)), p'))
      else (Inr filled, p))"
  by pat_completeness auto
termination
  by (relation "measure (\<lambda>(n, filled, p). events_size (events p))") (auto dest: port_read_events(2,3) [OF sym])

declare read_loop.simps [simp del]

definition read_up_to :: "nat \<Rightarrow> ('x port_scheme, error, u8 list) op" where
  "read_up_to n = read_loop n []"

definition read_exact_or_truncated :: "nat \<Rightarrow> string \<Rightarrow> ('x port_scheme, error, u8 list) op" where
  "read_exact_or_truncated n what =
     bindS (read_up_to n) (\<lambda>bs.
       if length bs = n then retS bs
       else failS (truncated (''archive ended inside '' @ what)))"

lemma read_loop_length:
  "read_loop n filled p = (Inr bs, p') \<Longrightarrow> length filled \<le> n \<Longrightarrow> length bs \<le> n"
proof (induction n filled p rule: read_loop.induct)
  case (1 n filled p)
  show ?case
  proof (cases "length filled < n")
    case True
    obtain r q where rq: "port_read (n - length filled) p = (r, q)"
      by (cases "port_read (n - length filled) p")
    show ?thesis
      using 1 True rq port_read_length [of "n - length filled" p]
      by (subst (asm) (3) read_loop.simps)
        (fastforce split: sum.splits io_error.splits if_splits)
  next
    case False
    then show ?thesis using 1 by (simp add: read_loop.simps)
  qed
qed

lemma read_up_to_length: "read_up_to n p = (Inr bs, p') \<Longrightarrow> length bs \<le> n"
  by (simp add: read_up_to_def read_loop_length)

lemma discard_progress:
  assumes "read_up_to (min (unat count) 8192) p = (Inr bs, p')" and "bs \<noteq> []"
  shows "unat ((count :: u64) - of_nat (length bs)) < unat count"
proof -
  have le: "length bs \<le> unat count" and pos: "0 < length bs"
    using assms read_up_to_length [of "min (unat count) 8192"] by fastforce+
  have small: "unat (of_nat (length bs) :: u64) = length bs"
    using le unat_less_2p [of count] by (simp add: unat_of_nat_small)
  then have "unat (count - of_nat (length bs)) = unat count - length bs"
    using le by (simp add: unat_sub_noflow)
  then show ?thesis using le pos by linarith
qed

text \<open>\<open>discard\<close> reads into a scratch buffer of 8192 bytes.\<close>

function discard :: "u64 \<Rightarrow> ('x port_scheme, error, unit) op" where
  "discard count p =
     (if 0 < count then
        (case on_budget checkpoint p of
           (Inl e, p') \<Rightarrow> (Inl e, p')
         | (Inr _, p') \<Rightarrow>
             (case read_up_to (min (unat count) 8192) p' of
                (Inl e, p'') \<Rightarrow> (Inl e, p'')
              | (Inr bs, p'') \<Rightarrow>
                  if bs = [] then (Inl (truncated ''archive ended inside an entry body''), p'')
                  else discard (count - of_nat (length bs)) p''))
      else (Inr (), p))"
  by pat_completeness auto
termination
  by (relation "measure (\<lambda>(count, p). unat count)") (auto dest: discard_progress [OF sym])

declare discard.simps [simp del]

section \<open>Entry bodies\<close>

text \<open>
  A cursor over a sequential input: what is left of the current body and its padding
  (\<open>BodyState\<close>), whether the trailer was seen, and the checksum counters.
\<close>

record seq_cursor = port +
  remaining :: u64
  padding :: u64
  ended :: bool
  checked_entries :: u64
  verified_entries :: u64

definition seq_cursor_new :: "io_event list \<Rightarrow> budget \<Rightarrow> seq_cursor" where
  "seq_cursor_new es b =
     \<lparr>events = es, port_budget = b, position = 0, remaining = 0, padding = 0, ended = False,
      checked_entries = 0, verified_entries = 0\<rparr>"

text \<open>\<open>SequentialBody::read\<close>, whose \<open>delivered\<close> counter is only ever written.\<close>

definition sequential_read :: "nat \<Rightarrow> (seq_cursor, io_error, u8 list) op" where
  "sequential_read n c =
     (if remaining c = 0 \<or> n = 0 then (Inr [], c)
      else bindS (map_errS Embedded (on_budget checkpoint)) (\<lambda>_.
        bindS (port_read (min (unat (remaining c)) n)) (\<lambda>bs.
          if bs = [] then failS (Embedded (truncated ''archive ended inside an entry body''))
          else bindS (updS (\<lambda>c. c\<lparr>remaining := remaining c - of_nat (length bs)\<rparr>)) (\<lambda>_.
            retS bs))) c)"

text \<open>\<open>byte_sum\<close> of \<open>cpio_reader.rs\<close>: the sum of the bytes, wrapping at 32 bits.\<close>

definition byte_sum :: "u8 list \<Rightarrow> u32" where
  "byte_sum bytes = foldl (\<lambda>acc byte. acc + ucast byte) 0 bytes"

text \<open>The body of an entry: empty, the bytes of the input, or those bytes with a checksum.\<close>

datatype body =
    Empty_body
  | Sequential_body
  | Checked_body u32 u32 bool  \<comment> \<open>\<open>sum\<close>, \<open>expected\<close>, \<open>done\<close>\<close>

definition checked_read ::
  "nat \<Rightarrow> u32 \<Rightarrow> u32 \<Rightarrow> bool \<Rightarrow> seq_cursor \<Rightarrow> (io_error + u8 list) \<times> body \<times> seq_cursor" where
  "checked_read n acc expected done c =
     (case sequential_read n c of
        (Inl e, c') \<Rightarrow> (Inl e, Checked_body acc expected done, c')
      | (Inr bs, c') \<Rightarrow>
          (let acc' = acc + byte_sum bs
           in if remaining c' = 0 \<and> \<not> done then
                (if acc' \<noteq> expected
                 then (Inl (Embedded (corrupt ''cpio checksum mismatch'')),
                       Checked_body acc' expected True, c')
                 else (Inr bs, Checked_body acc' expected True,
                       c'\<lparr>verified_entries := verified_entries c' + 1\<rparr>))
              else (Inr bs, Checked_body acc' expected done, c')))"

fun body_read :: "nat \<Rightarrow> body \<Rightarrow> seq_cursor \<Rightarrow> (io_error + u8 list) \<times> body \<times> seq_cursor" where
  "body_read n Empty_body c = (Inr [], Empty_body, c)"
| "body_read n Sequential_body c =
     (case sequential_read n c of (r, c') \<Rightarrow> (r, Sequential_body, c'))"
| "body_read n (Checked_body acc expected done) c = checked_read n acc expected done c"

section \<open>Copying a body out\<close>

text \<open>
  A sink takes bytes up to its capacity, when it has one; \<open>write_all\<close> past it writes what fits and
  fails with the sink's error.
\<close>

record sink =
  written :: "u8 list"
  capacity :: "nat option"
  sink_error :: io_error

definition write_all :: "u8 list \<Rightarrow> (sink, io_error, unit) op" where
  "write_all bs s =
     (case capacity s of
        None \<Rightarrow> (Inr (), s\<lparr>written := written s @ bs\<rparr>)
      | Some n \<Rightarrow>
          if length (written s) + length bs \<le> n then (Inr (), s\<lparr>written := written s @ bs\<rparr>)
          else (Inl (sink_error s), s\<lparr>written := take n (written s @ bs)\<rparr>))"

text \<open>
  The loop with which an extracted body is copied to its file, 64 KiB at a time: it ends because
  each turn but the last consumes an event or a byte of the input.
\<close>

lemma sequential_read_events:
  assumes "sequential_read n c = (r, c')"
  shows "events_size (events c') \<le> events_size (events c)"
    and "r = Inr bs \<Longrightarrow> bs \<noteq> [] \<Longrightarrow> events_size (events c') < events_size (events c)"
    and "r = Inl (Host k m) \<Longrightarrow> events_size (events c') < events_size (events c)"
proof -
  obtain r1 c1 where cp: "on_budget checkpoint c = (r1, c1)" by (cases "on_budget checkpoint c")
  have e1: "events c1 = events c" using on_budget_events [of checkpoint c] by (simp add: cp)
  obtain r2 c2 where rd: "port_read (min (unat (remaining c)) n) c1 = (r2, c2)"
    by (cases "port_read (min (unat (remaining c)) n) c1")
  note less = port_read_events [OF rd]
  have run: "sequential_read n c = (if remaining c = 0 \<or> n = 0 then (Inr [], c)
      else case r1 of Inl e \<Rightarrow> (Inl (Embedded e), c1) | Inr _ \<Rightarrow>
        (case r2 of Inl e \<Rightarrow> (Inl e, c2)
         | Inr bs \<Rightarrow> if bs = [] then (Inl (Embedded (truncated ''archive ended inside an entry body'')), c2)
             else (Inr bs, c2\<lparr>remaining := remaining c2 - of_nat (length bs)\<rparr>)))"
    using cp rd by (auto simp: sequential_read_def bindS_def map_errS_def split: sum.splits prod.splits)
  show "events_size (events c') \<le> events_size (events c)"
    using assms less(1) e1 by (auto simp: run split: sum.splits if_splits)
  show "events_size (events c') < events_size (events c)" if "r = Inr bs" "bs \<noteq> []"
    using assms that less(2) by (auto simp: run e1 split: sum.splits if_splits)
  show "events_size (events c') < events_size (events c)" if "r = Inl (Host k m)"
    using assms that less(3) by (auto simp: run e1 split: sum.splits if_splits)
qed

lemma body_read_events:
  assumes "body_read n b c = (r, b', c')"
  shows "r = Inr bs \<Longrightarrow> bs \<noteq> [] \<Longrightarrow> events_size (events c') < events_size (events c)"
    and "r = Inl (Host k m) \<Longrightarrow> events_size (events c') < events_size (events c)"
  using assms sequential_read_events [of n c]
  by (cases b; fastforce simp: checked_read_def Let_def split: prod.splits sum.splits if_splits)+

lemma copy_progress:
  "(x, c1) = on_budget checkpoint c \<Longrightarrow> (Inl (Host k m), b', c2) = body_read n b c1 \<Longrightarrow>
     events_size (events c2) < events_size (events c)"
  "(x, c1) = on_budget checkpoint c \<Longrightarrow> (Inr bs, b', c2) = body_read n b c1 \<Longrightarrow> bs \<noteq> [] \<Longrightarrow>
     events_size (events c2) < events_size (events c)"
  using on_budget_events [of checkpoint c] body_read_events [of n b c1 _ b' c2]
  by (metis snd_conv)+

function copy_body ::
  "u8 list \<Rightarrow> body \<Rightarrow> seq_cursor \<Rightarrow> sink \<Rightarrow> (error + unit) \<times> seq_cursor \<times> sink" where
  "copy_body nm b c out =
     (case on_budget checkpoint c of
        (Inl e, c1) \<Rightarrow> (Inl e, c1, out)
      | (Inr _, c1) \<Rightarrow>
          (case body_read 65536 b c1 of
             (Inr bs, b', c2) \<Rightarrow>
               if bs = [] then (Inr (), c2, out)
               else (case write_all bs out of
                       (Inl e, out') \<Rightarrow> (Inl (with_entry nm (from_host e)), c2, out')
                     | (Inr _, out') \<Rightarrow> copy_body nm b' c2 out')
           | (Inl (Host k m), b', c2) \<Rightarrow>
               if k = Interrupted then copy_body nm b' c2 out
               else (Inl (with_entry nm (from_read (Host k m))), c2, out)
           | (Inl (Embedded e), b', c2) \<Rightarrow> (Inl (with_entry nm (from_read (Embedded e))), c2, out)))"
  by pat_completeness auto
termination
  by (relation "measure (\<lambda>(nm, b, c, out). events_size (events c))") (auto dest: copy_progress)

declare copy_body.simps [simp del]

section \<open>Reading a well-behaved input\<close>

text \<open>
  An input that never fails, may be interrupted at any point and may split its bytes in any
  way; a budget that is not cancelled and has room for the bytes that are left.
\<close>

fun quiet_event :: "io_event \<Rightarrow> bool" where
  "quiet_event (Data bs) \<longleftrightarrow> bs \<noteq> []"
| "quiet_event (Failure (Host k _)) \<longleftrightarrow> k = Interrupted"
| "quiet_event (Failure (Embedded _)) \<longleftrightarrow> False"

fun event_bytes :: "io_event \<Rightarrow> u8 list" where
  "event_bytes (Data bs) = bs"
| "event_bytes (Failure _) = []"

definition content :: "io_event list \<Rightarrow> u8 list" where
  "content es = concat (map event_bytes es)"

definition good :: "'x port_scheme \<Rightarrow> bool" where
  "good p \<longleftrightarrow> list_all quiet_event (events p) \<and> True \<notin> set (cancels (port_budget p)) \<and>
     unat (total_output (port_budget p)) + length (content (events p))
       \<le> unat (lim_total_output (limits (port_budget p)))"

text \<open>\<open>p'\<close> is \<open>p\<close> after the bytes \<open>bs\<close> were read from it, nothing else having changed.\<close>

definition advance :: "'x port_scheme \<Rightarrow> u8 list \<Rightarrow> 'x port_scheme \<Rightarrow> bool" where
  "advance p bs p' \<longleftrightarrow> good p' \<and> content (events p) = bs @ content (events p') \<and>
     position p' = position p + of_nat (length bs) \<and>
     limits (port_budget p') = limits (port_budget p) \<and>
     index_bytes (port_budget p') = index_bytes (port_budget p) \<and>
     entries (port_budget p') = entries (port_budget p) \<and>
     port.more p' = port.more p"

lemma advance_refl: "good p \<Longrightarrow> advance p [] p"
  by (simp add: advance_def)

lemma advance_trans: "advance p as q \<Longrightarrow> advance q bs r \<Longrightarrow> advance p (as @ bs) r"
  by (simp add: advance_def)

lemma advance_good: "advance p bs q \<Longrightarrow> good q"
  by (simp add: advance_def)

lemma checkpoint_good:
  assumes "good p"
  obtains q where "on_budget checkpoint p = (Inr (), q)" and "advance p [] q"
proof -
  let ?q = "p\<lparr>port_budget := (port_budget p)\<lparr>cancels := tl (cancels (port_budget p))\<rparr>\<rparr>"
  have "on_budget checkpoint p = (Inr (), ?q)"
    using assms by (cases "cancels (port_budget p)")
      (auto simp: on_budget_def checkpoint_def good_def intro: port.equality)
  moreover have "advance p [] ?q"
    using assms by (cases "cancels (port_budget p)") (auto simp: advance_def good_def)
  ultimately show thesis using that by blast
qed

lemma metered_want:
  assumes "good p" and "0 < n"
  shows "0 < min (unat (saturating_add (output_allowance (port_budget p)) 1)) n"
  using assms(2) by (simp add: unat_saturating_add)

lemma port_read_good:
  assumes "good p" and "0 < n"
  obtains (data) bs q where "port_read n p = (Inr bs, q)" and "advance p bs q"
      and "length bs \<le> n" and "bs = [] \<longleftrightarrow> content (events p) = []"
    | (interrupted) m q where "port_read n p = (Inl (Host Interrupted m), q)" and "advance p [] q"
proof -
  obtain p1 where cp: "on_budget checkpoint p = (Inr (), p1)" and a1: "advance p [] p1"
    using checkpoint_good [OF assms(1)] by blast
  have g1: "good p1" using a1 by (simp add: advance_def)
  have cont: "content (events p1) = content (events p)" using a1 by (simp add: advance_def)
  define want where "want = min (unat (saturating_add (output_allowance (port_budget p1)) 1)) n"
  have want: "0 < want" "want \<le> n"
    using metered_want [OF g1 assms(2)] by (auto simp: want_def)
  have read: "port_read n p = (case port_inner_read want p1 of
      (Inl e, p2) \<Rightarrow> (Inl e, p2)
    | (Inr bs, p2) \<Rightarrow> (case on_budget (charge_output (of_nat (length bs))) p2 of
            (Inl e, p3) \<Rightarrow> (Inl (Embedded e), p3)
          | (Inr _, p3) \<Rightarrow> (Inr bs, p3\<lparr>position := position p3 + of_nat (length bs)\<rparr>)))"
    using cp by (auto simp: port_read_def metered_read_def Let_def bindS_def map_errS_def
        want_def split: sum.splits prod.splits)
  show thesis
  proof (cases "events p1")
    case Nil
    let ?q = "p1\<lparr>events := [], port_budget := (port_budget p1)
      \<lparr>total_output := total_output (port_budget p1)\<rparr>\<rparr>"
    have "port_read n p = (Inr [], ?q)"
      using g1 Nil unat_less_2p [of "total_output (port_budget p1)"]
      by (simp add: read port_inner_read_def on_budget_def charge_output_def Let_def good_def
          saturating_add_def word_less_nat_alt content_def)
    moreover have "advance p [] ?q" using a1 Nil by (auto simp: advance_def good_def)
    ultimately show thesis using data cont Nil by (simp add: content_def)
  next
    case (Cons ev es)
    show thesis
    proof (cases ev)
      case (Data bs)
      let ?b = "port_budget p1"
      let ?bs = "take want bs"
      let ?q = "p1\<lparr>events := if length bs \<le> want then es else Data (drop want bs) # es,
        port_budget := ?b\<lparr>total_output := total_output ?b + of_nat (length ?bs)\<rparr>,
        position := position p1 + of_nat (length ?bs)\<rparr>"
      have ne: "bs \<noteq> []" using g1 Cons Data by (simp add: good_def)
      have room: "unat (total_output ?b) + length bs + length (content es)
          \<le> unat (lim_total_output (limits ?b))"
        using g1 Cons Data by (simp add: good_def content_def)
      then have fit: "unat (total_output ?b) + length ?bs < 2 ^ 64"
        using unat_less_2p [of "lim_total_output (limits ?b)"] by (simp add: min_def split: if_splits)
      then have len: "unat (of_nat (length ?bs) :: u64) = length ?bs"
        by (intro unat_of_nat_small) simp
      have sum: "unat (total_output ?b + of_nat (length ?bs)) = unat (total_output ?b) + length ?bs"
        using fit len unat_add_noflow [of "total_output ?b" "of_nat (length ?bs)"] by simp
      have "port_read n p = (Inr ?bs, ?q)"
        using Cons Data room fit len sum
        by (auto simp: read port_inner_read_def on_budget_def charge_output_def Let_def
            saturating_add_def word_less_nat_alt)
      moreover have "advance p ?bs ?q"
        using a1 g1 Cons Data ne room sum
        by (auto simp: advance_def good_def content_def min_def)
      moreover have "length ?bs \<le> n" using want by simp
      moreover have "?bs = [] \<longleftrightarrow> content (events p) = []"
        using cont [symmetric] Cons Data ne want by (simp add: content_def)
      ultimately show thesis using data by blast
    next
      case (Failure e)
      then obtain m where e: "e = Host Interrupted m"
        using g1 Cons by (cases e) (auto simp: good_def)
      have "port_read n p = (Inl (Host Interrupted m), p1\<lparr>events := es\<rparr>)"
        using Cons Failure e by (simp add: read port_inner_read_def)
      moreover have "advance p [] (p1\<lparr>events := es\<rparr>)"
        using a1 g1 Cons Failure by (auto simp: advance_def good_def content_def)
      ultimately show thesis using interrupted by blast
    qed
  qed
qed

lemma read_loop_good:
  "good p \<Longrightarrow> length filled \<le> n \<Longrightarrow> \<exists>q. read_loop n filled p =
     (Inr (filled @ take (n - length filled) (content (events p))), q) \<and>
     advance p (take (n - length filled) (content (events p))) q"
proof (induction n filled p rule: read_loop.induct)
  case (1 n filled p)
  show ?case
  proof (cases "length filled < n")
    case False
    then show ?thesis using 1 by (simp add: read_loop.simps advance_refl)
  next
    case True
    then have "0 < n - length filled" by simp
    with \<open>good p\<close> show ?thesis
    proof (cases rule: port_read_good)
      case (data bs q)
      show ?thesis
      proof (cases "bs = []")
        case True
        then show ?thesis using data \<open>length filled < n\<close> by (simp add: read_loop.simps [of n filled p])
      next
        case False
        have split: "content (events p) = bs @ content (events q)"
          using data by (simp add: advance_def)
        have "\<exists>r. read_loop n (filled @ bs) q =
            (Inr ((filled @ bs) @ take (n - length (filled @ bs)) (content (events q))), r) \<and>
            advance q (take (n - length (filled @ bs)) (content (events q))) r"
          by (rule 1(2) [OF True data(1) [symmetric] refl False])
            (use data \<open>length filled < n\<close> in \<open>auto simp: advance_def\<close>)
        then obtain r where r: "read_loop n (filled @ bs) q =
            (Inr ((filled @ bs) @ take (n - length (filled @ bs)) (content (events q))), r)"
          "advance q (take (n - length (filled @ bs)) (content (events q))) r"
          by blast
        have "take (n - length filled) (content (events p)) =
            bs @ take (n - length (filled @ bs)) (content (events q))"
          using data(3) by (simp add: split)
        then show ?thesis
          using r data True False advance_trans [OF data(2) r(2)]
          by (simp add: read_loop.simps [of n filled p])
      qed
    next
      case (interrupted m q)
      then have same: "content (events q) = content (events p)" by (simp add: advance_def)
      have "\<exists>r. read_loop n filled q =
          (Inr (filled @ take (n - length filled) (content (events q))), r) \<and>
          advance q (take (n - length filled) (content (events q))) r"
        by (rule 1(1) [OF True interrupted(1) [symmetric] refl refl refl])
          (use interrupted 1 in \<open>auto simp: advance_def\<close>)
      then show ?thesis
        using interrupted True same advance_trans [of p "[]" q]
        by (fastforce simp: read_loop.simps [of n filled p])
    qed
  qed
qed

lemma read_up_to_good:
  assumes "good p"
  obtains q where "read_up_to n p = (Inr (take n (content (events p))), q)"
    and "advance p (take n (content (events p))) q"
  using read_loop_good [OF assms, of "[]" n] that by (auto simp: read_up_to_def)

lemma discard_good:
  "good p \<Longrightarrow> unat count \<le> length (content (events p)) \<Longrightarrow>
     \<exists>q. discard count p = (Inr (), q) \<and> advance p (take (unat count) (content (events p))) q"
proof (induction count p rule: discard.induct)
  case (1 count p)
  show ?case
  proof (cases "0 < count")
    case False
    then have "count = 0" by (simp add: word_gt_0)
    then show ?thesis using 1 by (simp add: discard.simps [of 0] advance_refl)
  next
    case True
    then have pos: "0 < unat count" by (simp add: word_less_nat_alt)
    obtain p1 where p1: "on_budget checkpoint p = (Inr (), p1)" "advance p [] p1"
      using checkpoint_good [OF \<open>good p\<close>] by blast
    let ?w = "min (unat count) 8192"
    let ?bs = "take ?w (content (events p1))"
    obtain p2 where p2: "read_up_to ?w p1 = (Inr ?bs, p2)" "advance p1 ?bs p2"
      using read_up_to_good [OF advance_good [OF p1(2)], of ?w] by blast
    have cont: "content (events p1) = content (events p)" using p1 by (simp add: advance_def)
    have len: "length ?bs = ?w" using 1 by (simp add: cont)
    then have ne: "?bs \<noteq> []" using pos by (metis length_0_conv min_less_iff_conj not_less0 zero_less_numeral)
    have rest: "content (events p2) = drop ?w (content (events p))"
      using p2(2) cont by (metis advance_def append_take_drop_id same_append_eq)
    have left: "unat (count - of_nat (length ?bs)) = unat count - ?w"
      using len unat_less_2p [of count] by (simp add: unat_of_nat_small unat_sub_noflow)
    have "\<exists>q. discard (count - of_nat (length ?bs)) p2 = (Inr (), q) \<and>
        advance p2 (take (unat (count - of_nat (length ?bs))) (content (events p2))) q"
      by (rule 1(1) [OF True p1(1) [symmetric] refl p2(1) [symmetric] refl ne])
        (use advance_good [OF p2(2)] rest left 1 in auto)
    then obtain q where q: "discard (count - of_nat (length ?bs)) p2 = (Inr (), q)"
      "advance p2 (take (unat count - ?w) (drop ?w (content (events p)))) q"
      unfolding left rest by blast
    have "?bs @ take (unat count - ?w) (drop ?w (content (events p))) =
        take (unat count) (content (events p))"
      by (simp add: cont take_add [symmetric])
    then have "advance p (take (unat count) (content (events p))) q"
      using advance_trans [OF p1(2) advance_trans [OF p2(2) q(2)]] by simp
    then show ?thesis
      using True p1(1) p2(1) ne q(1) by (simp add: discard.simps [of count p])
  qed
qed

section \<open>The output limit\<close>

lemma metered_read_eq:
  "metered_read n p =
     (case on_budget checkpoint p of (Inl e, p1) \<Rightarrow> (Inl (Embedded e), p1)
      | (Inr _, p1) \<Rightarrow>
        (case inner_read (min (unat (saturating_add (output_allowance (port_budget p1)) 1)) n)
                (events p1) of
           (Inl e, es) \<Rightarrow> (Inl e, p1\<lparr>events := es\<rparr>)
         | (Inr bs, es) \<Rightarrow>
             (case on_budget (charge_output (of_nat (length bs))) (p1\<lparr>events := es\<rparr>) of
                (Inl e, p3) \<Rightarrow> (Inl (Embedded e), p3) | (Inr _, p3) \<Rightarrow> (Inr bs, p3))))"
  by (auto simp: metered_read_def Let_def bindS_def map_errS_def port_inner_read_def
      split: sum.splits prod.splits)

abbreviation total_of :: "'x port_scheme \<Rightarrow> nat" where
  "total_of p \<equiv> unat (total_output (port_budget p))"

abbreviation limit_of :: "'x port_scheme \<Rightarrow> nat" where
  "limit_of p \<equiv> unat (lim_total_output (limits (port_budget p)))"

lemma metered_read_step:
  assumes run: "metered_read n p = (r, q)" and small: "max (total_of p) (limit_of p) + 1 < 2 ^ 64"
  shows "limit_of q = limit_of p" and "total_of p \<le> total_of q"
    and "total_of q \<le> max (total_of p) (limit_of p) + 1"
    and "r = Inr bs \<Longrightarrow> total_of q = total_of p + length bs \<and> total_of q \<le> limit_of p"
proof -
  obtain r1 p1 where cp: "on_budget checkpoint p = (r1, p1)" by (cases "on_budget checkpoint p")
  have same: "total_output (port_budget p1) = total_output (port_budget p)"
    "limits (port_budget p1) = limits (port_budget p)"
    using cp by (auto simp: on_budget_def checkpoint_def split: list.splits if_splits prod.splits)
  define want where "want = min (unat (saturating_add (output_allowance (port_budget p1)) 1)) n"
  obtain r2 es where ir: "inner_read want (events p1) = (r2, es)"
    by (cases "inner_read want (events p1)")
  have want: "want \<le> limit_of p - total_of p + 1"
    by (simp add: want_def output_allowance_def same unat_saturating_add unat_saturating_sub)
  show "limit_of q = limit_of p" "total_of p \<le> total_of q"
    "total_of q \<le> max (total_of p) (limit_of p) + 1"
    "r = Inr bs \<Longrightarrow> total_of q = total_of p + length bs \<and> total_of q \<le> limit_of p"
  proof -
    have main: "limit_of q = limit_of p \<and> total_of p \<le> total_of q \<and>
      total_of q \<le> max (total_of p) (limit_of p) + 1 \<and>
      (r = Inr bs \<longrightarrow> total_of q = total_of p + length bs \<and> total_of q \<le> limit_of p)" for bs
    proof (cases r1)
      case (Inl e)
      then show ?thesis using run cp same by (auto simp: metered_read_eq)
    next
      case (Inr u)
      show ?thesis
      proof (cases r2)
        case Inl
        then show ?thesis using run cp ir same Inr by (auto simp: metered_read_eq want_def)
      next
        case got: (Inr got)
        have len: "length got \<le> want" using ir got inner_read_length by metis
        have fit: "total_of p + length got < 2 ^ 64" using len want small by linarith
        then have ulen: "unat (of_nat (length got) :: u64) = length got"
          by (intro unat_of_nat_small) simp
        have sum: "unat (total_output (port_budget p) + of_nat (length got)) = total_of p + length got"
          using fit ulen unat_add_noflow [of "total_output (port_budget p)" "of_nat (length got)"]
          by simp
        let ?q = "p1\<lparr>events := es, port_budget := (port_budget p1)
            \<lparr>total_output := total_output (port_budget p) + of_nat (length got)\<rparr>\<rparr>"
        have sat: "saturating_add (total_output (port_budget p)) (of_nat (length got)) =
            total_output (port_budget p) + of_nat (length got)"
          using fit ulen by (simp add: saturating_add_def)
        have charged: "on_budget (charge_output (of_nat (length got))) (p1\<lparr>events := es\<rparr>) =
            (if limit_of p < total_of p + length got
             then (Inl (limit_error (''decoded output exceeds '' @ show_nat (limit_of p) @ '' bytes'')), ?q)
             else (Inr (), ?q))"
          by (simp add: on_budget_def charge_output_def same sat word_less_nat_alt sum)
        have step: "metered_read n p = (if limit_of p < total_of p + length got
            then (Inl (Embedded (limit_error (''decoded output exceeds '' @
                    show_nat (limit_of p) @ '' bytes''))), ?q)
            else (Inr got, ?q))"
          unfolding metered_read_eq cp Inr
          using ir charged got by (simp add: want_def)
        have q: "q = ?q" using run step by (simp split: if_splits)
        have r: "r = Inr got' \<Longrightarrow> got' = got \<and> total_of p + length got \<le> limit_of p" for got'
          using run step by (simp split: if_splits)
        have tot: "total_of q = total_of p + length got"
          by (subst q) (simp add: sum)
        have lim: "limit_of q = limit_of p"
          by (subst q) (simp add: same)
        have "total_of q \<le> max (total_of p) (limit_of p) + 1"
          using tot len want by linarith
        moreover have "total_of q = total_of p + length bs \<and> total_of q \<le> limit_of p"
          if "r = Inr bs"
          using r [OF that] tot by simp
        ultimately show ?thesis using tot lim le_add1 [of "total_of p" "length got"] by metis
      qed
    qed
    show "limit_of q = limit_of p" "total_of p \<le> total_of q"
      "total_of q \<le> max (total_of p) (limit_of p) + 1"
      "r = Inr bs \<Longrightarrow> total_of q = total_of p + length bs \<and> total_of q \<le> limit_of p"
      using main by blast+
  qed
qed

text \<open>Everything a run of metered reads hands out; a failing read hands out nothing.\<close>

fun metered_reads :: "nat list \<Rightarrow> 'x port_scheme \<Rightarrow> u8 list" where
  "metered_reads [] p = []"
| "metered_reads (n # ns) p =
     (case metered_read n p of
        (Inl e, q) \<Rightarrow> metered_reads ns q
      | (Inr bs, q) \<Rightarrow> bs @ metered_reads ns q)"

lemma metered_reads_bound:
  "max (total_of p) (limit_of p) + length ns < 2 ^ 64 \<Longrightarrow>
     length (metered_reads ns p) \<le> limit_of p - total_of p"
proof (induction ns arbitrary: p)
  case Nil
  then show ?case by simp
next
  case (Cons n ns)
  obtain r q where run: "metered_read n p = (r, q)" by (cases "metered_read n p")
  have small: "max (total_of p) (limit_of p) + 1 < 2 ^ 64"
    using Cons.prems by (simp del: max_less_iff_conj)
  note step = metered_read_step [OF run small]
  have "max (total_of q) (limit_of q) + length ns < 2 ^ 64"
    using Cons.prems step(1,3) by (simp del: max_less_iff_conj)
  then have IH: "length (metered_reads ns q) \<le> limit_of q - total_of q" by (rule Cons.IH)
  show ?case
    using IH run step(1,2) step(4) by (cases r) fastforce+
qed

section \<open>Properties\<close>

text \<open>C33: the metered reader never hands out more than the output limit: over any run of reads, of
  any buffer sizes, from a fresh budget, whatever the input yields, fails or is interrupted, and
  also when the caller goes on reading after errors, the bytes delivered stay within
  \<open>total_output\<close>. The counter itself wraps at 64 bits, hence the bound on the number of reads.\<close>

theorem metered_output_bounded:
  assumes "total_output (port_budget p) = 0" and "limit_of p + length ns < 2 ^ 64"
  shows "length (metered_reads ns p) \<le> unat (lim_total_output (limits (port_budget p)))"
  using metered_reads_bound [of p ns] assms by simp

theorem metered_output_bounded_witness:
  "length (metered_reads [2, 5, 5]
     \<lparr>events = [Data [1, 2, 3], Data [4, 5, 6]],
      port_budget = uncancelable (default_limits\<lparr>lim_total_output := 4\<rparr>), position = 0\<rparr>) \<le> 4"
  using metered_output_bounded [of "\<lparr>events = [Data [1, 2, 3], Data [4, 5, 6]],
      port_budget = uncancelable (default_limits\<lparr>lim_total_output := 4\<rparr>), position = 0\<rparr>" "[2, 5, 5]"]
  by (simp add: uncancelable_def budget_new_def default_limits_def)

text \<open>\<open>read_up_to\<close> depends on the bytes of the input only: however they are split into reads and
  however often the reads are interrupted, it fills its buffer with the next bytes, leaves the
  rest, and moves the position by what it took.\<close>

theorem read_up_to_chunking:
  assumes "good p"
  shows "\<exists>q. read_up_to n p = (Inr (take n (content (events p))), q) \<and>
     good q \<and> content (events q) = drop n (content (events p)) \<and>
     position q = position p + of_nat (min (length (content (events p))) n)"
proof -
  obtain q where q: "read_up_to n p = (Inr (take n (content (events p))), q)"
    "advance p (take n (content (events p))) q"
    using read_up_to_good [OF assms] by blast
  have "content (events q) = drop n (content (events p))"
    using q(2) by (metis advance_def append_take_drop_id same_append_eq)
  then show ?thesis using q by (auto simp: advance_def min.commute)
qed

theorem read_up_to_chunking_witness:
  "\<exists>q. read_up_to 4
      \<lparr>events = [Data [1], Failure (Host Interrupted ''EINTR''), Data [2, 3], Data [4, 5]],
       port_budget = uncancelable default_limits, position = 0\<rparr> = (Inr [1, 2, 3, 4], q) \<and>
     content (events q) = [5]"
proof -
  let ?p = "\<lparr>events = [Data [1], Failure (Host Interrupted ''EINTR''), Data [2, 3], Data [4, 5]],
       port_budget = uncancelable default_limits, position = 0\<rparr>"
  have "good ?p"
    by (simp add: good_def content_def uncancelable_def budget_new_def default_limits_def GIB_def)
  from read_up_to_chunking [OF this, of 4] show ?thesis by (auto simp: content_def)
qed

end
