(* ===== verification/Xsh_Cpio.thy ===== *)
theory Xsh_Cpio
  imports Xsh_Io
begin

text \<open>
  The newc cpio format: the reader of \<open>cpio_reader.rs\<close> (\<open>CpioCursor\<close>) and the header writer of
  \<open>create.rs\<close>. The reader works on any input of \<open>Xsh_Io\<close>; the writer appends to a sink that may
  fail.
\<close>

section \<open>Header fields\<close>

definition HEADER :: nat where "HEADER = 110"
definition MAX_NAME :: u64 where "MAX_NAME = push_bit 16 1"
definition MAX_LINK :: u64 where "MAX_LINK = push_bit 16 1"

definition TRAILER :: "u8 list" where
  "TRAILER = bytes_of ''TRAILER!!!''"

definition align4 :: "u64 \<Rightarrow> u64" where
  "align4 n = (n + 3) AND NOT 3"

text \<open>Bytes that are not UTF-8 are not digits, so both errors of the code are this one.\<close>

definition hex_field :: "u8 list \<Rightarrow> nat \<Rightarrow> u64 \<Rightarrow> error + u32" where
  "hex_field header start off =
     ok_or (u32_from_hex (take 8 (drop start header)))
       (with_offset off (corrupt ''cpio header field is not hexadecimal''))"

definition kind_of :: "u32 \<Rightarrow> entry_kind" where
  "kind_of m =
     (let k = m AND 0xF000 in
      if k = 0x8000 then File
      else if k = 0x4000 then Directory
      else if k = 0xA000 then Symlink
      else if k = 0x2000 then CharDevice
      else if k = 0x6000 then BlockDevice
      else if k = 0x1000 then Fifo
      else Other)"

section \<open>The reader\<close>

text \<open>\<open>finish_trailer\<close>: only zero bytes may follow the trailer. Each turn but the last reads.\<close>

function finish_trailer :: "('x port_scheme, error, unit) op" where
  "finish_trailer p =
     (case on_budget checkpoint p of
        (Inl e, p') \<Rightarrow> (Inl e, p')
      | (Inr _, p') \<Rightarrow>
          (case read_up_to 8192 p' of
             (Inl e, p'') \<Rightarrow> (Inl e, p'')
           | (Inr bs, p'') \<Rightarrow>
               if bs = [] then (Inr (), p'')
               else if list_ex (\<lambda>b. b \<noteq> 0) bs
               then (Inl (with_offset (position p'') (corrupt ''data follows the cpio trailer'')), p'')
               else finish_trailer p''))"
  by pat_completeness auto

lemma read_loop_events:
  "read_loop n filled p = (r, q) \<Longrightarrow> events_size (events q) \<le> events_size (events p) \<and>
     (r = Inr bs \<longrightarrow> length filled < length bs \<longrightarrow> events_size (events q) < events_size (events p))"
proof (induction n filled p rule: read_loop.induct)
  case (1 n filled p)
  obtain r1 p1 where rd: "port_read (n - length filled) p = (r1, p1)"
    by (cases "port_read (n - length filled) p")
  note less = port_read_events [OF rd]
  show ?case
    using 1(3) less 1(1) [OF _ rd [symmetric]] 1(2) [OF _ rd [symmetric]]
    by (subst (asm) read_loop.simps)
       (fastforce simp: rd split: if_splits sum.splits io_error.splits)
qed

lemma read_up_to_events:
  "read_up_to n p = (Inr bs, q) \<Longrightarrow> bs \<noteq> [] \<Longrightarrow> events_size (events q) < events_size (events p)"
  using read_loop_events [of n "[]" p "Inr bs" q bs] by (simp add: read_up_to_def)

termination finish_trailer
proof (relation "measure (\<lambda>p. events_size (events p))", goal_cases)
  case 1
  show ?case by simp
next
  case (2 p r p' u s p'' bs)
  then show ?case
    using on_budget_events [of checkpoint p] read_up_to_events by (metis in_measure snd_conv)
qed

declare finish_trailer.simps [simp del]

text \<open>
  The fields of a header the reader uses, in the order it parses them; the first one that is not
  a number is the error.
\<close>

record newc_fields =
  f_mode :: u32
  f_uid :: u32
  f_gid :: u32
  f_nlink :: u32
  f_mtime :: u32
  f_size :: u32
  f_rdev :: "u32 \<times> u32"
  f_name_size :: u64
  f_check :: u32

definition parse_fields :: "u8 list \<Rightarrow> u64 \<Rightarrow> error + newc_fields" where
  "parse_fields header off =
     (let field = (\<lambda>index. hex_field header (6 + index * 8) off) in
      bindE (field 1) (\<lambda>mod'. bindE (field 2) (\<lambda>uid'. bindE (field 3) (\<lambda>gid'.
      bindE (field 4) (\<lambda>nlink. bindE (field 5) (\<lambda>mtime. bindE (field 6) (\<lambda>sz.
      bindE (field 9) (\<lambda>rdev_major. bindE (field 10) (\<lambda>rdev_minor.
      bindE (field 11) (\<lambda>name_size. bindE (field 12) (\<lambda>check.
        Inr \<lparr>f_mode = mod', f_uid = uid', f_gid = gid', f_nlink = nlink, f_mtime = mtime,
             f_size = sz, f_rdev = (rdev_major, rdev_minor), f_name_size = ucast name_size,
             f_check = check\<rparr>)))))))))))"

definition fields_meta :: "newc_fields \<Rightarrow> u8 list \<Rightarrow> entry_meta" where
  "fields_meta f nm =
     (let k = kind_of (f_mode f) in
      (entry_meta_new nm k)
        \<lparr>mode := Some (f_mode f AND 0xFFF), modified := Some (ucast (f_mtime f)),
         uid := Some (f_uid f), gid := Some (f_gid f), entry_size := Some (ucast (f_size f)),
         link_count := Some (f_nlink f),
         device := (if k = CharDevice \<or> k = BlockDevice then Some (f_rdev f) else None)\<rparr>)"

text \<open>The name after the header: its size is checked before it is charged and read.\<close>

definition read_name :: "u64 \<Rightarrow> u64 \<Rightarrow> ('x port_scheme, error, u8 list) op" where
  "read_name name_size off =
     (if name_size = 0 then failS (with_offset off (corrupt ''cpio entry has no name''))
      else if MAX_NAME < name_size then
        failS (limit_error (''cpio name declares '' @ show_nat (unat name_size) @
          '' bytes, over the '' @ show_nat (unat MAX_NAME) @ '' byte limit''))
      else
        bindS (on_budget (charge_index name_size)) (\<lambda>_.
        bindS (read_exact_or_truncated (unat name_size) ''a cpio name'') (\<lambda>raw.
          if last raw \<noteq> 0 \<or> 0 \<in> set (butlast raw)
          then failS (with_offset off (corrupt ''cpio name is not NUL terminated''))
          else
            bindS (discard (align4 (of_nat HEADER + name_size) - (of_nat HEADER + name_size)))
              (\<lambda>_. retS (butlast raw)))))"

definition read_meta :: "('x port_scheme, error, (entry_meta \<times> u32 option) option) op" where
  "read_meta =
     bindS (on_budget checkpoint) (\<lambda>_ p.
       (let off = position p in
        bindS (read_up_to HEADER) (\<lambda>header.
          if header = [] then
            failS (with_offset off (truncated ''cpio archive has no trailer''))
          else if length header < HEADER then
            failS (with_offset off (truncated ''cpio archive ended inside a header''))
          else if take 6 header \<noteq> bytes_of ''070701'' \<and> take 6 header \<noteq> bytes_of ''070702'' then
            failS (with_offset off (unsupported ''cpio magic is not newc (070701 or 070702)''))
          else
            bindS (liftS (parse_fields header off)) (\<lambda>f.
            bindS (read_name (f_name_size f) off) (\<lambda>nm.
              if nm = TRAILER then retS None
              else retS (Some (fields_meta f nm,
                     if take 6 header = bytes_of ''070702'' then Some (f_check f) else None)))))) p)"

text \<open>\<open>Cursor::next_entry\<close>: the entry and the body its reader gives.\<close>

definition read_link_target ::
  "entry_meta \<Rightarrow> u32 option \<Rightarrow> u64 \<Rightarrow> (seq_cursor, error, (entry_meta \<times> body) option) op" where
  "read_link_target meta check sz =
     (if MAX_LINK < sz then
        failS (with_entry (name meta) (limit_error ''cpio symlink target is too long''))
      else
        bindS (on_budget (charge_index sz)) (\<lambda>_.
        bindS (read_exact_or_truncated (unat sz) ''a cpio symlink target'') (\<lambda>target.
        bindS (discard (align4 sz - sz)) (\<lambda>_.
        bindS (case check of None \<Rightarrow> retS ()
          | Some expected \<Rightarrow>
              bindS (updS (\<lambda>c. c\<lparr>checked_entries := checked_entries c + 1\<rparr>)) (\<lambda>_.
                if byte_sum target \<noteq> expected
                then failS (with_entry (name meta) (corrupt ''cpio checksum mismatch''))
                else updS (\<lambda>c. c\<lparr>verified_entries := verified_entries c + 1\<rparr>))) (\<lambda>_.
          let meta' = meta\<lparr>link := Some target\<rparr> in
          bindS (on_budget (charge_index (meta_index_bytes meta'))) (\<lambda>_.
            retS (Some (meta', Empty_body))))))))"

definition open_body ::
  "entry_meta \<Rightarrow> u32 option \<Rightarrow> u64 \<Rightarrow> (seq_cursor, error, (entry_meta \<times> body) option) op" where
  "open_body meta check sz =
     bindS (on_budget (charge_index (meta_index_bytes meta))) (\<lambda>_.
     bindS (updS (\<lambda>c. c\<lparr>remaining := sz, padding := align4 sz - sz\<rparr>)) (\<lambda>_.
       case check of
         None \<Rightarrow> retS (Some (meta, Sequential_body))
       | Some expected \<Rightarrow>
           bindS (updS (\<lambda>c. c\<lparr>checked_entries := checked_entries c + 1\<rparr>)) (\<lambda>_.
             retS (Some (meta, Checked_body 0 expected False)))))"

definition admit_entry ::
  "entry_meta \<Rightarrow> u32 option \<Rightarrow> (seq_cursor, error, (entry_meta \<times> body) option) op" where
  "admit_entry meta check =
     bindS (on_budget count_entry) (\<lambda>_.
       let sz = (case entry_size meta of None \<Rightarrow> 0 | Some n \<Rightarrow> n) in
       bindS (on_budget (declare_entry_size sz)) (\<lambda>_.
         if ekind meta = Symlink then read_link_target meta check sz
         else open_body meta check sz))"

definition skip_body :: "(seq_cursor, error, unit) op" where
  "skip_body c =
     (let leftover = remaining c + padding c
      in discard leftover (c\<lparr>remaining := 0, padding := 0\<rparr>))"

definition next_entry :: "(seq_cursor, error, (entry_meta \<times> body) option) op" where
  "next_entry =
     bindS skip_body (\<lambda>_ c.
       if ended c then (Inr None, c)
       else
         bindS read_meta (\<lambda>found.
           case found of
             None \<Rightarrow>
               bindS (updS (\<lambda>c. c\<lparr>ended := True\<rparr>)) (\<lambda>_.
               bindS finish_trailer (\<lambda>_. retS None))
           | Some (meta, check) \<Rightarrow> admit_entry meta check) c)"

definition cursor_finish :: "seq_cursor \<Rightarrow> finish" where
  "cursor_finish c =
     \<lparr>structure_complete = ended c,
      checksum_verified = (ended c \<and> 0 < checked_entries c \<and>
        checked_entries c = verified_entries c)\<rparr>"

section \<open>The writer\<close>

record cpio_header =
  h_inode :: u32
  h_mode :: u32
  h_uid :: u32
  h_gid :: u32
  h_mtime :: u32
  h_size :: u64
  h_rdev :: "u32 \<times> u32"

text \<open>\<open>{:08x}\<close>.\<close>

definition hex_char :: "nat \<Rightarrow> u8" where
  "hex_char d = (if d < 10 then of_nat (48 + d) else of_nat (87 + d))"

fun hex_text :: "nat \<Rightarrow> nat \<Rightarrow> u8 list" where
  "hex_text 0 n = []"
| "hex_text (Suc k) n = hex_text k (n div 16) @ [hex_char (n mod 16)]"

definition hex08 :: "u32 \<Rightarrow> u8 list" where
  "hex08 w = hex_text 8 (unat w)"

definition pad_bytes :: "u64 \<Rightarrow> u8 list" where
  "pad_bytes n = replicate (unat ((4 - n mod 4) mod 4)) 0"

definition pad :: "u64 \<Rightarrow> (sink, error, unit) op" where
  "pad n = map_errS from_host (write_all (pad_bytes n))"

definition header_text :: "cpio_header \<Rightarrow> u32 \<Rightarrow> u8 list" where
  "header_text h name_size =
     bytes_of ''070701'' @ hex08 (h_inode h) @ hex08 (h_mode h) @ hex08 (h_uid h) @
     hex08 (h_gid h) @ hex08 1 @ hex08 (h_mtime h) @ hex08 (ucast (h_size h)) @ hex08 0 @
     hex08 0 @ hex08 (fst (h_rdev h)) @ hex08 (snd (h_rdev h)) @ hex08 name_size @ hex08 0"

definition write_cpio_header :: "cpio_header \<Rightarrow> u8 list \<Rightarrow> (sink, error, unit) op" where
  "write_cpio_header h nm =
     (if 2 ^ 32 \<le> unat (h_size h) then
        failS (with_entry nm (limit_error ''a cpio entry cannot exceed 4 GiB''))
      else if 2 ^ 32 \<le> length nm + 1 then
        failS (with_entry nm (limit_error ''a cpio name is too long''))
      else
        let name_size = of_nat (length nm + 1) :: u32;
            text = header_text h name_size
        in bindS (map_errS from_host (bindS (write_all text) (\<lambda>_.
             bindS (write_all nm) (\<lambda>_. write_all [0])))) (\<lambda>_.
             pad (110 + ucast name_size)))"

section \<open>Numbers and padding\<close>

lemma hex_char_digit: "d < 16 \<Longrightarrow> hex_digit (hex_char d) = Some d"
proof -
  have "list_all (\<lambda>d. hex_digit (hex_char d) = Some d) [0..<16]" by code_simp
  moreover assume "d < 16"
  ultimately show ?thesis by (simp add: list_all_iff)
qed

lemma length_hex_text [simp]: "length (hex_text k n) = k"
  by (induction k n rule: hex_text.induct) simp_all

lemma hex_digits_append:
  "hex_digits acc (xs @ [b]) = (case hex_digits acc xs of None \<Rightarrow> None
     | Some a \<Rightarrow> (case hex_digit b of None \<Rightarrow> None
        | Some d \<Rightarrow> if a * 16 + d < 2 ^ 32 then Some (a * 16 + d) else None))"
  by (induction acc xs rule: hex_digits.induct) (auto split: option.splits)

lemma hex_digits_text: "k \<le> 8 \<Longrightarrow> n < 16 ^ k \<Longrightarrow> hex_digits 0 (hex_text k n) = Some n"
proof (induction k arbitrary: n)
  case 0
  then show ?case by simp
next
  case (Suc k)
  have "n div 16 < 16 ^ k" using Suc.prems by (simp add: less_mult_imp_div_less)
  moreover have "n < 2 ^ 32"
    using Suc.prems power_increasing [of "Suc k" 8 "16::nat"] by simp
  ultimately show ?case
    using Suc by (simp add: hex_digits_append hex_char_digit)
qed

lemma hex_digit_plus: "hex_digit 43 = None"
  by (simp add: hex_digit_def)

lemma hex_text_digits: "b \<in> set (hex_text k n) \<Longrightarrow> hex_digit b \<noteq> None"
  by (induction k n rule: hex_text.induct) (auto simp: hex_char_digit)

lemma u32_from_hex08: "u32_from_hex (hex08 w) = Some w"
proof -
  obtain b bs where b: "hex08 w = b # bs"
    by (metis hex08_def length_hex_text length_greater_0_conv zero_less_numeral neq_Nil_conv)
  have "b \<noteq> 43"
    using hex_text_digits [of b 8 "unat w"] b hex_digit_plus by (auto simp: hex08_def)
  moreover have "hex_digits 0 (hex08 w) = Some (unat w)"
    using unat_less_2p [of w] by (simp add: hex08_def hex_digits_text)
  ultimately show ?thesis
    by (simp add: u32_from_hex_def b)
qed

lemma length_hex08 [simp]: "length (hex08 w) = 8"
  by (simp add: hex08_def)

lemma length_bytes_of [simp]: "length (bytes_of s) = length s"
  by (simp add: bytes_of_def)
lemma and_not_3: "unat ((w :: u64) AND NOT 3) = 4 * (unat w div 4)"
proof -
  have "w AND NOT 3 = push_bit 2 (drop_bit 2 w)"
  proof (rule bit_word_eqI)
    fix n assume "n < LENGTH(64)"
    have three: "(3 :: u64) = mask 2" by (simp add: mask_eq_exp_minus_1)
    have "2 \<le> n \<Longrightarrow> Suc (Suc (n - 2)) = n" by simp
    then show "bit (w AND NOT 3) n = bit (push_bit 2 (drop_bit 2 w)) n"
      using \<open>n < LENGTH(64)\<close> unfolding three by (auto simp: bit_simps not_less)
  qed
  moreover have "unat (drop_bit 2 w) = unat w div 4"
    by (simp add: unat_drop_bit_eq drop_bit_eq_div unat_div)
  moreover have "unat w div 4 * 4 < 2 ^ 64"
    using unat_less_2p [of w] div_times_less_eq_dividend [of "unat w" 4] by simp
  ultimately show ?thesis
    using unat_mul_noflow [of "drop_bit 2 w" 4] by (simp add: push_bit_eq_mult)
qed

lemma round_up_4: "4 * ((k + 3) div 4) - k = (4 - k mod 4) mod (4 :: nat)"
proof -
  obtain q r where k: "k = 4 * q + r" and r: "r < 4"
    by (metis mod_less_divisor mult_div_mod_eq zero_less_numeral)
  have "(4 * q + r + 3) div 4 = q + (r + 3) div 4" by simp
  moreover have "r = 0 \<or> r = 1 \<or> r = 2 \<or> r = 3" using r by linarith
  ultimately show ?thesis by (auto simp: k)
qed

lemma padding_align4:
  assumes "unat (n :: u64) + 3 < 2 ^ 64"
  shows "unat (align4 n - n) = unat ((4 - n mod 4) mod 4)"
    and "unat n \<le> unat (align4 n)" 
proof -
  have sum: "unat (n + 3) = unat n + 3"
    using assms unat_add_noflow [of n 3] by simp
  have up: "unat (align4 n) = 4 * ((unat n + 3) div 4)"
    unfolding align4_def and_not_3 sum ..
  then show le: "unat n \<le> unat (align4 n)" by simp
  have l: "unat (align4 n - n) = 4 * ((unat n + 3) div 4) - unat n"
    using unat_sub_noflow [OF le] up by simp
  have m: "unat (n mod 4) = unat n mod 4" by (simp add: unat_mod)
  then have "unat (4 - n mod 4) = 4 - unat n mod 4"
    using unat_sub_noflow [of "n mod 4" 4] by simp
  then have "unat ((4 - n mod 4) mod 4) = (4 - unat n mod 4) mod 4" by (simp add: unat_mod)
  then show "unat (align4 n - n) = unat ((4 - n mod 4) mod 4)"
    using l by (simp add: round_up_4)
qed

end
