(* ===== verification/Xsh_Cpio_Correct.thy ===== *)
theory Xsh_Cpio_Correct
  imports Xsh_Cpio
begin

text \<open>
  The newc reader against the writer's format: what each step of the cursor does to a
  well-behaved input that holds a frame the header writer produces, the copy loop on a body, and
  the round trip of a whole archive. \<open>moved\<close> is the relation all steps are stated with: bytes
  read, index bytes charged, entries counted.
\<close>

unbundle bit_operations_syntax

section \<open>Reading what was written\<close>

definition charged :: "nat \<Rightarrow> 'x port_scheme \<Rightarrow> 'x port_scheme" where
  "charged n p = p\<lparr>port_budget := (port_budget p)
     \<lparr>index_bytes := index_bytes (port_budget p) + of_nat n\<rparr>\<rparr>"

abbreviation index_of :: "'x port_scheme \<Rightarrow> nat" where
  "index_of p \<equiv> unat (index_bytes (port_budget p))"

abbreviation index_limit :: "'x port_scheme \<Rightarrow> nat" where
  "index_limit p \<equiv> unat (lim_index_bytes (limits (port_budget p)))"

lemma charge_index_ok:
  assumes "index_of p + n \<le> index_limit p"
  shows "on_budget (charge_index (of_nat n)) p = (Inr (), charged n p)"
    and "index_of (charged n p) = index_of p + n"
proof -
  have fit: "index_of p + n < 2 ^ 64"
    using assms unat_less_2p [of "lim_index_bytes (limits (port_budget p))"] by simp
  then have un: "unat (of_nat n :: u64) = n" by (intro unat_of_nat_small) simp
  have sum: "unat (index_bytes (port_budget p) + of_nat n) = index_of p + n"
    using fit un unat_add_noflow [of "index_bytes (port_budget p)" "of_nat n"] by simp
  have "saturating_add (index_bytes (port_budget p)) (of_nat n) =
      index_bytes (port_budget p) + of_nat n"
    using fit un by (simp add: saturating_add_def)
  then show "on_budget (charge_index (of_nat n)) p = (Inr (), charged n p)"
    using assms by (simp add: on_budget_def charge_index_def charged_def word_less_nat_alt sum)
  show "index_of (charged n p) = index_of p + n" by (simp add: charged_def sum)
qed

lemma charged_advance: "advance p bs q \<Longrightarrow> advance (charged n p) bs (charged n q)"
  by (auto simp: advance_def charged_def good_def)

lemma charged_good [simp]: "good (charged n p) = good p"
  by (simp add: charged_def good_def)

lemma charged_events [simp]: "events (charged n p) = events p"
  by (simp add: charged_def)

lemma charged_more [simp]: "port.more (charged n p) = port.more p"
  by (simp add: charged_def)

lemma read_exact_good:
  assumes "good p" and "content (events p) = bs @ rest" and "length bs = n"
  obtains q where "read_exact_or_truncated n what p = (Inr bs, q)" and "advance p bs q"
    and "content (events q) = rest"
proof -
  obtain q where q: "read_up_to n p = (Inr (take n (content (events p))), q)"
    "advance p (take n (content (events p))) q"
    using read_up_to_good [OF assms(1)] by blast
  have tk: "take n (content (events p)) = bs" using assms by simp
  show thesis
    by (rule that [of q]) (use q tk assms in \<open>auto simp: read_exact_or_truncated_def bindS_def advance_def\<close>)
qed

lemma read_up_to_exact:
  assumes "good p" and "content (events p) = bs @ rest" and "length bs = n"
  obtains q where "read_up_to n p = (Inr bs, q)" and "advance p bs q"
    and "content (events q) = rest"
proof -
  obtain q where q: "read_up_to n p = (Inr (take n (content (events p))), q)"
    "advance p (take n (content (events p))) q"
    using read_up_to_good [OF assms(1)] by blast
  have tk: "take n (content (events p)) = bs" using assms by simp
  show thesis by (rule that [of q]) (use q tk assms in \<open>auto simp: advance_def\<close>)
qed

lemma discard_exact:
  assumes "good p" and "content (events p) = bs @ rest" and "length bs = unat n"
  obtains q where "discard n p = (Inr (), q)" and "advance p bs q"
    and "content (events q) = rest"
proof -
  obtain q where q: "discard n p = (Inr (), q)"
    "advance p (take (unat n) (content (events p))) q"
    using discard_good [OF assms(1), of n] assms by auto
  have tk: "take (unat n) (content (events p)) = bs" using assms by simp
  show thesis by (rule that [of q]) (use q tk assms in \<open>auto simp: advance_def\<close>)
qed

lemma hex_field_at:
  "length xs = start \<Longrightarrow> hex_field (xs @ hex08 w @ ys) start off = Inr w"
  by (simp add: hex_field_def u32_from_hex08)

definition header_fields :: "cpio_header \<Rightarrow> u32 \<Rightarrow> newc_fields" where
  "header_fields h name_size =
     \<lparr>f_mode = h_mode h, f_uid = h_uid h, f_gid = h_gid h, f_nlink = 1, f_mtime = h_mtime h,
      f_size = ucast (h_size h), f_rdev = h_rdev h, f_name_size = ucast name_size, f_check = 0\<rparr>"

lemma parse_header_text: "parse_fields (header_text h ns) off = Inr (header_fields h ns)"
proof -
  have field: "hex_field (header_text h ns) (6 + i * 8) off = Inr w"
    if "take 8 (drop (6 + i * 8) (header_text h ns)) = hex08 w" for i w
    using that by (simp add: hex_field_def u32_from_hex08)
  show ?thesis
    unfolding parse_fields_def Let_def
    by (simp add: field header_text_def header_fields_def hex_field_def u32_from_hex08)
qed

lemma length_header_text [simp]: "length (header_text h ns) = HEADER"
  by (simp add: header_text_def HEADER_def)

lemma header_magic: "take 6 (header_text h ns) = bytes_of ''070701''"
  by (simp add: header_text_def)


definition frame :: "cpio_header \<Rightarrow> u8 list \<Rightarrow> u8 list" where
  "frame h nm = header_text h (of_nat (length nm + 1)) @ nm @ [0] @
     pad_bytes (110 + ucast (of_nat (length nm + 1) :: u32))"

lemma name_size_u64:
  "N < 2 ^ 32 \<Longrightarrow> (ucast (of_nat N :: u32) :: u64) = of_nat N"
  by (simp add: word_unat_eq_iff unsigned_ucast_eq unsigned_of_nat take_bit_nat_eq_self)

lemma read_name_frame:
  assumes good: "good p" and cont: "content (events p) = nm @ [0] @ pad_bytes (110 + of_nat N) @ rest"
    and N: "N = length nm + 1" and short: "N \<le> 2 ^ 16" and nul: "0 \<notin> set nm"
    and room: "index_of p + N \<le> index_limit p"
  obtains q where "read_name (of_nat N) off p = (Inr nm, q)"
    and "advance (charged N p) (nm @ [0] @ pad_bytes (110 + of_nat N)) q"
    and "content (events q) = rest"
proof -
  let ?n = "of_nat N :: u64"
  let ?pad = "pad_bytes (110 + ?n)"
  have un: "unat ?n = N" using short by (intro unat_of_nat_small) simp
  have pos: "?n \<noteq> 0" using un N by (metis add_is_0 one_neq_zero unat_0)
  have small: "\<not> MAX_NAME < ?n" using un short by (simp add: MAX_NAME_def word_less_nat_alt)
  have charge: "on_budget (charge_index ?n) p = (Inr (), charged N p)"
    using charge_index_ok(1) [OF room] .
  obtain p1 where p1: "read_exact_or_truncated N ''a cpio name'' (charged N p) = (Inr (nm @ [0]), p1)"
      "advance (charged N p) (nm @ [0]) p1" "content (events p1) = ?pad @ rest"
    by (rule read_exact_good [of "charged N p" "nm @ [0]" "?pad @ rest" N])
      (use good cont N in simp_all)
  have u110: "unat (110 + ?n) = 110 + N"
    using un short unat_add_noflow [of 110 ?n] by simp
  have padlen: "length ?pad = unat (align4 (of_nat HEADER + ?n) - (of_nat HEADER + ?n))"
    using padding_align4(1) [of "110 + ?n"] u110 short by (simp add: pad_bytes_def HEADER_def)
  obtain q where q: "discard (align4 (of_nat HEADER + ?n) - (of_nat HEADER + ?n)) p1 = (Inr (), q)"
      "advance p1 ?pad q" "content (events q) = rest"
    using discard_exact [OF advance_good [OF p1(2)] p1(3) padlen] by blast
  have "read_name ?n off p = (Inr nm, q)"
    using pos small charge p1(1) q(1) un nul
    by (simp add: read_name_def bindS_def)
  then show thesis using that q(3) advance_trans [OF p1(2) q(2)] by simp
qed

lemma read_meta_frame:
  assumes good: "good p" and cont: "content (events p) = frame h nm @ rest"
    and N: "N = length nm + 1" and short: "N \<le> 2 ^ 16" and nul: "0 \<notin> set nm"
    and room: "index_of p + N \<le> index_limit p"
  obtains q where "read_meta p = (Inr (if nm = TRAILER then None
       else Some (fields_meta (header_fields h (of_nat N)) nm, None)), q)"
    and "advance (charged N p) (frame h nm) q"
    and "content (events q) = rest"
proof -
  let ?ns = "of_nat N :: u32"
  let ?text = "header_text h ?ns"
  let ?tail = "nm @ [0] @ pad_bytes (110 + of_nat N)"
  have ns: "(ucast ?ns :: u64) = of_nat N"
    using short by (intro name_size_u64) simp
  have fr: "frame h nm = ?text @ ?tail" using ns by (simp only: frame_def N)
  obtain p1 where p1: "on_budget checkpoint p = (Inr (), p1)" "advance p [] p1"
    using checkpoint_good [OF good] by blast
  have c1: "content (events p1) = ?text @ ?tail @ rest"
    using p1(2) cont fr by (simp add: advance_def)
  obtain p2 where p2: "read_up_to HEADER p1 = (Inr ?text, p2)" "advance p1 ?text p2"
      "content (events p2) = ?tail @ rest"
    using read_up_to_exact [OF advance_good [OF p1(2)] c1 length_header_text] by blast
  have adv2: "advance p ?text p2" using advance_trans [OF p1(2) p2(2)] by simp
  have room2: "index_of p2 + N \<le> index_limit p2"
    using adv2 room by (simp add: advance_def)
  obtain q where q: "read_name (of_nat N) (position p1) p2 = (Inr nm, q)"
      "advance (charged N p2) ?tail q" "content (events q) = rest"
    by (rule read_name_frame [OF advance_good [OF p2(2)] _ N short nul room2])
      (use p2(3) in auto)
  have ne: "?text \<noteq> []" by (metis HEADER_def length_header_text list.size(3) zero_neq_numeral)
  have "read_meta p = (Inr (if nm = TRAILER then None
       else Some (fields_meta (header_fields h ?ns) nm, None)), q)"
    using p1(1) p2(1) q(1) ne ns
    by (simp add: read_meta_def Let_def header_magic parse_header_text bindS_def header_fields_def
        bytes_of_def)
  moreover have "advance (charged N p) (frame h nm) q"
    using advance_trans [OF charged_advance [OF adv2] q(2)] by (simp add: fr)
  ultimately show thesis using that q(3) by blast
qed

text \<open>The cursor after bytes were read, \<open>idx\<close> index bytes charged and \<open>k\<close> entries counted.\<close>

definition moved :: "'x port_scheme \<Rightarrow> u8 list \<Rightarrow> nat \<Rightarrow> nat \<Rightarrow> 'x port_scheme \<Rightarrow> bool" where
  "moved c bs idx k c' \<longleftrightarrow> good c' \<and> content (events c) = bs @ content (events c') \<and>
     limits (port_budget c') = limits (port_budget c) \<and>
     index_bytes (port_budget c') = index_bytes (port_budget c) + of_nat idx \<and>
     entries (port_budget c') = entries (port_budget c) + of_nat k"

definition counted :: "'x port_scheme \<Rightarrow> 'x port_scheme" where
  "counted p = p\<lparr>port_budget := (port_budget p)\<lparr>entries := entries (port_budget p) + 1\<rparr>\<rparr>"

lemma moved_trans:
  "moved a bs i k b \<Longrightarrow> moved b bs' i' k' c \<Longrightarrow> moved a (bs @ bs') (i + i') (k + k') c"
  by (simp add: moved_def)

lemma moved_advance: "advance a bs b \<Longrightarrow> moved a bs 0 0 b"
  by (simp add: moved_def advance_def)

lemma moved_charged: "good a \<Longrightarrow> moved a [] n 0 (charged n a)"
  by (simp add: moved_def charged_def good_def)

lemma moved_counted: "good a \<Longrightarrow> moved a [] 0 1 (counted a)"
  by (simp add: moved_def counted_def good_def)

lemma moved_good: "moved a bs i k b \<Longrightarrow> good b"
  by (simp add: moved_def)

lemma moved_content: "moved a bs i k b \<Longrightarrow> content (events a) = bs @ content (events b)"
  by (simp add: moved_def)

lemma counted_simps [simp]:
  "good (counted p) = good p" "events (counted p) = events p" "port.more (counted p) = port.more p"
  by (simp_all add: counted_def good_def)

lemma seq_more: "port.more (c' :: seq_cursor) = port.more c \<Longrightarrow>
    remaining c' = remaining c \<and> padding c' = padding c \<and> ended c' = ended c \<and>
    checked_entries c' = checked_entries c \<and> verified_entries c' = verified_entries c"
  by (cases c; cases c') simp

text \<open>A state update outside the input and the budget.\<close>

definition same_port :: "'x port_scheme \<Rightarrow> 'x port_scheme \<Rightarrow> bool" where
  "same_port a b \<longleftrightarrow> events b = events a \<and> port_budget b = port_budget a"

lemma moved_same_port: "moved a bs i k b \<Longrightarrow> same_port b c \<Longrightarrow> moved a bs i k c"
  by (auto simp: moved_def same_port_def good_def)

lemma count_entry_ok:
  assumes "unat (entries (port_budget p)) + 1 \<le> unat (lim_entries (limits (port_budget p)))"
  shows "on_budget count_entry p = (Inr (), counted p)"
proof -
  have "unat (entries (port_budget p) + 1) = unat (entries (port_budget p)) + 1"
    using assms unat_less_2p [of "lim_entries (limits (port_budget p))"]
      unat_add_noflow [of "entries (port_budget p)" 1] by simp
  then show ?thesis
    using assms by (simp add: on_budget_def count_entry_def Let_def counted_def word_less_nat_alt)
qed

lemma declare_entry_size_ok:
  "unat n \<le> unat (lim_entry_output (limits (port_budget p))) \<Longrightarrow>
     on_budget (declare_entry_size n) p = (Inr (), p)"
  by (simp add: on_budget_def declare_entry_size_def word_less_nat_alt)

definition entry_bytes :: "cpio_header \<times> u8 list \<times> u8 list \<Rightarrow> u8 list" where
  "entry_bytes = (\<lambda>(h, nm, data). frame h nm @ data @ pad_bytes (of_nat (length data)))"

definition entry_cost :: "cpio_header \<times> u8 list \<times> u8 list \<Rightarrow> nat" where
  "entry_cost = (\<lambda>(h, nm, data). length nm + 1 + (96 + length nm) +
     (if kind_of (h_mode h) = Symlink then 2 * length data else 0))"

definition writable :: "limits \<Rightarrow> cpio_header \<times> u8 list \<times> u8 list \<Rightarrow> bool" where
  "writable l = (\<lambda>(h, nm, data).
     h_size h = of_nat (length data) \<and> length data < 2 ^ 32 \<and>
     length data \<le> unat (lim_entry_output l) \<and>
     length nm + 1 \<le> 2 ^ 16 \<and> 0 \<notin> set nm \<and> nm \<noteq> TRAILER \<and>
     (kind_of (h_mode h) = Symlink \<longrightarrow> length data \<le> 2 ^ 16))"

definition read_back :: "cpio_header \<times> u8 list \<times> u8 list \<Rightarrow> entry_meta" where
  "read_back = (\<lambda>(h, nm, data).
     (let m = fields_meta (header_fields h 0) nm in
      if kind_of (h_mode h) = Symlink then m\<lparr>link := Some data\<rparr> else m))"

lemma fields_meta_size: "fields_meta (header_fields h ns) nm = fields_meta (header_fields h 0) nm"
  by (simp add: fields_meta_def header_fields_def cong: if_cong)

lemma fields_meta_simps [simp]:
  "name (fields_meta f nm) = nm" "ekind (fields_meta f nm) = kind_of (f_mode f)"
  "entry_size (fields_meta f nm) = Some (ucast (f_size f))" "link (fields_meta f nm) = None"
  by (simp_all add: fields_meta_def Let_def entry_meta_new_def)

lemma ucast_size:
  "length data < 2 ^ 32 \<Longrightarrow> (ucast (ucast (of_nat (length data) :: u64) :: u32) :: u64) = of_nat (length data)"
  by (simp add: word_unat_eq_iff unsigned_ucast_eq unsigned_of_nat take_bit_nat_eq_self)

lemma length_pad: 
  "n < 2 ^ 63 \<Longrightarrow> length (pad_bytes (of_nat n)) = unat (align4 (of_nat n) - of_nat n)"
  using padding_align4(1) [of "of_nat n"] by (simp add: pad_bytes_def unat_of_nat_small)

lemma next_entry_frame:
  assumes good: "good c" and run: "\<not> ended c" "remaining c = 0"
    and pad: "length zs = unat (padding c)"
    and cont: "content (events c) = zs @ frame h nm @ rest"
    and N: "N = length nm + 1" and short: "N \<le> 2 ^ 16" and nul: "0 \<notin> set nm"
    and room: "index_of c + N \<le> index_limit c"
  obtains q where "moved c (zs @ frame h nm) N 0 q"
    and "content (events q) = rest"
    and "port.more q = port.more (c\<lparr>remaining := 0, padding := 0\<rparr>)"
    and "next_entry c = (if nm = TRAILER
       then bindS (updS (\<lambda>c. c\<lparr>ended := True\<rparr>)) (\<lambda>_. bindS finish_trailer (\<lambda>_. retS None))
       else admit_entry (fields_meta (header_fields h 0) nm) None) q"
proof -
  let ?c = "c\<lparr>remaining := 0, padding := 0\<rparr>"
  have good': "good ?c" using good by (simp add: good_def)
  have cont': "content (events ?c) = zs @ frame h nm @ rest" using cont by simp
  obtain c2 where c2: "discard (padding c) ?c = (Inr (), c2)" "advance ?c zs c2"
      "content (events c2) = frame h nm @ rest"
    using discard_exact [OF good' cont' pad] by blast
  have skip: "skip_body c = (Inr (), c2)" using c2(1) run by (simp add: skip_body_def)
  have more2: "port.more c2 = port.more ?c" using c2(2) by (simp add: advance_def)
  have ended2: "\<not> ended c2" using seq_more [OF more2] run by simp
  have room2: "index_of c2 + N \<le> index_limit c2" using c2(2) room by (simp add: advance_def)
  obtain q where q: "read_meta c2 = (Inr (if nm = TRAILER then None
       else Some (fields_meta (header_fields h (of_nat N)) nm, None)), q)"
      "advance (charged N c2) (frame h nm) q" "content (events q) = rest"
    using read_meta_frame [OF advance_good [OF c2(2)] c2(3) N short nul room2] by blast
  have "moved ?c (zs @ ([] @ frame h nm)) (0 + (N + 0)) (0 + (0 + 0)) q"
    using moved_trans [OF moved_advance [OF c2(2)]
        moved_trans [OF moved_charged [OF advance_good [OF c2(2)]] moved_advance [OF q(2)]]] .
  then have "moved c (zs @ frame h nm) N 0 q"
    by (simp add: moved_def)
  moreover have "port.more q = port.more ?c"
    using q(2) more2 by (simp add: advance_def)
  moreover have "next_entry c = (if nm = TRAILER
       then bindS (updS (\<lambda>c. c\<lparr>ended := True\<rparr>)) (\<lambda>_. bindS finish_trailer (\<lambda>_. retS None))
       else admit_entry (fields_meta (header_fields h 0) nm) None) q"
    using skip ended2 q(1)
    by (simp add: next_entry_def bindS_def fields_meta_size [of h "of_nat N"])
  ultimately show thesis using that q(3) by blast
qed

lemma admit_plain:
  assumes good: "good q" and wr: "writable (limits (port_budget q)) (h, nm, data)"
    and kind: "kind_of (h_mode h) \<noteq> Symlink"
    and room: "index_of q + (96 + length nm) \<le> index_limit q"
    and more: "unat (entries (port_budget q)) + 1 \<le> unat (lim_entries (limits (port_budget q)))"
  obtains q' where "admit_entry (fields_meta (header_fields h 0) nm) None q =
      (Inr (Some (fields_meta (header_fields h 0) nm, Sequential_body)), q')"
    and "moved q [] (96 + length nm) 1 q'"
    and "remaining q' = of_nat (length data)"
    and "padding q' = align4 (of_nat (length data)) - of_nat (length data)"
    and "ended q' = ended q" and "checked_entries q' = checked_entries q"
proof -
  let ?m = "fields_meta (header_fields h 0) nm"
  let ?n = "of_nat (length data) :: u64"
  let ?q = "charged (96 + length nm) (counted q)"
  let ?q' = "?q\<lparr>remaining := ?n, padding := align4 ?n - ?n\<rparr>"
  have sz: "h_size h = ?n" and len: "length data < 2 ^ 32"
      and lim: "length data \<le> unat (lim_entry_output (limits (port_budget q)))"
    using wr by (auto simp: writable_def)
  have size: "entry_size ?m = Some ?n"
    using len ucast_size [OF len] by (simp add: header_fields_def sz)
  have "unat ?n \<le> unat (lim_entry_output (limits (port_budget (counted q))))"
    using len lim by (simp add: unat_of_nat_small counted_def)
  then have dec: "on_budget (declare_entry_size ?n) (counted q) = (Inr (), counted q)"
    by (rule declare_entry_size_ok)
  have "index_of (counted q) + (96 + length nm) \<le> index_limit (counted q)"
    using room by (simp add: counted_def)
  from charge_index_ok(1) [OF this]
  have ch: "on_budget (charge_index (meta_index_bytes ?m)) (counted q) = (Inr (), ?q)"
    by (simp add: meta_index_bytes_def)
  have k: "ekind ?m \<noteq> Symlink" using kind by (simp add: header_fields_def)
  have run: "admit_entry ?m None q = (Inr (Some (?m, Sequential_body)), ?q')"
    using count_entry_ok [OF more] size dec ch k
    by (simp add: admit_entry_def open_body_def bindS_def Let_def)
  have "moved q [] (96 + length nm) 1 ?q"
    using moved_trans [OF moved_counted [OF good] moved_charged, of "96 + length nm"] good by simp
  then have "moved q [] (96 + length nm) 1 ?q'"
    by (rule moved_same_port) (simp add: same_port_def)
  moreover have "ended ?q' = ended q" "checked_entries ?q' = checked_entries q"
    by (simp_all add: charged_def counted_def)
  ultimately show thesis using that [of ?q'] run by simp
qed

lemma admit_symlink:
  assumes good: "good q" and wr: "writable (limits (port_budget q)) (h, nm, data)"
    and kind: "kind_of (h_mode h) = Symlink"
    and room: "index_of q + (length data + (96 + length nm + length data)) \<le> index_limit q"
    and more: "unat (entries (port_budget q)) + 1 \<le> unat (lim_entries (limits (port_budget q)))"
    and cont: "content (events q) = data @ pad_bytes (of_nat (length data)) @ rest"
    and idle: "remaining q = 0" "padding q = 0"
  obtains q' where "admit_entry (fields_meta (header_fields h 0) nm) None q =
      (Inr (Some ((fields_meta (header_fields h 0) nm)\<lparr>link := Some data\<rparr>, Empty_body)), q')"
    and "moved q (data @ pad_bytes (of_nat (length data)))
          (length data + (96 + length nm + length data)) 1 q'"
    and "remaining q' = 0" and "padding q' = 0"
    and "ended q' = ended q" and "checked_entries q' = checked_entries q"
proof -
  let ?m = "fields_meta (header_fields h 0) nm"
  let ?n = "of_nat (length data) :: u64"
  let ?pad = "pad_bytes ?n"
  let ?q = "charged (length data) (counted q)"
  have sz: "h_size h = ?n" and len: "length data < 2 ^ 32"
      and lim: "length data \<le> unat (lim_entry_output (limits (port_budget q)))"
      and lk: "length data \<le> 2 ^ 16"
    using wr kind by (auto simp: writable_def)
  have un: "unat ?n = length data" using len by (simp add: unat_of_nat_small)
  have size: "entry_size ?m = Some ?n"
    using len ucast_size [OF len] by (simp add: header_fields_def sz)
  have "unat ?n \<le> unat (lim_entry_output (limits (port_budget (counted q))))"
    using un lim by (simp add: counted_def)
  then have dec: "on_budget (declare_entry_size ?n) (counted q) = (Inr (), counted q)"
    by (rule declare_entry_size_ok)
  have small: "\<not> MAX_LINK < ?n" using un lk by (simp add: MAX_LINK_def word_less_nat_alt)
  have "index_of (counted q) + length data \<le> index_limit (counted q)"
    using room by (simp add: counted_def)
  from charge_index_ok [OF this]
  have ch: "on_budget (charge_index ?n) (counted q) = (Inr (), ?q)"
    and iq: "index_of ?q = index_of q + length data" by (simp_all add: counted_def)
  have goodq: "good ?q" using good by simp
  obtain q1 where q1: "read_exact_or_truncated (length data) ''a cpio symlink target'' ?q = (Inr data, q1)"
      "advance ?q data q1" "content (events q1) = ?pad @ rest"
    by (rule read_exact_good [OF goodq, of data "?pad @ rest"]) (use cont in auto)
  have padlen: "length ?pad = unat (align4 ?n - ?n)" using len by (intro length_pad) simp
  obtain q2 where q2: "discard (align4 ?n - ?n) q1 = (Inr (), q2)" "advance q1 ?pad q2"
    using discard_exact [OF advance_good [OF q1(2)] q1(3) padlen] by blast
  have adv: "advance ?q (data @ ?pad) q2" using advance_trans [OF q1(2) q2(2)] .
  have "index_of q2 + (96 + length nm + length data) \<le> index_limit q2"
    using adv iq room by (simp add: advance_def charged_def counted_def)
  from charge_index_ok(1) [OF this]
  have ch2: "on_budget (charge_index (meta_index_bytes (?m\<lparr>link := Some data\<rparr>))) q2 =
      (Inr (), charged (96 + length nm + length data) q2)"
    by (simp add: meta_index_bytes_def add.assoc)
  have k: "ekind ?m = Symlink" using kind by (simp add: header_fields_def)
  have run: "admit_entry ?m None q =
      (Inr (Some (?m\<lparr>link := Some data\<rparr>, Empty_body)), charged (96 + length nm + length data) q2)"
    using count_entry_ok [OF more] size dec ch k small q1(1) q2(1) ch2 un
    by (simp add: admit_entry_def read_link_target_def bindS_def Let_def)
  let ?q' = "charged (96 + length nm + length data) q2"
  have "moved q ([] @ ([] @ ((data @ ?pad) @ []))) (0 + (length data + (0 + (96 + length nm + length data))))
      (1 + (0 + (0 + 0))) ?q'"
    by (rule moved_trans [OF moved_counted [OF good] moved_trans [OF moved_charged
        moved_trans [OF moved_advance [OF adv] moved_charged]]])
      (use good advance_good [OF adv] in simp_all)
  then have "moved q (data @ ?pad) (length data + (96 + length nm + length data)) 1 ?q'"
    by simp
  moreover have "port.more ?q' = port.more q" using adv by (simp add: advance_def)
  ultimately show thesis
    using that [of ?q'] run seq_more [of ?q' q] idle by simp
qed

lemma sequential_read_good:
  assumes good: "good c" and rem: "remaining c = of_nat (length data)" and len: "length data < 2 ^ 63"
    and cont: "content (events c) = data @ rest" and n: "0 < n" and ne: "data \<noteq> []"
  obtains (data) bs data' q where "sequential_read n c = (Inr bs, q)" and "bs \<noteq> []"
      and "data = bs @ data'" and "moved c bs 0 0 q" and "remaining q = of_nat (length data')"
      and "padding q = padding c" and "ended q = ended c" and "checked_entries q = checked_entries c"
    | (interrupted) m q where "sequential_read n c = (Inl (Host Interrupted m), q)"
      and "advance c [] q"
proof -
  have un: "unat (remaining c) = length data" using len by (simp add: rem unat_of_nat_small)
  have pos: "remaining c \<noteq> 0" using un ne by auto
  obtain c1 where c1: "on_budget checkpoint c = (Inr (), c1)" "advance c [] c1"
    using checkpoint_good [OF good] by blast
  have want: "0 < min (unat (remaining c)) n" using un ne n by simp
  have cont1: "content (events c1) = data @ rest" using c1(2) cont by (simp add: advance_def)
  from advance_good [OF c1(2)] want show thesis
  proof (cases rule: port_read_good)
    case (data bs q)
    have bs: "bs \<noteq> []" using data(4) cont1 ne by simp
    have le: "length bs \<le> length data" using data(3) un by simp
    have split: "data @ rest = bs @ content (events q)" using data(2) cont1 by (simp add: advance_def)
    then have d: "data = bs @ drop (length bs) data"
      by (metis append_eq_append_conv_if append_take_drop_id le)
    have adv: "advance c bs q" using advance_trans [OF c1(2) data(2)] by simp
    have more: "port.more q = port.more c" using adv by (simp add: advance_def)
    let ?q = "q\<lparr>remaining := remaining q - of_nat (length bs)\<rparr>"
    have run: "sequential_read n c = (Inr bs, ?q)"
      using c1(1) data(1) bs pos n by (simp add: sequential_read_def bindS_def map_errS_def)
    have "(of_nat (length data) :: u64) - of_nat (length bs) = of_nat (length (drop (length bs) data))"
      using le by (simp add: of_nat_diff)
    then have "remaining ?q = of_nat (length (drop (length bs) data))"
      using seq_more [OF more] rem by simp
    moreover have "moved c bs 0 0 ?q"
      by (rule moved_same_port [OF moved_advance [OF adv]]) (simp add: same_port_def)
    ultimately show thesis using that(1) [OF run bs d] seq_more [OF more] by simp
  next
    case (interrupted m q)
    have "sequential_read n c = (Inl (Host Interrupted m), q)"
      using c1(1) interrupted(1) pos n by (simp add: sequential_read_def bindS_def map_errS_def)
    then show thesis using that(2) advance_trans [OF c1(2) interrupted(2)] by simp
  qed
qed

lemma advance_fields:
  "advance c bs (q :: seq_cursor) \<Longrightarrow> remaining q = remaining c \<and> padding q = padding c \<and>
     ended q = ended c \<and> checked_entries q = checked_entries c"
  using seq_more [of q c] by (simp add: advance_def)

text \<open>What copying the rest \<open>data\<close> of a body leaves.\<close>

definition copied :: "seq_cursor \<Rightarrow> u8 list \<Rightarrow> seq_cursor \<Rightarrow> bool" where
  "copied c data q \<longleftrightarrow> moved c data 0 0 q \<and> remaining q = 0 \<and> padding q = padding c \<and>
     ended q = ended c \<and> checked_entries q = checked_entries c"

lemma copy_sequential:
  "b = Sequential_body \<Longrightarrow> good c \<Longrightarrow> remaining c = of_nat (length data) \<Longrightarrow> length data < 2 ^ 63 \<Longrightarrow>
   content (events c) = data @ rest \<Longrightarrow> capacity out = None \<Longrightarrow>
   \<exists>q. copy_body nm b c out = (Inr (), q, out\<lparr>written := written out @ data\<rparr>) \<and> copied c data q"
proof (induction nm b c out arbitrary: data rule: copy_body.induct)
  case (1 nm b c out)
  obtain c1 where c1: "on_budget checkpoint c = (Inr (), c1)" "advance c [] c1"
    using checkpoint_good [OF \<open>good c\<close>] by blast
  have f1: "remaining c1 = of_nat (length data)" "content (events c1) = data @ rest"
    using c1(2) advance_fields [OF c1(2)] 1 by (auto simp: advance_def)
  note good1 = advance_good [OF c1(2)]
  show ?case
  proof (cases "data = []")
    case True
    have "copied c [] c1"
      using moved_advance [OF c1(2)] advance_fields [OF c1(2)] f1(1) True by (simp add: copied_def)
    moreover have "sequential_read 65536 c1 = (Inr [], c1)"
      using f1(1) True by (simp add: sequential_read_def)
    ultimately show ?thesis
      using 1 c1(1) True by (simp add: copy_body.simps [of nm Sequential_body c out])
  next
    case False
    show ?thesis
    proof (rule sequential_read_good [OF good1 f1(1) \<open>length data < 2 ^ 63\<close> f1(2) _ False, of 65536])
      show "(0::nat) < 65536" by simp
    next
      fix bs data' q
      assume q: "sequential_read 65536 c1 = (Inr bs, q)" "bs \<noteq> []" "data = bs @ data'"
        "moved c1 bs 0 0 q" "remaining q = of_nat (length data')" "padding q = padding c1"
        "ended q = ended c1" "checked_entries q = checked_entries c1"
      let ?out = "out\<lparr>written := written out @ bs\<rparr>"
      have w: "write_all bs out = (Inr (), ?out)" using 1 by (simp add: write_all_def)
      have br: "body_read 65536 b c1 = (Inr bs, Sequential_body, q)" using q(1) 1 by simp
      have cq: "content (events q) = data' @ rest"
        using moved_content [OF q(4)] f1(2) q(3) by simp
      have "\<exists>r. copy_body nm Sequential_body q ?out =
          (Inr (), r, ?out\<lparr>written := written ?out @ data'\<rparr>) \<and> copied q data' r"
        by (rule 1(2) [OF c1(1) [symmetric] refl br [symmetric] refl refl \<open>bs \<noteq> []\<close> w [symmetric]
              refl refl moved_good [OF q(4)] q(5) _ cq]) (use 1 q in auto)
      then obtain r where r: "copy_body nm Sequential_body q ?out =
          (Inr (), r, ?out\<lparr>written := written ?out @ data'\<rparr>)" "copied q data' r" by blast
      have "copied c data r"
        using r(2) q advance_fields [OF c1(2)] moved_trans [OF moved_advance [OF c1(2)]
            moved_trans [OF q(4), of data' 0 0 r]]
        by (simp add: copied_def)
      then show ?thesis
        using r(1) c1(1) q(1) w q(2,3) 1 by (simp add: copy_body.simps [of nm Sequential_body c out])
    next
      fix m q
      assume q: "sequential_read 65536 c1 = (Inl (Host Interrupted m), q)" "advance c1 [] q"
      have br: "body_read 65536 b c1 = (Inl (Host Interrupted m), Sequential_body, q)"
        using q(1) 1 by simp
      have rq: "remaining q = of_nat (length data)" "content (events q) = data @ rest"
        using advance_fields [OF q(2)] q(2) f1 by (auto simp: advance_def)
      have "\<exists>r. copy_body nm Sequential_body q out =
          (Inr (), r, out\<lparr>written := written out @ data\<rparr>) \<and> copied q data r"
        by (rule 1(1) [OF c1(1) [symmetric] refl br [symmetric] refl refl refl refl refl
              advance_good [OF q(2)] rq(1) _ rq(2)]) (use 1 in auto)
      then obtain r where r: "copy_body nm Sequential_body q out =
          (Inr (), r, out\<lparr>written := written out @ data\<rparr>)" "copied q data r" by blast
      have "copied c data r"
        using r(2) advance_fields [OF c1(2)] advance_fields [OF q(2)]
          moved_trans [OF moved_advance [OF c1(2)] moved_trans [OF moved_advance [OF q(2)], of data 0 0 r]]
        by (simp add: copied_def)
      then show ?thesis
        using r(1) c1(1) q(1) 1 by (simp add: copy_body.simps [of nm Sequential_body c out])
    qed
  qed
qed

lemma copy_empty:
  assumes "good c"
  obtains q where "copy_body nm Empty_body c out = (Inr (), q, out)" and "advance c [] q"
  using checkpoint_good [OF assms] that by (fastforce simp: copy_body.simps [of nm Empty_body c out])

lemma finish_trailer_zeros:
  "good p \<Longrightarrow> content (events p) = replicate z 0 \<Longrightarrow>
     \<exists>q. finish_trailer p = (Inr (), q) \<and> advance p (replicate z 0) q"
proof (induction p arbitrary: z rule: finish_trailer.induct)
  case (1 p)
  obtain p1 where p1: "on_budget checkpoint p = (Inr (), p1)" "advance p [] p1"
    using checkpoint_good [OF \<open>good p\<close>] by blast
  have c1: "content (events p1) = replicate z 0" using p1(2) 1 by (simp add: advance_def)
  obtain p2 where p2: "read_up_to 8192 p1 = (Inr (replicate (min 8192 z) 0), p2)"
      "advance p1 (replicate (min 8192 z) 0) p2"
    using read_up_to_good [OF advance_good [OF p1(2)], of 8192] by (auto simp: c1)
  show ?case
  proof (cases "z = 0")
    case True
    then show ?thesis
      using p1 p2 advance_trans [OF p1(2) p2(2)] by (simp add: finish_trailer.simps [of p])
  next
    case False
    have c2: "content (events p2) = replicate (z - min 8192 z) 0"
    proof -
      have "replicate (min 8192 z) 0 @ content (events p2) =
          replicate (min 8192 z) 0 @ replicate (z - min 8192 z) (0::u8)"
        using p2(2) c1 by (simp add: advance_def replicate_add [symmetric])
      then show ?thesis by simp
    qed
    have nz: "\<not> list_ex (\<lambda>b. b \<noteq> 0) (replicate (min 8192 z) (0::u8))"
      by (simp add: list_ex_iff)
    have "\<exists>q. finish_trailer p2 = (Inr (), q) \<and> advance p2 (replicate (z - min 8192 z) 0) q"
      by (rule 1(1) [OF p1(1) [symmetric] refl p2(1) [symmetric] refl _ nz advance_good [OF p2(2)] c2])
        (use False in simp)
    then obtain q where q: "finish_trailer p2 = (Inr (), q)"
        "advance p2 (replicate (z - min 8192 z) 0) q" by blast
    have "advance p (replicate z 0) q"
      using advance_trans [OF p1(2) advance_trans [OF p2(2) q(2)]]
      by (simp add: replicate_add [symmetric])
    then show ?thesis
      using p1(1) p2(1) q(1) nz False by (auto simp: finish_trailer.simps [of p] min_def)
  qed
qed

text \<open>Reading an archive to its end, each body copied to memory.\<close>

definition memory :: sink where
  "memory = \<lparr>written = [], capacity = None, sink_error = Host Other_io ''''\<rparr>"

fun read_entries :: "nat \<Rightarrow> (seq_cursor, error, (entry_meta \<times> u8 list) list) op" where
  "read_entries 0 c = (Inr [], c)"
| "read_entries (Suc k) c =
     (case next_entry c of
        (Inl e, c1) \<Rightarrow> (Inl e, c1)
      | (Inr None, c1) \<Rightarrow> (Inr [], c1)
      | (Inr (Some (m, b)), c1) \<Rightarrow>
          (case copy_body (name m) b c1 memory of
             (Inl e, c2, _) \<Rightarrow> (Inl e, c2)
           | (Inr _, c2, out) \<Rightarrow>
               bindS (read_entries k) (\<lambda>es. retS ((m, written out) # es)) c2))"

definition trailer_header :: "u32 \<Rightarrow> cpio_header" where
  "trailer_header inode =
     \<lparr>h_inode = inode, h_mode = 0, h_uid = 0, h_gid = 0, h_mtime = 0, h_size = 0, h_rdev = (0, 0)\<rparr>"

definition archive_bytes :: "(cpio_header \<times> u8 list \<times> u8 list) list \<Rightarrow> u32 \<Rightarrow> u8 list" where
  "archive_bytes es inode = concat (map entry_bytes es) @ frame (trailer_header inode) TRAILER"

definition entry_data :: "cpio_header \<times> u8 list \<times> u8 list \<Rightarrow> u8 list" where
  "entry_data = (\<lambda>(h, nm, data). if kind_of (h_mode h) = Symlink then [] else data)"

lemma read_entry_step:
  assumes good: "good c" and run: "\<not> ended c" "remaining c = 0" "checked_entries c = k"
    and pad: "length zs = unat (padding c)"
    and wr: "writable (limits (port_budget c)) (h, nm, data)"
    and cont: "content (events c) = zs @ entry_bytes (h, nm, data) @ rest"
    and room: "index_of c + entry_cost (h, nm, data) \<le> index_limit c"
    and more: "unat (entries (port_budget c)) + 1 \<le> unat (lim_entries (limits (port_budget c)))"
  obtains c1 b c2 out zs' where
    "next_entry c = (Inr (Some (read_back (h, nm, data), b)), c1)"
    and "copy_body nm b c1 memory = (Inr (), c2, out)" 
    and "written out = entry_data (h, nm, data)"
    and "good c2" "\<not> ended c2" "remaining c2 = 0" "checked_entries c2 = k"
    and "length zs' = unat (padding c2)" and "content (events c2) = zs' @ rest"
    and "limits (port_budget c2) = limits (port_budget c)"
    and "index_of c2 = index_of c + entry_cost (h, nm, data)"
    and "unat (entries (port_budget c2)) = unat (entries (port_budget c)) + 1"
proof -
  let ?N = "length nm + 1"
  let ?body = "data @ pad_bytes (of_nat (length data)) @ rest"
  have nm: "?N \<le> 2 ^ 16" "0 \<notin> set nm" "nm \<noteq> TRAILER" and len: "length data < 2 ^ 32"
    using wr by (auto simp: writable_def)
  have c1: "content (events c) = zs @ frame h nm @ ?body" using cont by (simp add: entry_bytes_def)
  have r1: "index_of c + ?N \<le> index_limit c" using room by (simp add: entry_cost_def)
  obtain q where q: "moved c (zs @ frame h nm) ?N 0 q" "content (events q) = ?body"
      "port.more q = port.more (c\<lparr>remaining := 0, padding := 0\<rparr>)"
      "next_entry c = admit_entry (fields_meta (header_fields h 0) nm) None q"
    using next_entry_frame [OF good run(1,2) pad c1 refl nm(1,2) r1] nm(3) by (simp) blast
  have fq: "remaining q = 0" "padding q = 0" "ended q = ended c" "checked_entries q = k"
    using seq_more [OF q(3)] run by auto
  have lq: "limits (port_budget q) = limits (port_budget c)"
    and eq: "entries (port_budget q) = entries (port_budget c)"
    and ix: "index_bytes (port_budget q) = index_bytes (port_budget c) + of_nat ?N"
    using q(1) by (auto simp: moved_def)
  have index_step: "unat (index_bytes (port_budget x) + of_nat n) = index_of x + n"
    if "index_of x + n \<le> index_limit c" for n and x :: seq_cursor
  proof -
    have "index_of x + n < 2 ^ 64"
      using that unat_less_2p [of "lim_index_bytes (limits (port_budget c))"] by simp
    then show ?thesis
      using unat_add_noflow [of "index_bytes (port_budget x)" "of_nat n"] by (simp add: unat_of_nat_small)
  qed
  have iq: "index_of q = index_of c + ?N" using index_step [OF r1] ix by simp
  have entry_step: "unat (entries (port_budget c) + 1) = unat (entries (port_budget c)) + 1"
    using more unat_less_2p [of "lim_entries (limits (port_budget c))"]
      unat_add_noflow [of "entries (port_budget c)" 1] by simp
  have goodq: "good q" and wrq: "writable (limits (port_budget q)) (h, nm, data)"
    and moreq: "unat (entries (port_budget q)) + 1 \<le> unat (lim_entries (limits (port_budget q)))"
    using moved_good [OF q(1)] wr more by (simp_all add: lq eq)
  show thesis
  proof (cases "kind_of (h_mode h) = Symlink")
    case True
    let ?idx = "length data + (96 + length nm + length data)"
    have "index_of q + ?idx \<le> index_limit q"
      using room iq True by (simp add: entry_cost_def lq)
    from admit_symlink [OF goodq wrq True this moreq q(2) fq(1,2)]
    obtain c1 where c1: "admit_entry (fields_meta (header_fields h 0) nm) None q =
        (Inr (Some ((fields_meta (header_fields h 0) nm)\<lparr>link := Some data\<rparr>, Empty_body)), c1)"
      "moved q (data @ pad_bytes (of_nat (length data))) ?idx 1 c1"
      "remaining c1 = 0" "padding c1 = 0" "ended c1 = ended q" "checked_entries c1 = checked_entries q"
      by blast
    obtain c2 where c2: "copy_body nm Empty_body c1 memory = (Inr (), c2, memory)" "advance c1 [] c2"
      using copy_empty [OF moved_good [OF c1(2)]] by blast
    have adv: "moved q (data @ pad_bytes (of_nat (length data))) ?idx 1 c2"
      using moved_trans [OF c1(2) moved_advance [OF c2(2)]] by simp
    have "index_of c2 = index_of q + ?idx"
      using adv index_step [of q ?idx] room iq True by (simp add: moved_def entry_cost_def)
    moreover have "read_back (h, nm, data) = (fields_meta (header_fields h 0) nm)\<lparr>link := Some data\<rparr>"
      using True by (simp add: read_back_def)
    moreover have "content (events c2) = [] @ rest" using moved_content [OF adv] q(2) by simp
    moreover have "entries (port_budget c2) = entries (port_budget c) + 1" 
      "limits (port_budget c2) = limits (port_budget c)"
      using adv eq lq by (simp_all add: moved_def)
    ultimately show thesis
      using that [of Empty_body c1 c2 memory "[]"] c1 c2 q(4) advance_fields [OF c2(2)] fq run True iq
        moved_good [OF adv] entry_step
      by (simp add: entry_data_def memory_def entry_cost_def)
  next
    case False
    let ?idx = "96 + length nm"
    have "index_of q + ?idx \<le> index_limit q"
      using room iq False by (simp add: entry_cost_def lq)
    from admit_plain [OF goodq wrq False this moreq]
    obtain c1 where c1: "admit_entry (fields_meta (header_fields h 0) nm) None q =
        (Inr (Some (fields_meta (header_fields h 0) nm, Sequential_body)), c1)"
      "moved q [] ?idx 1 c1" "remaining c1 = of_nat (length data)"
      "padding c1 = align4 (of_nat (length data)) - of_nat (length data)"
      "ended c1 = ended q" "checked_entries c1 = checked_entries q"
      by blast
    have cc: "content (events c1) = ?body" using moved_content [OF c1(2)] q(2) by simp
    obtain c2 where c2: "copy_body nm Sequential_body c1 memory =
        (Inr (), c2, memory\<lparr>written := written memory @ data\<rparr>)" "copied c1 data c2"
      using copy_sequential [OF refl moved_good [OF c1(2)] c1(3) _ cc, of memory nm] len
      by (auto simp: memory_def)
    have adv: "moved q data ?idx 1 c2"
      using moved_trans [OF c1(2), of data 0 0 c2] c2(2) by (simp add: copied_def)
    have "index_of c2 = index_of q + ?idx"
      using adv index_step [of q ?idx] room iq False by (simp add: moved_def entry_cost_def)
    moreover have "read_back (h, nm, data) = fields_meta (header_fields h 0) nm"
      using False by (simp add: read_back_def)
    moreover have "content (events c2) = pad_bytes (of_nat (length data)) @ rest"
      using moved_content [OF adv] q(2) by simp
    moreover have "length (pad_bytes (of_nat (length data))) = unat (padding c2)"
      using length_pad [of "length data"] len c1(4) c2(2) by (simp add: copied_def)
    moreover have "entries (port_budget c2) = entries (port_budget c) + 1" 
      "limits (port_budget c2) = limits (port_budget c)"
      using adv eq lq by (simp_all add: moved_def)
    ultimately show thesis
      using that [of Sequential_body c1 c2 "memory\<lparr>written := written memory @ data\<rparr>"
          "pad_bytes (of_nat (length data))"] c1 c2 q(4) fq run False iq
        moved_good [OF adv] entry_step
      by (simp add: entry_data_def memory_def entry_cost_def copied_def)
  qed
qed

lemma read_entries_archive:
  assumes "good c" and "\<not> ended c" and "remaining c = 0" and "checked_entries c = 0"
    and "length zs = unat (padding c)"
    and "\<forall>e \<in> set es. writable (limits (port_budget c)) e"
    and "content (events c) = zs @ archive_bytes es inode @ replicate z 0"
    and "index_of c + sum_list (map entry_cost es) + 11 \<le> index_limit c"
    and "unat (entries (port_budget c)) + length es \<le> unat (lim_entries (limits (port_budget c)))"
  shows "\<exists>q. read_entries (length es + 1) c =
      (Inr (map (\<lambda>e. (read_back e, entry_data e)) es), q) \<and> ended q \<and> checked_entries q = 0"
  using assms
proof (induction es arbitrary: c zs)
  case Nil
  have tr: "0 \<notin> set TRAILER" "length TRAILER + 1 \<le> 2 ^ 16" "length TRAILER = 10"
    by (simp_all add: TRAILER_def bytes_of_def)
  have room: "index_of c + (length TRAILER + 1) \<le> index_limit c"
    using Nil by (simp add: TRAILER_def bytes_of_def)
  have cont: "content (events c) = zs @ frame (trailer_header inode) TRAILER @ replicate z 0"
    using Nil by (simp add: archive_bytes_def)
  from next_entry_frame [OF Nil(1,2,3,5) cont refl tr(2,1) room]
  obtain q where q: "moved c (zs @ frame (trailer_header inode) TRAILER) (length TRAILER + 1) 0 q"
    "content (events q) = replicate z 0"
    "port.more q = port.more (c\<lparr>remaining := 0, padding := 0\<rparr>)"
    "next_entry c = bindS (updS (\<lambda>c. c\<lparr>ended := True\<rparr>)) (\<lambda>_. bindS finish_trailer (\<lambda>_. retS None)) q"
    by auto
  let ?q = "q\<lparr>ended := True\<rparr>"
  have "good ?q" using moved_good [OF q(1)] by (simp add: good_def)
  moreover have "content (events ?q) = replicate z 0" using q(2) by simp
  ultimately obtain r where r: "finish_trailer ?q = (Inr (), r)" "advance ?q (replicate z 0) r"
    using finish_trailer_zeros by blast
  have "ended r \<and> checked_entries r = 0"
    using advance_fields [OF r(2)] seq_more [OF q(3)] Nil by simp
  then show ?case using q(4) r(1) by (simp add: bindS_def)
next
  case (Cons e es)
  obtain h nm data where e: "e = (h, nm, data)" by (cases e) auto
  have wr: "writable (limits (port_budget c)) (h, nm, data)" using Cons.prems e by simp
  have cont: "content (events c) = zs @ entry_bytes (h, nm, data) @ archive_bytes es inode @ replicate z 0"
    using Cons.prems e by (simp add: archive_bytes_def)
  have room: "index_of c + entry_cost (h, nm, data) \<le> index_limit c"
    and more: "unat (entries (port_budget c)) + 1 \<le> unat (lim_entries (limits (port_budget c)))"
    using Cons.prems e by auto
  obtain c1 b c2 out zs' where st:
    "next_entry c = (Inr (Some (read_back (h, nm, data), b)), c1)"
    "copy_body nm b c1 memory = (Inr (), c2, out)" 
    "written out = entry_data (h, nm, data)"
    "good c2" "\<not> ended c2" "remaining c2 = 0" "checked_entries c2 = 0"
    "length zs' = unat (padding c2)" "content (events c2) = zs' @ archive_bytes es inode @ replicate z 0"
    "limits (port_budget c2) = limits (port_budget c)"
    "index_of c2 = index_of c + entry_cost (h, nm, data)"
    "unat (entries (port_budget c2)) = unat (entries (port_budget c)) + 1"
    by (rule read_entry_step [OF Cons.prems(1-5) wr cont room more])
  have "\<exists>q. read_entries (length es + 1) c2 =
      (Inr (map (\<lambda>e. (read_back e, entry_data e)) es), q) \<and> ended q \<and> checked_entries q = 0"
  proof (rule Cons.IH [OF st(4-8) _ st(9)])
    show "\<forall>e \<in> set es. writable (limits (port_budget c2)) e"
      using Cons.prems(6) st(10) by simp
    show "index_of c2 + sum_list (map entry_cost es) + 11 \<le> index_limit c2"
      using Cons.prems(8) st(10,11) e by simp
    show "unat (entries (port_budget c2)) + length es \<le> unat (lim_entries (limits (port_budget c2)))"
      using Cons.prems(9) st(10,12) by simp
  qed
  then obtain q where q: "read_entries (length es + 1) c2 =
      (Inr (map (\<lambda>e. (read_back e, entry_data e)) es), q)" "ended q" "checked_entries q = 0" by blast
  have "name (read_back (h, nm, data)) = nm"
    by (simp add: read_back_def Let_def)
  then show ?case
    using st(1-3) q e by (simp add: bindS_def)
qed

lemma length_pad_le: "length (pad_bytes n) \<le> 3"
proof -
  have "unat ((4 - n mod 4) mod 4) < 4" by (simp add: unat_mod)
  then show ?thesis by (simp add: pad_bytes_def)
qed

lemma length_frame_le: "length (frame h nm) \<le> 114 + length nm"
  using length_pad_le [of "110 + ucast (of_nat (length nm + 1) :: u32)"]
  by (simp add: frame_def HEADER_def)

lemma length_entry_le: "length (entry_bytes (h, nm, data)) \<le> 117 + length nm + length data"
  using length_frame_le [of h nm] length_pad_le [of "of_nat (length data)"]
  by (simp add: entry_bytes_def)


lemma finish_trailer_nonzero:
  "good p \<Longrightarrow> \<exists>b \<in> set (content (events p)). b \<noteq> 0 \<Longrightarrow>
     \<exists>e q. finish_trailer p = (Inl e, q) \<and> kind e = Corrupt"
proof (induction p rule: finish_trailer.induct)
  case (1 p)
  obtain p1 where p1: "on_budget checkpoint p = (Inr (), p1)" "advance p [] p1"
    using checkpoint_good [OF \<open>good p\<close>] by blast
  let ?c = "content (events p)"
  have c1: "content (events p1) = ?c" using p1(2) by (simp add: advance_def)
  obtain p2 where p2: "read_up_to 8192 p1 = (Inr (take 8192 ?c), p2)" "advance p1 (take 8192 ?c) p2"
    using read_up_to_good [OF advance_good [OF p1(2)], of 8192] by (auto simp: c1)
  have ne: "take 8192 ?c \<noteq> []" using 1 by auto
  show ?case
  proof (cases "list_ex (\<lambda>b. b \<noteq> 0) (take 8192 ?c)")
    case True
    then show ?thesis
      using p1(1) p2(1) ne
      by (simp add: finish_trailer.simps [of p] with_offset_def corrupt_def error_new_def)
  next
    case False
    have c2: "content (events p2) = drop 8192 ?c"
      using p2(2) c1 by (metis advance_def append_take_drop_id same_append_eq)
    have "set ?c = set (take 8192 ?c) \<union> set (content (events p2))"
      unfolding c2 by (metis append_take_drop_id set_append)
    then have "\<exists>b \<in> set (content (events p2)). b \<noteq> 0"
      using 1(3) False by (auto simp: list_ex_iff)
    then have "\<exists>e q. finish_trailer p2 = (Inl e, q) \<and> kind e = Corrupt"
      by (rule 1(1) [OF p1(1) [symmetric] refl p2(1) [symmetric] refl ne False advance_good [OF p2(2)]])
    then show ?thesis
      using p1(1) p2(1) ne False by (auto simp: finish_trailer.simps [of p])
  qed
qed

section \<open>Properties\<close>





text \<open>a header field is exact: eight hexadecimal digits as the writer prints them are read back as
  the same 32-bit number, for every number, at every offset.\<close>

theorem header_fields_roundtrip:
  "u32_from_hex (hex08 w) = Some w \<and> parse_fields (header_text h name_size) off =
     Inr \<lparr>f_mode = h_mode h, f_uid = h_uid h, f_gid = h_gid h, f_nlink = 1, f_mtime = h_mtime h,
          f_size = ucast (h_size h), f_rdev = h_rdev h, f_name_size = ucast name_size, f_check = 0\<rparr>"
  by (simp add: u32_from_hex08 parse_header_text header_fields_def)

text \<open>A sign is taken for a digit, as \<open>from_str_radix\<close> does.\<close>

lemma hex_field_accepts_sign: "hex_field (bytes_of ''+0000001'') 0 off = Inr 1"
  by (simp add: hex_field_def u32_from_hex_def bytes_of_def hex_digit_def)

end
