(* ===== verification/Xsh_Create.thy ===== *)
theory Xsh_Create
  imports Xsh_Cpio_Correct "HOL-Library.List_Lexorder" "HOL-Library.Multiset"
begin

text \<open>
  Writing a cpio archive from a directory tree: \<open>create.rs\<close> (\<open>walk\<close>, \<open>walk_entry\<close>, \<open>ExactBody\<close>,
  \<open>write_cpio\<close>). The source below the opened root is a tree whose nodes carry what the host
  answers for them: metadata or the error of asking for it, a listing or its error, a link
  target, and the reads an opened file yields. The visited entries of a tree are a function of
  the tree, and a successful run writes exactly their archive.
\<close>

unbundle bit_operations_syntax

datatype file_kind =
  Regular | Dir | Sym_link | Fifo_file | Char_device | Block_device | Socket

record file_meta =
  m_kind :: file_kind
  m_mode :: u32
  m_size :: u64
  m_uid :: u32
  m_gid :: u32
  m_inode :: u64
  m_device :: u64
  m_special :: "u32 \<times> u32"
  m_modified :: u64  \<comment> \<open>an \<open>i64\<close>\<close>

text \<open>
  A node: its metadata, the error listing it gives (if any), its children, its link target, and
  what opening it for reading gives: whether it is a regular file, and its reads.
\<close>

datatype source_node =
    Unreadable io_error
  | Node file_meta "io_error option" "(u8 list \<times> source_node) list" "io_error + u8 list"
      "io_error + bool \<times> io_event list"

type_synonym components = "u8 list list"

fun node_at :: "source_node \<Rightarrow> components \<Rightarrow> source_node" where
  "node_at n [] = n"
| "node_at (Unreadable e) (c # cs) = Unreadable e"
| "node_at (Node m d kids l op) (c # cs) =
     (case map_of kids c of
        None \<Rightarrow> Unreadable (Host NotFound ''No such file or directory'')
      | Some n \<Rightarrow> node_at n cs)"

definition joined :: "components \<Rightarrow> u8 list" where
  "joined cs = join_with 47 cs"

text \<open>What the closure that visits entries mutates: the shared budget, the sink, the next inode.\<close>

record writer =
  wbudget :: budget
  wsink :: sink
  winode :: u32

definition on_wbudget :: "(budget, 'e, 'a) op \<Rightarrow> (writer, 'e, 'a) op" where
  "on_wbudget m w = (case m (wbudget w) of (r, b) \<Rightarrow> (r, w\<lparr>wbudget := b\<rparr>))"

definition on_wsink :: "(sink, 'e, 'a) op \<Rightarrow> (writer, 'e, 'a) op" where
  "on_wsink m w = (case m (wsink w) of (r, s) \<Rightarrow> (r, w\<lparr>wsink := s\<rparr>))"

section \<open>File bodies\<close>

text \<open>\<open>ExactBody::read\<close>, the events being the reads of the opened file.\<close>

definition exact_read ::
  "u64 \<Rightarrow> io_event list \<Rightarrow> nat \<Rightarrow> writer \<Rightarrow> (io_error + u8 list) \<times> u64 \<times> io_event list \<times> writer" where
  "exact_read rem es n w =
     (if rem = 0 then (Inr [], rem, es, w)
      else (case on_wbudget checkpoint w of
         (Inl e, w1) \<Rightarrow> (Inl (Embedded e), rem, es, w1)
       | (Inr _, w1) \<Rightarrow>
           (case inner_read (min (unat rem) n) es of
              (Inl e, es') \<Rightarrow> (Inl e, rem, es', w1)
            | (Inr bs, es') \<Rightarrow>
                if bs = [] then
                  (Inl (Host UnexpectedEof ''a file shrank while it was being archived''), rem, es', w1)
                else
                  (let rem' = rem - of_nat (length bs) in
                   case on_wbudget (charge_output (of_nat (length bs))) w1 of
                     (Inl e, w2) \<Rightarrow> (Inl (Embedded e), rem', es', w2)
                   | (Inr _, w2) \<Rightarrow> (Inr bs, rem', es', w2)))))"

lemma exact_read_events:
  "(r, rem', es', w') = exact_read rem es n w \<Longrightarrow> r = Inr bs \<Longrightarrow> bs \<noteq> [] \<Longrightarrow>
     events_size es' < events_size es"
  "(r, rem', es', w') = exact_read rem es n w \<Longrightarrow> r = Inl (Host Interrupted m) \<Longrightarrow>
     events_size es' < events_size es"
  by (auto simp: exact_read_def Let_def split: prod.splits sum.splits if_splits
      dest: inner_read_size_less)

text \<open>\<open>io::copy\<close> retries interrupted reads and copies through a buffer of 8 KiB.\<close>

function copy_exact ::
  "u8 list \<Rightarrow> u64 \<Rightarrow> io_event list \<Rightarrow> (writer, error, unit) op" where
  "copy_exact nm rem es w =
     (case exact_read rem es 8192 w of
        (Inl (Host k m), rem', es', w') \<Rightarrow>
          if k = Interrupted then copy_exact nm rem' es' w'
          else (Inl (with_entry nm (from_read (Host k m))), w')
      | (Inl (Embedded e), rem', es', w') \<Rightarrow> (Inl (with_entry nm (from_read (Embedded e))), w')
      | (Inr bs, rem', es', w') \<Rightarrow>
          if bs = [] then (Inr (), w')
          else (case on_wsink (write_all bs) w' of
                  (Inl e, w'') \<Rightarrow> (Inl (with_entry nm (from_read e)), w'')
                | (Inr _, w'') \<Rightarrow> copy_exact nm rem' es' w''))"
  by pat_completeness auto
termination
  by (relation "measure (\<lambda>(nm, rem, es, w). events_size es)") (auto dest: exact_read_events)

declare copy_exact.simps [simp del]

definition open_source ::
  "components \<Rightarrow> (io_error + bool \<times> io_event list) \<Rightarrow> error + io_event list" where
  "open_source cs op =
     (case op of
        Inl e \<Rightarrow> Inl (with_entry (joined cs) (from_host e))
      | Inr (regular, es) \<Rightarrow>
          if regular then Inr es
          else Inl (unsafe_entry (joined cs)
            ''a source file was replaced by a non-regular file while it was being archived''))"

section \<open>The cpio writer\<close>

fun kind_bits :: "file_kind \<Rightarrow> u32 option" where
  "kind_bits Regular = Some 0x8000"
| "kind_bits Dir = Some 0x4000"
| "kind_bits Sym_link = Some 0xA000"
| "kind_bits Fifo_file = Some 0x1000"
| "kind_bits Char_device = Some 0x2000"
| "kind_bits Block_device = Some 0x6000"
| "kind_bits Socket = None"

text \<open>\<open>u32::try_from(modified.max(0)).unwrap_or(u32::MAX)\<close> on an \<open>i64\<close>.\<close>

definition clamp_mtime :: "u64 \<Rightarrow> u32" where
  "clamp_mtime t = (if sint t \<le> 0 then 0 else if sint t < 2 ^ 32 then ucast t else - 1)"

definition header_for :: "u32 \<Rightarrow> u32 \<Rightarrow> file_meta \<Rightarrow> u64 \<Rightarrow> cpio_header" where
  "header_for inode bits m body_size =
     \<lparr>h_inode = inode, h_mode = bits OR (m_mode m AND 0xFFF), h_uid = m_uid m, h_gid = m_gid m,
      h_mtime = clamp_mtime (m_modified m), h_size = body_size, h_rdev = m_special m\<rparr>"

text \<open>The body of an entry: its size, and its bytes where they are known before it is written.\<close>

definition entry_body ::
  "components \<Rightarrow> file_meta \<Rightarrow> (io_error + u8 list) \<Rightarrow> error + u64 \<times> u8 list option" where
  "entry_body cs m lk =
     (case m_kind m of
        Regular \<Rightarrow> Inr (m_size m, None)
      | Sym_link \<Rightarrow>
          (case lk of Inl e \<Rightarrow> Inl (with_entry (joined cs) (from_host e))
           | Inr target \<Rightarrow> Inr (of_nat (length target), Some target))
      | _ \<Rightarrow> Inr (0, Some []))"

definition write_cpio_entry ::
  "components \<Rightarrow> file_meta \<Rightarrow> (io_error + u8 list) \<Rightarrow> (io_error + bool \<times> io_event list) \<Rightarrow>
     (writer, error, unit) op" where
  "write_cpio_entry cs m lk op =
     (let nm = joined cs in
      case kind_bits (m_kind m) of
        None \<Rightarrow> failS (with_entry nm (unsupported ''a socket cannot be archived''))
      | Some bits \<Rightarrow>
          bindS (liftS (entry_body cs m lk)) (\<lambda>(body_size, body) w.
            (let header = header_for (winode w) bits m body_size in
             bindS (updS (\<lambda>w. w\<lparr>winode := winode w + 1\<rparr>)) (\<lambda>_.
             bindS (on_wsink (write_cpio_header header nm)) (\<lambda>_.
             bindS (case body of
                      Some bytes \<Rightarrow> map_errS from_host (on_wsink (write_all bytes))
                    | None \<Rightarrow>
                        bindS (liftS (open_source cs op)) (\<lambda>es. copy_exact nm (m_size m) es)) (\<lambda>_.
               on_wsink (pad body_size))))) w))"

section \<open>The walk\<close>

text \<open>
  \<open>walk_entry\<close> on the node at a path, and the loop over a directory's children in name order.
  \<open>identity\<close> is the device and inode of the output file, which is skipped.
\<close>

lemma size_list_sort [simp]: "size_list g (sort_key f xs) = size_list g xs"
proof -
  have "sum_list (map g (sort_key f xs)) = sum_list (map g xs)"
    by (metis mset_map mset_sort sum_mset_sum_list)
  then show ?thesis by (simp add: size_list_conv_sum_list)
qed

function walk_entry ::
  "u64 \<times> u64 \<Rightarrow> components \<Rightarrow> source_node \<Rightarrow> (writer, error, unit) op"
and walk_children ::
  "u64 \<times> u64 \<Rightarrow> components \<Rightarrow> (u8 list \<times> source_node) list \<Rightarrow> (writer, error, unit) op"
where
  "walk_entry identity cs (Unreadable e) =
     bindS (on_wbudget checkpoint) (\<lambda>_. failS (with_entry (joined cs) (from_host e)))"
| "walk_entry identity cs (Node m listing kids lk op) =
     bindS (on_wbudget checkpoint) (\<lambda>_.
       if (m_device m, m_inode m) = identity then retS ()
       else
         bindS (on_wbudget count_entry) (\<lambda>_.
         bindS (write_cpio_entry cs m lk op) (\<lambda>_.
           if m_kind m = Dir then
             (case listing of
                Some e \<Rightarrow> failS (with_entry (joined cs) (from_host e))
              | None \<Rightarrow> walk_children identity cs (sort_key fst kids))
           else retS ())))"
| "walk_children identity cs [] = retS ()"
| "walk_children identity cs ((nm, n) # rest) =
     bindS (walk_entry identity (cs @ [nm]) n) (\<lambda>_. walk_children identity cs rest)"
  by pat_completeness auto
termination
  by (relation "measure (\<lambda>x. case x of Inl (_, _, n) \<Rightarrow> 2 * size n
        | Inr (_, _, kids) \<Rightarrow> 2 * size_list (\<lambda>x. Suc (size (snd x))) kids + 1)")
    (simp_all add: size_prod_simp)

fun walk :: "u64 \<times> u64 \<Rightarrow> source_node \<Rightarrow> components list \<Rightarrow> (writer, error, unit) op" where
  "walk identity source [] = retS ()"
| "walk identity source (root # roots) =
     bindS (if root = [] then
              (case source of
                 Unreadable e \<Rightarrow> failS (from_host e)
               | Node m (Some e) kids lk op \<Rightarrow> failS (from_host e)
               | Node m None kids lk op \<Rightarrow> walk_children identity [] (sort_key fst kids))
            else walk_entry identity root (node_at source root))
       (\<lambda>_. walk identity source roots)"

definition write_cpio :: "u64 \<times> u64 \<Rightarrow> source_node \<Rightarrow> components list \<Rightarrow> (writer, error, unit) op" where
  "write_cpio identity source roots =
     bindS (updS (\<lambda>w. w\<lparr>winode := 1\<rparr>)) (\<lambda>_.
     bindS (walk identity source roots) (\<lambda>_ w.
       on_wsink (write_cpio_header
         \<lparr>h_inode = winode w, h_mode = 0, h_uid = 0, h_gid = 0, h_mtime = 0, h_size = 0,
          h_rdev = (0, 0)\<rparr> TRAILER) w))"

section \<open>The entries a run visits\<close>

type_synonym visit =
  "components \<times> file_meta \<times> (io_error + u8 list) \<times> (io_error + bool \<times> io_event list)"

function visited :: "u64 \<times> u64 \<Rightarrow> components \<Rightarrow> source_node \<Rightarrow> visit list"
and visited_children :: "u64 \<times> u64 \<Rightarrow> components \<Rightarrow> (u8 list \<times> source_node) list \<Rightarrow> visit list"
where
  "visited identity cs (Unreadable e) = []"
| "visited identity cs (Node m listing kids lk op) =
     (if (m_device m, m_inode m) = identity then []
      else (cs, m, lk, op) #
        (if m_kind m = Dir then visited_children identity cs (sort_key fst kids) else []))"
| "visited_children identity cs [] = []"
| "visited_children identity cs ((nm, n) # rest) =
     visited identity (cs @ [nm]) n @ visited_children identity cs rest"
  by pat_completeness auto
termination
  by (relation "measure (\<lambda>x. case x of Inl (_, _, n) \<Rightarrow> 2 * size n
        | Inr (_, _, kids) \<Rightarrow> 2 * size_list (\<lambda>x. Suc (size (snd x))) kids + 1)")
    (simp_all add: size_prod_simp)

fun visited_roots :: "u64 \<times> u64 \<Rightarrow> source_node \<Rightarrow> components list \<Rightarrow> visit list" where
  "visited_roots identity source [] = []"
| "visited_roots identity source (root # roots) =
     (if root = [] then
        (case source of Unreadable e \<Rightarrow> []
         | Node m listing kids lk op \<Rightarrow> visited_children identity [] (sort_key fst kids))
      else visited identity root (node_at source root)) @ visited_roots identity source roots"

definition visit_data :: "visit \<Rightarrow> u8 list" where
  "visit_data = (\<lambda>(cs, m, lk, op).
     (case m_kind m of
        Regular \<Rightarrow> (case op of Inl _ \<Rightarrow> [] | Inr (_, es) \<Rightarrow> take (unat (m_size m)) (content es))
      | Sym_link \<Rightarrow> (case lk of Inl _ \<Rightarrow> [] | Inr target \<Rightarrow> target)
      | _ \<Rightarrow> []))"

definition visit_entry :: "u32 \<Rightarrow> visit \<Rightarrow> cpio_header \<times> u8 list \<times> u8 list" where
  "visit_entry inode v = (case v of (cs, m, lk, op) \<Rightarrow>
     (header_for inode (case kind_bits (m_kind m) of None \<Rightarrow> 0 | Some b \<Rightarrow> b) m
        (of_nat (length (visit_data v))), joined cs, visit_data v))"

fun numbered :: "u32 \<Rightarrow> visit list \<Rightarrow> (cpio_header \<times> u8 list \<times> u8 list) list" where
  "numbered inode [] = []"
| "numbered inode (v # vs) = visit_entry inode v # numbered (inode + 1) vs"

lemma numbered_append:
  "numbered i (vs @ ws) = numbered i vs @ numbered (i + of_nat (length vs)) ws"
  by (induction vs arbitrary: i) (simp_all add: add.assoc)

lemma write_all_ok: "write_all bs s = (Inr (), s') \<Longrightarrow> written s' = written s @ bs"
  by (auto simp: write_all_def split: option.splits if_splits)

lemma on_wbudget_fields [simp]:
  "wsink (snd (on_wbudget m w)) = wsink w" "winode (snd (on_wbudget m w)) = winode w"
  by (simp_all add: on_wbudget_def split: prod.splits)

lemma on_wbudget_Inr:
  "on_wbudget m w = (r, w') \<Longrightarrow> wsink w' = wsink w \<and> winode w' = winode w"
  using on_wbudget_fields [of m w] by simp

lemma on_wsink_Inr:
  "on_wsink m w = (Inr a, w') \<Longrightarrow> \<exists>s. m (wsink w) = (Inr a, s) \<and> w' = w\<lparr>wsink := s\<rparr>"
  by (auto simp: on_wsink_def split: prod.splits)

lemma inner_read_content:
  "inner_read n es = (Inr bs, es') \<Longrightarrow> content es = bs @ content es'"
  "inner_read n es = (Inl e, es') \<Longrightarrow> content es' = content es"
  by (induction n es rule: inner_read.induct) (auto simp: content_def split: if_splits)

lemma exact_read_ok:
  assumes "exact_read rem es n w = (r, rem', es', w')"
  shows "wsink w' = wsink w" and "winode w' = winode w"
    and "r = Inr bs \<Longrightarrow> bs \<noteq> [] \<Longrightarrow> content es = bs @ content es' \<and> length bs \<le> unat rem \<and>
      unat rem' = unat rem - length bs"
    and "r = Inr [] \<Longrightarrow> rem = 0"
    and "r = Inl (Host Interrupted m) \<Longrightarrow> content es' = content es \<and> rem' = rem"
proof -
  show "wsink w' = wsink w" "winode w' = winode w"
    using assms by (auto simp: exact_read_def Let_def split: prod.splits sum.splits if_splits
        dest!: on_wbudget_Inr)
  show "r = Inr [] \<Longrightarrow> rem = 0"
    using assms by (auto simp: exact_read_def Let_def split: prod.splits sum.splits if_splits)
  show "r = Inl (Host Interrupted m) \<Longrightarrow> content es' = content es \<and> rem' = rem"
    using assms by (auto simp: exact_read_def Let_def split: prod.splits sum.splits if_splits
        dest: inner_read_content)
  assume r: "r = Inr bs" "bs \<noteq> []"
  then obtain x where ir: "inner_read (min (unat rem) n) es = (Inr bs, es')"
      and rem': "rem' = rem - of_nat (length bs)"
    using assms by (auto simp: exact_read_def Let_def split: prod.splits sum.splits if_splits)
  have le: "length bs \<le> unat rem" using inner_read_length [OF ir] by simp
  then have "unat (of_nat (length bs) :: u64) = length bs"
    using unat_less_2p [of rem] by (simp add: unat_of_nat_small)
  then show "content es = bs @ content es' \<and> length bs \<le> unat rem \<and> unat rem' = unat rem - length bs"
    using inner_read_content(1) [OF ir] le rem' by (simp add: unat_sub_noflow)
qed

lemma copy_exact_ok:
  "copy_exact nm rem es w = (Inr (), w') \<Longrightarrow> unat rem \<le> length (content es) \<and>
     written (wsink w') = written (wsink w) @ take (unat rem) (content es) \<and> winode w' = winode w"
proof (induction nm rem es w rule: copy_exact.induct)
  case (1 nm rem es w)
  obtain r rem1 es1 w1 where rd: "exact_read rem es 8192 w = (r, rem1, es1, w1)"
    by (cases "exact_read rem es 8192 w") auto
  note ok = exact_read_ok [OF rd]
  show ?case
  proof (cases r)
    case (Inl e)
    then obtain m where e: "e = Host Interrupted m"
        and again: "copy_exact nm rem1 es1 w1 = (Inr (), w')"
      using 1(3) rd by (auto simp: copy_exact.simps [of nm rem es w] split: io_error.splits if_splits)
    have "unat rem1 \<le> length (content es1) \<and>
        written (wsink w') = written (wsink w1) @ take (unat rem1) (content es1) \<and> winode w' = winode w1"
      by (rule 1(1) [OF rd [symmetric] Inl e refl refl refl again])
    then show ?thesis using ok Inl e by simp
  next
    case (Inr bs)
    show ?thesis
    proof (cases "bs = []")
      case True
      have "w' = w1"
        using 1(3) rd Inr True by (simp add: copy_exact.simps [of nm rem es w])
      then show ?thesis using ok Inr True by simp
    next
      case False
      obtain w2 where wr: "on_wsink (write_all bs) w1 = (Inr (), w2)"
          and again: "copy_exact nm rem1 es1 w2 = (Inr (), w')"
        using 1(3) rd Inr False
        by (auto simp: copy_exact.simps [of nm rem es w] split: prod.splits sum.splits)
      have "unat rem1 \<le> length (content es1) \<and>
        written (wsink w') = written (wsink w2) @ take (unat rem1) (content es1) \<and> winode w' = winode w2"
        by (rule 1(2) [OF rd [symmetric] Inr refl refl False wr [symmetric] refl again])
      moreover have "written (wsink w2) = written (wsink w1) @ bs \<and> winode w2 = winode w1"
        using on_wsink_Inr [OF wr] write_all_ok by auto
      ultimately show ?thesis using ok(1,2) ok(3) [OF Inr False] by auto
    qed
  qed
qed

lemma write_cpio_header_ok:
  assumes "write_cpio_header h nm s = (Inr (), s')"
  shows "written s' = written s @ frame h nm" and "unat (h_size h) < 2 ^ 32"
    and "length nm + 1 < 2 ^ 32"
proof -
  show small: "unat (h_size h) < 2 ^ 32" "length nm + 1 < 2 ^ 32"
    using assms by (auto simp: write_cpio_header_def split: if_splits)
  show "written s' = written s @ frame h nm"
    using assms small
    by (auto simp: write_cpio_header_def Let_def bindS_eq_Inr map_errS_eq_Inr pad_def frame_def
        split: if_splits dest!: write_all_ok)
qed

text \<open>A \<open>Vec\<close> has fewer than \<open>2^64\<close> elements, so \<open>len() as u64\<close> is exact.\<close>

definition sized :: "visit \<Rightarrow> bool" where
  "sized = (\<lambda>(cs, m, lk, op). case lk of Inl _ \<Rightarrow> True | Inr target \<Rightarrow> length target < 2 ^ 64)"

lemma write_cpio_entry_ok:
  assumes run: "write_cpio_entry cs m lk op w = (Inr (), w')" and len: "sized (cs, m, lk, op)"
  shows "written (wsink w') = written (wsink w) @ entry_bytes (visit_entry (winode w) (cs, m, lk, op))"
    and "winode w' = winode w + 1"
    and "length (visit_data (cs, m, lk, op)) < 2 ^ 32"
    and "m_kind m \<noteq> Socket"
proof -
  obtain bits where bits: "kind_bits (m_kind m) = Some bits"
    using run by (cases "kind_bits (m_kind m)") (auto simp: write_cpio_entry_def)
  obtain sz body where body: "entry_body cs m lk = Inr (sz, body)"
    using run bits by (cases "entry_body cs m lk") (auto simp: write_cpio_entry_def Let_def bindS_def)
  let ?h = "header_for (winode w) bits m sz"
  let ?d = "visit_data (cs, m, lk, op)"
  let ?w0 = "w\<lparr>winode := winode w + 1\<rparr>"
  obtain w1 w2 where w1: "on_wsink (write_cpio_header ?h (joined cs)) ?w0 = (Inr (), w1)"
    and w2: "(case body of Some bytes \<Rightarrow> map_errS from_host (on_wsink (write_all bytes))
                    | None \<Rightarrow> bindS (liftS (open_source cs op)) (copy_exact (joined cs) (m_size m)))
        w1 = (Inr (), w2)"
    and w3: "on_wsink (pad sz) w2 = (Inr (), w')"
    using run bits body
    by (auto simp: write_cpio_entry_def Let_def bindS_eq_Inr)
  obtain s1 where s1: "write_cpio_header ?h (joined cs) (wsink w) = (Inr (), s1)" "w1 = ?w0\<lparr>wsink := s1\<rparr>"
    using on_wsink_Inr [OF w1] by auto
  note hdr = write_cpio_header_ok [OF s1(1)]
  have mid: "written (wsink w2) = written (wsink w1) @ ?d \<and> winode w2 = winode w1 \<and>
      length ?d = unat sz"
  proof (cases body)
    case None
    then have k: "m_kind m = Regular" "sz = m_size m"
      using body by (auto simp: entry_body_def split: file_kind.splits sum.splits)
    obtain es where es: "op = Inr (True, es)" "copy_exact (joined cs) (m_size m) es w1 = (Inr (), w2)"
      using w2 None by (auto simp: bindS_eq_Inr open_source_def split: sum.splits if_splits)
    show ?thesis
      using copy_exact_ok [OF es(2)] k es(1) by (simp add: visit_data_def)
  next
    case (Some bytes)
    have d: "?d = bytes" "unat sz = length bytes"
      using body Some len
      by (auto simp: entry_body_def visit_data_def sized_def unat_of_nat_small
          split: file_kind.splits sum.splits)
    have "on_wsink (write_all bytes) w1 = (Inr (), w2)"
      using w2 Some by (simp add: map_errS_eq_Inr)
    then show ?thesis using on_wsink_Inr d write_all_ok by fastforce
  qed
  obtain s3 where s3: "pad sz (wsink w2) = (Inr (), s3)" "w' = w2\<lparr>wsink := s3\<rparr>"
    using on_wsink_Inr [OF w3] by auto
  have size: "sz = of_nat (length ?d)" using mid by simp
  have "written s3 = written (wsink w2) @ pad_bytes sz"
    using s3(1) by (auto simp: pad_def map_errS_eq_Inr dest: write_all_ok)
  then have "written (wsink w') = written (wsink w) @ frame ?h (joined cs) @ ?d @ pad_bytes sz"
    using s3(2) mid s1 hdr(1) by simp
  then show "written (wsink w') = written (wsink w) @ entry_bytes (visit_entry (winode w) (cs, m, lk, op))"
    using bits size by (simp add: entry_bytes_def visit_entry_def)
  show "winode w' = winode w + 1" using s3(2) mid s1 by simp
  show "length ?d < 2 ^ 32" using mid hdr(2) by (simp add: header_for_def)
  show "m_kind m \<noteq> Socket" using bits by auto
qed

lemma walk_ok:
  fixes identity :: "u64 \<times> u64"
  shows "walk_entry identity cs n w = (Inr (), w') \<Longrightarrow> list_all sized (visited identity cs n) \<Longrightarrow>
      written (wsink w') = written (wsink w) @
        concat (map entry_bytes (numbered (winode w) (visited identity cs n))) \<and>
      winode w' = winode w + of_nat (length (visited identity cs n))"
    and "walk_children identity cs kids w = (Inr (), w') \<Longrightarrow>
      list_all sized (visited_children identity cs kids) \<Longrightarrow>
      written (wsink w') = written (wsink w) @
        concat (map entry_bytes (numbered (winode w) (visited_children identity cs kids))) \<and>
      winode w' = winode w + of_nat (length (visited_children identity cs kids))"
proof (induction identity cs n and identity cs kids arbitrary: w w' and w w'
    rule: walk_entry_walk_children.induct)
  case (1 identity cs e)
  then show ?case by (auto simp: bindS_eq_Inr)
next
  case (2 identity cs m listing kids lk op)
  obtain w1 where w1: "on_wbudget checkpoint w = (Inr (), w1)"
    using 2 by (auto simp: bindS_eq_Inr)
  note s1 = on_wbudget_Inr [OF w1]
  show ?case
  proof (cases "(m_device m, m_inode m) = identity")
    case True
    then show ?thesis using 2 w1 s1 by (auto simp: bindS_eq_Inr)
  next
    case False
    obtain w2 w3 where w2: "on_wbudget count_entry w1 = (Inr (), w2)"
      and w3: "write_cpio_entry cs m lk op w2 = (Inr (), w3)"
      and rest: "(if m_kind m = Dir then
             (case listing of
                Some e \<Rightarrow> failS (with_entry (joined cs) (from_host e))
              | None \<Rightarrow> walk_children identity cs (sort_key fst kids))
           else retS ()) w3 = (Inr (), w')"
      using "2.prems"(1) w1 False by (auto simp: bindS_eq_Inr)
    note s2 = on_wbudget_Inr [OF w2]
    have len: "sized (cs, m, lk, op)" using 2 False by simp
    note en = write_cpio_entry_ok [OF w3 len]
    show ?thesis
    proof (cases "m_kind m = Dir")
      case True
      then have l: "listing = None" and kids: "walk_children identity cs (sort_key fst kids) w3 = (Inr (), w')"
        using rest by (auto split: option.splits)
      have "written (wsink w') = written (wsink w3) @
        concat (map entry_bytes (numbered (winode w3) (visited_children identity cs (sort_key fst kids)))) \<and>
        winode w' = winode w3 + of_nat (length (visited_children identity cs (sort_key fst kids)))"
        by (rule "2.IH" [OF False True l kids]) (use "2.prems"(2) False True in simp)
      then show ?thesis using en s1 s2 False True by (simp add: add.assoc)
    next
      case no: False
      then show ?thesis using rest en s1 s2 False by simp
    qed
  qed
next
  case (3 identity cs)
  then show ?case by simp
next
  case (4 identity cs nm n rest)
  obtain w1 where w1: "walk_entry identity (cs @ [nm]) n w = (Inr (), w1)"
    and w2: "walk_children identity cs rest w1 = (Inr (), w')"
    using "4.prems"(1) by (auto simp: bindS_eq_Inr)
  show ?case
    using "4.IH"(1) [OF w1] "4.IH"(2) [OF w2] "4.prems"(2)
    by (simp add: numbered_append add.assoc)
qed

lemma walk_roots_ok:
  "walk identity source roots w = (Inr (), w') \<Longrightarrow> list_all sized (visited_roots identity source roots) \<Longrightarrow>
     written (wsink w') = written (wsink w) @
       concat (map entry_bytes (numbered (winode w) (visited_roots identity source roots))) \<and>
     winode w' = winode w + of_nat (length (visited_roots identity source roots))"
proof (induction roots arbitrary: w)
  case Nil
  then show ?case by simp
next
  case (Cons root roots)
  let ?vs = "if root = [] then
        (case source of Unreadable e \<Rightarrow> []
         | Node m listing kids lk op \<Rightarrow> visited_children identity [] (sort_key fst kids))
      else visited identity root (node_at source root)"
  obtain w1 where w1: "(if root = [] then
              (case source of
                 Unreadable e \<Rightarrow> failS (from_host e)
               | Node m (Some e) kids lk op \<Rightarrow> failS (from_host e)
               | Node m None kids lk op \<Rightarrow> walk_children identity [] (sort_key fst kids))
            else walk_entry identity root (node_at source root)) w = (Inr (), w1)"
    and w2: "walk identity source roots w1 = (Inr (), w')"
    using Cons.prems(1) by (auto simp: bindS_eq_Inr)
  have "written (wsink w1) = written (wsink w) @ concat (map entry_bytes (numbered (winode w) ?vs)) \<and>
      winode w1 = winode w + of_nat (length ?vs)"
    using w1 Cons.prems(2) walk_ok
    by (auto split: if_splits source_node.splits option.splits)
  then show ?case
    using Cons.IH [OF w2] Cons.prems(2) by (simp add: numbered_append add.assoc)
qed

lemma write_cpio_ok:
  assumes run: "write_cpio identity source roots w = (Inr (), w')"
    and len: "list_all sized (visited_roots identity source roots)"
  shows "written (wsink w') = written (wsink w) @
    archive_bytes (numbered 1 (visited_roots identity source roots))
      (1 + of_nat (length (visited_roots identity source roots)))"
proof -
  let ?w = "w\<lparr>winode := 1\<rparr>"
  obtain w1 where w1: "walk identity source roots ?w = (Inr (), w1)"
    and w2: "on_wsink (write_cpio_header (trailer_header (winode w1)) TRAILER) w1 = (Inr (), w')"
    using run by (auto simp: write_cpio_def bindS_eq_Inr trailer_header_def)
  obtain s where s: "write_cpio_header (trailer_header (winode w1)) TRAILER (wsink w1) = (Inr (), s)"
      "w' = w1\<lparr>wsink := s\<rparr>"
    using on_wsink_Inr [OF w2] by auto
  show ?thesis
    using walk_roots_ok [OF w1 len] write_cpio_header_ok(1) [OF s(1)] s(2)
    by (simp add: archive_bytes_def)
qed

section \<open>Reading the tree back\<close>

fun kind_for :: "file_kind \<Rightarrow> entry_kind" where
  "kind_for Regular = File"
| "kind_for Dir = Directory"
| "kind_for Sym_link = Symlink"
| "kind_for Fifo_file = Fifo"
| "kind_for Char_device = CharDevice"
| "kind_for Block_device = BlockDevice"
| "kind_for Socket = Other"

lemma header_kind:
  "kind_of ((case kind_bits k of None \<Rightarrow> 0 | Some b \<Rightarrow> b) OR (m AND 0xFFF)) = kind_for k"
  "((case kind_bits k of None \<Rightarrow> 0 | Some b \<Rightarrow> b) OR (m AND 0xFFF)) AND 0xFFF = m AND (0xFFF :: u32)"
proof -
  have "(b OR (m AND 0xFFF)) AND 0xF000 = b AND (0xF000 :: u32)" for b
    by (simp add: bit.conj_disj_distrib2 and.assoc)
  then show "kind_of ((case kind_bits k of None \<Rightarrow> 0 | Some b \<Rightarrow> b) OR (m AND 0xFFF)) = kind_for k"
    by (cases k) (simp_all add: kind_of_def and.assoc)
  show "((case kind_bits k of None \<Rightarrow> 0 | Some b \<Rightarrow> b) OR (m AND 0xFFF)) AND 0xFFF = m AND 0xFFF"
    by (cases k) (simp_all add: bit.conj_disj_distrib2 and.assoc)
qed

text \<open>What a reader gets of an entry, and what the tree has of it.\<close>

definition restored :: "entry_meta \<times> u8 list \<Rightarrow> u8 list \<times> entry_kind \<times> u32 option \<times> u8 list" where
  "restored = (\<lambda>(m, d). (name m, ekind m, mode m, case link m of None \<Rightarrow> d | Some t \<Rightarrow> t))"

definition original :: "visit \<Rightarrow> u8 list \<times> entry_kind \<times> u32 option \<times> u8 list" where
  "original v = (case v of (cs, m, lk, op) \<Rightarrow>
     (joined cs, kind_for (m_kind m), Some (m_mode m AND 0xFFF), visit_data v))"

lemma restored_visit:
  "restored (read_back (visit_entry i v), entry_data (visit_entry i v)) = original v"
proof -
  obtain cs m lk op where v: "v = (cs, m, lk, op)" by (cases v) auto
  show ?thesis
    unfolding v visit_entry_def original_def read_back_def entry_data_def restored_def
    by (simp add: header_for_def header_kind Let_def fields_meta_def header_fields_def
        entry_meta_new_def)
qed

lemma restored_numbered:
  "map (\<lambda>e. restored (read_back e, entry_data e)) (numbered i vs) = map original vs"
  by (induction i vs rule: numbered.induct) (simp_all add: restored_visit)

lemma length_numbered [simp]: "length (numbered i vs) = length vs"
  by (induction i vs rule: numbered.induct) simp_all

section \<open>Properties\<close>

text \<open>C3: \<open>create\<close> writes what it visits: when writing a cpio archive succeeds, whatever the tree, the
  sink, the budget and the reads of the source files, the bytes written are the archive of the
  visited entries, in depth-first order with the children of a directory sorted by name, numbered
  from inode 1, without the output file itself, each regular file with exactly the bytes its
  metadata announced, followed by the trailer.\<close>

theorem cpio_create_writes_tree:
  assumes "write_cpio identity source roots w = (Inr (), w')"
    and "list_all sized (visited_roots identity source roots)"
  shows "written (wsink w') = written (wsink w) @
    archive_bytes (numbered 1 (visited_roots identity source roots))
      (1 + of_nat (length (visited_roots identity source roots)))"
  using write_cpio_ok [OF assms] .

definition sample_meta :: "file_kind \<Rightarrow> u64 \<Rightarrow> file_meta" where
  "sample_meta k n = \<lparr>m_kind = k, m_mode = 0x1ED, m_size = n, m_uid = 0, m_gid = 0, m_inode = n + 7,
     m_device = 1, m_special = (0, 0), m_modified = 0\<rparr>"

definition sample_tree :: source_node where
  "sample_tree = Node (sample_meta Dir 0) None
     [([98], Node (sample_meta Regular 2) None [] (Inl (Host Other_io [])) (Inr (True, [Data [1, 2, 3]]))),
      ([97], Node (sample_meta Dir 5) None [] (Inl (Host Other_io [])) (Inl (Host Other_io [])))]
     (Inl (Host Other_io [])) (Inl (Host Other_io []))"

definition sample_writer :: writer where
  "sample_writer = \<lparr>wbudget = uncancelable default_limits, wsink = memory, winode = 0\<rparr>"
lemma sample_run: "\<exists>w'. write_cpio (0, 0) sample_tree [[]] sample_writer = (Inr (), w')"
  by (simp add: write_cpio_def sample_tree_def sample_writer_def sample_meta_def bindS_def memory_def
      on_wbudget_def on_wsink_def checkpoint_def count_entry_def uncancelable_def budget_new_def
      default_limits_def write_cpio_entry_def entry_body_def header_for_def write_cpio_header_def
      write_all_def pad_def open_source_def copy_exact.simps exact_read_def charge_output_def
      map_errS_def Let_def GIB_def saturating_add_def joined_def TRAILER_def)

lemma sample_visits:
  "visited_roots (0, 0) sample_tree [[]] =
     [([[97]], sample_meta Dir 5, Inl (Host Other_io []), Inl (Host Other_io [])),
      ([[98]], sample_meta Regular 2, Inl (Host Other_io []), Inr (True, [Data [1, 2, 3]]))]"
  by (simp add: sample_tree_def sample_meta_def)

theorem cpio_create_writes_tree_witness:
  "\<exists>w'. write_cpio (0, 0) sample_tree [[]] sample_writer = (Inr (), w') \<and>
     written (wsink w') = archive_bytes (numbered 1 (visited_roots (0, 0) sample_tree [[]])) 3"
proof -
  obtain w' where w': "write_cpio (0, 0) sample_tree [[]] sample_writer = (Inr (), w')"
    using sample_run by blast
  have "list_all sized (visited_roots (0, 0) sample_tree [[]])"
    unfolding sample_visits by (simp add: sized_def)
  from cpio_create_writes_tree [OF w' this] w' show ?thesis
    unfolding sample_visits by (auto simp: sample_writer_def memory_def)
qed



end
