(* ===== verification/Xsh_Extract.thy ===== *)
theory Xsh_Extract
  imports Xsh_Create Xsh_Btree "HOL-Library.Product_Lexorder"
begin

text \<open>
  Extraction: member names and the policy (\<open>normalize\<close>, \<open>contained\<close> and the checks of \<open>State\<close> in
  \<open>extract.rs\<close>), and the staging of every entry kind. The staging directory is reached only
  through the operations of a \<open>Root\<close>; they are a parameter, a record of functions over an
  unspecified world, and the locale \<open>stage_root\<close> states what a proof needs of them. It is
  interpreted at the end on a staging tree.
\<close>

unbundle bit_operations_syntax

section \<open>Policy\<close>

datatype collision = Refuse_collision | Replace
datatype links = Refuse_links | Contained | Verbatim
datatype special = Refuse_special | Create_special
datatype modes = Plain | Exact
datatype ownership = Ignore | Apply

record policy =
  collision :: collision
  links :: links
  special :: special
  modes :: modes
  ownership :: ownership
  strip_components :: nat
  members :: "u8 list list"

definition default_policy :: policy where
  "default_policy =
     \<lparr>collision = Refuse_collision, links = Contained, special = Refuse_special, modes = Plain,
      ownership = Ignore, strip_components = 0, members = []\<rparr>"

section \<open>Member names\<close>

abbreviation slash :: u8 where "slash \<equiv> 47"
abbreviation dot :: u8 where "dot \<equiv> 46"

fun normalize_parts :: "u8 list \<Rightarrow> components \<Rightarrow> components \<Rightarrow> error + components" where
  "normalize_parts nm [] parts = Inr parts"
| "normalize_parts nm (part # rest) parts =
     (if part = [] \<or> part = [dot] then normalize_parts nm rest parts
      else if part = [dot, dot] then Inl (unsafe_entry nm ''member name contains `..`'')
      else if 0 \<in> set part then Inl (unsafe_entry nm ''member name contains a NUL byte'')
      else normalize_parts nm rest (parts @ [part]))"

definition normalize_name :: "u8 list \<Rightarrow> error + components" where
  "normalize_name nm =
     (case nm of
        b # _ \<Rightarrow> if b = slash then Inl (unsafe_entry nm ''member name is absolute'')
                 else normalize_parts nm (split_on slash nm) []
      | [] \<Rightarrow> normalize_parts nm (split_on slash nm) [])"

text \<open>\<open>contained\<close> counts the depth of a link's target below the link's directory.\<close>

fun contained_parts :: "u8 list \<Rightarrow> nat \<Rightarrow> components \<Rightarrow> error + unit" where
  "contained_parts nm depth [] = Inr ()"
| "contained_parts nm depth (part # rest) =
     (if part = [] \<or> part = [dot] then contained_parts nm depth rest
      else if part = [dot, dot] then
        (if depth = 0
         then Inl (unsafe_entry nm ''symbolic link target escapes the extraction root'')
         else contained_parts nm (depth - 1) rest)
      else contained_parts nm (depth + 1) rest)"

definition contained_link :: "u8 list \<Rightarrow> components \<Rightarrow> u8 list \<Rightarrow> error + unit" where
  "contained_link nm at_link target =
     (case target of
        b # _ \<Rightarrow> if b = slash then Inl (unsafe_entry nm ''symbolic link target is absolute'')
                 else contained_parts nm (length at_link - 1) (split_on slash target)
      | [] \<Rightarrow> contained_parts nm (length at_link - 1) (split_on slash target))"

text \<open>A component that names one directory entry, and nothing else.\<close>

definition safe_part :: "u8 list \<Rightarrow> bool" where
  "safe_part p \<longleftrightarrow> p \<noteq> [] \<and> p \<noteq> [dot] \<and> p \<noteq> [dot, dot] \<and> 0 \<notin> set p \<and> slash \<notin> set p"

abbreviation safe_path :: "components \<Rightarrow> bool" where
  "safe_path cs \<equiv> list_all safe_part cs"

lemma normalize_parts_safe:
  "normalize_parts nm ps acc = Inr cs \<Longrightarrow> list_all (\<lambda>p. slash \<notin> set p) ps \<Longrightarrow> safe_path acc \<Longrightarrow>
     safe_path cs"
  by (induction nm ps acc rule: normalize_parts.induct)
    (auto simp: safe_part_def split: if_splits)

lemma normalize_parts_iff:
  "(\<exists>cs. normalize_parts nm ps acc = Inr cs) \<longleftrightarrow> [dot, dot] \<notin> set ps \<and> (\<forall>p \<in> set ps. 0 \<notin> set p)"
  by (induction nm ps acc rule: normalize_parts.induct) (auto split: if_splits)

lemma normalize_parts_keep:
  "safe_path ps \<Longrightarrow> normalize_parts nm ps acc = Inr (acc @ ps)"
  by (induction nm ps acc rule: normalize_parts.induct) (auto simp: safe_part_def)

lemma normalize_parts_result:
  "normalize_parts nm ps acc = Inr cs \<Longrightarrow> cs = acc @ filter (\<lambda>p. p \<noteq> [] \<and> p \<noteq> [dot]) ps"
  by (induction nm ps acc rule: normalize_parts.induct) (auto split: if_splits)

lemma split_on_no_slash: "list_all (\<lambda>p. slash \<notin> set p) (split_on slash nm)"
  using split_on_no_sep [of _ slash nm] by (auto simp: list_all_iff)

lemma normalize_safe: "normalize_name nm = Inr cs \<Longrightarrow> safe_path cs"
  using normalize_parts_safe [of nm "split_on slash nm" "[]" cs] split_on_no_slash
  by (auto simp: normalize_name_def split: list.splits if_splits)

lemma safe_path_drop: "safe_path cs \<Longrightarrow> safe_path (drop n cs)"
  by (meson in_set_dropD list_all_iff)

lemma safe_path_take: "safe_path cs \<Longrightarrow> safe_path (take n cs)"
  by (meson in_set_takeD list_all_iff)

section \<open>The operations of the staging root\<close>

text \<open>
  The methods of \<open>xsh_root::Root\<close> the extraction calls on the staging directory, over a world
  \<open>'w\<close>. An opened file is a sink; what was written to it is stored back under its path.
\<close>

record 'w root_ops =
  op_mkdir :: "components \<Rightarrow> u32 \<Rightarrow> ('w, io_error, unit) op"
  op_kind :: "components \<Rightarrow> ('w, io_error, file_kind) op"
  op_remove_file :: "components \<Rightarrow> ('w, io_error, unit) op"
  op_create_new :: "components \<Rightarrow> ('w, io_error, sink) op"
  op_store :: "components \<Rightarrow> u8 list \<Rightarrow> 'w \<Rightarrow> 'w"
  op_symlink :: "u8 list \<Rightarrow> components \<Rightarrow> ('w, io_error, unit) op"
  op_hard_link :: "components \<Rightarrow> components \<Rightarrow> ('w, io_error, unit) op"
  op_make_node :: "components \<Rightarrow> entry_kind \<Rightarrow> u32 \<Rightarrow> u32 \<times> u32 \<Rightarrow> ('w, io_error, unit) op"
  op_set_owner :: "components \<Rightarrow> u32 \<Rightarrow> u32 \<Rightarrow> ('w, io_error, unit) op"
  op_set_mode :: "components \<Rightarrow> u32 \<Rightarrow> ('w, io_error, unit) op"

text \<open>\<open>State\<close>, with the world the stage lives in and the cursor the bodies are read from.\<close>

record 'w stage_state =
  world :: 'w
  cursor :: seq_cursor
  known_dirs :: "components set"
  explicit_dirs :: "(components, u32) btree"
  implicit_dirs :: "components set"
  seen :: "components set"
  files :: "components set"
  entry_total :: u64
  file_count :: u64
  byte_count :: u64

type_synonym ('w, 'a) stage_op = "('w stage_state, error, 'a) op"

definition on_world :: "('w, 'e, 'a) op \<Rightarrow> ('w stage_state, 'e, 'a) op" where
  "on_world m s = (case m (world s) of (r, w) \<Rightarrow> (r, s\<lparr>world := w\<rparr>))"

text \<open>A call on the root whose error is reported for an entry (\<open>io_error\<close>).\<close>

definition host :: "entry_meta \<Rightarrow> ('w, io_error, 'a) op \<Rightarrow> ('w, 'a) stage_op" where
  "host meta m = map_errS (\<lambda>e. with_entry (name meta) (from_host e)) (on_world m)"

definition permission_bits :: "policy \<Rightarrow> u32 \<Rightarrow> u32" where
  "permission_bits p m = (case modes p of Plain \<Rightarrow> m AND 0x1FF | Exact \<Rightarrow> m AND 0xFFF)"

definition selected :: "components list \<Rightarrow> components \<Rightarrow> bool" where
  "selected filters cs \<longleftrightarrow> filters = [] \<or> list_ex (\<lambda>f. take (length f) cs = f) filters"

section \<open>Staging\<close>

fun ensure_prefixes ::
  "'w root_ops \<Rightarrow> entry_meta \<Rightarrow> components \<Rightarrow> components \<Rightarrow> ('w, unit) stage_op" where
  "ensure_prefixes r meta prefix [] = retS ()"
| "ensure_prefixes r meta prefix (part # parts) =
     (\<lambda>s.
       (let path = prefix @ [part] in
        if path \<in> known_dirs s then ensure_prefixes r meta path parts s
        else
          (case on_world (op_mkdir r path 0x1C0) s of
             (Inr _, s1) \<Rightarrow>
               ensure_prefixes r meta path parts
                 (s1\<lparr>implicit_dirs := insert path (implicit_dirs s1),
                    known_dirs := insert path (known_dirs s1)\<rparr>)
           | (Inl e, s1) \<Rightarrow>
               if io_error_kind e = AlreadyExists then
                 bindS (host meta (op_kind r path)) (\<lambda>k.
                   if k = Dir then
                     bindS (updS (\<lambda>s. s\<lparr>known_dirs := insert path (known_dirs s)\<rparr>)) (\<lambda>_.
                       ensure_prefixes r meta path parts)
                   else if k = Sym_link then
                     failS (unsafe_entry (name meta) ''a parent of the member is a symbolic link'')
                   else
                     failS (with_entry (name meta)
                       (error_new Collision_error ''a parent of the member is not a directory''))) s1
               else (Inl (with_entry (name meta) (from_host e)), s1))))"

definition ensure_parents ::
  "'w root_ops \<Rightarrow> entry_meta \<Rightarrow> components \<Rightarrow> ('w, unit) stage_op" where
  "ensure_parents r meta cs = ensure_prefixes r meta [] (butlast cs)"

definition claim :: "policy \<Rightarrow> entry_meta \<Rightarrow> components \<Rightarrow> ('w, bool) stage_op" where
  "claim p meta cs s =
     (let replacing = cs \<in> seen s;
          s' = s\<lparr>seen := insert cs (seen s)\<rparr>
      in if replacing \<and> collision p = Refuse_collision
         then (Inl (with_entry (name meta) (error_new Collision_error ''member name appears twice'')), s')
         else (Inr replacing, s'))"

definition apply_owner ::
  "'w root_ops \<Rightarrow> policy \<Rightarrow> entry_meta \<Rightarrow> components \<Rightarrow> ('w, unit) stage_op" where
  "apply_owner r p meta cs =
     (if ownership p = Apply then
        (case (uid meta, gid meta) of
           (Some u, Some g) \<Rightarrow> host meta (op_set_owner r cs u g)
         | _ \<Rightarrow> retS ())
      else retS ())"

definition prepare_leaf ::
  "'w root_ops \<Rightarrow> policy \<Rightarrow> entry_meta \<Rightarrow> components \<Rightarrow> ('w, bool) stage_op" where
  "prepare_leaf r p meta cs =
     (if cs = [] then failS (unsafe_entry (name meta) ''member names the extraction root'')
      else
        bindS (ensure_parents r meta cs) (\<lambda>_.
        bindS (claim p meta cs) (\<lambda>replacing s.
          if cs \<in> known_dirs s then
            (Inl (with_entry (name meta)
               (error_new Collision_error ''a member collides with a directory of the same name'')), s)
          else (Inr replacing, s))))"

definition clear :: "'w root_ops \<Rightarrow> entry_meta \<Rightarrow> components \<Rightarrow> ('w, unit) stage_op" where
  "clear r meta cs s =
     (case on_world (op_remove_file r cs) s of
        (Inr _, s1) \<Rightarrow> (Inr (), s1\<lparr>files := files s1 - {cs}\<rparr>)
      | (Inl e, s1) \<Rightarrow>
          if io_error_kind e = NotFound then (Inr (), s1)
          else (Inl (with_entry (name meta) (from_host e)), s1))"

definition clear_if :: "bool \<Rightarrow> 'w root_ops \<Rightarrow> entry_meta \<Rightarrow> components \<Rightarrow> ('w, unit) stage_op" where
  "clear_if replacing r meta cs = (if replacing then clear r meta cs else retS ())"

definition make_directory ::
  "'w root_ops \<Rightarrow> policy \<Rightarrow> entry_meta \<Rightarrow> components \<Rightarrow> ('w, unit) stage_op" where
  "make_directory r p meta cs s =
     (case on_world (op_mkdir r cs 0x1C0) s of
        (Inr _, s1) \<Rightarrow> (Inr (), s1)
      | (Inl e, s1) \<Rightarrow>
          if io_error_kind e = AlreadyExists then
            bindS (host meta (op_kind r cs)) (\<lambda>k.
              if k = Dir then retS ()
              else if collision p = Replace then
                bindS (host meta (op_remove_file r cs)) (\<lambda>_.
                bindS (updS (\<lambda>s. s\<lparr>files := files s - {cs}\<rparr>)) (\<lambda>_.
                  host meta (op_mkdir r cs 0x1C0)))
              else
                failS (with_entry (name meta)
                  (error_new Collision_error ''a directory member collides with a non-directory''))) s1
          else (Inl (with_entry (name meta) (from_host e)), s1))"

definition stage_directory ::
  "'w root_ops \<Rightarrow> policy \<Rightarrow> entry_meta \<Rightarrow> components \<Rightarrow> ('w, unit) stage_op" where
  "stage_directory r p meta cs =
     (if cs = [] then retS ()
      else
        bindS (ensure_parents r meta cs) (\<lambda>_.
        bindS (\<lambda>s. if cs \<in> known_dirs s then (Inr (), s)
               else bindS (make_directory r p meta cs) (\<lambda>_.
                      updS (\<lambda>s. s\<lparr>known_dirs := insert cs (known_dirs s)\<rparr>)) s) (\<lambda>_.
        bindS (updS (\<lambda>s. s\<lparr>implicit_dirs := implicit_dirs s - {cs},
                 explicit_dirs := bt_insert cs
                   (permission_bits p (case mode meta of None \<Rightarrow> 0x1ED | Some m \<Rightarrow> m))
                   (explicit_dirs s)\<rparr>)) (\<lambda>_.
          apply_owner r p meta cs))))"

text \<open>
  The copy into the opened file, then what was written is on disk whether or not it succeeded;
  \<open>byte_count\<close> counts what the loop wrote.
\<close>

definition copy_file ::
  "'w root_ops \<Rightarrow> entry_meta \<Rightarrow> components \<Rightarrow> body \<Rightarrow> sink \<Rightarrow> ('w, unit) stage_op" where
  "copy_file r meta cs b out s =
     (case copy_body (name meta) b (cursor s) out of
        (res, c, out') \<Rightarrow>
          (res, s\<lparr>cursor := c, world := op_store r cs (written out') (world s),
                  byte_count := byte_count s + of_nat (length (written out') - length (written out))\<rparr>))"

definition stage_file ::
  "'w root_ops \<Rightarrow> policy \<Rightarrow> entry_meta \<Rightarrow> components \<Rightarrow> body \<Rightarrow> ('w, unit) stage_op" where
  "stage_file r p meta cs b =
     (if (case link_count meta of None \<Rightarrow> False | Some n \<Rightarrow> 1 < n) \<and> entry_size meta = Some 0 then
        failS (with_entry (name meta) (unsupported
          ''cpio hard-link sets store their data with the last link and are not supported''))
      else
        bindS (prepare_leaf r p meta cs) (\<lambda>replacing.
        bindS (clear_if replacing r meta cs) (\<lambda>_.
        bindS (host meta (op_create_new r cs)) (\<lambda>out.
        bindS (copy_file r meta cs b out) (\<lambda>_.
        bindS (apply_owner r p meta cs) (\<lambda>_.
        bindS (host meta (op_set_mode r cs
            (permission_bits p (case mode meta of None \<Rightarrow> 0x1A4 | Some m \<Rightarrow> m)))) (\<lambda>_.
          updS (\<lambda>s. s\<lparr>files := insert cs (files s), file_count := file_count s + 1\<rparr>))))))))"

definition stage_symlink ::
  "'w root_ops \<Rightarrow> policy \<Rightarrow> entry_meta \<Rightarrow> components \<Rightarrow> ('w, unit) stage_op" where
  "stage_symlink r p meta cs =
     (case link meta of
        None \<Rightarrow> failS (with_entry (name meta) (corrupt ''symbolic link has no target''))
      | Some target \<Rightarrow>
          if target = [] then failS (with_entry (name meta) (corrupt ''symbolic link has no target''))
          else
            bindS (case links p of
                Refuse_links \<Rightarrow> failS (unsafe_entry (name meta)
                  ''symbolic links are refused by the extraction policy'')
              | Contained \<Rightarrow> liftS (contained_link (name meta) cs target)
              | Verbatim \<Rightarrow> retS ()) (\<lambda>_.
            if 0 \<in> set target then
              failS (unsafe_entry (name meta) ''link target contains a NUL byte'')
            else
              bindS (prepare_leaf r p meta cs) (\<lambda>replacing.
              bindS (clear_if replacing r meta cs) (\<lambda>_.
              bindS (host meta (op_symlink r target cs)) (\<lambda>_.
              bindS (apply_owner r p meta cs) (\<lambda>_.
                updS (\<lambda>s. s\<lparr>files := insert cs (files s)\<rparr>)))))))"

definition stage_hardlink ::
  "'w root_ops \<Rightarrow> policy \<Rightarrow> entry_meta \<Rightarrow> components \<Rightarrow> ('w, unit) stage_op" where
  "stage_hardlink r p meta cs =
     (if links p = Refuse_links then
        failS (unsafe_entry (name meta) ''hard links are refused by the extraction policy'')
      else
        (case link meta of
           None \<Rightarrow> failS (with_entry (name meta) (corrupt ''hard link has no target''))
         | Some target_name \<Rightarrow>
             bindS (liftS (normalize_name target_name)) (\<lambda>target_full.
               if length target_full \<le> strip_components p then
                 failS (unsafe_entry (name meta)
                   ''hard link target is stripped out of the extracted tree'')
               else
                 (let target = drop (strip_components p) target_full in
                  (\<lambda>s. if target \<notin> files s then
                     (Inl (unsafe_entry (name meta)
                       ''hard link target is not an earlier regular file of this extraction''), s)
                   else
                     bindS (host meta (op_kind r target)) (\<lambda>k.
                       if k \<noteq> Regular then
                         failS (unsafe_entry (name meta) ''hard link target is not a regular file'')
                       else
                         bindS (prepare_leaf r p meta cs) (\<lambda>replacing.
                         bindS (clear_if replacing r meta cs) (\<lambda>_.
                         bindS (host meta (op_hard_link r target cs)) (\<lambda>_.
                           updS (\<lambda>s. s\<lparr>files := insert cs (files s)\<rparr>))))) s)))))"

definition stage_special ::
  "'w root_ops \<Rightarrow> policy \<Rightarrow> entry_meta \<Rightarrow> components \<Rightarrow> ('w, unit) stage_op" where
  "stage_special r p meta cs =
     (if special p = Refuse_special then
        failS (unsafe_entry (name meta) ''special files are refused by the extraction policy'')
      else
        (let k = (case ekind meta of Fifo \<Rightarrow> Fifo | CharDevice \<Rightarrow> CharDevice | _ \<Rightarrow> BlockDevice);
             dev = (case device meta of None \<Rightarrow> (0, 0) | Some d \<Rightarrow> d);
             bits = permission_bits p (case mode meta of None \<Rightarrow> 0x180 | Some m \<Rightarrow> m) in
         bindS (prepare_leaf r p meta cs) (\<lambda>replacing.
         bindS (clear_if replacing r meta cs) (\<lambda>_.
         bindS (host meta (op_make_node r cs k bits dev)) (\<lambda>_.
         bindS (apply_owner r p meta cs) (\<lambda>_.
           updS (\<lambda>s. s\<lparr>files := insert cs (files s)\<rparr>)))))))"

text \<open>\<open>State::apply\<close>: one member of the archive.\<close>

definition stage_entry ::
  "'w root_ops \<Rightarrow> policy \<Rightarrow> components list \<Rightarrow> entry_meta \<Rightarrow> body \<Rightarrow> ('w, unit) stage_op" where
  "stage_entry r p filters meta b =
     bindS (liftS (normalize_name (name meta))) (\<lambda>full.
       if \<not> selected filters full then retS ()
       else if length full \<le> strip_components p then retS ()
       else
         (let cs = drop (strip_components p) full in
          bindS (updS (\<lambda>s. s\<lparr>entry_total := entry_total s + 1\<rparr>)) (\<lambda>_.
            case ekind meta of
              Directory \<Rightarrow> stage_directory r p meta cs
            | File \<Rightarrow> stage_file r p meta cs b
            | Symlink \<Rightarrow> stage_symlink r p meta cs
            | Hardlink \<Rightarrow> stage_hardlink r p meta cs
            | Other \<Rightarrow> failS (with_entry (name meta)
                (unsupported ''member has an unsupported entry type''))
            | _ \<Rightarrow> stage_special r p meta cs)))"

section \<open>The interface to the staging root\<close>

text \<open>
  What a proof about extraction needs of the root: an invariant of its world that every
  operation keeps when it is called on safe, non-empty paths (and a condition on the cursor that
  copying a body keeps). Then every member keeps it, whatever the archive says and whatever the
  operations answer.
\<close>

definition state_ok :: "('w \<Rightarrow> bool) \<Rightarrow> (seq_cursor \<Rightarrow> bool) \<Rightarrow> 'w stage_state \<Rightarrow> bool" where
  "state_ok I C s \<longleftrightarrow> I (world s) \<and> C (cursor s)"

locale stage_root =
  fixes r :: "'w root_ops" and I :: "'w \<Rightarrow> bool" and C :: "seq_cursor \<Rightarrow> bool"
  assumes mkdir: "safe_path cs \<Longrightarrow> cs \<noteq> [] \<Longrightarrow> keeps I (op_mkdir r cs m)"
    and kind: "safe_path cs \<Longrightarrow> cs \<noteq> [] \<Longrightarrow> keeps I (op_kind r cs)"
    and remove: "safe_path cs \<Longrightarrow> cs \<noteq> [] \<Longrightarrow> keeps I (op_remove_file r cs)"
    and create: "safe_path cs \<Longrightarrow> cs \<noteq> [] \<Longrightarrow> keeps I (op_create_new r cs)"
    and store: "safe_path cs \<Longrightarrow> cs \<noteq> [] \<Longrightarrow> I w \<Longrightarrow> I (op_store r cs bs w)"
    and symlink: "safe_path cs \<Longrightarrow> cs \<noteq> [] \<Longrightarrow> 0 \<notin> set target \<Longrightarrow> target \<noteq> [] \<Longrightarrow>
      keeps I (op_symlink r target cs)"
    and hard_link: "safe_path cs \<Longrightarrow> cs \<noteq> [] \<Longrightarrow> safe_path t \<Longrightarrow> t \<noteq> [] \<Longrightarrow>
      keeps I (op_hard_link r t cs)"
    and make_node: "safe_path cs \<Longrightarrow> cs \<noteq> [] \<Longrightarrow> keeps I (op_make_node r cs k m d)"
    and set_owner: "safe_path cs \<Longrightarrow> cs \<noteq> [] \<Longrightarrow> keeps I (op_set_owner r cs u g)"
    and set_mode: "safe_path cs \<Longrightarrow> cs \<noteq> [] \<Longrightarrow> keeps I (op_set_mode r cs m)"
    and copy: "C c \<Longrightarrow> C (fst (snd (copy_body nm b c out)))"
begin

abbreviation J :: "'w stage_state \<Rightarrow> bool" where
  "J \<equiv> state_ok I C"

lemma on_world_keeps: "keeps I m \<Longrightarrow> keeps J (on_world m)"
  unfolding keeps_def state_ok_def on_world_def by (auto split: prod.splits)

lemma on_world_J: "on_world m s = (x, s') \<Longrightarrow> keeps I m \<Longrightarrow> J s \<Longrightarrow> J s'"
  using on_world_keeps [of m] keepsD [of J "on_world m" s] by simp

lemma host_keeps: "keeps I m \<Longrightarrow> keeps J (host meta m)"
  unfolding host_def by (intro keeps_map_err on_world_keeps)

lemma upd_keeps:
  "(\<And>s. world (f s) = world s) \<Longrightarrow> (\<And>s. cursor (f s) = cursor s) \<Longrightarrow> keeps J (updS f)"
  by (rule keeps_upd) (simp add: state_ok_def)

lemma ensure_prefixes_keeps:
  "safe_path prefix \<Longrightarrow> safe_path parts \<Longrightarrow> keeps J (ensure_prefixes r meta prefix parts)"
proof (induction parts arbitrary: prefix)
  case Nil
  then show ?case by (simp add: keeps_def)
next
  case (Cons part parts)
  let ?path = "prefix @ [part]"
  have safe: "safe_path ?path" "?path \<noteq> []" using Cons.prems by simp_all
  have IH: "keeps J (ensure_prefixes r meta ?path parts)" using Cons safe by simp
  have tail: "keeps J (bindS (host meta (op_kind r ?path)) (\<lambda>k.
      if k = Dir then
        bindS (updS (\<lambda>s. s\<lparr>known_dirs := insert ?path (known_dirs s)\<rparr>)) (\<lambda>_.
          ensure_prefixes r meta ?path parts)
      else if k = Sym_link then
        failS (unsafe_entry (name meta) ''a parent of the member is a symbolic link'')
      else failS (with_entry (name meta)
        (error_new Collision_error ''a parent of the member is not a directory''))))"
    using safe IH by (intro keeps_intros host_keeps kind upd_keeps) simp_all
  show ?case
  proof (rule keepsI)
    fix s assume J: "J s"
    obtain x s1 where mk: "on_world (op_mkdir r ?path 0x1C0) s = (x, s1)"
      by (cases "on_world (op_mkdir r ?path 0x1C0) s")
    have J1: "J s1" using on_world_J [OF mk mkdir [OF safe] J] .
    then have J2: "J (s1\<lparr>implicit_dirs := A, known_dirs := B\<rparr>)" for A B by (simp add: state_ok_def)
    show "J (snd (ensure_prefixes r meta prefix (part # parts) s))"
      using mk J J1 keepsD [OF IH J] keepsD [OF IH J2] keepsD [OF tail J1]
      by (cases x) (simp_all add: Let_def)
  qed
qed

lemma ensure_parents_keeps: "safe_path cs \<Longrightarrow> keeps J (ensure_parents r meta cs)"
  unfolding ensure_parents_def
  by (rule ensure_prefixes_keeps) (auto simp: list_all_iff dest: in_set_butlastD)

lemma claim_keeps: "keeps J (claim p meta cs)"
  by (rule keepsI) (simp add: claim_def Let_def state_ok_def)

lemma apply_owner_keeps: "safe_path cs \<Longrightarrow> cs \<noteq> [] \<Longrightarrow> keeps J (apply_owner r p meta cs)"
  unfolding apply_owner_def
  by (auto intro!: keeps_intros host_keeps set_owner split: option.splits)

lemma prepare_leaf_keeps: "safe_path cs \<Longrightarrow> keeps J (prepare_leaf r p meta cs)"
  unfolding prepare_leaf_def
  by (intro keeps_intros ensure_parents_keeps claim_keeps keepsI) simp_all

lemma clear_keeps: "safe_path cs \<Longrightarrow> cs \<noteq> [] \<Longrightarrow> keeps J (clear r meta cs)"
proof (rule keepsI)
  fix s assume safe: "safe_path cs" "cs \<noteq> []" and J: "J s"
  obtain x s1 where rm: "on_world (op_remove_file r cs) s = (x, s1)"
    by (cases "on_world (op_remove_file r cs) s")
  have "J s1" using on_world_J [OF rm remove [OF safe] J] .
  then show "J (snd (clear r meta cs s))"
    using rm by (cases x) (simp_all add: clear_def state_ok_def)
qed

lemma clear_if_keeps: "safe_path cs \<Longrightarrow> cs \<noteq> [] \<Longrightarrow> keeps J (clear_if b r meta cs)"
  unfolding clear_if_def by (intro keeps_intros clear_keeps)

lemma make_directory_keeps:
  assumes safe: "safe_path cs" "cs \<noteq> []"
  shows "keeps J (make_directory r p meta cs)"
proof (rule keepsI)
  fix s assume J: "J s"
  obtain x s1 where mk: "on_world (op_mkdir r cs 0x1C0) s = (x, s1)"
    by (cases "on_world (op_mkdir r cs 0x1C0) s")
  have J1: "J s1" using on_world_J [OF mk mkdir [OF safe] J] .
  have tail: "keeps J (bindS (host meta (op_kind r cs)) (\<lambda>k.
      if k = Dir then retS ()
      else if collision p = Replace then
        bindS (host meta (op_remove_file r cs)) (\<lambda>_.
        bindS (updS (\<lambda>s. s\<lparr>files := files s - {cs}\<rparr>)) (\<lambda>_. host meta (op_mkdir r cs 0x1C0)))
      else failS (with_entry (name meta)
        (error_new Collision_error ''a directory member collides with a non-directory''))))"
    using safe by (intro keeps_intros host_keeps kind remove mkdir upd_keeps) simp_all
  show "J (snd (make_directory r p meta cs s))"
    using mk J1 keepsD [OF tail J1] by (cases x) (simp_all add: make_directory_def)
qed

lemma stage_directory_keeps: "safe_path cs \<Longrightarrow> keeps J (stage_directory r p meta cs)"
proof -
  assume safe: "safe_path cs"
  have known: "keeps J (\<lambda>s. if cs \<in> known_dirs s then (Inr (), s)
      else bindS (make_directory r p meta cs) (\<lambda>_.
             updS (\<lambda>s. s\<lparr>known_dirs := insert cs (known_dirs s)\<rparr>)) s)" if "cs \<noteq> []"
  proof (rule keepsI)
    have m: "keeps J (bindS (make_directory r p meta cs) (\<lambda>_.
        updS (\<lambda>s. s\<lparr>known_dirs := insert cs (known_dirs s)\<rparr>)))"
      by (intro keeps_bind make_directory_keeps [OF safe that] upd_keeps) simp_all
    show "J (snd (if cs \<in> known_dirs s then (Inr (), s)
      else bindS (make_directory r p meta cs) (\<lambda>_.
             updS (\<lambda>s. s\<lparr>known_dirs := insert cs (known_dirs s)\<rparr>)) s))" if "J s" for s
      using keepsD [OF m that] that by simp
  qed
  show ?thesis
    unfolding stage_directory_def
    using safe by (intro keeps_intros ensure_parents_keeps known upd_keeps apply_owner_keeps) simp_all
qed

lemma copy_file_keeps: "safe_path cs \<Longrightarrow> cs \<noteq> [] \<Longrightarrow> keeps J (copy_file r meta cs b out)"
  using copy [where nm = "name meta" and b = b and out = out]
  by (intro keepsI) (force simp: copy_file_def state_ok_def store split: prod.splits)

lemma stage_file_keeps: "safe_path cs \<Longrightarrow> keeps J (stage_file r p meta cs b)"
proof (cases "cs = []")
  case True
  then show ?thesis
    by (auto simp: stage_file_def prepare_leaf_def keeps_def bindS_def split: if_splits)
next
  case False
  assume "safe_path cs"
  with False show ?thesis
    unfolding stage_file_def
    by (intro keeps_intros prepare_leaf_keeps clear_if_keeps host_keeps create copy_file_keeps
        apply_owner_keeps set_mode upd_keeps) simp_all
qed

lemma prepare_leaf_root: "cs = [] \<Longrightarrow> keeps J (bindS (prepare_leaf r p meta cs) f)"
  by (simp add: prepare_leaf_def keeps_def bindS_def)

lemma stage_symlink_keeps: "safe_path cs \<Longrightarrow> keeps J (stage_symlink r p meta cs)"
proof (cases "link meta")
  case None
  then show ?thesis by (simp add: stage_symlink_def keeps_fail)
next
  case (Some target)
  assume safe: "safe_path cs"
  have leaf: "keeps J (bindS (prepare_leaf r p meta cs) (\<lambda>replacing.
      bindS (clear_if replacing r meta cs) (\<lambda>_.
      bindS (host meta (op_symlink r target cs)) (\<lambda>_.
      bindS (apply_owner r p meta cs) (\<lambda>_.
        updS (\<lambda>s. s\<lparr>files := insert cs (files s)\<rparr>))))))" if "target \<noteq> []" "0 \<notin> set target"
  proof (cases "cs = []")
    case False
    with safe that show ?thesis
      by (intro keeps_intros prepare_leaf_keeps clear_if_keeps host_keeps symlink
          apply_owner_keeps upd_keeps) simp_all
  qed (rule prepare_leaf_root)
  show ?thesis
    unfolding stage_symlink_def Some option.case
  proof (rule keeps_if [OF keeps_fail keeps_bind])
    show "keeps J (case links p of
        Refuse_links \<Rightarrow> failS (unsafe_entry (name meta)
          ''symbolic links are refused by the extraction policy'')
      | Contained \<Rightarrow> liftS (contained_link (name meta) cs target)
      | Verbatim \<Rightarrow> retS ())"
      by (cases "links p") (simp_all add: keeps_def)
  qed (rule keeps_if [OF keeps_fail leaf])
qed

lemma stage_hardlink_keeps: "safe_path cs \<Longrightarrow> keeps J (stage_hardlink r p meta cs)"
proof -
  assume safe: "safe_path cs"
  have leaf: "keeps J (bindS (host meta (op_kind r t)) (\<lambda>k.
      if k \<noteq> Regular then failS (unsafe_entry (name meta) ''hard link target is not a regular file'')
      else
        bindS (prepare_leaf r p meta cs) (\<lambda>replacing.
        bindS (clear_if replacing r meta cs) (\<lambda>_.
        bindS (host meta (op_hard_link r t cs)) (\<lambda>_.
          updS (\<lambda>s. s\<lparr>files := insert cs (files s)\<rparr>))))))" if "safe_path t" "t \<noteq> []" for t
  proof (cases "cs = []")
    case False
    with safe that show ?thesis
      by (intro keeps_intros host_keeps kind prepare_leaf_keeps clear_if_keeps hard_link
          upd_keeps) simp_all
  next
    case True
    with that show ?thesis
      by (intro keeps_intros host_keeps kind prepare_leaf_root) simp_all
  qed
  have target: "keeps J (\<lambda>s. if t \<notin> files s then (Inl e, s) else m s)" if "keeps J m"
    for t e and m :: "('w, unit) stage_op"
    using that by (simp add: keeps_def)
  show ?thesis
  proof (cases "link meta")
    case None
    then show ?thesis by (auto simp: stage_hardlink_def intro!: keeps_intros)
  next
    case (Some tn)
    have step: "keeps J (bindS (liftS (normalize_name tn)) f)"
      if "\<And>full. safe_path full \<Longrightarrow> keeps J (f full)" for f :: "components \<Rightarrow> ('w, unit) stage_op"
      using that normalize_safe [of tn] by (cases "normalize_name tn") (auto simp: keeps_def)
    show ?thesis
      unfolding stage_hardlink_def Some option.case Let_def
      by (intro keeps_if [OF keeps_fail] step, intro keeps_if [OF keeps_fail] target leaf
          safe_path_drop) (simp_all add: not_le)
  qed
qed

lemma stage_special_keeps: "safe_path cs \<Longrightarrow> keeps J (stage_special r p meta cs)"
proof (cases "cs = []")
  case True
  then show ?thesis
    unfolding stage_special_def Let_def by (intro keeps_if [OF keeps_fail] prepare_leaf_root)
next
  case False
  assume "safe_path cs"
  with False show ?thesis
    unfolding stage_special_def Let_def
    by (intro keeps_intros prepare_leaf_keeps clear_if_keeps host_keeps make_node
        apply_owner_keeps upd_keeps) simp_all
qed

lemma normalized_keeps:
  "(\<And>full. safe_path full \<Longrightarrow> keeps J (f full)) \<Longrightarrow> keeps J (bindS (liftS (normalize_name nm)) f)"
  using normalize_safe [of nm] by (cases "normalize_name nm") (auto simp: keeps_def)

theorem stage_entry_keeps: "keeps J (stage_entry r p filters meta b)"
proof -
  have kinds: "keeps J (case ekind meta of
              Directory \<Rightarrow> stage_directory r p meta cs
            | File \<Rightarrow> stage_file r p meta cs b
            | Symlink \<Rightarrow> stage_symlink r p meta cs
            | Hardlink \<Rightarrow> stage_hardlink r p meta cs
            | Other \<Rightarrow> failS (with_entry (name meta)
                (unsupported ''member has an unsupported entry type''))
            | _ \<Rightarrow> stage_special r p meta cs)" if "safe_path cs" for cs
    using that stage_directory_keeps stage_file_keeps stage_symlink_keeps stage_hardlink_keeps
      stage_special_keeps
    by (cases "ekind meta") (simp_all add: keeps_fail del: failS_app)
  show ?thesis
    unfolding stage_entry_def Let_def
    by (intro normalized_keeps keeps_if keeps_ret keeps_bind upd_keeps kinds safe_path_drop) simp_all
qed

end

section \<open>The whole archive\<close>

text \<open>How the steps of a cursor shrink what is left of its input.\<close>

abbreviation left_le :: "nat \<Rightarrow> 'x port_scheme \<Rightarrow> bool" where
  "left_le n \<equiv> \<lambda>p. events_size (events p) \<le> n"

lemma left_keepsD:
  "(\<And>n. keeps (left_le n) m) \<Longrightarrow> m p = (x, q) \<Longrightarrow> events_size (events q) \<le> events_size (events p)"
  using keepsD [of "left_le (events_size (events p))" m p] by simp

lemma on_budget_same_events: "on_budget m p = (x, q) \<Longrightarrow> events q = events p"
  using on_budget_events [of m p] by simp

lemma on_budget_left: "keeps (left_le n) (on_budget m)"
  by (rule keepsI) simp

lemma upd_left: "(\<And>p. events (f p) = events p) \<Longrightarrow> keeps (left_le n) (updS f)"
  by (rule keeps_upd) simp

lemma read_up_to_left: "keeps (left_le n) (read_up_to k)"
proof (rule keepsI)
  fix p :: "'x port_scheme" assume le: "left_le n p"
  obtain x q where "read_loop k [] p = (x, q)" by (cases "read_loop k [] p")
  then show "left_le n (snd (read_up_to k p))"
    using le read_loop_events [of k "[]" p x q "[]"] by (simp add: read_up_to_def)
qed

lemma read_exact_left: "keeps (left_le n) (read_exact_or_truncated k what)"
  unfolding read_exact_or_truncated_def by (intro keeps_intros read_up_to_left)

lemma discard_left: "keeps (left_le n) (discard k)"
proof (rule keepsI)
  fix p :: "'x port_scheme" assume "left_le n p"
  then show "left_le n (snd (discard k p))"
  proof (induction k p rule: discard.induct)
    case (1 k p)
    obtain x p1 where p1: "on_budget checkpoint p = (x, p1)" by (cases "on_budget checkpoint p")
    obtain y p2 where p2: "read_up_to (min (unat k) 8192) p1 = (y, p2)"
      by (cases "read_up_to (min (unat k) 8192) p1")
    have l1: "left_le n p1" using keepsD [OF on_budget_left 1(2), of checkpoint] p1 by simp
    have l2: "left_le n p2" using keepsD [OF read_up_to_left l1, of "min (unat k) 8192"] p2 by simp
    show ?case
      using 1(1) p1 p2 1(2) l1 l2
      by (cases x; cases y) (simp_all add: discard.simps [of k p])
  qed
qed

lemma finish_trailer_left: "keeps (left_le n) finish_trailer"
proof (rule keepsI)
  fix p :: "'x port_scheme" assume "left_le n p"
  then show "left_le n (snd (finish_trailer p))"
  proof (induction p rule: finish_trailer.induct)
    case (1 p)
    obtain x p1 where p1: "on_budget checkpoint p = (x, p1)" by (cases "on_budget checkpoint p")
    obtain y p2 where p2: "read_up_to 8192 p1 = (y, p2)" by (cases "read_up_to 8192 p1")
    have l1: "left_le n p1" using keepsD [OF on_budget_left 1(2), of checkpoint] p1 by simp
    have l2: "left_le n p2" using keepsD [OF read_up_to_left l1, of 8192] p2 by simp
    show ?case
      using 1(1) p1 p2 1(2) l1 l2
      by (cases x; cases y) (simp_all add: finish_trailer.simps [of p])
  qed
qed

lemma read_name_left: "keeps (left_le n) (read_name k off)"
  unfolding read_name_def
  by (intro keeps_intros on_budget_left read_exact_left discard_left)

lemma sequential_left: "sequential_read k c = (x, c') \<Longrightarrow> left_le n c \<Longrightarrow> left_le n c'"
  using sequential_read_events(1) [of k c x c'] by simp

lemma body_read_left: "body_read k b c = (x, b', c') \<Longrightarrow> left_le n c \<Longrightarrow> left_le n c'"
  by (cases b) (auto simp: checked_read_def Let_def split: prod.splits sum.splits if_splits
      dest: sequential_left)

lemma copy_body_left: "left_le n c \<Longrightarrow> left_le n (fst (snd (copy_body nm b c out)))"
proof (induction nm b c out rule: copy_body.induct)
  case (1 nm b c out)
  obtain x c1 where c1: "on_budget checkpoint c = (x, c1)" by (cases "on_budget checkpoint c")
  obtain y b' c2 where c2: "body_read 65536 b c1 = (y, b', c2)"
    by (cases "body_read 65536 b c1") auto
  have l1: "left_le n c1" using keepsD [OF on_budget_left 1(3), of checkpoint] c1 by simp
  have l2: "left_le n c2" using body_read_left [OF c2 l1] .
  show ?case
    using 1(1,2) c1 c2 l1 l2
    by (simp add: copy_body.simps [of nm b c out] split: sum.splits prod.splits io_error.splits)
qed

lemma read_meta_less:
  assumes "read_meta p = (Inr (Some x), q)"
  shows "events_size (events q) < events_size (events p)"
proof -
  obtain u p1 where p1: "on_budget checkpoint p = (Inr u, p1)"
    using assms by (auto simp: read_meta_def bindS_eq_Inr)
  obtain h p2 where p2: "read_up_to HEADER p1 = (Inr h, p2)" and ne: "h \<noteq> []"
    and rest: "(bindS (liftS (parse_fields h (position p1))) (\<lambda>f.
            bindS (read_name (f_name_size f) (position p1)) (\<lambda>nm.
              if nm = TRAILER then retS None
              else retS (Some (fields_meta f nm,
                     if take 6 h = bytes_of ''070702'' then Some (f_check f) else None))))) p2
       = (Inr (Some x), q)"
    using assms p1 by (auto simp: read_meta_def bindS_eq_Inr Let_def split: if_splits)
  have l1: "events_size (events p1) \<le> events_size (events p)"
    by (rule left_keepsD [OF on_budget_left p1])
  have less: "events_size (events p2) < events_size (events p1)"
    using read_up_to_events [OF p2 ne] .
  have "keeps (left_le n) (bindS (liftS (parse_fields h (position p1))) (\<lambda>f.
            bindS (read_name (f_name_size f) (position p1)) (\<lambda>nm.
              if nm = TRAILER then retS None
              else retS (Some (fields_meta f nm,
                     if take 6 h = bytes_of ''070702'' then Some (f_check f) else None)))))" for n
    by (intro keeps_intros read_name_left)
  from left_keepsD [OF this rest] have "events_size (events q) \<le> events_size (events p2)" .
  then show ?thesis using less l1 by simp
qed

lemma admit_entry_left: "keeps (left_le n) (admit_entry meta check)"
proof -
  have check: "keeps (left_le n) (case check of None \<Rightarrow> retS ()
          | Some expected \<Rightarrow>
              bindS (updS (\<lambda>c. c\<lparr>checked_entries := checked_entries c + 1\<rparr>)) (\<lambda>_.
                if byte_sum target \<noteq> expected
                then failS (with_entry (name meta) (corrupt ''cpio checksum mismatch''))
                else updS (\<lambda>c. c\<lparr>verified_entries := verified_entries c + 1\<rparr>)))" for target
    by (cases check) (auto intro!: keeps_intros upd_left simp del: retS_app failS_app updS_app)
  have body: "keeps (left_le n) (case check of
         None \<Rightarrow> retS (Some (meta, Sequential_body))
       | Some expected \<Rightarrow>
           bindS (updS (\<lambda>c. c\<lparr>checked_entries := checked_entries c + 1\<rparr>)) (\<lambda>_.
             retS (Some (meta, Checked_body 0 expected False))))"
    by (cases check) (auto intro!: keeps_intros upd_left simp del: retS_app failS_app updS_app)
  show ?thesis
    unfolding admit_entry_def open_body_def read_link_target_def Let_def
    by (intro keeps_intros on_budget_left read_exact_left discard_left upd_left check body) simp_all
qed

lemma next_entry_less:
  assumes "next_entry c = (Inr (Some x), c')"
  shows "events_size (events c') < events_size (events c)"
proof -
  obtain u c1 where c1: "skip_body c = (Inr u, c1)"
    using assms by (auto simp: next_entry_def bindS_eq_Inr)
  have l1: "events_size (events c1) \<le> events_size (events c)"
    using left_keepsD [OF discard_left, of "remaining c + padding c" "c\<lparr>remaining := 0, padding := 0\<rparr>"] c1
    by (simp add: skip_body_def)
  obtain m check c2 where c2: "read_meta c1 = (Inr (Some (m, check)), c2)"
    and c3: "admit_entry m check c2 = (Inr (Some x), c')"
    using assms c1 by (auto simp: next_entry_def bindS_eq_Inr split: option.splits if_splits prod.splits)
  have "events_size (events c') \<le> events_size (events c2)"
    by (rule left_keepsD [OF admit_entry_left c3])
  then show ?thesis using read_meta_less [OF c2] l1 by simp
qed

lemma stage_root_trivial: "stage_root r (\<lambda>_. True) (left_le n)"
  by unfold_locales (simp_all add: keeps_def copy_body_left)

lemma stage_entry_left:
  "stage_entry r p filters meta b s = (x, s') \<Longrightarrow>
     events_size (events (cursor s')) \<le> events_size (events (cursor s))"
  using keepsD [OF stage_root.stage_entry_keeps [OF stage_root_trivial], of _ s r p filters meta b]
  by (fastforce simp: state_ok_def)

definition on_cursor :: "(seq_cursor, 'e, 'a) op \<Rightarrow> ('w stage_state, 'e, 'a) op" where
  "on_cursor m s = (case m (cursor s) of (r, c) \<Rightarrow> (r, s\<lparr>cursor := c\<rparr>))"

lemma stage_all_progress:
  assumes "on_cursor next_entry s = (Inr (Some x), s1)"
    and "on_cursor (on_budget checkpoint) s1 = (y, s2)"
    and "stage_entry r p filters meta b s2 = (z, s3)"
  shows "events_size (events (cursor s3)) < events_size (events (cursor s))"
proof -
  have "events_size (events (cursor s1)) < events_size (events (cursor s))"
    using assms(1) by (auto simp: on_cursor_def split: prod.splits dest: next_entry_less)
  moreover have "events (cursor s2) = events (cursor s1)"
    using assms(2) by (auto simp: on_cursor_def split: prod.splits dest: on_budget_same_events)
  ultimately show ?thesis using stage_entry_left [OF assms(3)] by simp
qed

text \<open>The loop of \<open>run\<close>: it ends because every entry takes a header from the input.\<close>

function stage_all ::
  "'w root_ops \<Rightarrow> policy \<Rightarrow> components list \<Rightarrow> ('w, unit) stage_op" where
  "stage_all r p filters s =
     (case on_cursor next_entry s of
        (Inl e, s1) \<Rightarrow> (Inl e, s1)
      | (Inr None, s1) \<Rightarrow> (Inr (), s1)
      | (Inr (Some (meta, b)), s1) \<Rightarrow>
          (case on_cursor (on_budget checkpoint) s1 of
             (Inl e, s2) \<Rightarrow> (Inl e, s2)
           | (Inr _, s2) \<Rightarrow>
               (case stage_entry r p filters meta b s2 of
                  (Inl e, s3) \<Rightarrow> (Inl e, s3)
                | (Inr _, s3) \<Rightarrow> stage_all r p filters s3)))"
  by pat_completeness auto

termination
  by (relation "measure (\<lambda>(r, p, filters, s). events_size (events (cursor s)))")
    (auto dest: stage_all_progress [OF sym sym sym])

declare stage_all.simps [simp del]

text \<open>
  \<open>finish_directories\<close>: deeper directories first, then by name downwards; directories the
  destination already has (\<open>merged\<close>) keep their modes.
\<close>

definition directory_modes :: "'w stage_state \<Rightarrow> (components \<times> u32) list" where
  "directory_modes s =
     rev (sort_key (\<lambda>(path, _). (length path, path))
       (rev (map (\<lambda>path. (path, 0x1ED)) (sorted_list_of_set (implicit_dirs s)) @ explicit_dirs s)))"

fun set_modes ::
  "'w root_ops \<Rightarrow> components set \<Rightarrow> (components \<times> u32) list \<Rightarrow> ('w, unit) stage_op" where
  "set_modes r merged [] = retS ()"
| "set_modes r merged ((path, m) # rest) =
     (if path \<in> merged then set_modes r merged rest
      else
        bindS (map_errS (\<lambda>e. with_context ''setting a directory mode'' (from_host e))
          (on_world (op_set_mode r path m))) (\<lambda>_. set_modes r merged rest))"

definition finish_directories :: "'w root_ops \<Rightarrow> components set \<Rightarrow> ('w, unit) stage_op" where
  "finish_directories r merged s = set_modes r merged (directory_modes s) s"

record report =
  r_entries :: u64
  r_files :: u64
  r_bytes :: u64
  r_completion :: completion

definition fresh_state :: "'w \<Rightarrow> seq_cursor \<Rightarrow> 'w stage_state" where
  "fresh_state w c =
     \<lparr>world = w, cursor = c, known_dirs = {}, explicit_dirs = [], implicit_dirs = {}, seen = {},
      files = {}, entry_total = 0, file_count = 0, byte_count = 0\<rparr>"

text \<open>
  \<open>run\<close>. Its last steps, setting the modes of the directories and publishing the finished stage,
  depend on the placement of the stage and are parameters; \<open>Xsh_Publish\<close> supplies them.
\<close>

definition run_extract ::
  "'w root_ops \<Rightarrow> ('w stage_state, error, unit) op \<Rightarrow> ('w stage_state, error, unit) op \<Rightarrow> policy \<Rightarrow>
     components list \<Rightarrow> ('w, report) stage_op" where
  "run_extract r finish publish p filters =
     bindS (stage_all r p filters) (\<lambda>_ s.
       (let completion = archive_finish (cursor_finish (cursor s)) True in
        if \<not> completion_contains completion STRUCTURE_COMPLETE \<or>
           \<not> completion_contains completion OUTER_COMPLETE
        then (Inl (truncated ''archive did not reach its end''), s)
        else
          bindS (on_cursor (on_budget checkpoint)) (\<lambda>_ s.
            (let report = \<lparr>r_entries = entry_total s, r_files = file_count s,
                           r_bytes = byte_count s, r_completion = completion\<rparr> in
             bindS finish (\<lambda>_.
             bindS publish (\<lambda>_. retS report)) s)) s))"

section \<open>A staging tree\<close>

text \<open>
  An instance of the parameter: a staging directory as the set of its entries, with the errors a
  host gives for the calls the extraction makes.
\<close>

datatype staged =
    Staged_dir u32
  | Staged_file "u8 list" u32
  | Staged_link "u8 list"
  | Staged_node entry_kind u32

type_synonym staged_tree = "(components, staged) btree"

fun staged_kind :: "staged \<Rightarrow> file_kind" where
  "staged_kind (Staged_dir _) = Dir"
| "staged_kind (Staged_file _ _) = Regular"
| "staged_kind (Staged_link _) = Sym_link"
| "staged_kind (Staged_node k _) =
     (case k of Fifo \<Rightarrow> Fifo_file | CharDevice \<Rightarrow> Char_device | _ \<Rightarrow> Block_device)"

definition is_dir_at :: "staged_tree \<Rightarrow> components \<Rightarrow> bool" where
  "is_dir_at t cs \<longleftrightarrow> cs = [] \<or> (case bt_get t cs of Some (Staged_dir _) \<Rightarrow> True | _ \<Rightarrow> False)"

definition tree_add :: "components \<Rightarrow> staged \<Rightarrow> 'a \<Rightarrow> (staged_tree, io_error, 'a) op" where
  "tree_add cs n a t =
     (if bt_get t cs \<noteq> None then (Inl (Host AlreadyExists ''File exists''), t)
      else if \<not> is_dir_at t (butlast cs) then (Inl (Host NotFound ''No such file or directory''), t)
      else (Inr a, bt_insert cs n t))"

definition tree_lookup :: "components \<Rightarrow> (staged_tree, io_error, staged) op" where
  "tree_lookup cs t =
     (case bt_get t cs of None \<Rightarrow> (Inl (Host NotFound ''No such file or directory''), t)
      | Some n \<Rightarrow> (Inr n, t))"

definition tree_remove_file :: "components \<Rightarrow> (staged_tree, io_error, unit) op" where
  "tree_remove_file cs =
     bindS (tree_lookup cs) (\<lambda>n.
       if staged_kind n = Dir then failS (Host Other_io ''Is a directory'')
       else updS (bt_remove cs))"

definition tree_set_mode :: "components \<Rightarrow> u32 \<Rightarrow> (staged_tree, io_error, unit) op" where
  "tree_set_mode cs m =
     bindS (tree_lookup cs) (\<lambda>n.
       updS (bt_insert cs (case n of
           Staged_dir _ \<Rightarrow> Staged_dir m
         | Staged_file bs _ \<Rightarrow> Staged_file bs m
         | Staged_link t \<Rightarrow> Staged_link t
         | Staged_node k _ \<Rightarrow> Staged_node k m)))"

definition tree_store :: "components \<Rightarrow> u8 list \<Rightarrow> staged_tree \<Rightarrow> staged_tree" where
  "tree_store cs bs t =
     (case bt_get t cs of Some (Staged_file _ m) \<Rightarrow> bt_insert cs (Staged_file bs m) t | _ \<Rightarrow> t)"

definition tree_hard_link :: "components \<Rightarrow> components \<Rightarrow> (staged_tree, io_error, unit) op" where
  "tree_hard_link target cs = bindS (tree_lookup target) (\<lambda>n.
     if staged_kind n = Dir then failS (Host Other_io ''Operation not permitted'')
     else tree_add cs n ())"

definition tree_ops :: "staged_tree root_ops" where
  "tree_ops =
     \<lparr>op_mkdir = (\<lambda>cs m. tree_add cs (Staged_dir m) ()),
      op_kind = (\<lambda>cs. bindS (tree_lookup cs) (\<lambda>n. retS (staged_kind n))),
      op_remove_file = tree_remove_file,
      op_create_new = (\<lambda>cs. tree_add cs (Staged_file [] 0x180) memory),
      op_store = tree_store,
      op_symlink = (\<lambda>target cs. tree_add cs (Staged_link target) ()),
      op_hard_link = tree_hard_link,
      op_make_node = (\<lambda>cs k m d. tree_add cs (Staged_node k m) ()),
      op_set_owner = (\<lambda>cs u g. bindS (tree_lookup cs) (\<lambda>_. retS ())),
      op_set_mode = tree_set_mode\<rparr>"

text \<open>
  A well-formed stage: every entry has a path of safe components, and its parent is the root or
  a directory of the stage.
\<close>

definition tree_ok :: "staged_tree \<Rightarrow> bool" where
  "tree_ok t \<longleftrightarrow> bt_wf t \<and>
     (\<forall>cs n. bt_get t cs = Some n \<longrightarrow> safe_path cs \<and> cs \<noteq> [] \<and> is_dir_at t (butlast cs))"

lemma tree_ok_insert:
  assumes ok: "tree_ok t" and safe: "safe_path cs" "cs \<noteq> []" "is_dir_at t (butlast cs)"
    and kind: "is_dir_at t cs \<Longrightarrow> staged_kind n = Dir"
  shows "tree_ok (bt_insert cs n t)"
proof -
  have wf: "bt_wf t" using ok by (simp add: tree_ok_def)
  have isdir: "is_dir_at (bt_insert cs n t) xs" if "is_dir_at t xs" for xs
  proof (cases "xs = cs")
    case True
    then have "staged_kind n = Dir" using kind that by simp
    then show ?thesis
      using True by (cases n) (simp_all add: is_dir_at_def bt.get_ins [OF wf] split: entry_kind.splits)
  next
    case False
    then show ?thesis using that by (simp add: is_dir_at_def bt.get_ins [OF wf])
  qed
  show ?thesis
    unfolding tree_ok_def
  proof (intro conjI allI impI)
    show "bt_wf (bt_insert cs n t)" using wf by (rule bt.inv_ins)
    fix xs k assume "bt_get (bt_insert cs n t) xs = Some k"
    then have "xs = cs \<or> bt_get t xs = Some k" by (auto simp: bt.get_ins [OF wf] split: if_splits)
    then show "safe_path xs" "xs \<noteq> []" "is_dir_at (bt_insert cs n t) (butlast xs)"
      using ok safe isdir by (auto simp: tree_ok_def)
  qed
qed

lemma tree_ok_remove:
  assumes ok: "tree_ok t" and plain: "bt_get t cs = Some n" "staged_kind n \<noteq> Dir"
  shows "tree_ok (bt_remove cs t)"
proof -
  have wf: "bt_wf t" using ok by (simp add: tree_ok_def)
  have "is_dir_at (bt_remove cs t) xs" if "is_dir_at t xs" for xs
    using that plain by (cases n) (auto simp: is_dir_at_def bt.get_del [OF wf])
  then show ?thesis
    using ok by (auto simp: tree_ok_def bt.get_del [OF wf] bt.inv_del split: if_splits)
qed

lemma tree_ok_replace:
  assumes ok: "tree_ok t" and at: "bt_get t cs = Some n"
    and kind: "staged_kind n = Dir \<Longrightarrow> staged_kind m = Dir"
  shows "tree_ok (bt_insert cs m t)"
proof (rule tree_ok_insert [OF ok])
  show "safe_path cs" "cs \<noteq> []" "is_dir_at t (butlast cs)" using ok at by (auto simp: tree_ok_def)
  then show "staged_kind m = Dir" if "is_dir_at t cs"
    using that at kind by (cases n) (auto simp: is_dir_at_def)
qed

lemma tree_add_keeps: "safe_path cs \<Longrightarrow> cs \<noteq> [] \<Longrightarrow> keeps tree_ok (tree_add cs n a)"
  by (rule keepsI) (auto simp: tree_add_def is_dir_at_def intro!: tree_ok_insert)

lemma tree_lookup_keeps: "keeps tree_ok (tree_lookup cs)"
  by (rule keepsI) (simp add: tree_lookup_def split: option.splits)

lemma tree_lookup_bind:
  "(\<And>t n. tree_ok t \<Longrightarrow> bt_get t cs = Some n \<Longrightarrow> tree_ok (snd (f n t))) \<Longrightarrow>
     keeps tree_ok (bindS (tree_lookup cs) f)"
  by (rule keepsI) (simp add: tree_lookup_def bindS_def split: option.splits)

lemma tree_remove_keeps: "keeps tree_ok (tree_remove_file cs)"
  unfolding tree_remove_file_def
  by (rule tree_lookup_bind) (simp add: tree_ok_remove)

lemma tree_set_mode_keeps: "keeps tree_ok (tree_set_mode cs m)"
  unfolding tree_set_mode_def
  by (rule tree_lookup_bind) (auto intro!: tree_ok_replace split: staged.splits entry_kind.splits)

lemma tree_store_keeps: "tree_ok t \<Longrightarrow> tree_ok (tree_store cs bs t)"
  by (auto simp: tree_store_def split: option.splits staged.splits intro!: tree_ok_replace)

lemma tree_hard_link_keeps:
  "safe_path cs \<Longrightarrow> cs \<noteq> [] \<Longrightarrow> keeps tree_ok (tree_hard_link target cs)"
  unfolding tree_hard_link_def
  by (rule tree_lookup_bind) (use keepsD [OF tree_add_keeps] in auto)

interpretation stage: stage_root tree_ops tree_ok "\<lambda>_. True"
  by unfold_locales
    (simp_all add: tree_ops_def tree_add_keeps tree_lookup_keeps tree_remove_keeps tree_store_keeps
      tree_hard_link_keeps tree_set_mode_keeps keeps_bind keeps_ret del: retS_app)

end
