(* ===== verification/Xsh_Extract_Correct.thy ===== *)
theory Xsh_Extract_Correct
  imports Xsh_Extract
begin

text \<open>
  Properties of the extraction: which member names and link targets it accepts, what a policy
  rules out, and that the staging directory only ever receives entries below its root.
\<close>

section \<open>Names\<close>

lemma normalize_joined: "safe_path cs \<Longrightarrow> normalize_name (joined cs) = Inr cs"
proof (cases cs)
  case Nil
  then show ?thesis by (simp add: normalize_name_def joined_def)
next
  case (Cons c rest)
  assume safe: "safe_path cs"
  then have ne: "c \<noteq> []" "slash \<notin> set c" using Cons by (auto simp: safe_part_def)
  then obtain b bs where c: "c = b # bs" "b \<noteq> slash" by (cases c) auto
  have "split_on slash (joined cs) = cs"
    unfolding joined_def using safe Cons
    by (intro split_join) (auto simp: list_all_iff safe_part_def)
  moreover have "\<exists>xs. joined cs = b # xs"
    using Cons c by (cases rest) (auto simp: joined_def)
  ultimately show ?thesis
    using normalize_parts_keep [OF safe, of "joined cs" "[]"] c(2)
    by (auto simp: normalize_name_def)
qed

lemma normalize_accepts:
  "(\<exists>cs. normalize_name nm = Inr cs) \<longleftrightarrow>
     (nm = [] \<or> hd nm \<noteq> slash) \<and> [dot, dot] \<notin> set (split_on slash nm) \<and> 0 \<notin> set nm"
proof -
  have "0 \<in> set nm \<longleftrightarrow> (\<exists>p \<in> set (split_on slash nm). (0::u8) \<in> set p)"
  proof -
    have "set nm = set (join_with slash (split_on slash nm))" by simp
    also have "0 \<in> \<dots> \<longleftrightarrow> (\<exists>p \<in> set (split_on slash nm). (0::u8) \<in> set p)"
    proof -
      have "0 \<in> set (join_with slash ps) \<longleftrightarrow> (\<exists>p \<in> set ps. (0::u8) \<in> set p)" for ps
        by (induction slash ps rule: join_with.induct) auto
      then show ?thesis .
    qed
    finally show ?thesis .
  qed
  then show ?thesis
    using normalize_parts_iff [of nm "split_on slash nm" "[]"]
    by (cases nm) (auto simp: normalize_name_def)
qed

section \<open>Links\<close>

text \<open>
  The lexical resolution of a target from the directory a link is in: \<open>None\<close> when it climbs
  above the extraction root.
\<close>

fun resolve_lexically :: "components \<Rightarrow> components \<Rightarrow> components option" where
  "resolve_lexically dir [] = Some dir"
| "resolve_lexically dir (part # rest) =
     (if part = [] \<or> part = [dot] then resolve_lexically dir rest
      else if part = [dot, dot] then
        (if dir = [] then None else resolve_lexically (butlast dir) rest)
      else resolve_lexically (dir @ [part]) rest)"

lemma contained_parts_iff:
  "contained_parts nm (length dir) parts = Inr () \<longleftrightarrow> resolve_lexically dir parts \<noteq> None"
  by (induction dir parts rule: resolve_lexically.induct)
    (auto simp: length_0_conv)

text \<open>
  How a host follows a path in the staged tree: a component that is a symbolic link is replaced
  by its target. \<open>None\<close> when the path leaves the root.
\<close>

fun follow :: "nat \<Rightarrow> staged_tree \<Rightarrow> components \<Rightarrow> components \<Rightarrow> components option" where
  "follow 0 t dir parts = Some dir"
| "follow (Suc k) t dir [] = Some dir"
| "follow (Suc k) t dir (part # rest) =
     (if part = [] \<or> part = [dot] then follow k t dir rest
      else if part = [dot, dot] then
        (if dir = [] then None else follow k t (butlast dir) rest)
      else (case bt_get t (dir @ [part]) of
              Some (Staged_link target) \<Rightarrow> follow k t dir (split_on slash target @ rest)
            | _ \<Rightarrow> follow k t (dir @ [part]) rest))"

definition link_member :: "string \<Rightarrow> string \<Rightarrow> entry_meta" where
  "link_member nm target = (entry_meta_new (bytes_of nm) Symlink)\<lparr>link := Some (bytes_of target)\<rparr>"

section \<open>What a policy rules out\<close>

lemma prepare_leaf_refuse:
  "collision p = Refuse_collision \<Longrightarrow> prepare_leaf r p meta cs s = (Inr b, s') \<Longrightarrow> \<not> b"
  by (auto simp: prepare_leaf_def bindS_eq_Inr claim_def Let_def split: if_splits)

lemma bindS_cong_Inr:
  "(\<And>a s'. m s = (Inr a, s') \<Longrightarrow> f a s' = g a s') \<Longrightarrow> bindS m f s = bindS m g s"
  by (auto simp: bindS_def split: prod.splits sum.splits)

text \<open>
  Two roots that agree on the operations a policy can reach: removal only when replacing is
  allowed, links, special files and owners only when the policy allows them.
\<close>

definition agree :: "policy \<Rightarrow> 'w root_ops \<Rightarrow> 'w root_ops \<Rightarrow> bool" where
  "agree p r' r \<longleftrightarrow>
     op_mkdir r' = op_mkdir r \<and> op_kind r' = op_kind r \<and> op_create_new r' = op_create_new r \<and>
     op_store r' = op_store r \<and> op_set_mode r' = op_set_mode r \<and>
     (collision p = Replace \<longrightarrow> op_remove_file r' = op_remove_file r) \<and>
     (links p \<noteq> Refuse_links \<longrightarrow> op_symlink r' = op_symlink r \<and> op_hard_link r' = op_hard_link r) \<and>
     (special p = Create_special \<longrightarrow> op_make_node r' = op_make_node r) \<and>
     (ownership p = Apply \<longrightarrow> op_set_owner r' = op_set_owner r)"

lemma agree_simps:
  assumes "agree p r' r"
  shows "op_mkdir r' = op_mkdir r" and "op_kind r' = op_kind r"
    and "op_create_new r' = op_create_new r" and "op_store r' = op_store r"
    and "op_set_mode r' = op_set_mode r"
  using assms by (simp_all add: agree_def)

lemma ensure_prefixes_agree:
  assumes "agree p r' r"
  shows "ensure_prefixes r' meta pre ps = ensure_prefixes r meta pre ps"
proof (induction ps arbitrary: pre)
  case Nil
  show ?case by (simp add: fun_eq_iff)
next
  case (Cons part ps)
  show ?case
    unfolding ensure_prefixes.simps Let_def Cons agree_simps [OF assms] ..
qed

lemma prepare_leaf_agree:
  "agree p r' r \<Longrightarrow> prepare_leaf r' p meta cs = prepare_leaf r p meta cs"
  by (simp add: prepare_leaf_def ensure_parents_def ensure_prefixes_agree)

lemma apply_owner_agree: "agree p r' r \<Longrightarrow> apply_owner r' p meta cs = apply_owner r p meta cs"
proof (cases "ownership p")
  case Apply
  assume "agree p r' r"
  with Apply have o: "op_set_owner r' = op_set_owner r" by (simp add: agree_def)
  show ?thesis unfolding apply_owner_def o ..
qed (simp add: apply_owner_def)

lemma copy_file_agree: "agree p r' r \<Longrightarrow> copy_file r' meta cs b out = copy_file r meta cs b out"
  by (simp add: copy_file_def agree_simps fun_eq_iff)

lemma leaf_agree:
  assumes "agree p r' r"
  shows "bindS (prepare_leaf r' p meta cs) (\<lambda>b. bindS (clear_if b r' meta cs) f) =
    bindS (prepare_leaf r p meta cs) (\<lambda>b. bindS (clear_if b r meta cs) f)"
proof (cases "collision p")
  case Refuse_collision
  have "clear_if b r' meta cs = clear_if b r meta cs"
    if "prepare_leaf r p meta cs s = (Inr b, s')" for b s s'
    using prepare_leaf_refuse [OF Refuse_collision that] by (simp add: clear_if_def)
  then show ?thesis
    unfolding prepare_leaf_agree [OF assms]
    by (intro ext bindS_cong_Inr) simp
next
  case Replace
  then have o: "op_remove_file r' = op_remove_file r" using assms by (simp add: agree_def)
  have "clear_if b r' meta cs = clear_if b r meta cs" for b
    unfolding clear_if_def clear_def o ..
  then show ?thesis by (simp add: prepare_leaf_agree [OF assms])
qed

lemma make_directory_agree:
  assumes "agree p r' r"
  shows "make_directory r' p meta cs = make_directory r p meta cs"
proof -
  have "(if collision p = Replace then bindS (host meta (op_remove_file r' cs)) f else m) =
      (if collision p = Replace then bindS (host meta (op_remove_file r cs)) f else m)"
    for f :: "unit \<Rightarrow> ('a, unit) stage_op" and m
    using assms by (simp add: agree_def)
  then show ?thesis
    unfolding make_directory_def agree_simps [OF assms] by (simp only:)
qed

lemma stage_entry_agree:
  assumes a: "agree p r' r"
  shows "stage_entry r' p filters meta b = stage_entry r p filters meta b"
proof -
  note eqs = leaf_agree [OF a] apply_owner_agree [OF a] copy_file_agree [OF a] agree_simps [OF a]
  have "stage_directory r' p meta cs = stage_directory r p meta cs" for cs
    unfolding stage_directory_def ensure_parents_def ensure_prefixes_agree [OF a]
      make_directory_agree [OF a] eqs ..
  moreover have "stage_file r' p meta cs b = stage_file r p meta cs b" for cs
    unfolding stage_file_def eqs ..
  moreover have "stage_symlink r' p meta cs = stage_symlink r p meta cs" for cs
  proof (cases "links p = Refuse_links")
    case True
    then show ?thesis
      by (cases "link meta") (auto simp: stage_symlink_def fun_eq_iff bindS_def)
  next
    case False
    then have l: "op_symlink r' = op_symlink r" using a by (simp add: agree_def)
    show ?thesis unfolding stage_symlink_def eqs l ..
  qed
  moreover have "stage_hardlink r' p meta cs = stage_hardlink r p meta cs" for cs
  proof (cases "links p = Refuse_links")
    case True
    then show ?thesis by (simp add: stage_hardlink_def)
  next
    case False
    then have l: "op_hard_link r' = op_hard_link r" using a by (simp add: agree_def)
    show ?thesis unfolding stage_hardlink_def Let_def eqs l ..
  qed
  moreover have "stage_special r' p meta cs = stage_special r p meta cs" for cs
  proof (cases "special p")
    case Refuse_special
    then show ?thesis by (simp add: stage_special_def)
  next
    case Create_special
    then have l: "op_make_node r' = op_make_node r" using a by (simp add: agree_def)
    show ?thesis unfolding stage_special_def Let_def eqs l ..
  qed
  ultimately show ?thesis unfolding stage_entry_def Let_def by (simp only:)
qed

lemma stage_all_agree:
  "agree p r' r \<Longrightarrow> stage_all r' p filters s = stage_all r p filters s"
proof (induction r p filters s rule: stage_all.induct)
  case (1 r p filters s)
  show ?case
    using 1 stage_entry_agree [OF 1(2)]
    by (subst (1 2) stage_all.simps) (auto split: prod.splits sum.splits option.splits)
qed

lemma stage_all_keeps:
  assumes "stage_root r I (\<lambda>_. True)" and "I (world s)"
  shows "I (world (snd (stage_all r p filters s)))"
  using assms
proof (induction r p filters s rule: stage_all.induct)
  case (1 r p filters s)
  obtain x s1 where s1: "on_cursor next_entry s = (x, s1)" by (cases "on_cursor next_entry s")
  obtain y s2 where s2: "on_cursor (on_budget checkpoint) s1 = (y, s2)"
    by (cases "on_cursor (on_budget checkpoint) s1")
  have w1: "I (world s1)" and w2: "I (world s2)"
    using s1 s2 1(3) by (auto simp: on_cursor_def split: prod.splits)
  have w3: "I (world (snd (stage_entry r p filters meta b s2)))" for meta b
    using keepsD [OF stage_root.stage_entry_keeps [OF 1(2)], of s2 p filters meta b] w2
    by (simp add: state_ok_def)
  show ?case
  proof (cases "\<exists>meta b u. x = Inr (Some (meta, b)) \<and> y = Inr u")
    case False
    then show ?thesis
      using s1 s2 w1 w2 by (subst stage_all.simps) (auto split: sum.splits option.splits)
  next
    case True
    then obtain meta b u where xy: "x = Inr (Some (meta, b))" "y = Inr u" by blast
    obtain z s3 where s3: "stage_entry r p filters meta b s2 = (z, s3)"
      by (cases "stage_entry r p filters meta b s2")
    then have "I (world s3)" using w3 [of meta b] by simp
    then show ?thesis
      using 1(1) [OF s1 [symmetric] xy(1) refl refl s2 [symmetric] xy(2) s3 [symmetric] _ 1(2)] s1 s2 s3 xy
      by (cases z) (simp_all add: stage_all.simps [of r p filters s])
  qed
qed

section \<open>Properties\<close>

text \<open>A member name is accepted exactly when it is relative, has no \<open>..\<close> component and no NUL
  byte, and then it stands for its components without the empty ones and the \<open>.\<close> ones.\<close>

theorem normalize_spec:
  "normalize_name nm = Inr cs \<longleftrightarrow>
     take 1 nm \<noteq> [slash] \<and> [dot, dot] \<notin> set (split_on slash nm) \<and> 0 \<notin> set nm \<and>
     cs = filter (\<lambda>p. p \<noteq> [] \<and> p \<noteq> [dot]) (split_on slash nm)"
proof -
  have "cs' = filter (\<lambda>p. p \<noteq> [] \<and> p \<noteq> [dot]) (split_on slash nm)" if "normalize_name nm = Inr cs'"
    for cs'
    using that normalize_parts_result [of nm "split_on slash nm" "[]"]
    by (auto simp: normalize_name_def split: list.splits if_splits)
  then show ?thesis
    using normalize_accepts [of nm] by (cases nm) auto
qed

text \<open>What a name is normalized to consists of components that each name one directory
  entry (not empty, not \<open>.\<close> or \<open>..\<close>, no slash and no NUL), and normalizing its joined form gives
  it back.\<close>

theorem normalize_roundtrip:
  "normalize_name nm = Inr cs \<Longrightarrow> safe_path cs \<and> normalize_name (joined cs) = Inr cs"
  using normalize_safe normalize_joined by blast

theorem normalize_roundtrip_witness:
  "normalize_name (bytes_of ''./a//b'') = Inr [[97], [98]] \<and>
   normalize_name (joined [[97], [98]]) = Inr [[97], [98]]"
proof -
  have n: "normalize_name (bytes_of ''./a//b'') = Inr [[97], [98]]"
    by (simp add: normalize_name_def bytes_of_def)
  with normalize_roundtrip [OF n] show ?thesis by simp
qed

text \<open>The check of a contained link accepts a target exactly when it is relative and its
  lexical resolution from the directory of the link never climbs above the extraction root.\<close>

theorem contained_link_spec:
  "contained_link nm at_link target = Inr () \<longleftrightarrow>
     take 1 target \<noteq> [slash] \<and> resolve_lexically (butlast at_link) (split_on slash target) \<noteq> None"
proof (cases "take 1 target = [slash]")
  case True
  then show ?thesis by (cases target) (simp_all add: contained_link_def)
next
  case False
  then have "contained_link nm at_link target =
      contained_parts nm (length (butlast at_link)) (split_on slash target)"
    by (cases target) (simp_all add: contained_link_def)
  with False show ?thesis by (simp only: contained_parts_iff) simp
qed





lemma archive_finish_complete:
  "completion_contains (archive_finish f b) STRUCTURE_COMPLETE \<longleftrightarrow> structure_complete f"
  by (cases b; cases "structure_complete f"; cases "checksum_verified f")
    (simp_all add: archive_finish_def Let_def completion_contains_def completion_with_def
      INSPECTED_def PAYLOAD_CONSUMED_def CHECKSUM_VERIFIED_def STRUCTURE_COMPLETE_def
      OUTER_COMPLETE_def)




end
