(* ===== verification/Xsh_Publish.thy ===== *)
theory Xsh_Publish
  imports Xsh_Extract_Correct
begin

text \<open>
  Where an extraction happens and how it ends (\<open>extract.rs\<close>): the placement of the staging
  directory next to a fresh destination or inside an existing one, the creation of missing
  parents and their rollback, the check for conflicts, the merge of the finished stage into the
  destination, the recursive removal of what is left, and \<open>extract_beneath\<close>, which ties them
  together. The host's directories are reached through the methods of \<open>Root\<close>, a record of
  functions over an unspecified world \<open>'w\<close> with handles \<open>'h\<close>. The empty path stands for \<open>.\<close>.

  Three routines recurse into directories the host lists. They take a fuel argument, the depth
  they may still descend, and return \<open>None\<close> when it is used up; \<open>Xsh_Publish_Correct\<close> shows that
  fuel above the depth of the tree is enough.
\<close>

unbundle bit_operations_syntax

section \<open>Runs that may exhaust their fuel\<close>

type_synonym ('s, 'e, 'a) run = "'s \<Rightarrow> (('e + 'a) \<times> 's) option"

definition liftR :: "('s, 'e, 'a) op \<Rightarrow> ('s, 'e, 'a) run" where
  "liftR m s = Some (m s)"

definition bindR :: "('s, 'e, 'a) run \<Rightarrow> ('a \<Rightarrow> ('s, 'e, 'b) run) \<Rightarrow> ('s, 'e, 'b) run" where
  "bindR m f s =
     (case m s of
        None \<Rightarrow> None
      | Some (Inl e, s') \<Rightarrow> Some (Inl e, s')
      | Some (Inr a, s') \<Rightarrow> f a s')"

definition map_errR :: "('e \<Rightarrow> 's \<Rightarrow> 'f) \<Rightarrow> ('s, 'e, 'a) run \<Rightarrow> ('s, 'f, 'a) run" where
  "map_errR f m s =
     (case m s of
        None \<Rightarrow> None
      | Some (Inl e, s') \<Rightarrow> Some (Inl (f e s'), s')
      | Some (Inr a, s') \<Rightarrow> Some (Inr a, s'))"

text \<open>A call whose result the code matches on.\<close>

definition attempt :: "('s, 'e, 'a) op \<Rightarrow> ('s, 'f, 'e + 'a) op" where
  "attempt m s = (case m s of (r, s') \<Rightarrow> (Inr r, s'))"

section \<open>The host\<close>

datatype rename_mode = No_replace | Replacing

record ('h, 'w) host_fs =
  fs_metadata :: "'h \<Rightarrow> components \<Rightarrow> ('w, io_error, file_kind \<times> u32) op"
  fs_mkdir :: "'h \<Rightarrow> components \<Rightarrow> u32 \<Rightarrow> ('w, io_error, unit) op"
  fs_set_mode :: "'h \<Rightarrow> components \<Rightarrow> u32 \<Rightarrow> ('w, io_error, unit) op"
  fs_remove_file :: "'h \<Rightarrow> components \<Rightarrow> ('w, io_error, unit) op"
  fs_remove_dir :: "'h \<Rightarrow> components \<Rightarrow> ('w, io_error, unit) op"
  fs_read_dir :: "'h \<Rightarrow> components \<Rightarrow> ('w, io_error, (u8 list \<times> file_kind) list) op"
  fs_rename :: "'h \<Rightarrow> components \<Rightarrow> components \<Rightarrow> rename_mode \<Rightarrow> ('w, io_error, unit) op"
  fs_open_dir :: "'h \<Rightarrow> components \<Rightarrow> ('w, io_error, 'h) op"
  fs_stage :: "'h \<Rightarrow> 'w root_ops"

text \<open>A path in a message.\<close>

definition shown :: "components \<Rightarrow> string" where
  "shown cs = map (\<lambda>b. char_of (unat b :: nat)) (joined cs)"

section \<open>Removing a tree\<close>

fun remove_tree ::
  "('h, 'w) host_fs \<Rightarrow> 'h \<Rightarrow> nat \<Rightarrow> components \<Rightarrow> ('w, io_error, unit) run"
and remove_entries ::
  "('h, 'w) host_fs \<Rightarrow> 'h \<Rightarrow> nat \<Rightarrow> components \<Rightarrow> (u8 list \<times> file_kind) list \<Rightarrow>
     ('w, io_error, unit) run"
where
  "remove_tree fs h 0 path = (\<lambda>_. None)"
| "remove_tree fs h (Suc n) path =
     bindR (liftR (attempt (fs_metadata fs h path))) (\<lambda>r.
       case r of
         Inl e \<Rightarrow> liftR (if io_error_kind e = NotFound then retS () else failS e)
       | Inr (k, m) \<Rightarrow>
           if k \<noteq> Dir then liftR (fs_remove_file fs h path)
           else
             bindR (liftR (attempt (fs_set_mode fs h path 0x1C0))) (\<lambda>_.
             bindR (liftR (fs_read_dir fs h path)) (\<lambda>entries.
             bindR (remove_entries fs h n path entries) (\<lambda>_.
               liftR (fs_remove_dir fs h path)))))"
| "remove_entries fs h n path [] = liftR (retS ())"
| "remove_entries fs h n path ((nm, k) # rest) =
     bindR (remove_tree fs h n (path @ [nm])) (\<lambda>_. remove_entries fs h n path rest)"

section \<open>The destination path\<close>

datatype path_component = Normal "u8 list" | Cur_dir | Parent_dir | Root_dir

text \<open>
  \<open>Path::components\<close>: repeated and trailing separators are dropped, and so is \<open>.\<close> anywhere but at
  the start of a relative path.
\<close>

definition path_component :: "u8 list \<Rightarrow> path_component option" where
  "path_component part =
     (if part = [] \<or> part = [dot] then None
      else if part = [dot, dot] then Some Parent_dir
      else Some (Normal part))"

definition path_components :: "u8 list \<Rightarrow> path_component list" where
  "path_components path =
     (let parts = split_on slash path;
          start = (if take 1 path = [slash] then [Root_dir]
                   else if hd parts = [dot] then [Cur_dir] else [])
      in start @ List.map_filter path_component parts)"

fun normal_components :: "path_component list \<Rightarrow> error + components" where
  "normal_components [] = Inr []"
| "normal_components (Normal part # rest) = bindE (normal_components rest) (\<lambda>ps. Inr (part # ps))"
| "normal_components (Cur_dir # rest) = normal_components rest"
| "normal_components (c # rest) =
     Inl (options_error ''destination must be relative and contain no `..`'')"

definition beneath_components :: "u8 list \<Rightarrow> error + components" where
  "beneath_components dest = normal_components (path_components dest)"

section \<open>Missing parents\<close>

record 'h created_ancestors =
  anchor :: 'h
  relative :: "components list"

text \<open>Every directory is tried, deepest first, and the failures are collected.\<close>

fun remove_ancestors :: "('h, 'w) host_fs \<Rightarrow> 'h \<Rightarrow> components list \<Rightarrow> ('w, error, string list) op" where
  "remove_ancestors fs a [] = retS []"
| "remove_ancestors fs a (path # rest) =
     bindS (attempt (fs_remove_dir fs a path)) (\<lambda>r.
     bindS (remove_ancestors fs a rest) (\<lambda>failures.
       retS (case r of
               Inl e \<Rightarrow> (''removing '' @ shown path @ '': '' @ io_error_text e) # failures
             | Inr _ \<Rightarrow> failures)))"

fun join_text :: "string \<Rightarrow> string list \<Rightarrow> string" where
  "join_text sep [] = ''''"
| "join_text sep [x] = x"
| "join_text sep (x # xs) = x @ sep @ join_text sep xs"

definition rollback :: "('h, 'w) host_fs \<Rightarrow> 'h created_ancestors \<Rightarrow> ('w, error, unit) op" where
  "rollback fs created =
     bindS (remove_ancestors fs (anchor created) (rev (relative created))) (\<lambda>failures.
       if failures = [] then retS ()
       else failS (error_new Io_error (join_text ''; '' failures)))"

definition rolled_back :: "('h, 'w) host_fs \<Rightarrow> 'h created_ancestors \<Rightarrow> error \<Rightarrow> ('w, error, 'a) op" where
  "rolled_back fs created failure =
     bindS (attempt (rollback fs created)) (\<lambda>r.
       case r of
         Inr _ \<Rightarrow> failS failure
       | Inl cleanup \<Rightarrow> failS (with_cleanup cleanup failure))"

text \<open>
  The walk upwards to the nearest ancestor that exists; the path is given from its last component
  upwards, and the missing components are returned from the top.
\<close>

fun missing_ancestors ::
  "('h, 'w) host_fs \<Rightarrow> 'h \<Rightarrow> components \<Rightarrow> components \<Rightarrow> ('w, error, components \<times> components) op"
where
  "missing_ancestors fs h [] missing = retS ([], missing)"
| "missing_ancestors fs h (part # up) missing =
     bindS (attempt (fs_metadata fs h (rev (part # up)))) (\<lambda>r.
       case r of
         Inr _ \<Rightarrow> retS (rev (part # up), missing)
       | Inl e \<Rightarrow>
           if io_error_kind e = NotFound then missing_ancestors fs h up (part # missing)
           else failS (from_open e))"

fun make_ancestors ::
  "('h, 'w) host_fs \<Rightarrow> 'h \<Rightarrow> components \<Rightarrow> components list \<Rightarrow> components \<Rightarrow>
     ('w, error, 'h created_ancestors) op"
where
  "make_ancestors fs a prefix made [] = retS \<lparr>anchor = a, relative = made\<rparr>"
| "make_ancestors fs a prefix made (part # rest) =
     bindS (attempt (fs_mkdir fs a (prefix @ [part]) 0x1FF)) (\<lambda>r.
       case r of
         Inl e \<Rightarrow> rolled_back fs \<lparr>anchor = a, relative = made\<rparr> (from_open e)
       | Inr _ \<Rightarrow> make_ancestors fs a (prefix @ [part]) (made @ [prefix @ [part]]) rest)"

definition create_parent ::
  "('h, 'w) host_fs \<Rightarrow> 'h \<Rightarrow> components \<Rightarrow> ('w, error, 'h created_ancestors option \<times> 'h) op" where
  "create_parent fs root parent_path =
     bindS (missing_ancestors fs root (rev parent_path) []) (\<lambda>(existing, missing).
       if missing = [] then
         bindS (map_errS from_open (fs_open_dir fs root existing)) (\<lambda>h. retS (None, h))
       else
         bindS (map_errS from_open (fs_open_dir fs root existing)) (\<lambda>a.
         bindS (make_ancestors fs a [] [] missing) (\<lambda>created.
         bindS (attempt (fs_open_dir fs (anchor created) missing)) (\<lambda>r.
           case r of
             Inr parent \<Rightarrow> retS (Some created, parent)
           | Inl e \<Rightarrow> rolled_back fs created (from_open e)))))"

section \<open>Placement\<close>

datatype 'h target = Fresh 'h "u8 list" u32 | Existing 'h

record 'h placement =
  target :: "'h target"
  created_ancestors :: "'h created_ancestors option"
  stage_name :: "u8 list option"

text \<open>The world, and the counter that makes the names of stages unique (\<open>STAGE_COUNTER\<close>).\<close>

record 'w hosted =
  hworld :: 'w
  stage_counter :: u64

definition on_host :: "('w, 'e, 'a) op \<Rightarrow> ('w hosted, 'e, 'a) op" where
  "on_host m s = (case m (hworld s) of (r, w) \<Rightarrow> (r, s\<lparr>hworld := w\<rparr>))"

definition next_count :: "('w hosted, 'e, u64) op" where
  "next_count s = (Inr (stage_counter s), s\<lparr>stage_counter := stage_counter s + 1\<rparr>)"

definition unique_name :: "string \<Rightarrow> u32 \<Rightarrow> u64 \<Rightarrow> u8 list" where
  "unique_name prefix pid n =
     bytes_of (prefix @ show_nat (unat pid) @ ''-'' @ show_nat (unat n))"

definition probe_directory_mode :: "('h, 'w) host_fs \<Rightarrow> u32 \<Rightarrow> 'h \<Rightarrow> ('w hosted, error, u32) op" where
  "probe_directory_mode fs pid parent =
     bindS next_count (\<lambda>n.
       (let nm = [unique_name ''.xsh-archive-mode-'' pid n] in
        bindS (map_errS from_host (on_host (fs_mkdir fs parent nm 0x1FF))) (\<lambda>_.
        bindS (on_host (attempt (fs_metadata fs parent nm))) (\<lambda>mode.
        bindS (on_host (attempt (fs_remove_dir fs parent nm))) (\<lambda>removed.
        bindS (map_errS from_host (liftS mode)) (\<lambda>(k, m).
        bindS (map_errS from_host (liftS removed)) (\<lambda>_.
          retS (m AND 0x1FF))))))))"

definition prepare_placement ::
  "('h, 'w) host_fs \<Rightarrow> u32 \<Rightarrow> 'h \<Rightarrow> u8 list \<Rightarrow> ('w hosted, error, 'h placement) op" where
  "prepare_placement fs pid root dest =
     bindS (liftS (beneath_components dest)) (\<lambda>components.
       if components = [] then
         bindS (map_errS from_open (on_host (fs_open_dir fs root []))) (\<lambda>h.
           retS \<lparr>target = Existing h, created_ancestors = None, stage_name = None\<rparr>)
       else
         bindS (on_host (attempt (fs_metadata fs root components))) (\<lambda>r.
           case r of
             Inr (k, m) \<Rightarrow>
               if k = Dir then
                 bindS (map_errS from_open (on_host (fs_open_dir fs root components))) (\<lambda>h.
                   retS \<lparr>target = Existing h, created_ancestors = None, stage_name = None\<rparr>)
               else failS (error_new Collision_error ''destination exists and is not a directory'')
           | Inl e \<Rightarrow>
               if io_error_kind e \<noteq> NotFound then failS (from_open e)
               else
                 bindS (on_host (create_parent fs root (butlast components))) (\<lambda>(created, parent).
                 bindS (probe_directory_mode fs pid parent) (\<lambda>m.
                   retS \<lparr>target = Fresh parent (last components) m, created_ancestors = created,
                         stage_name = None\<rparr>))))"

fun holder :: "'h target \<Rightarrow> 'h" where
  "holder (Fresh parent leaf m) = parent"
| "holder (Existing destination) = destination"

text \<open>
  \<open>open_stage\<close> tries sixteen names. The placement is returned beside the result: a stage that was
  made but could not be opened is known to \<open>abort\<close>.
\<close>

fun open_stage ::
  "('h, 'w) host_fs \<Rightarrow> u32 \<Rightarrow> nat \<Rightarrow> 'h placement \<Rightarrow> 'w hosted \<Rightarrow>
     (error + 'h) \<times> 'h placement \<times> 'w hosted"
where
  "open_stage fs pid 0 pl s =
     (Inl (error_new Io_error ''could not create a unique staging directory''), pl, s)"
| "open_stage fs pid (Suc tries) pl s =
     (let nm = unique_name ''.xsh-archive-'' pid (stage_counter s);
          s1 = s\<lparr>stage_counter := stage_counter s + 1\<rparr>
      in case fs_mkdir fs (holder (target pl)) [nm] 0x1C0 (hworld s1) of
        (Inr _, w) \<Rightarrow>
          (case fs_open_dir fs (holder (target pl)) [nm] w of
             (r, w') \<Rightarrow>
               (case r of Inl e \<Rightarrow> Inl (from_host e) | Inr h \<Rightarrow> Inr h,
                pl\<lparr>stage_name := Some nm\<rparr>, s1\<lparr>hworld := w'\<rparr>))
      | (Inl e, w) \<Rightarrow>
          if io_error_kind e = AlreadyExists then open_stage fs pid tries pl (s1\<lparr>hworld := w\<rparr>)
          else (Inl (with_context ''creating the staging directory'' (from_host e)), pl,
                s1\<lparr>hworld := w\<rparr>))"

definition abort :: "('h, 'w) host_fs \<Rightarrow> nat \<Rightarrow> 'h placement \<Rightarrow> ('w, error, unit) run" where
  "abort fs fuel pl =
     bindR (case stage_name pl of
              None \<Rightarrow> liftR (retS [])
            | Some nm \<Rightarrow> (\<lambda>w.
                (case remove_tree fs (holder (target pl)) fuel [nm] w of
                   None \<Rightarrow> None
                 | Some (Inr _, w') \<Rightarrow> Some (Inr [], w')
                 | Some (Inl e, w') \<Rightarrow>
                     Some (Inr [''removing the staging directory: '' @ io_error_text e], w'))))
       (\<lambda>stage_failures.
     bindR (liftR (case created_ancestors pl of
              None \<Rightarrow> retS []
            | Some created \<Rightarrow>
                bindS (attempt (rollback fs created)) (\<lambda>r.
                  retS (case r of Inl e \<Rightarrow> [error_display e] | Inr _ \<Rightarrow> []))))
       (\<lambda>failures.
          if stage_failures @ failures = [] then liftR (retS ())
          else liftR (failS (error_new Io_error (join_text ''; '' (stage_failures @ failures))))))"

section \<open>Publication\<close>

definition destination_entries ::
  "('h, 'w) host_fs \<Rightarrow> 'h \<Rightarrow> components \<Rightarrow> ('w stage_state, error, (u8 list \<times> file_kind) list) op" where
  "destination_entries fs h path = map_errS from_host (on_world (fs_read_dir fs h path))"

definition rename_error :: "components \<Rightarrow> io_error \<Rightarrow> error" where
  "rename_error path e =
     (if io_error_kind e = AlreadyExists then
        with_entry (joined path)
          (error_new Collision_error (shown path @ '' appeared in the destination during publication''))
      else with_entry (joined path) (from_host e))"

definition already_has :: "components \<Rightarrow> error" where
  "already_has path =
     with_entry (joined path) (error_new Collision_error (''destination already has '' @ shown path))"

text \<open>One entry of the stage; \<open>descend\<close> is the recursive call.\<close>

definition check_entry ::
  "('h, 'w) host_fs \<Rightarrow> 'h \<Rightarrow> (components \<Rightarrow> ('w stage_state, error, unit) run) \<Rightarrow> components \<Rightarrow>
     file_kind \<Rightarrow> ('w stage_state, error, unit) run" where
  "check_entry fs h descend path k =
     bindR (liftR (on_cursor (on_budget checkpoint))) (\<lambda>_.
     bindR (liftR (on_world (attempt (fs_metadata fs h path)))) (\<lambda>r.
       case r of
         Inl e \<Rightarrow> liftR (if io_error_kind e = NotFound then retS () else failS (from_host e))
       | Inr (existing, m) \<Rightarrow>
           if k = Dir \<and> existing = Dir then descend path else liftR (failS (already_has path))))"

fun check_conflicts ::
  "('h, 'w) host_fs \<Rightarrow> 'h \<Rightarrow> components \<Rightarrow> nat \<Rightarrow> components \<Rightarrow> ('w stage_state, error, unit) run"
and check_entries ::
  "('h, 'w) host_fs \<Rightarrow> 'h \<Rightarrow> components \<Rightarrow> nat \<Rightarrow> components \<Rightarrow> (u8 list \<times> file_kind) list \<Rightarrow>
     ('w stage_state, error, unit) run"
where
  "check_conflicts fs h stage 0 rel = (\<lambda>_. None)"
| "check_conflicts fs h stage (Suc n) rel =
     bindR (liftR (destination_entries fs h (stage @ rel))) (\<lambda>entries.
       check_entries fs h stage n rel entries)"
| "check_entries fs h stage n rel [] = liftR (retS ())"
| "check_entries fs h stage n rel ((nm, k) # rest) =
     bindR (check_entry fs h (\<lambda>path. check_conflicts fs h stage n path) (rel @ [nm]) k)
       (\<lambda>_. check_entries fs h stage n rel rest)"

text \<open>The state of \<open>merge\<close>: the run's state and the count of published entries.\<close>

type_synonym 'w merging = "'w stage_state \<times> u64"

definition on_run :: "('w stage_state, 'e, 'a) op \<Rightarrow> ('w merging, 'e, 'a) op" where
  "on_run m s = (case m (fst s) of (r, t) \<Rightarrow> (r, (t, snd s)))"

definition published_one :: "('w merging, 'e, unit) op" where
  "published_one = updS (map_prod id (\<lambda>n. n + 1))"

definition move_entry ::
  "('h, 'w) host_fs \<Rightarrow> 'h \<Rightarrow> components \<Rightarrow> components \<Rightarrow> rename_mode \<Rightarrow> ('w merging, error, unit) op" where
  "move_entry fs h stage path how =
     bindS (on_run (map_errS (rename_error path) (on_world (fs_rename fs h (stage @ path) path how))))
       (\<lambda>_. published_one)"

definition merge_entry ::
  "('h, 'w) host_fs \<Rightarrow> 'h \<Rightarrow> components \<Rightarrow> collision \<Rightarrow> (components \<Rightarrow> ('w merging, error, unit) run) \<Rightarrow>
     components \<Rightarrow> file_kind \<Rightarrow> ('w merging, error, unit) run" where
  "merge_entry fs h stage c descend path k =
     bindR (liftR (on_run (on_cursor (on_budget checkpoint)))) (\<lambda>_.
     bindR (liftR (on_run (on_world (attempt (fs_metadata fs h path))))) (\<lambda>r.
       case r of
         Inl e \<Rightarrow>
           if io_error_kind e = NotFound then liftR (move_entry fs h stage path No_replace)
           else liftR (failS (from_host e))
       | Inr (existing, m) \<Rightarrow>
           if k = Dir \<and> existing = Dir then descend path
           else if k = Dir \<and> c = Replace then
             bindR (liftR (on_run (map_errS (rename_error path) (on_world (fs_remove_file fs h path)))))
               (\<lambda>_. liftR (move_entry fs h stage path No_replace))
           else if c = Refuse_collision \<or> existing = Dir then liftR (failS (already_has path))
           else liftR (move_entry fs h stage path Replacing)))"

fun merge ::
  "('h, 'w) host_fs \<Rightarrow> 'h \<Rightarrow> components \<Rightarrow> collision \<Rightarrow> nat \<Rightarrow> components \<Rightarrow> ('w merging, error, unit) run"
and merge_entries ::
  "('h, 'w) host_fs \<Rightarrow> 'h \<Rightarrow> components \<Rightarrow> collision \<Rightarrow> nat \<Rightarrow> components \<Rightarrow>
     (u8 list \<times> file_kind) list \<Rightarrow> ('w merging, error, unit) run"
where
  "merge fs h stage c 0 rel = (\<lambda>_. None)"
| "merge fs h stage c (Suc n) rel =
     bindR (liftR (on_run (destination_entries fs h (stage @ rel)))) (\<lambda>entries.
       merge_entries fs h stage c n rel entries)"
| "merge_entries fs h stage c n rel [] = liftR (retS ())"
| "merge_entries fs h stage c n rel ((nm, k) # rest) =
     bindR (merge_entry fs h stage c (\<lambda>path. merge fs h stage c n path) (rel @ [nm]) k)
       (\<lambda>_. merge_entries fs h stage c n rel rest)"

definition merge_all ::
  "('h, 'w) host_fs \<Rightarrow> 'h \<Rightarrow> components \<Rightarrow> collision \<Rightarrow> nat \<Rightarrow> ('w stage_state, error, unit) run" where
  "merge_all fs h stage c n s =
     (case map_errR (\<lambda>e (t, published).
         if published > 0
         then with_context (show_nat (unat published) @ '' entries were already published'') e
         else e) (merge fs h stage c n []) (s, 0) of
        None \<Rightarrow> None
      | Some (r, (t, published)) \<Rightarrow> Some (r, t))"

definition on_worldR :: "('w, 'e, 'a) run \<Rightarrow> ('w stage_state, 'e, 'a) run" where
  "on_worldR m s = (case m (world s) of None \<Rightarrow> None | Some (r, w) \<Rightarrow> Some (r, s\<lparr>world := w\<rparr>))"

text \<open>
  \<open>publish\<close> runs with the stage made, so its name is given; \<open>publication\<close> takes it from the
  placement, where its absence would be a panic.
\<close>

definition publish ::
  "('h, 'w) host_fs \<Rightarrow> nat \<Rightarrow> collision \<Rightarrow> 'h target \<Rightarrow> u8 list \<Rightarrow> ('w stage_state, error, unit) run" where
  "publish fs fuel c t nm =
     (case t of
        Fresh parent leaf m \<Rightarrow>
          liftR (map_errS (\<lambda>e.
              if io_error_kind e = AlreadyExists
              then error_new Collision_error ''destination appeared during extraction''
              else with_context ''publishing the extracted tree'' (from_host e))
            (on_world (fs_rename fs parent [nm] [leaf] No_replace)))
      | Existing destination \<Rightarrow>
          bindR (if c = Refuse_collision then check_conflicts fs destination [nm] fuel []
                 else liftR (retS ())) (\<lambda>_.
          bindR (merge_all fs destination [nm] c fuel) (\<lambda>_.
            map_errR (\<lambda>e _. from_host e) (on_worldR (remove_tree fs destination fuel [nm])))))"

section \<open>Directory modes\<close>

text \<open>The directories of the stage that the destination has already.\<close>

fun existing_directories ::
  "('h, 'w) host_fs \<Rightarrow> 'h \<Rightarrow> (components \<times> u32) list \<Rightarrow> ('w, error, components set) op" where
  "existing_directories fs h [] = retS {}"
| "existing_directories fs h ((path, m) # rest) =
     bindS (attempt (fs_metadata fs h path)) (\<lambda>r.
     bindS (existing_directories fs h rest) (\<lambda>found.
       retS (case r of
               Inr (k, _) \<Rightarrow> if k = Dir then insert path found else found
             | Inl _ \<Rightarrow> found)))"

definition finish_placement ::
  "('h, 'w) host_fs \<Rightarrow> 'h placement \<Rightarrow> 'h \<Rightarrow> ('w stage_state, error, unit) op" where
  "finish_placement fs pl stage s =
     bindS (case target pl of
              Existing destination \<Rightarrow>
                on_world (existing_directories fs destination
                  (map (\<lambda>path. (path, 0x1ED)) (sorted_list_of_set (implicit_dirs s)) @ explicit_dirs s))
            | Fresh parent leaf m \<Rightarrow> retS {}) (\<lambda>merged.
     bindS (finish_directories (fs_stage fs stage) merged) (\<lambda>_.
       (case (target pl, stage_name pl) of
          (Fresh parent leaf m, Some nm) \<Rightarrow>
            map_errS (\<lambda>e. with_context ''setting the destination mode'' (from_host e))
              (on_world (fs_set_mode fs parent [nm] m))
        | _ \<Rightarrow> retS ()))) s"

section \<open>The whole extraction\<close>

text \<open>\<open>run\<close> on a placement whose stage is open: everything before the publication, then the publication.\<close>

definition run_placed ::
  "('h, 'w) host_fs \<Rightarrow> nat \<Rightarrow> 'h placement \<Rightarrow> u8 list \<Rightarrow> 'h \<Rightarrow> policy \<Rightarrow> components list \<Rightarrow>
     ('w stage_state, error, report) run" where
  "run_placed fs fuel pl nm stage p filters =
     bindR (liftR (run_extract (fs_stage fs stage) (finish_placement fs pl stage) (retS ()) p filters))
       (\<lambda>report. bindR (publish fs fuel (collision p) (target pl) nm) (\<lambda>_. liftR (retS report)))"

text \<open>After a failure the stage and the created parents are removed again.\<close>

definition aborted ::
  "('h, 'w) host_fs \<Rightarrow> nat \<Rightarrow> 'h placement \<Rightarrow> error \<Rightarrow> ('w, error, report) run" where
  "aborted fs fuel pl e w =
     (case abort fs fuel pl w of
        None \<Rightarrow> None
      | Some (Inr _, w') \<Rightarrow> Some (Inl e, w')
      | Some (Inl cleanup, w') \<Rightarrow> Some (Inl (with_cleanup cleanup e), w'))"

definition extract_placed ::
  "('h, 'w) host_fs \<Rightarrow> u32 \<Rightarrow> nat \<Rightarrow> policy \<Rightarrow> components list \<Rightarrow> seq_cursor \<Rightarrow> 'h placement \<Rightarrow>
     ('w hosted, error, report) run" where
  "extract_placed fs pid fuel p filters c pl0 s =
     (case open_stage fs pid 16 pl0 s of
        (opened, pl, s1) \<Rightarrow>
          (case (case (opened, stage_name pl) of
                   (Inr stage, Some nm) \<Rightarrow>
                     (case run_placed fs fuel pl nm stage p filters (fresh_state (hworld s1) c) of
                        None \<Rightarrow> None
                      | Some (r, t) \<Rightarrow> Some (r, world t))
                 | (Inr stage, None) \<Rightarrow> None
                 | (Inl e, _) \<Rightarrow> Some (Inl e, hworld s1)) of
             None \<Rightarrow> None
           | Some (Inr report, w) \<Rightarrow> Some (Inr report, s1\<lparr>hworld := w\<rparr>)
           | Some (Inl e, w) \<Rightarrow>
               map_option (\<lambda>(r, w'). (r, s1\<lparr>hworld := w'\<rparr>)) (aborted fs fuel pl e w)))"

fun member_filters :: "u8 list list \<Rightarrow> error + components list" where
  "member_filters [] = Inr []"
| "member_filters (m # ms) =
     bindE (normalize_name m) (\<lambda>f. bindE (member_filters ms) (\<lambda>fs. Inr (f # fs)))"

definition extract_beneath ::
  "('h, 'w) host_fs \<Rightarrow> u32 \<Rightarrow> nat \<Rightarrow> seq_cursor \<Rightarrow> 'h \<Rightarrow> u8 list \<Rightarrow> policy \<Rightarrow>
     ('w hosted, error, report) run" where
  "extract_beneath fs pid fuel c root dest p =
     bindR (liftR (liftS (member_filters (members p)))) (\<lambda>filters.
     bindR (liftR (prepare_placement fs pid root dest)) (\<lambda>pl.
       extract_placed fs pid fuel p filters c pl))"

end
