(* ===== verification/Xsh_Merge_Correct.thy ===== *)
theory Xsh_Merge_Correct
  imports Xsh_Publish "HOL-Library.Sublist"
begin

text \<open>
  The publication of a stage. A directory that is reached through a handle is seen as a view, a map
  from paths to what is there; the locale \<open>host_directory\<close> states what the code relies on of the
  operating system's directory calls as laws over views. On these laws rest the specifications of
  \<open>remove_tree\<close>, \<open>check_conflicts\<close>, \<open>merge\<close> and \<open>publish\<close>: the publication lays the stage over the
  destination (\<open>overlay\<close>), a conflict is refused before anything is changed, and fuel above the
  depth of the stage is enough.
\<close>

section \<open>Views of a directory\<close>

type_synonym 'i view_of = "components \<Rightarrow> 'i option"

definition dir_at :: "('i \<Rightarrow> file_kind) \<Rightarrow> 'i view_of \<Rightarrow> components \<Rightarrow> bool" where
  "dir_at kd U p \<longleftrightarrow> (\<exists>i. U p = Some i \<and> kd i = Dir)"

definition closed_view :: "('i \<Rightarrow> file_kind) \<Rightarrow> 'i view_of \<Rightarrow> bool" where
  "closed_view kd U \<longleftrightarrow> (\<forall>p x. U (p @ [x]) \<noteq> None \<longrightarrow> dir_at kd U p)"

definition listing :: "('i \<Rightarrow> file_kind) \<Rightarrow> 'i view_of \<Rightarrow> components \<Rightarrow> (u8 list \<times> file_kind) list \<Rightarrow> bool" where
  "listing kd U p es \<longleftrightarrow>
     dir_at kd U p \<and> distinct (map fst es) \<and>
     set es = {(x, k). \<exists>i. U (p @ [x]) = Some i \<and> kd i = k}"

definition moved :: "components \<Rightarrow> components \<Rightarrow> 'i view_of \<Rightarrow> 'i view_of" where
  "moved from to U =
     (\<lambda>q. if prefix to q then U (from @ drop (length to) q)
          else if prefix from q then None else U q)"

lemma prefix_step: "prefix p q \<Longrightarrow> q \<noteq> p \<Longrightarrow> \<exists>x z. q = (p @ [x]) @ z"
proof -
  assume "prefix p q" "q \<noteq> p"
  then obtain y where "q = p @ y" "y \<noteq> []" by (auto simp: prefix_def)
  then show ?thesis by (cases y) auto
qed

lemma closed_parent: "closed_view kd U \<Longrightarrow> U (p @ q) \<noteq> None \<Longrightarrow> q \<noteq> [] \<Longrightarrow> dir_at kd U p"
proof (induction q rule: rev_induct)
  case (snoc x q)
  then have d: "dir_at kd U (p @ q)" by (auto simp: closed_view_def simp flip: append_assoc)
  show ?case
  proof (cases "q = []")
    case False
    have "U (p @ q) \<noteq> None" using d by (auto simp: dir_at_def)
    then show ?thesis using snoc.IH snoc.prems(1) False by blast
  qed (use d in simp)
qed simp

lemma closed_prefix: "closed_view kd U \<Longrightarrow> U q \<noteq> None \<Longrightarrow> prefix p q \<Longrightarrow> p \<noteq> q \<Longrightarrow> dir_at kd U p"
  by (metis append_Nil2 closed_parent prefix_def)

lemma closed_above: "closed_view kd U \<Longrightarrow> U q \<noteq> None \<Longrightarrow> prefix p q \<Longrightarrow> U p \<noteq> None"
  by (metis closed_prefix dir_at_def option.distinct(1))

lemma closed_none: "closed_view kd U \<Longrightarrow> \<not> dir_at kd U p \<Longrightarrow> prefix p q \<Longrightarrow> p \<noteq> q \<Longrightarrow> U q = None"
  using closed_prefix by blast

lemma closed_cong:
  assumes "\<And>q. map_option kd (U' q) = map_option kd (U q)" and "closed_view kd U"
  shows "closed_view kd U'"
proof -
  have d: "dir_at kd U' p \<longleftrightarrow> dir_at kd U p" for p
    using assms(1) [of p] by (cases "U' p"; cases "U p") (simp_all add: dir_at_def)
  have n: "U' p = None \<longleftrightarrow> U p = None" for p
    using assms(1) [of p] by (cases "U' p"; cases "U p") simp_all
  show ?thesis using assms(2) unfolding closed_view_def d n .
qed

lemma closed_insert:
  assumes "closed_view kd U" "p \<noteq> []" "dir_at kd U (butlast p)" "kd i = Dir"
  shows "closed_view kd (U(p \<mapsto> i))"
  unfolding closed_view_def
proof (intro allI impI)
  fix q x assume a: "(U(p \<mapsto> i)) (q @ [x]) \<noteq> None"
  have "dir_at kd U q \<or> q = p"
    using a assms by (cases "q @ [x] = p") (auto simp: closed_view_def)
  then show "dir_at kd (U(p \<mapsto> i)) q" using assms(4) by (auto simp: dir_at_def)
qed

lemma closed_delete:
  assumes "closed_view kd U" and "\<And>x. U (p @ [x]) = None"
  shows "closed_view kd (U(p := None))"
  unfolding closed_view_def
proof (intro allI impI)
  fix q x assume "(U(p := None)) (q @ [x]) \<noteq> None"
  then have "U (q @ [x]) \<noteq> None" by (auto split: if_splits)
  then have "dir_at kd U q" "q \<noteq> p" using assms by (auto simp: closed_view_def)
  then show "dir_at kd (U(p := None)) q" by (simp add: dir_at_def)
qed

lemma closed_moved:
  assumes c: "closed_view kd U" and to: "to \<noteq> []" "dir_at kd U (butlast to)" "\<not> prefix from to"
  shows "closed_view kd (moved from to U)"
  unfolding closed_view_def
proof (intro allI impI)
  fix p x assume a: "moved from to U (p @ [x]) \<noteq> None"
  let ?M = "moved from to U"
  show "dir_at kd ?M p"
  proof (cases "prefix to (p @ [x])")
    case True
    then consider "to = p @ [x]" | "prefix to p" by auto
    then show ?thesis
    proof cases
      case 1
      then have "?M p = U p" using to(3) by (auto simp: moved_def)
      then show ?thesis using 1 to(2) by (simp add: dir_at_def)
    next
      case 2
      then obtain r where p: "p = to @ r" by (auto simp: prefix_def)
      then have "U ((from @ r) @ [x]) \<noteq> None" using a by (simp add: moved_def)
      then have "dir_at kd U (from @ r)" using c by (simp only: closed_view_def)
      then show ?thesis using p by (simp add: dir_at_def moved_def)
    qed
  next
    case False
    then have n: "\<not> prefix from (p @ [x])" and "U (p @ [x]) \<noteq> None"
      using a by (auto simp: moved_def split: if_splits)
    then have "dir_at kd U p" using c by (auto simp: closed_view_def)
    moreover have "?M p = U p" using False n by (auto simp: moved_def)
    ultimately show ?thesis by (simp add: dir_at_def)
  qed
qed

lemma no_prefix_none:
  "closed_view kd U \<Longrightarrow> (\<And>x. U (p @ [x]) = None) \<Longrightarrow> prefix p q \<Longrightarrow> q \<noteq> p \<Longrightarrow> U q = None"
proof -
  assume c: "closed_view kd U" and n: "\<And>x. U (p @ [x]) = None" and "prefix p q" "q \<noteq> p"
  then obtain x r where q: "q = (p @ [x]) @ r" using prefix_step by blast
  show "U q = None"
  proof (rule ccontr)
    assume "U q \<noteq> None"
    then have "U (p @ [x]) \<noteq> None" using closed_above [OF c, of q "p @ [x]"] q by simp
    then show False using n by simp
  qed
qed

section \<open>What the code relies on\<close>

locale host_directory =
  fixes fs :: "('h, 'w) host_fs" and h :: 'h and V :: "'w \<Rightarrow> 'i view_of" and kd :: "'i \<Rightarrow> file_kind"
  assumes metadata: "fs_metadata fs h p w = (found, w') \<Longrightarrow> V w' = V w \<and>
      (case found of Inl e \<Rightarrow> io_error_kind e = NotFound \<longrightarrow> V w p = None
       | Inr (k, m) \<Rightarrow> \<exists>i. V w p = Some i \<and> kd i = k)"
    and read_dir: "fs_read_dir fs h p w = (listed, w') \<Longrightarrow> V w' = V w \<and>
      (case listed of Inl e \<Rightarrow> True | Inr es \<Rightarrow> listing kd (V w) p es)"
    and open_dir: "fs_open_dir fs h p w = (opened, w') \<Longrightarrow> V w' = V w"
    and mkdir: "fs_mkdir fs h p m w = (r', w') \<Longrightarrow>
      (case r' of Inl e \<Rightarrow> V w' = V w
       | Inr _ \<Rightarrow> p \<noteq> [] \<and> V w p = None \<and> dir_at kd (V w) (butlast p) \<and>
           (\<exists>i. kd i = Dir \<and> V w' = (V w)(p \<mapsto> i)))"
    and set_mode: "fs_set_mode fs h p m w = (r', w') \<Longrightarrow>
      (\<forall>q. q \<noteq> p \<longrightarrow> V w' q = V w q) \<and> map_option kd (V w' p) = map_option kd (V w p)"
    and remove_file: "fs_remove_file fs h p w = (r', w') \<Longrightarrow>
      (case r' of Inl e \<Rightarrow> V w' = V w
       | Inr _ \<Rightarrow> (\<exists>i. V w p = Some i \<and> kd i \<noteq> Dir) \<and> V w' = (V w)(p := None))"
    and remove_dir: "fs_remove_dir fs h p w = (r', w') \<Longrightarrow>
      (case r' of Inl e \<Rightarrow> V w' = V w
       | Inr _ \<Rightarrow> dir_at kd (V w) p \<and> (\<forall>x. V w (p @ [x]) = None) \<and> V w' = (V w)(p := None))"
    and rename_new: "fs_rename fs h p q No_replace w = (r', w') \<Longrightarrow>
      (case r' of Inl e \<Rightarrow> V w' = V w
       | Inr _ \<Rightarrow> V w p \<noteq> None \<and> V w q = None \<and> q \<noteq> [] \<and> dir_at kd (V w) (butlast q) \<and>
           \<not> prefix p q \<and> V w' = moved p q (V w))"
    and rename_over: "fs_rename fs h p q Replacing w = (r', w') \<Longrightarrow>
      (case r' of Inl e \<Rightarrow> V w' = V w
       | Inr _ \<Rightarrow> q \<noteq> [] \<and> dir_at kd (V w) (butlast q) \<and> \<not> prefix p q \<and>
           (\<exists>i. V w p = Some i \<and> (V w' = moved p q (V w) \<or> V w q = Some i \<and> V w' = V w)))"
begin

abbreviation closed :: "'w \<Rightarrow> bool" where
  "closed w \<equiv> closed_view kd (V w)"

text \<open>What removing things below \<open>p\<close> may do to a view.\<close>

definition shrinks :: "components \<Rightarrow> 'i view_of \<Rightarrow> 'i view_of \<Rightarrow> bool" where
  "shrinks p U U' \<longleftrightarrow> closed_view kd U' \<and> (\<forall>q. \<not> prefix p q \<longrightarrow> U' q = U q) \<and>
     (\<forall>q. U q = None \<longrightarrow> U' q = None)"

lemma shrinks_refl: "closed_view kd U \<Longrightarrow> shrinks p U U"
  by (simp add: shrinks_def)

lemma shrinks_trans: "shrinks p U U' \<Longrightarrow> shrinks p U' U'' \<Longrightarrow> shrinks p U U''"
  by (simp add: shrinks_def)

lemma shrinks_below: "shrinks (p @ [x]) U U' \<Longrightarrow> shrinks p U U'"
  unfolding shrinks_def by (meson append_prefixD)

lemma shrinks_closed: "shrinks p U U' \<Longrightarrow> closed_view kd U'"
  by (simp add: shrinks_def)

lemma shrinks_none: "shrinks p U U' \<Longrightarrow> U' q \<noteq> None \<Longrightarrow> U q \<noteq> None"
  by (auto simp: shrinks_def)

lemma remove_dir_shrinks:
  assumes "fs_remove_dir fs h p w = (r, w')" "closed w"
  shows "shrinks p (V w) (V w') \<and> (r = Inr () \<longrightarrow> (\<forall>q. prefix p q \<longrightarrow> V w' q = None))"
proof (cases r)
  case (Inl e)
  then show ?thesis using remove_dir [OF assms(1)] assms(2) by (simp add: shrinks_refl)
next
  case (Inr u)
  then have none: "V w (p @ [x]) = None" and w': "V w' = (V w)(p := None)" for x
    using remove_dir [OF assms(1)] by simp_all
  have "V w q = None" if "prefix p q" "q \<noteq> p" for q
    using no_prefix_none [OF assms(2) none that] .
  then show ?thesis
    using w' closed_delete [OF assms(2) none] by (auto simp: shrinks_def)
qed

lemma remove_file_shrinks:
  assumes "fs_remove_file fs h p w = (r, w')" "closed w"
  shows "shrinks p (V w) (V w') \<and> (r = Inr () \<longrightarrow> (\<forall>q. prefix p q \<longrightarrow> V w' q = None))"
proof (cases r)
  case (Inl e)
  then show ?thesis using remove_file [OF assms(1)] assms(2) by (simp add: shrinks_refl)
next
  case (Inr u)
  then have at: "\<not> dir_at kd (V w) p" and w': "V w' = (V w)(p := None)"
    using remove_file [OF assms(1)] by (auto simp: dir_at_def)
  have none: "V w q = None" if "prefix p q" "q \<noteq> p" for q
    using closed_none [OF assms(2) at that(1)] that(2) by blast
  then have "closed_view kd ((V w)(p := None))" by (intro closed_delete assms(2)) simp
  then show ?thesis using none w' by (auto simp: shrinks_def)
qed

lemma set_mode_shrinks:
  assumes "fs_set_mode fs h p m w = (r, w')" "closed w"
  shows "shrinks p (V w) (V w')"
proof -
  have "map_option kd (V w' q) = map_option kd (V w q)" for q
    using set_mode [OF assms(1)] by (cases "q = p") auto
  then show ?thesis
    using set_mode [OF assms(1)] closed_cong [of kd "V w'" "V w"] assms(2)
    by (metis map_option_is_None prefix_order.order_refl shrinks_def)
qed

end

section \<open>Runs\<close>

lemma liftR_Some [simp]: "liftR m s = Some x \<longleftrightarrow> m s = x"
  by (simp add: liftR_def)

lemma liftR_None [simp]: "liftR m s \<noteq> None"
  by (simp add: liftR_def)

lemma attempt_eq [simp]: "attempt m s = (r, s') \<longleftrightarrow> (\<exists>x. r = Inr x \<and> m s = (x, s'))"
  by (auto simp: attempt_def split: prod.splits)

lemma bindR_E:
  assumes "bindR m f s = Some (r, s')"
  obtains (stop) e where "m s = Some (Inl e, s')" "r = Inl e"
    | (go) a t where "m s = Some (Inr a, t)" "f a t = Some (r, s')"
  using assms unfolding bindR_def by (auto split: option.splits sum.splits prod.splits)

lemma bindS_E:
  assumes "bindS m f s = (r, s')"
  obtains (stop) e where "m s = (Inl e, s')" "r = Inl e"
    | (go) a t where "m s = (Inr a, t)" "f a t = (r, s')"
  using assms unfolding bindS_def by (auto split: sum.splits prod.splits)

lemma bindR_None: "bindR m f s = None \<longleftrightarrow> m s = None \<or> (\<exists>a t. m s = Some (Inr a, t) \<and> f a t = None)"
  by (auto simp: bindR_def split: option.splits sum.splits prod.splits)

lemma bindR_liftR: "bindR (liftR m) f s = (case m s of (Inl e, t) \<Rightarrow> Some (Inl e, t) | (Inr a, t) \<Rightarrow> f a t)"
  by (auto simp: bindR_def liftR_def split: sum.splits prod.splits)

context host_directory
begin

lemma remove_entries_shrinks:
  assumes tree: "\<And>p w r w'. remove_tree fs h n p w = Some (r, w') \<Longrightarrow> closed w \<Longrightarrow> shrinks p (V w) (V w')"
  shows "remove_entries fs h n p es w = Some (r, w') \<Longrightarrow> closed w \<Longrightarrow> shrinks p (V w) (V w')"
proof (induction es arbitrary: w)
  case Nil
  then show ?case by (simp add: shrinks_refl)
next
  case (Cons e es)
  obtain x k where e: "e = (x, k)" by (cases e)
  from Cons.prems(1) show ?case
    unfolding e remove_entries.simps
  proof (cases rule: bindR_E)
    case (stop e)
    then show ?thesis using tree Cons.prems(2) shrinks_below by blast
  next
    case (go a t)
    then have s: "shrinks p (V w) (V t)" using tree Cons.prems(2) shrinks_below by blast
    then show ?thesis using Cons.IH [OF go(2) shrinks_closed] shrinks_trans by blast
  qed
qed

lemma remove_tree_spec:
  "remove_tree fs h n p w = Some (r, w') \<Longrightarrow> closed w \<Longrightarrow>
     shrinks p (V w) (V w') \<and> (r = Inr () \<longrightarrow> (\<forall>q. prefix p q \<longrightarrow> V w' q = None))"
proof (induction n arbitrary: p w r w')
  case (Suc n)
  obtain found w1 where md: "fs_metadata fs h p w = (found, w1)" by (cases "fs_metadata fs h p w")
  have v1: "V w1 = V w" and c1: "closed w1" using metadata [OF md] Suc.prems(2) by simp_all
  show ?case
  proof (cases found)
    case (Inl e)
    have "V w q = None" if "V w p = None" "prefix p q" for q
      using closed_above [OF Suc.prems(2) _ that(2)] that(1) by blast
    then show ?thesis
      using Suc.prems md metadata [OF md] Inl v1
      by (auto simp: bindR_liftR attempt_def shrinks_refl split: if_splits)
  next
    case (Inr km)
    obtain k m where km: "km = (k, m)" by (cases km)
    show ?thesis
    proof (cases "k = Dir")
      case False
      then have "fs_remove_file fs h p w1 = (r, w')"
        using Suc.prems md Inr km by (simp add: bindR_liftR attempt_def)
      then show ?thesis using remove_file_shrinks [OF _ c1] v1 by simp
    next
      case True
      obtain x w2 where sm: "fs_set_mode fs h p 0x1C0 w1 = (x, w2)" by (cases "fs_set_mode fs h p 0x1C0 w1")
      have s2: "shrinks p (V w) (V w2)" using set_mode_shrinks [OF sm c1] v1 by simp
      have "bindR (liftR (fs_read_dir fs h p)) (\<lambda>entries.
             bindR (remove_entries fs h n p entries) (\<lambda>_. liftR (fs_remove_dir fs h p))) w2 = Some (r, w')"
        using Suc.prems md Inr km True sm by (simp add: bindR_liftR attempt_def)
      then show ?thesis
      proof (cases rule: bindR_E)
        case (stop e)
        then have "V w' = V w2" using read_dir by auto
        then show ?thesis using stop s2 by simp
      next
        case (go es w3)
        then have "V w3 = V w2" using read_dir by auto
        then have s3: "shrinks p (V w) (V w3)" using s2 by simp
        from go(2) show ?thesis
        proof (cases rule: bindR_E)
          case (stop e)
          then have "shrinks p (V w3) (V w')"
            using remove_entries_shrinks Suc.IH shrinks_closed [OF s3] by blast
          then show ?thesis using stop s3 shrinks_trans by blast
        next
          case (go a w4)
          then have s4: "shrinks p (V w) (V w4)"
            using remove_entries_shrinks Suc.IH shrinks_closed [OF s3] s3 shrinks_trans by blast
          have "fs_remove_dir fs h p w4 = (r, w')" using go(2) by simp
          then show ?thesis
            using remove_dir_shrinks shrinks_closed [OF s4] s4 shrinks_trans by blast
        qed
      qed
    qed
  qed
qed simp

text \<open>Fuel above the depth of the tree is enough.\<close>

lemma remove_entries_ends:
  assumes tree: "\<And>p w. 0 < n \<Longrightarrow> closed w \<Longrightarrow>
      (\<And>q. prefix p q \<Longrightarrow> V w q \<noteq> None \<Longrightarrow> length q < length p + n) \<Longrightarrow> remove_tree fs h n p w \<noteq> None"
  shows "closed w \<Longrightarrow> (es \<noteq> [] \<Longrightarrow> 0 < n) \<Longrightarrow>
      (\<And>q. prefix p q \<Longrightarrow> V w q \<noteq> None \<Longrightarrow> length q < length p + Suc n) \<Longrightarrow>
      remove_entries fs h n p es w \<noteq> None"
proof (induction es arbitrary: w)
  case (Cons e es)
  obtain x k where e: "e = (x, k)" by (cases e)
  have deep: "length q < length (p @ [x]) + n" if "prefix (p @ [x]) q" "V w q \<noteq> None" for q
    using Cons.prems(3) [of q] that append_prefixD by fastforce
  have first: "remove_tree fs h n (p @ [x]) w \<noteq> None"
    using tree [OF _ Cons.prems(1) deep] Cons.prems(2) by simp
  have "remove_entries fs h n p es t \<noteq> None" if "remove_tree fs h n (p @ [x]) w = Some (Inr a, t)" for a t
  proof -
    have s: "shrinks (p @ [x]) (V w) (V t)" using remove_tree_spec [OF that Cons.prems(1)] by simp
    have "length q < length p + Suc n" if "prefix p q" "V t q \<noteq> None" for q
      using Cons.prems(3) [of q] that shrinks_none [OF s] by blast
    then show ?thesis
      using Cons.IH shrinks_closed [OF s] Cons.prems(2) by blast
  qed
  then show ?case using first by (auto simp: e bindR_None)
qed simp

lemma remove_tree_ends:
  "0 < n \<Longrightarrow> closed w \<Longrightarrow> (\<And>q. prefix p q \<Longrightarrow> V w q \<noteq> None \<Longrightarrow> length q < length p + n) \<Longrightarrow>
     remove_tree fs h n p w \<noteq> None"
proof (induction n arbitrary: p w)
  case (Suc n)
  have "remove_entries fs h n p es w3 \<noteq> None"
    if md: "fs_metadata fs h p w = (found, w1)" and sm: "fs_set_mode fs h p 0x1C0 w1 = (x, w2)"
      and rd: "fs_read_dir fs h p w2 = (Inr es, w3)" for found w1 x w2 es w3
  proof (rule remove_entries_ends [OF Suc.IH])
    have s2: "shrinks p (V w) (V w2)"
      using set_mode_shrinks [OF sm] metadata [OF md] Suc.prems(2) by simp
    have v3: "V w3 = V w2" and l: "listing kd (V w2) p es" using read_dir [OF rd] by simp_all
    show "closed w3" using v3 shrinks_closed [OF s2] by simp
    show deep: "length q < length p + Suc n" if "prefix p q" "V w3 q \<noteq> None" for q
      using Suc.prems(3) [of q] that shrinks_none [OF s2, of q] v3 by simp
    show "0 < n" if ne: "es \<noteq> []"
    proof -
      obtain y k where "(y, k) \<in> set es" using ne by (cases es) auto
      then have "V w3 (p @ [y]) \<noteq> None" using l v3 by (auto simp: listing_def)
      then show ?thesis using deep [of "p @ [y]"] by simp
    qed
  qed
  then show ?case
    by (auto simp: bindR_None bindR_liftR attempt_def simp del: not_None_eq split: prod.splits sum.splits)
qed simp

end

section \<open>Merging one view over another\<close>

text \<open>
  The view after the stage \<open>st\<close> was merged: staged entries over existing ones, directories in both
  stay the destination's.
\<close>

definition overlay :: "('i \<Rightarrow> file_kind) \<Rightarrow> u8 list \<Rightarrow> 'i view_of \<Rightarrow> 'i view_of" where
  "overlay kd st U q =
     (case U (st # q) of
        None \<Rightarrow> U q
      | Some s \<Rightarrow>
          (case U q of
             None \<Rightarrow> Some s
           | Some d \<Rightarrow> if kd s = Dir \<and> kd d = Dir then Some d else Some s))"

text \<open>
  What a merge, also one that fails half-way, may do to an entry: put a staged one in its place,
  or (having removed it to put a staged one in its place) leave it out; existing entries only
  when the policy is to replace, and never directories.
\<close>

definition admitted :: "('i \<Rightarrow> file_kind) \<Rightarrow> u8 list \<Rightarrow> collision \<Rightarrow> 'i view_of \<Rightarrow> components \<Rightarrow> 'i option \<Rightarrow> bool" where
  "admitted kd st c U q x \<longleftrightarrow> x = U q \<or>
     U (st # q) \<noteq> None \<and> (x = None \<or> x = U (st # q)) \<and>
     (U q = None \<or> c = Replace \<and> \<not> dir_at kd U q)"

text \<open>A merge of the staged entries in the region \<open>R\<close>.\<close>

definition merges ::
  "('i \<Rightarrow> file_kind) \<Rightarrow> u8 list \<Rightarrow> collision \<Rightarrow> components set \<Rightarrow> 'i view_of \<Rightarrow> bool \<Rightarrow> 'i view_of \<Rightarrow> bool"
where
  "merges kd st c R U done_all U' \<longleftrightarrow> closed_view kd U' \<and>
     (\<forall>q. \<not> prefix [st] q \<longrightarrow> (q \<notin> R \<longrightarrow> U' q = U q) \<and> admitted kd st c U q (U' q) \<and>
        (q \<in> R \<longrightarrow> done_all \<longrightarrow> U' q = overlay kd st U q)) \<and>
     (\<forall>q. q \<notin> R \<longrightarrow> U' (st # q) = U (st # q)) \<and>
     (\<forall>q. U (st # q) = None \<longrightarrow> U' (st # q) = None)"

lemma admitted_refl [simp]: "admitted kd st c U q (U q)"
  by (simp add: admitted_def)

lemma merges_refl: "closed_view kd U \<Longrightarrow> merges kd st c R U False U"
  by (simp add: merges_def)

lemma merges_mono: "merges kd st c R U d U' \<Longrightarrow> R \<subseteq> S \<Longrightarrow> merges kd st c S U False U'"
  by (auto simp: merges_def)

lemma merges_trans:
  assumes "merges kd st c R U True U1" "merges kd st c S U1 d U2" "R \<inter> S = {}"
  shows "merges kd st c (R \<union> S) U d U2"
proof -
  have same: "U1 q = U q \<and> U1 (st # q) = U (st # q)" if "\<not> prefix [st] q" "q \<in> S" for q
    using assms(1,3) that by (auto simp: merges_def)
  have "admitted kd st c U q (U2 q) \<and> (q \<in> R \<union> S \<longrightarrow> d \<longrightarrow> U2 q = overlay kd st U q)"
    if n: "\<not> prefix [st] q" for q
  proof (cases "q \<in> S")
    case True
    have "overlay kd st U q = overlay kd st U1 q" "admitted kd st c U q x = admitted kd st c U1 q x" for x
      using same [OF n True]
      by (simp_all add: overlay_def admitted_def dir_at_def cong: option.case_cong)
    then show ?thesis using assms(2) n True by (simp add: merges_def)
  next
    case False
    then have "U2 q = U1 q" using assms(2) n by (simp add: merges_def)
    then show ?thesis using assms(1) n False by (auto simp: merges_def)
  qed
  then show ?thesis using assms by (auto simp: merges_def)
qed

lemma overlay_none: "U (st # q) = None \<Longrightarrow> overlay kd st U q = U q"
  by (simp add: overlay_def)

lemma merges_moved:
  assumes c: "closed_view kd U" and p: "p \<noteq> []" "hd p \<noteq> st" "dir_at kd U (butlast p)"
    and s: "U (st # p) \<noteq> None"
    and old: "U p = None \<or> cl = Replace \<and> \<not> dir_at kd U p"
  shows "merges kd st cl {q. prefix p q} U True (moved (st # p) p U)"
proof -
  have n: "\<not> prefix (st # p) p" "\<not> prefix p (st # q)" for q
    using p(1,2) by (cases p; auto)+
  have below: "U q = None" if "prefix p q" "q \<noteq> p" for q
    using closed_none [OF c _ that(1)] that(2) old by (auto simp: dir_at_def)
  have at: "moved (st # p) p U q = U (st # q)" if "prefix p q" for q
    using that by (auto simp: moved_def prefix_def)
  have off: "moved (st # p) p U q = U q" if "\<not> prefix p q" "\<not> prefix (st # p) q" for q
    using that by (simp add: moved_def)
  have over: "overlay kd st U q = U (st # q)" if "prefix p q" for q
  proof (cases "q = p")
    case True
    then show ?thesis using old s by (auto simp: overlay_def dir_at_def split: option.splits)
  qed (use below that in \<open>simp add: overlay_def split: option.splits\<close>)
  have adm: "admitted kd st cl U q (U (st # q))" if "prefix p q" for q
    using below [OF that] old s by (cases "q = p") (auto simp: admitted_def)
  show ?thesis
    unfolding merges_def
  proof (intro conjI allI impI)
    show "closed_view kd (moved (st # p) p U)" using closed_moved [OF c p(1,3) n(1)] .
    show "moved (st # p) p U q = U q" if "\<not> prefix [st] q" "q \<notin> {q. prefix p q}" for q
      using that off [of q] by (cases q) auto
    show "admitted kd st cl U q (moved (st # p) p U q)" if "\<not> prefix [st] q" for q
    proof (cases "prefix p q")
      case False
      have "\<not> prefix (st # p) q" using that by (cases q) auto
      then show ?thesis using off False by simp
    qed (use at adm in simp)
    show "moved (st # p) p U q = overlay kd st U q" if "q \<in> {q. prefix p q}" for q
      using that at over by simp
    show "moved (st # p) p U (st # q) = U (st # q)" if "q \<notin> {q. prefix p q}" for q
      using that off [of "st # q"] n(2) by simp
    show "moved (st # p) p U (st # q) = None" if "U (st # q) = None" for q
      using that n(2) by (simp add: moved_def)
  qed
qed

section \<open>The check for conflicts\<close>

text \<open>Two entries of the same name conflict unless both are directories.\<close>

definition clash :: "('i \<Rightarrow> file_kind) \<Rightarrow> u8 list \<Rightarrow> 'i view_of \<Rightarrow> components \<Rightarrow> bool" where
  "clash kd st U q \<longleftrightarrow> U (st # q) \<noteq> None \<and> U q \<noteq> None \<and> \<not> (dir_at kd U (st # q) \<and> dir_at kd U q)"

lemma on_world_eq: "on_world m s = (r, t) \<longleftrightarrow> (\<exists>w. m (world s) = (r, w) \<and> t = s\<lparr>world := w\<rparr>)"
  by (auto simp: on_world_def split: prod.splits)

lemma on_cursor_world: "on_cursor m s = (r, t) \<Longrightarrow> world t = world s"
  by (auto simp: on_cursor_def split: prod.splits)

lemma on_run_eq: "on_run m s = (r, t) \<longleftrightarrow> (\<exists>u. m (fst s) = (r, u) \<and> t = (u, snd s))"
  by (auto simp: on_run_def split: prod.splits)

lemma map_errS_eq: "map_errS f m s = (r, t) \<longleftrightarrow>
    (\<exists>x. m s = (x, t) \<and> r = (case x of Inl e \<Rightarrow> Inl (f e) | Inr a \<Rightarrow> Inr a))"
  by (auto simp: map_errS_def split: prod.splits sum.splits)

context host_directory
begin

lemma metadata_on_world:
  assumes "on_world (attempt (fs_metadata fs h p)) s = (Inr x, t)"
  shows "V (world t) = V (world s) \<and>
    (case x of Inl e \<Rightarrow> io_error_kind e = NotFound \<longrightarrow> V (world s) p = None
     | Inr (k, m) \<Rightarrow> \<exists>i. V (world s) p = Some i \<and> kd i = k)"
  using assms metadata by (fastforce simp: on_world_eq)

lemma entries_listed:
  assumes "destination_entries fs h p s = (r, t)"
  shows "V (world t) = V (world s) \<and> (\<forall>es. r = Inr es \<longrightarrow> listing kd (V (world s)) p es)"
  using assms read_dir unfolding destination_entries_def map_errS_eq on_world_eq
  by (fastforce split: sum.splits)

lemma check_entry_spec:
  assumes "check_entry fs h descend p k s = Some (r, t)"
    and "\<And>u. descend p u = Some (r, t) \<Longrightarrow> V (world t) = V (world u)"
  shows "V (world t) = V (world s) \<and> (r = Inr () \<longrightarrow> V (world s) p = None \<or>
      k = Dir \<and> dir_at kd (V (world s)) p \<and>
      (\<exists>u. V (world u) = V (world s) \<and> descend p u = Some (Inr (), t)))"
  using assms(1) unfolding check_entry_def
proof (cases rule: bindR_E)
  case (stop e)
  then show ?thesis using on_cursor_world by fastforce
next
  case (go a s1)
  have v1: "V (world s1) = V (world s)" using go(1) on_cursor_world by fastforce
  from go(2) show ?thesis
  proof (cases rule: bindR_E)
    case (stop e)
    then show ?thesis by (auto simp: on_world_eq)
  next
    case (go found s2)
    have x: "V (world s2) = V (world s)"
      "case found of Inl e \<Rightarrow> io_error_kind e = NotFound \<longrightarrow> V (world s) p = None
       | Inr (k, m) \<Rightarrow> \<exists>i. V (world s) p = Some i \<and> kd i = k"
      using metadata_on_world [OF go(1) [unfolded liftR_Some]] unfolding v1 by simp_all
    show ?thesis
    proof (cases found)
      case (Inl e)
      then show ?thesis using go(2) x by (auto split: if_splits)
    next
      case (Inr km)
      obtain e m where km: "km = (e, m)" by (cases km)
      show ?thesis
        using go(2) x assms(2) [of s2] Inr km
        by (cases "k = Dir \<and> e = Dir") (auto simp: dir_at_def)
    qed
  qed
qed

lemma check_entries_view:
  assumes "\<And>rel s r t. check_conflicts fs h st n rel s = Some (r, t) \<Longrightarrow> V (world t) = V (world s)"
  shows "check_entries fs h st n rel es s = Some (r, t) \<Longrightarrow> V (world t) = V (world s)"
proof (induction es arbitrary: s)
  case (Cons e es)
  obtain x k where e: "e = (x, k)" by (cases e)
  from Cons.prems show ?case
    unfolding e check_entries.simps
  proof (cases rule: bindR_E)
    case (stop e)
    then show ?thesis using check_entry_spec assms by blast
  next
    case (go a s1)
    then have "V (world s1) = V (world s)" using check_entry_spec assms by blast
    then show ?thesis using Cons.IH [OF go(2)] by simp
  qed
qed simp

lemma check_conflicts_view:
  "check_conflicts fs h st n rel s = Some (r, t) \<Longrightarrow> V (world t) = V (world s)"
proof (induction n arbitrary: rel s r t)
  case (Suc n)
  from Suc.prems show ?case
    unfolding check_conflicts.simps
  proof (cases rule: bindR_E)
    case (stop e)
    then show ?thesis using entries_listed by auto
  next
    case (go es u)
    then have "V (world u) = V (world s)" using entries_listed by auto
    then show ?thesis using check_entries_view [OF Suc.IH go(2)] by simp
  qed
qed simp

lemma check_entries_clear:
  assumes tree: "\<And>rel s t q. check_conflicts fs h [st] n rel s = Some (Inr (), t) \<Longrightarrow> closed (world s) \<Longrightarrow>
      strict_prefix rel q \<Longrightarrow> \<not> clash kd st (V (world s)) q"
  shows "check_entries fs h [st] n rel es s = Some (Inr (), t) \<Longrightarrow> closed (world s) \<Longrightarrow>
      (\<And>x k. (x, k) \<in> set es \<Longrightarrow> \<exists>i. V (world s) (st # rel @ [x]) = Some i \<and> kd i = k) \<Longrightarrow>
      (x, k) \<in> set es \<Longrightarrow> prefix (rel @ [x]) q \<Longrightarrow> \<not> clash kd st (V (world s)) q"
proof (induction es arbitrary: s)
  case (Cons e es)
  obtain y j where e: "e = (y, j)" by (cases e)
  let ?p = "rel @ [y]"
  from Cons.prems(1) obtain s1
    where s1: "check_entry fs h (\<lambda>path. check_conflicts fs h [st] n path) ?p j s = Some (Inr (), s1)"
      and rest: "check_entries fs h [st] n rel es s1 = Some (Inr (), t)"
    unfolding e check_entries.simps by (auto elim: bindR_E)
  have v1: "V (world s1) = V (world s)"
    and step: "V (world s) ?p = None \<or> j = Dir \<and> dir_at kd (V (world s)) ?p \<and>
      (\<exists>u. V (world u) = V (world s) \<and> check_conflicts fs h [st] n ?p u = Some (Inr (), s1))"
    using check_entry_spec [OF s1 check_conflicts_view] by simp_all
  have first: "\<not> clash kd st (V (world s)) q" if q: "prefix ?p q"
  proof (cases "V (world s) ?p = None")
    case True
    then have "V (world s) q = None" using closed_above [OF Cons.prems(2) _ q] by blast
    then show ?thesis by (simp add: clash_def)
  next
    case False
    then obtain u where u: "j = Dir" "dir_at kd (V (world s)) ?p" "V (world u) = V (world s)"
      "check_conflicts fs h [st] n ?p u = Some (Inr (), s1)"
      using step by auto
    have "dir_at kd (V (world s)) (st # ?p)"
      using u(1) Cons.prems(3) [of y j] by (auto simp: e dir_at_def)
    then have "\<not> clash kd st (V (world s)) ?p" using u(2) by (simp add: clash_def)
    moreover have "\<not> clash kd st (V (world s)) q" if "strict_prefix ?p q"
      using tree [OF u(4) _ that] u(3) Cons.prems(2) by simp
    ultimately show ?thesis using q by (cases "q = ?p") auto
  qed
  show ?case
  proof (cases "(x, k) = e")
    case True
    then show ?thesis using first Cons.prems(5) e by simp
  next
    case False
    then have "(x, k) \<in> set es" using Cons.prems(4) by simp
    then have "\<not> clash kd st (V (world s1)) q"
      using Cons.IH [OF rest _ _ _ Cons.prems(5)] Cons.prems(2,3) v1 by simp
    then show ?thesis using v1 by simp
  qed
qed simp

lemma check_conflicts_clear:
  "check_conflicts fs h [st] n rel s = Some (Inr (), t) \<Longrightarrow> closed (world s) \<Longrightarrow>
     strict_prefix rel q \<Longrightarrow> \<not> clash kd st (V (world s)) q"
proof (induction n arbitrary: rel s t q)
  case (Suc n)
  obtain es u where es: "destination_entries fs h (st # rel) s = (Inr es, u)"
    and chk: "check_entries fs h [st] n rel es u = Some (Inr (), t)"
    using Suc.prems(1) by (auto elim: bindR_E)
  have u: "V (world u) = V (world s)" and l: "listing kd (V (world s)) (st # rel) es"
    using entries_listed [OF es] by simp_all
  obtain x r where q: "q = (rel @ [x]) @ r"
    using Suc.prems(3) prefix_step [of rel q] unfolding strict_prefix_def by blast
  show ?case
  proof (cases "V (world s) (st # q)")
    case None
    then show ?thesis by (simp add: clash_def)
  next
    case (Some i)
    have "V (world s) (st # rel @ [x]) \<noteq> None"
      using closed_above [OF Suc.prems(2), of "st # q" "st # rel @ [x]"] Some q by simp
    then obtain k where k: "(x, k) \<in> set es" using l by (auto simp: listing_def)
    have "\<not> clash kd st (V (world u)) q"
    proof (rule check_entries_clear [OF _ chk])
      show "closed (world u)" using Suc.prems(2) u by simp
      show "\<exists>i. V (world u) (st # rel @ [x]) = Some i \<and> kd i = k" if "(x, k) \<in> set es" for x k
        using that l u by (simp add: listing_def)
      show "prefix (rel @ [x]) q" using q by simp
    qed (use Suc.IH k in blast)+
    then show ?thesis using u by simp
  qed
qed simp

end

section \<open>The merge\<close>

lemma merges_same: "closed_view kd U \<Longrightarrow> (\<And>q. q \<in> R \<Longrightarrow> \<not> prefix [st] q \<Longrightarrow> overlay kd st U q = U q) \<Longrightarrow>
    merges kd st c R U d U"
  by (simp add: merges_def)

lemma merges_extend:
  assumes "merges kd st c R U d U'" "R \<subseteq> S"
    and "\<And>q. q \<in> S \<Longrightarrow> q \<notin> R \<Longrightarrow> \<not> prefix [st] q \<Longrightarrow> overlay kd st U q = U q"
  shows "merges kd st c S U d U'"
proof -
  have "U' q = overlay kd st U q" if "\<not> prefix [st] q" "q \<in> S" d for q
    using assms(1) assms(3) [of q] that by (cases "q \<in> R") (simp_all add: merges_def)
  then show ?thesis using assms(1,2) by (auto simp: merges_def)
qed

lemma merges_removed:
  assumes "closed_view kd U" "\<not> dir_at kd U p" "U (st # p) \<noteq> None" "p \<noteq> []" "hd p \<noteq> st"
  shows "merges kd st Replace {q. prefix p q} U False (U(p := None))"
proof -
  have "U (p @ [x]) = None" for x using closed_none [OF assms(1,2)] by simp
  then have "closed_view kd (U(p := None))" using closed_delete [OF assms(1)] by simp
  then show ?thesis
    using assms by (cases p) (auto simp: merges_def admitted_def)
qed

lemma moved_delete: "hd p \<noteq> st \<Longrightarrow> moved (st # p) p (U(p := None)) = moved (st # p) p U"
  by (cases p) (auto simp: moved_def fun_eq_iff prefix_def)

lemma call_E:
  assumes "on_run (map_errS f (on_world m)) s = (r, t)"
  obtains (failed) e w where "m (world (fst s)) = (Inl e, w)" "r = Inl (f e)" "world (fst t) = w"
    | (passed) a w where "m (world (fst s)) = (Inr a, w)" "r = Inr a" "world (fst t) = w"
  using assms
  by (cases "m (world (fst s))"; cases "fst (m (world (fst s)))")
    (auto simp: on_run_def map_errS_def on_world_def)

context host_directory
begin

lemma move_entry_new:
  assumes "move_entry fs h [st] p No_replace s = (r, t)"
  shows "(\<exists>e. r = Inl e) \<and> V (world (fst t)) = V (world (fst s)) \<or>
    r = Inr () \<and> V (world (fst s)) (st # p) \<noteq> None \<and> V (world (fst s)) p = None \<and> p \<noteq> [] \<and>
      dir_at kd (V (world (fst s))) (butlast p) \<and> V (world (fst t)) = moved (st # p) p (V (world (fst s)))"
  using assms unfolding move_entry_def
proof (cases rule: bindS_E)
  case (stop e)
  then show ?thesis by (elim call_E) (auto dest: rename_new)
next
  case (go a u)
  then have "V (world (fst t)) = V (world (fst u))" "r = Inr ()"
    by (auto simp: published_one_def updS_def)
  with go(1) show ?thesis by (elim call_E) (auto dest: rename_new)
qed

lemma move_entry_over:
  assumes "move_entry fs h [st] p Replacing s = (r, t)"
  shows "(\<exists>e. r = Inl e) \<and> V (world (fst t)) = V (world (fst s)) \<or>
    r = Inr () \<and> p \<noteq> [] \<and> dir_at kd (V (world (fst s))) (butlast p) \<and>
      (\<exists>i. V (world (fst s)) (st # p) = Some i \<and>
        (V (world (fst t)) = moved (st # p) p (V (world (fst s))) \<or>
         V (world (fst s)) p = Some i \<and> V (world (fst t)) = V (world (fst s))))"
  using assms unfolding move_entry_def
proof (cases rule: bindS_E)
  case (stop e)
  then show ?thesis by (elim call_E) (auto dest: rename_over)
next
  case (go a u)
  then have "V (world (fst t)) = V (world (fst u))" "r = Inr ()"
    by (auto simp: published_one_def updS_def)
  with go(1) show ?thesis by (elim call_E) (auto dest: rename_over)
qed

lemma metadata_on_run:
  assumes "on_run (on_world (attempt (fs_metadata fs h p))) s = (Inr x, t)"
  shows "V (world (fst t)) = V (world (fst s)) \<and>
    (case x of Inl e \<Rightarrow> io_error_kind e = NotFound \<longrightarrow> V (world (fst s)) p = None
     | Inr (k, m) \<Rightarrow> \<exists>i. V (world (fst s)) p = Some i \<and> kd i = k)"
  using assms metadata_on_world by (fastforce simp: on_run_eq)

lemma new_merges:
  assumes "move_entry fs h [st] p No_replace s = (r, t)" "closed (world (fst s))" "hd p \<noteq> st"
  shows "merges kd st c {q. prefix p q} (V (world (fst s))) (r = Inr ()) (V (world (fst t)))"
  using move_entry_new [OF assms(1)] merges_moved [OF assms(2) _ assms(3)] merges_refl [OF assms(2)]
  by auto

lemma over_merges:
  assumes mv: "move_entry fs h [st] p Replacing s = (r, t)" and cl: "closed (world (fst s))"
    and hd: "hd p \<noteq> st" and old: "\<not> dir_at kd (V (world (fst s))) p" "\<not> dir_at kd (V (world (fst s))) (st # p)"
  shows "merges kd st Replace {q. prefix p q} (V (world (fst s))) (r = Inr ()) (V (world (fst t)))"
  using move_entry_over [OF mv]
proof (elim disjE conjE exE)
  fix i
  let ?U = "V (world (fst s))"
  assume r: "r = Inr ()" and i: "?U (st # p) = Some i" "?U p = Some i" "V (world (fst t)) = ?U"
  have "overlay kd st ?U q = ?U q" if "prefix p q" for q
  proof (cases "q = p")
    case True
    then show ?thesis using i by (simp add: overlay_def)
  next
    case False
    then have "?U (st # q) = None" using closed_none [OF cl old(2), of "st # q"] that by auto
    then show ?thesis by (rule overlay_none)
  qed
  then show ?thesis unfolding i(3) by (intro merges_same cl) simp
qed (use merges_moved [OF cl _ hd] old(1) in \<open>auto intro: merges_refl cl\<close>)

lemma merge_entry_spec:
  assumes run: "merge_entry fs h [st] c descend p k s = Some (r, t)"
    and sub: "\<And>u. descend p u = Some (r, t) \<Longrightarrow> closed (world (fst u)) \<Longrightarrow>
      dir_at kd (V (world (fst u))) p \<Longrightarrow> dir_at kd (V (world (fst u))) (st # p) \<Longrightarrow>
      merges kd st c {q. prefix p q} (V (world (fst u))) (r = Inr ()) (V (world (fst t)))"
    and cl: "closed (world (fst s))" and p: "p \<noteq> []" "hd p \<noteq> st"
    and st: "V (world (fst s)) (st # p) = Some i" "kd i = k"
  shows "merges kd st c {q. prefix p q} (V (world (fst s))) (r = Inr ()) (V (world (fst t)))"
  using run unfolding merge_entry_def
proof (cases rule: bindR_E)
  case (stop e)
  then have "V (world (fst t)) = V (world (fst s))" using on_cursor_world by (fastforce simp: on_run_eq)
  then show ?thesis using stop merges_refl [OF cl] by simp
next
  case (go a s1)
  have v1: "V (world (fst s1)) = V (world (fst s))"
    using go(1) on_cursor_world by (fastforce simp: on_run_eq)
  from go(2) show ?thesis
  proof (cases rule: bindR_E)
    case (stop e)
    then show ?thesis by (auto simp: on_world_eq on_run_eq)
  next
    case (go found s2)
    have v2: "V (world (fst s2)) = V (world (fst s))"
      and x: "case found of Inl e \<Rightarrow> io_error_kind e = NotFound \<longrightarrow> V (world (fst s)) p = None
       | Inr (k, m) \<Rightarrow> \<exists>i. V (world (fst s)) p = Some i \<and> kd i = k"
      using metadata_on_run [OF go(1) [unfolded liftR_Some]] unfolding v1 by simp_all
    have c2: "closed (world (fst s2))" using cl v2 by simp
    show ?thesis
    proof (cases found)
      case (Inl e)
      show ?thesis
      proof (cases "io_error_kind e = NotFound")
        case True
        then have "move_entry fs h [st] p No_replace s2 = (r, t)" using go(2) Inl by simp
        then show ?thesis using new_merges [OF _ c2 p(2)] v2 by simp
      next
        case False
        then show ?thesis using go(2) Inl v2 merges_refl [OF cl] by auto
      qed
    next
      case (Inr em)
      obtain e m where em: "em = (e, m)" by (cases em)
      obtain d where d: "V (world (fst s)) p = Some d" "kd d = e" using x Inr em by auto
      consider (both) "k = Dir" "e = Dir" | (swap) "k = Dir" "e \<noteq> Dir" "c = Replace"
        | (no) "\<not> (k = Dir \<and> e = Dir)" "\<not> (k = Dir \<and> c = Replace)" "c = Refuse_collision \<or> e = Dir"
        | (over) "k \<noteq> Dir" "e \<noteq> Dir" "c = Replace"
        by (cases c) auto
      then show ?thesis
      proof cases
        case both
        then have "descend p s2 = Some (r, t)" using go(2) Inr em by simp
        then show ?thesis
          using sub [of s2] v2 c2 d st both by (simp add: dir_at_def)
      next
        case no
        then show ?thesis using go(2) Inr em v2 merges_refl [OF cl] by auto
      next
        case over
        then have "move_entry fs h [st] p Replacing s2 = (r, t)" using go(2) Inr em by simp
        then show ?thesis using over_merges [OF _ c2 p(2)] v2 d st over by (simp add: dir_at_def)
      next
        case swap
        let ?U = "V (world (fst s))"
        have nd: "\<not> dir_at kd ?U p" using d swap by (simp add: dir_at_def)
        from go(2) Inr em swap have "bindR (liftR (on_run (map_errS (rename_error p)
            (on_world (fs_remove_file fs h p))))) (\<lambda>_. liftR (move_entry fs h [st] p No_replace)) s2
            = Some (r, t)" by simp
        then show ?thesis
        proof (cases rule: bindR_E)
          case (stop e)
          then have "V (world (fst t)) = V (world (fst s2))"
            unfolding liftR_Some by (elim call_E) (auto dest: remove_file)
          then have "V (world (fst t)) = ?U" using v2 by simp
          then show ?thesis using stop merges_refl [OF cl] by simp
        next
          case (go b s3)
          then have "V (world (fst s3)) = (V (world (fst s2)))(p := None)"
            unfolding liftR_Some by (elim call_E) (auto dest: remove_file)
          then have v3: "V (world (fst s3)) = ?U(p := None)" using v2 by simp
          have mv: "move_entry fs h [st] p No_replace s3 = (r, t)" using go(2) by simp
          show ?thesis
            using move_entry_new [OF mv]
          proof (elim disjE conjE exE)
            fix e assume "r = Inl e" "V (world (fst t)) = V (world (fst s3))"
            then show ?thesis using v3 merges_removed [OF cl nd _ p] st swap by simp
          next
            assume r: "r = Inr ()" "dir_at kd (V (world (fst s3))) (butlast p)"
              and m: "V (world (fst t)) = moved (st # p) p (V (world (fst s3)))"
            have "dir_at kd ?U (butlast p)"
              using r(2) v3 by (auto simp: dir_at_def split: if_splits)
            then show ?thesis
              using m v3 merges_moved [OF cl p] nd st swap r(1) by (simp add: moved_delete p)
          qed
        qed
      qed
    qed
  qed
qed

lemma merge_entries_spec:
  assumes tree: "\<And>rel s r t. merge fs h [st] c n rel s = Some (r, t) \<Longrightarrow> closed (world (fst s)) \<Longrightarrow>
      dir_at kd (V (world (fst s))) rel \<Longrightarrow> dir_at kd (V (world (fst s))) (st # rel) \<Longrightarrow>
      rel \<noteq> [] \<Longrightarrow> hd rel \<noteq> st \<Longrightarrow>
      merges kd st c {q. prefix rel q} (V (world (fst s))) (r = Inr ()) (V (world (fst t)))"
  shows "merge_entries fs h [st] c n rel es s = Some (r, t) \<Longrightarrow> closed (world (fst s)) \<Longrightarrow>
      distinct (map fst es) \<Longrightarrow>
      (\<And>x k. (x, k) \<in> set es \<Longrightarrow> hd (rel @ [x]) \<noteq> st \<and>
         (\<exists>i. V (world (fst s)) (st # rel @ [x]) = Some i \<and> kd i = k)) \<Longrightarrow>
      merges kd st c {q. \<exists>x \<in> fst ` set es. prefix (rel @ [x]) q}
        (V (world (fst s))) (r = Inr ()) (V (world (fst t)))"
proof (induction es arbitrary: s)
  case Nil
  then show ?case by (auto intro: merges_same)
next
  case (Cons e es)
  obtain y k where e: "e = (y, k)" by (cases e)
  let ?p = "rel @ [y]" let ?U = "V (world (fst s))"
  let ?R = "{q. prefix ?p q}" let ?S = "{q. \<exists>x \<in> fst ` set es. prefix (rel @ [x]) q}"
  have RS: "{q. \<exists>x \<in> fst ` set (e # es). prefix (rel @ [x]) q} = ?R \<union> ?S" by (auto simp: e)
  obtain i where i: "?U (st # ?p) = Some i" "kd i = k" and hd: "hd ?p \<noteq> st"
    using Cons.prems(4) [of y k] e by auto
  have one: "merges kd st c ?R ?U (r' = Inr ()) (V (world (fst t')))"
    if "merge_entry fs h [st] c (\<lambda>path. merge fs h [st] c n path) ?p k s = Some (r', t')" for r' t'
  proof (rule merge_entry_spec [OF that _ Cons.prems(2) _ hd i])
    show "merges kd st c ?R (V (world (fst u))) (r' = Inr ()) (V (world (fst t')))"
      if "merge fs h [st] c n ?p u = Some (r', t')" "closed (world (fst u))"
        "dir_at kd (V (world (fst u))) ?p" "dir_at kd (V (world (fst u))) (st # ?p)" for u
      by (rule tree [OF that _ hd]) simp
  qed simp
  from Cons.prems(1) have "merges kd st c (?R \<union> ?S) ?U (r = Inr ()) (V (world (fst t)))"
    unfolding e merge_entries.simps
  proof (cases rule: bindR_E)
    case (stop err)
    then show ?thesis using merges_mono [OF one [OF stop(1)]] by simp
  next
    case (go a s1)
    have m1: "merges kd st c ?R ?U True (V (world (fst s1)))" using one [OF go(1)] by simp
    have apart: "\<not> prefix ?p (rel @ [x])" if "x \<in> fst ` set es" for x
      using Cons.prems(3) that by (auto simp: e)
    have "merges kd st c ?S (V (world (fst s1))) (r = Inr ()) (V (world (fst t)))"
    proof (rule Cons.IH [OF go(2)])
      show "closed (world (fst s1))" using m1 by (simp add: merges_def)
      show "distinct (map fst es)" using Cons.prems(3) by simp
      show "hd (rel @ [x]) \<noteq> st \<and> (\<exists>i. V (world (fst s1)) (st # rel @ [x]) = Some i \<and> kd i = k)"
        if "(x, k) \<in> set es" for x k
      proof -
        have "x \<in> fst ` set es" using that by force
        then have "V (world (fst s1)) (st # rel @ [x]) = ?U (st # rel @ [x])"
          using m1 apart by (simp add: merges_def)
        then show ?thesis using Cons.prems(4) [of x k] that by simp
      qed
    qed
    moreover have "?R \<inter> ?S = {}"
      using apart by (auto simp: prefix_def)
    ultimately show ?thesis using merges_trans [OF m1] by blast
  qed
  then show ?case unfolding RS .
qed

lemma merge_spec:
  "merge fs h [st] c n rel s = Some (r, t) \<Longrightarrow> closed (world (fst s)) \<Longrightarrow>
     dir_at kd (V (world (fst s))) rel \<Longrightarrow>
     (if rel = [] then V (world (fst s)) [st, st] = None else hd rel \<noteq> st) \<Longrightarrow>
     merges kd st c {q. prefix rel q} (V (world (fst s))) (r = Inr ()) (V (world (fst t)))"
proof (induction n arbitrary: rel s r t)
  case (Suc n)
  let ?U = "V (world (fst s))"
  from Suc.prems(1) show ?case
    unfolding merge.simps
  proof (cases rule: bindR_E)
    case (stop e)
    then have "V (world (fst t)) = ?U" using entries_listed by (auto simp: on_run_eq)
    then show ?thesis using stop merges_refl [OF Suc.prems(2)] by simp
  next
    case (go es u)
    then have v: "V (world (fst u)) = ?U" and l: "listing kd ?U (st # rel) es"
      using entries_listed by (auto simp: on_run_eq)
    let ?R = "{q. \<exists>x \<in> fst ` set es. prefix (rel @ [x]) q}"
    have "merges kd st c ?R (V (world (fst u))) (r = Inr ()) (V (world (fst t)))"
    proof (rule merge_entries_spec [OF _ go(2)])
      show "closed (world (fst u))" using Suc.prems(2) v by simp
      show "distinct (map fst es)" using l by (simp add: listing_def)
      show "hd (rel @ [x]) \<noteq> st \<and> (\<exists>i. V (world (fst u)) (st # rel @ [x]) = Some i \<and> kd i = k)"
        if "(x, k) \<in> set es" for x k
        using that l Suc.prems(4) v by (cases rel) (auto simp: listing_def split: if_splits)
    next
      fix rel s r t
      assume a: "merge fs h [st] c n rel s = Some (r, t)" "closed (world (fst s))"
        "dir_at kd (V (world (fst s))) rel" "rel \<noteq> []" "hd rel \<noteq> st"
      show "merges kd st c {q. prefix rel q} (V (world (fst s))) (r = Inr ()) (V (world (fst t)))"
        by (rule Suc.IH [OF a(1-3)]) (simp add: a(4,5))
    qed
    then show ?thesis
      unfolding v
    proof (rule merges_extend)
      show "?R \<subseteq> {q. prefix rel q}" by (auto simp: prefix_def)
      show "overlay kd st ?U q = ?U q" if "q \<in> {q. prefix rel q}" "q \<notin> ?R" for q
      proof (cases "q = rel")
        case True
        then show ?thesis using Suc.prems(3) l
          by (auto simp: listing_def dir_at_def overlay_def)
      next
        case False
        have "prefix rel q" using that(1) by simp
        with False obtain x z where q: "q = (rel @ [x]) @ z"
          using prefix_step [of rel q] by blast
        then have "x \<notin> fst ` set es" using that(2) by auto
        then have "?U (st # rel @ [x]) = None" using l by (force simp: listing_def)
        then have "?U (st # q) = None"
          using closed_above [OF Suc.prems(2), of "st # q" "st # rel @ [x]"] q
          by (cases "?U (st # q)") auto
        then show ?thesis by (rule overlay_none)
      qed
    qed
  qed
qed simp

end

section \<open>Fuel above the depth of the stage is enough\<close>

context host_directory
begin

lemma check_entry_ends:
  assumes "\<And>u. k = Dir \<Longrightarrow> V (world u) = V (world s) \<Longrightarrow> descend p u \<noteq> None"
  shows "check_entry fs h descend p k s \<noteq> None"
proof
  assume "check_entry fs h descend p k s = None"
  then obtain s1 found s2 where s1: "on_cursor (on_budget checkpoint) s = (Inr (), s1)"
    and s2: "on_world (attempt (fs_metadata fs h p)) s1 = (Inr found :: error + (io_error + file_kind \<times> u32), s2)"
    and none: "(case found of
         Inl e \<Rightarrow> liftR (if io_error_kind e = NotFound then retS () else failS (from_host e))
       | Inr (existing, m) \<Rightarrow>
           if k = Dir \<and> existing = Dir then descend p else liftR (failS (already_has p))) s2 = None"
    unfolding check_entry_def bindR_None liftR_Some by auto
  have "V (world s2) = V (world s)"
    using on_cursor_world [OF s1] metadata_on_world [OF s2] by simp
  then show False using none assms [of s2] by (auto split: sum.splits prod.splits if_splits)
qed

lemma check_entries_ends:
  assumes "\<And>x u. (x, Dir) \<in> set es \<Longrightarrow> V (world u) = V (world s) \<Longrightarrow>
      check_conflicts fs h st n (rel @ [x]) u \<noteq> None"
  shows "V (world u) = V (world s) \<Longrightarrow> check_entries fs h st n rel es u \<noteq> None"
  using assms
proof (induction es arbitrary: u)
  case (Cons e es)
  obtain x k where e: "e = (x, k)" by (cases e)
  have "check_entry fs h (\<lambda>path. check_conflicts fs h st n path) (rel @ [x]) k u \<noteq> None"
    by (rule check_entry_ends) (use Cons.prems e in auto)
  moreover have "check_entries fs h st n rel es t \<noteq> None"
    if "check_entry fs h (\<lambda>path. check_conflicts fs h st n path) (rel @ [x]) k u = Some (Inr (), t)" for t
    using Cons.IH [of t] check_entry_spec [OF that check_conflicts_view] Cons.prems by simp
  ultimately show ?case unfolding e check_entries.simps bindR_None by auto
qed simp

lemma check_conflicts_ends:
  "0 < n \<Longrightarrow> (\<And>q. V (world s) (st @ rel @ q) \<noteq> None \<Longrightarrow> length q < n) \<Longrightarrow>
     check_conflicts fs h st n rel s \<noteq> None"
proof (induction n arbitrary: rel s)
  case (Suc n)
  have "check_entries fs h st n rel es u \<noteq> None"
    if es: "destination_entries fs h (st @ rel) s = (Inr es, u)" for es u
  proof (rule check_entries_ends)
    have v: "V (world u) = V (world s)" and l: "listing kd (V (world s)) (st @ rel) es"
      using entries_listed [OF es] by simp_all
    show "check_conflicts fs h st n (rel @ [x]) t \<noteq> None"
      if "(x, Dir) \<in> set es" "V (world t) = V (world u)" for x t
    proof (rule Suc.IH)
      have "V (world s) (st @ rel @ [x]) \<noteq> None" using l that(1) by (auto simp: listing_def)
      then show "0 < n" using Suc.prems(2) [of "[x]"] by simp
      show "length q < n" if "V (world t) (st @ (rel @ [x]) @ q) \<noteq> None" for q
        using Suc.prems(2) [of "x # q"] that v \<open>V (world t) = V (world u)\<close> by simp
    qed
  qed simp
  then show ?case by (auto simp: bindR_None simp del: not_None_eq)
qed simp

lemma merge_entry_ends:
  assumes "\<And>u. k = Dir \<Longrightarrow> V (world (fst u)) = V (world (fst s)) \<Longrightarrow>
      dir_at kd (V (world (fst u))) p \<Longrightarrow> descend p u \<noteq> None"
  shows "merge_entry fs h st c descend p k s \<noteq> None"
proof
  assume "merge_entry fs h st c descend p k s = None"
  then obtain s1 found s2 where s1: "on_run (on_cursor (on_budget checkpoint)) s = (Inr (), s1)"
    and s2: "on_run (on_world (attempt (fs_metadata fs h p))) s1 = (Inr found :: error + (io_error + file_kind \<times> u32), s2)"
    and none: "(case found of
         Inl e \<Rightarrow>
           if io_error_kind e = NotFound then liftR (move_entry fs h st p No_replace)
           else liftR (failS (from_host e))
       | Inr (existing, m) \<Rightarrow>
           if k = Dir \<and> existing = Dir then descend p
           else if k = Dir \<and> c = Replace then
             bindR (liftR (on_run (map_errS (rename_error p) (on_world (fs_remove_file fs h p)))))
               (\<lambda>_. liftR (move_entry fs h st p No_replace))
           else if c = Refuse_collision \<or> existing = Dir then liftR (failS (already_has p))
           else liftR (move_entry fs h st p Replacing)) s2 = None"
    unfolding merge_entry_def bindR_None liftR_Some by auto
  have v1: "V (world (fst s1)) = V (world (fst s))"
    using s1 on_cursor_world by (fastforce simp: on_run_eq)
  have x: "V (world (fst s2)) = V (world (fst s))"
    "case found of Inl e \<Rightarrow> io_error_kind e = NotFound \<longrightarrow> V (world (fst s)) p = None
       | Inr (k, m) \<Rightarrow> \<exists>i. V (world (fst s)) p = Some i \<and> kd i = k"
    using metadata_on_run [OF s2] unfolding v1 by simp_all
  obtain m where "found = Inr (Dir, m)" "k = Dir" "descend p s2 = None"
    using none by (auto simp: bindR_None split: sum.splits prod.splits if_splits)
  then show False using assms [of s2] x by (auto simp: dir_at_def)
qed

lemma merge_entry_merges:
  assumes "merge_entry fs h [st] c (\<lambda>path. merge fs h [st] c n path) p k s = Some (r, t)"
    and "closed (world (fst s))" "p \<noteq> []" "hd p \<noteq> st" "V (world (fst s)) (st # p) = Some i" "kd i = k"
  shows "merges kd st c {q. prefix p q} (V (world (fst s))) (r = Inr ()) (V (world (fst t)))"
proof (rule merge_entry_spec [OF assms(1) _ assms(2-6)])
  show "merges kd st c {q. prefix p q} (V (world (fst u))) (r = Inr ()) (V (world (fst t)))"
    if "merge fs h [st] c n p u = Some (r, t)" "closed (world (fst u))"
      "dir_at kd (V (world (fst u))) p" for u
    by (rule merge_spec [OF that]) (simp add: assms(3,4))
qed

lemma merge_entries_ends:
  assumes tree: "\<And>x u. 0 < n \<Longrightarrow> closed (world (fst u)) \<Longrightarrow> dir_at kd (V (world (fst u))) (rel @ [x]) \<Longrightarrow>
      hd (rel @ [x]) \<noteq> st \<Longrightarrow> (\<And>q. V (world (fst u)) (st # (rel @ [x]) @ q) \<noteq> None \<Longrightarrow> length q < n) \<Longrightarrow>
      merge fs h [st] c n (rel @ [x]) u \<noteq> None"
  shows "closed (world (fst s)) \<Longrightarrow> distinct (map fst es) \<Longrightarrow>
      (\<And>x k. (x, k) \<in> set es \<Longrightarrow> hd (rel @ [x]) \<noteq> st \<and>
         (\<exists>i. V (world (fst s)) (st # rel @ [x]) = Some i \<and> kd i = k)) \<Longrightarrow>
      (\<And>x q. x \<in> fst ` set es \<Longrightarrow> V (world (fst s)) (st # (rel @ [x]) @ q) \<noteq> None \<Longrightarrow> length q < n) \<Longrightarrow>
      merge_entries fs h [st] c n rel es s \<noteq> None"
proof (induction es arbitrary: s)
  case (Cons e es)
  obtain y k where e: "e = (y, k)" by (cases e)
  let ?p = "rel @ [y]" let ?U = "V (world (fst s))"
  obtain i where i: "?U (st # ?p) = Some i" "kd i = k" and hd: "hd ?p \<noteq> st"
    using Cons.prems(3) [of y k] e by auto
  have n: "0 < n" using Cons.prems(4) [of y "[]"] i e by simp
  have "merge_entry fs h [st] c (\<lambda>path. merge fs h [st] c n path) ?p k s \<noteq> None"
  proof (rule merge_entry_ends)
    show "merge fs h [st] c n ?p u \<noteq> None"
      if "V (world (fst u)) = ?U" "dir_at kd (V (world (fst u))) ?p" for u
      by (rule tree [OF n]) (use that Cons.prems(1) hd Cons.prems(4) [of y] e in auto)
  qed
  moreover have "merge_entries fs h [st] c n rel es s1 \<noteq> None"
    if s1: "merge_entry fs h [st] c (\<lambda>path. merge fs h [st] c n path) ?p k s = Some (Inr (), s1)" for s1
  proof -
    have m: "merges kd st c {q. prefix ?p q} ?U True (V (world (fst s1)))"
      using merge_entry_merges [OF s1 Cons.prems(1) _ hd i] by simp
    have same: "V (world (fst s1)) (st # (rel @ [x]) @ q) = ?U (st # (rel @ [x]) @ q)"
      if "x \<in> fst ` set es" for x q
    proof -
      have "y \<noteq> x" using Cons.prems(2) that e by auto
      then have "\<not> prefix ?p ((rel @ [x]) @ q)" by simp
      then show ?thesis using m by (simp add: merges_def)
    qed
    show ?thesis
    proof (rule Cons.IH)
      show "closed (world (fst s1))" using m by (simp add: merges_def)
      show "distinct (map fst es)" using Cons.prems(2) by simp
      show "hd (rel @ [x]) \<noteq> st \<and> (\<exists>i. V (world (fst s1)) (st # rel @ [x]) = Some i \<and> kd i = k)"
        if "(x, k) \<in> set es" for x k
        using same [of x "[]"] Cons.prems(3) [of x k] that by force
      show "length q < n" if "x \<in> fst ` set es" "V (world (fst s1)) (st # (rel @ [x]) @ q) \<noteq> None" for x q
        using same [OF that(1), of q] Cons.prems(4) [of x q] that by simp
    qed
  qed
  ultimately show ?case unfolding e merge_entries.simps bindR_None by auto
qed simp

lemma merge_ends:
  "0 < n \<Longrightarrow> closed (world (fst s)) \<Longrightarrow> dir_at kd (V (world (fst s))) rel \<Longrightarrow>
     (if rel = [] then V (world (fst s)) [st, st] = None else hd rel \<noteq> st) \<Longrightarrow>
     (\<And>q. V (world (fst s)) (st # rel @ q) \<noteq> None \<Longrightarrow> length q < n) \<Longrightarrow>
     merge fs h [st] c n rel s \<noteq> None"
proof (induction n arbitrary: rel s)
  case (Suc n)
  let ?U = "V (world (fst s))"
  have "merge_entries fs h [st] c n rel es u \<noteq> None"
    if es: "on_run (destination_entries fs h ([st] @ rel)) s = (Inr es, u)" for es u
  proof (rule merge_entries_ends)
    have v: "V (world (fst u)) = ?U" and l: "listing kd ?U (st # rel) es"
      using es entries_listed by (auto simp: on_run_eq)
    show "closed (world (fst u))" using Suc.prems(2) v by simp
    show "distinct (map fst es)" using l by (simp add: listing_def)
    show "hd (rel @ [x]) \<noteq> st \<and> (\<exists>i. V (world (fst u)) (st # rel @ [x]) = Some i \<and> kd i = k)"
      if "(x, k) \<in> set es" for x k
      using that l Suc.prems(4) v by (cases rel) (auto simp: listing_def split: if_splits)
    show "length q < n" if "V (world (fst u)) (st # (rel @ [x]) @ q) \<noteq> None" for x q
      using Suc.prems(5) [of "x # q"] that v by simp
    show "merge fs h [st] c n (rel @ [x]) t \<noteq> None"
      if "0 < n" "closed (world (fst t))" "dir_at kd (V (world (fst t))) (rel @ [x])"
        "hd (rel @ [x]) \<noteq> st" "\<And>q. V (world (fst t)) (st # (rel @ [x]) @ q) \<noteq> None \<Longrightarrow> length q < n" for x t
      by (rule Suc.IH [OF that(1-3) _ that(5)]) (use that(4) in simp_all)
  qed
  then show ?case by (auto simp: bindR_None simp del: not_None_eq)
qed simp

end

section \<open>Publication into an existing directory\<close>

lemma merge_all_E:
  assumes "merge_all fs h st c n s = Some (r, t)"
  obtains r' k where "merge fs h st c n [] (s, 0) = Some (r', (t, k))" "r = Inr () \<longleftrightarrow> r' = Inr ()"
  using assms unfolding merge_all_def map_errR_def
  by (auto split: option.splits sum.splits prod.splits)

lemma merge_all_None: "merge_all fs h st c n s = None \<longleftrightarrow> merge fs h st c n [] (s, 0) = None"
  unfolding merge_all_def map_errR_def by (auto split: option.splits sum.splits prod.splits)

lemma remove_stage_E:
  assumes "map_errR (\<lambda>e _. from_host e) (on_worldR (remove_tree fs h n p)) s = Some (r, t)"
  obtains r' where "remove_tree fs h n p (world s) = Some (r', world t)" "r = Inr () \<longleftrightarrow> r' = Inr ()"
  using assms unfolding map_errR_def on_worldR_def
  by (auto split: option.splits sum.splits prod.splits)

lemma remove_stage_None:
  "map_errR (\<lambda>e _. from_host e) (on_worldR (remove_tree fs h n p)) s = None \<longleftrightarrow>
     remove_tree fs h n p (world s) = None"
  unfolding map_errR_def on_worldR_def by (auto split: option.splits sum.splits prod.splits)

context host_directory
begin

lemma merge_root:
  assumes run: "merge fs h [st] c n [] s = Some (r, t)" and cl: "closed (world (fst s))"
    and st: "V (world (fst s)) [st, st] = None"
  shows "merges kd st c UNIV (V (world (fst s))) (r = Inr ()) (V (world (fst t)))"
proof (cases "dir_at kd (V (world (fst s))) []")
  case True
  then show ?thesis using merge_spec [OF run cl True] st by simp
next
  case False
  then have "\<not> dir_at kd (V (world (fst s))) [st]"
    using closed_parent [OF cl, of "[]" "[st]"] by (auto simp: dir_at_def)
  then have "\<exists>e. r = Inl e \<and> V (world (fst t)) = V (world (fst s))"
    using run entries_listed
    by (cases n) (auto simp: bindR_liftR on_run_def listing_def split: sum.splits prod.splits)
  then show ?thesis using merges_refl [OF cl] by auto
qed

lemma publish_existing:
  assumes run: "publish fs n c (Existing h) st s = Some (r, t)" and cl: "closed (world s)"
    and st: "V (world s) [st, st] = None"
  shows "closed (world t) \<and>
    (\<forall>q. \<not> prefix [st] q \<longrightarrow> admitted kd st c (V (world s)) q (V (world t) q)) \<and>
    (r = Inr () \<longrightarrow> (\<forall>q. V (world t) q =
       (if prefix [st] q then None else overlay kd st (V (world s)) q)))"
  using run unfolding publish_def target.case
proof (cases rule: bindR_E)
  case (stop e)
  then have "V (world t) = V (world s)" using check_conflicts_view by (auto split: if_splits)
  then show ?thesis using stop cl by simp
next
  case (go a u)
  then have u: "V (world u) = V (world s)" using check_conflicts_view by (auto split: if_splits)
  from go(2) show ?thesis
  proof (cases rule: bindR_E)
    case (stop e)
    obtain r' k where "merge fs h [st] c n [] (u, 0) = Some (r', (t, k))" "r' \<noteq> Inr ()"
      using merge_all_E [OF stop(1)] by auto
    then show ?thesis
      using merge_root [of st c n "(u, 0)" r' "(t, k)"] cl st u stop by (simp add: merges_def)
  next
    case (go b v)
    obtain k where "merge fs h [st] c n [] (u, 0) = Some (Inr (), (v, k))"
      using merge_all_E [OF go(1)] by auto
    then have m: "merges kd st c UNIV (V (world s)) True (V (world v))"
      using merge_root [of st c n "(u, 0)" "Inr ()" "(v, k)"] cl st u by simp
    obtain r' where r': "remove_tree fs h n [st] (world v) = Some (r', world t)"
      "r = Inr () \<longleftrightarrow> r' = Inr ()"
      using remove_stage_E [OF go(2)] by auto
    have "closed (world v)" using m by (simp add: merges_def)
    then show ?thesis
      using remove_tree_spec [OF r'(1)] r'(2) m by (auto simp: shrinks_def merges_def)
  qed
qed

lemma publish_refused:
  assumes "publish fs n Refuse_collision (Existing h) st s = Some (r, t)" "closed (world s)"
    and "clash kd st (V (world s)) q" "q \<noteq> []"
  shows "V (world t) = V (world s) \<and> (\<exists>e. r = Inl e)"
  using assms(1) unfolding publish_def target.case if_True simp_thms(6)
proof (cases rule: bindR_E)
  case (stop e)
  then show ?thesis using check_conflicts_view by auto
next
  case (go a u)
  then have "\<not> clash kd st (V (world s)) q"
    using check_conflicts_clear [of st n "[]" s u q] assms(2,4) by (auto simp: strict_prefix_def)
  then show ?thesis using assms(3) by simp
qed

lemma publish_ends:
  assumes cl: "closed (world s)" and st: "V (world s) [st, st] = None" "dir_at kd (V (world s)) []"
    and deep: "\<And>q. V (world s) (st # q) \<noteq> None \<Longrightarrow> length q < n" and n: "0 < n"
  shows "publish fs n c (Existing h) st s \<noteq> None"
proof -
  have chk: "check_conflicts fs h [st] n [] s \<noteq> None"
    by (rule check_conflicts_ends [OF n]) (use deep in simp)
  have rest: "bindR (merge_all fs h [st] c n) (\<lambda>_.
      map_errR (\<lambda>e _. from_host e) (on_worldR (remove_tree fs h n [st]))) u \<noteq> None"
    if u: "V (world u) = V (world s)" for u
  proof -
    have "merge fs h [st] c n [] (u, 0) \<noteq> None"
      by (rule merge_ends [OF n]) (use u cl st deep in auto)
    moreover have "remove_tree fs h n [st] (world v) \<noteq> None"
      if m: "merge_all fs h [st] c n u = Some (Inr (), v)" for v
    proof (rule remove_tree_ends [OF n])
      obtain k where "merge fs h [st] c n [] (u, 0) = Some (Inr (), (v, k))"
        using merge_all_E [OF m] by auto
      then have mm: "merges kd st c UNIV (V (world s)) True (V (world v))"
        using merge_root [of st c n "(u, 0)" "Inr ()" "(v, k)"] cl st u by simp
      then show "closed (world v)" by (simp add: merges_def)
      show "length q < length [st] + n" 
        if pre: "prefix [st] q" and at: "V (world v) q \<noteq> None" for q
      proof -
        obtain z where z: "q = st # z" using pre by (cases q) auto
        then have "V (world s) (st # z) \<noteq> None" using mm at by (auto simp: merges_def)
        then show ?thesis using deep z by fastforce
      qed
    qed
    ultimately show ?thesis by (auto simp: bindR_None merge_all_None remove_stage_None simp del: not_None_eq)
  qed
  let ?first = "if c = Refuse_collision then check_conflicts fs h [st] n [] else liftR (retS ())"
  let ?rest = "bindR (merge_all fs h [st] c n) (\<lambda>_.
      map_errR (\<lambda>e _. from_host e) (on_worldR (remove_tree fs h n [st])))"
  show ?thesis
  proof
    assume "publish fs n c (Existing h) st s = None"
    then have "?first s = None \<or> (\<exists>a u. ?first s = Some (Inr a, u) \<and> ?rest u = None)"
      unfolding publish_def target.case bindR_None [of ?first] .
    then show False
    proof (elim disjE exE conjE)
      assume "?first s = None"
      then show ?thesis using chk by (simp split: if_splits)
    next
      fix a u
      assume u: "?first s = Some (Inr a, u)" "?rest u = None"
      then have "V (world u) = V (world s)" using check_conflicts_view by (auto split: if_splits)
      then show ?thesis using rest u(2) by blast
    qed
  qed
qed

end

section \<open>Refusing to overwrite\<close>

text \<open>
  What is promised of the entries outside the stage \<open>st\<close>: those that were there stay as they were.
\<close>

definition intact :: "('i \<Rightarrow> file_kind) \<Rightarrow> u8 list \<Rightarrow> 'i view_of \<Rightarrow> 'i view_of \<Rightarrow> bool" where
  "intact kd st U U' \<longleftrightarrow> closed_view kd U' \<and> (\<forall>q. \<not> prefix [st] q \<longrightarrow> U q \<noteq> None \<longrightarrow> U' q = U q)"

lemma intact_refl: "closed_view kd U \<Longrightarrow> intact kd st U U"
  by (simp add: intact_def)

lemma intact_trans: "intact kd st U U1 \<Longrightarrow> intact kd st U1 U2 \<Longrightarrow> intact kd st U U2"
  unfolding intact_def by metis

lemma intact_closed: "intact kd st U U' \<Longrightarrow> closed_view kd U'"
  by (simp add: intact_def)

lemma intact_moved:
  assumes "closed_view kd U" "U p = None" "p \<noteq> []" "dir_at kd U (butlast p)"
  shows "intact kd st U (moved (st # p) p U)"
proof -
  have "\<not> prefix (st # p) p" by (auto dest: prefix_length_le)
  then have "closed_view kd (moved (st # p) p U)" using closed_moved [OF assms(1,3,4)] by blast
  moreover have "moved (st # p) p U q = U q" if "\<not> prefix [st] q" "U q \<noteq> None" for q
  proof -
    have "\<not> prefix p q" using closed_above [OF assms(1) that(2)] assms(2) by blast
    moreover have "\<not> prefix (st # p) q" using that(1) by (cases q) auto
    ultimately show ?thesis by (simp add: moved_def)
  qed
  ultimately show ?thesis by (simp add: intact_def)
qed

context host_directory
begin

lemma merge_entry_intact:
  assumes run: "merge_entry fs h [st] Refuse_collision descend p k s = Some (r, t)"
    and sub: "\<And>u. descend p u = Some (r, t) \<Longrightarrow> closed (world (fst u)) \<Longrightarrow>
      intact kd st (V (world (fst u))) (V (world (fst t)))"
    and cl: "closed (world (fst s))"
  shows "intact kd st (V (world (fst s))) (V (world (fst t)))"
  using run unfolding merge_entry_def
proof (cases rule: bindR_E)
  case (stop e)
  then have "V (world (fst t)) = V (world (fst s))" using on_cursor_world by (fastforce simp: on_run_eq)
  then show ?thesis using intact_refl [OF cl] by simp
next
  case (go a s1)
  have v1: "V (world (fst s1)) = V (world (fst s))"
    using go(1) on_cursor_world by (fastforce simp: on_run_eq)
  from go(2) show ?thesis
  proof (cases rule: bindR_E)
    case (stop e)
    then show ?thesis by (auto simp: on_world_eq on_run_eq)
  next
    case (go found s2)
    have v2: "V (world (fst s2)) = V (world (fst s))"
      using metadata_on_run [OF go(1) [unfolded liftR_Some]] unfolding v1 by simp
    have moved: "intact kd st (V (world (fst s))) (V (world (fst t)))"
      if "move_entry fs h [st] p No_replace s2 = (r, t)"
      using move_entry_new [OF that] intact_moved [OF cl, of p st] intact_refl [OF cl] v2 by auto
    show ?thesis
      using go(2) moved sub [of s2] intact_refl [OF cl, of st] cl v2
      by (auto split: sum.splits prod.splits if_splits)
  qed
qed

lemma merge_entries_intact:
  assumes tree: "\<And>rel s r t. merge fs h [st] Refuse_collision n rel s = Some (r, t) \<Longrightarrow>
      closed (world (fst s)) \<Longrightarrow> intact kd st (V (world (fst s))) (V (world (fst t)))"
  shows "merge_entries fs h [st] Refuse_collision n rel es s = Some (r, t) \<Longrightarrow>
      closed (world (fst s)) \<Longrightarrow> intact kd st (V (world (fst s))) (V (world (fst t)))"
proof (induction es arbitrary: s)
  case Nil
  then show ?case by (simp add: intact_refl)
next
  case (Cons e es)
  obtain x k where e: "e = (x, k)" by (cases e)
  from Cons.prems(1) show ?case
    unfolding e merge_entries.simps
  proof (cases rule: bindR_E)
    case (stop err)
    then show ?thesis using merge_entry_intact tree Cons.prems(2) by blast
  next
    case (go a s1)
    then have "intact kd st (V (world (fst s))) (V (world (fst s1)))"
      using merge_entry_intact tree Cons.prems(2) by blast
    then show ?thesis using Cons.IH [OF go(2)] intact_trans intact_closed by blast
  qed
qed

lemma merge_intact:
  "merge fs h [st] Refuse_collision n rel s = Some (r, t) \<Longrightarrow> closed (world (fst s)) \<Longrightarrow>
     intact kd st (V (world (fst s))) (V (world (fst t)))"
proof (induction n arbitrary: rel s r t)
  case (Suc n)
  from Suc.prems(1) show ?case
    unfolding merge.simps
  proof (cases rule: bindR_E)
    case (stop e)
    then have "V (world (fst t)) = V (world (fst s))" using entries_listed by (auto simp: on_run_eq)
    then show ?thesis using intact_refl [OF Suc.prems(2)] by simp
  next
    case (go es u)
    then have v: "V (world (fst u)) = V (world (fst s))"
      using entries_listed by (auto simp: on_run_eq)
    show ?thesis
      using merge_entries_intact [OF Suc.IH go(2)] Suc.prems(2) v by simp
  qed
qed simp

lemma shrinks_intact: "shrinks [st] U U' \<Longrightarrow> intact kd st U U'"
  by (simp add: shrinks_def intact_def)

lemma publish_intact:
  assumes run: "publish fs n Refuse_collision (Existing h) st s = Some (r, t)" and cl: "closed (world s)"
  shows "intact kd st (V (world s)) (V (world t))"
  using run unfolding publish_def target.case if_True simp_thms(6)
proof (cases rule: bindR_E)
  case (stop e)
  then show ?thesis using check_conflicts_view intact_refl [OF cl] by simp
next
  case (go a u)
  then have u: "V (world u) = V (world s)" using check_conflicts_view by blast
  have merged: "intact kd st (V (world s)) (V (world v))"
    if "merge_all fs h [st] Refuse_collision n u = Some (x, v)" for x v
    using that merge_intact [of st n "[]" "(u, 0)"] u cl by (elim merge_all_E) fastforce
  from go(2) show ?thesis
  proof (cases rule: bindR_E)
    case (stop e)
    then show ?thesis using merged by blast
  next
    case (go b v)
    obtain r' where r': "remove_tree fs h n [st] (world v) = Some (r', world t)"
      using remove_stage_E [OF go(2)] by auto
    have v: "intact kd st (V (world s)) (V (world v))" using merged [OF go(1)] .
    then show ?thesis
      using remove_tree_spec [OF r' intact_closed [OF v]] shrinks_intact intact_trans by blast
  qed
qed

end

end
