(* ===== verification/Xsh_Publish_Correct.thy ===== *)
theory Xsh_Publish_Correct
  imports Xsh_Merge_Correct
begin

text \<open>
  The whole extraction beneath a directory: the stage is opened (locale \<open>staging_host\<close>), filled,
  finished or published, and removed on every error; missing parents of the destination are made
  and removed again. A \<open>disk\<close>, a list of paths with what is there, is an instance of both
  locales; the properties are stated for every host that keeps their laws and are applied to it.
\<close>

section \<open>The stage of an extraction\<close>

text \<open>
  The stage is opened inside the directory; what is done through its handle keeps the tree a tree
  and stays below the stage. \<open>Root\<close> refuses every path that is not plain, hence the second law.
\<close>

abbreviation outside_same :: "('i \<Rightarrow> file_kind) \<Rightarrow> u8 list \<Rightarrow> 'i view_of \<Rightarrow> 'i view_of \<Rightarrow> bool" where
  "outside_same kd nm U U' \<equiv> closed_view kd U' \<and> (\<forall>q. \<not> prefix [nm] q \<longrightarrow> U' q = U q)"

locale staging_host = host_directory fs h V kd
  for fs :: "('h, 'w) host_fs" and h :: 'h and V :: "'w \<Rightarrow> 'i view_of" and kd :: "'i \<Rightarrow> file_kind" +
  assumes stage_keeps: "fs_open_dir fs h [nm] w = (Inr sh, w') \<Longrightarrow>
      stage_root (fs_stage fs sh) (\<lambda>w. outside_same kd nm U (V w)) (\<lambda>_. True)"
    and stage_mode: "fs_open_dir fs h [nm] w = (Inr sh, w') \<Longrightarrow>
      keeps (\<lambda>w. outside_same kd nm U (V w)) (op_set_mode (fs_stage fs sh) p m)"

lemma run_extract_keeps:
  assumes st: "stage_root r I (\<lambda>_. True)"
    and fin: "\<And>s. I (world s) \<Longrightarrow> I (world (snd (finish s)))"
    and pubs: "\<And>s. I (world s) \<Longrightarrow> I (world (snd (pub s)))"
    and w: "I (world s)"
  shows "I (world (snd (run_extract r finish pub p filters s)))"
proof -
  obtain x s1 where s1: "stage_all r p filters s = (x, s1)" by (cases "stage_all r p filters s")
  have w1: "I (world s1)" using stage_all_keeps [OF st w, of p filters] s1 by simp
  obtain y s2 where s2: "on_cursor (on_budget checkpoint) s1 = (y, s2)"
    by (cases "on_cursor (on_budget checkpoint) s1")
  have w2: "I (world s2)" using w1 on_cursor_world [OF s2] by simp
  obtain z s3 where s3: "finish s2 = (z, s3)" by (cases "finish s2")
  have w3: "I (world s3)" using fin [OF w2] s3 by simp
  show ?thesis
    using s1 s2 s3 w1 w2 w3 pubs [OF w3]
    by (cases x; cases y; cases z; cases "pub s3")
      (auto simp: run_extract_def bindS_def Let_def split: sum.splits)
qed

lemma set_modes_keeps:
  "(\<And>p m. keeps I (op_set_mode r p m)) \<Longrightarrow> I (world s) \<Longrightarrow>
     I (world (snd (set_modes r merged dirs s)))"
proof (induction r merged dirs arbitrary: s rule: set_modes.induct)
  case (2 r merged path m rest)
  obtain x w where x: "op_set_mode r path m (world s) = (x, w)" by (cases "op_set_mode r path m (world s)")
  have "I w" using keepsD [OF 2(3) 2(4), of path m] x by simp
  then have "I (world (snd (set_modes r merged rest (s\<lparr>world := w\<rparr>))))" if "path \<notin> merged"
    using 2(2) [OF that 2(3)] by simp
  then show ?case
    using 2(1) [OF _ 2(3,4)] \<open>I w\<close> x by (cases x) (auto simp: bindS_def map_errS_def on_world_def)
qed simp

context staging_host
begin

lemma existing_directories_view:
  "existing_directories fs h dirs w = (r, w') \<Longrightarrow> V w' = V w"
proof (induction dirs arbitrary: w r w')
  case (Cons d dirs)
  obtain p m where d: "d = (p, m)" by (cases d)
  obtain x w1 where x: "fs_metadata fs h p w = (x, w1)" by (cases "fs_metadata fs h p w")
  obtain y w2 where y: "existing_directories fs h dirs w1 = (y, w2)"
    by (cases "existing_directories fs h dirs w1")
  have "w' = w2" using Cons.prems x y by (cases y) (auto simp: d bindS_def attempt_def)
  then show ?case using Cons.IH [OF y] metadata [OF x] by simp
qed simp

lemma set_mode_outside:
  assumes "fs_set_mode fs h [nm] m w = (r, w')" "outside_same kd nm U (V w)"
  shows "outside_same kd nm U (V w')"
  using set_mode_shrinks [OF assms(1)] assms(2) by (auto simp: shrinks_def)

lemma finish_placement_keeps:
  assumes op: "fs_open_dir fs h [nm] w0 = (Inr sh, w0')" and pl: "holder (target pl) = h" "stage_name pl = Some nm"
    and s: "outside_same kd nm U (V (world s))"
  shows "outside_same kd nm U (V (world (snd (finish_placement fs pl sh s))))"
proof -
  let ?I = "\<lambda>w. outside_same kd nm U (V w)"
  obtain merged s1 where s1: "(case target pl of
        Existing destination \<Rightarrow> on_world (existing_directories fs destination
          (map (\<lambda>path. (path, 0x1ED)) (sorted_list_of_set (implicit_dirs s)) @ explicit_dirs s))
      | Fresh parent leaf m \<Rightarrow> retS {}) s = (merged, s1)" (is "?first s = _")
    by (cases "?first s")
  have w1: "?I (world s1)"
    using s1 s pl(1) existing_directories_view
    by (cases "target pl") (auto simp: on_world_eq)
  obtain y s2 where s2: "finish_directories (fs_stage fs sh) (case merged of Inr a \<Rightarrow> a | Inl e \<Rightarrow> {}) s1 = (y, s2)"
    by (cases "finish_directories (fs_stage fs sh) (case merged of Inr a \<Rightarrow> a | Inl e \<Rightarrow> {}) s1")
  have w2: "?I (world s2)"
    using set_modes_keeps [of ?I "fs_stage fs sh" s1, OF stage_mode [OF op] w1] s2
    unfolding finish_directories_def by (metis (no_types) snd_conv)
  show ?thesis
    using s1 s2 w1 w2 pl unfolding finish_placement_def bindS_def
    by (cases "target pl"; cases merged; cases y)
      (auto simp: map_errS_def on_world_def split: prod.splits sum.splits dest: set_mode_outside)
qed

end

section \<open>The whole extraction\<close>

context staging_host
begin

lemma open_stage_spec:
  "open_stage fs pid k pl s = (r, pl', s') \<Longrightarrow> holder (target pl) = h \<Longrightarrow>
     target pl' = target pl \<and> created_ancestors pl' = created_ancestors pl \<and>
     (stage_name pl' = stage_name pl \<and> V (hworld s') = V (hworld s) \<and> (\<exists>e. r = Inl e) \<or>
      (\<exists>nm i w w'. stage_name pl' = Some nm \<and> V (hworld s) [nm] = None \<and> kd i = Dir \<and>
         dir_at kd (V (hworld s)) [] \<and> V (hworld s') = (V (hworld s))([nm] \<mapsto> i) \<and>
         (\<forall>sh. r = Inr sh \<longrightarrow> fs_open_dir fs h [nm] w = (Inr sh, w'))))"
proof (induction k arbitrary: s)
  case (Suc k)
  let ?nm = "unique_name ''.xsh-archive-'' pid (stage_counter s)"
  obtain x w where x: "fs_mkdir fs h [?nm] 0x1C0 (hworld s) = (x, w)"
    by (cases "fs_mkdir fs h [?nm] 0x1C0 (hworld s)")
  show ?case
  proof (cases x)
    case (Inl e)
    then have "V w = V (hworld s)" using mkdir [OF x] by simp
    then show ?thesis
      using Suc.prems x Inl Suc.IH [of "s\<lparr>stage_counter := stage_counter s + 1, hworld := w\<rparr>"]
      by (auto simp: Let_def split: if_splits)
  next
    case (Inr u)
    obtain i where i: "V (hworld s) [?nm] = None" "dir_at kd (V (hworld s)) []" "kd i = Dir"
      "V w = (V (hworld s))([?nm] \<mapsto> i)"
      using mkdir [OF x] Inr by auto
    obtain y w' where y: "fs_open_dir fs h [?nm] w = (y, w')" by (cases "fs_open_dir fs h [?nm] w")
    have res: "r = (case y of Inl e \<Rightarrow> Inl (from_host e) | Inr h \<Rightarrow> Inr h)" "stage_name pl' = Some ?nm"
      "target pl' = target pl" "created_ancestors pl' = created_ancestors pl" "hworld s' = w'"
      using Suc.prems x y Inr by (auto simp: Let_def)
    have "V w' = (V (hworld s))([?nm] \<mapsto> i)" using open_dir [OF y] i(4) by simp
    moreover have "\<forall>sh. r = Inr sh \<longrightarrow> fs_open_dir fs h [?nm] w = (Inr sh, w')"
      using res(1) y by (auto split: sum.splits)
    ultimately show ?thesis using res i by blast
  qed
qed auto

lemma rename_stage:
  assumes "fs_rename fs h [nm] [leaf] No_replace w = (r, w')" "closed w"
  shows "(r = Inr () \<longrightarrow> V w [leaf] = None \<and> V w' = moved [nm] [leaf] (V w)) \<and>
    (r \<noteq> Inr () \<longrightarrow> V w' = V w)"
  using rename_new [OF assms(1)] by (cases r) auto

text \<open>What is known after the run, for either kind of target.\<close>

lemma run_placed_outside:
  assumes run: "run_placed fs n pl nm sh p filters s = Some (r, t)"
    and op: "fs_open_dir fs h [nm] w0 = (Inr sh, w0')" and pl: "holder (target pl) = h" "stage_name pl = Some nm"
    and s: "outside_same kd nm U (V (world s))"
  shows "\<exists>s1. outside_same kd nm U (V (world s1)) \<and>
    ((\<exists>e. r = Inl e) \<and> V (world t) = V (world s1) \<or>
     (\<exists>x. publish fs n (collision p) (target pl) nm s1 = Some (x, t) \<and> (x = Inr () \<longleftrightarrow> \<not> isl r)))"
proof -
  let ?I = "\<lambda>w. outside_same kd nm U (V w)"
  have keep: "?I (world (snd (run_extract (fs_stage fs sh) (finish_placement fs pl sh) (retS ()) p filters s)))"
    by (rule run_extract_keeps [where I = ?I, OF stage_keeps [OF op] finish_placement_keeps [OF op pl] _ s]) auto
  from run show ?thesis
    unfolding run_placed_def
  proof (cases rule: bindR_E)
    case (stop e)
    then show ?thesis using keep by auto
  next
    case (go a s1)
    then have "?I (world s1)" using keep by simp
    moreover have "\<exists>x. publish fs n (collision p) (target pl) nm s1 = Some (x, t) \<and> (x = Inr () \<longleftrightarrow> \<not> isl r)"
      using go(2) by (cases rule: bindR_E) auto
    ultimately show ?thesis by blast
  qed
qed

lemma abort_outside:
  assumes run: "aborted fs n pl e w = Some (r, w')" and cl: "closed w"
    and pl: "holder (target pl) = h" "created_ancestors pl = None"
  shows "(\<exists>e'. r = Inl e') \<and>
    (case stage_name pl of None \<Rightarrow> V w' = V w | Some nm \<Rightarrow> shrinks [nm] (V w) (V w'))"
proof -
  have "stage_name pl = Some nm \<Longrightarrow> \<exists>x. remove_tree fs h n [nm] w = Some (x, w')" for nm
    using run pl unfolding aborted_def abort_def
    by (auto simp: bindR_def liftR_def split: option.splits prod.splits sum.splits if_splits)
  then have "stage_name pl = Some nm \<Longrightarrow> shrinks [nm] (V w) (V w')" for nm
    using remove_tree_spec cl by blast
  moreover have "stage_name pl = None \<Longrightarrow> w' = w"
    using run pl unfolding aborted_def abort_def
    by (auto simp: bindR_def liftR_def split: option.splits prod.splits sum.splits if_splits)
  moreover have "\<exists>e'. r = Inl e'"
    using run unfolding aborted_def by (auto split: option.splits prod.splits sum.splits)
  ultimately show ?thesis by (auto split: option.splits)
qed


text \<open>The run of a placement, split at the opening of the stage.\<close>

lemma extract_placed_E:
  assumes run: "extract_placed fs pid n p filters c
      \<lparr>target = tg, created_ancestors = None, stage_name = None\<rparr> s = Some (r, s')"
    and tg: "holder tg = h"
    and cl: "closed (hworld s)"
  obtains (unopened) "\<exists>e. r = Inl e" "V (hworld s') = V (hworld s)"
    | (unstaged) nm where "\<exists>e. r = Inl e" "V (hworld s) [nm] = None"
        "outside_same kd nm (V (hworld s)) (V (hworld s'))"
    | (staged) nm w0 w0' sh pl t r1 where "V (hworld s) [nm] = None"
        "fs_open_dir fs h [nm] w0 = (Inr sh, w0')" "target pl = tg" "stage_name pl = Some nm"
        "run_placed fs n pl nm sh p filters t = Some r1"
        "outside_same kd nm (V (hworld s)) (V (world t))"
        "(\<exists>rep. fst r1 = Inr rep) \<and> r = fst r1 \<and> hworld s' = world (snd r1) \<or>
         (\<exists>e. fst r1 = Inl e \<and> aborted fs n pl e (world (snd r1)) = Some (r, hworld s')) \<and>
         holder (target pl) = h \<and> created_ancestors pl = None"
proof -
  let ?pl0 = "\<lparr>target = tg, created_ancestors = None, stage_name = None\<rparr>"
  have pl0: "holder (target ?pl0) = h" "created_ancestors ?pl0 = None" "stage_name ?pl0 = None"
    using tg by simp_all
  obtain x pl s1 where os: "open_stage fs pid 16 ?pl0 s = (x, pl, s1)"
    by (cases "open_stage fs pid 16 ?pl0 s")
  note spec = open_stage_spec [OF os pl0(1)]
  have out: "outside_same kd nm (V (hworld s)) ((V (hworld s))([nm] \<mapsto> i))"
    if "V (hworld s) [nm] = None" "kd i = Dir" "dir_at kd (V (hworld s)) []" for nm i
    using closed_insert [OF cl, of "[nm]" i] that by auto
  show ?thesis
  proof (cases x)
    case (Inl e)
    have ab: "aborted fs n pl e (hworld s1) = Some (r, hworld s')"
      using run os Inl by (auto simp: extract_placed_def split: option.splits prod.splits)
    show ?thesis
    proof (cases "stage_name pl")
      case None
      then have v1: "V (hworld s1) = V (hworld s)" using spec by auto
      have "V (hworld s') = V (hworld s)" "\<exists>e. r = Inl e"
        using abort_outside [OF ab] v1 cl spec pl0 None by auto
      then show ?thesis using unopened by blast
    next
      case (Some nm)
      then obtain i where i: "V (hworld s) [nm] = None" "kd i = Dir" "dir_at kd (V (hworld s)) []"
        "V (hworld s1) = (V (hworld s))([nm] \<mapsto> i)"
        using spec pl0(3) by auto
      have o1: "outside_same kd nm (V (hworld s)) (V (hworld s1))" using out i by simp
      have "shrinks [nm] (V (hworld s1)) (V (hworld s'))" "\<exists>e. r = Inl e"
        using abort_outside [OF ab] o1 spec pl0 Some by auto
      then show ?thesis using unstaged [OF _ i(1)] o1 by (auto simp: shrinks_def)
    qed
  next
    case (Inr sh)
    then obtain nm i w0 w0' where i: "stage_name pl = Some nm" "V (hworld s) [nm] = None" "kd i = Dir"
      "dir_at kd (V (hworld s)) []" "V (hworld s1) = (V (hworld s))([nm] \<mapsto> i)"
      "fs_open_dir fs h [nm] w0 = (Inr sh, w0')"
      using spec by auto
    let ?t = "fresh_state (hworld s1) c"
    have o1: "outside_same kd nm (V (hworld s)) (V (world ?t))"
      using out i by (simp add: fresh_state_def)
    obtain r1 where r1: "run_placed fs n pl nm sh p filters ?t = Some r1"
      using run os Inr i(1) by (cases "run_placed fs n pl nm sh p filters ?t") (auto simp: extract_placed_def)
    have "(\<exists>rep. fst r1 = Inr rep) \<and> r = fst r1 \<and> hworld s' = world (snd r1) \<or>
         (\<exists>e. fst r1 = Inl e \<and> aborted fs n pl e (world (snd r1)) = Some (r, hworld s')) \<and>
         holder (target pl) = h \<and> created_ancestors pl = None"
      using run os Inr i(1) r1 spec pl0
      by (cases r1; cases "fst r1") (auto simp: extract_placed_def)
    moreover have "target pl = tg" using spec by simp
    ultimately show ?thesis using staged [OF i(2,6) _ i(1) r1 o1] by blast
  qed
qed

lemma under_stage_none: "closed_view kd U \<Longrightarrow> U [nm] = None \<Longrightarrow> prefix [nm] q \<Longrightarrow> U q = None"
  using closed_above by blast

lemma outside_intact: "outside_same kd nm U U' \<Longrightarrow> intact kd nm U U'"
  by (simp add: intact_def)

lemma intact_all:
  assumes "intact kd nm U U'" "closed_view kd U" "U [nm] = None" "U q \<noteq> None"
  shows "U' q = U q"
proof -
  have "\<not> prefix [nm] q" using under_stage_none [OF assms(2,3), of q] assms(4) by blast
  then show ?thesis using assms(1,4) by (simp add: intact_def)
qed

lemma extract_existing:
  assumes run: "extract_placed fs pid n p filters c
      \<lparr>target = Existing h, created_ancestors = None, stage_name = None\<rparr> s = Some (r, s')"
    and cl: "closed (hworld s)" and p: "collision p = Refuse_collision" and q: "V (hworld s) q \<noteq> None"
  shows "V (hworld s') q = V (hworld s) q"
  using run holder.simps(2) cl
proof (cases rule: extract_placed_E)
  case (unstaged nm)
  then show ?thesis using intact_all [OF outside_intact cl _ q] by simp
next
  case (staged nm w0 w0' sh pl t r1)
  obtain r2 t' where r1: "r1 = (r2, t')" by (cases r1)
  have pl: "holder (target pl) = h" "stage_name pl = Some nm" using staged by simp_all
  obtain s1 where s1: "outside_same kd nm (V (hworld s)) (V (world s1))"
    "(\<exists>e. r2 = Inl e) \<and> V (world t') = V (world s1) \<or>
     (\<exists>x. publish fs n (collision p) (target pl) nm s1 = Some (x, t') \<and> (x = Inr () \<longleftrightarrow> \<not> isl r2))"
    using run_placed_outside [OF _ staged(2) pl staged(6)] staged(5) r1 by blast
  have t': "intact kd nm (V (hworld s)) (V (world t'))"
    using s1(2)
  proof (elim disjE exE conjE)
    fix x assume "publish fs n (collision p) (target pl) nm s1 = Some (x, t')"
    then show ?thesis
      using publish_intact [of n nm s1 x t'] s1(1) p staged(3) intact_trans [OF outside_intact [OF s1(1)]]
      by simp
  qed (use outside_intact [OF s1(1)] in simp)
  have "intact kd nm (V (hworld s)) (V (hworld s'))"
    using staged(7)
  proof (elim disjE exE conjE)
    fix e assume "aborted fs n pl e (world (snd r1)) = Some (r, hworld s')"
      "holder (target pl) = h" "created_ancestors pl = None"
    then have "shrinks [nm] (V (world t')) (V (hworld s'))"
      using abort_outside [of n pl e "world t'" r "hworld s'"] intact_closed [OF t'] r1 pl(2) by simp
    then show ?thesis using intact_trans [OF t'] shrinks_intact by blast
  qed (use t' r1 in simp)
  then show ?thesis using intact_all cl staged(1) q by blast
qed (use cl in simp_all)

lemma extract_fresh:
  assumes run: "extract_placed fs pid n p filters c
      \<lparr>target = Fresh h leaf m, created_ancestors = None, stage_name = None\<rparr> s = Some (r, s')"
    and cl: "closed (hworld s)"
  shows "case r of
       Inl e \<Rightarrow> V (hworld s') = V (hworld s) \<or>
         (\<exists>nm. V (hworld s) [nm] = None \<and> outside_same kd nm (V (hworld s)) (V (hworld s')))
     | Inr rep \<Rightarrow> V (hworld s) [leaf] = None \<and>
         (\<exists>nm W. V (hworld s) [nm] = None \<and> outside_same kd nm (V (hworld s)) W \<and>
            V (hworld s') = moved [nm] [leaf] W)"
  using run holder.simps(1) cl
proof (cases rule: extract_placed_E)
  case unopened
  then show ?thesis by auto
next
  case (unstaged nm)
  then show ?thesis by auto
next
  case (staged nm w0 w0' sh pl t r1)
  obtain r2 t' where r1: "r1 = (r2, t')" by (cases r1)
  have pl: "holder (target pl) = h" "stage_name pl = Some nm" using staged by simp_all
  obtain s1 where s1: "outside_same kd nm (V (hworld s)) (V (world s1))"
    "(\<exists>e. r2 = Inl e) \<and> V (world t') = V (world s1) \<or>
     (\<exists>x. publish fs n (collision p) (target pl) nm s1 = Some (x, t') \<and> (x = Inr () \<longleftrightarrow> \<not> isl r2))"
    using run_placed_outside [OF _ staged(2) pl staged(6)] staged(5) r1 by blast
  have ren: "\<exists>y w'. fs_rename fs h [nm] [leaf] No_replace (world s1) = (y, w') \<and> world t' = w' \<and>
      (x = Inr () \<longleftrightarrow> y = Inr ())"
    if "publish fs n (collision p) (target pl) nm s1 = Some (x, t')" for x
    using that staged(3)
    by (cases "fs_rename fs h [nm] [leaf] No_replace (world s1)";
        cases "fst (fs_rename fs h [nm] [leaf] No_replace (world s1))")
      (auto simp: publish_def map_errS_def on_world_def)
  show ?thesis
  proof (cases r2)
    case (Inl e)
    have "V (world t') = V (world s1)"
      using s1 ren Inl rename_stage [of nm leaf "world s1"] by fastforce
    then have o: "outside_same kd nm (V (hworld s)) (V (world t'))" using s1(1) by simp
    have ab: "aborted fs n pl e (world t') = Some (r, hworld s')" "holder (target pl) = h"
      "created_ancestors pl = None"
      using staged(7) r1 Inl by auto
    have "shrinks [nm] (V (world t')) (V (hworld s'))" "\<exists>e'. r = Inl e'"
      using abort_outside [OF ab(1) _ ab(2,3)] o pl(2) by auto
    then show ?thesis using o staged(1) by (auto simp: shrinks_def)
  next
    case (Inr rep)
    then have r: "r = Inr rep" "hworld s' = world t'" using staged(7) r1 by auto
    obtain w' where w': "fs_rename fs h [nm] [leaf] No_replace (world s1) = (Inr (), w')" "world t' = w'"
      using s1(2) ren Inr by auto
    have m: "V (world s1) [leaf] = None" "V w' = moved [nm] [leaf] (V (world s1))" "nm \<noteq> leaf"
      using rename_new [OF w'(1)] by auto
    have "V (hworld s) [leaf] = None" using m(1,3) s1(1) by simp
    then show ?thesis using r m(2) s1(1) staged(1) w'(2) by auto
  qed
qed

end

section \<open>Missing parents\<close>

definition pruned :: "components list \<Rightarrow> 'i view_of \<Rightarrow> 'i view_of" where
  "pruned ps U q = (if q \<in> set ps then None else U q)"

text \<open>The directories made below a prefix, from the top.\<close>

fun prefixes_of :: "components \<Rightarrow> components \<Rightarrow> components list" where
  "prefixes_of pre [] = []"
| "prefixes_of pre (x # xs) = (pre @ [x]) # prefixes_of (pre @ [x]) xs"

context host_directory
begin

lemma remove_ancestors_spec:
  "remove_ancestors fs h ps w = (r, w') \<Longrightarrow> \<exists>fl. r = Inr fl \<and> (fl = [] \<longrightarrow> V w' = pruned ps (V w))"
proof (induction ps arbitrary: w r w')
  case Nil
  then show ?case by (auto simp: pruned_def)
next
  case (Cons p ps)
  obtain x w1 where x: "fs_remove_dir fs h p w = (x, w1)" by (cases "fs_remove_dir fs h p w")
  obtain y w2 where y: "remove_ancestors fs h ps w1 = (y, w2)" by (cases "remove_ancestors fs h ps w1")
  obtain fl where fl: "y = Inr fl" "fl = [] \<longrightarrow> V w2 = pruned ps (V w1)" using Cons.IH [OF y] by blast
  show ?case
    using Cons.prems x y fl remove_dir [OF x]
    by (cases x) (auto simp: bindS_def attempt_def pruned_def fun_eq_iff)
qed

lemma rolled_back_spec:
  assumes "rolled_back fs \<lparr>anchor = h, relative = made\<rparr> e w = (r, w')"
  shows "\<exists>e'. r = Inl e' \<and> (e' = e \<and> V w' = pruned made (V w) \<or> (\<exists>cleanup. e' = with_cleanup cleanup e))"
proof -
  obtain y w2 where y: "remove_ancestors fs h (rev made) w = (y, w2)"
    by (cases "remove_ancestors fs h (rev made) w")
  obtain fl where "y = Inr fl" "fl = [] \<longrightarrow> V w2 = pruned (rev made) (V w)"
    using remove_ancestors_spec [OF y] by blast
  then show ?thesis
    using assms y
    by (auto simp: rolled_back_def rollback_def bindS_def attempt_def pruned_def fun_eq_iff
        split: if_splits)
qed

lemma make_ancestors_spec:
  "make_ancestors fs h pre made rest w = (r, w') \<Longrightarrow> closed w \<Longrightarrow>
     (case r of
        Inr c \<Rightarrow> anchor c = h \<and> relative c = made @ prefixes_of pre rest \<and> closed w' \<and>
          (\<forall>q. q \<notin> set (prefixes_of pre rest) \<longrightarrow> V w' q = V w q) \<and>
          (\<forall>q \<in> set (prefixes_of pre rest). V w q = None \<and> dir_at kd (V w') q)
      | Inl e \<Rightarrow> V w' = pruned made (V w) \<or> (\<exists>cleanup e'. e = with_cleanup cleanup e'))"
proof (induction rest arbitrary: pre made w)
  case Nil
  then show ?case by auto
next
  case (Cons x rest)
  let ?p = "pre @ [x]"
  obtain y w1 where y: "fs_mkdir fs h ?p 0x1FF w = (y, w1)" by (cases "fs_mkdir fs h ?p 0x1FF w")
  show ?case
  proof (cases y)
    case (Inl e)
    then have "rolled_back fs \<lparr>anchor = h, relative = made\<rparr> (from_open e) w1 = (r, w')"
      using Cons.prems(1) y by (simp add: bindS_def attempt_def)
    then show ?thesis using rolled_back_spec mkdir [OF y] Inl by fastforce
  next
    case (Inr u)
    obtain i where i: "V w ?p = None" "dir_at kd (V w) pre" "kd i = Dir" "V w1 = (V w)(?p \<mapsto> i)"
      using mkdir [OF y] Inr by auto
    have c1: "closed w1" using closed_insert [OF Cons.prems(2), of ?p i] i by simp
    have "make_ancestors fs h ?p (made @ [?p]) rest w1 = (r, w')"
      using Cons.prems(1) y Inr by (simp add: bindS_def attempt_def)
    note IH = Cons.IH [OF this c1]
    show ?thesis
    proof (cases r)
      case (Inl e)
      have "pruned (made @ [?p]) (V w1) = pruned made (V w)"
        using i(1,4) by (auto simp: pruned_def fun_eq_iff)
      then show ?thesis using IH Inl by simp
    next
      case (Inr c)
      then have c: "anchor c = h" "relative c = made @ ?p # prefixes_of ?p rest" "closed w'"
        "\<forall>q. q \<notin> set (prefixes_of ?p rest) \<longrightarrow> V w' q = V w1 q"
        "\<forall>q \<in> set (prefixes_of ?p rest). V w1 q = None \<and> dir_at kd (V w') q"
        using IH by auto
      have p: "?p \<notin> set (prefixes_of ?p rest)" using c(5) i(4) by auto
      then have "dir_at kd (V w') ?p" using c(4) i(3,4) by (simp add: dir_at_def)
      then show ?thesis
        using Inr c i p by (auto split: if_splits)
    qed
  qed
qed

end

section \<open>A disk\<close>

text \<open>
  An instance of the host: entries under absolute paths, handles that are absolute paths, and the
  errors a host gives for the calls the code makes.
\<close>

type_synonym disk = "(components \<times> staged) list"

definition absent :: io_error where
  "absent = Host NotFound ''No such file or directory''"

definition refused :: io_error where
  "refused = Host Other_io ''Operation not permitted''"

abbreviation disk_dir :: "disk \<Rightarrow> components \<Rightarrow> bool" where
  "disk_dir w p \<equiv> map_option staged_kind (map_of w p) = Some Dir"

definition disk_metadata :: "components \<Rightarrow> components \<Rightarrow> (disk, io_error, file_kind \<times> u32) op" where
  "disk_metadata h p w =
     (case map_of w (h @ p) of
        None \<Rightarrow> (Inl absent, w)
      | Some n \<Rightarrow> (Inr (staged_kind n, case n of Staged_dir m \<Rightarrow> m | Staged_file _ m \<Rightarrow> m | _ \<Rightarrow> 0x1FF), w))"

definition disk_add :: "components \<Rightarrow> components \<Rightarrow> staged \<Rightarrow> 'a \<Rightarrow> (disk, io_error, 'a) op" where
  "disk_add h p n a w =
     (if map_of w (h @ p) \<noteq> None then (Inl (Host AlreadyExists ''File exists''), w)
      else if p = [] \<or> \<not> disk_dir w (h @ butlast p) then (Inl absent, w)
      else (Inr a, (h @ p, n) # w))"

definition disk_set_mode :: "components \<Rightarrow> components \<Rightarrow> u32 \<Rightarrow> (disk, io_error, unit) op" where
  "disk_set_mode h p m w =
     (case map_of w (h @ p) of
        Some (Staged_dir _) \<Rightarrow> (Inr (), (h @ p, Staged_dir m) # w)
      | Some (Staged_file bs _) \<Rightarrow> (Inr (), (h @ p, Staged_file bs m) # w)
      | Some _ \<Rightarrow> (Inl refused, w)
      | None \<Rightarrow> (Inl absent, w))"

definition disk_delete :: "components \<Rightarrow> disk \<Rightarrow> disk" where
  "disk_delete p w = filter (\<lambda>(q, _). q \<noteq> p) w"

definition disk_names :: "components \<Rightarrow> disk \<Rightarrow> u8 list list" where
  "disk_names p w = remdups (map last (filter (\<lambda>q. q \<noteq> [] \<and> butlast q = p) (map fst w)))"

definition disk_remove_file :: "components \<Rightarrow> components \<Rightarrow> (disk, io_error, unit) op" where
  "disk_remove_file h p w =
     (case map_of w (h @ p) of
        None \<Rightarrow> (Inl absent, w)
      | Some n \<Rightarrow> if staged_kind n = Dir then (Inl refused, w) else (Inr (), disk_delete (h @ p) w))"

definition disk_remove_dir :: "components \<Rightarrow> components \<Rightarrow> (disk, io_error, unit) op" where
  "disk_remove_dir h p w =
     (if disk_dir w (h @ p) \<and> disk_names (h @ p) w = [] then (Inr (), disk_delete (h @ p) w)
      else (Inl refused, w))"

definition disk_read_dir :: "components \<Rightarrow> components \<Rightarrow> (disk, io_error, (u8 list \<times> file_kind) list) op" where
  "disk_read_dir h p w =
     (if disk_dir w (h @ p) then
        (Inr (List.map_filter (\<lambda>x. map_option (\<lambda>n. (x, staged_kind n)) (map_of w (h @ p @ [x])))
           (disk_names (h @ p) w)), w)
      else (Inl absent, w))"

definition disk_move :: "components \<Rightarrow> components \<Rightarrow> disk \<Rightarrow> disk" where
  "disk_move from to w =
     map (\<lambda>(q, n). (to @ drop (length from) q, n)) (filter (\<lambda>(q, n). prefix from q) w) @
     filter (\<lambda>(q, n). \<not> prefix from q \<and> \<not> prefix to q) w"

definition disk_rename ::
  "components \<Rightarrow> components \<Rightarrow> components \<Rightarrow> rename_mode \<Rightarrow> (disk, io_error, unit) op" where
  "disk_rename h p q how w =
     (if map_of w (h @ p) = None \<or> q = [] \<or> \<not> disk_dir w (h @ butlast q) then (Inl absent, w)
      else if prefix p q then (Inl refused, w)
      else
        (case map_of w (h @ q) of
           None \<Rightarrow> (Inr (), disk_move (h @ p) (h @ q) w)
         | Some n \<Rightarrow>
             if how = No_replace then (Inl (Host AlreadyExists ''File exists''), w)
             else if disk_dir w (h @ p) \<or> staged_kind n = Dir then (Inl refused, w)
             else (Inr (), disk_move (h @ p) (h @ q) w)))"

definition disk_open :: "components \<Rightarrow> components \<Rightarrow> (disk, io_error, components) op" where
  "disk_open h p w = (if disk_dir w (h @ p) then Inr (h @ p) else Inl absent, w)"

definition disk_store :: "components \<Rightarrow> components \<Rightarrow> u8 list \<Rightarrow> disk \<Rightarrow> disk" where
  "disk_store h p bs w =
     (case map_of w (h @ p) of
        Some (Staged_file _ m) \<Rightarrow> (h @ p, Staged_file bs m) # w
      | _ \<Rightarrow> w)"

definition disk_link :: "components \<Rightarrow> components \<Rightarrow> components \<Rightarrow> (disk, io_error, unit) op" where
  "disk_link h old p w =
     (case map_of w (h @ old) of
        None \<Rightarrow> (Inl absent, w)
      | Some n \<Rightarrow> if staged_kind n = Dir then (Inl refused, w) else disk_add h p n () w)"

definition disk_stage :: "components \<Rightarrow> disk root_ops" where
  "disk_stage h =
     \<lparr>op_mkdir = (\<lambda>p m. disk_add h p (Staged_dir m) ()),
      op_kind = (\<lambda>p. bindS (disk_metadata h p) (\<lambda>(k, m). retS k)),
      op_remove_file = disk_remove_file h,
      op_create_new = (\<lambda>p. disk_add h p (Staged_file [] 0x180) memory),
      op_store = disk_store h,
      op_symlink = (\<lambda>target p. disk_add h p (Staged_link target) ()),
      op_hard_link = disk_link h,
      op_make_node = (\<lambda>p k m d. disk_add h p (Staged_node k m) ()),
      op_set_owner = (\<lambda>p u g w. (if map_of w (h @ p) = None then Inl absent else Inr (), w)),
      op_set_mode = disk_set_mode h\<rparr>"

definition disk_fs :: "(components, disk) host_fs" where
  "disk_fs =
     \<lparr>fs_metadata = disk_metadata, fs_mkdir = (\<lambda>h p m. disk_add h p (Staged_dir m) ()),
      fs_set_mode = disk_set_mode, fs_remove_file = disk_remove_file,
      fs_remove_dir = disk_remove_dir, fs_read_dir = disk_read_dir, fs_rename = disk_rename,
      fs_open_dir = disk_open, fs_stage = disk_stage\<rparr>"

definition disk_view :: "components \<Rightarrow> disk \<Rightarrow> staged view_of" where
  "disk_view h w q = map_of w (h @ q)"

lemma disk_dir_at: "disk_dir w (h @ p) \<longleftrightarrow> dir_at staged_kind (disk_view h w) p"
  by (auto simp: dir_at_def disk_view_def)

lemma map_of_delete: "map_of (disk_delete p w) = (map_of w)(p := None)"
  by (induction w) (auto simp: disk_delete_def)

lemma view_delete: "disk_view h (disk_delete (h @ p) w) = (disk_view h w)(p := None)"
  by (auto simp: disk_view_def map_of_delete fun_eq_iff)

lemma view_add: "disk_view h ((h @ p, n) # w) = (disk_view h w)(p \<mapsto> n)"
  by (auto simp: disk_view_def fun_eq_iff)

lemma disk_names_iff: "x \<in> set (disk_names p w) \<longleftrightarrow> map_of w (p @ [x]) \<noteq> None"
proof -
  have "x \<in> set (disk_names p w) \<longleftrightarrow> p @ [x] \<in> fst ` set w"
    by (force simp: disk_names_def image_iff intro: rev_bexI)
  then show ?thesis by (simp add: map_of_eq_None_iff)
qed

lemma map_of_filter: "map_of (filter (\<lambda>(q, n). P q) w) q = (if P q then map_of w q else None)"
  by (induction w) auto

lemma map_of_moved_part:
  "map_of (map (\<lambda>(q, n). (to @ drop (length from) q, n)) (filter (\<lambda>(q, n). prefix from q) w)) (to @ z) =
     map_of w (from @ z)"
  by (induction w) (auto elim!: prefixE dest: prefixI [OF sym])

lemma map_of_moved_none:
  "\<not> prefix to q \<Longrightarrow>
     map_of (map (\<lambda>(q, n). (to @ drop (length from) q, n)) (filter (\<lambda>(q, n). prefix from q) w)) q = None"
  by (induction w) auto

lemma view_move: "disk_view h (disk_move (h @ p) (h @ q) w) = moved p q (disk_view h w)"
proof
  fix z
  show "disk_view h (disk_move (h @ p) (h @ q) w) z = moved p q (disk_view h w) z"
  proof (cases "prefix q z")
    case True
    then obtain y where z: "z = q @ y" by (auto simp: prefix_def)
    have none: "map_of (filter (\<lambda>(z, n). \<not> prefix (h @ p) z \<and> \<not> prefix (h @ q) z) w) (h @ q @ y) = None"
      using map_of_filter [of "\<lambda>z. \<not> prefix (h @ p) z \<and> \<not> prefix (h @ q) z" w "h @ q @ y"] by simp
    show ?thesis
      using map_of_moved_part [of "h @ q" "h @ p" w y] none
      by (simp add: z disk_view_def disk_move_def moved_def map_add_def split: option.split)
  next
    case False
    then have "map_of (map (\<lambda>(z, n). ((h @ q) @ drop (length (h @ p)) z, n))
        (filter (\<lambda>(z, n). prefix (h @ p) z) w)) (h @ z) = None"
      by (intro map_of_moved_none) simp
    then show ?thesis
      using False map_of_filter [of "\<lambda>z. \<not> prefix (h @ p) z \<and> \<not> prefix (h @ q) z" w "h @ z"]
      by (simp add: disk_view_def disk_move_def moved_def map_add_def split: option.splits)
  qed
qed

lemma distinct_map_filter:
  "distinct xs \<Longrightarrow> distinct (map fst (List.map_filter (\<lambda>x. map_option (\<lambda>n. (x, f n)) (g x)) xs))"
  by (induction xs) (auto simp: map_filter_simps map_filter_def split: option.splits)

interpretation disk: host_directory disk_fs h "disk_view h" staged_kind for h
proof
  fix p q :: components and w w' :: disk and m :: u32
  show "disk_view h w' = disk_view h w \<and>
      (case found of Inl e \<Rightarrow> io_error_kind e = NotFound \<longrightarrow> disk_view h w p = None
       | Inr (k, m) \<Rightarrow> \<exists>i. disk_view h w p = Some i \<and> staged_kind i = k)"
    if "fs_metadata disk_fs h p w = (found, w')" for found
    using that by (auto simp: disk_fs_def disk_metadata_def disk_view_def split: option.splits)
  show "disk_view h w' = disk_view h w \<and>
      (case listed of Inl e \<Rightarrow> True | Inr es \<Rightarrow> listing staged_kind (disk_view h w) p es)"
    if "fs_read_dir disk_fs h p w = (listed, w')" for listed
  proof (cases "disk_dir w (h @ p)")
    case True
    let ?es = "List.map_filter (\<lambda>x. map_option (\<lambda>n. (x, staged_kind n)) (map_of w (h @ p @ [x])))
           (disk_names (h @ p) w)"
    have "set ?es = {(x, k). \<exists>i. disk_view h w (p @ [x]) = Some i \<and> staged_kind i = k}"
      using disk_names_iff [of _ "h @ p" w] by (auto simp: map_filter_def disk_view_def) force
    moreover have "distinct (map fst ?es)"
      by (rule distinct_map_filter) (simp add: disk_names_def)
    ultimately show ?thesis
      using that True disk_dir_at [of w h p] by (auto simp: disk_fs_def disk_read_dir_def listing_def)
  next
    case False
    then have "listed = Inl absent" "w' = w"
      using that by (simp_all add: disk_fs_def disk_read_dir_def split: if_splits)
    then show ?thesis by simp
  qed
  show "disk_view h w' = disk_view h w" if "fs_open_dir disk_fs h p w = (opened, w')" for opened
    using that by (simp add: disk_fs_def disk_open_def)
  show "case r' of Inl e \<Rightarrow> disk_view h w' = disk_view h w
       | Inr _ \<Rightarrow> p \<noteq> [] \<and> disk_view h w p = None \<and> dir_at staged_kind (disk_view h w) (butlast p) \<and>
           (\<exists>i. staged_kind i = Dir \<and> disk_view h w' = (disk_view h w)(p \<mapsto> i))"
    if "fs_mkdir disk_fs h p m w = (r', w')" for r'
    using that disk_dir_at [of w h "butlast p"]
    by (auto simp: disk_fs_def disk_add_def view_add disk_view_def [of h w p]
        intro!: exI [of _ "Staged_dir m"] split: if_splits)
  show "(\<forall>q. q \<noteq> p \<longrightarrow> disk_view h w' q = disk_view h w q) \<and>
      map_option staged_kind (disk_view h w' p) = map_option staged_kind (disk_view h w p)"
    if "fs_set_mode disk_fs h p m w = (r', w')" for r'
    using that
    by (auto simp: disk_fs_def disk_set_mode_def disk_view_def split: option.splits staged.splits)
  show "case r' of Inl e \<Rightarrow> disk_view h w' = disk_view h w
       | Inr _ \<Rightarrow> (\<exists>i. disk_view h w p = Some i \<and> staged_kind i \<noteq> Dir) \<and>
           disk_view h w' = (disk_view h w)(p := None)"
    if "fs_remove_file disk_fs h p w = (r', w')" for r'
    using that view_delete [of h p w]
    by (auto simp: disk_fs_def disk_remove_file_def disk_view_def [of h w p] split: option.splits if_splits)
  show "case r' of Inl e \<Rightarrow> disk_view h w' = disk_view h w
       | Inr _ \<Rightarrow> dir_at staged_kind (disk_view h w) p \<and> (\<forall>x. disk_view h w (p @ [x]) = None) \<and>
           disk_view h w' = (disk_view h w)(p := None)"
    if "fs_remove_dir disk_fs h p w = (r', w')" for r'
    using that view_delete [of h p w] disk_dir_at [of w h p] disk_names_iff [of _ "h @ p" w]
    by (auto simp: disk_fs_def disk_remove_dir_def disk_view_def split: if_splits)
  show "case r' of Inl e \<Rightarrow> disk_view h w' = disk_view h w
       | Inr _ \<Rightarrow> disk_view h w p \<noteq> None \<and> disk_view h w q = None \<and> q \<noteq> [] \<and>
           dir_at staged_kind (disk_view h w) (butlast q) \<and> \<not> prefix p q \<and>
           disk_view h w' = moved p q (disk_view h w)"
    if "fs_rename disk_fs h p q No_replace w = (r', w')" for r'
    using that view_move [of h p q w] disk_dir_at [of w h "butlast q"]
    by (auto simp: disk_fs_def disk_rename_def disk_view_def [of h w] split: option.splits if_splits)
  show "case r' of Inl e \<Rightarrow> disk_view h w' = disk_view h w
       | Inr _ \<Rightarrow> q \<noteq> [] \<and> dir_at staged_kind (disk_view h w) (butlast q) \<and> \<not> prefix p q \<and>
           (\<exists>i. disk_view h w p = Some i \<and> (disk_view h w' = moved p q (disk_view h w) \<or>
              disk_view h w q = Some i \<and> disk_view h w' = disk_view h w))"
    if "fs_rename disk_fs h p q Replacing w = (r', w')" for r'
    using that view_move [of h p q w] disk_dir_at [of w h "butlast q"]
    by (auto simp: disk_fs_def disk_rename_def disk_view_def [of h w] split: option.splits if_splits)
qed

lemma closed_add:
  assumes "closed_view kd U" "U p = None" "p \<noteq> []" "dir_at kd U (butlast p)"
  shows "closed_view kd (U(p \<mapsto> i))"
  unfolding closed_view_def
proof (intro allI impI)
  fix q x assume a: "(U(p \<mapsto> i)) (q @ [x]) \<noteq> None"
  have "dir_at kd U q"
    using a assms by (cases "q @ [x] = p") (auto simp: closed_view_def)
  then show "dir_at kd (U(p \<mapsto> i)) q" using assms(2) by (auto simp: dir_at_def)
qed

text \<open>The calls through the handle of the stage \<open>nm\<close> of the directory \<open>h\<close>.\<close>

lemma disk_view_stage: "disk_view (h @ [nm]) w p = disk_view h w (nm # p)"
  by (simp add: disk_view_def)

abbreviation kept :: "components \<Rightarrow> u8 list \<Rightarrow> staged view_of \<Rightarrow> disk \<Rightarrow> bool" where
  "kept h nm U w \<equiv> outside_same staged_kind nm U (disk_view h w)"

lemma kept_update:
  assumes "kept h nm U w" "closed_view staged_kind ((disk_view h w)(nm # p := x))"
    and "disk_view h w' = (disk_view h w)(nm # p := x)"
  shows "kept h nm U w'"
  using assms by auto

lemma disk_add_kept: "keeps (kept h nm U) (disk_add (h @ [nm]) p n a)"
proof
  fix w assume I: "kept h nm U w"
  show "kept h nm U (snd (disk_add (h @ [nm]) p n a w))"
  proof (cases "map_of w (h @ nm # p) \<noteq> None \<or> p = [] \<or> \<not> disk_dir w (h @ nm # butlast p)")
    case False
    have "disk_view h w (nm # p) = None" "dir_at staged_kind (disk_view h w) (nm # butlast p)" "p \<noteq> []"
      using False disk_dir_at [of w h "nm # butlast p"] by (auto simp: disk_view_def)
    then have "closed_view staged_kind ((disk_view h w)(nm # p \<mapsto> n))"
      using closed_add [of staged_kind "disk_view h w" "nm # p" n] I by simp
    then show ?thesis
      using kept_update [OF I, of p "Some n" "(h @ nm # p, n) # w"] view_add [of h "nm # p" n w] False
      by (simp add: disk_add_def)
  qed (use I in \<open>auto simp: disk_add_def\<close>)
qed

lemma disk_remove_kept: "keeps (kept h nm U) (disk_remove_file (h @ [nm]) p)"
proof
  fix w assume I: "kept h nm U w"
  show "kept h nm U (snd (disk_remove_file (h @ [nm]) p w))"
  proof (cases "\<exists>n. map_of w (h @ nm # p) = Some n \<and> staged_kind n \<noteq> Dir")
    case True
    then have "\<not> dir_at staged_kind (disk_view h w) (nm # p)"
      by (auto simp: dir_at_def disk_view_def)
    then have "disk_view h w ((nm # p) @ [x]) = None" for x
      using closed_none [of staged_kind "disk_view h w" "nm # p" "(nm # p) @ [x]"] I by simp
    then have "closed_view staged_kind ((disk_view h w)(nm # p := None))"
      using closed_delete [of staged_kind "disk_view h w" "nm # p"] I by simp
    then show ?thesis
      using kept_update [OF I, of p None "disk_delete (h @ nm # p) w"] view_delete [of h "nm # p" w] True
      by (auto simp: disk_remove_file_def)
  qed (use I in \<open>auto simp: disk_remove_file_def split: option.splits\<close>)
qed

lemma replace_kept:
  assumes "kept h nm U w" "map_of w (h @ nm # p) = Some n" "staged_kind n' = staged_kind n"
  shows "kept h nm U ((h @ nm # p, n') # w)"
proof (rule kept_update [OF assms(1), of p "Some n'"])
  show v: "disk_view h ((h @ nm # p, n') # w) = (disk_view h w)(nm # p \<mapsto> n')"
    using view_add [of h "nm # p" n' w] by simp
  show "closed_view staged_kind ((disk_view h w)(nm # p \<mapsto> n'))"
    by (rule closed_cong [of _ _ "disk_view h w"]) (use assms in \<open>auto simp: disk_view_def\<close>)
qed

lemma disk_set_mode_kept: "keeps (kept h nm U) (disk_set_mode (h @ [nm]) p m)"
  by (rule keepsI) (use replace_kept [where h = h and nm = nm and U = U] in
    \<open>auto simp: disk_set_mode_def split: option.splits staged.splits\<close>)

lemma disk_store_kept: "kept h nm U w \<Longrightarrow> kept h nm U (disk_store (h @ [nm]) p bs w)"
  using replace_kept [where h = h and nm = nm and U = U and w = w and p = p]
  by (auto simp: disk_store_def split: option.splits staged.splits)

lemma disk_stage_kept:
  "stage_root (disk_stage (h @ [nm])) (kept h nm U) (\<lambda>_. True)"
proof
  show "keeps (kept h nm U) (op_hard_link (disk_stage (h @ [nm])) t cs)" for t cs
  proof (rule keepsI)
    fix w assume I: "kept h nm U w"
    have "kept h nm U (snd (disk_add (h @ [nm]) cs x () w))" for x
      by (rule keepsD [OF disk_add_kept I])
    then show "kept h nm U (snd (op_hard_link (disk_stage (h @ [nm])) t cs w))"
      using I by (simp add: disk_stage_def disk_link_def split: option.split)
  qed
  show "keeps (kept h nm U) (op_kind (disk_stage (h @ [nm])) cs)" for cs
    by (rule keepsI) (simp add: disk_stage_def disk_metadata_def bindS_def split: option.splits)
  show "kept h nm U (op_store (disk_stage (h @ [nm])) cs bs w)" if "kept h nm U w" for cs bs w
  proof -
    have "op_store (disk_stage (h @ [nm])) = disk_store (h @ [nm])" by (simp add: disk_stage_def)
    then show ?thesis using disk_store_kept [OF that] by metis
  qed
  show "keeps (kept h nm U) (op_set_owner (disk_stage (h @ [nm])) cs u g)" for cs u g
    by (rule keepsI) (simp add: disk_stage_def)
qed (simp_all add: disk_stage_def disk_add_kept disk_remove_kept disk_set_mode_kept)

lemma disk_opened: "fs_open_dir disk_fs h [nm] w = (Inr sh, w') \<Longrightarrow> sh = h @ [nm]"
  by (auto simp: disk_fs_def disk_open_def split: if_splits)

interpretation disk_host: staging_host disk_fs h "disk_view h" staged_kind for h
proof (intro staging_host.intro staging_host_axioms.intro)
  show "host_directory disk_fs h (disk_view h) staged_kind" by (rule disk.host_directory_axioms)
  show "stage_root (fs_stage disk_fs sh) (kept h nm U) (\<lambda>_. True)"
    if "fs_open_dir disk_fs h [nm] w = (Inr sh, w')" for nm w sh w' U
    using disk_stage_kept disk_opened [OF that] by (simp add: disk_fs_def)
  show "keeps (kept h nm U) (op_set_mode (fs_stage disk_fs sh) p m)"
    if "fs_open_dir disk_fs h [nm] w = (Inr sh, w')" for nm w sh w' U p m
    using disk_set_mode_kept disk_opened [OF that] by (simp add: disk_fs_def disk_stage_def)
qed

section \<open>Properties\<close>


definition stage_byte :: "u8 list" where "stage_byte = [120]"

text \<open>A directory with a file \<open>a\<close> and a stage with a directory \<open>d\<close> holding a file.\<close>

definition sample_disk :: disk where
  "sample_disk =
     [([], Staged_dir 0x1ED), ([[97]], Staged_file [1] 0x1A4), ([stage_byte], Staged_dir 0x1C0),
      ([stage_byte, [100]], Staged_dir 0x1ED), ([stage_byte, [100], [98]], Staged_file [2] 0x1A4)]"

definition on_disk :: "disk \<Rightarrow> disk stage_state" where
  "on_disk w = fresh_state w (seq_cursor_new [] (uncancelable default_limits))"

lemma sample_closed: "closed_view staged_kind (disk_view [] sample_disk)"
  unfolding closed_view_def
proof (intro allI impI)
  fix p x assume "disk_view [] sample_disk (p @ [x]) \<noteq> None"
  then have "p @ [x] \<in> fst ` set sample_disk"
    by (auto simp: disk_view_def map_of_eq_None_iff)
  then have "p \<in> {[], [stage_byte], [stage_byte, [100]]}"
    by (auto simp: sample_disk_def Cons_eq_append_conv)
  then show "dir_at staged_kind (disk_view [] sample_disk) p"
    by (auto simp: dir_at_def disk_view_def sample_disk_def stage_byte_def)
qed

lemma sample_published:
  "publish disk_fs 4 Refuse_collision (Existing []) stage_byte (on_disk sample_disk) =
     Some (Inr (), (on_disk sample_disk)\<lparr>world :=
       [([[100]], Staged_dir 0x1ED), ([[100], [98]], Staged_file [2] 0x1A4), ([], Staged_dir 0x1ED),
        ([[97]], Staged_file [1] 0x1A4)]\<rparr>)"
  by code_simp


text \<open>C19: Conflicts are found before anything is published: under \<open>Refuse\<close>, when any staged entry has
  the name of an existing one and not both are directories, at any depth, publication fails and
  has changed nothing.\<close>

theorem conflicts_refused:
  assumes "host_directory fs h V kd" and "closed_view kd (V (world s))"
    and "clash kd st (V (world s)) q" "q \<noteq> []"
    and "publish fs fuel Refuse_collision (Existing h) st s = Some (r, t)"
  shows "V (world t) = V (world s) \<and> isl r"
  using host_directory.publish_refused [OF assms(1,5,2,3,4)] by auto

definition clashing_disk :: disk where
  "clashing_disk = ([[100]], Staged_link [97]) # sample_disk"

lemma clashing_closed: "closed_view staged_kind (disk_view [] clashing_disk)"
proof -
  have "disk_view [] clashing_disk = (disk_view [] sample_disk)([[100]] \<mapsto> Staged_link [97])"
    by (auto simp: disk_view_def clashing_disk_def)
  moreover have "disk_view [] sample_disk [[100]] = None"
    by (simp add: disk_view_def sample_disk_def stage_byte_def)
  moreover have "dir_at staged_kind (disk_view [] sample_disk) (butlast [[100]])"
    by (simp add: dir_at_def disk_view_def sample_disk_def)
  ultimately show ?thesis using closed_add [OF sample_closed] by simp
qed

theorem conflicts_refused_witness:
  "\<exists>r t. publish disk_fs 4 Refuse_collision (Existing []) stage_byte (on_disk clashing_disk) = Some (r, t) \<and>
     isl r \<and> disk_view [] (world t) = disk_view [] clashing_disk"
proof -
  have at: "disk_view [] clashing_disk q = map_of clashing_disk q" for q
    by (simp add: disk_view_def)
  have "publish disk_fs 4 Refuse_collision (Existing []) stage_byte (on_disk clashing_disk) \<noteq> None"
    by code_simp
  then obtain r t where run:
    "publish disk_fs 4 Refuse_collision (Existing []) stage_byte (on_disk clashing_disk) = Some (r, t)"
    by auto
  have w: "world (on_disk clashing_disk) = clashing_disk" by (simp add: on_disk_def fresh_state_def)
  have "clash staged_kind stage_byte (disk_view [] clashing_disk) [[100]]"
    unfolding clash_def dir_at_def at by (simp add: clashing_disk_def sample_disk_def stage_byte_def)
  then show ?thesis
    using conflicts_refused [OF disk.host_directory_axioms _ _ _ run] clashing_closed run w by auto
qed

text \<open>C20: Publication ends, and so does the removal of the stage after a failure: with fuel above the
  depth of the stage neither the check for conflicts, the merge nor the removal runs out of it.\<close>

theorem publication_ends:
  assumes "host_directory fs h V kd" and "closed_view kd (V (world s))"
    and "V (world s) [st, st] = None" "dir_at kd (V (world s)) []"
    and "\<And>q. V (world s) (st # q) \<noteq> None \<Longrightarrow> length q < fuel" "0 < fuel"
  shows "publish fs fuel c (Existing h) st s \<noteq> None \<and> remove_tree fs h fuel [st] (world s) \<noteq> None"
proof
  show "publish fs fuel c (Existing h) st s \<noteq> None"
    using host_directory.publish_ends [OF assms(1-5) assms(6)] by simp
  show "remove_tree fs h fuel [st] (world s) \<noteq> None"
  proof (rule host_directory.remove_tree_ends [OF assms(1) assms(6) assms(2)])
    show "length q < length [st] + fuel" if pre: "prefix [st] q" and at: "V (world s) q \<noteq> None" for q
    proof -
      obtain z where "q = st # z" using pre by (cases q) auto
      then show ?thesis using assms(5) [of z] at by simp
    qed
  qed
qed

theorem publication_ends_witness:
  "publish disk_fs 3 Replace (Existing []) stage_byte (on_disk sample_disk) \<noteq> None"
proof -
  have w: "world (on_disk sample_disk) = sample_disk" by (simp add: on_disk_def fresh_state_def)
  have "publish disk_fs 3 Replace (Existing []) stage_byte (on_disk sample_disk) \<noteq> None \<and>
      remove_tree disk_fs [] 3 [stage_byte] (world (on_disk sample_disk)) \<noteq> None"
  proof (rule publication_ends [OF disk.host_directory_axioms])
    show "length q < 3" if "disk_view [] (world (on_disk sample_disk)) (stage_byte # q) \<noteq> None" for q
      using that unfolding w by (auto simp: disk_view_def sample_disk_def stage_byte_def split: if_splits)
  qed (simp_all add: w sample_closed, simp_all add: disk_view_def sample_disk_def stage_byte_def dir_at_def)
  then show ?thesis by blast
qed

text \<open>C8: Under \<open>Refuse\<close> an extraction into an existing directory never changes or removes an entry that
  was there, whatever the archive and whatever fails: reading it, staging it, the check, the
  merge, or the cleaning up.\<close>

theorem extraction_keeps_existing:
  assumes "staging_host fs h V kd" and "closed_view kd (V (hworld s))"
    and "collision p = Refuse_collision" and "V (hworld s) q \<noteq> None"
    and "extract_placed fs pid fuel p filters c
      \<lparr>target = Existing h, created_ancestors = None, stage_name = None\<rparr> s = Some (r, s')"
  shows "V (hworld s') q = V (hworld s) q"
  by (rule staging_host.extract_existing [OF assms(1,5,2,3,4)])


text \<open>Missing parents of a destination are made from the top, each a new directory; when one cannot
  be made the ones before it are removed again and nothing is left of them, unless the error says
  that the clean-up failed.\<close>

theorem parents_made_or_removed:
  assumes "host_directory fs h V kd" and "closed_view kd (V w)"
    and "make_ancestors fs h [] [] missing w = (r, w')"
  shows "case r of
       Inr c \<Rightarrow> anchor c = h \<and> relative c = prefixes_of [] missing \<and>
         (\<forall>q. q \<notin> set (relative c) \<longrightarrow> V w' q = V w q) \<and>
         (\<forall>q \<in> set (relative c). V w q = None \<and> dir_at kd (V w') q)
     | Inl e \<Rightarrow> V w' = V w \<or> (\<exists>cleanup e'. e = with_cleanup cleanup e')"
proof -
  have "pruned [] (V w) = V w" by (simp add: pruned_def fun_eq_iff)
  then show ?thesis
    using host_directory.make_ancestors_spec [OF assms(1,3,2)] by (auto split: sum.splits)
qed

theorem parents_made_or_removed_witness:
  "\<exists>c w'. make_ancestors disk_fs [] [] [] [[112], [113]] sample_disk = (Inr c, w') \<and>
     relative c = [[[112]], [[112], [113]]] \<and> dir_at staged_kind (disk_view [] w') [[112], [113]]"
proof -
  have "\<exists>c w'. make_ancestors disk_fs [] [] [] [[112], [113]] sample_disk = (Inr c, w')"
    by (simp add: disk_fs_def disk_add_def bindS_def attempt_def sample_disk_def stage_byte_def)
  then obtain c w' where run: "make_ancestors disk_fs [] [] [] [[112], [113]] sample_disk = (Inr c, w')"
    by blast
  then show ?thesis
    using parents_made_or_removed [OF disk.host_directory_axioms sample_closed run] by auto
qed

definition start_disk :: "disk hosted" where
  "start_disk =
     \<lparr>hworld = [([], Staged_dir 0x1ED), ([[97]], Staged_file [1] 0x1A4)], stage_counter = 0\<rparr>"

lemma start_closed: "closed_view staged_kind (disk_view [] (hworld start_disk))"
  unfolding closed_view_def
proof (intro allI impI)
  fix p x assume "disk_view [] (hworld start_disk) (p @ [x]) \<noteq> None"
  then have "p @ [x] \<in> fst ` set (hworld start_disk)"
    by (auto simp: disk_view_def map_of_eq_None_iff)
  then have "p = []" by (auto simp: start_disk_def Cons_eq_append_conv)
  then show "dir_at staged_kind (disk_view [] (hworld start_disk)) p"
    by (auto simp: dir_at_def disk_view_def start_disk_def)
qed

text \<open>A run that is canceled before the archive is read: the stage is made and removed again.\<close>

definition canceled_cursor :: seq_cursor where
  "canceled_cursor = seq_cursor_new [] (budget_new default_limits [True])"

lemma canceled_run:
  "\<exists>e t. run_placed disk_fs n pl nm sh p filters (fresh_state w canceled_cursor) = Some (Inl e, t) \<and>
     world t = w"
proof -
  let ?s = "fresh_state w canceled_cursor"
  obtain e c where "next_entry (cursor ?s) = (Inl e, c)"
    by (simp add: next_entry_def skip_body_def seq_cursor_new_def bindS_def fresh_state_def
        discard.simps read_meta_def on_budget_def checkpoint_def budget_new_def canceled_cursor_def)
  then have "stage_all (fs_stage disk_fs sh) p filters ?s = (Inl e, ?s\<lparr>cursor := c\<rparr>)"
    by (simp add: stage_all.simps [of _ _ _ ?s] on_cursor_def)
  then show ?thesis
    by (simp add: run_placed_def run_extract_def bindS_def bindR_liftR) (simp add: fresh_state_def)
qed

lemma start_runs:
  assumes "holder t = []"
  shows "extract_placed disk_fs 7 4 p filters canceled_cursor
      \<lparr>target = t, created_ancestors = None, stage_name = None\<rparr> start_disk \<noteq> None"
proof -
  let ?nm = "unique_name ''.xsh-archive-'' 7 0"
  let ?w = "([?nm], Staged_dir 0x1C0) # hworld start_disk"
  let ?pl = "\<lparr>target = t, created_ancestors = None, stage_name = Some ?nm\<rparr>"
  have "length ?nm \<ge> 13" by (simp add: unique_name_def bytes_of_def)
  then have nm: "?nm \<noteq> [97]" by auto
  have os: "open_stage disk_fs 7 16 \<lparr>target = t, created_ancestors = None, stage_name = None\<rparr> start_disk =
      (Inr [?nm], ?pl, \<lparr>hworld = ?w, stage_counter = 1\<rparr>)"
    using assms nm
    by (simp add: numeral_eq_Suc Let_def start_disk_def disk_fs_def disk_add_def disk_open_def)
  obtain e u where run: "run_placed disk_fs 4 ?pl ?nm [?nm] p filters (fresh_state ?w canceled_cursor) =
      Some (Inl e, u)" "world u = ?w"
    using canceled_run by blast
  have "disk_view [] ?w = (disk_view [] (hworld start_disk))([?nm] \<mapsto> Staged_dir 0x1C0)"
    by (auto simp: disk_view_def)
  moreover have "disk_view [] (hworld start_disk) [?nm] = None"
    "dir_at staged_kind (disk_view [] (hworld start_disk)) []"
    using nm by (simp_all add: disk_view_def start_disk_def dir_at_def)
  ultimately have cl: "closed_view staged_kind (disk_view [] ?w)"
    using closed_add [OF start_closed, of "[?nm]"] by simp
  have "remove_tree disk_fs [] 4 [?nm] ?w \<noteq> None"
  proof (rule disk.remove_tree_ends [OF _ cl])
    show "length q < length [?nm] + 4" if "prefix [?nm] q" "disk_view [] ?w q \<noteq> None" for q
      using that by (auto simp: disk_view_def start_disk_def split: if_splits)
  qed simp
  then have "aborted disk_fs 4 ?pl e ?w \<noteq> None"
    using assms
    by (auto simp: aborted_def abort_def bindR_def liftR_def split: option.splits sum.splits prod.splits)
  then show ?thesis
    using run by (simp add: extract_placed_def os)
qed

theorem extraction_keeps_existing_witness:
  "\<exists>r s'. extract_placed disk_fs 7 4 default_policy [] canceled_cursor
       \<lparr>target = Existing [], created_ancestors = None, stage_name = None\<rparr> start_disk = Some (r, s') \<and>
     map_of (hworld s') [[97]] = Some (Staged_file [1] 0x1A4)"
proof -
  obtain r s' where run: "extract_placed disk_fs 7 4 default_policy [] canceled_cursor
      \<lparr>target = Existing [], created_ancestors = None, stage_name = None\<rparr> start_disk = Some (r, s')"
    using start_runs [OF holder.simps(2)] by fastforce
  have at: "disk_view [] (hworld start_disk) [[97]] = Some (Staged_file [1] 0x1A4)"
    by (simp add: disk_view_def start_disk_def)
  have "disk_view [] (hworld s') [[97]] = disk_view [] (hworld start_disk) [[97]]"
    by (rule extraction_keeps_existing [OF disk_host.staging_host_axioms start_closed _ _ run])
      (simp_all add: default_policy_def at)
  then show ?thesis using run at by (simp add: disk_view_def)
qed



end
