(* ===== verification/Xsh_Text.thy ===== *)
theory Xsh_Text
  imports Xsh_Prelude
begin

text \<open>
  Rust's \<open>str\<close>: a text is the list of its characters (scalar values), and offsets into it are
  byte offsets of its UTF-8 encoding. A slice at an offset inside a character panics, which is
  \<open>None\<close> here. \<open>from_utf8\<close> is the decoder of the standard library.
\<close>

unbundle bit_operations_syntax

type_synonym text_str = "nat list"

section \<open>Encoding\<close>

definition is_scalar :: "nat \<Rightarrow> bool" where
  "is_scalar c \<longleftrightarrow> c < 0xD800 \<or> 0xDFFF < c \<and> c < 0x110000"

abbreviation text_ok :: "text_str \<Rightarrow> bool" where
  "text_ok s \<equiv> list_all is_scalar s"

definition len_utf8 :: "nat \<Rightarrow> nat" where
  "len_utf8 c = (if c < 0x80 then 1 else if c < 0x800 then 2 else if c < 0x10000 then 3 else 4)"

definition encode_utf8 :: "nat \<Rightarrow> u8 list" where
  "encode_utf8 c =
     (if c < 0x80 then [of_nat c]
      else if c < 0x800 then [of_nat (0xC0 + c div 64), of_nat (0x80 + c mod 64)]
      else if c < 0x10000 then
        [of_nat (0xE0 + c div 4096), of_nat (0x80 + c div 64 mod 64), of_nat (0x80 + c mod 64)]
      else
        [of_nat (0xF0 + c div 262144), of_nat (0x80 + c div 4096 mod 64),
         of_nat (0x80 + c div 64 mod 64), of_nat (0x80 + c mod 64)])"

definition as_bytes :: "text_str \<Rightarrow> u8 list" where
  "as_bytes s = concat (map encode_utf8 s)"

definition tlen :: "text_str \<Rightarrow> nat" where
  "tlen s = sum_list (map len_utf8 s)"

text \<open>A byte \<open>10xxxxxx\<close> continues a character (\<open>(b as i8) < -0x40\<close>).\<close>

definition continuation :: "u8 \<Rightarrow> bool" where
  "continuation b \<longleftrightarrow> 0x80 \<le> unat b \<and> unat b < 0xC0"

definition is_char_boundary :: "text_str \<Rightarrow> nat \<Rightarrow> bool" where
  "is_char_boundary s i \<longleftrightarrow>
     i = 0 \<or> i = tlen s \<or> (i < tlen s \<and> \<not> continuation (as_bytes s ! i))"

text \<open>\<open>as_bytes()[i]\<close>.\<close>

definition byte_at :: "text_str \<Rightarrow> nat \<Rightarrow> u8 option" where
  "byte_at s i = (if i < length (as_bytes s) then Some (as_bytes s ! i) else None)"

text \<open>\<open>s.split_at(n)\<close>, of which \<open>s[..n]\<close> and \<open>s[n..]\<close> are the parts.\<close>

fun split_bytes :: "nat \<Rightarrow> text_str \<Rightarrow> (text_str \<times> text_str) option" where
  "split_bytes 0 s = Some ([], s)"
| "split_bytes (Suc n) [] = None"
| "split_bytes (Suc n) (c # s) =
     (if len_utf8 c \<le> Suc n
      then map_option (\<lambda>(a, b). (c # a, b)) (split_bytes (Suc n - len_utf8 c) s)
      else None)"

lemma len_utf8_pos [simp]: "0 < len_utf8 c"
  by (simp add: len_utf8_def)

lemma len_utf8_le: "len_utf8 c \<le> 4"
  by (simp add: len_utf8_def)

lemma length_encode [simp]: "length (encode_utf8 c) = len_utf8 c"
  by (simp add: encode_utf8_def len_utf8_def)

lemma tlen_simps [simp]:
  "tlen [] = 0" "tlen (c # s) = len_utf8 c + tlen s" "tlen (a @ b) = tlen a + tlen b"
  by (simp_all add: tlen_def)

lemma as_bytes_simps [simp]:
  "as_bytes [] = []" "as_bytes (c # s) = encode_utf8 c @ as_bytes s"
  "as_bytes (a @ b) = as_bytes a @ as_bytes b"
  by (simp_all add: as_bytes_def)

lemma length_as_bytes [simp]: "length (as_bytes s) = tlen s"
  by (induction s) simp_all

lemma tlen_zero [simp]: "tlen s = 0 \<longleftrightarrow> s = []"
  by (cases s) (simp_all add: len_utf8_def)

lemma tlen_rev [simp]: "tlen (rev s) = tlen s"
  by (induction s) simp_all

lemma length_le_tlen: "length s \<le> tlen s"
proof (induction s)
  case (Cons c s)
  then show ?case using Suc_leI [OF len_utf8_pos [of c]] by simp
qed simp

lemma split_bytes_append [simp]: "split_bytes (tlen a) (a @ b) = Some (a, b)"
proof (induction a)
  case (Cons c a)
  have "tlen (c # a) = Suc (tlen (c # a) - 1)" using len_utf8_pos [of c] by simp
  then show ?case
    using Cons split_bytes.simps(3) [of "tlen (c # a) - 1" c "a @ b"] by simp
qed simp

lemma split_bytes_Some: "split_bytes n s = Some (a, b) \<longleftrightarrow> s = a @ b \<and> n = tlen a"
proof
  show "split_bytes n s = Some (a, b) \<Longrightarrow> s = a @ b \<and> n = tlen a"
    by (induction n s arbitrary: a b rule: split_bytes.induct) (auto split: if_splits)
qed auto

lemma append_tlen_eq:
  assumes "a @ b = a' @ b'" and "tlen a = tlen a'"
  shows "a = a' \<and> b = b'"
proof -
  have "split_bytes (tlen a) (a @ b) = Some (a', b')"
    unfolding assms by (rule split_bytes_append)
  then show ?thesis by simp
qed

section \<open>Boundaries\<close>

lemma unat_byte: "n < 256 \<Longrightarrow> unat (of_nat n :: u8) = n"
  by (rule unat_of_nat_small) simp

lemma byte_less_80: "(b :: u8) < 0x80 \<longleftrightarrow> unat b < 0x80"
  by (simp add: word_less_nat_alt)

lemma cont_byte: "continuation (of_nat (0x80 + k mod 64))"
proof -
  have "k mod 64 < 64" by simp
  then show ?thesis using unat_byte [of "0x80 + k mod 64"] by (simp add: continuation_def)
qed

lemma encode_head:
  assumes "is_scalar c"
  shows "\<exists>b bs. encode_utf8 c = b # bs \<and> \<not> continuation b \<and> (\<forall>x \<in> set bs. continuation x) \<and>
    (b < 0x80 \<longleftrightarrow> c < 0x80) \<and> unat b = (if c < 0x80 then c else if c < 0x800 then 0xC0 + c div 64
      else if c < 0x10000 then 0xE0 + c div 4096 else 0xF0 + c div 262144)"
proof -
  consider "c < 0x80" | "0x80 \<le> c" "c < 0x800" | "0x800 \<le> c" "c < 0x10000"
    | "0x10000 \<le> c" "c < 0x110000"
    using assms unfolding is_scalar_def by linarith
  then show ?thesis
  proof cases
    case 1
    then show ?thesis
      using unat_byte [of c] by (simp add: encode_utf8_def continuation_def byte_less_80)
  next
    case 2
    then have "c div 64 < 32" by simp
    then have u: "unat (of_nat (0xC0 + c div 64) :: u8) = 0xC0 + c div 64"
      using unat_byte [of "0xC0 + c div 64"] by simp
    then have "\<not> continuation (of_nat (0xC0 + c div 64))" by (simp add: continuation_def)
    then show ?thesis
      using 2 u cont_byte by (simp add: encode_utf8_def byte_less_80)
  next
    case 3
    then have "c div 4096 < 16" by simp
    then have u: "unat (of_nat (0xE0 + c div 4096) :: u8) = 0xE0 + c div 4096"
      using unat_byte [of "0xE0 + c div 4096"] by simp
    then have "\<not> continuation (of_nat (0xE0 + c div 4096))" by (simp add: continuation_def)
    then show ?thesis
      using 3 u cont_byte by (simp add: encode_utf8_def byte_less_80)
  next
    case 4
    then have "c div 262144 < 8" by simp
    then have u: "unat (of_nat (0xF0 + c div 262144) :: u8) = 0xF0 + c div 262144"
      using unat_byte [of "0xF0 + c div 262144"] by simp
    then have "\<not> continuation (of_nat (0xF0 + c div 262144))" by (simp add: continuation_def)
    then show ?thesis
      using 4 u cont_byte by (simp add: encode_utf8_def byte_less_80)
  qed
qed


lemma offset_cases:
  assumes "i < tlen s"
  obtains a c b k where "s = a @ c # b" "i = tlen a + k" "k < len_utf8 c"
proof -
  have "i < tlen s \<Longrightarrow> \<exists>a c b k. s = a @ c # b \<and> i = tlen a + k \<and> k < len_utf8 c"
  proof (induction s arbitrary: i)
    case (Cons c s)
    show ?case
    proof (cases "i < len_utf8 c")
      case True
      then have "c # s = [] @ c # s \<and> i = tlen [] + i \<and> i < len_utf8 c" by simp
      then show ?thesis by blast
    next
      case False
      then have "i - len_utf8 c < tlen s" using Cons.prems by simp
      from Cons.IH [OF this] obtain a d b k where
        "s = a @ d # b" "i - len_utf8 c = tlen a + k" "k < len_utf8 d" by blast
      then have "c # s = (c # a) @ d # b \<and> i = tlen (c # a) + k \<and> k < len_utf8 d"
        using False by simp
      then show ?thesis by blast
    qed
  qed simp
  with assms that show ?thesis by blast
qed

lemma nth_as_bytes: "k < len_utf8 c \<Longrightarrow> as_bytes (a @ c # b) ! (tlen a + k) = encode_utf8 c ! k"
  by (simp add: nth_append)

lemma encode_first: "is_scalar c \<Longrightarrow> \<not> continuation (encode_utf8 c ! 0)"
  using encode_head [of c] by auto

lemma encode_later: "is_scalar c \<Longrightarrow> 0 < k \<Longrightarrow> k < len_utf8 c \<Longrightarrow> continuation (encode_utf8 c ! k)"
proof -
  assume sc: "is_scalar c" and k: "0 < k" "k < len_utf8 c"
  obtain b bs where e: "encode_utf8 c = b # bs" "\<forall>x \<in> set bs. continuation x"
    using encode_head [OF sc] by blast
  then have "k - 1 < length bs" using k length_encode [of c] by simp
  then show ?thesis using e k by (simp add: nth_Cons')
qed

text \<open>A byte below 0x80 is the character it is.\<close>

lemma ascii_in_encoding: "is_scalar c \<Longrightarrow> b < 0x80 \<Longrightarrow> b \<in> set (encode_utf8 c) \<longleftrightarrow> c = unat b"
proof -
  assume sc: "is_scalar c" and small: "b < 0x80"
  have not_cont: "\<not> continuation b" using small by (simp add: continuation_def word_less_nat_alt word_le_nat_alt)
  show ?thesis
  proof (cases "c < 0x80")
    case True
    then have "(of_nat c :: u8) = b \<longleftrightarrow> c = unat b" using unat_byte [of c] by (auto simp: word_unat_eq_iff)
    then show ?thesis using True by (auto simp: encode_utf8_def)
  next
    case False
    obtain x xs where e: "encode_utf8 c = x # xs" "\<forall>y \<in> set xs. continuation y"
      "unat x = (if c < 0x80 then c
        else if c < 0x800 then 0xC0 + c div 64 else if c < 0x10000 then 0xE0 + c div 4096
        else 0xF0 + c div 262144)"
      using encode_head [OF sc] by blast
    then have "0x80 \<le> unat x" using False by simp
    then have "b \<noteq> x" using small by (auto simp: word_less_nat_alt)
    moreover have "c \<noteq> unat b" using False small by (auto simp: word_less_nat_alt)
    ultimately show ?thesis using e not_cont by auto
  qed
qed

lemma ascii_in_text: "text_ok s \<Longrightarrow> b < 0x80 \<Longrightarrow> b \<in> set (as_bytes s) \<longleftrightarrow> unat b \<in> set s"
  by (induction s) (auto simp: ascii_in_encoding)

lemma boundary_append [simp]: "text_ok (a @ b) \<Longrightarrow> is_char_boundary (a @ b) (tlen a)"
proof (cases b)
  case (Cons c b')
  assume "text_ok (a @ b)"
  then have "\<not> continuation (as_bytes (a @ b) ! tlen a)"
    using encode_first [of c] nth_as_bytes [of 0 c a b'] Cons by simp
  then show ?thesis using Cons by (simp add: is_char_boundary_def)
qed (simp add: is_char_boundary_def)

lemma boundary_inside:
  "text_ok (a @ c # b) \<Longrightarrow> 0 < k \<Longrightarrow> k < len_utf8 c \<Longrightarrow> \<not> is_char_boundary (a @ c # b) (tlen a + k)"
  using nth_as_bytes [of k c a b] encode_later [of c k] by (simp add: is_char_boundary_def)

lemma boundary_iff:
  assumes "text_ok s"
  shows "is_char_boundary s i \<longleftrightarrow> (\<exists>a b. s = a @ b \<and> i = tlen a)"
proof
  assume bd: "is_char_boundary s i"
  show "\<exists>a b. s = a @ b \<and> i = tlen a"
  proof (cases "i < tlen s")
    case True
    then obtain a c b k where s: "s = a @ c # b" "i = tlen a + k" "k < len_utf8 c"
      by (rule offset_cases)
    then have "k = 0" using bd boundary_inside [of a c b k] assms by auto
    with s show ?thesis by auto
  next
    case False
    then have "i = tlen s" using bd by (auto simp: is_char_boundary_def)
    then show ?thesis by (intro exI [of _ s] exI [of _ "[]"]) simp
  qed
qed (use assms in auto)

section \<open>Decoding\<close>

fun decode_utf8 :: "u8 list \<Rightarrow> text_str option" where
  "decode_utf8 [] = Some []"
| "decode_utf8 (b # rest) =
     (let n = unat b in
      if n < 0x80 then map_option (Cons n) (decode_utf8 rest)
      else if 0xC2 \<le> n \<and> n < 0xE0 then
        (case rest of
           x # r \<Rightarrow>
             if continuation x
             then map_option (Cons ((n - 0xC0) * 64 + (unat x - 0x80))) (decode_utf8 r)
             else None
         | _ \<Rightarrow> None)
      else if 0xE0 \<le> n \<and> n < 0xF0 then
        (case rest of
           x # y # r \<Rightarrow>
             let c = (n - 0xE0) * 4096 + (unat x - 0x80) * 64 + (unat y - 0x80) in
             if continuation x \<and> continuation y \<and> 0x800 \<le> c \<and> is_scalar c
             then map_option (Cons c) (decode_utf8 r) else None
         | _ \<Rightarrow> None)
      else if 0xF0 \<le> n \<and> n < 0xF5 then
        (case rest of
           x # y # z # r \<Rightarrow>
             let c = (n - 0xF0) * 262144 + (unat x - 0x80) * 4096 + (unat y - 0x80) * 64 +
                   (unat z - 0x80) in
             if continuation x \<and> continuation y \<and> continuation z \<and> 0x10000 \<le> c \<and> is_scalar c
             then map_option (Cons c) (decode_utf8 r) else None
         | _ \<Rightarrow> None)
      else None)"

lemma unat_cont: "unat (of_nat (0x80 + k mod 64) :: u8) = 0x80 + k mod 64"
proof -
  have "k mod 64 < 64" by simp
  then show ?thesis using unat_byte [of "0x80 + k mod 64"] by simp
qed

lemma decode1: "unat b < 0x80 \<Longrightarrow> decode_utf8 (b # r) = map_option (Cons (unat b)) (decode_utf8 r)"
  by simp

lemma decode2:
  "unat b = 0xC0 + i \<Longrightarrow> 2 \<le> i \<Longrightarrow> i < 32 \<Longrightarrow> unat x = 0x80 + j \<Longrightarrow> j < 64 \<Longrightarrow>
     decode_utf8 (b # x # r) = map_option (Cons (i * 64 + j)) (decode_utf8 r)"
  by (simp add: continuation_def)

lemma decode3:
  "unat b = 0xE0 + i \<Longrightarrow> i < 16 \<Longrightarrow> unat x = 0x80 + j \<Longrightarrow> j < 64 \<Longrightarrow>
   unat y = 0x80 + k \<Longrightarrow> k < 64 \<Longrightarrow> c = i * 4096 + j * 64 + k \<Longrightarrow> 0x800 \<le> c \<Longrightarrow> is_scalar c \<Longrightarrow>
     decode_utf8 (b # x # y # r) = map_option (Cons c) (decode_utf8 r)"
  by (simp add: continuation_def)

lemma decode4:
  "unat b = 0xF0 + i \<Longrightarrow> i < 5 \<Longrightarrow> unat x = 0x80 + j \<Longrightarrow> j < 64 \<Longrightarrow>
   unat y = 0x80 + k \<Longrightarrow> k < 64 \<Longrightarrow> unat z = 0x80 + l \<Longrightarrow> l < 64 \<Longrightarrow>
   c = i * 262144 + j * 4096 + k * 64 + l \<Longrightarrow> 0x10000 \<le> c \<Longrightarrow> is_scalar c \<Longrightarrow>
     decode_utf8 (b # x # y # z # r) = map_option (Cons c) (decode_utf8 r)"
  by (simp add: continuation_def)

declare decode_utf8.simps(2) [simp del]

lemma split64:
  "(c::nat) div 64 * 64 + c mod 64 = c"
  "c div 4096 * 64 + c div 64 mod 64 = c div 64"
  "c div 262144 * 64 + c div 4096 mod 64 = c div 4096"
  using div_mult2_eq [of c 64 64] div_mult2_eq [of c 4096 64]
    div_mult_mod_eq [of "c div 64" 64] div_mult_mod_eq [of "c div 4096" 64]
  by simp_all

lemma decode_encode:
  assumes "is_scalar c"
  shows "decode_utf8 (encode_utf8 c @ bs) = map_option (Cons c) (decode_utf8 bs)"
proof -
  consider "c < 0x80" | "0x80 \<le> c" "c < 0x800" | "0x800 \<le> c" "c < 0x10000"
    | "0x10000 \<le> c" "c < 0x110000"
    using assms unfolding is_scalar_def by linarith
  then show ?thesis
  proof cases
    case 1
    then show ?thesis using unat_byte [of c] by (simp add: encode_utf8_def decode1)
  next
    case 2
    then have "unat (of_nat (0xC0 + c div 64) :: u8) = 0xC0 + c div 64" by (intro unat_byte) simp
    from decode2 [OF this _ _ unat_cont] show ?thesis
      using 2 split64(1) [of c] by (simp add: encode_utf8_def del: of_nat_add)
  next
    case 3
    then have "unat (of_nat (0xE0 + c div 4096) :: u8) = 0xE0 + c div 4096" by (intro unat_byte) simp
    moreover have "c = c div 4096 * 4096 + c div 64 mod 64 * 64 + c mod 64"
      using split64 [of c] by linarith
    ultimately show ?thesis
      using decode3 [OF _ _ unat_cont [of "c div 64"] _ unat_cont [of c], of _ "c div 4096" c bs]
        3 assms by (simp add: encode_utf8_def del: of_nat_add)
  next
    case 4
    then have "unat (of_nat (0xF0 + c div 262144) :: u8) = 0xF0 + c div 262144"
      by (intro unat_byte) simp
    moreover have "c = c div 262144 * 262144 + c div 4096 mod 64 * 4096 + c div 64 mod 64 * 64 + c mod 64"
      using split64 [of c] by linarith
    ultimately show ?thesis
      using decode4 [OF _ _ unat_cont [of "c div 4096"] _ unat_cont [of "c div 64"] _ unat_cont [of c],
          of _ "c div 262144" c bs]
        4 assms by (simp add: encode_utf8_def del: of_nat_add)
  qed
qed

lemma decode_as_bytes: "text_ok s \<Longrightarrow> decode_utf8 (as_bytes s) = Some s"
  by (induction s) (simp_all add: decode_encode)

section \<open>White space\<close>

text \<open>\<open>char::is_whitespace\<close>: the characters with the Unicode property \<open>White_Space\<close>.\<close>

definition is_whitespace :: "nat \<Rightarrow> bool" where
  "is_whitespace c \<longleftrightarrow>
     9 \<le> c \<and> c \<le> 13 \<or> c = 0x20 \<or> c = 0x85 \<or> c = 0xA0 \<or> c = 0x1680 \<or>
     0x2000 \<le> c \<and> c \<le> 0x200A \<or> c = 0x2028 \<or> c = 0x2029 \<or> c = 0x202F \<or> c = 0x205F \<or>
     c = 0x3000"

end
