(* ===== verification/Xsh_Line.thy ===== *)
theory Xsh_Line
  imports Xsh_Text
begin

text \<open>
  The interactive line editor's buffer (\<open>LineBuffer\<close> of \<open>interactive/line.rs\<close>): a text, a cursor
  that is a byte offset, and the kill ring. A method that slices the text at an offset inside a
  character panics: it is \<open>None\<close> here. The second half relates the buffer to the pair of texts
  before and after the cursor.
\<close>

record line_buffer =
  buf :: text_str
  cursor_at :: nat
  kill_ring :: text_str

definition line_new :: line_buffer where
  "line_new = \<lparr>buf = [], cursor_at = 0, kill_ring = []\<rparr>"

definition line_set :: "text_str \<Rightarrow> line_buffer \<Rightarrow> line_buffer" where
  "line_set s lb = lb\<lparr>buf := s, cursor_at := tlen s\<rparr>"

fun down_to_boundary :: "text_str \<Rightarrow> nat \<Rightarrow> nat" where
  "down_to_boundary s 0 = 0"
| "down_to_boundary s (Suc i) =
     (if is_char_boundary s (Suc i) then Suc i else down_to_boundary s i)"

definition set_with_cursor :: "text_str \<Rightarrow> nat \<Rightarrow> line_buffer \<Rightarrow> line_buffer" where
  "set_with_cursor s at_pos lb =
     lb\<lparr>buf := s, cursor_at := down_to_boundary s (min at_pos (tlen s))\<rparr>"

section \<open>Characters around the cursor\<close>

definition prev_char_boundary :: "line_buffer \<Rightarrow> nat option" where
  "prev_char_boundary lb =
     (if cursor_at lb = 0 then Some 0
      else
        (let prev = cursor_at lb - 1 in
         case byte_at (buf lb) prev of
           None \<Rightarrow> None
         | Some b \<Rightarrow> if b < 0x80 then Some prev else Some (down_to_boundary (buf lb) prev)))"

function up_to_boundary :: "text_str \<Rightarrow> nat \<Rightarrow> nat" where
  "up_to_boundary s pos =
     (if pos < tlen s \<and> \<not> is_char_boundary s pos then up_to_boundary s (pos + 1) else pos)"
  by pat_completeness auto
termination
  by (relation "measure (\<lambda>(s, pos). tlen s - pos)") auto

declare up_to_boundary.simps [simp del]

definition next_char_boundary :: "line_buffer \<Rightarrow> nat option" where
  "next_char_boundary lb =
     (let nxt = cursor_at lb + 1 in
      if tlen (buf lb) \<le> nxt then Some (tlen (buf lb))
      else
        (case byte_at (buf lb) (cursor_at lb) of
           None \<Rightarrow> None
         | Some b \<Rightarrow>
             if b < 0x80 then Some nxt
             else Some (min (up_to_boundary (buf lb) nxt) (tlen (buf lb)))))"

definition char_before_cursor :: "line_buffer \<Rightarrow> nat option option" where
  "char_before_cursor lb =
     (if cursor_at lb = 0 then Some None
      else
        (case byte_at (buf lb) (cursor_at lb - 1) of
           None \<Rightarrow> None
         | Some b \<Rightarrow>
             if b < 0x80 then Some (Some (unat b))
             else map_option (\<lambda>(a, _). if a = [] then None else Some (last a))
               (split_bytes (cursor_at lb) (buf lb))))"

definition char_at_cursor :: "line_buffer \<Rightarrow> nat option option" where
  "char_at_cursor lb =
     (if tlen (buf lb) \<le> cursor_at lb then Some None
      else
        (case byte_at (buf lb) (cursor_at lb) of
           None \<Rightarrow> None
         | Some b \<Rightarrow>
             if b < 0x80 then Some (Some (unat b))
             else map_option (\<lambda>(_, b). if b = [] then None else Some (hd b))
               (split_bytes (cursor_at lb) (buf lb))))"

section \<open>Insertion and deletion\<close>

text \<open>\<open>String::insert_str\<close>, \<open>drain\<close> and \<open>truncate\<close> assert that their offsets are boundaries.\<close>

definition string_insert :: "nat \<Rightarrow> text_str \<Rightarrow> text_str \<Rightarrow> text_str option" where
  "string_insert i t s = map_option (\<lambda>(a, b). a @ t @ b) (split_bytes i s)"

definition string_drain :: "nat \<Rightarrow> nat \<Rightarrow> text_str \<Rightarrow> text_str option" where
  "string_drain i j s =
     (case split_bytes j s of
        None \<Rightarrow> None
      | Some (ab, c) \<Rightarrow> map_option (\<lambda>(a, _). a @ c) (split_bytes i ab))"

definition string_slice :: "nat \<Rightarrow> nat \<Rightarrow> text_str \<Rightarrow> text_str option" where
  "string_slice i j s =
     (case split_bytes j s of
        None \<Rightarrow> None
      | Some (ab, _) \<Rightarrow> map_option snd (split_bytes i ab))"

definition insert_str :: "text_str \<Rightarrow> line_buffer \<Rightarrow> line_buffer option" where
  "insert_str s lb =
     map_option (\<lambda>t. lb\<lparr>buf := t, cursor_at := cursor_at lb + tlen s\<rparr>)
       (string_insert (cursor_at lb) s (buf lb))"

definition insert_char :: "nat \<Rightarrow> line_buffer \<Rightarrow> line_buffer option" where
  "insert_char c lb =
     map_option (\<lambda>t. lb\<lparr>buf := t, cursor_at := cursor_at lb + len_utf8 c\<rparr>)
       (string_insert (cursor_at lb) [c] (buf lb))"

definition delete_back :: "line_buffer \<Rightarrow> (bool \<times> line_buffer) option" where
  "delete_back lb =
     (if cursor_at lb = 0 then Some (False, lb)
      else
        (case prev_char_boundary lb of
           None \<Rightarrow> None
         | Some prev \<Rightarrow>
             map_option (\<lambda>t. (True, lb\<lparr>buf := t, cursor_at := prev\<rparr>))
               (string_drain prev (cursor_at lb) (buf lb))))"

definition delete_forward :: "line_buffer \<Rightarrow> (bool \<times> line_buffer) option" where
  "delete_forward lb =
     (if tlen (buf lb) \<le> cursor_at lb then Some (False, lb)
      else
        (case next_char_boundary lb of
           None \<Rightarrow> None
         | Some nxt \<Rightarrow>
             map_option (\<lambda>t. (True, lb\<lparr>buf := t\<rparr>)) (string_drain (cursor_at lb) nxt (buf lb))))"

section \<open>Movement\<close>

definition move_left :: "line_buffer \<Rightarrow> (bool \<times> line_buffer) option" where
  "move_left lb =
     (if cursor_at lb = 0 then Some (False, lb)
      else map_option (\<lambda>p. (True, lb\<lparr>cursor_at := p\<rparr>)) (prev_char_boundary lb))"

definition move_right :: "line_buffer \<Rightarrow> (bool \<times> line_buffer) option" where
  "move_right lb =
     (if tlen (buf lb) \<le> cursor_at lb then Some (False, lb)
      else map_option (\<lambda>p. (True, lb\<lparr>cursor_at := p\<rparr>)) (next_char_boundary lb))"

definition move_home :: "line_buffer \<Rightarrow> line_buffer" where
  "move_home lb = lb\<lparr>cursor_at := 0\<rparr>"

definition move_end :: "line_buffer \<Rightarrow> line_buffer" where
  "move_end lb = lb\<lparr>cursor_at := tlen (buf lb)\<rparr>"

lemma down_le: "down_to_boundary s i \<le> i"
  by (induction s i rule: down_to_boundary.induct) auto

lemma prev_less: "prev_char_boundary lb = Some p \<Longrightarrow> 0 < cursor_at lb \<Longrightarrow> p < cursor_at lb"
  using down_le [of "buf lb" "cursor_at lb - 1"]
  by (auto simp: prev_char_boundary_def Let_def split: option.splits if_splits)

lemma up_ge: "pos \<le> up_to_boundary s pos"
proof (induction s pos rule: up_to_boundary.induct)
  case (1 s pos)
  then show ?case by (subst up_to_boundary.simps) auto
qed

lemma next_greater:
  "next_char_boundary lb = Some p \<Longrightarrow> cursor_at lb < tlen (buf lb) \<Longrightarrow>
     cursor_at lb < p \<and> p \<le> tlen (buf lb)"
  using up_ge [of "cursor_at lb + 1" "buf lb"]
  by (auto simp: next_char_boundary_def Let_def split: option.splits if_splits)

text \<open>The loops \<open>while cursor > 0 && char_before_cursor().is_some_and(p)\<close> and their mirror.\<close>

function back_while :: "(nat \<Rightarrow> bool) \<Rightarrow> line_buffer \<Rightarrow> line_buffer option" where
  "back_while p lb =
     (if 0 < cursor_at lb then
        (case char_before_cursor lb of
           None \<Rightarrow> None
         | Some None \<Rightarrow> Some lb
         | Some (Some c) \<Rightarrow>
             if p c then
               (case prev_char_boundary lb of
                  None \<Rightarrow> None
                | Some i \<Rightarrow> back_while p (lb\<lparr>cursor_at := i\<rparr>))
             else Some lb)
      else Some lb)"
  by pat_completeness auto
termination
  by (relation "measure (\<lambda>(p, lb). cursor_at lb)") (auto dest: prev_less)

function forward_while :: "(nat \<Rightarrow> bool) \<Rightarrow> line_buffer \<Rightarrow> line_buffer option" where
  "forward_while p lb =
     (if cursor_at lb < tlen (buf lb) then
        (case char_at_cursor lb of
           None \<Rightarrow> None
         | Some None \<Rightarrow> Some lb
         | Some (Some c) \<Rightarrow>
             if p c then
               (case next_char_boundary lb of
                  None \<Rightarrow> None
                | Some i \<Rightarrow> forward_while p (lb\<lparr>cursor_at := i\<rparr>))
             else Some lb)
      else Some lb)"
  by pat_completeness auto
termination
  by (relation "measure (\<lambda>(p, lb). tlen (buf lb) - cursor_at lb)") (auto dest: next_greater)

declare back_while.simps [simp del] forward_while.simps [simp del]

definition bindO :: "'a option \<Rightarrow> ('a \<Rightarrow> 'b option) \<Rightarrow> 'b option" where
  "bindO x f = (case x of None \<Rightarrow> None | Some a \<Rightarrow> f a)"

lemma bindO_simps [simp]: "bindO None f = None" "bindO (Some a) f = f a"
  by (simp_all add: bindO_def)

definition move_word_left :: "line_buffer \<Rightarrow> line_buffer option" where
  "move_word_left lb = bindO (back_while is_whitespace lb) (back_while (\<lambda>c. \<not> is_whitespace c))"

definition move_word_right :: "line_buffer \<Rightarrow> line_buffer option" where
  "move_word_right lb =
     bindO (forward_while (\<lambda>c. \<not> is_whitespace c) lb) (forward_while is_whitespace)"

section \<open>The kill ring\<close>

definition kill_to_end :: "line_buffer \<Rightarrow> line_buffer option" where
  "kill_to_end lb =
     (if cursor_at lb < tlen (buf lb) then
        map_option (\<lambda>(a, b). lb\<lparr>kill_ring := b, buf := a\<rparr>) (split_bytes (cursor_at lb) (buf lb))
      else Some lb)"

definition kill_to_start :: "line_buffer \<Rightarrow> line_buffer option" where
  "kill_to_start lb =
     (if 0 < cursor_at lb then
        map_option (\<lambda>(a, b). lb\<lparr>kill_ring := a, buf := b, cursor_at := 0\<rparr>)
          (split_bytes (cursor_at lb) (buf lb))
      else Some lb)"

text \<open>Cut the text from \<open>i\<close> to \<open>j\<close> into the kill ring and put the cursor at \<open>i\<close>.\<close>

definition kill_range :: "nat \<Rightarrow> nat \<Rightarrow> line_buffer \<Rightarrow> line_buffer option" where
  "kill_range i j lb =
     bindO (string_slice i j (buf lb)) (\<lambda>cut.
     bindO (string_drain i j (buf lb)) (\<lambda>rest.
       Some (lb\<lparr>kill_ring := cut, buf := rest, cursor_at := i\<rparr>)))"

definition kill_word_back :: "line_buffer \<Rightarrow> line_buffer option" where
  "kill_word_back lb =
     bindO (back_while is_whitespace lb) (\<lambda>lb1.
     bindO (back_while (\<lambda>c. \<not> is_whitespace c) lb1) (\<lambda>lb2.
       if cursor_at lb2 < cursor_at lb
       then kill_range (cursor_at lb2) (cursor_at lb) lb2 else Some lb2))"

definition kill_word_forward :: "line_buffer \<Rightarrow> line_buffer option" where
  "kill_word_forward lb =
     bindO (forward_while is_whitespace lb) (\<lambda>lb1.
     bindO (forward_while (\<lambda>c. \<not> is_whitespace c) lb1) (\<lambda>lb2.
       if cursor_at lb < cursor_at lb2
       then kill_range (cursor_at lb) (cursor_at lb2) lb2 else Some lb2))"

definition yank :: "line_buffer \<Rightarrow> line_buffer option" where
  "yank lb = (if kill_ring lb \<noteq> [] then insert_str (kill_ring lb) lb else Some lb)"

section \<open>Lines\<close>

abbreviation newline :: nat where "newline \<equiv> 10"

definition find_newline :: "text_str \<Rightarrow> nat option" where
  "find_newline s =
     (if newline \<in> set s then Some (tlen (takeWhile (\<lambda>c. c \<noteq> newline) s)) else None)"

definition rfind_newline :: "text_str \<Rightarrow> nat option" where
  "rfind_newline s =
     (if newline \<in> set s
      then Some (tlen s - 1 - tlen (takeWhile (\<lambda>c. c \<noteq> newline) (rev s))) else None)"

definition after_newline :: "text_str \<Rightarrow> nat" where
  "after_newline s = (case rfind_newline s of Some i \<Rightarrow> i + 1 | None \<Rightarrow> 0)"

definition has_newlines :: "line_buffer \<Rightarrow> bool" where
  "has_newlines lb \<longleftrightarrow> newline \<in> set (buf lb)"

definition on_first_line :: "line_buffer \<Rightarrow> bool option" where
  "on_first_line lb =
     map_option (\<lambda>(a, _). newline \<notin> set a) (split_bytes (cursor_at lb) (buf lb))"

definition on_last_line :: "line_buffer \<Rightarrow> bool option" where
  "on_last_line lb =
     map_option (\<lambda>(_, b). newline \<notin> set b) (split_bytes (cursor_at lb) (buf lb))"

definition move_line_up :: "line_buffer \<Rightarrow> (bool \<times> line_buffer) option" where
  "move_line_up lb =
     bindO (split_bytes (cursor_at lb) (buf lb)) (\<lambda>(before, _).
       case rfind_newline before of
         None \<Rightarrow> Some (False, lb)
       | Some i \<Rightarrow>
           (let cur_line_start = i + 1;
                col = cursor_at lb - cur_line_start
            in bindO (split_bytes (cur_line_start - 1) (buf lb)) (\<lambda>(upper, _).
                 let prev_line_start = after_newline upper;
                     prev_line_len = (cur_line_start - 1) - prev_line_start
                 in Some (True, lb\<lparr>cursor_at := prev_line_start + min col prev_line_len\<rparr>))))"

definition move_line_down :: "line_buffer \<Rightarrow> (bool \<times> line_buffer) option" where
  "move_line_down lb =
     bindO (split_bytes (cursor_at lb) (buf lb)) (\<lambda>(before, behind).
       let cur_line_start = after_newline before;
           col = cursor_at lb - cur_line_start
       in case find_newline behind of
            None \<Rightarrow> Some (False, lb)
          | Some i \<Rightarrow>
              (let next_line_start = cursor_at lb + i + 1 in
               bindO (split_bytes next_line_start (buf lb)) (\<lambda>(_, lower).
                 let next_line_end = (case find_newline lower of
                       Some j \<Rightarrow> next_line_start + j | None \<Rightarrow> tlen (buf lb));
                     next_line_len = next_line_end - next_line_start
                 in Some (True, lb\<lparr>cursor_at := next_line_start + min col next_line_len\<rparr>))))"

section \<open>Display columns\<close>

definition in_ranges :: "(nat \<times> nat) list \<Rightarrow> nat \<Rightarrow> bool" where
  "in_ranges rs c \<longleftrightarrow> list_ex (\<lambda>(lo, hi). lo \<le> c \<and> c \<le> hi) rs"

definition wide_ranges :: "(nat \<times> nat) list" where
  "wide_ranges =
     [(0x1100, 0x115F), (0x231A, 0x231B), (0x2329, 0x232A), (0x23E9, 0x23F3),
      (0x23F8, 0x23FA), (0x25FD, 0x25FE), (0x2614, 0x2615), (0x2648, 0x2653),
      (0x267F, 0x267F), (0x2693, 0x2693), (0x26A1, 0x26A1), (0x26AA, 0x26AB),
      (0x26BD, 0x26BE), (0x26C4, 0x26C5), (0x26CE, 0x26CE), (0x26D4, 0x26D4),
      (0x26EA, 0x26EA), (0x26F2, 0x26F3), (0x26F5, 0x26F5), (0x26FA, 0x26FA),
      (0x26FD, 0x26FD), (0x2702, 0x2702), (0x2705, 0x2705), (0x2708, 0x270D),
      (0x270F, 0x270F), (0x2712, 0x2712), (0x2714, 0x2714), (0x2716, 0x2716),
      (0x271D, 0x271D), (0x2721, 0x2721), (0x2728, 0x2728), (0x2733, 0x2734),
      (0x2744, 0x2744), (0x2747, 0x2747), (0x274C, 0x274C), (0x274E, 0x274E),
      (0x2753, 0x2755), (0x2757, 0x2757), (0x2763, 0x2764), (0x2795, 0x2797),
      (0x27A1, 0x27A1), (0x27B0, 0x27B0), (0x27BF, 0x27BF), (0x2934, 0x2935),
      (0x2B05, 0x2B07), (0x2B1B, 0x2B1C), (0x2B50, 0x2B50), (0x2B55, 0x2B55),
      (0x2E80, 0x303E), (0x3040, 0x33BF), (0x3400, 0x4DBF), (0x4E00, 0xA4CF),
      (0xA960, 0xA97C), (0xAC00, 0xD7A3), (0xF900, 0xFAFF), (0xFE10, 0xFE19),
      (0xFE30, 0xFE6B), (0xFF01, 0xFF60), (0xFFE0, 0xFFE6), (0x1F004, 0x1F004),
      (0x1F0CF, 0x1F0CF), (0x1F170, 0x1F171), (0x1F17E, 0x1F17F), (0x1F18E, 0x1F18E),
      (0x1F191, 0x1F19A), (0x1F1E0, 0x1F1FF), (0x1F200, 0x1F202), (0x1F210, 0x1F23B),
      (0x1F240, 0x1F248), (0x1F250, 0x1F251), (0x1F260, 0x1F265), (0x1F300, 0x1F9FF),
      (0x1FA00, 0x1FA6F), (0x1FA70, 0x1FAFF), (0x20000, 0x2FA1F), (0x30000, 0x3134F)]"

definition is_wide :: "nat \<Rightarrow> bool" where
  "is_wide c = in_ranges wide_ranges c"

definition char_width :: "nat \<Rightarrow> nat" where
  "char_width cp =
     (if cp < 0x7F then (if 0x20 \<le> cp then 1 else 0)
      else if cp < 0xA0 \<or> cp = 0xAD then 0
      else if in_ranges [(0x200B, 0x200F), (0x2028, 0x202E), (0x2060, 0x2064), (0xFEFF, 0xFEFF)] cp
      then 0
      else if in_ranges [(0x0300, 0x036F), (0x1AB0, 0x1AFF), (0x1DC0, 0x1DFF), (0x20D0, 0x20FF),
                         (0xFE20, 0xFE2F)] cp
      then 0
      else if is_wide cp then 2 else 1)"

definition str_width :: "text_str \<Rightarrow> nat" where
  "str_width s = sum_list (map char_width s)"

abbreviation is_ascii :: "text_str \<Rightarrow> bool" where
  "is_ascii s \<equiv> list_all (\<lambda>c. c < 0x80) s"

definition display_cursor_pos :: "line_buffer \<Rightarrow> nat option" where
  "display_cursor_pos lb =
     (if is_ascii (buf lb) then Some (cursor_at lb)
      else map_option (\<lambda>(a, _). str_width a) (split_bytes (cursor_at lb) (buf lb)))"

definition display_len :: "line_buffer \<Rightarrow> nat" where
  "display_len lb = (if is_ascii (buf lb) then tlen (buf lb) else str_width (buf lb))"

definition grid_cursor_position :: "nat \<Rightarrow> u16 \<Rightarrow> line_buffer \<Rightarrow> (nat \<times> nat) option" where
  "grid_cursor_position prompt_display_len term_cols lb =
     map_option (\<lambda>pos.
         let cols = max (unat term_cols) 1; total = prompt_display_len + pos
         in (total div cols, total mod cols))
       (display_cursor_pos lb)"

fun display_offset :: "nat \<Rightarrow> nat \<Rightarrow> nat \<Rightarrow> text_str \<Rightarrow> nat" where
  "display_offset target byte display [] = byte"
| "display_offset target byte display (ch # chs) =
     (let nxt = display + char_width ch in
      if target < nxt then byte
      else if target = nxt then byte + len_utf8 ch
      else display_offset target (byte + len_utf8 ch) nxt chs)"

definition byte_offset_for_display_pos :: "nat \<Rightarrow> line_buffer \<Rightarrow> nat" where
  "byte_offset_for_display_pos target lb =
     (if target = 0 then 0 else display_offset target 0 0 (buf lb))"

definition move_grid ::
  "bool \<Rightarrow> nat \<Rightarrow> u16 \<Rightarrow> nat \<Rightarrow> line_buffer \<Rightarrow> (bool \<times> line_buffer) option" where
  "move_grid up prompt_display_len term_cols target_col lb =
     (if buf lb = [] then Some (False, lb)
      else
        bindO (grid_cursor_position prompt_display_len term_cols lb) (\<lambda>(row, _).
          let cols = max (unat term_cols) 1;
              last_row = (prompt_display_len + display_len lb) div cols;
              target_row =
                (if up then (if prompt_display_len div cols < row then Some (row - 1) else None)
                 else if row < last_row then Some (row + 1) else None)
          in case target_row of
               None \<Rightarrow> Some (False, lb)
             | Some target_row \<Rightarrow>
                 (let target_total = target_row * cols + min target_col (cols - 1);
                      target_display = target_total - prompt_display_len
                  in Some (True, lb\<lparr>cursor_at := byte_offset_for_display_pos target_display lb\<rparr>))))"

end
