(* ===== verification/Xsh_Line_Correct.thy ===== *)
theory Xsh_Line_Correct
  imports Xsh_Line
begin

text \<open>
  The line buffer against its abstraction, the texts before and after the cursor and the kill
  ring: every editing method does on the bytes what it says on the characters, and none of them
  panics. The exceptions are the two line movements, which can leave the cursor inside a
  character.
\<close>

record zipper =
  before :: text_str
  after :: text_str
  ring :: text_str

definition holds :: "line_buffer \<Rightarrow> zipper \<Rightarrow> bool" where
  "holds lb z \<longleftrightarrow>
     buf lb = before z @ after z \<and> cursor_at lb = tlen (before z) \<and> kill_ring lb = ring z \<and>
     text_ok (before z) \<and> text_ok (after z) \<and> text_ok (ring z)"

section \<open>Steps over one character\<close>

lemma down_inside:
  "text_ok (a @ c # b) \<Longrightarrow> k < len_utf8 c \<Longrightarrow> down_to_boundary (a @ c # b) (tlen a + k) = tlen a"
proof (induction k)
  case 0
  then show ?case using boundary_append [of a "c # b"] by (cases "tlen a") auto
next
  case (Suc k)
  then show ?case using boundary_inside [of a c b "Suc k"] by simp
qed

lemma up_inside:
  assumes "text_ok (a @ c # b)"
  shows "0 < k \<Longrightarrow> k \<le> len_utf8 c \<Longrightarrow> up_to_boundary (a @ c # b) (tlen a + k) = tlen a + len_utf8 c"
proof (induction "len_utf8 c - k" arbitrary: k)
  case 0
  then have "k = len_utf8 c" by simp
  moreover have "is_char_boundary ((a @ [c]) @ b) (tlen (a @ [c]))"
    using assms by (intro boundary_append) simp
  ultimately show ?case by (subst up_to_boundary.simps) simp
next
  case (Suc d)
  then have "\<not> is_char_boundary (a @ c # b) (tlen a + k)"
    by (intro boundary_inside [OF assms]) simp_all
  moreover have "up_to_boundary (a @ c # b) (tlen a + Suc k) = tlen a + len_utf8 c"
    using Suc by (intro Suc.hyps) simp_all
  ultimately show ?case using Suc by (subst up_to_boundary.simps) simp
qed

lemma byte_first: "text_ok (a @ c # b) \<Longrightarrow> \<exists>x. byte_at (a @ c # b) (tlen a) = Some x \<and>
    (x < 0x80 \<longleftrightarrow> c < 0x80) \<and> (c < 0x80 \<longrightarrow> unat x = c)"
  using encode_head [of c] nth_as_bytes [of 0 c a b] by (auto simp: byte_at_def)

lemma byte_last:
  assumes "text_ok (a @ c # b)"
  shows "\<exists>x. byte_at (a @ c # b) (tlen a + len_utf8 c - 1) = Some x \<and>
    (x < 0x80 \<longleftrightarrow> c < 0x80) \<and> (c < 0x80 \<longrightarrow> unat x = c)"
proof (cases "c < 0x80")
  case True
  then show ?thesis using byte_first [OF assms] by (simp add: len_utf8_def)
next
  case False
  then have "1 < len_utf8 c" by (simp add: len_utf8_def)
  then have "continuation (encode_utf8 c ! (len_utf8 c - 1))"
    using encode_later [of c "len_utf8 c - 1"] assms by simp
  moreover have "as_bytes (a @ c # b) ! (tlen a + (len_utf8 c - 1)) = encode_utf8 c ! (len_utf8 c - 1)"
    by (rule nth_as_bytes) simp
  ultimately show ?thesis
    using False \<open>1 < len_utf8 c\<close> by (auto simp: byte_at_def continuation_def byte_less_80)
qed

lemma prev_boundary:
  assumes "buf lb = a @ c # b" "cursor_at lb = tlen a + len_utf8 c" "text_ok (a @ c # b)"
  shows "prev_char_boundary lb = Some (tlen a)"
proof -
  obtain x where x: "byte_at (a @ c # b) (tlen a + len_utf8 c - 1) = Some x" "x < 0x80 \<longleftrightarrow> c < 0x80"
    using byte_last [OF assms(3)] by blast
  have "down_to_boundary (a @ c # b) (tlen a + (len_utf8 c - 1)) = tlen a"
    by (rule down_inside [OF assms(3)]) simp
  moreover have "c < 0x80 \<Longrightarrow> len_utf8 c = 1" by (simp add: len_utf8_def)
  ultimately show ?thesis
    using x assms(1,2) len_utf8_pos [of c]
    by (simp add: prev_char_boundary_def Let_def)
qed

lemma next_boundary:
  assumes "buf lb = a @ c # b" "cursor_at lb = tlen a" "text_ok (a @ c # b)"
  shows "next_char_boundary lb = Some (tlen a + len_utf8 c)"
proof -
  obtain x where x: "byte_at (a @ c # b) (tlen a) = Some x" "x < 0x80 \<longleftrightarrow> c < 0x80"
    using byte_first [OF assms(3)] by blast
  have u: "up_to_boundary (a @ c # b) (tlen a + 1) = tlen a + len_utf8 c"
    using up_inside [OF assms(3), of 1] Suc_leI [OF len_utf8_pos [of c]] by simp
  have l: "c < 0x80 \<Longrightarrow> len_utf8 c = 1" by (simp add: len_utf8_def)
  have e: "tlen (buf lb) = tlen a + len_utf8 c" if "tlen (buf lb) \<le> cursor_at lb + 1"
  proof -
    have "tlen (buf lb) = tlen a + (len_utf8 c + tlen b)" using assms(1) by simp
    then show ?thesis using that assms(2) len_utf8_pos [of c] by linarith
  qed
  show ?thesis
    using x u l e assms(1,2) by (simp add: next_char_boundary_def Let_def del: tlen_zero)
qed

lemma char_before:
  assumes "buf lb = a @ c # b" "cursor_at lb = tlen a + len_utf8 c" "text_ok (a @ c # b)"
  shows "char_before_cursor lb = Some (Some c)"
proof -
  obtain x where x: "byte_at (a @ c # b) (tlen a + len_utf8 c - 1) = Some x" "x < 0x80 \<longleftrightarrow> c < 0x80"
    "c < 0x80 \<longrightarrow> unat x = c"
    using byte_last [OF assms(3)] by blast
  have "split_bytes (tlen (a @ [c])) ((a @ [c]) @ b) = Some (a @ [c], b)" by (rule split_bytes_append)
  then show ?thesis
    using x assms(1,2) len_utf8_pos [of c] by (auto simp: char_before_cursor_def)
qed

lemma char_at:
  assumes "buf lb = a @ c # b" "cursor_at lb = tlen a" "text_ok (a @ c # b)"
  shows "char_at_cursor lb = Some (Some c)"
proof -
  obtain x where x: "byte_at (a @ c # b) (tlen a) = Some x" "x < 0x80 \<longleftrightarrow> c < 0x80"
    "c < 0x80 \<longrightarrow> unat x = c"
    using byte_first [OF assms(3)] by blast
  have "split_bytes (tlen a) (a @ c # b) = Some (a, c # b)" by (rule split_bytes_append)
  then show ?thesis
    using x assms(1,2) len_utf8_pos [of c] by (auto simp: char_at_cursor_def)
qed

lemma back_while_spec:
  "buf lb = rev ra @ b \<Longrightarrow> cursor_at lb = tlen ra \<Longrightarrow> text_ok (rev ra @ b) \<Longrightarrow>
     back_while p lb = Some (lb\<lparr>cursor_at := tlen (dropWhile p ra)\<rparr>)"
proof (induction ra arbitrary: lb b)
  case Nil
  then show ?case by (subst back_while.simps) simp
next
  case (Cons c ra)
  have lb: "buf lb = rev ra @ c # b" "cursor_at lb = tlen (rev ra) + len_utf8 c"
    "text_ok (rev ra @ c # b)"
    using Cons.prems by simp_all
  have pos: "0 < cursor_at lb" using lb len_utf8_pos [of c] by simp
  show ?case
    using pos char_before [OF lb] prev_boundary [OF lb] Cons.prems
      Cons.IH [of "lb\<lparr>cursor_at := tlen ra\<rparr>" "c # b"]
    by (subst back_while.simps) simp
qed

lemma forward_while_spec:
  "buf lb = a @ b \<Longrightarrow> cursor_at lb = tlen a \<Longrightarrow> text_ok (a @ b) \<Longrightarrow>
     forward_while p lb = Some (lb\<lparr>cursor_at := tlen (a @ takeWhile p b)\<rparr>)"
proof (induction b arbitrary: lb a)
  case Nil
  then show ?case by (subst forward_while.simps) simp
next
  case (Cons c b)
  have pos: "cursor_at lb < tlen (buf lb)" using Cons.prems len_utf8_pos [of c] by simp
  show ?case
    using pos char_at [OF Cons.prems] next_boundary [OF Cons.prems] Cons.prems
      Cons.IH [of "lb\<lparr>cursor_at := tlen a + len_utf8 c\<rparr>" "a @ [c]"]
    by (subst forward_while.simps) (simp add: add.assoc)
qed

section \<open>The editing methods\<close>

datatype edit =
    Insert_char nat | Insert_str text_str | Delete_back | Delete_forward | Left_key | Right_key
  | Home | End | Word_left | Word_right | Kill_to_end | Kill_to_start | Kill_word_back
  | Kill_word_forward | Yank

fun run_edit :: "edit \<Rightarrow> line_buffer \<Rightarrow> line_buffer option" where
  "run_edit (Insert_char c) lb = insert_char c lb"
| "run_edit (Insert_str s) lb = insert_str s lb"
| "run_edit Delete_back lb = map_option snd (delete_back lb)"
| "run_edit Delete_forward lb = map_option snd (delete_forward lb)"
| "run_edit Left_key lb = map_option snd (move_left lb)"
| "run_edit Right_key lb = map_option snd (move_right lb)"
| "run_edit Home lb = Some (move_home lb)"
| "run_edit End lb = Some (move_end lb)"
| "run_edit Word_left lb = move_word_left lb"
| "run_edit Word_right lb = move_word_right lb"
| "run_edit Kill_to_end lb = kill_to_end lb"
| "run_edit Kill_to_start lb = kill_to_start lb"
| "run_edit Kill_word_back lb = kill_word_back lb"
| "run_edit Kill_word_forward lb = kill_word_forward lb"
| "run_edit Yank lb = yank lb"

fun edit_ok :: "edit \<Rightarrow> bool" where
  "edit_ok (Insert_char c) = is_scalar c"
| "edit_ok (Insert_str s) = text_ok s"
| "edit_ok e = True"

text \<open>The part of a text a word movement to the left goes over, and what stays before it.\<close>

definition word_back :: "text_str \<Rightarrow> text_str \<times> text_str" where
  "word_back a =
     (let ra = dropWhile (\<lambda>c. \<not> is_whitespace c) (dropWhile is_whitespace (rev a))
      in (rev ra, drop (length ra) a))"

definition span_word :: "(nat \<Rightarrow> bool) \<Rightarrow> (nat \<Rightarrow> bool) \<Rightarrow> text_str \<Rightarrow> text_str \<times> text_str" where
  "span_word p q b =
     (let n = length (takeWhile p b) + length (takeWhile q (dropWhile p b))
      in (take n b, drop n b))"

fun zip_edit :: "edit \<Rightarrow> zipper \<Rightarrow> zipper" where
  "zip_edit (Insert_char c) z = z\<lparr>before := before z @ [c]\<rparr>"
| "zip_edit (Insert_str s) z = z\<lparr>before := before z @ s\<rparr>"
| "zip_edit Delete_back z = z\<lparr>before := butlast (before z)\<rparr>"
| "zip_edit Delete_forward z = z\<lparr>after := drop 1 (after z)\<rparr>"
| "zip_edit Left_key z =
     (if before z = [] then z
      else z\<lparr>before := butlast (before z), after := last (before z) # after z\<rparr>)"
| "zip_edit Right_key z =
     z\<lparr>before := before z @ take 1 (after z), after := drop 1 (after z)\<rparr>"
| "zip_edit Home z = z\<lparr>before := [], after := before z @ after z\<rparr>"
| "zip_edit End z = z\<lparr>before := before z @ after z, after := []\<rparr>"
| "zip_edit Word_left z =
     (case word_back (before z) of (a, w) \<Rightarrow> z\<lparr>before := a, after := w @ after z\<rparr>)"
| "zip_edit Word_right z =
     (case span_word (\<lambda>c. \<not> is_whitespace c) is_whitespace (after z) of
        (w, b) \<Rightarrow> z\<lparr>before := before z @ w, after := b\<rparr>)"
| "zip_edit Kill_to_end z =
     (if after z = [] then z else z\<lparr>after := [], ring := after z\<rparr>)"
| "zip_edit Kill_to_start z =
     (if before z = [] then z else z\<lparr>before := [], ring := before z\<rparr>)"
| "zip_edit Kill_word_back z =
     (case word_back (before z) of (a, w) \<Rightarrow>
        if w = [] then z else z\<lparr>before := a, ring := w\<rparr>)"
| "zip_edit Kill_word_forward z =
     (case span_word is_whitespace (\<lambda>c. \<not> is_whitespace c) (after z) of
        (w, b) \<Rightarrow> if w = [] then z else z\<lparr>after := b, ring := w\<rparr>)"
| "zip_edit Yank z = z\<lparr>before := before z @ ring z\<rparr>"


section \<open>Refinement\<close>

lemma string_insert_at: "string_insert (tlen a) t (a @ b) = Some (a @ t @ b)"
  by (simp add: string_insert_def)

lemma split_middle: "split_bytes (tlen a + tlen m) (a @ m @ b) = Some (a @ m, b)"
  using split_bytes_append [of "a @ m" b] by simp

lemma string_drain_at: "string_drain (tlen a) (tlen a + tlen m) (a @ m @ b) = Some (a @ b)"
  by (simp add: string_drain_def split_middle)

lemma string_slice_at: "string_slice (tlen a) (tlen a + tlen m) (a @ m @ b) = Some m"
  by (simp add: string_slice_def split_middle)

lemma kill_range_at:
  "buf lb = a @ m @ b \<Longrightarrow> i = tlen a \<Longrightarrow> j = tlen a + tlen m \<Longrightarrow>
     kill_range i j lb = Some (lb\<lparr>kill_ring := m, buf := a @ b, cursor_at := i\<rparr>)"
  by (simp add: kill_range_def string_slice_at string_drain_at)

lemma word_back_split: "word_back a = (x, w) \<Longrightarrow> a = x @ w"
proof -
  assume wb: "word_back a = (x, w)"
  have "\<exists>p. rev a = p @ dropWhile (\<lambda>c. \<not> is_whitespace c) (dropWhile is_whitespace (rev a))"
    by (metis takeWhile_dropWhile_id append.assoc)
  then obtain p where "rev a = p @ dropWhile (\<lambda>c. \<not> is_whitespace c) (dropWhile is_whitespace (rev a))"
    by blast
  then have "a = rev (dropWhile (\<lambda>c. \<not> is_whitespace c) (dropWhile is_whitespace (rev a))) @ rev p"
    by (metis rev_append rev_rev_ident)
  then show ?thesis using wb by (metis word_back_def append_eq_conv_conj length_rev prod.inject)
qed

lemma word_left_at:
  assumes "buf lb = a @ b" "cursor_at lb = tlen a" "text_ok (a @ b)" "word_back a = (x, w)"
  shows "bindO (back_while is_whitespace lb) (\<lambda>lb1. bindO (back_while (\<lambda>c. \<not> is_whitespace c) lb1) f) =
    f (lb\<lparr>cursor_at := tlen x\<rparr>)"
proof -
  have one: "back_while is_whitespace lb =
      Some (lb\<lparr>cursor_at := tlen (dropWhile is_whitespace (rev a))\<rparr>)"
    using assms(1-3) by (intro back_while_spec [of lb "rev a" b]) simp_all
  define d where "d = dropWhile is_whitespace (rev a)"
  obtain t where t: "a = rev d @ t"
    unfolding d_def by (metis rev_append rev_rev_ident takeWhile_dropWhile_id)
  have lb: "buf (lb\<lparr>cursor_at := tlen d\<rparr>) = rev d @ t @ b" "text_ok (rev d @ t @ b)"
    using assms(1,3) unfolding t by simp_all
  have "back_while (\<lambda>c. \<not> is_whitespace c) (lb\<lparr>cursor_at := tlen d\<rparr>) =
      Some ((lb\<lparr>cursor_at := tlen d\<rparr>)\<lparr>cursor_at := tlen (dropWhile (\<lambda>c. \<not> is_whitespace c) d)\<rparr>)"
    by (rule back_while_spec [OF lb(1) _ lb(2)]) simp
  with one assms(4) show ?thesis by (auto simp: word_back_def Let_def d_def)
qed

lemma span_word_split: "span_word p q b = (w, r) \<Longrightarrow> b = w @ r"
  by (auto simp: span_word_def Let_def)

lemma word_right_at:
  assumes "buf lb = a @ b" "cursor_at lb = tlen a" "text_ok (a @ b)" "span_word p q b = (w, r)"
  shows "bindO (forward_while p lb) (\<lambda>lb1. bindO (forward_while q lb1) f) =
    f (lb\<lparr>cursor_at := tlen (a @ w)\<rparr>)"
proof -
  let ?t = "takeWhile p b" and ?d = "dropWhile p b"
  have one: "forward_while p lb = Some (lb\<lparr>cursor_at := tlen (a @ ?t)\<rparr>)"
    by (rule forward_while_spec [OF assms(1-3)])
  have two: "forward_while q (lb\<lparr>cursor_at := tlen (a @ ?t)\<rparr>) =
      Some ((lb\<lparr>cursor_at := tlen (a @ ?t)\<rparr>)\<lparr>cursor_at := tlen ((a @ ?t) @ takeWhile q ?d)\<rparr>)"
    using assms(1-3) by (intro forward_while_spec [of _ "a @ ?t" ?d]) simp_all
  have "?t @ takeWhile q ?d = w"
  proof -
    have "b = ?t @ takeWhile q ?d @ dropWhile q ?d" by simp
    then have "take (length ?t + length (takeWhile q ?d)) b = ?t @ takeWhile q ?d"
      by (metis append.assoc append_eq_conv_conj length_append)
    then show ?thesis using assms(4) by (simp add: span_word_def Let_def)
  qed
  with one two show ?thesis by (simp add: add.assoc flip: tlen_simps(3))
qed


lemma holds_simps:
  "holds lb z \<Longrightarrow> buf lb = before z @ after z" "holds lb z \<Longrightarrow> cursor_at lb = tlen (before z)"
  "holds lb z \<Longrightarrow> kill_ring lb = ring z" "holds lb z \<Longrightarrow> text_ok (before z @ after z)"
  by (simp_all add: holds_def)

lemma delete_back_holds:
  assumes h: "holds lb z"
  shows "\<exists>lb'. delete_back lb = Some (before z \<noteq> [], lb') \<and> holds lb' (zip_edit Delete_back z)"
proof (cases "before z" rule: rev_cases)
  case Nil
  then show ?thesis using h by (simp add: delete_back_def holds_def)
next
  case (snoc a c)
  have "prev_char_boundary lb = Some (tlen a)"
    using h snoc by (intro prev_boundary [of lb a c "after z"]) (simp_all add: holds_def)
  then show ?thesis
    using h snoc string_drain_at [of a "[c]" "after z"]
    by (auto simp: delete_back_def holds_def)
qed

lemma delete_forward_holds:
  assumes h: "holds lb z"
  shows "\<exists>lb'. delete_forward lb = Some (after z \<noteq> [], lb') \<and> holds lb' (zip_edit Delete_forward z)"
proof (cases "after z")
  case Nil
  then show ?thesis using h by (simp add: delete_forward_def holds_def)
next
  case (Cons c b)
  have n: "next_char_boundary lb = Some (tlen (before z) + len_utf8 c)"
    using h Cons by (intro next_boundary [of lb "before z" c b]) (simp_all add: holds_def)
  have "\<not> len_utf8 c + tlen b \<le> 0" using len_utf8_pos [of c] by linarith
  then show ?thesis
    using n h Cons string_drain_at [of "before z" "[c]" b]
    by (simp add: delete_forward_def holds_def)
qed

lemma move_left_holds:
  assumes h: "holds lb z"
  shows "\<exists>lb'. move_left lb = Some (before z \<noteq> [], lb') \<and> holds lb' (zip_edit Left_key z)"
proof (cases "before z" rule: rev_cases)
  case Nil
  then show ?thesis using h by (simp add: move_left_def holds_def)
next
  case (snoc a c)
  have "prev_char_boundary lb = Some (tlen a)"
    using h snoc by (intro prev_boundary [of lb a c "after z"]) (simp_all add: holds_def)
  then show ?thesis using h snoc by (simp add: move_left_def holds_def)
qed

lemma move_right_holds:
  assumes h: "holds lb z"
  shows "\<exists>lb'. move_right lb = Some (after z \<noteq> [], lb') \<and> holds lb' (zip_edit Right_key z)"
proof (cases "after z")
  case Nil
  then show ?thesis using h by (simp add: move_right_def holds_def)
next
  case (Cons c b)
  have n: "next_char_boundary lb = Some (tlen (before z) + len_utf8 c)"
    using h Cons by (intro next_boundary [of lb "before z" c b]) (simp_all add: holds_def)
  have "\<not> len_utf8 c + tlen b \<le> 0" using len_utf8_pos [of c] by linarith
  then show ?thesis using n h Cons by (simp add: move_right_def holds_def)
qed

lemma bindO_Some [simp]: "bindO m Some = m"
  by (cases m) simp_all

lemma word_left_holds:
  assumes h: "holds lb z"
  shows "\<exists>lb'. move_word_left lb = Some lb' \<and> holds lb' (zip_edit Word_left z)"
proof -
  obtain x w where wb: "word_back (before z) = (x, w)" by (cases "word_back (before z)")
  then have "move_word_left lb = Some (lb\<lparr>cursor_at := tlen x\<rparr>)"
    using word_left_at [OF holds_simps(1) [OF h] holds_simps(2) [OF h] holds_simps(4) [OF h] wb, of Some]
    by (simp add: move_word_left_def)
  moreover have "zip_edit Word_left z = z\<lparr>before := x, after := w @ after z\<rparr>" by (simp add: wb)
  ultimately show ?thesis using h word_back_split [OF wb] by (simp add: holds_def)
qed

lemma word_right_holds:
  assumes h: "holds lb z"
  shows "\<exists>lb'. move_word_right lb = Some lb' \<and> holds lb' (zip_edit Word_right z)"
proof -
  let ?p = "\<lambda>c. \<not> is_whitespace c"
  obtain w r where sw: "span_word ?p is_whitespace (after z) = (w, r)"
    by (cases "span_word ?p is_whitespace (after z)")
  then have "move_word_right lb = Some (lb\<lparr>cursor_at := tlen (before z @ w)\<rparr>)"
    using word_right_at [OF holds_simps(1) [OF h] holds_simps(2) [OF h] holds_simps(4) [OF h] sw, of Some]
    by (simp add: move_word_right_def)
  moreover have "zip_edit Word_right z = z\<lparr>before := before z @ w, after := r\<rparr>"
    by (simp add: sw)
  ultimately show ?thesis using h span_word_split [OF sw] by (simp add: holds_def)
qed

lemma kill_word_back_holds:
  assumes h: "holds lb z"
  shows "\<exists>lb'. kill_word_back lb = Some lb' \<and> holds lb' (zip_edit Kill_word_back z)"
proof -
  obtain x w where wb: "word_back (before z) = (x, w)" by (cases "word_back (before z)")
  note bs = word_back_split [OF wb]
  have "kill_word_back lb = (if tlen x < cursor_at lb
      then kill_range (tlen x) (cursor_at lb) (lb\<lparr>cursor_at := tlen x\<rparr>) else Some (lb\<lparr>cursor_at := tlen x\<rparr>))"
    by (simp add: kill_word_back_def word_left_at [OF holds_simps(1) [OF h] holds_simps(2) [OF h] holds_simps(4) [OF h] wb])
  moreover have "kill_range (tlen x) (cursor_at lb) (lb\<lparr>cursor_at := tlen x\<rparr>) =
      Some (lb\<lparr>kill_ring := w, buf := x @ after z, cursor_at := tlen x\<rparr>)"
    using h bs by (subst kill_range_at [of _ x w "after z"]) (simp_all add: holds_def)
  moreover have "zip_edit Kill_word_back z = (if w = [] then z else z\<lparr>before := x, ring := w\<rparr>)"
    by (simp add: wb)
  ultimately show ?thesis
    using h bs by (cases "w = []") (simp_all add: holds_def zero_less_iff_neq_zero)
qed

lemma kill_word_forward_holds:
  assumes h: "holds lb z"
  shows "\<exists>lb'. kill_word_forward lb = Some lb' \<and> holds lb' (zip_edit Kill_word_forward z)"
proof -
  let ?p = "\<lambda>c. \<not> is_whitespace c"
  obtain w r where sw: "span_word is_whitespace ?p (after z) = (w, r)"
    by (cases "span_word is_whitespace ?p (after z)")
  note bs = span_word_split [OF sw]
  let ?c = "tlen (before z @ w)"
  have "kill_word_forward lb = (if cursor_at lb < ?c
      then kill_range (cursor_at lb) ?c (lb\<lparr>cursor_at := ?c\<rparr>) else Some (lb\<lparr>cursor_at := ?c\<rparr>))"
    by (simp add: kill_word_forward_def word_right_at [OF holds_simps(1) [OF h] holds_simps(2) [OF h] holds_simps(4) [OF h] sw])
  moreover have "kill_range (cursor_at lb) ?c (lb\<lparr>cursor_at := ?c\<rparr>) =
      Some (lb\<lparr>kill_ring := w, buf := before z @ r, cursor_at := cursor_at lb\<rparr>)"
    using h bs by (subst kill_range_at [of _ "before z" w r]) (simp_all add: holds_def)
  moreover have "zip_edit Kill_word_forward z = (if w = [] then z else z\<lparr>after := r, ring := w\<rparr>)"
    by (simp add: sw)
  ultimately show ?thesis
    using h bs by (cases "w = []") (simp_all add: holds_def zero_less_iff_neq_zero)
qed

lemma run_edit_holds:
  assumes h: "holds lb z" and ok: "edit_ok e"
  shows "\<exists>lb'. run_edit e lb = Some lb' \<and> holds lb' (zip_edit e z)"
proof (cases e)
  case (Insert_char c)
  then show ?thesis
    using h ok by (simp add: insert_char_def string_insert_at holds_def)
next
  case (Insert_str s)
  then show ?thesis using h ok by (simp add: insert_str_def string_insert_at holds_def)
next
  case Kill_to_end
  then show ?thesis using h by (cases "after z") (auto simp: kill_to_end_def holds_def)
next
  case Kill_to_start
  then show ?thesis
    using h split_bytes_append [of "before z" "after z"]
    by (cases "before z = []") (auto simp: kill_to_start_def holds_def zero_less_iff_neq_zero)
next
  case Yank
  then show ?thesis using h by (auto simp: yank_def insert_str_def string_insert_at holds_def)
next
  case Delete_back
  then show ?thesis using delete_back_holds [OF h] by (auto simp del: zip_edit.simps)
next
  case Delete_forward
  then show ?thesis using delete_forward_holds [OF h] by (auto simp del: zip_edit.simps)
next
  case Left_key
  then show ?thesis using move_left_holds [OF h] by (auto simp del: zip_edit.simps)
next
  case Right_key
  then show ?thesis using move_right_holds [OF h] by (auto simp del: zip_edit.simps)
next
  case Word_left
  then show ?thesis using word_left_holds [OF h] by (auto simp del: zip_edit.simps)
next
  case Word_right
  then show ?thesis using word_right_holds [OF h] by (auto simp del: zip_edit.simps)
next
  case Kill_word_back
  then show ?thesis using kill_word_back_holds [OF h] by (auto simp del: zip_edit.simps)
next
  case Kill_word_forward
  then show ?thesis using kill_word_forward_holds [OF h] by (auto simp del: zip_edit.simps)
qed (use h in \<open>auto simp: holds_def move_home_def move_end_def\<close>)


fun run_edits :: "edit list \<Rightarrow> line_buffer \<Rightarrow> line_buffer option" where
  "run_edits [] lb = Some lb"
| "run_edits (e # es) lb = bindO (run_edit e lb) (run_edits es)"

lemma run_edits_holds:
  "holds lb z \<Longrightarrow> list_all edit_ok es \<Longrightarrow>
     \<exists>lb'. run_edits es lb = Some lb' \<and> holds lb' (fold zip_edit es z)"
proof (induction es arbitrary: lb z)
  case (Cons e es)
  obtain lb1 where "run_edit e lb = Some lb1" "holds lb1 (zip_edit e z)"
    using run_edit_holds [of lb z e] Cons.prems by auto
  then show ?case using Cons by simp
qed simp

lemma line_new_holds: "holds line_new \<lparr>before = [], after = [], ring = []\<rparr>"
  by (simp add: holds_def line_new_def)

section \<open>Lines and columns\<close>

lemma takeWhile_line:
  "newline \<notin> set line \<Longrightarrow> takeWhile (\<lambda>c. c \<noteq> newline) (line @ newline # x) = line"
  by (induction line) auto

lemma rfind_newline_at: "newline \<notin> set cur \<Longrightarrow> rfind_newline (x @ newline # cur) = Some (tlen x)"
proof -
  assume n: "newline \<notin> set cur"
  have "takeWhile (\<lambda>c. c \<noteq> newline) (rev (x @ newline # cur)) = rev cur"
    using takeWhile_line [of "rev cur" "rev x"] n by simp
  then show ?thesis by (simp add: rfind_newline_def len_utf8_def)
qed

lemma after_newline_at:
  "newline \<notin> set line \<Longrightarrow> pre = [] \<or> last pre = newline \<Longrightarrow> after_newline (pre @ line) = tlen pre"
proof (cases pre rule: rev_cases)
  case Nil
  assume "newline \<notin> set line"
  with Nil show ?thesis by (simp add: after_newline_def rfind_newline_def)
next
  case (snoc q c)
  assume "newline \<notin> set line" "pre = [] \<or> last pre = newline"
  with snoc show ?thesis
    by (simp add: after_newline_def rfind_newline_at len_utf8_def)
qed

lemma find_newline_at: "newline \<notin> set line \<Longrightarrow> find_newline (line @ newline # x) = Some (tlen line)"
  by (simp add: find_newline_def takeWhile_line)

lemma find_newline_none: "newline \<notin> set line \<Longrightarrow> find_newline line = None"
  by (simp add: find_newline_def)

lemma move_line_up_at:
  assumes "buf lb = pre @ upper @ newline # cur @ rest"
    and "cursor_at lb = tlen (pre @ upper @ newline # cur)"
    and "pre = [] \<or> last pre = newline" "newline \<notin> set upper" "newline \<notin> set cur"
  shows "move_line_up lb =
    Some (True, lb\<lparr>cursor_at := tlen pre + min (tlen cur) (tlen upper)\<rparr>)"
proof -
  have b: "split_bytes (cursor_at lb) (buf lb) = Some (pre @ upper @ newline # cur, rest)"
    using split_bytes_append [of "pre @ upper @ newline # cur" rest] assms(1,2) by simp
  have a: "split_bytes (tlen (pre @ upper)) (buf lb) = Some (pre @ upper, newline # cur @ rest)"
    using split_bytes_append [of "pre @ upper" "newline # cur @ rest"] assms(1) by simp
  have r: "rfind_newline (pre @ upper @ newline # cur) = Some (tlen (pre @ upper))"
    using rfind_newline_at [OF assms(5), of "pre @ upper"] by simp
  have n: "after_newline (pre @ upper) = tlen pre" by (rule after_newline_at [OF assms(4,3)])
  have l: "len_utf8 newline = 1" by (simp add: len_utf8_def)
  show ?thesis unfolding move_line_up_def b using a n assms(2) l by (simp add: r Let_def)
qed

lemma move_line_down_at:
  assumes "buf lb = pre @ cur @ tail @ newline # lower @ rest"
    and "cursor_at lb = tlen (pre @ cur)"
    and "pre = [] \<or> last pre = newline" "newline \<notin> set cur" "newline \<notin> set tail"
      "newline \<notin> set lower" "rest = [] \<or> hd rest = newline"
  shows "move_line_down lb =
    Some (True, lb\<lparr>cursor_at := tlen (pre @ cur @ tail @ [newline]) + min (tlen cur) (tlen lower)\<rparr>)"
proof -
  have b: "split_bytes (cursor_at lb) (buf lb) = Some (pre @ cur, tail @ newline # lower @ rest)"
    using split_bytes_append [of "pre @ cur" "tail @ newline # lower @ rest"] assms(1,2) by simp
  have a: "split_bytes (tlen (pre @ cur @ tail @ [newline])) (buf lb) =
      Some (pre @ cur @ tail @ [newline], lower @ rest)"
    using split_bytes_append [of "pre @ cur @ tail @ [newline]" "lower @ rest"] assms(1) by simp
  have f: "find_newline (tail @ newline # lower @ rest) = Some (tlen tail)"
    by (rule find_newline_at [OF assms(5)])
  have n: "after_newline (pre @ cur) = tlen pre" by (rule after_newline_at [OF assms(4,3)])
  have l: "len_utf8 newline = 1" by (simp add: len_utf8_def)
  have e: "(case find_newline (lower @ rest) of Some j \<Rightarrow> k + j
      | None \<Rightarrow> tlen (buf lb)) = k + tlen lower"
    if "k = tlen (pre @ cur @ tail @ [newline])" for k
    using assms(6,7) that assms(1) find_newline_at [OF assms(6)]
    by (cases rest) (simp_all add: find_newline_none)
  show ?thesis
    unfolding move_line_down_def b
    using a n e [of "Suc (tlen pre + (tlen cur + tlen tail))"] assms(2) l
    by (simp add: f Let_def add.assoc)
qed

lemma display_offset_spec:
  "d \<le> target \<Longrightarrow> \<exists>a b. chs = a @ b \<and> display_offset target byte d chs = byte + tlen a \<and>
     d + str_width a \<le> target \<and>
     (b = [] \<or> d + str_width a = target \<or> target < d + str_width (a @ [hd b]))"
proof (induction target byte d chs rule: display_offset.induct)
  case (1 target byte d)
  then show ?case by (simp add: str_width_def)
next
  case (2 target byte d ch chs)
  consider "target < d + char_width ch" | "target = d + char_width ch" | "d + char_width ch < target"
    by linarith
  then show ?case
  proof cases
    case 1
    then have "ch # chs = [] @ ch # chs \<and> display_offset target byte d (ch # chs) = byte + tlen [] \<and>
        d + str_width [] \<le> target \<and> target < d + str_width ([] @ [hd (ch # chs)])"
      using 2(2) by (simp add: str_width_def)
    then show ?thesis by blast
  next
    case b: 2
    then have "ch # chs = [ch] @ chs \<and> display_offset target byte d (ch # chs) = byte + tlen [ch] \<and>
        d + str_width [ch] \<le> target \<and> d + str_width [ch] = target"
      by (simp add: str_width_def Let_def)
    then show ?thesis by blast
  next
    case c: 3
    then have "\<exists>a b. chs = a @ b \<and>
        display_offset target (byte + len_utf8 ch) (d + char_width ch) chs = byte + len_utf8 ch + tlen a \<and>
        d + char_width ch + str_width a \<le> target \<and>
        (b = [] \<or> d + char_width ch + str_width a = target \<or>
         target < d + char_width ch + str_width (a @ [hd b]))"
      by (intro 2(1)) simp_all
    then obtain a b where ab: "chs = a @ b"
      "display_offset target (byte + len_utf8 ch) (d + char_width ch) chs = byte + len_utf8 ch + tlen a"
      "d + char_width ch + str_width a \<le> target"
      "b = [] \<or> d + char_width ch + str_width a = target \<or>
         target < d + char_width ch + str_width (a @ [hd b])" by blast
    have "ch # chs = (ch # a) @ b \<and> display_offset target byte d (ch # chs) = byte + tlen (ch # a) \<and>
      d + str_width (ch # a) \<le> target \<and>
      (b = [] \<or> d + str_width (ch # a) = target \<or> target < d + str_width ((ch # a) @ [hd b]))"
      using ab c by (simp add: str_width_def Let_def add.assoc)
    then show ?thesis by blast
  qed
qed


lemma ascii_tlen: "is_ascii s \<Longrightarrow> tlen s = length s"
  by (induction s) (auto simp: len_utf8_def)

section \<open>Properties\<close>

text \<open>C31: Editing never panics and does what it says: from a buffer that holds the texts before and
  after the cursor, any sequence of insertions, deletions, character and word movements, kills and
  yanks succeeds, and the bytes and the byte cursor it leaves are those of the same sequence on
  the two texts.\<close>

theorem line_edit_refines:
  "holds lb z \<Longrightarrow> list_all edit_ok es \<Longrightarrow>
     \<exists>lb'. run_edits es lb = Some lb' \<and> holds lb' (fold zip_edit es z)"
  by (rule run_edits_holds)

theorem line_edit_refines_witness:
  "\<exists>lb'. run_edits [Insert_str [0xE9, 32, 0x6F22, 98], Word_left, Left_key, Delete_back, Yank] line_new =
     Some lb' \<and> buf lb' = [32, 0x6F22, 98] \<and> cursor_at lb' = 0"
proof -
  let ?es = "[Insert_str [0xE9, 32, 0x6F22, 98], Word_left, Left_key, Delete_back, Yank]"
  have "list_all edit_ok ?es" by (simp add: is_scalar_def)
  from line_edit_refines [OF line_new_holds this] obtain lb' where
    r: "run_edits ?es line_new = Some lb'" and
    h: "holds lb' (fold zip_edit ?es \<lparr>before = [], after = [], ring = []\<rparr>)" by blast
  have "fold zip_edit ?es \<lparr>before = [], after = [], ring = []\<rparr> =
      \<lparr>before = [], after = [32, 0x6F22, 98], ring = []\<rparr>"
    by (simp add: word_back_def is_whitespace_def Let_def)
  from h [unfolded this] have "buf lb' = [32, 0x6F22, 98] \<and> cursor_at lb' = 0"
    by (simp add: holds_def)
  with r show ?thesis by blast
qed

text \<open>Nothing a kill removes is lost: after a kill that changed the line, yanking where the
  cursor is gives the line back.\<close>

theorem kill_then_yank:
  assumes "holds lb z" and "k \<in> {Kill_to_end, Kill_to_start, Kill_word_back, Kill_word_forward}"
    and "run_edit k lb = Some lb1" and "buf lb1 \<noteq> buf lb"
  shows "\<exists>lb2. yank lb1 = Some lb2 \<and> buf lb2 = buf lb"
proof -
  have ok: "edit_ok k" using assms(2) by auto
  have h1: "holds lb1 (zip_edit k z)" using run_edit_holds [OF assms(1) ok] assms(3) by simp
  have ya: "\<exists>lb2. run_edit Yank lb1 = Some lb2 \<and> holds lb2 (zip_edit Yank (zip_edit k z))"
    by (rule run_edit_holds [OF h1]) simp
  have sw: "span_word p q (after z) = (w, r) \<Longrightarrow> after z = w @ r" for p q w r
    by (rule span_word_split)
  have "before z' @ after z' = before z @ after z"
    if "z' = zip_edit Yank (zip_edit k z)" and "zip_edit k z \<noteq> z" for z'
    using that assms(2) word_back_split [of "before z"] sw
    by (auto split: prod.splits if_splits)
  moreover have "zip_edit k z \<noteq> z" using h1 assms(1,4) by (auto simp: holds_def)
  ultimately show ?thesis using ya assms(1) by (auto simp: holds_def)
qed

theorem kill_then_yank_witness:
  "\<exists>lb2. yank \<lparr>buf = [0xE9], cursor_at = 2, kill_ring = [98]\<rparr> = Some lb2 \<and> buf lb2 = [0xE9, 98]"
proof -
  let ?lb = "\<lparr>buf = [0xE9, 98], cursor_at = 2, kill_ring = []\<rparr>"
  have h: "holds ?lb \<lparr>before = [0xE9], after = [98], ring = []\<rparr>"
    by (simp add: holds_def is_scalar_def len_utf8_def)
  have k: "run_edit Kill_to_end ?lb = Some \<lparr>buf = [0xE9], cursor_at = 2, kill_ring = [98]\<rparr>"
    using split_bytes_append [of "[0xE9]" "[98]"] by (simp add: kill_to_end_def len_utf8_def)
  show ?thesis using kill_then_yank [OF h _ k] by simp
qed

text \<open>Setting the line with a requested cursor puts the cursor on the last character boundary
  at or before the request.\<close>

theorem set_with_cursor_boundary:
  "is_char_boundary s (cursor_at (set_with_cursor s n lb)) \<and>
    cursor_at (set_with_cursor s n lb) \<le> min n (tlen s) \<and>
    (\<forall>i. cursor_at (set_with_cursor s n lb) < i \<and> i \<le> min n (tlen s) \<longrightarrow> \<not> is_char_boundary s i)"
proof -
  have main: "is_char_boundary s (down_to_boundary s m) \<and> down_to_boundary s m \<le> m \<and>
      (\<forall>i. down_to_boundary s m < i \<and> i \<le> m \<longrightarrow> \<not> is_char_boundary s i)" for m
  proof (induction m)
    case 0
    have "is_char_boundary s 0" by (simp add: is_char_boundary_def)
    then show ?case by auto
  next
    case (Suc m)
    then show ?case by (auto simp: le_Suc_eq)
  qed
  show ?thesis using main [of "min n (tlen s)"] by (simp add: set_with_cursor_def)
qed

theorem set_with_cursor_boundary_witness:
  "cursor_at (set_with_cursor [0x6F22, 98] 2 line_new) = 0"
proof -
  have no: "\<not> is_char_boundary [0x6F22, 98] i" if "i = 1 \<or> i = 2" for i
    using that boundary_inside [of "[]" "0x6F22" "[98]" i] by (auto simp: is_scalar_def len_utf8_def)
  let ?c = "cursor_at (set_with_cursor [0x6F22, 98] 2 line_new)"
  have "is_char_boundary [0x6F22, 98] ?c \<and> ?c \<le> 2"
    using set_with_cursor_boundary [of "[0x6F22, 98]" 2 line_new] by simp
  then show ?thesis using no [of ?c] by linarith
qed

text \<open>Moving over the wrapped rows of a terminal never panics, leaves the text alone, keeps the
  cursor on a character, and puts it at the last one whose columns before it fit in the target.\<close>

theorem move_grid_holds:
  assumes "holds lb z"
  shows "\<exists>moved lb' z'. move_grid up prompt cols col lb = Some (moved, lb') \<and> holds lb' z' \<and>
    buf lb' = buf lb \<and> (moved \<or> lb' = lb)"
proof -
  have disp: "\<exists>pos. display_cursor_pos lb = Some pos"
    using assms by (auto simp: display_cursor_pos_def holds_def)
  have at: "\<exists>z'. holds (lb\<lparr>cursor_at := byte_offset_for_display_pos t lb\<rparr>) z'" for t
  proof -
    obtain a b where ab: "buf lb = a @ b" "byte_offset_for_display_pos t lb = tlen a"
    proof (cases "t = 0")
      case True
      then show ?thesis using that [of "[]" "buf lb"] by (simp add: byte_offset_for_display_pos_def)
    next
      case False
      obtain a b where "buf lb = a @ b" "display_offset t 0 0 (buf lb) = 0 + tlen a"
        using display_offset_spec [of 0 t "buf lb" 0] by blast
      then show ?thesis
        using that [of a b] False by (simp add: byte_offset_for_display_pos_def)
    qed
    have "text_ok (a @ b)"
      using holds_simps(1) [OF assms] holds_simps(4) [OF assms] ab(1) by (simp only:)
    then have "holds (lb\<lparr>cursor_at := byte_offset_for_display_pos t lb\<rparr>) \<lparr>before = a, after = b, ring = ring z\<rparr>"
      using assms ab by (simp add: holds_def)
    then show ?thesis ..
  qed
  obtain row where row: "\<exists>c. grid_cursor_position prompt cols lb = Some (row, c)"
    using disp by (auto simp: grid_cursor_position_def Let_def)
  show ?thesis
  proof (cases "buf lb = []")
    case True
    then have "move_grid up prompt cols col lb = Some (False, lb)" by (simp add: move_grid_def)
    then show ?thesis using assms by blast
  next
    case False
    obtain c where c: "grid_cursor_position prompt cols lb = Some (row, c)" using row by blast
    define t where "t = (\<lambda>r. r * max (unat cols) 1 + min col (max (unat cols) 1 - 1) - prompt)"
    have "\<exists>tr. move_grid up prompt cols col lb = (case tr of None \<Rightarrow> Some (False, lb)
      | Some r \<Rightarrow> Some (True, lb\<lparr>cursor_at := byte_offset_for_display_pos (t r) lb\<rparr>))"
      unfolding move_grid_def Let_def c bindO_simps prod.case if_not_P [OF False] t_def
      by (rule exI) (rule refl)
    then obtain tr where "move_grid up prompt cols col lb = (case tr of None \<Rightarrow> Some (False, lb)
      | Some r \<Rightarrow> Some (True, lb\<lparr>cursor_at := byte_offset_for_display_pos (t r) lb\<rparr>))" ..
    then show ?thesis using at assms by (cases tr) fastforce+
  qed
qed

theorem move_grid_holds_witness:
  "\<exists>moved lb'. move_grid True 0 2 0 \<lparr>buf = [0x6F22, 98], cursor_at = 4, kill_ring = []\<rparr> =
     Some (moved, lb') \<and> buf lb' = [0x6F22, 98]"
proof -
  have "holds \<lparr>buf = [0x6F22, 98], cursor_at = 4, kill_ring = []\<rparr>
      \<lparr>before = [0x6F22, 98], after = [], ring = []\<rparr>"
    by (simp add: holds_def is_scalar_def len_utf8_def)
  from move_grid_holds [OF this, of True 0 2 0] show ?thesis by auto
qed

text \<open>On ASCII text moving up a line and down again stays on characters and keeps the column as
  far as the lines allow: from the column of \<open>cur\<close> the cursor goes to that column of the line above
  or to its end, and moving down from there comes back to the smaller of the two columns.\<close>

theorem line_moves_ascii:
  assumes "is_ascii (buf lb)" and "buf lb = pre @ upper @ [newline] @ cur @ tail @ rest"
    and "cursor_at lb = length (pre @ upper @ [newline] @ cur)"
    and "pre = [] \<or> last pre = newline" and "newline \<notin> set upper" and "newline \<notin> set cur"
    and "newline \<notin> set tail" and "rest = [] \<or> hd rest = newline"
  shows "\<exists>lb'. move_line_up lb = Some (True, lb') \<and>
    cursor_at lb' = length pre + min (length cur) (length upper) \<and>
    move_line_down lb' =
      Some (True, lb\<lparr>cursor_at := length (pre @ upper @ [newline]) + min (length cur) (length upper)\<rparr>)"
proof -
  have asc: "is_ascii pre" "is_ascii upper" "is_ascii cur" "is_ascii tail"
    using assms(1,2) by simp_all
  note lens = asc [THEN ascii_tlen]
  let ?c = "min (length cur) (length upper)"
  let ?lb = "lb\<lparr>cursor_at := length pre + ?c\<rparr>"
  have l: "len_utf8 newline = 1" by (simp add: len_utf8_def)
  have up: "move_line_up lb = Some (True, ?lb)"
    using move_line_up_at [of lb pre upper cur "tail @ rest"] assms lens l by simp
  define a where "a = take ?c upper"
  define b where "b = drop ?c upper"
  have ab: "upper = a @ b" "length a = ?c" by (simp_all add: a_def b_def)
  have asc2: "tlen a = length a" "tlen b = length b" "newline \<notin> set a" "newline \<notin> set b"
    using asc(2) assms(5) ascii_tlen [of a] ascii_tlen [of b] unfolding ab(1) by simp_all
  have "move_line_down ?lb = Some (True, ?lb\<lparr>cursor_at :=
      tlen (pre @ a @ b @ [newline]) + min (tlen a) (tlen (cur @ tail))\<rparr>)"
  proof (rule move_line_down_at)
    show "buf ?lb = pre @ a @ b @ newline # (cur @ tail) @ rest" using assms(2) ab(1) by simp
    show "cursor_at ?lb = tlen (pre @ a)" using lens ab(2) asc2 by simp
    show "newline \<notin> set (cur @ tail)" using assms(6,7) by simp
  qed (use assms asc2 in simp_all)
  moreover have "min (tlen a) (tlen (cur @ tail)) = ?c" using ab(2) lens asc2 by simp
  moreover have "tlen (pre @ a @ b @ [newline]) = length (pre @ upper @ [newline])"
    using ab(1) lens asc2 l by simp
  ultimately show ?thesis using up by simp
qed

theorem line_moves_ascii_witness:
  "\<exists>lb'. move_line_up \<lparr>buf = [97, 10, 98, 99, 100], cursor_at = 4, kill_ring = []\<rparr> = Some (True, lb') \<and>
     cursor_at lb' = 1 \<and>
     move_line_down lb' = Some (True, \<lparr>buf = [97, 10, 98, 99, 100], cursor_at = 3, kill_ring = []\<rparr>)"
  using line_moves_ascii [of "\<lparr>buf = [97, 10, 98, 99, 100], cursor_at = 4, kill_ring = []\<rparr>"
      "[]" "[97]" "[98, 99]" "[100]" "[]"] by (simp add: numeral_3_eq_3)

text \<open>C36: Line movements keep the column in bytes: moving up from the second column of \<open>ab\<close> under a
  line that starts with a two-byte character leaves the cursor inside that character, and the
  next insertion panics.\<close>

theorem line_move_splits_character:
  "\<exists>lb'. move_line_up \<lparr>buf = [0xE9, 10, 97, 98], cursor_at = 4, kill_ring = []\<rparr> = Some (True, lb') \<and>
     cursor_at lb' = 1 \<and> \<not> is_char_boundary (buf lb') (cursor_at lb') \<and> insert_char 120 lb' = None"
proof -
  let ?lb = "\<lparr>buf = [0xE9, 10, 97, 98], cursor_at = 4, kill_ring = []\<rparr>"
  have l: "len_utf8 0xE9 = 2" "len_utf8 10 = 1" "len_utf8 97 = 1" by (simp_all add: len_utf8_def)
  have "move_line_up ?lb = Some (True, ?lb\<lparr>cursor_at := 1\<rparr>)"
    using move_line_up_at [of ?lb "[]" "[0xE9]" "[97]" "[98]"] l by simp
  moreover have "\<not> is_char_boundary [0xE9, 10, 97, 98] 1"
    using boundary_inside [of "[]" "0xE9" "[10, 97, 98]" 1] l by (simp add: is_scalar_def)
  moreover have "insert_char 120 (?lb\<lparr>cursor_at := 1\<rparr>) = None"
    using split_bytes.simps(3) [of 0 "0xE9" "[10, 97, 98]"] l
    by (simp add: insert_char_def string_insert_def)
  ultimately show ?thesis by simp
qed

end
