(* ===== verification/Xsh_Types.thy ===== *)
theory Xsh_Types
  imports Xsh_Effects
begin

text \<open>
  Semantic types (\<open>Type\<close> of \<open>sema/types.rs\<close>), validations (\<open>sema/validated.rs\<close>) and the three
  compatibility relations of the checker: \<open>matches_expected\<close> at a checked boundary,
  \<open>matches_invariant\<close> for what is read and written in place, \<open>matches_stored\<close> for what is held
  inside a structure. The constructors without component types are grouped in \<open>plain_type\<close>; the
  ordered maps of fields and exports are lists in name order.
\<close>

section \<open>Types\<close>

type_synonym name = string

record int_range =
  low :: int
  high :: int

datatype validation = NonEmpty | RelPath | Nominal name | Range int_range

datatype plain_type =
    BuiltinParameter_ty nat | Inference_ty nat | Any_ty | Unknown_ty | Invalid_ty | Null_ty
  | Bool_ty | Int_ty | UInt_ty | Float_ty | Duration_ty | Str_ty | Bytes_ty | Digest_ty | Regex_ty
  | Path_ty | ErasedRecord_ty | DynamicModule_ty | Status_ty | EnvPathList_ty | Error_ty
  | ErrorFamily_ty name | ErrorVariant_ty name name | ErrorFacet_ty name | ProcessError_ty
  | Function_ty callable_kind | Command_ty | ProcessHandle_ty | NetJob_ty | FsRoot_ty | FsLock_ty
  | SshSession_ty | Unit_ty | Tag_ty name | SchemeCallable_ty nat

datatype ty =
    Plain plain_type
  | List_ty ty
  | Map_ty ty ty
  | Stream_ty ty
  | Set_ty ty
  | Record_ty "(name \<times> ty) list"
  | Module_ty "(name \<times> export) list" bool
  | Result_ty ty ty
  | Optional_ty ty
  | Union_ty "ty list"
  | Callable_ty callable_kind signature
  | Validated_ty validation ty
and signature = Signature (s_params: "param list") (s_return: ty) (s_effects: "nat effect_contract")
and param = Param (p_name: name) (p_ty: ty) (p_defaulted: bool) (p_rest: bool)
and export =
    Value_export ty bool
  | Callable_export callable_kind signature bool
  | Generic_export callable_kind bool

definition PROCESS_ERROR :: name where "PROCESS_ERROR = ''ProcessError''"

fun kind_value_type_name :: "callable_kind \<Rightarrow> string" where
  "kind_value_type_name Pure = ''Pure''"
| "kind_value_type_name Proc = ''Proc''"
| "kind_value_type_name Stream = ''StreamProducer''"

definition kind_from_encoded :: "nat \<Rightarrow> callable_kind option" where
  "kind_from_encoded n =
     (if n = 0 then Some Pure else if n = 1 then Some Proc else if n = 2 then Some Stream else None)"

fun sig_types :: "signature \<Rightarrow> ty list" where
  "sig_types (Signature ps r e) = map p_ty ps @ [r]"

fun export_types :: "export \<Rightarrow> ty list" where
  "export_types (Value_export t opt) = [t]"
| "export_types (Callable_export k s opt) = sig_types s"
| "export_types (Generic_export k opt) = []"

fun export_optional :: "export \<Rightarrow> bool" where
  "export_optional (Value_export t opt) = opt"
| "export_optional (Callable_export k s opt) = opt"
| "export_optional (Generic_export k opt) = opt"

text \<open>\<open>for_each_child\<close>.\<close>

fun children :: "ty \<Rightarrow> ty list" where
  "children (Plain p) = []"
| "children (List_ty t) = [t]"
| "children (Stream_ty t) = [t]"
| "children (Set_ty t) = [t]"
| "children (Optional_ty t) = [t]"
| "children (Map_ty k v) = [k, v]"
| "children (Result_ty k v) = [k, v]"
| "children (Record_ty fs) = map snd fs"
| "children (Union_ty members) = members"
| "children (Validated_ty v base) = [base]"
| "children (Callable_ty k s) = sig_types s"
| "children (Module_ty exports exact) = concat (map (export_types \<circ> snd) exports)"

section \<open>Sizes\<close>

lemma size_param: "size (p_ty p) < size p"
  by (cases p) simp

lemma size_sig_types: "t \<in> set (sig_types s) \<Longrightarrow> size t < size s"
proof (cases s)
  case (Signature ps r e)
  assume "t \<in> set (sig_types s)"
  then consider p where "p \<in> set ps" "t = p_ty p" | "t = r" using Signature by auto
  then show ?thesis
  proof cases
    case 1
    then have "size p \<le> size_list size ps" by (simp add: size_list_estimation')
    then show ?thesis using 1(2) Signature size_param [of p] by simp
  qed (use Signature in simp)
qed

lemma size_export_types: "t \<in> set (export_types x) \<Longrightarrow> size t < size x"
  by (cases x) (auto dest: size_sig_types)

lemma size_field: "(n, t) \<in> set xs \<Longrightarrow> size t < Suc (size_list (\<lambda>x. size_prod (\<lambda>_. 0) size x) xs)"
  by (induction xs) auto

lemma size_export: "(n, x) \<in> set xs \<Longrightarrow> t \<in> set (export_types x) \<Longrightarrow>
    size t < Suc (size_list (size_prod (\<lambda>_. 0) size) xs)"
  using size_export_types [of t x] size_field [of n x xs] by linarith

lemma size_child: "c \<in> set (children t) \<Longrightarrow> size c < size t"
proof (cases t)
  case (Record_ty fs)
  assume "c \<in> set (children t)"
  with Record_ty show ?thesis using size_field [of _ c fs] by auto
next
  case (Union_ty ms)
  assume "c \<in> set (children t)"
  with Union_ty show ?thesis by (auto simp: less_Suc_eq_le size_list_estimation')
next
  case (Module_ty xs exact)
  assume "c \<in> set (children t)"
  with Module_ty show ?thesis using size_export [of _ _ xs c] by fastforce
next
  case (Callable_ty k s)
  assume "c \<in> set (children t)"
  with Callable_ty show ?thesis using size_sig_types [of c s] by simp
qed auto

lemma size_member: "m \<in> set ms \<Longrightarrow> size m < Suc (size_list size ms)"
  by (simp add: less_Suc_eq_le size_list_estimation')

lemma size_lookup: "map_of fs n = Some t \<Longrightarrow> size t < Suc (size_list (size_prod (\<lambda>_. 0) size) fs)"
  by (rule size_field [OF map_of_SomeD])

lemmas part_sizes = size_member size_field size_lookup size_export size_sig_types

section \<open>What a type contains\<close>

definition is_recovery :: "ty \<Rightarrow> bool" where
  "is_recovery t \<longleftrightarrow> t = Plain Unknown_ty \<or> t = Plain Invalid_ty"

definition is_dynamic :: "ty \<Rightarrow> bool" where
  "is_dynamic t \<longleftrightarrow> t = Plain Any_ty"

function contains_recovery :: "ty \<Rightarrow> bool" where
  "contains_recovery t =
     (is_recovery t \<or> list_ex contains_recovery (children t))"
  by pat_completeness auto
termination by (relation "measure size") (auto intro: size_child)

function contains_any :: "ty \<Rightarrow> bool" where
  "contains_any t =
     (is_dynamic t \<or> list_ex contains_any (children t))"
  by pat_completeness auto
termination by (relation "measure size") (auto intro: size_child)

definition has_inference :: "nat effect_contract \<Rightarrow> bool" where
  "has_inference c \<longleftrightarrow> (case c of Unknown \<Rightarrow> False | Known x \<Rightarrow> ee_closed x = None)"

definition own_effects :: "ty \<Rightarrow> nat effect_contract list" where
  "own_effects t =
     (case t of
        Callable_ty k s \<Rightarrow> [s_effects s]
      | Module_ty xs exact \<Rightarrow>
          concat (map (\<lambda>(n, x). case x of Callable_export k s opt \<Rightarrow> [s_effects s] | _ \<Rightarrow> []) xs)
      | _ \<Rightarrow> [])"

text \<open>The searches that stop at modules and callables list their arms themselves.\<close>

fun data_children :: "ty \<Rightarrow> ty list" where
  "data_children (Module_ty xs exact) = []"
| "data_children (Callable_ty k s) = []"
| "data_children t = children t"

lemma data_children_subset: "c \<in> set (data_children t) \<Longrightarrow> c \<in> set (children t)"
  by (cases t) auto

lemma size_data_child: "c \<in> set (data_children t) \<Longrightarrow> size c < size t"
  by (intro size_child data_children_subset)

function contains_typed_callable :: "ty \<Rightarrow> bool" where
  "contains_typed_callable t =
     ((case t of Callable_ty k s \<Rightarrow> True | Plain (SchemeCallable_ty i) \<Rightarrow> True | _ \<Rightarrow> False) \<or>
      list_ex contains_typed_callable (data_children t))"
  by pat_completeness auto
termination by (relation "measure size") (auto intro: size_data_child)

function has_unsigned_constraint :: "ty \<Rightarrow> bool" where
  "has_unsigned_constraint t =
     (t = Plain UInt_ty \<or> list_ex has_unsigned_constraint (data_children t))"
  by pat_completeness auto
termination by (relation "measure size") (auto intro: size_data_child)

fun can_escape_context_scope :: "ty \<Rightarrow> bool" where
  "can_escape_context_scope (Stream_ty t) = False"
| "can_escape_context_scope (Plain p) = (p \<noteq> ProcessHandle_ty \<and> p \<noteq> NetJob_ty)"
| "can_escape_context_scope (List_ty t) = can_escape_context_scope t"
| "can_escape_context_scope (Optional_ty t) = can_escape_context_scope t"
| "can_escape_context_scope (Map_ty k v) = can_escape_context_scope v"
| "can_escape_context_scope (Result_ty a e) =
     (can_escape_context_scope a \<and> can_escape_context_scope e)"
| "can_escape_context_scope (Record_ty fs) = list_all (\<lambda>(n, t). can_escape_context_scope t) fs"
| "can_escape_context_scope (Union_ty ms) = list_all can_escape_context_scope ms"
| "can_escape_context_scope (Validated_ty v t) = can_escape_context_scope t"
| "can_escape_context_scope _ = True"

function is_json_compatible_with :: "(name \<Rightarrow> bool) \<Rightarrow> ty \<Rightarrow> bool" where
  "is_json_compatible_with wire t =
     (case t of
        Plain p \<Rightarrow>
          (case p of
             Any_ty \<Rightarrow> True | Unknown_ty \<Rightarrow> True | Invalid_ty \<Rightarrow> True | Null_ty \<Rightarrow> True | Bool_ty \<Rightarrow> True
           | Int_ty \<Rightarrow> True | UInt_ty \<Rightarrow> True | Float_ty \<Rightarrow> True | Str_ty \<Rightarrow> True
           | ErasedRecord_ty \<Rightarrow> True | Tag_ty n \<Rightarrow> wire n | _ \<Rightarrow> False)
      | Module_ty _ _ \<Rightarrow> False | Callable_ty _ _ \<Rightarrow> False | Result_ty _ _ \<Rightarrow> False
      | Map_ty k v \<Rightarrow> k = Plain Str_ty \<and> is_json_compatible_with wire v
      | List_ty i \<Rightarrow> is_json_compatible_with wire i
      | Stream_ty i \<Rightarrow> is_json_compatible_with wire i
      | Optional_ty i \<Rightarrow> is_json_compatible_with wire i
      | Set_ty i \<Rightarrow> is_json_compatible_with wire i
      | Record_ty fs \<Rightarrow> list_all (is_json_compatible_with wire) (map snd fs)
      | Union_ty ms \<Rightarrow> list_all (is_json_compatible_with wire) ms
      | Validated_ty v b \<Rightarrow> is_json_compatible_with wire b)"
  by pat_completeness auto
termination
  by (relation "measure (\<lambda>(w, t). size t)") (auto dest: part_sizes)

declare contains_recovery.simps [simp del] contains_any.simps [simp del]
  contains_typed_callable.simps [simp del]
  has_unsigned_constraint.simps [simp del] is_json_compatible_with.simps [simp del]

section \<open>Compatibility\<close>

definition int_domains :: "ty \<Rightarrow> ty \<Rightarrow> bool" where
  "int_domains a e \<longleftrightarrow>
     a = Plain Int_ty \<and> e = Plain UInt_ty \<or> a = Plain UInt_ty \<and> e = Plain Int_ty"

text \<open>Why two callables do not fit, without the text of the message.\<close>

datatype mismatch_reason =
    Other_kind | Other_arity | Is_rest nat | Not_rest nat | No_default nat | Other_name nat
  | Unknown_parameter name | Other_parameter name | Unknown_return | Other_return
  | Unresolved_bound | Unresolved_effects | Unrestricted_effects | Extra_effect effect

fun parameter_mismatch :: "bool \<Rightarrow> nat \<Rightarrow> param list \<Rightarrow> param list \<Rightarrow> mismatch_reason option" where
  "parameter_mismatch check i (found # fs) (expected # es) =
     (if p_rest found \<and> \<not> p_rest expected then Some (Is_rest (i + 1))
      else if p_rest expected \<and> \<not> p_rest found then Some (Not_rest (i + 1))
      else if p_defaulted expected \<and> \<not> p_defaulted found then Some (No_default (i + 1))
      else if p_name found \<noteq> p_name expected then Some (Other_name (i + 1))
      else if p_ty found = Plain Invalid_ty \<or> p_ty expected = Plain Invalid_ty
      then parameter_mismatch check (i + 1) fs es
      else if is_recovery (p_ty found) \<or> is_recovery (p_ty expected) then
        (if check then Some (Unknown_parameter (p_name found))
         else parameter_mismatch check (i + 1) fs es)
      else if p_ty found \<noteq> p_ty expected then Some (Other_parameter (p_name found))
      else parameter_mismatch check (i + 1) fs es)"
| "parameter_mismatch check i _ _ = None"

definition effect_mismatch :: "nat effect_contract \<Rightarrow> nat effect_contract \<Rightarrow> mismatch_reason option" where
  "effect_mismatch actual bound =
     (case ec_concrete bound of
        Inl _ \<Rightarrow> Some Unresolved_bound
      | Inr None \<Rightarrow> None
      | Inr (Some bs) \<Rightarrow>
          (case ec_concrete actual of
             Inl _ \<Rightarrow> Some Unresolved_effects
           | Inr None \<Rightarrow> Some Unrestricted_effects
           | Inr (Some required) \<Rightarrow>
               map_option Extra_effect (find (\<lambda>e. \<not> effects_covers bs e) required)))"

definition callable_shape_mismatch ::
  "callable_kind \<Rightarrow> signature \<Rightarrow> callable_kind \<Rightarrow> signature \<Rightarrow> bool \<Rightarrow> mismatch_reason option" where
  "callable_shape_mismatch kind sig actual_kind actual check =
     (if kind \<noteq> actual_kind then Some Other_kind
      else if length (s_params actual) \<noteq> length (s_params sig) then Some Other_arity
      else parameter_mismatch check 0 (s_params actual) (s_params sig))"

lemma size_return: "size (s_return s) < size s"
  by (cases s) simp

lemma size_returns:
  "4 * size (s_return a) + 4 * size (s_return e) + 3 < 4 * size a + 4 * size e"
  "4 * size (s_return a) + 4 * size (s_return e) + 3 < 4 * size e + 4 * size a"
  "4 * size (s_return a) + 4 * size (s_return e) < 4 * size a + 4 * size e"
  using size_return [of a] size_return [of e] by linarith+

lemma size_members:
  "x \<in> set xs \<Longrightarrow> y \<in> set ys \<Longrightarrow>
     4 * size x + 4 * size y < 8 + (4 * size_list size xs + 4 * size_list size ys)"
  "x \<in> set xs \<Longrightarrow> y \<in> set ys \<Longrightarrow>
     4 * size y + 4 * size x < 8 + (4 * size_list size xs + 4 * size_list size ys)"
  using size_member [of x xs] size_member [of y ys] by linarith+

lemma size_zip_param:
  "(p, q) \<in> set (zip (s_params a) (s_params e)) \<Longrightarrow> size (p_ty p) + size (p_ty q) < size a + size e"
proof -
  assume pq: "(p, q) \<in> set (zip (s_params a) (s_params e))"
  have "p_ty p \<in> set (sig_types a)" using set_zip_leftD [OF pq] by (cases a) auto
  moreover have "p_ty q \<in> set (sig_types e)" using set_zip_rightD [OF pq] by (cases e) auto
  ultimately show ?thesis using size_sig_types by (meson add_strict_mono)
qed

text \<open>The pairs of types the arms of the relations look at.\<close>

datatype wrapper = In_list | In_stream | In_set | In_optional

fun wrapped :: "ty \<Rightarrow> (wrapper \<times> ty) option" where
  "wrapped (List_ty t) = Some (In_list, t)"
| "wrapped (Stream_ty t) = Some (In_stream, t)"
| "wrapped (Set_ty t) = Some (In_set, t)"
| "wrapped (Optional_ty t) = Some (In_optional, t)"
| "wrapped _ = None"

definition both_wrapped :: "wrapper list \<Rightarrow> ty \<Rightarrow> ty \<Rightarrow> (ty \<times> ty) option" where
  "both_wrapped ws a e =
     (case (wrapped a, wrapped e) of
        (Some (w, x), Some (v, y)) \<Rightarrow> if w = v \<and> w \<in> set ws then Some (x, y) else None
      | _ \<Rightarrow> None)"

fun optional_inner :: "ty \<Rightarrow> ty option" where
  "optional_inner (Optional_ty t) = Some t"
| "optional_inner _ = None"

fun union_members :: "ty \<Rightarrow> ty list option" where
  "union_members (Union_ty ms) = Some ms"
| "union_members _ = None"

fun validated :: "ty \<Rightarrow> (validation \<times> ty) option" where
  "validated (Validated_ty v t) = Some (v, t)"
| "validated _ = None"

fun both_map :: "ty \<Rightarrow> ty \<Rightarrow> ((ty \<times> ty) \<times> ty \<times> ty) option" where
  "both_map (Map_ty a b) (Map_ty c d) = Some ((a, b), c, d)"
| "both_map _ _ = None"

fun both_result :: "ty \<Rightarrow> ty \<Rightarrow> ((ty \<times> ty) \<times> ty \<times> ty) option" where
  "both_result (Result_ty a b) (Result_ty c d) = Some ((a, b), c, d)"
| "both_result _ _ = None"

fun both_record :: "ty \<Rightarrow> ty \<Rightarrow> ((name \<times> ty) list \<times> (name \<times> ty) list) option" where
  "both_record (Record_ty a) (Record_ty e) = Some (a, e)"
| "both_record _ _ = None"

fun both_union :: "ty \<Rightarrow> ty \<Rightarrow> (ty list \<times> ty list) option" where
  "both_union (Union_ty a) (Union_ty e) = Some (a, e)"
| "both_union _ _ = None"

fun both_validated :: "ty \<Rightarrow> ty \<Rightarrow> ((validation \<times> ty) \<times> validation \<times> ty) option" where
  "both_validated (Validated_ty v a) (Validated_ty w e) = Some ((v, a), w, e)"
| "both_validated _ _ = None"

fun both_module :: "ty \<Rightarrow> ty \<Rightarrow>
    (((name \<times> export) list \<times> bool) \<times> (name \<times> export) list \<times> bool) option" where
  "both_module (Module_ty a x) (Module_ty e y) = Some ((a, x), e, y)"
| "both_module _ _ = None"

fun both_callable :: "ty \<Rightarrow> ty \<Rightarrow>
    ((callable_kind \<times> signature) \<times> callable_kind \<times> signature) option" where
  "both_callable (Callable_ty k a) (Callable_ty l e) = Some ((k, a), l, e)"
| "both_callable _ _ = None"

text \<open>The arms that compare no component types.\<close>

fun plain_matches :: "ty \<Rightarrow> ty \<Rightarrow> bool" where
  "plain_matches (Record_ty fs) (Plain p) = (p = ErasedRecord_ty)"
| "plain_matches (Callable_ty k s) (Plain p) = (p = Function_ty k)"
| "plain_matches (Plain p) (Optional_ty t) = (p = Null_ty)"
| "plain_matches (Plain p) (Plain q) =
     (case p of
        ErrorVariant_ty f v \<Rightarrow>
          q = ErrorFamily_ty f \<or> (q = ProcessError_ty \<and> f = PROCESS_ERROR) \<or> q = Error_ty
      | ErrorFamily_ty f \<Rightarrow> (q = ProcessError_ty \<and> f = PROCESS_ERROR) \<or> q = Error_ty
      | ErrorFacet_ty f \<Rightarrow> q = Error_ty
      | ProcessError_ty \<Rightarrow> q = Error_ty
      | _ \<Rightarrow> False)"
| "plain_matches _ _ = False"

lemma both_wrapped_Some:
  "both_wrapped ws a e = Some (x, y) \<Longrightarrow>
     (a = List_ty x \<and> e = List_ty y \<and> In_list \<in> set ws) \<or>
     (a = Stream_ty x \<and> e = Stream_ty y \<and> In_stream \<in> set ws) \<or>
     (a = Set_ty x \<and> e = Set_ty y \<and> In_set \<in> set ws) \<or>
     (a = Optional_ty x \<and> e = Optional_ty y \<and> In_optional \<in> set ws)"
  by (cases a; cases e) (auto simp: both_wrapped_def split: if_splits)

lemma optional_inner_Some [simp]: "optional_inner t = Some x \<longleftrightarrow> t = Optional_ty x"
  by (cases t) auto

lemma union_members_Some [simp]: "union_members t = Some x \<longleftrightarrow> t = Union_ty x"
  by (cases t) auto

lemma validated_Some [simp]: "validated t = Some x \<longleftrightarrow> (\<exists>v b. x = (v, b) \<and> t = Validated_ty v b)"
  by (cases t) auto

lemma both_Some:
  "both_map a e = Some ((x, y), z, w) \<longleftrightarrow> a = Map_ty x y \<and> e = Map_ty z w"
  "both_result a e = Some ((x, y), z, w) \<longleftrightarrow> a = Result_ty x y \<and> e = Result_ty z w"
  by (cases a; cases e; auto)+

lemma both_record_Some: "both_record a e = Some (x, y) \<longleftrightarrow> a = Record_ty x \<and> e = Record_ty y"
  by (cases a; cases e) auto

lemma both_union_Some: "both_union a e = Some (x, y) \<longleftrightarrow> a = Union_ty x \<and> e = Union_ty y"
  by (cases a; cases e) auto

lemma both_validated_Some:
  "both_validated a e = Some ((v, x), w, y) \<longleftrightarrow> a = Validated_ty v x \<and> e = Validated_ty w y"
  by (cases a; cases e) auto

lemma both_module_Some:
  "both_module a e = Some ((x, v), y, w) \<longleftrightarrow> a = Module_ty x v \<and> e = Module_ty y w"
  by (cases a; cases e) auto

lemma both_callable_Some:
  "both_callable a e = Some ((x, v), y, w) \<longleftrightarrow> a = Callable_ty x v \<and> e = Callable_ty y w"
  by (cases a; cases e) auto

lemmas both_simps = both_Some both_record_Some both_union_Some both_validated_Some
  both_module_Some both_callable_Some

lemma size_both_wrapped:
  "both_wrapped ws a e = Some (x, y) \<Longrightarrow> size x < size a \<and> size y < size e"
  by (auto dest!: both_wrapped_Some)

function matches_expected :: "ty \<Rightarrow> ty \<Rightarrow> bool"
and matches_invariant :: "ty \<Rightarrow> ty \<Rightarrow> bool"
and matches_stored :: "ty \<Rightarrow> ty \<Rightarrow> bool"
and callable_return_fits :: "ty \<Rightarrow> ty \<Rightarrow> bool"
and callable_mismatch ::
  "callable_kind \<Rightarrow> signature \<Rightarrow> callable_kind \<Rightarrow> signature \<Rightarrow> bool \<Rightarrow> mismatch_reason option"
and module_export_matches :: "export \<Rightarrow> export \<Rightarrow> bool"
and callable_matches_expected :: "signature \<Rightarrow> signature \<Rightarrow> bool"
where
  "matches_expected a e =
     (if a = e \<or> int_domains a e \<or> is_recovery a \<or> is_dynamic e \<or> is_recovery e then True
      else if is_dynamic a then False
      else case both_validated a e of Some ((va, ba), ve, be) \<Rightarrow> va = ve \<and> matches_expected ba be
      | None \<Rightarrow>
      (case union_members e of
         Some es \<Rightarrow>
           (case union_members a of
              Some as \<Rightarrow> list_all (\<lambda>m. matches_expected m e) as
            | None \<Rightarrow> list_ex (\<lambda>m. matches_expected a m) es)
       | None \<Rightarrow>
      (case both_wrapped [In_list, In_stream, In_set] a e of Some (ai, ei) \<Rightarrow> matches_stored ai ei
       | None \<Rightarrow>
      (case both_map a e of
         Some ((ak, av), ek, ev) \<Rightarrow> matches_invariant ak ek \<and> matches_stored av ev
       | None \<Rightarrow>
      (case both_result a e of
         Some ((ao, ae), eo, ee) \<Rightarrow> matches_expected ao eo \<and> matches_expected ae ee
       | None \<Rightarrow>
      (case both_record a e of
         Some (as, es) \<Rightarrow>
           list_all (\<lambda>(n, t).
             case map_of as n of None \<Rightarrow> False | Some u \<Rightarrow> matches_expected u t) es
       | None \<Rightarrow>
      (case both_module a e of
         Some ((as, a_exact), es, exact) \<Rightarrow>
           (if es = [] \<and> \<not> exact then True
            else
              (\<not> exact \<or> (a_exact \<and> list_all (\<lambda>(n, x). map_of es n \<noteq> None) as)) \<and>
              list_all (\<lambda>(n, x).
                case map_of as n of
                  Some y \<Rightarrow> module_export_matches y x
                | None \<Rightarrow> export_optional x) es)
       | None \<Rightarrow>
      (case both_callable a e of
         Some ((ak, asig), ek, esig) \<Rightarrow> callable_mismatch ek esig ak asig True = None
       | None \<Rightarrow>
      (if plain_matches a e then True
       else
         (case optional_inner e of
            Some eo \<Rightarrow>
              (case optional_inner a of None \<Rightarrow> False | Some ao \<Rightarrow> matches_stored ao eo) \<or>
              matches_expected a eo
          | None \<Rightarrow>
              (case validated a of
                 Some (v, base) \<Rightarrow> matches_expected base e
               | None \<Rightarrow> False)))))))))))"
| "matches_invariant a e =
     (if int_domains a e then False
      else case both_wrapped [In_list, In_stream, In_set, In_optional] a e of
        Some (ai, ei) \<Rightarrow> matches_invariant ai ei
      | None \<Rightarrow>
      (case both_map a e of
         Some ((ak, av), ek, ev) \<Rightarrow> matches_invariant ak ek \<and> matches_invariant av ev
       | None \<Rightarrow>
      (case both_result a e of
         Some ((ao, ae), eo, ee) \<Rightarrow> matches_invariant ao eo \<and> matches_invariant ae ee
       | None \<Rightarrow>
      (case both_record a e of
         Some (as, es) \<Rightarrow>
           length as = length es \<and>
           list_all (\<lambda>(n, t).
             case map_of as n of None \<Rightarrow> False | Some u \<Rightarrow> matches_invariant u t) es
       | None \<Rightarrow>
      (case both_validated a e of
         Some ((va, ba), ve, be) \<Rightarrow> va = ve \<and> matches_invariant ba be
       | None \<Rightarrow> matches_expected a e \<and> matches_expected e a)))))"
| "matches_stored a e =
     (case both_wrapped [In_list, In_stream, In_optional] a e of
        Some (ai, ei) \<Rightarrow> matches_stored ai ei
      | None \<Rightarrow>
      (case both_map a e of
         Some ((ak, av), ek, ev) \<Rightarrow> matches_invariant ak ek \<and> matches_stored av ev
       | None \<Rightarrow>
      (case both_result a e of
         Some ((ao, ae), eo, ee) \<Rightarrow> matches_stored ao eo \<and> matches_stored ae ee
       | None \<Rightarrow>
      (case both_record a e of
         Some (as, es) \<Rightarrow>
           length as = length es \<and>
           list_all (\<lambda>(n, t).
             case map_of as n of None \<Rightarrow> False | Some u \<Rightarrow> matches_stored u t) es
       | None \<Rightarrow>
      (case both_union a e of
         Some (as, es) \<Rightarrow>
           length as = length es \<and>
           list_all (\<lambda>m. list_ex (\<lambda>w. matches_stored m w) es) as \<and>
           list_all (\<lambda>w. list_ex (\<lambda>m. matches_stored m w) as) es
       | None \<Rightarrow>
      (case both_validated a e of
         Some ((va, ba), ve, be) \<Rightarrow> va = ve \<and> matches_stored ba be
       | None \<Rightarrow>
      (case validated a of
         Some (v, base) \<Rightarrow> matches_stored base e
       | None \<Rightarrow> matches_invariant a e)))))))"
| "callable_return_fits a e =
     (if a = e then True
      else if contains_recovery a \<or> contains_recovery e then False
      else case both_result a e of
        Some ((ao, ae), eo, ee) \<Rightarrow> matches_stored ao eo \<and> matches_expected ae ee
      | None \<Rightarrow> matches_stored a e)"
| "callable_mismatch kind sig actual_kind actual check =
     (case callable_shape_mismatch kind sig actual_kind actual check of
        Some r \<Rightarrow> Some r
      | None \<Rightarrow>
          (if (is_recovery (s_return actual) \<or> is_recovery (s_return sig)) \<and>
              \<not> (s_return actual = Plain Invalid_ty \<or> s_return sig = Plain Invalid_ty) \<and> check
           then Some Unknown_return
           else if \<not> (is_recovery (s_return actual) \<or> is_recovery (s_return sig)) \<and>
              \<not> callable_return_fits (s_return actual) (s_return sig)
           then Some Other_return
           else if \<not> check \<or> kind = Pure then None
           else effect_mismatch (s_effects actual) (s_effects sig)))"
| "module_export_matches (Value_export t o1) (Value_export u o2) = matches_expected t u"
| "module_export_matches (Callable_export k s o1) (Callable_export l r o2) =
     (k = l \<and> callable_matches_expected s r)"
| "module_export_matches (Generic_export k o1) (Generic_export l o2) = (k = l)"
| "module_export_matches (Value_export t o1) (Callable_export l r o2) = False"
| "module_export_matches (Value_export t o1) (Generic_export l o2) = False"
| "module_export_matches (Callable_export k s o1) (Value_export u o2) = False"
| "module_export_matches (Callable_export k s o1) (Generic_export l o2) = False"
| "module_export_matches (Generic_export k o1) (Value_export u o2) = False"
| "module_export_matches (Generic_export k o1) (Callable_export l r o2) = False"
| "callable_matches_expected a e =
     (length (s_params a) = length (s_params e) \<and>
      list_all (\<lambda>(p, q). p_rest p = p_rest q \<and> matches_expected (p_ty p) (p_ty q))
        (zip (s_params a) (s_params e)) \<and>
      matches_expected (s_return a) (s_return e) \<and>
      callable_effects_match (s_effects a) (s_effects e))"
  by pat_completeness auto
termination
proof (relation "measure (\<lambda>x. case x of
    Inl (Inl (a, e)) \<Rightarrow> 4 * (size a + size e)
  | Inl (Inr (Inl (a, e))) \<Rightarrow> 4 * (size a + size e) + 1
  | Inl (Inr (Inr (a, e))) \<Rightarrow> 4 * (size a + size e) + 2
  | Inr (Inl (Inl (a, e))) \<Rightarrow> 4 * (size a + size e) + 3
  | Inr (Inl (Inr (k, s, l, r, b))) \<Rightarrow> 4 * (size s + size r)
  | Inr (Inr (Inl (a, e))) \<Rightarrow> 4 * (size a + size e)
  | Inr (Inr (Inr (a, e))) \<Rightarrow> 4 * (size a + size e))", goal_cases)
  case 1
  show ?case by simp
qed (auto simp: both_simps size_return size_returns intro: size_members
      dest!: both_wrapped_Some size_zip_param size_lookup dest: size_member size_field)

declare matches_expected.simps [simp del] matches_invariant.simps [simp del]
  matches_stored.simps [simp del] callable_return_fits.simps [simp del]
  callable_mismatch.simps [simp del] callable_matches_expected.simps [simp del]

end
