(* ===== verification/Xsh_Type_Ops.thy ===== *)
theory Xsh_Type_Ops
  imports Xsh_Types
begin

text \<open>
  The operations of the checker on types: the validations of \<open>sema/validated.rs\<close>, and the
  queries, joins and explanations of \<open>sema/types.rs\<close> that are built on the compatibility
  relations. Messages are values of small reason types; the text of a message is not modelled.
\<close>

section \<open>Validations\<close>

abbreviation (input) slash_byte :: u8 where "slash_byte \<equiv> 47"
abbreviation (input) dot_byte :: u8 where "dot_byte \<equiv> 46"

definition int_range_new :: "int \<Rightarrow> int \<Rightarrow> int_range option" where
  "int_range_new l h = (if l \<le> h then Some \<lparr>low = l, high = h\<rparr> else None)"

definition range_contains :: "int_range \<Rightarrow> int \<Rightarrow> bool" where
  "range_contains r v \<longleftrightarrow> low r \<le> v \<and> v \<le> high r"

fun rel_depth :: "nat \<Rightarrow> u8 list list \<Rightarrow> bool" where
  "rel_depth depth [] = True"
| "rel_depth depth (component # rest) =
     (if component = [] \<or> component = [dot_byte] then rel_depth depth rest
      else if component = [dot_byte, dot_byte] then
        (case depth of 0 \<Rightarrow> False | Suc higher \<Rightarrow> rel_depth higher rest)
      else rel_depth (depth + 1) rest)"

definition is_rel_path :: "u8 list \<Rightarrow> bool" where
  "is_rel_path bytes =
     (case bytes of
        [] \<Rightarrow> False
      | b # _ \<Rightarrow> b \<noteq> slash_byte \<and> rel_depth 0 (split_on slash_byte bytes))"

datatype rel_path_reason = Is_empty | Is_absolute | Climbs

definition rel_path_failure :: "u8 list \<Rightarrow> rel_path_reason option" where
  "rel_path_failure bytes =
     (if is_rel_path bytes then None
      else case bytes of
        [] \<Rightarrow> Some Is_empty
      | b # _ \<Rightarrow> if b = slash_byte then Some Is_absolute else Some Climbs)"

definition ALL_validations :: "validation list" where
  "ALL_validations = [NonEmpty, RelPath]"

fun validation_code :: "validation \<Rightarrow> u32 option" where
  "validation_code NonEmpty = Some 1"
| "validation_code RelPath = Some 2"
| "validation_code (Nominal n) = None"
| "validation_code (Range r) = None"

definition validation_from_code :: "u32 \<Rightarrow> validation option" where
  "validation_from_code c = find (\<lambda>v. validation_code v = Some c) ALL_validations"

datatype base_reason = Not_a_list | Not_a_path | Not_a_record | Negative_range | Not_an_integer

definition base_error :: "validation \<Rightarrow> ty \<Rightarrow> base_reason option" where
  "base_error v base =
     (case v of
        NonEmpty \<Rightarrow> (case base of List_ty i \<Rightarrow> None | _ \<Rightarrow> Some Not_a_list)
      | RelPath \<Rightarrow> (if base = Plain Path_ty then None else Some Not_a_path)
      | Nominal n \<Rightarrow> (case base of Record_ty fs \<Rightarrow> None | _ \<Rightarrow> Some Not_a_record)
      | Range r \<Rightarrow>
          (if base = Plain Int_ty then None
           else if base = Plain UInt_ty then (if low r < 0 then Some Negative_range else None)
           else Some Not_an_integer))"

fun survives_concatenation :: "validation \<Rightarrow> bool" where
  "survives_concatenation NonEmpty = True"
| "survives_concatenation _ = False"

fun survives_mapping :: "validation \<Rightarrow> bool" where
  "survives_mapping NonEmpty = True"
| "survives_mapping _ = False"

definition implies :: "validation \<Rightarrow> validation \<Rightarrow> bool" where
  "implies v w \<longleftrightarrow> v = w"

definition validated_new :: "validation \<Rightarrow> ty \<Rightarrow> base_reason + ty" where
  "validated_new v base =
     (case base_error v base of Some r \<Rightarrow> Inl r | None \<Rightarrow> Inr (Validated_ty v base))"

definition non_empty_ty :: "ty \<Rightarrow> ty" where
  "non_empty_ty item = Validated_ty NonEmpty (List_ty item)"

definition rel_path_ty :: ty where
  "rel_path_ty = Validated_ty RelPath (Plain Path_ty)"

definition nominal_ty :: "name \<Rightarrow> ty \<Rightarrow> base_reason + ty" where
  "nominal_ty n base = validated_new (Nominal n) base"

definition bounded_ty :: "int_range \<Rightarrow> ty \<Rightarrow> base_reason + ty" where
  "bounded_ty r base = validated_new (Range r) base"

definition nominal_name :: "ty \<Rightarrow> name option" where
  "nominal_name t = (case validated t of Some (Nominal n, b) \<Rightarrow> Some n | _ \<Rightarrow> None)"

definition int_range_of :: "ty \<Rightarrow> int_range option" where
  "int_range_of t = (case validated t of Some (Range r, b) \<Rightarrow> Some r | _ \<Rightarrow> None)"

fun unvalidated :: "ty \<Rightarrow> ty" where
  "unvalidated (Validated_ty v base) = unvalidated base"
| "unvalidated t = t"

text \<open>The component types where a validated type may stand for its base.\<close>

fun stored_children :: "ty \<Rightarrow> ty list" where
  "stored_children (Set_ty t) = []"
| "stored_children (Validated_ty v t) = []"
| "stored_children t = data_children t"

lemma size_stored_child: "c \<in> set (stored_children t) \<Longrightarrow> size c < size t"
  by (rule size_data_child) (cases t; simp)

function holds_validated :: "ty \<Rightarrow> bool" where
  "holds_validated t = (validated t \<noteq> None \<or> list_ex holds_validated (stored_children t))"
  by pat_completeness auto
termination by (relation "measure size") (auto intro: size_stored_child)

fun find_map :: "('a \<Rightarrow> 'b option) \<Rightarrow> 'a list \<Rightarrow> 'b option" where
  "find_map f [] = None"
| "find_map f (x # xs) = (case f x of Some y \<Rightarrow> Some y | None \<Rightarrow> find_map f xs)"

lemma find_map_cong [fundef_cong]:
  "xs = ys \<Longrightarrow> (\<And>x. x \<in> set ys \<Longrightarrow> f x = g x) \<Longrightarrow> find_map f xs = find_map g ys"
  by (induction xs arbitrary: ys) (auto split: option.splits)

lemma find_map_None: "find_map f xs = None \<longleftrightarrow> (\<forall>x \<in> set xs. f x = None)"
  by (induction xs) (auto split: option.splits)

function held_nominal :: "ty \<Rightarrow> ty option" where
  "held_nominal t =
     (case validated t of
        Some (v, base) \<Rightarrow> (case v of Nominal n \<Rightarrow> Some t | _ \<Rightarrow> held_nominal base)
      | None \<Rightarrow> find_map held_nominal (stored_children t))"
  by pat_completeness auto
termination by (relation "measure size") (auto intro: size_stored_child)

declare holds_validated.simps [simp del] held_nominal.simps [simp del]

section \<open>Queries\<close>

definition is_map_key :: "ty \<Rightarrow> bool" where
  "is_map_key t \<longleftrightarrow>
     t \<in> set (map Plain [Str_ty, Int_ty, UInt_ty, Bool_ty, Bytes_ty, Path_ty, Duration_ty])"

definition is_result :: "ty \<Rightarrow> bool" where
  "is_result t \<longleftrightarrow> (case t of Result_ty a b \<Rightarrow> True | _ \<Rightarrow> False)"

definition result_ok :: "ty \<Rightarrow> ty option" where
  "result_ok t = (case t of Result_ty a b \<Rightarrow> Some a | _ \<Rightarrow> None)"

definition is_result_unit :: "ty \<Rightarrow> bool" where
  "is_result_unit t \<longleftrightarrow> result_ok t = Some (Plain Unit_ty)"

definition can_be_ordering_operand :: "ty \<Rightarrow> bool" where
  "can_be_ordering_operand t \<longleftrightarrow>
     unvalidated t \<in> set (map Plain [Int_ty, UInt_ty, Float_ty, Duration_ty, Str_ty])"

fun equality_operand_type :: "ty \<Rightarrow> ty" where
  "equality_operand_type (Optional_ty inner) = Optional_ty (unvalidated inner)"
| "equality_operand_type t = unvalidated t"

datatype binary_op =
    ResultFallback | OrOp | AndOp | EqOp | NeOp | LtOp | LeOp | GtOp | GeOp | InOp | NotInOp
  | AddOp | SubOp | MulOp | DivOp | RemOp | UnionOp | IntersectOp

definition set_operator_result :: "ty \<Rightarrow> binary_op \<Rightarrow> ty \<Rightarrow> ty option" where
  "set_operator_result self binop right =
     (if binop \<noteq> UnionOp \<and> binop \<noteq> IntersectOp then None
      else case (unvalidated self, unvalidated right) of
        (Set_ty l, Set_ty r) \<Rightarrow>
          if \<not> is_map_key l \<or> \<not> is_map_key r \<or>
             \<not> matches_expected (unvalidated right) (unvalidated self)
          then None else Some (unvalidated self)
      | _ \<Rightarrow> None)"

datatype condition_role = Control | Boolean

definition condition_accepts :: "condition_role \<Rightarrow> ty \<Rightarrow> bool" where
  "condition_accepts role t \<longleftrightarrow> t = Plain Bool_ty \<or> role = Control \<and> t = Plain Status_ty"

datatype membership_check =
    Expected_needle ty | Compared_needle ty | Dynamic_operand | Dynamic_container
  | Dynamic_operand_and_container | Path_part_mismatch | Environment_path_mismatch
  | Recovery_check | Unsupported_container

fun accepts_producer :: "membership_check \<Rightarrow> ty \<Rightarrow> bool" where
  "accepts_producer (Expected_needle required) actual =
     (matches_expected actual required \<and>
      (required \<noteq> Plain UInt_ty \<or> unvalidated actual = Plain UInt_ty))"
| "accepts_producer (Compared_needle required) actual = matches_expected actual required"
| "accepts_producer _ actual = False"

definition membership_needle_type :: "ty \<Rightarrow> ty \<Rightarrow> membership_check" where
  "membership_needle_type self needle =
     (case unvalidated self of
        Map_ty k v \<Rightarrow> Expected_needle k
      | Set_ty k \<Rightarrow> Compared_needle k
      | List_ty item \<Rightarrow>
          (if needle = Plain Any_ty then Compared_needle (Plain Any_ty)
           else Compared_needle (unvalidated item))
      | Record_ty fs \<Rightarrow> Expected_needle (Plain Str_ty)
      | Plain p \<Rightarrow>
          (if p = Str_ty \<or> p = ErasedRecord_ty then Expected_needle (Plain Str_ty)
           else if p = Bytes_ty then Expected_needle (Plain Bytes_ty)
           else if p = Path_ty then
             (if unvalidated needle \<in> set (map Plain [Str_ty, Path_ty, Unknown_ty])
              then Expected_needle (unvalidated needle)
              else if unvalidated needle = Plain Any_ty then Dynamic_operand
              else Path_part_mismatch)
           else if p = EnvPathList_ty then
             (if unvalidated needle = Plain Any_ty then Expected_needle (Plain Path_ty)
              else if unvalidated needle \<in> set (map Plain [Path_ty, Unknown_ty])
              then Expected_needle (unvalidated needle)
              else Environment_path_mismatch)
           else if p = Any_ty then
             (if needle = Plain Any_ty then Dynamic_operand_and_container else Dynamic_container)
           else if p = Unknown_ty then Recovery_check
           else Unsupported_container)
      | _ \<Rightarrow> Unsupported_container)"

function can_be_argv_item :: "ty \<Rightarrow> bool" where
  "can_be_argv_item t =
     (case union_members t of
        Some ms \<Rightarrow> list_all can_be_argv_item ms
      | None \<Rightarrow>
          unvalidated t \<in> set (map Plain [Str_ty, Int_ty, UInt_ty, Bool_ty, Path_ty, Duration_ty]))"
  by pat_completeness auto
termination by (relation "measure size") (auto dest: size_member)

definition process_command_argv_item_type :: ty where
  "process_command_argv_item_type = Union_ty [Plain Str_ty, Plain Path_ty]"

function can_be_process_command_argv_item :: "ty \<Rightarrow> bool" where
  "can_be_process_command_argv_item t =
     (case union_members t of
        Some ms \<Rightarrow> list_all can_be_process_command_argv_item ms
      | None \<Rightarrow>
          unvalidated t = Plain Unknown_ty \<or>
          \<not> is_recovery (unvalidated t) \<and>
          matches_expected (unvalidated t) process_command_argv_item_type)"
  by pat_completeness auto
termination by (relation "measure size") (auto dest: size_member)

declare can_be_argv_item.simps [simp del] can_be_process_command_argv_item.simps [simp del]

definition is_readonly_argv_word_list :: "ty \<Rightarrow> bool" where
  "is_readonly_argv_word_list t \<longleftrightarrow>
     (case t of
        List_ty item \<Rightarrow>
          (case union_members item of
             Some ms \<Rightarrow> length ms = 2 \<and> Plain Str_ty \<in> set ms \<and> Plain Path_ty \<in> set ms
           | None \<Rightarrow> False)
      | _ \<Rightarrow> False)"

definition accepts_readonly_argv_argument :: "ty \<Rightarrow> ty \<Rightarrow> bool" where
  "accepts_readonly_argv_argument self actual \<longleftrightarrow>
     is_readonly_argv_word_list self \<and>
     (case actual of List_ty item \<Rightarrow> can_be_process_command_argv_item item | _ \<Rightarrow> False)"

definition can_be_env_value :: "ty \<Rightarrow> bool" where
  "can_be_env_value t \<longleftrightarrow>
     can_be_argv_item t \<or>
     unvalidated t = List_ty (Plain Path_ty) \<or> unvalidated t = List_ty (Plain Unknown_ty)"

datatype context_scope_kind = Cwd | EnvScope | Within

definition accepts_context_scope_input :: "ty \<Rightarrow> context_scope_kind \<Rightarrow> bool" where
  "accepts_context_scope_input t kind =
     (case kind of
        Within \<Rightarrow> t \<in> set (map Plain [Duration_ty, Unknown_ty, Invalid_ty])
      | Cwd \<Rightarrow> unvalidated t \<in> set (map Plain [Path_ty, Str_ty, Unknown_ty, Invalid_ty])
      | EnvScope \<Rightarrow>
          (case t of
             Record_ty fs \<Rightarrow> list_all (\<lambda>(n, f). can_be_env_value f) fs
           | Map_ty k v \<Rightarrow> k = Plain Str_ty \<and> can_be_env_value v
           | _ \<Rightarrow> is_recovery t))"

definition can_display :: "ty \<Rightarrow> bool" where
  "can_display t \<longleftrightarrow>
     unvalidated t \<in>
       set (map Plain [Str_ty, Int_ty, UInt_ty, Bool_ty, Path_ty, Duration_ty, Float_ty])"

definition can_word_convert_to :: "ty \<Rightarrow> bool" where
  "can_word_convert_to t \<longleftrightarrow>
     t \<in> set (map Plain [Any_ty, Str_ty, Path_ty, Int_ty, UInt_ty, Bool_ty, Duration_ty])"

definition is_json_compatible :: "ty \<Rightarrow> bool" where
  "is_json_compatible t = is_json_compatible_with (\<lambda>n. False) t"

fun iteration_item_type :: "ty \<Rightarrow> ty option" where
  "iteration_item_type (List_ty item) = Some item"
| "iteration_item_type (Stream_ty item) = Some item"
| "iteration_item_type (Set_ty item) = Some item"
| "iteration_item_type (Plain p) =
     (if p = Str_ty then Some (Plain Str_ty)
      else if p = Bytes_ty then Some (Plain Int_ty) else None)"
| "iteration_item_type (Map_ty k item) = Some (Record_ty [(''key'', k), (''value'', item)])"
| "iteration_item_type (Validated_ty v base) = iteration_item_type base"
| "iteration_item_type (Result_ty good bad) =
     (case unvalidated good of
        List_ty i \<Rightarrow> iteration_item_type good
      | Stream_ty i \<Rightarrow> iteration_item_type good
      | Set_ty i \<Rightarrow> iteration_item_type good
      | Map_ty k i \<Rightarrow> iteration_item_type good
      | Plain p \<Rightarrow> if p = Str_ty \<or> p = Bytes_ty then iteration_item_type good else None
      | _ \<Rightarrow> None)"
| "iteration_item_type _ = None"

definition is_result_iteration_source :: "ty \<Rightarrow> bool" where
  "is_result_iteration_source t \<longleftrightarrow>
     is_result (unvalidated t) \<and> iteration_item_type t \<noteq> None"

datatype callee_flow = No_flow | Immediate | Latent

definition callee_error_flow :: "ty \<Rightarrow> effect list option \<Rightarrow> callee_flow" where
  "callee_error_flow t effects =
     (if \<not> (case effects of Some es \<Rightarrow> Error \<in> set es | None \<Rightarrow> False) then No_flow
      else case unvalidated t of
        Stream_ty i \<Rightarrow> Latent
      | _ \<Rightarrow> if is_result t then No_flow else Immediate)"

section \<open>Commands\<close>

datatype run_kind =
    Plain_run | Status_run | CaptureText | CaptureBytes | CaptureTextRecord | CaptureBytesRecord
  | StreamText | StreamBytes

definition run_statement_result :: ty where
  "run_statement_result = Result_ty (Plain Status_ty) (Plain ProcessError_ty)"

definition run_capture_result :: "run_kind \<Rightarrow> ty option" where
  "run_capture_result kind =
     map_option (\<lambda>t. Result_ty t (Plain ProcessError_ty))
       (case kind of
          CaptureText \<Rightarrow> Some (Plain Str_ty)
        | CaptureBytes \<Rightarrow> Some (Plain Bytes_ty)
        | CaptureTextRecord \<Rightarrow>
            Some (Record_ty [(''status'', Plain Status_ty), (''stderr'', Plain Str_ty),
                             (''stdout'', Plain Str_ty)])
        | CaptureBytesRecord \<Rightarrow>
            Some (Record_ty [(''status'', Plain Status_ty), (''stderr'', Plain Bytes_ty),
                             (''stdout'', Plain Bytes_ty)])
        | StreamText \<Rightarrow> Some (Stream_ty (Plain Str_ty))
        | StreamBytes \<Rightarrow> Some (Stream_ty (Plain Bytes_ty))
        | Plain_run \<Rightarrow> None
        | Status_run \<Rightarrow> None)"

definition run_capture_output :: "run_kind \<Rightarrow> bool \<Rightarrow> ty option" where
  "run_capture_output kind assert_success =
     (if kind = Plain_run \<and> assert_success then Some run_statement_result
      else if kind = Plain_run \<or> kind = Status_run then Some (Plain Status_ty)
      else run_capture_result kind)"

definition run_pipeline_output :: "run_kind \<Rightarrow> bool \<Rightarrow> ty option" where
  "run_pipeline_output head propagate =
     (if (head = Plain_run \<or> head = Status_run) \<and> propagate then Some run_statement_result
      else if head = Plain_run \<or> head = Status_run then Some (Plain Status_ty)
      else run_capture_result head)"

section \<open>Joins\<close>

definition concatenation_type :: "validation option list \<Rightarrow> ty \<Rightarrow> ty" where
  "concatenation_type operands concatenated =
     (case find survives_concatenation (concat (map (\<lambda>v. case v of None \<Rightarrow> [] | Some w \<Rightarrow> [w]) operands)) of
        None \<Rightarrow> concatenated
      | Some v \<Rightarrow> (case validated_new v concatenated of Inr t \<Rightarrow> t | Inl r \<Rightarrow> concatenated))"

fun error_family_of :: "ty \<Rightarrow> name option" where
  "error_family_of (Plain (ErrorVariant_ty f v)) = Some f"
| "error_family_of (Plain (ErrorFamily_ty f)) = Some f"
| "error_family_of _ = None"

definition join_errors :: "ty option \<Rightarrow> ty \<Rightarrow> ty" where
  "join_errors inferred error =
     (case inferred of
        None \<Rightarrow> error
      | Some current \<Rightarrow>
          if matches_expected error current then current
          else if matches_expected current error then error
          else case (error_family_of current, error_family_of error) of
            (Some l, Some r) \<Rightarrow> if l = r then Plain (ErrorFamily_ty l) else Plain Error_ty
          | _ \<Rightarrow> Plain Error_ty)"

definition captured_error_type :: "ty list \<Rightarrow> ty" where
  "captured_error_type errors =
     (case fold (\<lambda>e acc. Some (join_errors acc e)) errors None of
        Some t \<Rightarrow> t
      | None \<Rightarrow> Plain Error_ty)"

definition tail_type_matches_expected :: "ty \<Rightarrow> ty \<Rightarrow> bool" where
  "tail_type_matches_expected expected actual \<longleftrightarrow>
     matches_expected actual expected \<or>
     \<not> is_result actual \<and>
     (case result_ok expected of Some good \<Rightarrow> matches_expected actual good | None \<Rightarrow> False)"

definition union_without :: "ty \<Rightarrow> ty \<Rightarrow> ty option" where
  "union_without self tested =
     (case union_members self of
        None \<Rightarrow> None
      | Some ms \<Rightarrow>
          (case filter (\<lambda>m. \<not> matches_expected m tested) ms of
             [] \<Rightarrow> None
           | [m] \<Rightarrow> Some m
           | rest \<Rightarrow> Some (Union_ty rest)))"

definition MAX_TYPE_DEPTH :: nat where "MAX_TYPE_DEPTH = 256"

text \<open>The depth bound makes the recursion structural in the fuel \<open>MAX_TYPE_DEPTH + 1 - depth\<close>.\<close>

fun all_some :: "'a option list \<Rightarrow> 'a list option" where
  "all_some [] = Some []"
| "all_some (None # xs) = None"
| "all_some (Some x # xs) = map_option (Cons x) (all_some xs)"

fun refine_list_literal_unknowns :: "nat \<Rightarrow> ty \<Rightarrow> ty \<Rightarrow> ty option" where
  "refine_list_literal_unknowns 0 source peer = None"
| "refine_list_literal_unknowns (Suc room) source peer =
     (if source = Plain Unknown_ty \<and> \<not> is_recovery peer then Some peer
      else case both_wrapped [In_list] source peer of
        Some (item, peer_item) \<Rightarrow>
          map_option List_ty (refine_list_literal_unknowns room item peer_item)
      | None \<Rightarrow>
      (case both_map source peer of
        Some ((k, v), pk, pv) \<Rightarrow>
          (case refine_list_literal_unknowns room k pk of
             None \<Rightarrow> None
           | Some k' \<Rightarrow> map_option (Map_ty k') (refine_list_literal_unknowns room v pv))
      | None \<Rightarrow>
      (case both_record source peer of
        Some (fs, ps) \<Rightarrow>
          if map fst fs = map fst ps then
            map_option Record_ty
              (all_some (map (\<lambda>((n, t), (m, p)).
                 map_option (Pair n) (refine_list_literal_unknowns room t p)) (zip fs ps)))
          else Some source
      | None \<Rightarrow> Some source)))"

definition merge_list_literal_item_ty :: "ty \<Rightarrow> ty \<Rightarrow> ty option" where
  "merge_list_literal_item_ty current nxt =
     (case (refine_list_literal_unknowns (MAX_TYPE_DEPTH + 1) current nxt,
            refine_list_literal_unknowns (MAX_TYPE_DEPTH + 1) nxt current) of
        (Some c, Some n) \<Rightarrow>
          if matches_expected n c then Some c
          else if matches_expected c n then Some n
          else if c = Plain Str_ty \<and> n = Plain Path_ty \<or> c = Plain Path_ty \<and> n = Plain Str_ty
          then Some (Plain Any_ty)
          else None
      | _ \<Rightarrow> None)"

section \<open>Searches with an explicit stack\<close>

lemma size_list_sum: "size_list f xs = sum_list (map f xs) + length xs"
  by (induction xs) simp_all

definition weight :: "ty list \<Rightarrow> nat" where
  "weight ts = 2 * sum_list (map size ts) + length ts"

lemma weight_simps [simp]:
  "weight [] = 0" "weight (t # ts) = 2 * size t + 1 + weight ts"
  "weight (ts @ us) = weight ts + weight us" "weight (rev ts) = weight ts"
  by (simp_all add: weight_def rev_map [symmetric])

lemma weight_sig_types: "weight (sig_types s) < 2 * size s"
proof (cases s)
  case (Signature ps r e)
  have "weight (map p_ty ps) \<le> 2 * size_list size ps"
  proof (induction ps)
    case (Cons p ps)
    then show ?case using size_param [of p] by simp
  qed simp
  then show ?thesis using Signature by simp
qed

lemma weight_export_types: "weight (export_types x) \<le> 2 * size x"
  using weight_sig_types by (cases x) (auto intro: less_imp_le less_SucI)

lemma weight_children: "weight (children t) \<le> 2 * size t"
proof (cases t)
  case (Record_ty fs)
  have "weight (map snd fs) \<le> 2 * size_list (size_prod (\<lambda>_. 0) size) fs"
    by (induction fs) auto
  with Record_ty show ?thesis by simp
next
  case (Module_ty xs exact)
  have "weight (concat (map (export_types \<circ> snd) xs)) \<le> 2 * size_list (size_prod (\<lambda>_. 0) size) xs"
  proof (induction xs)
    case (Cons x xs)
    then show ?case using weight_export_types [of "snd x"] by (cases x) simp
  qed simp
  with Module_ty show ?thesis by simp
next
  case (Callable_ty k s)
  with weight_sig_types [of s] show ?thesis by simp
next
  case (Union_ty ms)
  then show ?thesis by (simp add: weight_def size_list_sum)
qed auto

text \<open>The stack is the list with its top first, so a \<open>Vec\<close> extended by \<open>xs\<close> gets \<open>rev xs\<close>.\<close>

function search_children :: "(ty \<Rightarrow> bool) \<Rightarrow> ty list \<Rightarrow> bool" where
  "search_children found [] = False"
| "search_children found (t # pending) =
     (if found t then True else search_children found (rev (children t) @ pending))"
  by pat_completeness auto
termination
proof (relation "measure (\<lambda>(f, ts). weight ts)", goal_cases)
  case (2 found t pending)
  show ?case using weight_children [of t] by simp
qed simp

definition contains_builtin_parameter :: "ty \<Rightarrow> bool" where
  "contains_builtin_parameter t =
     search_children (\<lambda>u. case u of Plain (BuiltinParameter_ty i) \<Rightarrow> True | _ \<Rightarrow> False) [t]"

definition is_scheme_callable :: "ty \<Rightarrow> bool" where
  "is_scheme_callable t \<longleftrightarrow> (case t of Plain (SchemeCallable_ty i) \<Rightarrow> True | _ \<Rightarrow> False)"

definition contains_scheme_callable :: "ty \<Rightarrow> bool" where
  "contains_scheme_callable t =
     (if is_scheme_callable t then True
      else search_children is_scheme_callable (rev (children t)))"

definition inference_found :: "ty \<Rightarrow> bool" where
  "inference_found t \<longleftrightarrow>
     (case t of Plain (Inference_ty v) \<Rightarrow> True | _ \<Rightarrow> list_ex has_inference (own_effects t))"

definition contains_inference :: "ty \<Rightarrow> bool" where
  "contains_inference t = search_children inference_found [t]"

section \<open>Explanations\<close>

datatype union_reason =
    Too_few_members | Any_member | Null_member | Union_member | Stream_member | Callable_member
  | Listed_twice ty | Already_fits ty ty | Same_fields ty ty

definition member_reason :: "ty \<Rightarrow> union_reason option" where
  "member_reason t =
     (case t of
        Plain p \<Rightarrow>
          (if p = Any_ty then Some Any_member
           else if p = Null_ty then Some Null_member
           else case p of SchemeCallable_ty i \<Rightarrow> Some Callable_member | _ \<Rightarrow> None)
      | Optional_ty i \<Rightarrow> Some Null_member
      | Union_ty ms \<Rightarrow> Some Union_member
      | Stream_ty i \<Rightarrow> Some Stream_member
      | Callable_ty k s \<Rightarrow> Some Callable_member
      | _ \<Rightarrow> None)"

definition nominal_clash :: "ty \<Rightarrow> ty \<Rightarrow> bool" where
  "nominal_clash nominal other \<longleftrightarrow>
     nominal_name nominal \<noteq> None \<and> matches_expected (unvalidated other) (unvalidated nominal)"

definition pair_reason :: "ty \<Rightarrow> ty \<Rightarrow> union_reason option" where
  "pair_reason left right =
     (if is_recovery right then None
      else if left = right then Some (Listed_twice left)
      else if matches_expected left right then Some (Already_fits left right)
      else if matches_expected right left then Some (Already_fits right left)
      else if nominal_clash left right then Some (Same_fields right left)
      else if nominal_clash right left then Some (Same_fields left right)
      else None)"

fun pairs_reason :: "ty list \<Rightarrow> union_reason option" where
  "pairs_reason [] = None"
| "pairs_reason (left # rest) =
     (if is_recovery left then pairs_reason rest
      else case find_map (pair_reason left) rest of
        Some r \<Rightarrow> Some r
      | None \<Rightarrow> pairs_reason rest)"

definition union_member_error :: "ty list \<Rightarrow> union_reason option" where
  "union_member_error members =
     (if length members < 2 then Some Too_few_members
      else case find_map member_reason members of
        Some r \<Rightarrow> Some r
      | None \<Rightarrow> pairs_reason members)"

datatype unmet_reason =
    Missing_export name | Mismatched_export name | Unexpected_export name | Unknown_surface

type_synonym module_type = "(name \<times> export) list \<times> bool"

fun unmet_by :: "module_type \<Rightarrow> module_type \<Rightarrow> unmet_reason list" where
  "unmet_by (es, exact) (as, a_exact) =
     concat (map (\<lambda>(n, expected).
       case map_of as n of
         None \<Rightarrow> if export_optional expected then [] else [Missing_export n]
       | Some found \<Rightarrow>
           if module_export_matches found expected then [] else [Mismatched_export n]) es)
     @ (if exact then
          (if a_exact then
             map Unexpected_export (filter (\<lambda>n. map_of es n = None) (map fst as))
           else [Unknown_surface])
        else [])"

fun field_type :: "export \<Rightarrow> ty option" where
  "field_type (Value_export t opt) = Some t"
| "field_type (Callable_export k s opt) = Some (Plain (Function_ty k))"
| "field_type (Generic_export k opt) = Some (Plain (Function_ty k))"

fun field_value_type :: "export \<Rightarrow> ty option" where
  "field_value_type (Generic_export k opt) = None"
| "field_value_type x = field_type x"

fun static_callable_value_type :: "export \<Rightarrow> ty option" where
  "static_callable_value_type (Callable_export k (Signature ps r e) False) =
     (let e' = ec_for_invocation k e; t = Callable_ty k (Signature ps r e') in
      (case ec_concrete e' of
         Inr (Some es) \<Rightarrow>
           if \<not> contains_inference t \<and> \<not> contains_recovery t then Some t else None
       | _ \<Rightarrow> None))"
| "static_callable_value_type _ = None"

text \<open>How a loaded module's export differs from its contract (\<open>runtime/eval/module_contract.rs\<close>).\<close>

datatype signature_reason =
    Sig_arity | Sig_rest nat | Sig_name nat | Sig_parameter nat | Sig_effects | Sig_return

fun signature_parameters :: "nat \<Rightarrow> param list \<Rightarrow> param list \<Rightarrow> signature_reason option" where
  "signature_parameters i (found # fs) (expected # es) =
     (if p_rest found \<noteq> p_rest expected then Some (Sig_rest (i + 1))
      else if p_name found \<noteq> p_name expected then Some (Sig_name (i + 1))
      else if \<not> matches_expected (p_ty found) (p_ty expected) then Some (Sig_parameter (i + 1))
      else signature_parameters (i + 1) fs es)"
| "signature_parameters i _ _ = None"

definition signature_mismatch :: "signature \<Rightarrow> signature \<Rightarrow> signature_reason option" where
  "signature_mismatch found expected =
     (if length (s_params found) \<noteq> length (s_params expected) then Some Sig_arity
      else case signature_parameters 0 (s_params found) (s_params expected) of
        Some r \<Rightarrow> Some r
      | None \<Rightarrow>
          if \<not> callable_effects_match (s_effects found) (s_effects expected) then Some Sig_effects
          else if \<not> matches_expected (s_return found) (s_return expected) then Some Sig_return
          else None)"

section \<open>Where \<open>Any\<close> flows into a concrete type\<close>

definition any_flows_shapes :: "ty \<Rightarrow> ty \<Rightarrow> bool" where
  "any_flows_shapes a e \<longleftrightarrow>
     is_dynamic a \<or>
     a = Plain ErasedRecord_ty \<and> (case e of Record_ty fs \<Rightarrow> True | _ \<Rightarrow> False) \<or>
     a = Plain DynamicModule_ty \<and> (case e of Module_ty xs x \<Rightarrow> True | _ \<Rightarrow> False)"

function any_flows_to_concrete :: "ty \<Rightarrow> ty \<Rightarrow> bool"
and module_export_any_flows :: "export \<Rightarrow> export \<Rightarrow> bool"
and callable_any_flows :: "signature \<Rightarrow> signature \<Rightarrow> bool"
where
  "any_flows_to_concrete a e =
     (if is_recovery a \<or> is_recovery e \<or> is_dynamic e then False
      else if any_flows_shapes a e then True
      else case both_wrapped [In_list, In_stream, In_set, In_optional] a e of
        Some (ai, ei) \<Rightarrow> any_flows_to_concrete ai ei
      | None \<Rightarrow>
      (case both_map a e of
        Some ((ak, av), ek, ev) \<Rightarrow> any_flows_to_concrete ak ek \<or> any_flows_to_concrete av ev
      | None \<Rightarrow>
      (case both_result a e of
        Some ((ao, ae), eo, ee) \<Rightarrow> any_flows_to_concrete ao eo \<or> any_flows_to_concrete ae ee
      | None \<Rightarrow>
      (case both_record a e of
        Some (as, es) \<Rightarrow>
          as \<noteq> [] \<and> es \<noteq> [] \<and>
          list_ex (\<lambda>(n, t).
            case map_of as n of None \<Rightarrow> False | Some u \<Rightarrow> any_flows_to_concrete u t) es
      | None \<Rightarrow>
      (case both_module a e of
        Some ((as, x), es, y) \<Rightarrow>
          as \<noteq> [] \<and> es \<noteq> [] \<and>
          list_ex (\<lambda>(n, t).
            case map_of as n of None \<Rightarrow> False | Some u \<Rightarrow> module_export_any_flows u t) es
      | None \<Rightarrow>
      (case both_validated a e of
        Some ((va, ba), ve, be) \<Rightarrow> any_flows_to_concrete ba be
      | None \<Rightarrow>
      (case validated a of
        Some (v, base) \<Rightarrow> any_flows_to_concrete base e
      | None \<Rightarrow>
      (case optional_inner e of
        Some inner \<Rightarrow> any_flows_to_concrete a inner
      | None \<Rightarrow> False))))))))"
| "module_export_any_flows (Value_export t o1) (Value_export u o2) = any_flows_to_concrete t u"
| "module_export_any_flows (Callable_export k s o1) (Callable_export l r o2) =
     (k = l \<and> callable_any_flows s r)"
| "module_export_any_flows (Generic_export k o1) x = False"
| "module_export_any_flows (Value_export t o1) (Callable_export l r o2) = False"
| "module_export_any_flows (Value_export t o1) (Generic_export l o2) = False"
| "module_export_any_flows (Callable_export k s o1) (Value_export u o2) = False"
| "module_export_any_flows (Callable_export k s o1) (Generic_export l o2) = False"
| "callable_any_flows a e =
     (list_ex (\<lambda>(p, q). any_flows_to_concrete (p_ty p) (p_ty q))
        (zip (s_params a) (s_params e)) \<or>
      any_flows_to_concrete (s_return a) (s_return e))"
  by pat_completeness auto
termination
proof (relation "measure (\<lambda>x. case x of
    Inl (a, e) \<Rightarrow> 4 * (size a + size e)
  | Inr (Inl (a, e)) \<Rightarrow> 4 * (size a + size e)
  | Inr (Inr (a, e)) \<Rightarrow> 4 * (size a + size e))", goal_cases)
  case 1
  show ?case by simp
qed (auto simp: both_simps size_return size_returns
      dest!: both_wrapped_Some size_zip_param size_lookup dest: size_member size_field)

declare any_flows_to_concrete.simps [simp del] callable_any_flows.simps [simp del]

section \<open>Builtin type names\<close>

datatype builtin_type_name =
    Unknown_bn | Unit_bn | Any_bn | Null_bn | Bool_bn | Int_bn | UInt_bn | Float_bn | Duration_bn
  | Str_bn | Bytes_bn | Digest_bn | Regex_bn | Path_bn | Map_bn | Module_bn | Record_bn
  | Status_bn | EnvPathList_bn | Error_bn | ProcessError_bn | Pure_bn | Proc_bn | Command_bn
  | ProcessHandle_bn | NetJob_bn | FsRoot_bn | FsLock_bn | SshSession_bn | RelPath_bn | Result_bn

definition BUILTIN_TYPE_NAMES :: "(builtin_type_name \<times> string) list" where
  "BUILTIN_TYPE_NAMES =
     [(Unknown_bn, ''<unknown>''), (Unit_bn, ''Unit''), (Any_bn, ''Any''), (Null_bn, ''Null''),
      (Bool_bn, ''Bool''), (Int_bn, ''Int''), (UInt_bn, ''UInt''), (Float_bn, ''Float''),
      (Duration_bn, ''Duration''), (Str_bn, ''Str''), (Bytes_bn, ''Bytes''),
      (Digest_bn, ''Digest''), (Regex_bn, ''Regex''), (Path_bn, ''Path''), (Map_bn, ''Map''),
      (Module_bn, ''Module''), (Record_bn, ''Record''), (Status_bn, ''Status''),
      (EnvPathList_bn, ''EnvPathList''), (Error_bn, ''Error''),
      (ProcessError_bn, ''ProcessError''), (Pure_bn, ''Pure''), (Proc_bn, ''Proc''),
      (Command_bn, ''Command''), (ProcessHandle_bn, ''ProcessHandle''), (NetJob_bn, ''NetJob''),
      (FsRoot_bn, ''FsRoot''), (FsLock_bn, ''FsLock''), (SshSession_bn, ''SshSession''),
      (RelPath_bn, ''RelPath''), (Result_bn, ''Result'')]"

definition builtin_parse :: "string \<Rightarrow> builtin_type_name option" where
  "builtin_parse text = map_option fst (find (\<lambda>(b, s). s = text) BUILTIN_TYPE_NAMES)"

definition builtin_as_str :: "builtin_type_name \<Rightarrow> string" where
  "builtin_as_str b = the (map_of BUILTIN_TYPE_NAMES b)"

fun from_builtin_name :: "builtin_type_name \<Rightarrow> ty" where
  "from_builtin_name Unknown_bn = Plain Unknown_ty"
| "from_builtin_name Any_bn = Plain Any_ty"
| "from_builtin_name Null_bn = Plain Null_ty"
| "from_builtin_name Bool_bn = Plain Bool_ty"
| "from_builtin_name Int_bn = Plain Int_ty"
| "from_builtin_name UInt_bn = Plain UInt_ty"
| "from_builtin_name Float_bn = Plain Float_ty"
| "from_builtin_name Duration_bn = Plain Duration_ty"
| "from_builtin_name Str_bn = Plain Str_ty"
| "from_builtin_name Bytes_bn = Plain Bytes_ty"
| "from_builtin_name Digest_bn = Plain Digest_ty"
| "from_builtin_name Regex_bn = Plain Regex_ty"
| "from_builtin_name Path_bn = Plain Path_ty"
| "from_builtin_name Map_bn = Map_ty (Plain Str_ty) (Plain Unknown_ty)"
| "from_builtin_name Module_bn = Plain DynamicModule_ty"
| "from_builtin_name Record_bn = Plain ErasedRecord_ty"
| "from_builtin_name Status_bn = Plain Status_ty"
| "from_builtin_name EnvPathList_bn = Plain EnvPathList_ty"
| "from_builtin_name Error_bn = Plain Error_ty"
| "from_builtin_name ProcessError_bn = Plain ProcessError_ty"
| "from_builtin_name Pure_bn = Plain (Function_ty Pure)"
| "from_builtin_name Proc_bn = Plain (Function_ty Proc)"
| "from_builtin_name Command_bn = Plain Command_ty"
| "from_builtin_name ProcessHandle_bn = Plain ProcessHandle_ty"
| "from_builtin_name NetJob_bn = Plain NetJob_ty"
| "from_builtin_name FsRoot_bn = Plain FsRoot_ty"
| "from_builtin_name FsLock_bn = Plain FsLock_ty"
| "from_builtin_name SshSession_bn = Plain SshSession_ty"
| "from_builtin_name Result_bn = Result_ty (Plain Unknown_ty) (Plain Error_ty)"
| "from_builtin_name Unit_bn = Plain Unit_ty"
| "from_builtin_name RelPath_bn = rel_path_ty"

definition from_name :: "string \<Rightarrow> ty" where
  "from_name text =
     (case builtin_parse text of None \<Rightarrow> Plain Unknown_ty | Some b \<Rightarrow> from_builtin_name b)"

definition builtin_from_name :: "string \<Rightarrow> ty option" where
  "builtin_from_name text = map_option from_builtin_name (builtin_parse text)"

fun plain_type_name :: "plain_type \<Rightarrow> builtin_type_name option" where
  "plain_type_name Any_ty = Some Any_bn"
| "plain_type_name Unknown_ty = Some Unknown_bn"
| "plain_type_name Null_ty = Some Null_bn"
| "plain_type_name Bool_ty = Some Bool_bn"
| "plain_type_name Int_ty = Some Int_bn"
| "plain_type_name UInt_ty = Some UInt_bn"
| "plain_type_name Float_ty = Some Float_bn"
| "plain_type_name Duration_ty = Some Duration_bn"
| "plain_type_name Str_ty = Some Str_bn"
| "plain_type_name Bytes_ty = Some Bytes_bn"
| "plain_type_name Digest_ty = Some Digest_bn"
| "plain_type_name Regex_ty = Some Regex_bn"
| "plain_type_name Path_ty = Some Path_bn"
| "plain_type_name DynamicModule_ty = Some Module_bn"
| "plain_type_name ErasedRecord_ty = Some Record_bn"
| "plain_type_name Status_ty = Some Status_bn"
| "plain_type_name EnvPathList_ty = Some EnvPathList_bn"
| "plain_type_name Error_ty = Some Error_bn"
| "plain_type_name ProcessError_ty = Some ProcessError_bn"
| "plain_type_name (Function_ty k) =
     (case k of Pure \<Rightarrow> Some Pure_bn | Proc \<Rightarrow> Some Proc_bn | Stream \<Rightarrow> None)"
| "plain_type_name Command_ty = Some Command_bn"
| "plain_type_name ProcessHandle_ty = Some ProcessHandle_bn"
| "plain_type_name NetJob_ty = Some NetJob_bn"
| "plain_type_name FsRoot_ty = Some FsRoot_bn"
| "plain_type_name FsLock_ty = Some FsLock_bn"
| "plain_type_name SshSession_ty = Some SshSession_bn"
| "plain_type_name Unit_ty = Some Unit_bn"
| "plain_type_name _ = None"

definition type_builtin_name :: "ty \<Rightarrow> builtin_type_name option" where
  "type_builtin_name t =
     (case t of
        Plain p \<Rightarrow> plain_type_name p
      | Map_ty k v \<Rightarrow> Some Map_bn
      | Module_ty xs x \<Rightarrow> Some Module_bn
      | Record_ty fs \<Rightarrow> Some Record_bn
      | Result_ty a b \<Rightarrow> Some Result_bn
      | _ \<Rightarrow> None)"

end
