(* ===== verification/Xsh_Map_Key.thy ===== *)
theory Xsh_Map_Key
  imports Xsh_Btree "HOL-Library.List_Lexorder" "HOL-Library.Char_ord"
begin

text \<open>
  Ordered scalar map keys (\<open>map_key.rs\<close>). \<open>MapKeyRef\<close> borrows the payload of a \<open>MapKey\<close> and is
  modelled by the same datatype; \<open>as_ref\<close> and \<open>to_owned\<close> are then the identity. The derived order
  compares the variants first and the payloads second; text is compared by its UTF-8 bytes.
\<close>

datatype map_key =
    Str_key string | Int_key int | Bool_key bool | Bytes_key "u8 list" | Path_key "u8 list"
  | Duration_key u64

fun key_discriminant :: "map_key \<Rightarrow> nat" where
  "key_discriminant (Str_key s) = 0"
| "key_discriminant (Int_key i) = 1"
| "key_discriminant (Bool_key b) = 2"
| "key_discriminant (Bytes_key b) = 3"
| "key_discriminant (Path_key p) = 4"
| "key_discriminant (Duration_key d) = 5"

fun payload_le :: "map_key \<Rightarrow> map_key \<Rightarrow> bool" where
  "payload_le (Str_key s) (Str_key t) = (s \<le> t)"
| "payload_le (Int_key s) (Int_key t) = (s \<le> t)"
| "payload_le (Bool_key s) (Bool_key t) = (s \<le> t)"
| "payload_le (Bytes_key s) (Bytes_key t) = (s \<le> t)"
| "payload_le (Path_key s) (Path_key t) = (s \<le> t)"
| "payload_le (Duration_key s) (Duration_key t) = (s \<le> t)"
| "payload_le _ _ = True"

definition key_le :: "map_key \<Rightarrow> map_key \<Rightarrow> bool" where
  "key_le k j \<longleftrightarrow>
     key_discriminant k < key_discriminant j \<or>
     key_discriminant k = key_discriminant j \<and> payload_le k j"

instantiation map_key :: linorder
begin

definition less_eq_map_key :: "map_key \<Rightarrow> map_key \<Rightarrow> bool" where
  "less_eq_map_key k j \<longleftrightarrow> key_le k j"

definition less_map_key :: "map_key \<Rightarrow> map_key \<Rightarrow> bool" where
  "less_map_key k j \<longleftrightarrow> k \<le> j \<and> \<not> j \<le> k"

instance
proof
  fix k j l :: map_key
  show "k < j \<longleftrightarrow> k \<le> j \<and> \<not> j \<le> k" by (rule less_map_key_def)
  show "k \<le> k" by (cases k) (simp_all add: less_eq_map_key_def key_le_def)
  show "k \<le> l" if "k \<le> j" "j \<le> l"
    using that by (cases k; cases j; cases l) (auto simp: less_eq_map_key_def key_le_def)
  show "k = j" if "k \<le> j" "j \<le> k"
    using that by (cases k; cases j) (auto simp: less_eq_map_key_def key_le_def)
  show "k \<le> j \<or> j \<le> k"
    by (cases k; cases j) (auto simp: less_eq_map_key_def key_le_def)
qed

end

definition same_domain :: "map_key \<Rightarrow> map_key \<Rightarrow> bool" where
  "same_domain k j \<longleftrightarrow> key_discriminant k = key_discriminant j"

fun key_as_str :: "map_key \<Rightarrow> string option" where
  "key_as_str (Str_key s) = Some s"
| "key_as_str _ = None"

definition key_get :: "map_key \<Rightarrow> (map_key, 'v) btree \<Rightarrow> 'v option" where
  "key_get k entries = bt_get entries k"

definition key_contains :: "map_key \<Rightarrow> (map_key, 'v) btree \<Rightarrow> bool" where
  "key_contains k entries \<longleftrightarrow> bt_get entries k \<noteq> None"

definition key_remove ::
  "map_key \<Rightarrow> (map_key, 'v) btree \<Rightarrow> 'v option \<times> (map_key, 'v) btree" where
  "key_remove k entries = (bt_get entries k, bt_remove k entries)"

text \<open>A \<open>BTreeSet\<close> is the list of its elements in order.\<close>

definition set_wf :: "map_key list \<Rightarrow> bool" where
  "set_wf xs \<longleftrightarrow> sorted_wrt (<) xs"

fun set_insert :: "map_key \<Rightarrow> map_key list \<Rightarrow> map_key list" where
  "set_insert k [] = [k]"
| "set_insert k (j # js) =
     (if k < j then k # j # js else if k = j then j # js else j # set_insert k js)"

definition key_is_in :: "map_key \<Rightarrow> map_key list \<Rightarrow> bool" where
  "key_is_in k elements \<longleftrightarrow> k \<in> set elements"

definition key_take_from :: "map_key \<Rightarrow> map_key list \<Rightarrow> bool \<times> map_key list" where
  "key_take_from k elements = (k \<in> set elements, removeAll k elements)"

lemma set_insert_set [simp]: "set (set_insert k js) = insert k (set js)"
  by (induction js) auto

lemma set_insert_wf: "set_wf js \<Longrightarrow> set_wf (set_insert k js)"
  by (induction js) (auto simp: set_wf_def)

lemma set_wf_unique: "set_wf xs \<Longrightarrow> set_wf ys \<Longrightarrow> set xs = set ys \<Longrightarrow> xs = ys"
  unfolding set_wf_def
  by (metis sorted_wrt_iff_nth_less strict_sorted_equal strict_sorted_iff)

lemma key_order_domain: "k < j \<Longrightarrow> \<not> same_domain k j \<Longrightarrow> key_discriminant k < key_discriminant j"
  by (auto simp: less_map_key_def less_eq_map_key_def key_le_def same_domain_def)

end
