(* ===== verification/Xsh_Values.thy ===== *)
theory Xsh_Values
  imports Xsh_Type_Ops Xsh_Map_Key
begin

text \<open>
  Runtime values (\<open>Value\<close> of \<open>runtime/value.rs\<close>), the values of the lowered executor
  (\<open>LoweredValue\<close> of \<open>runtime/eval.rs\<close>), the borrowed view that type tests read
  (\<open>runtime/eval/type_view.rs\<close>), and the type test itself. The payloads of host handles, of
  streams and of process errors are read by no modelled operation and are numbers here; text is
  the list of its UTF-8 bytes.
\<close>

section \<open>Values\<close>

datatype handle =
    Digest_h | Regex_h | Status_h | Command_h | ProcessHandle_h | NetJob_h | FsRoot_h | FsLock_h
  | SshSession_h

datatype fs_entry_kind = Dir_entry | File_entry | Symlink_entry | Other_entry

record fs_entry =
  fse_path :: "u8 list"
  fse_kind :: fs_entry_kind

record wire_mapping =
  wire_type :: name
  wire_variants :: "(name \<times> string) list"

text \<open>The part of a \<open>RuntimeError\<close> that type tests read.\<close>

record runtime_error =
  family_identity :: name
  variant_name :: name
  error_facets :: "string list"

datatype val =
    Null_v | Bool_v bool | Int_v int | Float_v u64 | Duration_v u64 | Str_v string
  | Bytes_v "u8 list" | Handle_v handle nat | Path_v "u8 list" | List_v "val list"
  | Map_v "(map_key \<times> val) list" | Set_v "map_key list" | Stream_v nat
  | Record_v "(name \<times> val) list" | FsEntry_v fs_entry | Module_v "(name \<times> val) list"
  | Ok_v val | Err_v val | EnvPathList_v "u8 list list" | Error_v runtime_error | RunError_v nat
  | Callable_v callable_kind nat | Unit_v | Tag_v name name "val list" "wire_mapping option"

datatype lowered =
    OmittedArgument_l | Null_l | Unit_l | Int_l int | Float_l u64 | Duration_l u64 | Bool_l bool
  | Str_l string | StrView_l string | Bytes_l "u8 list" | BytesView_l "u8 list"
  | Handle_l handle nat | Path_l "u8 list" | EnvPathList_l "u8 list list" | FsEntry_l fs_entry
  | Stream_l nat | Callable_l callable_kind nat | Error_l val
  | Record_l "(name \<times> lowered) list" | RecordVec_l "(name \<times> lowered) list"
  | Stats_l int int int | StatsBlob_l int "(map_key \<times> lowered) list" int int
  | Module_l "(name \<times> lowered) list" | List_l "lowered list" | SharedList_l "lowered list"
  | Map_l "(map_key \<times> lowered) list" | Set_l "map_key list"
  | Tag_l name name "lowered list" "wire_mapping option" | ResultOk_l lowered | ResultErr_l val

datatype view =
    Runtime val | Lowered lowered | Key map_key | Int_view int | Str_view | Path_view "u8 list"
  | Map_view "(map_key \<times> lowered) list" | EmptyMap_view

section \<open>What a view shows\<close>

fun handle_type :: "handle \<Rightarrow> plain_type" where
  "handle_type Digest_h = Digest_ty"
| "handle_type Regex_h = Regex_ty"
| "handle_type Status_h = Status_ty"
| "handle_type Command_h = Command_ty"
| "handle_type ProcessHandle_h = ProcessHandle_ty"
| "handle_type NetJob_h = NetJob_ty"
| "handle_type FsRoot_h = FsRoot_ty"
| "handle_type FsLock_h = FsLock_ty"
| "handle_type SshSession_h = SshSession_ty"

fun key_type :: "map_key \<Rightarrow> plain_type" where
  "key_type (Str_key s) = Str_ty"
| "key_type (Int_key i) = Int_ty"
| "key_type (Bool_key b) = Bool_ty"
| "key_type (Bytes_key b) = Bytes_ty"
| "key_type (Path_key p) = Path_ty"
| "key_type (Duration_key d) = Duration_ty"

fun value_scalar :: "val \<Rightarrow> plain_type option" where
  "value_scalar Null_v = Some Null_ty"
| "value_scalar (Bool_v b) = Some Bool_ty"
| "value_scalar (Int_v i) = Some Int_ty"
| "value_scalar (Float_v f) = Some Float_ty"
| "value_scalar (Duration_v d) = Some Duration_ty"
| "value_scalar (Str_v s) = Some Str_ty"
| "value_scalar (Bytes_v b) = Some Bytes_ty"
| "value_scalar (Handle_v h i) = Some (handle_type h)"
| "value_scalar (Path_v p) = Some Path_ty"
| "value_scalar (Error_v e) = Some Error_ty"
| "value_scalar (RunError_v e) = Some ProcessError_ty"
| "value_scalar (Callable_v k i) = Some (Function_ty k)"
| "value_scalar Unit_v = Some Unit_ty"
| "value_scalar (Tag_v t n fs w) = Some (Tag_ty t)"
| "value_scalar _ = None"

fun lowered_scalar :: "lowered \<Rightarrow> plain_type option" where
  "lowered_scalar Null_l = Some Null_ty"
| "lowered_scalar (Bool_l b) = Some Bool_ty"
| "lowered_scalar (Int_l i) = Some Int_ty"
| "lowered_scalar (Float_l f) = Some Float_ty"
| "lowered_scalar (Duration_l d) = Some Duration_ty"
| "lowered_scalar (Str_l s) = Some Str_ty"
| "lowered_scalar (StrView_l s) = Some Str_ty"
| "lowered_scalar (Bytes_l b) = Some Bytes_ty"
| "lowered_scalar (BytesView_l b) = Some Bytes_ty"
| "lowered_scalar (Handle_l h i) = Some (handle_type h)"
| "lowered_scalar (Path_l p) = Some Path_ty"
| "lowered_scalar (Error_l v) = Some (case v of RunError_v e \<Rightarrow> ProcessError_ty | _ \<Rightarrow> Error_ty)"
| "lowered_scalar (Callable_l k i) = Some (Function_ty k)"
| "lowered_scalar Unit_l = Some Unit_ty"
| "lowered_scalar (Tag_l t n fs w) = Some (Tag_ty t)"
| "lowered_scalar _ = None"

fun scalar_type :: "view \<Rightarrow> plain_type option" where
  "scalar_type (Int_view i) = Some Int_ty"
| "scalar_type (Key k) = Some (key_type k)"
| "scalar_type Str_view = Some Str_ty"
| "scalar_type (Path_view p) = Some Path_ty"
| "scalar_type (Runtime v) = value_scalar v"
| "scalar_type (Lowered l) = lowered_scalar l"
| "scalar_type (Map_view m) = None"
| "scalar_type EmptyMap_view = None"

fun environment_path_snapshot :: "view \<Rightarrow> u8 list list option" where
  "environment_path_snapshot (Runtime (EnvPathList_v ps)) = Some ps"
| "environment_path_snapshot (Lowered (EnvPathList_l ps)) = Some ps"
| "environment_path_snapshot _ = None"

fun stream_of :: "view \<Rightarrow> nat option" where
  "stream_of (Runtime (Stream_v s)) = Some s"
| "stream_of (Lowered (Stream_l s)) = Some s"
| "stream_of _ = None"

fun is_map :: "view \<Rightarrow> bool" where
  "is_map (Runtime (Map_v m)) = True"
| "is_map (Lowered (Map_l m)) = True"
| "is_map (Map_view m) = True"
| "is_map EmptyMap_view = True"
| "is_map _ = False"

fun integer_of :: "view \<Rightarrow> int option" where
  "integer_of (Runtime (Int_v i)) = Some i"
| "integer_of (Lowered (Int_l i)) = Some i"
| "integer_of (Int_view i) = Some i"
| "integer_of (Key (Int_key i)) = Some i"
| "integer_of _ = None"

fun path_bytes :: "view \<Rightarrow> u8 list option" where
  "path_bytes (Runtime (Path_v p)) = Some p"
| "path_bytes (Lowered (Path_l p)) = Some p"
| "path_bytes (Path_view p) = Some p"
| "path_bytes (Key (Path_key p)) = Some p"
| "path_bytes _ = None"

fun list_len :: "view \<Rightarrow> nat option" where
  "list_len (Runtime (EnvPathList_v ps)) = Some (length ps)"
| "list_len (Lowered (EnvPathList_l ps)) = Some (length ps)"
| "list_len (Runtime (List_v vs)) = Some (length vs)"
| "list_len (Lowered (List_l vs)) = Some (length vs)"
| "list_len (Lowered (SharedList_l vs)) = Some (length vs)"
| "list_len _ = None"

text \<open>The closures of \<open>all_list\<close>, \<open>all_map\<close> and \<open>all_record_values\<close> see these items.\<close>

fun list_items :: "view \<Rightarrow> view list option" where
  "list_items (Runtime (EnvPathList_v ps)) = Some (map Path_view ps)"
| "list_items (Lowered (EnvPathList_l ps)) = Some (map Path_view ps)"
| "list_items (Runtime (List_v vs)) = Some (map Runtime vs)"
| "list_items (Lowered (List_l vs)) = Some (map Lowered vs)"
| "list_items (Lowered (SharedList_l vs)) = Some (map Lowered vs)"
| "list_items _ = None"

fun set_items :: "view \<Rightarrow> map_key list option" where
  "set_items (Runtime (Set_v ks)) = Some ks"
| "set_items (Lowered (Set_l ks)) = Some ks"
| "set_items _ = None"

fun map_fields :: "view \<Rightarrow> bool" where
  "map_fields (Runtime (Record_v fs)) = True"
| "map_fields (Lowered (Record_l fs)) = True"
| "map_fields (Lowered (RecordVec_l fs)) = True"
| "map_fields _ = False"

fun map_items :: "view \<Rightarrow> (map_key \<times> view) list option" where
  "map_items (Runtime (Map_v m)) = Some (map (map_prod id Runtime) m)"
| "map_items (Lowered (Map_l m)) = Some (map (map_prod id Lowered) m)"
| "map_items (Map_view m) = Some (map (map_prod id Lowered) m)"
| "map_items EmptyMap_view = Some []"
| "map_items _ = None"

fun record_values :: "view \<Rightarrow> view list option" where
  "record_values (Runtime (Record_v fs)) = Some (map (Runtime \<circ> snd) fs)"
| "record_values (Lowered (Record_l fs)) = Some (map (Lowered \<circ> snd) fs)"
| "record_values (Lowered (RecordVec_l fs)) = Some (map (Lowered \<circ> snd) fs)"
| "record_values _ = None"

definition all_of :: "'a list option \<Rightarrow> ('a \<Rightarrow> bool) \<Rightarrow> bool" where
  "all_of items accepts = (case items of Some xs \<Rightarrow> list_all accepts xs | None \<Rightarrow> False)"

lemma all_of_cong [fundef_cong]:
  "xs = ys \<Longrightarrow> (\<And>x. x \<in> set (case ys of Some zs \<Rightarrow> zs | None \<Rightarrow> []) \<Longrightarrow> f x = g x) \<Longrightarrow>
     all_of xs f = all_of ys g"
  by (auto simp: all_of_def list_all_iff split: option.splits)

fun is_record :: "view \<Rightarrow> bool \<Rightarrow> bool" where
  "is_record (Runtime (Record_v fs)) erased = True"
| "is_record (Runtime (FsEntry_v e)) erased = True"
| "is_record (Lowered (Record_l fs)) erased = True"
| "is_record (Lowered (RecordVec_l fs)) erased = True"
| "is_record (Lowered (FsEntry_l e)) erased = True"
| "is_record (Lowered (Stats_l b c d)) erased = (\<not> erased)"
| "is_record (Lowered (StatsBlob_l b m c d)) erased = (\<not> erased)"
| "is_record _ erased = False"

definition entry_field :: "fs_entry \<Rightarrow> name \<Rightarrow> view option" where
  "entry_field e n =
     (if n = ''path'' \<and> 0 \<notin> set (fse_path e) then Some (Path_view (fse_path e))
      else if n \<in> {''name'', ''ext'', ''kind''} then Some Str_view
      else None)"

definition stats_field :: "int \<Rightarrow> view \<Rightarrow> int \<Rightarrow> int \<Rightarrow> name \<Rightarrow> view option" where
  "stats_field blanks blobs code comments n =
     (if n = ''blanks'' then Some (Int_view blanks)
      else if n = ''blobs'' then Some blobs
      else if n = ''code'' then Some (Int_view code)
      else if n = ''comments'' then Some (Int_view comments)
      else None)"

fun field_of :: "view \<Rightarrow> name \<Rightarrow> view option" where
  "field_of (Runtime (Record_v fs)) n = map_option Runtime (map_of fs n)"
| "field_of (Runtime (Module_v fs)) n = map_option Runtime (map_of fs n)"
| "field_of (Lowered (Record_l fs)) n = map_option Lowered (map_of fs n)"
| "field_of (Lowered (Module_l fs)) n = map_option Lowered (map_of fs n)"
| "field_of (Lowered (RecordVec_l fs)) n = map_option Lowered (map_of fs n)"
| "field_of (Runtime (FsEntry_v e)) n = entry_field e n"
| "field_of (Lowered (FsEntry_l e)) n = entry_field e n"
| "field_of (Lowered (Stats_l blanks code comments)) n =
     stats_field blanks EmptyMap_view code comments n"
| "field_of (Lowered (StatsBlob_l blanks blobs code comments)) n =
     stats_field blanks (Map_view blobs) code comments n"
| "field_of _ n = None"

fun module_len :: "view \<Rightarrow> nat option" where
  "module_len (Runtime (Module_v fs)) = Some (length fs)"
| "module_len (Lowered (Module_l fs)) = Some (length fs)"
| "module_len _ = None"

fun result_of :: "view \<Rightarrow> (bool \<times> view) option" where
  "result_of (Runtime (Ok_v v)) = Some (True, Runtime v)"
| "result_of (Runtime (Err_v v)) = Some (False, Runtime v)"
| "result_of (Lowered (ResultOk_l v)) = Some (True, Lowered v)"
| "result_of (Lowered (ResultErr_l v)) = Some (False, Runtime v)"
| "result_of _ = None"

fun value_error :: "val \<Rightarrow> runtime_error option" where
  "value_error (Error_v e) = Some e"
| "value_error _ = None"

fun error_of :: "view \<Rightarrow> runtime_error option" where
  "error_of (Runtime v) = value_error v"
| "error_of (Lowered (Error_l v)) = value_error v"
| "error_of _ = None"

fun passes :: "view \<Rightarrow> validation \<Rightarrow> bool" where
  "passes v NonEmpty = (case list_len v of Some n \<Rightarrow> n > 0 | None \<Rightarrow> False)"
| "passes v RelPath = (case path_bytes v of Some p \<Rightarrow> is_rel_path p | None \<Rightarrow> False)"
| "passes v (Nominal n) = True"
| "passes v (Range r) = (case integer_of v of Some i \<Rightarrow> range_contains r i | None \<Rightarrow> False)"

definition scalar_label :: "plain_type \<Rightarrow> string" where
  "scalar_label p =
     (case p of
        ProcessError_ty \<Rightarrow> ''Error''
      | Tag_ty n \<Rightarrow> ''Tag''
      | Function_ty k \<Rightarrow> kind_value_type_name k
      | _ \<Rightarrow> builtin_as_str (the (plain_type_name p)))"

definition type_name :: "view \<Rightarrow> string option" where
  "type_name v =
     (if v = Lowered OmittedArgument_l then Some ''omitted argument''
      else case scalar_type v of
        Some p \<Rightarrow> Some (scalar_label p)
      | None \<Rightarrow>
          if list_len v \<noteq> None then Some ''List''
          else if is_map v then Some ''Map''
          else if set_items v \<noteq> None then Some ''Set''
          else if stream_of v \<noteq> None then Some ''Stream''
          else if is_record v False then Some ''Record''
          else if module_len v \<noteq> None then Some ''Module''
          else if result_of v \<noteq> None then Some ''Result''
          else None)"

section \<open>The type test\<close>

datatype callable_contract =
    Value_contract callable_kind signature | Export_contract callable_kind signature

datatype retained_contract =
    Scheme_contract nat | Callable_contract callable_contract | Generic_contract callable_kind
  | Stream_contract ty | EnvironmentPathList_contract

fun contract_kind :: "callable_contract \<Rightarrow> callable_kind" where
  "contract_kind (Value_contract k s) = k"
| "contract_kind (Export_contract k s) = k"

fun contract_accepts :: "callable_contract \<Rightarrow> callable_kind \<Rightarrow> signature \<Rightarrow> bool" where
  "contract_accepts (Value_contract k s) l actual =
     (k = l \<and> callable_mismatch k s l actual True = None)"
| "contract_accepts (Export_contract k s) l actual = (k = l \<and> signature_mismatch actual s = None)"

fun runtime_contract_matches :: "view \<Rightarrow> retained_contract \<Rightarrow> bool" where
  "runtime_contract_matches v (Callable_contract c) =
     (contract_kind c \<noteq> Stream \<and> scalar_type v = Some (Function_ty (contract_kind c)))"
| "runtime_contract_matches v (Stream_contract t) = (stream_of v \<noteq> None)"
| "runtime_contract_matches v _ = False"

definition error_family_matches :: "name \<Rightarrow> name \<Rightarrow> bool" where
  "error_family_matches actual expected \<longleftrightarrow> actual = expected"

definition key_testable :: "ty \<Rightarrow> bool" where
  "key_testable t \<longleftrightarrow>
     t \<in> set (map Plain [Str_ty, Int_ty, UInt_ty, Bool_ty, Bytes_ty, Path_ty, Duration_ty, Any_ty,
                        Unknown_ty, Invalid_ty])"

definition plain_test ::
  "(view \<Rightarrow> retained_contract \<Rightarrow> bool) \<Rightarrow> view \<Rightarrow> plain_type \<Rightarrow> bool" where
  "plain_test accepts v p =
     (case p of
        BuiltinParameter_ty i \<Rightarrow> False
      | Inference_ty i \<Rightarrow> False
      | Any_ty \<Rightarrow> True
      | Unknown_ty \<Rightarrow> True
      | Invalid_ty \<Rightarrow> True
      | UInt_ty \<Rightarrow> (case integer_of v of Some i \<Rightarrow> i \<ge> 0 | None \<Rightarrow> False)
      | EnvPathList_ty \<Rightarrow> accepts v EnvironmentPathList_contract
      | ErasedRecord_ty \<Rightarrow> is_record v True
      | DynamicModule_ty \<Rightarrow> module_len v \<noteq> None
      | Error_ty \<Rightarrow> scalar_type v = Some Error_ty \<or> scalar_type v = Some ProcessError_ty
      | ErrorFamily_ty f \<Rightarrow>
          (case error_of v of
             Some e \<Rightarrow> error_family_matches (family_identity e) f | None \<Rightarrow> False)
      | ErrorVariant_ty f n \<Rightarrow>
          (case error_of v of
             Some e \<Rightarrow> error_family_matches (family_identity e) f \<and> variant_name e = n
           | None \<Rightarrow> False)
      | ErrorFacet_ty f \<Rightarrow>
          (case error_of v of Some e \<Rightarrow> f \<in> set (error_facets e) | None \<Rightarrow> False)
      | SchemeCallable_ty i \<Rightarrow> accepts v (Scheme_contract i)
      | _ \<Rightarrow> scalar_type v = Some p)"

function value_matches ::
  "(view \<Rightarrow> retained_contract \<Rightarrow> bool) \<Rightarrow> view \<Rightarrow> ty \<Rightarrow> bool" where
  "value_matches accepts v t =
     (if (case v of Key k \<Rightarrow> True | _ \<Rightarrow> False) \<and> \<not> key_testable t then False
      else case t of
        Plain p \<Rightarrow> plain_test accepts v p
      | List_ty item \<Rightarrow> all_of (list_items v) (\<lambda>w. value_matches accepts w item)
      | Map_ty k item \<Rightarrow>
          (if map_fields v then
             k = Plain Str_ty \<and> all_of (record_values v) (\<lambda>w. value_matches accepts w item)
           else all_of (map_items v)
                  (\<lambda>(j, w). value_matches accepts (Key j) k \<and> value_matches accepts w item))
      | Set_ty item \<Rightarrow> all_of (set_items v) (\<lambda>j. value_matches accepts (Key j) item)
      | Stream_ty item \<Rightarrow> accepts v (Stream_contract item)
      | Record_ty fs \<Rightarrow>
          is_record v False \<and>
          list_all (\<lambda>(n, u).
            case field_of v n of Some w \<Rightarrow> value_matches accepts w u | None \<Rightarrow> False) fs
      | Module_ty xs exact \<Rightarrow>
          (case module_len v of
             None \<Rightarrow> False
           | Some len \<Rightarrow>
               list_all (\<lambda>(n, x).
                 case field_of v n of
                   Some w \<Rightarrow>
                     (case x of
                        Value_export u opt \<Rightarrow> value_matches accepts w u
                      | Callable_export k s opt \<Rightarrow>
                          accepts w (Callable_contract (Export_contract k s))
                      | Generic_export k opt \<Rightarrow> accepts w (Generic_contract k))
                 | None \<Rightarrow> export_optional x) xs \<and>
               (\<not> exact \<or> length (filter (\<lambda>(n, x). field_of v n \<noteq> None) xs) = len))
      | Result_ty good bad \<Rightarrow>
          (case result_of v of
             Some (success, w) \<Rightarrow> value_matches accepts w (if success then good else bad)
           | None \<Rightarrow> False)
      | Callable_ty k s \<Rightarrow> accepts v (Callable_contract (Value_contract k s))
      | Optional_ty inner \<Rightarrow> scalar_type v = Some Null_ty \<or> value_matches accepts v inner
      | Union_ty ms \<Rightarrow> list_ex (\<lambda>m. value_matches accepts v m) ms
      | Validated_ty w base \<Rightarrow> value_matches accepts v base \<and> passes v w)"
  by pat_completeness auto
termination
  by (relation "measure (\<lambda>(a, v, t). size t)") (auto dest: size_member size_field)

declare value_matches.simps [simp del]

definition value_matches_runtime_type :: "view \<Rightarrow> ty \<Rightarrow> bool" where
  "value_matches_runtime_type = value_matches runtime_contract_matches"

definition static_contract_matches :: "view \<Rightarrow> retained_contract \<Rightarrow> bool" where
  "static_contract_matches v c =
     (if c = EnvironmentPathList_contract then environment_path_snapshot v \<noteq> None
      else runtime_contract_matches v c)"

definition value_matches_static_type :: "view \<Rightarrow> ty \<Rightarrow> bool" where
  "value_matches_static_type = value_matches static_contract_matches"

definition map_key_matches_type :: "map_key \<Rightarrow> ty \<Rightarrow> bool" where
  "map_key_matches_type k t = value_matches_static_type (Key k) t"

end
