(* ===== verification/Xsh_Schema.thy ===== *)
theory Xsh_Schema
  imports Xsh_Values
begin

text \<open>
  Schemas prepared for \<open>.require(T)\<close> and typed decoding (\<open>runtime/eval/require.rs\<close>): compilation
  of a type, the checks of a prepared schema, the decoder with its three policies for unknown
  fields, the reading of scalars from text (\<open>require/lexical.rs\<close>), and the check of a module
  against a contract (\<open>module_contract.rs\<close>). What the evaluator knows of callables, and the
  standard library's reading of floats, are parameters (\<open>decoder\<close>). The recursion of the
  decoder is on the schema.
\<close>

datatype unknown_fields = Preserve | Reject | Strip

datatype schema =
    Unknown_fields unknown_fields schema | Validate ty | Record_schema "(name \<times> schema) list"
  | List_schema schema | Map_schema ty schema | Optional_schema schema
  | Wire_schema wire_mapping | Union_schema ty "schema list" | Validated_schema ty schema
  | Set_schema ty

section \<open>Compilation\<close>

function compile_policy :: "ty \<Rightarrow> (name \<Rightarrow> wire_mapping option) \<Rightarrow> unknown_fields \<Rightarrow> schema" where
  "compile_policy t enums policy =
     (case t of
        Record_ty fs \<Rightarrow>
          (if fs \<noteq> [] \<or> policy \<noteq> Preserve then
             Record_schema (map (\<lambda>(n, u). (n, compile_policy u enums policy)) fs)
           else Validate t)
      | List_ty item \<Rightarrow> List_schema (compile_policy item enums policy)
      | Map_ty k item \<Rightarrow> Map_schema k (compile_policy item enums policy)
      | Set_ty element \<Rightarrow> Set_schema element
      | Optional_ty item \<Rightarrow> Optional_schema (compile_policy item enums policy)
      | Union_ty ms \<Rightarrow> Union_schema t (map (\<lambda>m. compile_policy m enums policy) ms)
      | Validated_ty v base \<Rightarrow> Validated_schema t (compile_policy base enums policy)
      | Plain p \<Rightarrow>
          (case p of
             Tag_ty n \<Rightarrow>
               (case enums n of Some m \<Rightarrow> Wire_schema m | None \<Rightarrow> Validate t)
           | _ \<Rightarrow> Validate t)
      | _ \<Rightarrow> Validate t)"
  by pat_completeness auto
termination
  by (relation "measure (\<lambda>(t, e, p). size t)") (auto dest: size_member size_field)

definition compile_schema :: "ty \<Rightarrow> (name \<Rightarrow> wire_mapping option) \<Rightarrow> schema" where
  "compile_schema t enums = compile_policy t enums Preserve"

definition compile_boundary ::
  "ty \<Rightarrow> (name \<Rightarrow> wire_mapping option) \<Rightarrow> unknown_fields \<Rightarrow> schema" where
  "compile_boundary t enums policy =
     (if policy = Preserve then compile_policy t enums policy
      else Unknown_fields policy (compile_policy t enums policy))"

section \<open>Checks of a prepared schema\<close>

fun preserves_fields :: "schema \<Rightarrow> bool" where
  "preserves_fields (Unknown_fields p s) = False"
| "preserves_fields (Record_schema fs) = list_all (\<lambda>(n, s). preserves_fields s) fs"
| "preserves_fields (List_schema s) = preserves_fields s"
| "preserves_fields (Map_schema k s) = preserves_fields s"
| "preserves_fields (Optional_schema s) = preserves_fields s"
| "preserves_fields (Validated_schema t s) = preserves_fields s"
| "preserves_fields (Union_schema t ms) = list_all preserves_fields ms"
| "preserves_fields _ = True"

fun policy_of :: "schema \<Rightarrow> unknown_fields" where
  "policy_of (Unknown_fields p s) = p"
| "policy_of _ = Preserve"

fun rebuilds_value :: "schema \<Rightarrow> bool" where
  "rebuilds_value (Unknown_fields p s) = True"
| "rebuilds_value (Wire_schema m) = True"
| "rebuilds_value (Set_schema t) = True"
| "rebuilds_value (List_schema s) = True"
| "rebuilds_value (Record_schema fs) = list_ex (\<lambda>(n, s). rebuilds_value s) fs"
| "rebuilds_value (Map_schema k s) = True"
| "rebuilds_value (Optional_schema s) = rebuilds_value s"
| "rebuilds_value (Validated_schema t s) = rebuilds_value s"
| "rebuilds_value (Union_schema t ms) = list_ex rebuilds_value ms"
| "rebuilds_value (Validate t) = False"

fun opaque :: "ty \<Rightarrow> bool" where
  "opaque (Record_ty fs) = False"
| "opaque (List_ty t) = opaque t"
| "opaque (Optional_ty t) = opaque t"
| "opaque (Map_ty k t) = opaque t"
| "opaque (Validated_ty v t) = opaque t"
| "opaque (Union_ty ms) = list_all opaque ms"
| "opaque _ = True"

fun policy_complete :: "schema \<Rightarrow> bool" where
  "policy_complete (Unknown_fields p s) = False"
| "policy_complete (Validate t) = opaque t"
| "policy_complete (Record_schema fs) = list_all (\<lambda>(n, s). policy_complete s) fs"
| "policy_complete (List_schema s) = policy_complete s"
| "policy_complete (Optional_schema s) = policy_complete s"
| "policy_complete (Map_schema k s) = policy_complete s"
| "policy_complete (Validated_schema t s) = policy_complete s"
| "policy_complete (Union_schema t ms) = list_all policy_complete ms"
| "policy_complete (Wire_schema m) = True"
| "policy_complete (Set_schema t) = True"

fun valid_schema :: "schema \<Rightarrow> bool" where
  "valid_schema (Unknown_fields p s) = (p \<noteq> Preserve \<and> valid_schema s \<and> policy_complete s)"
| "valid_schema (Wire_schema m) =
     (wire_variants m \<noteq> [] \<and> distinct (map snd (wire_variants m)))"
| "valid_schema (Record_schema fs) = list_all (\<lambda>(n, s). valid_schema s) fs"
| "valid_schema (Map_schema k s) = (is_map_key k \<and> valid_schema s)"
| "valid_schema (Set_schema t) = is_map_key t"
| "valid_schema (List_schema s) = valid_schema s"
| "valid_schema (Optional_schema s) = valid_schema s"
| "valid_schema (Validated_schema t s) = valid_schema s"
| "valid_schema (Union_schema t ms) = list_all valid_schema ms"
| "valid_schema (Validate t) = True"

text \<open>\<open>visit_wire_mappings\<close> with a visitor that keeps no state.\<close>

fun visit_wire_mappings :: "(wire_mapping \<Rightarrow> bool) \<Rightarrow> schema \<Rightarrow> bool" where
  "visit_wire_mappings f (Unknown_fields p s) = visit_wire_mappings f s"
| "visit_wire_mappings f (Wire_schema m) = f m"
| "visit_wire_mappings f (Record_schema fs) = list_all (\<lambda>(n, s). visit_wire_mappings f s) fs"
| "visit_wire_mappings f (List_schema s) = visit_wire_mappings f s"
| "visit_wire_mappings f (Map_schema k s) = visit_wire_mappings f s"
| "visit_wire_mappings f (Optional_schema s) = visit_wire_mappings f s"
| "visit_wire_mappings f (Validated_schema t s) = visit_wire_mappings f s"
| "visit_wire_mappings f (Union_schema t ms) = list_all (visit_wire_mappings f) ms"
| "visit_wire_mappings f (Validate t) = True"
| "visit_wire_mappings f (Set_schema t) = True"

lemma size_zip_field:
  "((n, s), y) \<in> set (zip ss ys) \<Longrightarrow> size s < Suc (size_list (size_prod (\<lambda>_. 0) size) ss)"
  by (drule set_zip_leftD) (rule size_field)

function schema_matches_type :: "schema \<Rightarrow> ty \<Rightarrow> bool" where
  "schema_matches_type (Unknown_fields p s) t = schema_matches_type s t"
| "schema_matches_type (Validate u) t = (u = t)"
| "schema_matches_type (Union_schema u ms) t =
     (u = t \<and> (case union_members u of
        Some us \<Rightarrow> length us = length ms \<and> list_all (\<lambda>(s, m). schema_matches_type s m) (zip ms us)
      | None \<Rightarrow> False))"
| "schema_matches_type (Validated_schema u s) t =
     (u = t \<and> (case validated u of
        Some (v, base) \<Rightarrow> schema_matches_type s base
      | None \<Rightarrow> False))"
| "schema_matches_type (Wire_schema m) t =
     (case t of Plain (Tag_ty n) \<Rightarrow> wire_type m = n | _ \<Rightarrow> False)"
| "schema_matches_type (Record_schema ss) t =
     (case t of
        Record_ty fs \<Rightarrow>
          length ss = length fs \<and>
          list_all (\<lambda>((n, s), (m, u)). n = m \<and> schema_matches_type s u) (zip ss fs)
      | _ \<Rightarrow> False)"
| "schema_matches_type (Map_schema k s) t =
     (case t of Map_ty j u \<Rightarrow> k = j \<and> schema_matches_type s u | _ \<Rightarrow> False)"
| "schema_matches_type (Set_schema e) t = (t = Set_ty e)"
| "schema_matches_type (List_schema s) t =
     (case t of List_ty u \<Rightarrow> schema_matches_type s u | _ \<Rightarrow> False)"
| "schema_matches_type (Optional_schema s) t =
     (case t of Optional_ty u \<Rightarrow> schema_matches_type s u | _ \<Rightarrow> False)"
  by pat_completeness auto
termination
  by (relation "measure (\<lambda>(s, t). size s)")
    (auto dest!: size_zip_field dest: set_zip_leftD size_list_estimation' [where f = size, OF _ order.refl] size_field
      simp: less_Suc_eq_le)

section \<open>Module contracts\<close>

datatype path_step = P_field name | P_index nat | P_key map_key

type_synonym value_path = "path_step list"

datatype mismatched_export =
    Declares_value | Value_differs | Kind_differs | Signature_differs signature_reason
  | Declares_callable | Declares_generic

datatype violation = Missing_violation | Mismatched_violation mismatched_export | Unexpected_violation

datatype export_facet = MissingExport | MismatchedExport | UnexpectedExport

datatype decode_error =
    Schema_failure value_path | Contract_failure value_path "(name \<times> violation) list" "export_facet list"
  | Type_error | Missing_field name | Indexed_ir

record decoder =
  captured_signature :: "lowered \<Rightarrow> (callable_kind \<times> signature) option"
  retained_signature :: "lowered \<Rightarrow> decode_error + signature option"
  generic_matches :: "lowered \<Rightarrow> callable_kind \<Rightarrow> decode_error + bool"
  parse_f64 :: "string \<Rightarrow> u64 option"

fun violation_facet :: "violation \<Rightarrow> export_facet" where
  "violation_facet Missing_violation = MissingExport"
| "violation_facet (Mismatched_violation m) = MismatchedExport"
| "violation_facet Unexpected_violation = UnexpectedExport"

definition mismatched_signature :: "signature \<Rightarrow> signature \<Rightarrow> mismatched_export option" where
  "mismatched_signature found expected =
     map_option Signature_differs (signature_mismatch found expected)"

fun export_mismatch :: "decoder \<Rightarrow> lowered \<Rightarrow> export \<Rightarrow> decode_error + mismatched_export option" where
  "export_mismatch ev v (Value_export t opt) =
     Inr (case v of
        Callable_l k i \<Rightarrow> Some Declares_value
      | _ \<Rightarrow> if value_matches_static_type (Lowered v) t then None else Some Value_differs)"
| "export_mismatch ev v (Callable_export k s opt) =
     (case v of
        Callable_l found i \<Rightarrow>
          (if k \<noteq> found then Inr (Some Kind_differs)
           else case captured_signature ev v of
             Some (ck, cs) \<Rightarrow>
               if ck \<noteq> k then Inl Indexed_ir else Inr (mismatched_signature cs s)
           | None \<Rightarrow>
               bindE (retained_signature ev v) (\<lambda>r.
                 case r of None \<Rightarrow> Inl Indexed_ir | Some rs \<Rightarrow> Inr (mismatched_signature rs s)))
      | _ \<Rightarrow> Inr (Some Declares_callable))"
| "export_mismatch ev v (Generic_export k opt) =
     bindE (generic_matches ev v k) (\<lambda>same. Inr (if same then None else Some Declares_generic))"

fun contract_entries ::
  "decoder \<Rightarrow> (name \<times> lowered) list \<Rightarrow> (name \<times> export) list \<Rightarrow>
     decode_error + (name \<times> violation) list" where
  "contract_entries ev module [] = Inr []"
| "contract_entries ev module ((n, expected) # rest) =
     (case map_of module n of
        None \<Rightarrow>
          bindE (contract_entries ev module rest) (\<lambda>vs.
            Inr (if export_optional expected then vs else (n, Missing_violation) # vs))
      | Some v \<Rightarrow>
          bindE (export_mismatch ev v expected) (\<lambda>m.
          bindE (contract_entries ev module rest) (\<lambda>vs.
            Inr (case m of None \<Rightarrow> vs | Some reason \<Rightarrow> (n, Mismatched_violation reason) # vs))))"

definition contract_violations ::
  "decoder \<Rightarrow> (name \<times> lowered) list \<Rightarrow> module_type \<Rightarrow> decode_error + (name \<times> violation) list" where
  "contract_violations ev module contract =
     bindE (contract_entries ev module (fst contract)) (\<lambda>vs.
       Inr (vs @ (if snd contract then
         map (\<lambda>n. (n, Unexpected_violation))
           (filter (\<lambda>n. map_of (fst contract) n = None) (map fst module)) else [])))"

fun push_facet :: "export_facet list \<Rightarrow> export_facet \<Rightarrow> export_facet list" where
  "push_facet known f = (if f \<in> set known then known else known @ [f])"

definition require_module_contract ::
  "decoder \<Rightarrow> (name \<times> lowered) list \<Rightarrow> module_type \<Rightarrow> value_path \<Rightarrow> decode_error + unit" where
  "require_module_contract ev module contract path =
     bindE (contract_violations ev module contract) (\<lambda>vs.
       if vs = [] then Inr ()
       else Inl (Contract_failure path vs
              (fold (\<lambda>(n, v) known. push_facet known (violation_facet v)) vs [])))"

text \<open>\<open>require_module_contract\<close> of \<open>require.rs\<close>: none when the pair is not a module and a contract.\<close>

definition module_check ::
  "decoder \<Rightarrow> lowered \<Rightarrow> ty \<Rightarrow> value_path \<Rightarrow> (decode_error + unit) option" where
  "module_check ev v t path =
     (case v of
        Module_l loaded \<Rightarrow>
          (case t of
             Module_ty xs exact \<Rightarrow> Some (require_module_contract ev loaded (xs, exact) path)
           | _ \<Rightarrow> None)
      | _ \<Rightarrow> None)"

section \<open>Scalars read from text\<close>

definition is_digit :: "char \<Rightarrow> bool" where
  "is_digit c \<longleftrightarrow> c \<in> set ''0123456789''"

definition is_sign :: "char \<Rightarrow> bool" where
  "is_sign c \<longleftrightarrow> c = CHR ''+'' \<or> c = CHR ''-''"

definition skip_sign :: "string \<Rightarrow> string" where
  "skip_sign t = (case t of c # cs \<Rightarrow> if is_sign c then cs else t | [] \<Rightarrow> [])"

definition decimal :: "string \<Rightarrow> bool \<Rightarrow> bool" where
  "decimal text floating =
     (let body = skip_sign text;
          whole = takeWhile is_digit body;
          rest = dropWhile is_digit body;
          pointed = floating \<and> take 1 rest = ''.'';
          frac = (if pointed then takeWhile is_digit (tl rest) else []);
          rest1 = (if pointed then dropWhile is_digit (tl rest) else rest)
      in if whole @ frac = [] then False
         else if floating \<and> (take 1 rest1 = ''e'' \<or> take 1 rest1 = ''E'') then
           (let e = skip_sign (tl rest1) in e \<noteq> [] \<and> list_all is_digit e)
         else rest1 = [])"

definition digit_value :: "char \<Rightarrow> int" where
  "digit_value c = int (of_char c) - 48"

definition parse_i64 :: "string \<Rightarrow> int option" where
  "parse_i64 text =
     (let body = skip_sign text;
          n = foldl (\<lambda>acc c. acc * 10 + digit_value c) 0 body;
          v = (if take 1 text = ''-'' then - n else n)
      in if body \<noteq> [] \<and> list_all is_digit body \<and> - (2 ^ 63) \<le> v \<and> v < 2 ^ 63
         then Some v else None)"

fun admits_text :: "schema \<Rightarrow> bool" where
  "admits_text (Validate t) = (t = Plain Str_ty \<or> t = Plain Any_ty)"
| "admits_text (Optional_schema s) = admits_text s"
| "admits_text (Validated_schema t s) = admits_text s"
| "admits_text (Union_schema t ms) = list_ex admits_text ms"
| "admits_text _ = False"

fun lexical_atom :: "decoder \<Rightarrow> schema \<Rightarrow> string \<Rightarrow> lowered option" where
  "lexical_atom ev (Optional_schema s) text =
     (if text = [] then Some Null_l else lexical_atom ev s text)"
| "lexical_atom ev (Validated_schema t s) text = lexical_atom ev s text"
| "lexical_atom ev (Validate t) text =
     (if t = Plain Int_ty \<or> t = Plain UInt_ty then
        (if decimal text False then map_option Int_l (parse_i64 text) else None)
      else if t = Plain Float_ty then
        (if decimal text True then map_option Float_l (parse_f64 ev text) else None)
      else if t = Plain Bool_ty then
        (if text = ''true'' then Some (Bool_l True)
         else if text = ''false'' then Some (Bool_l False) else None)
      else None)"
| "lexical_atom ev _ text = None"

section \<open>The decoder\<close>

fun mapE :: "('a \<Rightarrow> 'e + 'b) \<Rightarrow> 'a list \<Rightarrow> 'e + 'b list" where
  "mapE f [] = Inr []"
| "mapE f (x # xs) = bindE (f x) (\<lambda>y. bindE (mapE f xs) (\<lambda>ys. Inr (y # ys)))"

lemma mapE_cong [fundef_cong]:
  "xs = ys \<Longrightarrow> (\<And>x. x \<in> set ys \<Longrightarrow> f x = g x) \<Longrightarrow> mapE f xs = mapE g ys"
  by (induction ys arbitrary: xs) auto

fun foldE :: "('a \<Rightarrow> 's \<Rightarrow> 'e + 's) \<Rightarrow> 'a list \<Rightarrow> 's \<Rightarrow> 'e + 's" where
  "foldE f [] s = Inr s"
| "foldE f (x # xs) s = bindE (f x s) (foldE f xs)"

lemma foldE_cong [fundef_cong]:
  "xs = ys \<Longrightarrow> s = t \<Longrightarrow> (\<And>x u. x \<in> set ys \<Longrightarrow> f x u = g x u) \<Longrightarrow> foldE f xs s = foldE g ys t"
proof (induction ys arbitrary: xs s t)
  case (Cons y ys)
  then show ?case by (cases "g y t") auto
qed simp

fun bool_lowered_str :: "lowered \<Rightarrow> bool" where
  "bool_lowered_str (Str_l s) = True"
| "bool_lowered_str _ = False"

fun lowered_str_value :: "lowered \<Rightarrow> string option" where
  "lowered_str_value (Str_l s) = Some s"
| "lowered_str_value (StrView_l s) = Some s"
| "lowered_str_value _ = None"

fun lowered_map_key_ref :: "lowered \<Rightarrow> map_key option" where
  "lowered_map_key_ref (Int_l i) = Some (Int_key i)"
| "lowered_map_key_ref (Bool_l b) = Some (Bool_key b)"
| "lowered_map_key_ref (Duration_l d) = Some (Duration_key d)"
| "lowered_map_key_ref (Path_l p) = Some (Path_key p)"
| "lowered_map_key_ref (Str_l s) = Some (Str_key s)"
| "lowered_map_key_ref (StrView_l s) = Some (Str_key s)"
| "lowered_map_key_ref (Bytes_l b) = Some (Bytes_key b)"
| "lowered_map_key_ref (BytesView_l b) = Some (Bytes_key b)"
| "lowered_map_key_ref _ = None"

fun list_payload :: "lowered \<Rightarrow> lowered list option" where
  "list_payload (EnvPathList_l ps) = Some (map Path_l ps)"
| "list_payload (List_l vs) = Some vs"
| "list_payload (SharedList_l vs) = Some vs"
| "list_payload _ = None"

definition stats_record ::
  "int \<Rightarrow> (map_key \<times> lowered) list \<Rightarrow> int \<Rightarrow> int \<Rightarrow> (name \<times> lowered) list" where
  "stats_record blanks blobs code comments =
     [(''blanks'', Int_l blanks), (''blobs'', Map_l blobs), (''code'', Int_l code),
      (''comments'', Int_l comments)]"

fun record_field_value :: "lowered \<Rightarrow> name \<Rightarrow> lowered option" where
  "record_field_value (Record_l fs) n = map_of fs n"
| "record_field_value (Module_l fs) n = map_of fs n"
| "record_field_value (RecordVec_l fs) n = map_of fs n"
| "record_field_value (Stats_l b c d) n = map_of (stats_record b [] c d) n"
| "record_field_value (StatsBlob_l b m c d) n = map_of (stats_record b m c d) n"
| "record_field_value _ n = None"

fun store_field :: "name \<Rightarrow> lowered \<Rightarrow> (name \<times> lowered) list \<Rightarrow> (name \<times> lowered) list option" where
  "store_field n c [] = None"
| "store_field n c ((m, v) # fs) =
     (if m = n then Some ((m, c) # fs) else map_option (Cons (m, v)) (store_field n c fs))"

fun set_record_field :: "lowered \<Rightarrow> name \<Rightarrow> lowered \<Rightarrow> decode_error + lowered" where
  "set_record_field (Record_l fs) n c = ok_or (map_option Record_l (store_field n c fs)) (Missing_field n)"
| "set_record_field (RecordVec_l fs) n c =
     ok_or (map_option RecordVec_l (store_field n c fs)) (Missing_field n)"
| "set_record_field (Stats_l b d e) n c =
     ok_or (map_option RecordVec_l (store_field n c (stats_record b [] d e))) (Missing_field n)"
| "set_record_field (StatsBlob_l b m d e) n c =
     ok_or (map_option RecordVec_l (store_field n c (stats_record b m d e))) (Missing_field n)"
| "set_record_field v n c = Inl Type_error"

definition decode_leaf :: "decoder \<Rightarrow> ty \<Rightarrow> lowered \<Rightarrow> value_path \<Rightarrow> decode_error + lowered" where
  "decode_leaf ev t v path =
     (case module_check ev v t path of
        Some r \<Rightarrow> bindE r (\<lambda>_. Inr v)
      | None \<Rightarrow>
          if value_matches_runtime_type (Lowered v) t then Inr v else Inl (Schema_failure path))"

definition decode_wire :: "wire_mapping \<Rightarrow> lowered \<Rightarrow> value_path \<Rightarrow> decode_error + lowered" where
  "decode_wire m v path =
     (if (case v of
            Tag_l t n fs w \<Rightarrow> t = wire_type m \<and> fs = [] \<and> map_of (wire_variants m) n \<noteq> None
          | _ \<Rightarrow> False)
      then Inr v
      else case lowered_str_value v of
        None \<Rightarrow> Inl (Schema_failure path)
      | Some text \<Rightarrow>
          (case find (\<lambda>(n, wire). wire = text) (wire_variants m) of
             None \<Rightarrow> Inl (Schema_failure path)
           | Some (n, wire) \<Rightarrow> Inr (Tag_l (wire_type m) n [] (Some m))))"

definition set_element ::
  "ty \<Rightarrow> value_path \<Rightarrow> nat \<times> lowered \<Rightarrow> map_key list \<Rightarrow> decode_error + map_key list" where
  "set_element t path ix elements =
     (case lowered_map_key_ref (snd ix) of
        Some k \<Rightarrow>
          if \<not> map_key_matches_type k t \<or> k \<in> set elements
          then Inl (Schema_failure (path @ [P_index (fst ix)]))
          else Inr (set_insert k elements)
      | None \<Rightarrow> Inl (Schema_failure (path @ [P_index (fst ix)])))"

definition decode_set :: "ty \<Rightarrow> lowered \<Rightarrow> value_path \<Rightarrow> decode_error + lowered" where
  "decode_set t v path =
     (case v of
        Set_l ks \<Rightarrow>
          if list_all (\<lambda>k. map_key_matches_type k t) ks then Inr (Set_l ks)
          else Inl (Schema_failure path)
      | _ \<Rightarrow>
          (case list_payload v of
             None \<Rightarrow> Inl (Schema_failure path)
           | Some items \<Rightarrow>
               bindE (foldE (set_element t path) (enumerate 0 items) []) (\<lambda>ks. Inr (Set_l ks))))"

definition map_payload :: "ty \<Rightarrow> lowered \<Rightarrow> (map_key \<times> lowered) list option" where
  "map_payload k v =
     (case v of
        Map_l m \<Rightarrow> Some m
      | Record_l fs \<Rightarrow>
          if k = Plain Str_ty then Some (map (map_prod Str_key id) fs) else None
      | RecordVec_l fs \<Rightarrow>
          if k = Plain Str_ty
          then Some (fold (\<lambda>(n, w) m. bt_insert (Str_key n) w m) fs []) else None
      | _ \<Rightarrow> None)"

fun explicit_stats :: "unknown_fields \<Rightarrow> lowered \<Rightarrow> lowered" where
  "explicit_stats policy (Stats_l b c d) =
     (if policy = Preserve then Stats_l b c d else RecordVec_l (stats_record b [] c d))"
| "explicit_stats policy (StatsBlob_l b m c d) =
     (if policy = Preserve then StatsBlob_l b m c d else RecordVec_l (stats_record b m c d))"
| "explicit_stats policy v = v"

definition has_fields :: "(name \<times> 'a) list \<Rightarrow> lowered \<Rightarrow> bool" where
  "has_fields fs v \<longleftrightarrow>
     (case v of
        Record_l r \<Rightarrow> True
      | RecordVec_l r \<Rightarrow> True
      | Module_l r \<Rightarrow> fs \<noteq> []
      | Stats_l b c d \<Rightarrow> fs \<noteq> []
      | StatsBlob_l b m c d \<Rightarrow> fs \<noteq> []
      | _ \<Rightarrow> False)"

definition unexpected_field :: "(name \<times> 'a) list \<Rightarrow> lowered \<Rightarrow> name option" where
  "unexpected_field fs v =
     (case v of
        Record_l r \<Rightarrow> find (\<lambda>n. n \<notin> fst ` set fs) (map fst r)
      | RecordVec_l r \<Rightarrow> find (\<lambda>n. n \<notin> fst ` set fs) (map fst r)
      | _ \<Rightarrow> None)"

definition lexical_value :: "decoder \<Rightarrow> schema \<Rightarrow> bool \<Rightarrow> lowered \<Rightarrow> lowered" where
  "lexical_value ev s lexical v =
     (if lexical then
        (case v of
           Str_l text \<Rightarrow> (case lexical_atom ev s text of Some w \<Rightarrow> w | None \<Rightarrow> v)
         | _ \<Rightarrow> v)
      else v)"

fun ok_value :: "'e + 'a \<Rightarrow> 'a option" where
  "ok_value (Inr a) = Some a"
| "ok_value (Inl e) = None"

function decode_policy ::
  "decoder \<Rightarrow> schema \<Rightarrow> lowered \<Rightarrow> value_path \<Rightarrow> unknown_fields \<Rightarrow> bool \<Rightarrow> decode_error + lowered"
where
  "decode_policy ev s v0 path policy lexical =
     (let v = lexical_value ev s lexical v0 in
      case s of
        Unknown_fields p inner \<Rightarrow> decode_policy ev inner v path p lexical
      | Validate t \<Rightarrow> decode_leaf ev t v path
      | Wire_schema m \<Rightarrow> decode_wire m v path
      | Set_schema t \<Rightarrow> decode_set t v path
      | Optional_schema inner \<Rightarrow>
          if v = Null_l then Inr v else decode_policy ev inner v path policy lexical
      | Validated_schema t inner \<Rightarrow>
          bindE (decode_policy ev inner v path policy lexical) (\<lambda>d.
            case validated t of
              Some (w, base) \<Rightarrow>
                if passes (Lowered d) w then Inr d else Inl (Schema_failure path)
            | None \<Rightarrow> Inr d)
      | Union_schema t ms \<Rightarrow>
          if lexical \<and> bool_lowered_str v \<and> \<not> list_ex admits_text ms then
            bindE (foldE (\<lambda>m accepted.
              let primitive = lexical_value ev m True v in
              if map_option fst accepted = Some primitive then Inr accepted
              else case decode_policy ev m primitive path policy True of
                Inl e \<Rightarrow> Inr accepted
              | Inr candidate \<Rightarrow>
                  if accepted \<noteq> None then Inl (Schema_failure path)
                  else Inr (Some (primitive, candidate))) ms None)
              (\<lambda>accepted. ok_or (map_option snd accepted) (Schema_failure path))
          else
            ok_or (find_map (\<lambda>m. ok_value (decode_policy ev m v path policy
                (lexical \<and> \<not> bool_lowered_str v))) ms) (Schema_failure path)
      | Record_schema fs \<Rightarrow>
          let r = explicit_stats policy v in
          if \<not> has_fields fs r then Inl (Schema_failure path)
          else case (if policy = Reject then unexpected_field fs r else None) of
            Some n \<Rightarrow> Inl (Schema_failure (path @ [P_field n]))
          | None \<Rightarrow>
              bindE (foldE (\<lambda>(n, fs_n) (value, projected).
                case record_field_value value n of
                  None \<Rightarrow> Inl (Schema_failure path)
                | Some selected \<Rightarrow>
                    bindE (decode_policy ev fs_n selected (path @ [P_field n]) policy lexical)
                      (\<lambda>converted.
                        if policy = Strip then Inr (value, projected @ [(n, converted)])
                        else if lexical \<or> policy \<noteq> Preserve \<or> rebuilds_value fs_n then
                          bindE (set_record_field value n converted)
                            (\<lambda>value'. Inr (value', projected))
                        else Inr (value, projected))) fs (r, []))
                (\<lambda>(value, projected).
                  Inr (if policy = Strip then RecordVec_l projected else value))
      | List_schema inner \<Rightarrow>
          (case list_payload v of
             None \<Rightarrow> Inl (Schema_failure path)
           | Some items \<Rightarrow>
               bindE (mapE (\<lambda>(i, item).
                 decode_policy ev inner item (path @ [P_index i]) policy lexical)
                   (enumerate 0 items)) (\<lambda>vs. Inr (List_l vs)))
      | Map_schema k inner \<Rightarrow>
          (case map_payload k v of
             None \<Rightarrow> Inl (Schema_failure path)
           | Some items \<Rightarrow>
               bindE (foldE (\<lambda>(j, item) converted.
                 if \<not> map_key_matches_type j k then Inl (Schema_failure path)
                 else bindE (decode_policy ev inner item (path @ [P_key j]) policy lexical)
                   (\<lambda>w. Inr (bt_insert j w converted))) items [])
                 (\<lambda>m. Inr (Map_l m))))"
  by pat_completeness auto
termination
  by (relation "measure (\<lambda>(ev, s, v, p, q, b). size s)") (auto dest: size_member size_field)

declare decode_policy.simps [simp del]

definition decode_schema :: "decoder \<Rightarrow> schema \<Rightarrow> lowered \<Rightarrow> decode_error + lowered" where
  "decode_schema ev s v = decode_policy ev s v [] Preserve False"

definition materialize_validated_list :: "ty \<Rightarrow> lowered \<Rightarrow> lowered" where
  "materialize_validated_list t v =
     (case unvalidated t of
        List_ty i \<Rightarrow> (case v of EnvPathList_l ps \<Rightarrow> List_l (map Path_l ps) | _ \<Rightarrow> v)
      | _ \<Rightarrow> v)"

text \<open>\<open>.require(T)\<close>; its result is the value \<open>Ok\<close> or \<open>Err\<close> of the language.\<close>

definition require_value :: "decoder \<Rightarrow> schema option \<Rightarrow> ty \<Rightarrow> lowered \<Rightarrow> decode_error + lowered" where
  "require_value ev prepared t v =
     (case prepared of
        Some s \<Rightarrow> decode_schema ev s v
      | None \<Rightarrow>
          (case module_check ev v t [] of
             Some r \<Rightarrow> bindE r (\<lambda>_. Inr v)
           | None \<Rightarrow>
               if value_matches_runtime_type (Lowered v) t then Inr (materialize_validated_list t v)
               else Inl (Schema_failure [])))"

end
