(* ===== verification/Xsh_Types_Correct.thy ===== *)
theory Xsh_Types_Correct
  imports Xsh_Type_Ops
begin

text \<open>
  Facts about the compatibility relations: case rules for \<open>matches_expected\<close> and
  \<open>matches_stored\<close> that name the arm that accepted, reflexivity, what an accepted union type
  guarantees about its members, and when the explanations are empty.
\<close>

section \<open>Case rules\<close>

lemma both_wrapped_iff:
  "both_wrapped ws a e = Some (x, y) \<longleftrightarrow>
     (a = List_ty x \<and> e = List_ty y \<and> In_list \<in> set ws) \<or>
     (a = Stream_ty x \<and> e = Stream_ty y \<and> In_stream \<in> set ws) \<or>
     (a = Set_ty x \<and> e = Set_ty y \<and> In_set \<in> set ws) \<or>
     (a = Optional_ty x \<and> e = Optional_ty y \<and> In_optional \<in> set ws)"
  by (cases a; cases e) (auto simp: both_wrapped_def)

lemma expected_cases:
  assumes "matches_expected a e"
  obtains (same) "a = e" | (ints) "int_domains a e" | (recovery) "is_recovery a \<or> is_recovery e"
    | (dynamic) "is_dynamic e"
    | (both_valid) v x y where "both_validated a e = Some ((v, x), v, y)" "matches_expected x y"
    | (unions) as es where "union_members a = Some as" "union_members e = Some es" "list_all (\<lambda>m. matches_expected m e) as"
    | (member) es m where "union_members e = Some es" "m \<in> set es" "matches_expected a m" "union_members a = None"
    | (wrapped) x y where "both_wrapped [In_list, In_stream, In_set] a e = Some (x, y)" "matches_stored x y"
    | (maps) x y z w where "both_map a e = Some ((x, y), z, w)" "matches_invariant x z" "matches_stored y w"
    | (results) x y z w where "both_result a e = Some ((x, y), z, w)" "matches_expected x z" "matches_expected y w"
    | (records) as es where "both_record a e = Some (as, es)"
        "list_all (\<lambda>(n, t). case map_of as n of None \<Rightarrow> False | Some u \<Rightarrow> matches_expected u t) es"
    | (modules) as x es y where "both_module a e = Some ((as, x), es, y)"
    | (callables) k s l r where "both_callable a e = Some ((k, s), l, r)" "callable_mismatch l r k s True = None"
    | (plain) "plain_matches a e"
    | (optionals) x y where "optional_inner a = Some x" "optional_inner e = Some y" "matches_stored x y"
    | (optional) y where "optional_inner e = Some y" "matches_expected a y"
    | (valid) v x where "validated a = Some (v, x)" "matches_expected x e" "optional_inner e = None"
        "union_members e = None" "validated e = None"
proof (rule ccontr)
  assume nt: "\<not> thesis"
  have g: "\<not> (a = e \<or> int_domains a e \<or> is_recovery a \<or> is_dynamic e \<or> is_recovery e)"
    using nt same ints recovery dynamic by blast
  note s00 = assms [unfolded matches_expected.simps [of a e] if_not_P [OF g]]
  have d: "\<not> is_dynamic a"
  proof
    assume "is_dynamic a"
    with s00 show False by (simp only: if_True)
  qed
  note s0 = s00 [unfolded if_not_P [OF d]]
  have v: "both_validated a e = None"
    using s0 by (cases "both_validated a e") (auto simp: list_ex_iff nt simp del: optional_inner_Some union_members_Some dest: both_valid)
  note s1 = s0 [unfolded v option.case]
  have u: "union_members e = None"
    using s1 by (cases "union_members e"; cases "union_members a") (auto simp: list_ex_iff nt simp del: optional_inner_Some union_members_Some dest: unions member)
  note s2 = s1 [unfolded u option.case]
  have w: "both_wrapped [In_list, In_stream, In_set] a e = None"
    using s2 by (cases "both_wrapped [In_list, In_stream, In_set] a e") (auto simp: list_ex_iff nt simp del: optional_inner_Some union_members_Some dest: wrapped)
  note s3 = s2 [unfolded w option.case]
  have m: "both_map a e = None"
    using s3 by (cases "both_map a e") (auto simp: list_ex_iff nt simp del: optional_inner_Some union_members_Some dest: maps)
  note s4 = s3 [unfolded m option.case]
  have r: "both_result a e = None"
    using s4 by (cases "both_result a e") (auto simp: list_ex_iff nt simp del: optional_inner_Some union_members_Some dest: results)
  note s5 = s4 [unfolded r option.case]
  have rec: "both_record a e = None"
    using s5 by (cases "both_record a e") (auto simp: list_ex_iff nt simp del: optional_inner_Some union_members_Some dest: records)
  note s6 = s5 [unfolded rec option.case]
  have mo: "both_module a e = None"
    using s6 by (cases "both_module a e") (auto simp: list_ex_iff nt simp del: optional_inner_Some union_members_Some dest: modules)
  note s7 = s6 [unfolded mo option.case]
  have c: "both_callable a e = None"
    using s7 by (cases "both_callable a e") (auto simp: list_ex_iff nt simp del: optional_inner_Some union_members_Some dest: callables)
  note s8 = s7 [unfolded c option.case]
  have p: "\<not> plain_matches a e" using nt plain by blast
  note s9 = s8 [unfolded if_not_P [OF p]]
  have o: "optional_inner e = None"
    using s9 by (cases "optional_inner e"; cases "optional_inner a") (auto simp: list_ex_iff nt simp del: optional_inner_Some union_members_Some dest: optionals optional)
  note s10 = s9 [unfolded o option.case]
  show False
  proof (cases "validated a")
    case (Some x)
    moreover have "validated e = None" using v Some by (cases x; cases a; cases e) auto
    ultimately show ?thesis using s10 nt valid o u by (cases x) auto
  qed (use s10 in simp)
qed

lemma stored_cases:
  assumes "matches_stored a e"
  obtains (wrapped) x y where "both_wrapped [In_list, In_stream, In_optional] a e = Some (x, y)"
        "matches_stored x y"
    | (maps) x y z w where "both_map a e = Some ((x, y), z, w)" "matches_invariant x z" "matches_stored y w"
    | (results) x y z w where "both_result a e = Some ((x, y), z, w)" "matches_stored x z" "matches_stored y w"
    | (records) as es where "both_record a e = Some (as, es)"
        "list_all (\<lambda>(n, t). case map_of as n of None \<Rightarrow> False | Some u \<Rightarrow> matches_stored u t) es"
    | (unions) as es where "both_union a e = Some (as, es)"
        "list_all (\<lambda>m. list_ex (\<lambda>w. matches_stored m w) es) as"
    | (both_valid) v x y where "both_validated a e = Some ((v, x), v, y)" "matches_stored x y"
    | (valid) v x where "validated a = Some (v, x)" "matches_stored x e"
    | (invariant) "both_wrapped [In_list, In_stream, In_optional] a e = None" "both_map a e = None"
        "both_result a e = None" "both_record a e = None" "both_union a e = None" "validated a = None"
        "matches_invariant a e"
proof (rule ccontr)
  assume nt: "\<not> thesis"
  note s0 = assms [unfolded matches_stored.simps [of a e]]
  have w: "both_wrapped [In_list, In_stream, In_optional] a e = None"
    using s0 by (cases "both_wrapped [In_list, In_stream, In_optional] a e") (auto simp: nt dest: wrapped)
  note s1 = s0 [unfolded w option.case]
  have m: "both_map a e = None"
    using s1 by (cases "both_map a e") (auto simp: nt dest: maps)
  note s2 = s1 [unfolded m option.case]
  have r: "both_result a e = None"
    using s2 by (cases "both_result a e") (auto simp: nt dest: results)
  note s3 = s2 [unfolded r option.case]
  have rec: "both_record a e = None"
    using s3 by (cases "both_record a e") (auto simp: nt dest: records)
  note s4 = s3 [unfolded rec option.case]
  have u: "both_union a e = None"
    using s4 by (cases "both_union a e") (auto simp: nt dest: unions)
  note s5 = s4 [unfolded u option.case]
  have bv: "both_validated a e = None"
    using s5 by (cases "both_validated a e") (auto simp: nt dest: both_valid)
  note s6 = s5 [unfolded bv option.case]
  have v: "validated a = None"
    using s6 by (cases "validated a") (auto simp: nt dest: valid simp del: validated_Some)
  show False using invariant [OF w m r rec u v] s6 v nt by simp
qed

lemma invariant_plain:
  "matches_invariant (Plain p) (Plain q) \<longleftrightarrow>
     \<not> int_domains (Plain p) (Plain q) \<and> matches_expected (Plain p) (Plain q) \<and>
     matches_expected (Plain q) (Plain p)"
  by (simp add: matches_invariant.simps [of "Plain p"] both_wrapped_def)

lemma expected_plain:
  "matches_expected (Plain p) (Plain q) \<longleftrightarrow>
     p = q \<or> int_domains (Plain p) (Plain q) \<or> is_recovery (Plain p) \<or> is_dynamic (Plain q) \<or>
     is_recovery (Plain q) \<or> \<not> is_dynamic (Plain p) \<and> plain_matches (Plain p) (Plain q)"
  by (simp add: matches_expected.simps [of "Plain p"] both_wrapped_def)

lemma stored_plain: "matches_stored (Plain p) (Plain q) = matches_invariant (Plain p) (Plain q)"
  by (simp add: matches_stored.simps [of "Plain p"] both_wrapped_def)

lemma key_invariant:
  "is_map_key k \<Longrightarrow> is_map_key j \<Longrightarrow> matches_invariant k j \<Longrightarrow> k = j"
  by (auto simp: is_map_key_def int_domains_def invariant_plain expected_plain is_recovery_def is_dynamic_def)

lemma key_stored: "is_map_key k \<Longrightarrow> is_map_key j \<Longrightarrow> matches_stored k j \<Longrightarrow> k = j"
  using key_invariant [of k j] by (auto simp: is_map_key_def stored_plain)

section \<open>Well-formed data types\<close>

text \<open>
  Types whose values the runtime test sees completely: keys are scalars, the members of a union
  pass \<open>union_member_error\<close>'s first check, nothing is unresolved, and the dynamic record, process
  errors and modules do not occur.
\<close>

function data_type :: "ty \<Rightarrow> bool" where
  "data_type t \<longleftrightarrow>
     \<not> is_recovery t \<and> t \<noteq> Plain ErasedRecord_ty \<and> t \<noteq> Plain ProcessError_ty \<and>
     (case t of
        Module_ty xs x \<Rightarrow> False
      | Map_ty k v \<Rightarrow> is_map_key k
      | Set_ty k \<Rightarrow> is_map_key k
      | Union_ty ms \<Rightarrow> list_all (\<lambda>m. member_reason m = None) ms
      | _ \<Rightarrow> True) \<and>
     list_all data_type (data_children t)"
  by pat_completeness auto
termination by (relation "measure size") (auto intro: size_data_child)

declare data_type.simps [simp del]

lemma data_type_simps [simp]:
  "data_type (List_ty t) = data_type t"
  "data_type (Stream_ty t) = data_type t"
  "data_type (Set_ty t) \<longleftrightarrow> is_map_key t \<and> data_type t"
  "data_type (Optional_ty t) = data_type t"
  "data_type (Map_ty k t) \<longleftrightarrow> is_map_key k \<and> data_type k \<and> data_type t"
  "data_type (Result_ty t u) \<longleftrightarrow> data_type t \<and> data_type u"
  "data_type (Record_ty fs) \<longleftrightarrow> list_all (data_type \<circ> snd) fs"
  "data_type (Union_ty ms) \<longleftrightarrow> list_all (\<lambda>m. member_reason m = None \<and> data_type m) ms"
  "data_type (Validated_ty v t) = data_type t"
  "data_type (Module_ty xs x) = False"
  "data_type (Callable_ty c s) = True"
  "data_type (Plain p) \<longleftrightarrow> p \<notin> {Unknown_ty, Invalid_ty, ErasedRecord_ty, ProcessError_ty}"
  by (subst data_type.simps; force simp: is_recovery_def list_all_iff list_all_map_comp)+

lemma data_type_no_recovery: "data_type t \<Longrightarrow> \<not> is_recovery t"
  by (subst (asm) data_type.simps) blast

section \<open>Accepted unions\<close>

lemma pairs_reason_None:
  "pairs_reason ms = None \<Longrightarrow> i < j \<Longrightarrow> j < length ms \<Longrightarrow> \<not> is_recovery (ms ! i) \<Longrightarrow>
     pair_reason (ms ! i) (ms ! j) = None"
proof (induction ms arbitrary: i j)
  case (Cons m ms)
  obtain j' where j: "j = Suc j'" using Cons.prems(2) by (cases j) auto
  show ?case
  proof (cases i)
    case 0
    then have "find_map (pair_reason m) ms = None"
      using Cons.prems by (auto split: option.splits if_splits)
    then show ?thesis using 0 j Cons.prems by (simp add: find_map_None)
  next
    case (Suc i')
    have "pairs_reason ms = None" using Cons.prems(1) by (auto split: option.splits if_splits)
    then show ?thesis using Cons.IH [of i' j'] Cons.prems Suc j by simp
  qed
qed simp

text \<open>C39: The members of an accepted union are at least two, none is \<open>Any\<close>, null, optional, a
  union, a stream or a callable, and no resolved member equals or fits another one: every static
  type of a member names one member only.\<close>

theorem union_members_apart:
  assumes "union_member_error ms = None"
    and "i < j" "j < length ms" "\<not> is_recovery (ms ! i)" "\<not> is_recovery (ms ! j)"
  shows "2 \<le> length ms \<and> member_reason (ms ! i) = None \<and> member_reason (ms ! j) = None \<and>
    ms ! i \<noteq> ms ! j \<and> \<not> matches_expected (ms ! i) (ms ! j) \<and> \<not> matches_expected (ms ! j) (ms ! i)"
proof -
  have ok: "2 \<le> length ms" "find_map member_reason ms = None" "pairs_reason ms = None"
    using assms(1) by (auto simp: union_member_error_def split: if_splits option.splits)
  then have "pair_reason (ms ! i) (ms ! j) = None"
    using pairs_reason_None assms by blast
  then show ?thesis
    using ok assms by (auto simp: pair_reason_def find_map_None split: if_splits)
qed

theorem union_members_apart_witness:
  "\<not> matches_expected (Plain Str_ty) (Plain Path_ty)"
proof -
  have "union_member_error [Plain Str_ty, Plain Path_ty] = None"
    by (simp add: union_member_error_def member_reason_def pair_reason_def nominal_clash_def
        nominal_name_def is_recovery_def expected_plain int_domains_def is_dynamic_def)
  then show ?thesis
    using union_members_apart [of "[Plain Str_ty, Plain Path_ty]" 0 1] by (simp add: is_recovery_def)
qed

section \<open>Explanations of module types\<close>

text \<open>The explanation of an unsatisfied module contract is empty exactly when the checker
  accepts the module's type, equal types apart.\<close>

theorem unmet_explains_mismatch:
  "matches_expected (Module_ty as a_exact) (Module_ty es exact) \<longleftrightarrow>
     as = es \<and> a_exact = exact \<or> unmet_by (es, exact) (as, a_exact) = []"
proof -
  have exports: "concat (map (\<lambda>(n, expected).
       case map_of as n of
         None \<Rightarrow> if export_optional expected then [] else [Missing_export n]
       | Some found \<Rightarrow>
           if module_export_matches found expected then [] else [Mismatched_export n]) es) = [] \<longleftrightarrow>
     list_all (\<lambda>(n, x). case map_of as n of
        Some y \<Rightarrow> module_export_matches y x | None \<Rightarrow> export_optional x) es"
    by (induction es) (auto split: option.splits if_splits)
  have extra: "map Unexpected_export (filter (\<lambda>n. map_of es n = None) (map fst as)) = [] \<longleftrightarrow>
     list_all (\<lambda>(n, x). map_of es n \<noteq> None) as"
    by (induction as) auto
  have unmet: "unmet_by (es, exact) (as, a_exact) = [] \<longleftrightarrow>
     list_all (\<lambda>(n, x). case map_of as n of
        Some y \<Rightarrow> module_export_matches y x | None \<Rightarrow> export_optional x) es \<and>
     (exact \<longrightarrow> a_exact \<and> list_all (\<lambda>(n, x). map_of es n \<noteq> None) as)"
    unfolding unmet_by.simps append_is_Nil_conv exports by (simp only: extra split: if_splits) simp
  show ?thesis
    unfolding unmet
    by (subst matches_expected.simps)
      (auto simp: both_wrapped_def int_domains_def is_recovery_def is_dynamic_def)
qed

section \<open>Searches\<close>

inductive part_of :: "ty \<Rightarrow> ty \<Rightarrow> bool" where
  part_refl: "part_of t t"
| part_child: "part_of u c \<Longrightarrow> c \<in> set (children t) \<Longrightarrow> part_of u t"

lemma part_of_unfold: "part_of u t \<longleftrightarrow> u = t \<or> (\<exists>c \<in> set (children t). part_of u c)"
  by (subst part_of.simps) blast

lemma search_children_iff:
  "search_children found ts \<longleftrightarrow> (\<exists>t \<in> set ts. \<exists>u. part_of u t \<and> found u)"
proof (induction found ts rule: search_children.induct)
  case (2 found t pending)
  have "(\<exists>u. part_of u t \<and> found u) \<longleftrightarrow>
      found t \<or> (\<exists>c \<in> set (children t). \<exists>u. part_of u c \<and> found u)"
    using part_of_unfold [of _ t] by auto
  then show ?case using 2 by auto
qed simp

text \<open>The searches with an explicit stack always end and visit every type that occurs in a
  type: an inference variable, an unresolved effect, a scheme callable or a builtin parameter is
  reported exactly when it occurs somewhere.\<close>

theorem searches_visit_all_parts:
  "(contains_inference t \<longleftrightarrow> (\<exists>u. part_of u t \<and> inference_found u)) \<and>
   (contains_scheme_callable t \<longleftrightarrow> (\<exists>i. part_of (Plain (SchemeCallable_ty i)) t)) \<and>
   (contains_builtin_parameter t \<longleftrightarrow> (\<exists>i. part_of (Plain (BuiltinParameter_ty i)) t))"
proof (intro conjI)
  have scheme: "is_scheme_callable u \<longleftrightarrow> (\<exists>i. u = Plain (SchemeCallable_ty i))" for u
    by (auto simp: is_scheme_callable_def split: ty.splits plain_type.splits)
  have "contains_scheme_callable t \<longleftrightarrow> (\<exists>u. part_of u t \<and> is_scheme_callable u)"
    using part_of_unfold [of _ t] by (auto simp: contains_scheme_callable_def search_children_iff)
  then show "contains_scheme_callable t \<longleftrightarrow> (\<exists>i. part_of (Plain (SchemeCallable_ty i)) t)"
    using scheme by auto
  have "(case u of Plain (BuiltinParameter_ty i) \<Rightarrow> True | _ \<Rightarrow> False) \<longleftrightarrow>
      (\<exists>i. u = Plain (BuiltinParameter_ty i))" for u
    by (auto split: ty.splits plain_type.splits)
  then show "contains_builtin_parameter t \<longleftrightarrow> (\<exists>i. part_of (Plain (BuiltinParameter_ty i)) t)"
    by (auto simp: contains_builtin_parameter_def search_children_iff)
qed (simp add: contains_inference_def search_children_iff)

section \<open>Builtin names\<close>

text \<open>Builtin type names are read back from their spelling, and every builtin name but that of
  the validated \<open>RelPath\<close> is the name of the type it denotes.\<close>

theorem builtin_names_roundtrip:
  "builtin_parse (builtin_as_str b) = Some b \<and>
   (b = RelPath_bn \<or> type_builtin_name (from_builtin_name b) = Some b)"
  by (cases b) (simp_all add: builtin_parse_def builtin_as_str_def BUILTIN_TYPE_NAMES_def
      type_builtin_name_def)

end
