(* ===== verification/Xsh_Values_Correct.thy ===== *)
theory Xsh_Values_Correct
  imports Xsh_Values Xsh_Types_Correct
begin

text \<open>
  The runtime type test against the compatibility relations of the checker: what the checker
  lets stand in place of an expected type also passes the test for it. The locale
  \<open>contract_test\<close> is what the facts need of the test of callables and streams; the runtime and
  the static test are its interpretations.
\<close>

section \<open>The test on views that are not keys\<close>

fun is_key :: "view \<Rightarrow> bool" where
  "is_key (Key k) = True"
| "is_key _ = False"

lemma is_key_case [simp]: "(case v of Key k \<Rightarrow> True | _ \<Rightarrow> False) = is_key v"
  by (cases v) simp_all

lemma value_matches_key:
  "is_key v \<Longrightarrow> \<not> key_testable t \<Longrightarrow> \<not> value_matches accepts v t"
  by (cases v) (simp_all add: value_matches.simps)

lemma items_not_keys:
  "list_items v = Some ws \<Longrightarrow> w \<in> set ws \<Longrightarrow> \<not> is_key w"
  "record_values v = Some ws \<Longrightarrow> w \<in> set ws \<Longrightarrow> \<not> is_key w"
  by (cases v rule: list_items.cases; fastforce) (cases v rule: record_values.cases; fastforce)

lemma map_items_not_keys: "map_items v = Some ws \<Longrightarrow> (k, w) \<in> set ws \<Longrightarrow> \<not> is_key w"
  by (cases v rule: map_items.cases) (auto simp: map_prod_def)

lemma field_not_key: "field_of v n = Some w \<Longrightarrow> \<not> is_key w"
  by (cases "(v, n)" rule: field_of.cases)
    (auto simp: entry_field_def stats_field_def split: if_splits)

lemma result_not_key: "result_of v = Some (s, w) \<Longrightarrow> \<not> is_key w"
  by (cases v rule: result_of.cases) auto

lemma value_matches_simps:
  assumes "\<not> is_key v"
  shows
    "value_matches acc v (Plain p) = plain_test acc v p"
    "value_matches acc v (List_ty t) = all_of (list_items v) (\<lambda>w. value_matches acc w t)"
    "value_matches acc v (Map_ty k t) =
       (if map_fields v then k = Plain Str_ty \<and> all_of (record_values v) (\<lambda>w. value_matches acc w t)
        else all_of (map_items v) (\<lambda>(j, w). value_matches acc (Key j) k \<and> value_matches acc w t))"
    "value_matches acc v (Set_ty t) = all_of (set_items v) (\<lambda>j. value_matches acc (Key j) t)"
    "value_matches acc v (Stream_ty t) = acc v (Stream_contract t)"
    "value_matches acc v (Record_ty fs) \<longleftrightarrow> is_record v False \<and>
       list_all (\<lambda>(n, u). case field_of v n of Some w \<Rightarrow> value_matches acc w u | None \<Rightarrow> False) fs"
    "value_matches acc v (Result_ty a b) =
       (case result_of v of
          Some (s, w) \<Rightarrow> value_matches acc w (if s then a else b) | None \<Rightarrow> False)"
    "value_matches acc v (Callable_ty c s) = acc v (Callable_contract (Value_contract c s))"
    "value_matches acc v (Optional_ty t) \<longleftrightarrow> scalar_type v = Some Null_ty \<or> value_matches acc v t"
    "value_matches acc v (Union_ty ms) = list_ex (value_matches acc v) ms"
    "value_matches acc v (Validated_ty x t) \<longleftrightarrow> value_matches acc v t \<and> passes v x"
  using assms by (subst value_matches.simps; simp)+

lemma all_of_mono:
  "all_of xs f \<Longrightarrow> (\<And>ys y. xs = Some ys \<Longrightarrow> y \<in> set ys \<Longrightarrow> f y \<Longrightarrow> g y) \<Longrightarrow> all_of xs g"
  by (auto simp: all_of_def list_all_iff split: option.splits)

section \<open>What both directions of the relation leave\<close>

lemma no_member_covers_optional:
  "data_type (Union_ty ms) \<Longrightarrow> m \<in> set ms \<Longrightarrow> \<not> matches_expected (Optional_ty t) m"
proof
  assume "data_type (Union_ty ms)" "m \<in> set ms"
  then have m: "member_reason m = None" "data_type m" by (auto simp: list_all_iff)
  assume "matches_expected (Optional_ty t) m"
  then show False
    using m by (cases rule: expected_cases)
      (auto simp: member_reason_def int_domains_def is_recovery_def is_dynamic_def both_simps
        both_wrapped_iff dest: data_type_no_recovery elim: plain_matches.elims)
qed

lemma error_scalar: "error_of v = Some x \<Longrightarrow> scalar_type v = Some Error_ty"
  by (cases v rule: error_of.cases; simp) (auto elim: value_error.elims split: val.splits)

lemma plain_matches_sound:
  assumes "plain_matches (Plain p) (Plain q)" "q \<noteq> ProcessError_ty" "plain_test acc v p"
  shows "plain_test acc v q"
  using assms by (cases p) (auto simp: plain_test_def split: option.splits dest: error_scalar)

lemma expected_from_any: "matches_expected (Plain Any_ty) t \<longleftrightarrow> t = Plain Any_ty \<or> is_recovery t"
  by (auto simp: matches_expected.simps [of "Plain Any_ty"] int_domains_def is_recovery_def is_dynamic_def)

lemma optional_not_union:
  assumes "data_type (Union_ty es)"
  shows "\<not> matches_expected (Optional_ty y) (Union_ty es)"
proof
  assume "matches_expected (Optional_ty y) (Union_ty es)"
  then show False
    using assms no_member_covers_optional [OF assms]
    by (cases rule: expected_cases)
      (auto simp: int_domains_def is_recovery_def is_dynamic_def both_simps both_wrapped_iff
        elim: plain_matches.elims)
qed

text \<open>Types that fit both ways and are not built alike are equal, scalars, or callables.\<close>

lemma optional_back:
  assumes "data_type a" "data_type (Optional_ty y)" "optional_inner a = None"
    and "matches_expected a (Optional_ty y)"
  shows "\<not> matches_expected (Optional_ty y) a"
proof
  assume "matches_expected (Optional_ty y) a"
  then show False
  proof (cases rule: expected_cases)
    case (member es m)
    then show ?thesis using assms(1) no_member_covers_optional [of es m y] by simp
  qed (use assms in \<open>auto simp: int_domains_def is_recovery_def is_dynamic_def both_simps both_wrapped_iff
      expected_from_any elim: plain_matches.elims\<close>)
qed

lemma union_back:
  assumes "data_type a" "data_type (Union_ty es)" "union_members a = None"
    and "matches_expected a (Union_ty es)"
  shows "\<not> matches_expected (Union_ty es) a"
proof
  assume "matches_expected (Union_ty es) a"
  then show False
  proof (cases rule: expected_cases)
    case (optional y)
    then show ?thesis using assms(2,4) optional_not_union [of es y] by simp
  qed (use assms in \<open>auto simp: int_domains_def is_recovery_def is_dynamic_def both_simps both_wrapped_iff
      expected_from_any elim: plain_matches.elims\<close>)
qed

lemma callable_mismatch_kind: "callable_mismatch l r k s c = None \<Longrightarrow> l = k"
  by (auto simp: callable_mismatch.simps callable_shape_mismatch_def split: if_splits)

lemma both_wrapped_mono:
  "both_wrapped ws a e = Some p \<Longrightarrow> set ws \<subseteq> set vs \<Longrightarrow> both_wrapped vs a e = Some p"
  by (auto simp: both_wrapped_def split: option.splits if_splits)

lemma plain_matches_shapes:
  assumes "plain_matches a e"
  obtains (rec) fs where "a = Record_ty fs" "e = Plain ErasedRecord_ty"
    | (call) k s where "a = Callable_ty k s" "e = Plain (Function_ty k)"
    | (null) y where "a = Plain Null_ty" "e = Optional_ty y"
    | (scalars) p q where "a = Plain p" "e = Plain q"
  using assms by (cases a; cases e) auto

lemma both_ways_cases:
  assumes "data_type a" "data_type e" "matches_expected a e" "matches_expected e a"
    and "\<not> int_domains a e" "validated a = None"
    and none: "both_wrapped [In_list, In_stream, In_set, In_optional] a e = None"
      "both_map a e = None" "both_result a e = None" "both_record a e = None" "both_union a e = None"
  obtains "a = e" | "e = Plain Any_ty"
    | p q where "a = Plain p" "e = Plain q" "plain_matches (Plain p) (Plain q)"
    | k s r where "a = Callable_ty k s" "e = Callable_ty k r"
    | k s where "a = Callable_ty k s" "e = Plain (Function_ty k)"
  using assms(3)
proof (cases rule: expected_cases)
  case (member es m)
  then show ?thesis using union_back [of a es] assms by simp
next
  case (optional y)
  with none(1) have "optional_inner a = None" by (cases a) (simp_all add: both_wrapped_def)
  then show ?thesis using optional_back [of a y] optional assms by simp
next
  case plain
  then show ?thesis
  proof (cases rule: plain_matches_shapes)
    case (null y)
    then show ?thesis using optional_back [of a y] assms by simp
  qed (use plain assms(2) that(3,5) in simp_all)
next
  case (unions as es)
  then show ?thesis using none(5) by simp
next
  case (wrapped x y)
  then have "both_wrapped [In_list, In_stream, In_set, In_optional] a e = Some (x, y)"
    by (auto elim!: both_wrapped_mono)
  then show ?thesis using none(1) by simp
next
  case (optionals x y)
  then show ?thesis using none(1) by (simp add: both_wrapped_def)
next
  case (callables k s l r)
  then show ?thesis using that(4) callable_mismatch_kind by (simp add: both_simps)
next
  case dynamic
  then show ?thesis using that(2) by (simp add: is_dynamic_def)
qed (use assms that(1) in \<open>auto simp: both_simps dest: data_type_no_recovery\<close>)

section \<open>What the checker accepts in storage passes the test\<close>

locale contract_test =
  fixes accepts :: "view \<Rightarrow> retained_contract \<Rightarrow> bool"
  assumes stream_test: "accepts v (Stream_contract t) = accepts v (Stream_contract u)"
    and callable_test: "accepts v (Callable_contract (Value_contract k s)) =
      accepts v (Callable_contract (Value_contract k r))"
    and callable_scalar: "accepts v (Callable_contract (Value_contract k s)) \<Longrightarrow>
      scalar_type v = Some (Function_ty k)"
begin

lemma both_ways_sound:
  assumes "data_type a" "data_type e" "matches_expected a e" "matches_expected e a"
    and "\<not> int_domains a e" "validated a = None"
    and "both_wrapped [In_list, In_stream, In_set, In_optional] a e = None"
      "both_map a e = None" "both_result a e = None" "both_record a e = None" "both_union a e = None"
    and v: "\<not> is_key v" "value_matches accepts v a"
  shows "value_matches accepts v e"
  using assms(1-11)
proof (cases rule: both_ways_cases)
  case 2
  then show ?thesis using v by (simp add: value_matches_simps plain_test_def)
next
  case (3 p q)
  then show ?thesis
    using v assms(2) plain_matches_sound [of p q accepts v] by (simp add: value_matches_simps)
next
  case (4 k s r)
  then show ?thesis using v callable_test [of v k s r] by (simp add: value_matches_simps)
next
  case (5 k s)
  then show ?thesis
    using v callable_scalar [of v k s] by (simp add: value_matches_simps plain_test_def)
qed (use v in simp)

lemma invariant_sound:
  assumes "data_type a" "data_type e" "matches_invariant a e" "validated a = None"
    and "both_wrapped [In_list, In_stream, In_optional] a e = None"
      "both_map a e = None" "both_result a e = None" "both_record a e = None" "both_union a e = None"
    and v: "\<not> is_key v" "value_matches accepts v a"
  shows "value_matches accepts v e"
proof (cases "both_wrapped [In_list, In_stream, In_set, In_optional] a e")
  case None
  have bv: "both_validated a e = None" using assms(4) by (cases a) simp_all
  note inv = assms(3) [unfolded matches_invariant.simps [of a e] None assms(6-8) bv option.case]
  have "\<not> int_domains a e" "matches_expected a e" "matches_expected e a"
    using inv by (simp_all split: if_splits)
  then show ?thesis using both_ways_sound assms None by blast
next
  case (Some p)
  then obtain x y where "both_wrapped [In_list, In_stream, In_set, In_optional] a e = Some (x, y)"
    by (cases p) simp
  then have xy: "a = Set_ty x" "e = Set_ty y"
    using assms(5) unfolding both_wrapped_iff by (auto simp: both_wrapped_def)
  then have "matches_invariant x y"
    using assms(3) xy by (simp add: matches_invariant.simps [of "Set_ty x"] both_wrapped_def int_domains_def)
  then have "x = y" using key_invariant assms(1,2) xy by simp
  then show ?thesis using v xy by simp
qed

lemma stored_sound:
  "data_type a \<Longrightarrow> data_type e \<Longrightarrow> matches_stored a e \<Longrightarrow> \<not> is_key v \<Longrightarrow>
    value_matches accepts v a \<Longrightarrow> value_matches accepts v e"
proof (induction "size a + size e" arbitrary: a e v rule: less_induct)
  case less
  note IH = less.hyps and dt = less.prems(1,2) and v = less.prems(4,5)
  show ?case
    using less.prems(3)
  proof (cases rule: stored_cases)
    case (wrapped x y)
    then consider "a = List_ty x" "e = List_ty y" | "a = Stream_ty x" "e = Stream_ty y"
      | "a = Optional_ty x" "e = Optional_ty y" by (auto simp: both_wrapped_iff)
    then show ?thesis
    proof cases
      case 1
      have "value_matches accepts w y" if "list_items v = Some ws" "w \<in> set ws" "value_matches accepts w x"
        for w ws using that items_not_keys(1) dt wrapped(2) 1 by (intro IH [of x y]) auto
      then show ?thesis using v 1 by (auto simp: value_matches_simps elim!: all_of_mono)
    next
      case 2
      then show ?thesis using v stream_test [of v x y] by (simp add: value_matches_simps)
    next
      case 3
      have "value_matches accepts v y" if "value_matches accepts v x"
        using that v dt wrapped(2) 3 by (intro IH [of x y]) auto
      then show ?thesis using v 3 by (auto simp: value_matches_simps)
    qed
  next
    case (maps x y z w)
    then have ae: "a = Map_ty x y" "e = Map_ty z w" by (simp_all add: both_simps)
    have "x = z" using dt maps(2) ae key_invariant by simp
    have "value_matches accepts u w"
      if "value_matches accepts u y" "\<not> is_key u" for u
      using that dt maps(3) ae by (intro IH [of y w]) auto
    then show ?thesis
      using v ae \<open>x = z\<close> items_not_keys(2) map_items_not_keys
      by (auto simp: value_matches_simps elim!: all_of_mono split: if_splits)
  next
    case (results x y z w)
    then have ae: "a = Result_ty x y" "e = Result_ty z w" by (simp_all add: both_simps)
    obtain s u where r: "result_of v = Some (s, u)" "value_matches accepts u (if s then x else y)"
      using v ae by (auto simp: value_matches_simps split: option.splits)
    then have "value_matches accepts u (if s then z else w)"
      using dt ae results(2,3) result_not_key [OF r(1)] IH [of x z u] IH [of y w u]
      by (cases s) simp_all
    then show ?thesis using v r ae by (simp add: value_matches_simps)
  next
    case (records as es)
    then have ae: "a = Record_ty as" "e = Record_ty es" by (simp_all add: both_simps)
    have "\<exists>w. field_of v n = Some w \<and> value_matches accepts w t" if nt: "(n, t) \<in> set es" for n t
    proof -
      obtain u where u: "map_of as n = Some u" "matches_stored u t"
        using records(2) nt by (auto simp: list_all_iff split: option.splits)
      then have mem: "(n, u) \<in> set as" by (simp add: map_of_SomeD)
      then obtain w where w: "field_of v n = Some w" "value_matches accepts w u"
        using v ae by (fastforce simp: value_matches_simps list_all_iff split: option.splits)
      have "data_type u" "data_type t" using dt ae mem nt by (auto simp: list_all_iff)
      moreover have "size u + size t < size a + size e"
        using size_field [OF mem] size_field [OF nt] ae by simp
      ultimately have "value_matches accepts w t" using IH [of u t w] u w field_not_key by blast
      with w show ?thesis by blast
    qed
    then show ?thesis using v ae by (fastforce simp: value_matches_simps list_all_iff)
  next
    case (unions as es)
    then have ae: "a = Union_ty as" "e = Union_ty es" by (simp_all add: both_simps)
    obtain m where m: "m \<in> set as" "value_matches accepts v m"
      using v ae by (auto simp: value_matches_simps list_ex_iff)
    then obtain w where w: "w \<in> set es" "matches_stored m w"
      using unions(2) by (auto simp: list_all_iff list_ex_iff)
    have "value_matches accepts v w"
      using m w v(1) dt ae size_member [of m as] size_member [of w es]
      by (intro IH [of m w]) (auto simp: list_all_iff)
    then show ?thesis using v w ae by (auto simp: value_matches_simps list_ex_iff)
  next
    case (both_valid x y z)
    then have ae: "a = Validated_ty x y" "e = Validated_ty x z" by (auto simp: both_simps)
    then show ?thesis using v dt both_valid(2) IH [of y z v] by (simp add: value_matches_simps)
  next
    case (valid x y)
    then show ?thesis using v dt IH [of y e v] by (simp add: value_matches_simps)
  next
    case invariant
    then show ?thesis using invariant_sound dt v by blast
  qed
qed

end

section \<open>What the checker accepts at a boundary passes the test\<close>

lemma unsigned_simps:
  "has_unsigned_constraint (List_ty t) = has_unsigned_constraint t"
  "has_unsigned_constraint (Optional_ty t) = has_unsigned_constraint t"
  "has_unsigned_constraint (Result_ty t u) \<longleftrightarrow> has_unsigned_constraint t \<or> has_unsigned_constraint u"
  "has_unsigned_constraint (Map_ty t u) \<longleftrightarrow> has_unsigned_constraint t \<or> has_unsigned_constraint u"
  "has_unsigned_constraint (Record_ty fs) = list_ex (has_unsigned_constraint \<circ> snd) fs"
  "has_unsigned_constraint (Union_ty ms) = list_ex has_unsigned_constraint ms"
  "has_unsigned_constraint (Validated_ty v t) = has_unsigned_constraint t"
  "has_unsigned_constraint (Plain p) \<longleftrightarrow> p = UInt_ty"
  by (subst has_unsigned_constraint.simps; force simp: list_ex_iff)+

lemma integer_scalar: "integer_of v = Some i \<Longrightarrow> scalar_type v = Some Int_ty"
  by (cases v rule: integer_of.cases) auto

lemma int_domains_sound:
  assumes "int_domains a e" "\<not> has_unsigned_constraint e" "\<not> is_key v" "value_matches acc v a"
  shows "value_matches acc v e"
  using assms integer_scalar
  by (auto simp: int_domains_def unsigned_simps value_matches_simps plain_test_def split: option.splits)

context contract_test begin

lemma expected_plain_sound:
  assumes "data_type a" "data_type e" "plain_matches a e" "\<not> is_key v" "value_matches accepts v a"
  shows "value_matches accepts v e"
  using assms(3)
proof (cases rule: plain_matches_shapes)
  case (call k s)
  then show ?thesis using assms callable_scalar [of v k s] by (simp add: value_matches_simps plain_test_def)
next
  case (scalars p q)
  then show ?thesis using assms plain_matches_sound [of p q accepts v] by (simp add: value_matches_simps)
qed (use assms in \<open>simp_all add: value_matches_simps plain_test_def\<close>)

lemma expected_sound:
  "data_type a \<Longrightarrow> data_type e \<Longrightarrow> \<not> has_unsigned_constraint e \<Longrightarrow> matches_expected a e \<Longrightarrow>
    \<not> is_key v \<Longrightarrow> value_matches accepts v a \<Longrightarrow> value_matches accepts v e"
proof (induction "size a + size e" arbitrary: a e v rule: less_induct)
  case less
  note IH = less.hyps and dt = less.prems(1-3) and v = less.prems(5,6)
  show ?case
    using less.prems(4)
  proof (cases rule: expected_cases)
    case ints
    then show ?thesis using int_domains_sound dt v by blast
  next
    case recovery
    then show ?thesis using dt data_type_no_recovery by blast
  next
    case dynamic
    then show ?thesis using v by (simp add: is_dynamic_def value_matches_simps plain_test_def)
  next
    case (both_valid x y z)
    then have ae: "a = Validated_ty x y" "e = Validated_ty x z" by (auto simp: both_simps)
    then show ?thesis
      using v dt both_valid(2) IH [of y z v] by (simp add: value_matches_simps unsigned_simps)
  next
    case (unions as es)
    then have ae: "a = Union_ty as" by simp
    obtain m where m: "m \<in> set as" "value_matches accepts v m"
      using v ae by (auto simp: value_matches_simps list_ex_iff)
    then show ?thesis
      using unions(3) v(1) dt ae size_member [of m as] by (intro IH [of m e]) (auto simp: list_all_iff)
  next
    case (member es m)
    then have e: "e = Union_ty es" by simp
    have "value_matches accepts v m"
      using member v dt e size_member [of m es]
      by (intro IH [of a m]) (auto simp: list_all_iff unsigned_simps list_ex_iff)
    then show ?thesis using v member(2) e by (auto simp: value_matches_simps list_ex_iff)
  next
    case (wrapped x y)
    then consider "a = List_ty x" "e = List_ty y" | "a = Stream_ty x" "e = Stream_ty y"
      | "a = Set_ty x" "e = Set_ty y" by (auto simp: both_wrapped_iff)
    then show ?thesis
    proof cases
      case 1
      then show ?thesis
        using v dt wrapped(2) items_not_keys(1) stored_sound [of x y]
        by (auto simp: value_matches_simps elim!: all_of_mono)
    next
      case 2
      then show ?thesis using v stream_test [of v x y] by (simp add: value_matches_simps)
    next
      case 3
      then show ?thesis using v dt wrapped(2) key_stored [of x y] by simp
    qed
  next
    case (maps x y z w)
    then have ae: "a = Map_ty x y" "e = Map_ty z w" by (simp_all add: both_simps)
    have "x = z" using dt maps(2) ae key_invariant by simp
    then show ?thesis
      using v ae dt maps(3) items_not_keys(2) map_items_not_keys stored_sound [of y w]
      by (auto simp: value_matches_simps elim!: all_of_mono split: if_splits)
  next
    case (results x y z w)
    then have ae: "a = Result_ty x y" "e = Result_ty z w" by (simp_all add: both_simps)
    obtain s u where r: "result_of v = Some (s, u)" "value_matches accepts u (if s then x else y)"
      using v ae by (auto simp: value_matches_simps split: option.splits)
    then have "value_matches accepts u (if s then z else w)"
      using dt ae results(2,3) result_not_key [OF r(1)] IH [of x z u] IH [of y w u]
      by (cases s) (simp_all add: unsigned_simps)
    then show ?thesis using v r ae by (simp add: value_matches_simps)
  next
    case (records as es)
    then have ae: "a = Record_ty as" "e = Record_ty es" by (simp_all add: both_simps)
    have "\<exists>w. field_of v n = Some w \<and> value_matches accepts w t" if nt: "(n, t) \<in> set es" for n t
    proof -
      obtain u where u: "map_of as n = Some u" "matches_expected u t"
        using records(2) nt by (auto simp: list_all_iff split: option.splits)
      then have mem: "(n, u) \<in> set as" by (simp add: map_of_SomeD)
      then obtain w where w: "field_of v n = Some w" "value_matches accepts w u"
        using v ae by (fastforce simp: value_matches_simps list_all_iff split: option.splits)
      have "data_type u" "data_type t" "\<not> has_unsigned_constraint t"
        using dt ae mem nt by (auto simp: list_all_iff unsigned_simps list_ex_iff)
      moreover have "size u + size t < size a + size e"
        using size_field [OF mem] size_field [OF nt] ae by simp
      ultimately have "value_matches accepts w t" using IH [of u t w] u w field_not_key by blast
      with w show ?thesis by blast
    qed
    then show ?thesis using v ae by (fastforce simp: value_matches_simps list_all_iff)
  next
    case (modules as x es y)
    then show ?thesis using dt by (simp add: both_simps)
  next
    case (callables k s l r)
    then show ?thesis
      using v callable_test [of v k s r] callable_mismatch_kind [of l r k s True]
      by (simp add: both_simps value_matches_simps)
  next
    case plain
    then show ?thesis using expected_plain_sound dt v by blast
  next
    case (optionals x y)
    then show ?thesis using v dt stored_sound [of x y v] by (auto simp: value_matches_simps)
  next
    case (optional y)
    then show ?thesis using v dt IH [of a y v] by (simp add: value_matches_simps unsigned_simps)
  next
    case (valid x y)
    then show ?thesis using v dt IH [of y e v] by (simp add: value_matches_simps)
  qed (use v in simp)
qed

text \<open>A failed test leaves the members the test does not cover.\<close>

lemma union_without_sound:
  assumes "data_type (Union_ty ms)" "data_type t" "\<not> has_unsigned_constraint t" "\<not> is_key v"
    and "value_matches accepts v (Union_ty ms)" "\<not> value_matches accepts v t"
  shows "\<exists>r. union_without (Union_ty ms) t = Some r \<and> value_matches accepts v r"
proof -
  obtain m where m: "m \<in> set ms" "value_matches accepts v m"
    using assms by (auto simp: value_matches_simps list_ex_iff)
  then have "\<not> matches_expected m t"
    using expected_sound [of m t v] assms by (auto simp: list_all_iff)
  with m obtain rest where rest: "filter (\<lambda>m. \<not> matches_expected m t) ms = rest" "m \<in> set rest"
    by simp
  then have "union_without (Union_ty ms) t =
      (case rest of [] \<Rightarrow> None | [w] \<Rightarrow> Some w | _ \<Rightarrow> Some (Union_ty rest))"
    by (simp add: union_without_def split: list.splits)
  with rest(2) show ?thesis
    using m(2) assms(4) by (auto simp: value_matches_simps list_ex_iff split: list.splits)
qed

end

interpretation runtime_test: contract_test runtime_contract_matches
  by unfold_locales simp_all

interpretation static_test: contract_test static_contract_matches
  by unfold_locales (simp_all add: static_contract_matches_def)

section \<open>Properties\<close>


definition ids_ty :: ty where
  "ids_ty = Record_ty [(''ids'', Validated_ty NonEmpty (List_ty (Plain UInt_ty))),
                       (''path'', rel_path_ty)]"

definition ids_base_ty :: ty where
  "ids_base_ty = Record_ty [(''ids'', List_ty (Plain UInt_ty)), (''path'', Plain Path_ty)]"

definition ids_value :: view where
  "ids_value = Lowered (RecordVec_l [(''ids'', SharedList_l [Int_l 7]), (''path'', Path_l [97])])"

lemma list_all_simps2: "list_all P [] = True" "list_all P (x # xs) \<longleftrightarrow> P x \<and> list_all P xs"
  by simp_all

lemma stored_wrapped:
  "matches_stored (List_ty a) (List_ty e) = matches_stored a e"
  "matches_stored (Optional_ty a) (Optional_ty e) = matches_stored a e"
  "matches_stored (Validated_ty v a) (List_ty e) = matches_stored a (List_ty e)"
  "matches_stored (Validated_ty v a) (Plain p) = matches_stored a (Plain p)"
  by (subst matches_stored.simps; simp add: both_wrapped_def)+

lemma stored_record:
  "matches_stored (Record_ty as) (Record_ty es) \<longleftrightarrow> length as = length es \<and>
     list_all (\<lambda>(n, t). case map_of as n of None \<Rightarrow> False | Some u \<Rightarrow> matches_stored u t) es"
  by (subst matches_stored.simps) (simp add: both_wrapped_def)

lemmas stored_eval = stored_wrapped stored_record stored_plain invariant_plain expected_plain
  int_domains_def




text \<open>When a type test on a value of a union type fails, the value passes the test of what the
  checker says is left (\<open>union_without\<close>); in particular the test does not cover every member.\<close>

theorem failed_test_narrows:
  assumes "data_type (Union_ty ms)" "data_type t" "\<not> has_unsigned_constraint t" "\<not> is_key v"
    and "value_matches_runtime_type v (Union_ty ms)" "\<not> value_matches_runtime_type v t"
  shows "\<exists>r. union_without (Union_ty ms) t = Some r \<and> value_matches_runtime_type v r"
  using assms unfolding value_matches_runtime_type_def by (rule runtime_test.union_without_sound)

theorem failed_test_narrows_witness:
  "\<exists>r. union_without (Union_ty [Plain Str_ty, Plain Int_ty, Plain Path_ty]) (Plain Str_ty) = Some r \<and>
     value_matches_runtime_type (Lowered (Int_l 3)) r"
  by (rule failed_test_narrows)
    (simp_all add: member_reason_def unsigned_simps value_matches_runtime_type_def
      value_matches_simps plain_test_def)

text \<open>The checker lets a record type stand for the dynamic \<open>Record\<close>, but the statistics
  record of the executor, which passes the test of record types, fails the test of \<open>Record\<close>.\<close>

theorem stats_record_is_not_erased:
  "value_matches_runtime_type (Lowered (Stats_l b c d)) (Record_ty [(''code'', Plain Int_ty)]) \<and>
   matches_expected (Record_ty [(''code'', Plain Int_ty)]) (Plain ErasedRecord_ty) \<and>
   \<not> value_matches_runtime_type (Lowered (Stats_l b c d)) (Plain ErasedRecord_ty)"
proof (intro conjI)
  show "matches_expected (Record_ty [(''code'', Plain Int_ty)]) (Plain ErasedRecord_ty)"
    by (simp add: matches_expected.simps both_wrapped_def is_recovery_def is_dynamic_def)
qed (simp_all add: value_matches_runtime_type_def value_matches_simps plain_test_def stats_field_def)

text \<open>A module type that may lack an export fits a contract that requires it, although a
  module without the export passes the test of the first type and fails the test of the second.\<close>

theorem optional_export_fits_required:
  "matches_expected (Module_ty [(''x'', Value_export t True)] False)
     (Module_ty [(''x'', Value_export t False)] False) \<and>
   value_matches_runtime_type (Lowered (Module_l [])) (Module_ty [(''x'', Value_export t True)] False) \<and>
   \<not> value_matches_runtime_type (Lowered (Module_l [])) (Module_ty [(''x'', Value_export t False)] False)"
proof (intro conjI)
  have "matches_expected t t" by (simp add: matches_expected.simps)
  then show "matches_expected (Module_ty [(''x'', Value_export t True)] False)
     (Module_ty [(''x'', Value_export t False)] False)"
    by (subst matches_expected.simps) (simp add: both_wrapped_def is_recovery_def is_dynamic_def)
qed (simp_all add: value_matches_runtime_type_def value_matches.simps)

text \<open>A contract's parameter types are compared in the direction of results: an export that
  requires a non-empty list satisfies a contract whose callers may pass any list, and the export
  that takes any list does not satisfy the contract that only passes non-empty ones.\<close>

theorem contract_parameters_covariant:
  "signature_mismatch
     (Signature [Param n (non_empty_ty t) False False] (Plain Unit_ty) Unknown)
     (Signature [Param n (List_ty t) False False] (Plain Unit_ty) Unknown) = None \<and>
   signature_mismatch
     (Signature [Param n (List_ty t) False False] (Plain Unit_ty) Unknown)
     (Signature [Param n (non_empty_ty t) False False] (Plain Unit_ty) Unknown) =
   Some (Sig_parameter 1)"
proof -
  have eq: "matches_expected u u" for u by (simp add: matches_expected.simps)
  have "matches_expected (non_empty_ty t) (List_ty t)"
    by (subst matches_expected.simps) (simp add: non_empty_ty_def both_wrapped_def eq is_dynamic_def)
  moreover have "\<not> matches_expected (List_ty t) (non_empty_ty t)"
    by (subst matches_expected.simps)
      (simp add: non_empty_ty_def both_wrapped_def is_dynamic_def is_recovery_def int_domains_def)
  ultimately show ?thesis
    by (simp add: signature_mismatch_def eq callable_effects_match_def)
qed

end
