(* ===== verification/Xsh_Schema_Correct.thy ===== *)
theory Xsh_Schema_Correct
  imports Xsh_Schema Xsh_Values_Correct
begin

text \<open>
  What the decoder of prepared schemas guarantees: the decoded value passes the runtime test of
  the schema's type, and the policies for unknown fields keep their promises.
\<close>

section \<open>Folds\<close>

lemma mapE_Inr:
  "mapE f xs = Inr ys \<Longrightarrow> y \<in> set ys \<Longrightarrow> \<exists>x \<in> set xs. f x = Inr y"
  by (induction xs arbitrary: ys) auto

lemma foldE_inv:
  assumes "foldE f xs s = Inr t" "P s"
    and "\<And>x u w. x \<in> set xs \<Longrightarrow> P u \<Longrightarrow> f x u = Inr w \<Longrightarrow> P w"
  shows "P t"
  using assms by (induction xs arbitrary: s) auto

lemma find_map_Some: "find_map f xs = Some y \<Longrightarrow> \<exists>x \<in> set xs. f x = Some y"
  by (induction xs) (auto split: option.splits)

lemma ok_value_Some [simp]: "ok_value r = Some a \<longleftrightarrow> r = Inr a"
  by (cases r) auto

section \<open>Record fields\<close>

lemma store_field_Some:
  "store_field n c fs = Some gs \<Longrightarrow> map_of gs n = Some c \<and> (m \<noteq> n \<longrightarrow> map_of gs m = map_of fs m)"
  by (induction fs arbitrary: gs) (auto split: if_splits)

lemma set_record_field_Inr:
  assumes "set_record_field v n c = Inr w"
  shows "record_field_value w n = Some c" "m \<noteq> n \<Longrightarrow> record_field_value w m = record_field_value v m"
    "is_record (Lowered w) False"
proof -
  obtain fs gs where fs: "store_field n c fs = Some gs"
    "\<And>k. record_field_value v k = map_of fs k" "w = Record_l gs \<or> w = RecordVec_l gs"
    using assms by (cases v) auto
  then show "record_field_value w n = Some c"
    "m \<noteq> n \<Longrightarrow> record_field_value w m = record_field_value v m" "is_record (Lowered w) False"
    using store_field_Some [OF fs(1)] by auto
qed

section \<open>Views that show the same\<close>

definition same_view :: "view \<Rightarrow> view \<Rightarrow> bool" where
  "same_view v w \<longleftrightarrow> \<not> is_key v \<and> \<not> is_key w \<and> scalar_type v = scalar_type w \<and>
     integer_of v = integer_of w \<and> path_bytes v = path_bytes w \<and> list_len v = list_len w \<and>
     list_items v = list_items w \<and> set_items v = set_items w \<and> map_fields v = map_fields w \<and>
     map_items v = map_items w \<and> record_values v = record_values w \<and>
     is_record v = is_record w \<and> field_of v = field_of w \<and> module_len v = module_len w \<and>
     result_of v = result_of w \<and> error_of v = error_of w \<and> stream_of v = stream_of w"

lemma same_view_passes: "same_view v w \<Longrightarrow> passes v x = passes w x"
  by (cases x) (auto simp: same_view_def)

lemma same_view_contract: "same_view v w \<Longrightarrow> runtime_contract_matches v = runtime_contract_matches w"
proof
  fix c
  assume "same_view v w"
  then show "runtime_contract_matches v c = runtime_contract_matches w c"
    by (cases c) (auto simp: same_view_def)
qed

lemma same_view_matches:
  "same_view v w \<Longrightarrow> value_matches_runtime_type v t = value_matches_runtime_type w t"
proof (induction "size t" arbitrary: t rule: less_induct)
  case less
  note same = same_view_contract [OF less.prems] same_view_passes [OF less.prems]
    less.prems [unfolded same_view_def]
  have IH: "size u < size t \<Longrightarrow> value_matches runtime_contract_matches v u =
      value_matches runtime_contract_matches w u" for u
    using less.hyps less.prems by (simp add: value_matches_runtime_type_def)
  show ?case
  proof (cases t)
    case (Union_ty ms)
    have "list_ex (value_matches runtime_contract_matches v) ms =
        list_ex (value_matches runtime_contract_matches w) ms"
      using IH Union_ty size_member by (auto simp: list_ex_iff)
    then show ?thesis using same Union_ty by (simp add: value_matches_runtime_type_def value_matches_simps)
  next
    case (Plain p)
    have "plain_test runtime_contract_matches v p = plain_test runtime_contract_matches w p"
      using same by (cases p) (simp_all add: plain_test_def)
    then show ?thesis using same Plain by (simp add: value_matches_runtime_type_def value_matches_simps)
  next
    case (Module_ty xs exact)
    then show ?thesis
      using same by (simp add: value_matches_runtime_type_def value_matches.simps [of _ _ "Module_ty xs exact"]
          cong: option.case_cong)
  qed (use same IH in \<open>simp_all add: value_matches_runtime_type_def value_matches_simps\<close>)
qed

lemma field_of_record:
  assumes "is_record (Lowered w) False" "record_field_value w n = Some c"
  shows "\<exists>u. field_of (Lowered w) n = Some u \<and>
    value_matches_runtime_type u t = value_matches_runtime_type (Lowered c) t"
proof -
  have "\<exists>u. field_of (Lowered w) n = Some u \<and> (u = Lowered c \<or> same_view u (Lowered c))"
    using assms
    by (cases w) (auto simp: stats_record_def stats_field_def same_view_def split: if_splits)
  then show ?thesis using same_view_matches by blast
qed

section \<open>What the decoder leaves unchanged\<close>

lemma lexical_value_False [simp]: "lexical_value ev s False v = v"
  by (simp add: lexical_value_def)

lemma explicit_stats_Preserve [simp]: "explicit_stats Preserve v = v"
  by (cases v) auto

fun field_step ::
  "decoder \<Rightarrow> value_path \<Rightarrow> name \<times> schema \<Rightarrow> lowered \<times> (name \<times> lowered) list \<Rightarrow>
     decode_error + lowered \<times> (name \<times> lowered) list" where
  "field_step ev path (n, s) (value, projected) =
     (case record_field_value value n of
        None \<Rightarrow> Inl (Schema_failure path)
      | Some selected \<Rightarrow>
          bindE (decode_policy ev s selected (path @ [P_field n]) Preserve False)
            (\<lambda>converted.
              if rebuilds_value s then
                bindE (set_record_field value n converted) (\<lambda>value'. Inr (value', projected))
              else Inr (value, projected)))"

lemma decode_record:
  "decode_policy ev (Record_schema fs) v path Preserve False = Inr w \<longleftrightarrow>
     has_fields fs v \<and> (\<exists>p. foldE (field_step ev path) fs (v, []) = Inr (w, p))"
proof -
  have step: "(\<lambda>(n, fs_n) (value, projected).
      case record_field_value value n of
        None \<Rightarrow> Inl (Schema_failure path)
      | Some selected \<Rightarrow>
          bindE (decode_policy ev fs_n selected (path @ [P_field n]) Preserve False)
            (\<lambda>converted.
              if Preserve = Strip then Inr (value, projected @ [(n, converted)])
              else if False \<or> Preserve \<noteq> Preserve \<or> rebuilds_value fs_n then
                bindE (set_record_field value n converted) (\<lambda>value'. Inr (value', projected))
              else Inr (value, projected))) = field_step ev path"
    by (intro ext) (simp split: prod.splits cong: option.case_cong)
  show ?thesis
    by (subst decode_policy.simps) (auto simp: Let_def step)
qed

text \<open>A schema that rebuilds nothing returns the value it accepts.\<close>

lemma decode_keeps:
  "\<not> rebuilds_value s \<Longrightarrow> decode_policy ev s v path Preserve False = Inr w \<Longrightarrow> w = v"
proof (induction "size s" arbitrary: s v path w rule: less_induct)
  case less
  note dec = less.prems(2) [unfolded decode_policy.simps [of ev s]]
  show ?case
  proof (cases s)
    case (Validate t)
    then show ?thesis using dec by (auto simp: decode_leaf_def split: option.splits if_splits)
  next
    case (Record_schema fs)
    have keep: "p' = p" if "x \<in> set fs" "field_step ev path x p = Inr p'" for x p p'
    proof -
      obtain n fs_n where x: "x = (n, fs_n)" by (cases x)
      then have "\<not> rebuilds_value fs_n"
        using that(1) less.prems(1) Record_schema by (force simp: list_ex_iff)
      then show ?thesis using that(2) x by (cases p) (auto split: option.splits)
    qed
    obtain p where "foldE (field_step ev path) fs (v, []) = Inr (w, p)"
      using less.prems(2) Record_schema decode_record by blast
    then have "(w, p) = (v, [])" by (rule foldE_inv) (use keep in auto)
    then show ?thesis by simp
  next
    case (Optional_schema inner)
    then show ?thesis using dec less.hyps [of inner] less.prems(1) by (auto split: if_splits)
  next
    case (Union_schema t ms)
    then obtain m where "m \<in> set ms" "decode_policy ev m v path Preserve False = Inr w"
      using dec by (auto dest!: find_map_Some)
    then show ?thesis
      using less.hyps [of m] less.prems(1) Union_schema size_member [of m ms] by (auto simp: list_ex_iff)
  next
    case (Validated_schema t inner)
    then show ?thesis
      using dec less.hyps [of inner] less.prems(1)
      by (auto split: option.splits if_splits prod.splits)
  qed (use less.prems(1) in simp_all)
qed

section \<open>Decoded values have the type\<close>

fun no_module :: "lowered \<Rightarrow> bool" where
  "no_module (Module_l fs) = False"
| "no_module (Record_l fs) = list_all (\<lambda>(n, v). no_module v) fs"
| "no_module (RecordVec_l fs) = list_all (\<lambda>(n, v). no_module v) fs"
| "no_module (List_l vs) = list_all no_module vs"
| "no_module (SharedList_l vs) = list_all no_module vs"
| "no_module (Map_l m) = list_all (\<lambda>(k, v). no_module v) m"
| "no_module (StatsBlob_l b m c d) = list_all (\<lambda>(k, v). no_module v) m"
| "no_module _ = True"

function distinct_fields :: "ty \<Rightarrow> bool" where
  "distinct_fields t \<longleftrightarrow>
     (case t of Record_ty fs \<Rightarrow> distinct (map fst fs) | _ \<Rightarrow> True) \<and>
     list_all distinct_fields (data_children t)"
  by pat_completeness auto
termination by (relation "measure size") (auto intro: size_data_child)

declare distinct_fields.simps [simp del]

definition wire_enums_ok :: "(name \<Rightarrow> wire_mapping option) \<Rightarrow> bool" where
  "wire_enums_ok enums \<longleftrightarrow> (\<forall>n m. enums n = Some m \<longrightarrow> wire_type m = n)"

lemma key_matches_runtime:
  "map_key_matches_type k t \<Longrightarrow> value_matches_runtime_type (Key k) t"
  by (auto simp: map_key_matches_type_def value_matches_static_type_def value_matches_runtime_type_def
      value_matches.simps key_testable_def plain_test_def split: if_splits)

lemma field_no_module: "no_module v \<Longrightarrow> record_field_value v n = Some w \<Longrightarrow> no_module w"
  by (cases v) (auto simp: list_all_iff stats_record_def split: if_splits dest!: map_of_SomeD)

lemma list_no_module: "no_module v \<Longrightarrow> list_payload v = Some ws \<Longrightarrow> w \<in> set ws \<Longrightarrow> no_module w"
  by (cases v) (auto simp: list_all_iff)

lemma bt_insert_entries: "(j, w) \<in> set (bt_insert k v m) \<Longrightarrow> (j, w) = (k, v) \<or> (j, w) \<in> set m"
  by (induction m) (auto split: if_splits)

lemma fold_insert_entries:
  "(j, w) \<in> set (fold (\<lambda>(n, u) m. bt_insert (Str_key n) u m) fs m) \<Longrightarrow>
     (j, w) \<in> set m \<or> (\<exists>n. (n, w) \<in> set fs)"
proof (induction fs arbitrary: m)
  case (Cons f fs)
  obtain n u where f: "f = (n, u)" by (cases f)
  then have "(j, w) \<in> set (bt_insert (Str_key n) u m) \<or> (\<exists>n. (n, w) \<in> set fs)"
    using Cons.IH [of "bt_insert (Str_key n) u m"] Cons.prems by simp
  then show ?case using f bt_insert_entries by fastforce
qed simp

lemma map_no_module:
  "no_module v \<Longrightarrow> map_payload k v = Some m \<Longrightarrow> (j, w) \<in> set m \<Longrightarrow> no_module w"
  by (cases v; fastforce simp: map_payload_def list_all_iff split: if_splits dest!: fold_insert_entries)

lemma record_loop:
  assumes "foldE (field_step ev path) (map (\<lambda>(n, u). (n, compile u)) fs) (v, p) = Inr (w, q)"
    and "distinct (map fst fs)" "is_record (Lowered v) False"
    and "\<And>n u sel path' c. (n, u) \<in> set fs \<Longrightarrow> record_field_value v n = Some sel \<Longrightarrow>
      decode_policy ev (compile u) sel path' Preserve False = Inr c \<Longrightarrow> ok (Lowered c) u"
  shows "is_record (Lowered w) False \<and>
    (\<forall>n. n \<notin> fst ` set fs \<longrightarrow> record_field_value w n = record_field_value v n) \<and>
    (\<forall>(n, u) \<in> set fs. \<exists>c. record_field_value w n = Some c \<and> ok (Lowered c) u)"
  using assms
proof (induction fs arbitrary: v p)
  case (Cons f fs)
  obtain n u where f: "f = (n, u)" by (cases f)
  obtain sel c where c: "record_field_value v n = Some sel"
    "decode_policy ev (compile u) sel (path @ [P_field n]) Preserve False = Inr c"
    using Cons.prems(1) f by (auto simp: bindE_eq_Inr split: option.splits)
  obtain v1 where v1: "foldE (field_step ev path) (map (\<lambda>(n, u). (n, compile u)) fs) (v1, p) = Inr (w, q)"
    "if rebuilds_value (compile u) then set_record_field v n c = Inr v1 else v1 = v"
    using Cons.prems(1) f c by (auto simp: bindE_eq_Inr split: if_splits)
  have n: "record_field_value v1 n = Some c" "is_record (Lowered v1) False"
    and other: "\<And>m. m \<noteq> n \<Longrightarrow> record_field_value v1 m = record_field_value v m"
    using v1(2) c Cons.prems(3) set_record_field_Inr [of v n c v1] decode_keeps [OF _ c(2)]
    by (auto split: if_splits)
  have IH: "is_record (Lowered w) False \<and>
    (\<forall>n. n \<notin> fst ` set fs \<longrightarrow> record_field_value w n = record_field_value v1 n) \<and>
    (\<forall>(n, u) \<in> set fs. \<exists>c. record_field_value w n = Some c \<and> ok (Lowered c) u)"
  proof (rule Cons.IH [OF v1(1) _ n(2)])
    fix m t sel' path' d
    assume m: "(m, t) \<in> set fs" "record_field_value v1 m = Some sel'"
      "decode_policy ev (compile t) sel' path' Preserve False = Inr d"
    then have "m \<noteq> n" using Cons.prems(2) f by (auto simp: image_iff)
    then show "ok (Lowered d) t" using Cons.prems(4) [of m t sel' path' d] m other by simp
  qed (use Cons.prems(2) in simp)
  moreover have "n \<notin> fst ` set fs" using Cons.prems(2) f by simp
  moreover have "ok (Lowered c) u" using Cons.prems(4) [OF _ c] f by simp
  ultimately show ?case using n other f by auto
qed simp

lemma decode_wire_tag:
  "decode_wire m v path = Inr w \<Longrightarrow> value_matches_runtime_type (Lowered w) (Plain (Tag_ty (wire_type m)))"
  by (auto simp: decode_wire_def value_matches_runtime_type_def value_matches_simps plain_test_def
      split: if_splits option.splits lowered.splits)

lemma decode_set_elements:
  assumes "decode_set t v path = Inr w"
  shows "value_matches_runtime_type (Lowered w) (Set_ty t)"
proof -
  have "\<exists>ks. w = Set_l ks \<and> list_all (\<lambda>k. map_key_matches_type k t) ks"
  proof (cases "\<exists>ks. v = Set_l ks")
    case True
    then show ?thesis using assms by (auto simp: decode_set_def split: if_splits)
  next
    case False
    then obtain items ks where ks: "foldE (set_element t path) (enumerate 0 items) [] = Inr ks"
      "w = Set_l ks"
      using assms by (cases v) (auto simp: decode_set_def bindE_eq_Inr)
    from ks(1) have "list_all (\<lambda>k. map_key_matches_type k t) ks"
      by (rule foldE_inv) (auto simp: set_element_def list_all_iff split: option.splits if_splits)
    then show ?thesis using ks(2) by blast
  qed
  then show ?thesis
    using key_matches_runtime
    by (auto simp: value_matches_runtime_type_def value_matches_simps all_of_def list_all_iff)
qed

lemma decode_leaf_type:
  "no_module v \<Longrightarrow> decode_leaf ev t v path = Inr w \<Longrightarrow> value_matches_runtime_type (Lowered w) t"
  by (cases v) (auto simp: decode_leaf_def module_check_def split: if_splits)

lemma record_type_test:
  assumes "is_record (Lowered w) False"
    "\<forall>(n, u) \<in> set fs. \<exists>c. record_field_value w n = Some c \<and> value_matches_runtime_type (Lowered c) u"
  shows "value_matches_runtime_type (Lowered w) (Record_ty fs)"
proof -
  have "\<exists>x. field_of (Lowered w) n = Some x \<and> value_matches_runtime_type x u" if "(n, u) \<in> set fs" for n u
    using field_of_record [OF assms(1), of n _ u] assms(2) that by fastforce
  then show ?thesis
    using assms(1) by (fastforce simp: value_matches_runtime_type_def value_matches_simps list_all_iff)
qed

fun map_step ::
  "decoder \<Rightarrow> ty \<Rightarrow> schema \<Rightarrow> value_path \<Rightarrow> map_key \<times> lowered \<Rightarrow> (map_key, lowered) btree \<Rightarrow>
     decode_error + (map_key, lowered) btree" where
  "map_step ev k s path (j, item) converted =
     (if \<not> map_key_matches_type j k then Inl (Schema_failure path)
      else bindE (decode_policy ev s item (path @ [P_key j]) Preserve False)
        (\<lambda>w. Inr (bt_insert j w converted)))"

lemma decode_map:
  "decode_policy ev (Map_schema k s) v path Preserve False = Inr w \<longleftrightarrow>
     (\<exists>items m. map_payload k v = Some items \<and> foldE (map_step ev k s path) items [] = Inr m \<and> w = Map_l m)"
proof -
  have step: "(\<lambda>(j, item) converted.
      if \<not> map_key_matches_type j k then Inl (Schema_failure path)
      else bindE (decode_policy ev s item (path @ [P_key j]) Preserve False)
        (\<lambda>w. Inr (bt_insert j w converted))) = map_step ev k s path"
    by (intro ext) (simp split: prod.splits)
  show ?thesis
    by (subst decode_policy.simps) (auto simp: step bindE_eq_Inr split: option.splits)
qed

lemma map_step_entries:
  assumes "foldE (map_step ev k s path) items [] = Inr m"
    and "\<And>j item path' y. (j, item) \<in> set items \<Longrightarrow>
      decode_policy ev s item path' Preserve False = Inr y \<Longrightarrow> ok y"
  shows "\<forall>(j, x) \<in> set m. map_key_matches_type j k \<and> ok x"
  using assms(1)
proof (rule foldE_inv)
  fix x u u'
  assume x: "x \<in> set items" and u: "\<forall>(j, y) \<in> set u. map_key_matches_type j k \<and> ok y"
    and step: "map_step ev k s path x u = Inr u'"
  obtain j item y where y: "x = (j, item)" "map_key_matches_type j k" "u' = bt_insert j y u"
    "decode_policy ev s item (path @ [P_key j]) Preserve False = Inr y"
    using step by (cases x) (auto simp: bindE_eq_Inr split: if_splits)
  then have "ok y" using assms(2) x by blast
  then show "\<forall>(j, y) \<in> set u'. map_key_matches_type j k \<and> ok y"
    using u y bt_insert_entries by fastforce
qed simp

lemma decode_has_type:
  "decode_policy ev (compile_policy t enums Preserve) v path Preserve False = Inr w \<Longrightarrow>
    wire_enums_ok enums \<Longrightarrow> distinct_fields t \<Longrightarrow> no_module v \<Longrightarrow>
    value_matches_runtime_type (Lowered w) t"
proof (induction "size t" arbitrary: t v path w rule: less_induct)
  case less
  note IH = less.hyps and enums = less.prems(2) and nm = less.prems(4)
  have dist: "distinct_fields c" if "c \<in> set (data_children t)" for c
    using less.prems(3) that by (subst (asm) distinct_fields.simps) (simp add: list_all_iff)
  note dec = less.prems(1) [unfolded compile_policy.simps [of t]]
  note eval = decode_policy.simps [of _ "Validate u" for u] decode_policy.simps [of _ "Wire_schema u" for u]
    decode_policy.simps [of _ "Set_schema u" for u] decode_policy.simps [of _ "Optional_schema u" for u]
    decode_policy.simps [of _ "Union_schema u x" for u x] decode_policy.simps [of _ "Validated_schema u x" for u x]
    decode_policy.simps [of _ "List_schema u" for u] decode_policy.simps [of _ "Map_schema u x" for u x]
  have leaf: ?case if "decode_policy ev (Validate t) v path Preserve False = Inr w"
    using that nm decode_leaf_type by (simp add: eval)
  show ?case
  proof (cases t)
    case (Plain p)
    show ?thesis
    proof (cases "\<exists>n m. p = Tag_ty n \<and> enums n = Some m")
      case True
      then obtain n m where m: "p = Tag_ty n" "enums n = Some m" by blast
      then have "decode_wire m v path = Inr w" using dec Plain by (simp add: eval)
      then show ?thesis
        using decode_wire_tag [of m v path w] m enums Plain by (simp add: wire_enums_ok_def)
    next
      case False
      then have "decode_policy ev (Validate t) v path Preserve False = Inr w"
        using dec Plain by (cases p) (auto split: option.splits)
      then show ?thesis by (rule leaf)
    qed
  next
    case (List_ty i)
    then obtain items ws where ws: "list_payload v = Some items" "w = List_l ws"
      "mapE (\<lambda>(k, item). decode_policy ev (compile_policy i enums Preserve) item (path @ [P_index k])
         Preserve False) (enumerate 0 items) = Inr ws"
      using dec by (auto simp: eval bindE_eq_Inr split: option.splits)
    have "value_matches_runtime_type (Lowered x) i" if "x \<in> set ws" for x
    proof -
      obtain k item where "(k, item) \<in> set (enumerate 0 items)"
        "decode_policy ev (compile_policy i enums Preserve) item (path @ [P_index k]) Preserve False = Inr x"
        using mapE_Inr [OF ws(3) \<open>x \<in> set ws\<close>] by auto
      moreover from this have "no_module item"
        using list_no_module [OF nm ws(1)] by (auto simp: in_set_enumerate_eq)
      ultimately show ?thesis using IH [of i] enums dist [of i] List_ty by simp
    qed
    then show ?thesis
      using ws List_ty
      by (auto simp: value_matches_runtime_type_def value_matches_simps all_of_def list_all_iff)
  next
    case (Map_ty k i)
    then obtain items m where m: "map_payload k v = Some items" "w = Map_l m"
      "foldE (map_step ev k (compile_policy i enums Preserve) path) items [] = Inr m"
      using dec by (auto simp: decode_map)
    from m(3) have "\<forall>(j, x) \<in> set m. map_key_matches_type j k \<and> value_matches_runtime_type (Lowered x) i"
    proof (rule map_step_entries)
      fix j item path' y
      assume "(j, item) \<in> set items"
        "decode_policy ev (compile_policy i enums Preserve) item path' Preserve False = Inr y"
      then show "value_matches_runtime_type (Lowered y) i"
        using IH [of i item path' y] enums dist [of i] Map_ty map_no_module [OF nm m(1)] by simp
    qed
    then show ?thesis
      using m(2) Map_ty key_matches_runtime
      by (fastforce simp: value_matches_runtime_type_def value_matches_simps all_of_def list_all_iff)
  next
    case (Set_ty e)
    then show ?thesis using dec decode_set_elements by (simp add: eval)
  next
    case (Optional_ty i)
    then show ?thesis
      using dec IH [of i v path w] enums dist [of i] nm
      by (auto simp: eval value_matches_runtime_type_def value_matches_simps split: if_splits)
  next
    case (Union_ty ms)
    then obtain m where m: "m \<in> set ms"
      "decode_policy ev (compile_policy m enums Preserve) v path Preserve False = Inr w"
      using dec by (auto simp: eval dest!: find_map_Some)
    then have "value_matches_runtime_type (Lowered w) m"
      using IH [of m v path w] enums dist [of m] nm Union_ty size_member [of m ms] by simp
    then show ?thesis
      using m(1) Union_ty by (auto simp: value_matches_runtime_type_def value_matches_simps list_ex_iff)
  next
    case (Validated_ty x base)
    then have "decode_policy ev (compile_policy base enums Preserve) v path Preserve False = Inr w"
      "passes (Lowered w) x"
      using dec by (auto simp: eval bindE_eq_Inr split: if_splits)
    then show ?thesis
      using IH [of base v path w] enums dist [of base] nm Validated_ty
      by (simp add: value_matches_runtime_type_def value_matches_simps)
  next
    case (Record_ty fs)
    show ?thesis
    proof (cases "fs = []")
      case True
      then show ?thesis using leaf dec Record_ty by simp
    next
      case False
      then obtain q where q: "has_fields (map (\<lambda>(n, u). (n, compile_policy u enums Preserve)) fs) v"
        "foldE (field_step ev path) (map (\<lambda>(n, u). (n, compile_policy u enums Preserve)) fs) (v, []) = Inr (w, q)"
        using dec Record_ty by (auto simp: decode_record)
      have "distinct (map fst fs)" "is_record (Lowered v) False"
        using less.prems(3) Record_ty distinct_fields.simps [of t] q(1) nm
        by (auto simp: has_fields_def split: lowered.splits)
      then have "is_record (Lowered w) False \<and>
        (\<forall>n. n \<notin> fst ` set fs \<longrightarrow> record_field_value w n = record_field_value v n) \<and>
        (\<forall>(n, u) \<in> set fs. \<exists>c. record_field_value w n = Some c \<and> value_matches_runtime_type (Lowered c) u)"
      proof (rule record_loop [OF q(2)])
        fix n u sel path' c
        assume "(n, u) \<in> set fs" "record_field_value v n = Some sel"
          "decode_policy ev (compile_policy u enums Preserve) sel path' Preserve False = Inr c"
        then show "value_matches_runtime_type (Lowered c) u"
          using IH [of u sel path' c] enums dist [of u] field_no_module [OF nm] Record_ty size_field [of n u fs]
          by force
      qed
      then show ?thesis using record_type_test Record_ty by blast
    qed
  qed (use leaf dec in simp_all)
qed

section \<open>Properties\<close>


definition no_decoder :: decoder where
  "no_decoder = \<lparr>captured_signature = (\<lambda>v. None), retained_signature = (\<lambda>v. Inl Indexed_ir),
     generic_matches = (\<lambda>v k. Inl Indexed_ir), parse_f64 = (\<lambda>t. None)\<rparr>"

definition tags_ty :: ty where
  "tags_ty = Record_ty [(''tags'', Validated_ty NonEmpty (List_ty (Plain Str_ty)))]"

lemma decode_steps:
  "decode_policy ev (Validate t) v path policy False = decode_leaf ev t v path"
  "decode_policy ev (List_schema s) v path policy False =
     (case list_payload v of
        None \<Rightarrow> Inl (Schema_failure path)
      | Some items \<Rightarrow>
          bindE (mapE (\<lambda>(i, item). decode_policy ev s item (path @ [P_index i]) policy False)
            (enumerate 0 items)) (\<lambda>vs. Inr (List_l vs)))"
  "decode_policy ev (Validated_schema t s) v path policy False =
     bindE (decode_policy ev s v path policy False) (\<lambda>d.
       case validated t of
         Some (w, base) \<Rightarrow> if passes (Lowered d) w then Inr d else Inl (Schema_failure path)
       | None \<Rightarrow> Inr d)"
  by (subst decode_policy.simps; simp)+


lemma projected_names:
  assumes "foldE f fs (v, p) = Inr (w, q)"
    and "\<And>n s a b a' b'. f (n, s) (a, b) = Inr (a', b') \<Longrightarrow> map fst b' = map fst b @ [n]"
  shows "map fst q = map fst p @ map fst fs"
  using assms(1)
proof (induction fs arbitrary: v p)
  case (Cons x fs)
  obtain n s where x: "x = (n, s)" by (cases x)
  obtain v1 p1 where 1: "f (n, s) (v, p) = Inr (v1, p1)" "foldE f fs (v1, p1) = Inr (w, q)"
    using Cons.prems x by (auto simp: bindE_eq_Inr)
  then show ?case using Cons.IH [OF 1(2)] assms(2) [OF 1(1)] x by simp
qed simp

fun strip_step ::
  "decoder \<Rightarrow> value_path \<Rightarrow> bool \<Rightarrow> name \<times> schema \<Rightarrow> lowered \<times> (name \<times> lowered) list \<Rightarrow>
     decode_error + lowered \<times> (name \<times> lowered) list" where
  "strip_step ev path lexical (n, s) (value, projected) =
     (case record_field_value value n of
        None \<Rightarrow> Inl (Schema_failure path)
      | Some selected \<Rightarrow>
          bindE (decode_policy ev s selected (path @ [P_field n]) Strip lexical)
            (\<lambda>converted. Inr (value, projected @ [(n, converted)])))"

lemma decode_record_strip:
  assumes "decode_policy ev (Record_schema fs) (RecordVec_l r) path Strip lexical = Inr w"
  shows "\<exists>v q. foldE (strip_step ev path lexical) fs (RecordVec_l r, []) = Inr (v, q) \<and> w = RecordVec_l q"
proof -
  have step: "(\<lambda>(n, fs_n) (value, projected).
      case record_field_value value n of
        None \<Rightarrow> Inl (Schema_failure path)
      | Some selected \<Rightarrow>
          bindE (decode_policy ev fs_n selected (path @ [P_field n]) Strip lexical)
            (\<lambda>converted.
              if Strip = Strip then Inr (value, projected @ [(n, converted)])
              else if lexical \<or> Strip \<noteq> Preserve \<or> rebuilds_value fs_n then
                bindE (set_record_field value n converted) (\<lambda>value'. Inr (value', projected))
              else Inr (value, projected))) = strip_step ev path lexical"
    by (intro ext) (simp split: prod.splits cong: option.case_cong)
  show ?thesis
    using assms unfolding decode_policy.simps [of ev "Record_schema fs"] Let_def schema.case step
    by (auto simp: lexical_value_def bindE_eq_Inr has_fields_def split: if_splits)
qed

text \<open>The policies for unknown fields keep their promise: under \<open>Strip\<close> a decoded record has
  exactly the declared fields, in their order, and under \<open>Reject\<close> a record is decoded only when
  every field it has is declared.\<close>

theorem unknown_field_policies:
  assumes "decode_policy ev (Record_schema fs) (RecordVec_l r) path policy lexical = Inr w"
  shows "(policy = Strip \<longrightarrow> (\<exists>q. w = RecordVec_l q \<and> map fst q = map fst fs)) \<and>
    (policy = Reject \<longrightarrow> set (map fst r) \<subseteq> set (map fst fs))"
proof (intro conjI impI)
  assume "policy = Reject"
  then have "find (\<lambda>n. n \<notin> fst ` set fs) (map fst r) = None"
    using assms
    by (subst (asm) decode_policy.simps)
      (auto simp: Let_def lexical_value_def unexpected_field_def split: option.splits if_splits)
  then show "set (map fst r) \<subseteq> set (map fst fs)" by (auto simp: find_None_iff)
next
  assume strip: "policy = Strip"
  obtain v q where fold: "foldE (strip_step ev path lexical) fs (RecordVec_l r, []) = Inr (v, q)"
    and w: "w = RecordVec_l q"
    using assms strip decode_record_strip by blast
  have "map fst q = map fst ([] :: (name \<times> lowered) list) @ map fst fs"
    using fold by (rule projected_names) (auto simp: bindE_eq_Inr split: option.splits)
  with w show "\<exists>q. w = RecordVec_l q \<and> map fst q = map fst fs" by auto
qed

theorem unknown_field_policies_witness:
  "set (map fst [(''a'', Int_l 1)]) \<subseteq> set (map fst [(''a'', Validate (Plain Int_ty))])"
proof -
  have "decode_policy no_decoder (Record_schema [(''a'', Validate (Plain Int_ty))])
      (RecordVec_l [(''a'', Int_l 1)]) [] Reject False = Inr (RecordVec_l [(''a'', Int_l 1)])"
    by (subst decode_policy.simps)
      (simp add: Let_def lexical_value_def has_fields_def unexpected_field_def decode_steps decode_leaf_def
        module_check_def value_matches_runtime_type_def value_matches_simps plain_test_def)
  then show ?thesis using unknown_field_policies by blast
qed

end
