(* ===== verification/Xsh_Token.thy ===== *)
theory Xsh_Token
  imports Xsh_Text
begin

text \<open>
  Tokens of the language and the compact table that holds them (\<open>syntax/token.rs\<close>). The table has
  a tag and a start for every token, the starts in 16 bits while they fit, and a payload only where
  it is not zero; the end of a token is computed again from the source when it is asked for. An
  \<open>expect\<close> that fails is \<open>None\<close>. A \<open>Name\<close> is an interned text: the number the interner gives a
  text is the parameter \<open>symbol\<close>, and the text of a number is \<open>spelling\<close>.
\<close>

unbundle bit_operations_syntax

section \<open>Tags, keywords and kinds\<close>

datatype (plugins only: code size) token_tag =
    Ident_t | Proc_Ident_t | Keyword_t | Int_t | Float_t | Duration_t | String_t | Path_String_t
    | Glob_String_t | Env_String_t | Fmt_String_t | Path_Fmt_String_t | Bytes_t | Regex_t
    | Comment_t | Newline_t | LParen_t | RParen_t | LBrace_t | RBrace_t | LBracket_t | RBracket_t
    | Comma_t | Colon_t | Semicolon_t | Dot_t | At_t | Question_t | Question_Question_t
    | Last_Status_t | Dollar_LBrace_t | Dollar_Ident_t | Arrow_t | Fat_Arrow_t | Equals_t
    | Eq_Eq_t | Bang_t | Bang_Eq_t | Lt_t | Le_t | Gt_t | Ge_t | Plus_t | Minus_t | Star_t
    | Slash_t | Percent_t | Pipe_t | Pipe_Gt_t | Amp_t | Gt_Gt_t | Error_Gt_t | Error_Gt_Gt_t
    | Eof_t

datatype (plugins only: code size) keyword =
    And_kw | Assert_kw | Atomically_kw | Backoff_kw | Break_kw | Continue_kw | Defer_kw | Else_kw
    | Enum_kw | Errdefer_kw | Every_kw | Export_kw | False_kw | For_kw | Guard_kw | If_kw | In_kw
    | Let_kw | Const_kw | Loop_kw | Match_kw | Not_kw | Null_kw | Or_kw | Proc_kw | Pure_kw
    | Retry_kw | Try_kw | Return_kw | Run_kw | Spawn_kw | Stream_kw | True_kw | Type_kw
    | Unless_kw | Until_kw | Use_kw | Var_kw | Wait_kw | When_kw | While_kw | With_kw | Within_kw
    | Yield_kw

text \<open>\<open>String_k\<close> has \<open>has_interpolation\<close> and \<open>raw_literal\<close>, \<open>Fmt_String_k\<close> has \<open>raw_literal\<close>.\<close>

datatype (plugins only: code size) token_kind =
    Ident_k "u8 list" | Proc_Ident_k "u8 list" | Keyword_k keyword | Int_k | Float_k | Duration_k
    | String_k bool bool | Path_String_k | Glob_String_k | Env_String_k | Fmt_String_k bool
    | Path_Fmt_String_k | Bytes_k | Regex_k | Comment_k | Newline_k | LParen_k | RParen_k
    | LBrace_k | RBrace_k | LBracket_k | RBracket_k | Comma_k | Colon_k | Semicolon_k | Dot_k
    | At_k | Question_k | Question_Question_k | Last_Status_k | Dollar_LBrace_k
    | Dollar_Ident_k "u8 list" | Arrow_k | Fat_Arrow_k | Equals_k | Eq_Eq_k | Bang_k | Bang_Eq_k
    | Lt_k | Le_k | Gt_k | Ge_k | Plus_k | Minus_k | Star_k | Slash_k | Percent_k | Pipe_k
    | Pipe_Gt_k | Amp_k | Gt_Gt_k | Error_Gt_k | Error_Gt_Gt_k | Eof_k

definition fixed_text :: "token_tag \<Rightarrow> u8 list option" where
  "fixed_text tag =
     (case tag of
        LParen_t \<Rightarrow> Some (bytes_of ''('')
      | RParen_t \<Rightarrow> Some (bytes_of '')'')
      | LBrace_t \<Rightarrow> Some (bytes_of ''{'')
      | RBrace_t \<Rightarrow> Some (bytes_of ''}'')
      | LBracket_t \<Rightarrow> Some (bytes_of ''['')
      | RBracket_t \<Rightarrow> Some (bytes_of '']'')
      | Comma_t \<Rightarrow> Some (bytes_of '','')
      | Colon_t \<Rightarrow> Some (bytes_of '':'')
      | Semicolon_t \<Rightarrow> Some (bytes_of '';'')
      | Dot_t \<Rightarrow> Some (bytes_of ''.'')
      | At_t \<Rightarrow> Some (bytes_of ''@'')
      | Question_t \<Rightarrow> Some (bytes_of ''?'')
      | Question_Question_t \<Rightarrow> Some (bytes_of ''??'')
      | Last_Status_t \<Rightarrow> Some (bytes_of ''$?'')
      | Dollar_LBrace_t \<Rightarrow> Some (bytes_of ''${'')
      | Arrow_t \<Rightarrow> Some (bytes_of ''->'')
      | Fat_Arrow_t \<Rightarrow> Some (bytes_of ''=>'')
      | Equals_t \<Rightarrow> Some (bytes_of ''='')
      | Eq_Eq_t \<Rightarrow> Some (bytes_of ''=='')
      | Bang_t \<Rightarrow> Some (bytes_of ''!'')
      | Bang_Eq_t \<Rightarrow> Some (bytes_of ''!='')
      | Lt_t \<Rightarrow> Some (bytes_of ''<'')
      | Le_t \<Rightarrow> Some (bytes_of ''<='')
      | Gt_t \<Rightarrow> Some (bytes_of ''>'')
      | Ge_t \<Rightarrow> Some (bytes_of ''>='')
      | Plus_t \<Rightarrow> Some (bytes_of ''+'')
      | Minus_t \<Rightarrow> Some (bytes_of ''-'')
      | Star_t \<Rightarrow> Some (bytes_of ''*'')
      | Slash_t \<Rightarrow> Some (bytes_of ''/'')
      | Percent_t \<Rightarrow> Some (bytes_of ''%'')
      | Pipe_t \<Rightarrow> Some (bytes_of ''|'')
      | Pipe_Gt_t \<Rightarrow> Some (bytes_of ''|>'')
      | Amp_t \<Rightarrow> Some (bytes_of ''&'')
      | Gt_Gt_t \<Rightarrow> Some (bytes_of ''>>'')
      | Error_Gt_t \<Rightarrow> Some (bytes_of ''E>'')
      | Error_Gt_Gt_t \<Rightarrow> Some (bytes_of ''E>>'')
      | Eof_t \<Rightarrow> Some (bytes_of '''')
      | _ \<Rightarrow> None)"

definition fixed_width :: "token_tag \<Rightarrow> nat" where
  "fixed_width tag = (case fixed_text tag of None \<Rightarrow> 1 | Some text \<Rightarrow> length text)"

definition kind_tag :: "token_kind \<Rightarrow> token_tag" where
  "kind_tag kind =
     (case kind of
        Ident_k _ \<Rightarrow> Ident_t
      | Proc_Ident_k _ \<Rightarrow> Proc_Ident_t
      | Keyword_k _ \<Rightarrow> Keyword_t
      | Int_k \<Rightarrow> Int_t
      | Float_k \<Rightarrow> Float_t
      | Duration_k \<Rightarrow> Duration_t
      | String_k _ _ \<Rightarrow> String_t
      | Path_String_k \<Rightarrow> Path_String_t
      | Glob_String_k \<Rightarrow> Glob_String_t
      | Env_String_k \<Rightarrow> Env_String_t
      | Fmt_String_k _ \<Rightarrow> Fmt_String_t
      | Path_Fmt_String_k \<Rightarrow> Path_Fmt_String_t
      | Bytes_k \<Rightarrow> Bytes_t
      | Regex_k \<Rightarrow> Regex_t
      | Comment_k \<Rightarrow> Comment_t
      | Newline_k \<Rightarrow> Newline_t
      | LParen_k \<Rightarrow> LParen_t
      | RParen_k \<Rightarrow> RParen_t
      | LBrace_k \<Rightarrow> LBrace_t
      | RBrace_k \<Rightarrow> RBrace_t
      | LBracket_k \<Rightarrow> LBracket_t
      | RBracket_k \<Rightarrow> RBracket_t
      | Comma_k \<Rightarrow> Comma_t
      | Colon_k \<Rightarrow> Colon_t
      | Semicolon_k \<Rightarrow> Semicolon_t
      | Dot_k \<Rightarrow> Dot_t
      | At_k \<Rightarrow> At_t
      | Question_k \<Rightarrow> Question_t
      | Question_Question_k \<Rightarrow> Question_Question_t
      | Last_Status_k \<Rightarrow> Last_Status_t
      | Dollar_LBrace_k \<Rightarrow> Dollar_LBrace_t
      | Dollar_Ident_k _ \<Rightarrow> Dollar_Ident_t
      | Arrow_k \<Rightarrow> Arrow_t
      | Fat_Arrow_k \<Rightarrow> Fat_Arrow_t
      | Equals_k \<Rightarrow> Equals_t
      | Eq_Eq_k \<Rightarrow> Eq_Eq_t
      | Bang_k \<Rightarrow> Bang_t
      | Bang_Eq_k \<Rightarrow> Bang_Eq_t
      | Lt_k \<Rightarrow> Lt_t
      | Le_k \<Rightarrow> Le_t
      | Gt_k \<Rightarrow> Gt_t
      | Ge_k \<Rightarrow> Ge_t
      | Plus_k \<Rightarrow> Plus_t
      | Minus_k \<Rightarrow> Minus_t
      | Star_k \<Rightarrow> Star_t
      | Slash_k \<Rightarrow> Slash_t
      | Percent_k \<Rightarrow> Percent_t
      | Pipe_k \<Rightarrow> Pipe_t
      | Pipe_Gt_k \<Rightarrow> Pipe_Gt_t
      | Amp_k \<Rightarrow> Amp_t
      | Gt_Gt_k \<Rightarrow> Gt_Gt_t
      | Error_Gt_k \<Rightarrow> Error_Gt_t
      | Error_Gt_Gt_k \<Rightarrow> Error_Gt_Gt_t
      | Eof_k \<Rightarrow> Eof_t)"

section \<open>Keywords\<close>

text \<open>\<open>Keyword::ALL\<close>, in the order of the declaration: \<open>keyword as u32\<close> is the position.\<close>

definition all_keywords :: "keyword list" where
  "all_keywords = [
     And_kw, Assert_kw, Atomically_kw, Backoff_kw, Break_kw, Continue_kw, Defer_kw, Else_kw
     , Enum_kw, Errdefer_kw, Every_kw, Export_kw, False_kw, For_kw, Guard_kw, If_kw, In_kw, Let_kw
     , Const_kw, Loop_kw, Match_kw, Not_kw, Null_kw, Or_kw, Proc_kw, Pure_kw, Retry_kw, Try_kw
     , Return_kw, Run_kw, Spawn_kw, Stream_kw, True_kw, Type_kw, Unless_kw, Until_kw, Use_kw
     , Var_kw, Wait_kw, When_kw, While_kw, With_kw, Within_kw, Yield_kw]"

definition keyword_string :: "keyword \<Rightarrow> string" where
  "keyword_string kw =
     (case kw of
        And_kw \<Rightarrow> ''and''
      | Assert_kw \<Rightarrow> ''assert''
      | Atomically_kw \<Rightarrow> ''atomically''
      | Backoff_kw \<Rightarrow> ''backoff''
      | Break_kw \<Rightarrow> ''break''
      | Continue_kw \<Rightarrow> ''continue''
      | Defer_kw \<Rightarrow> ''defer''
      | Else_kw \<Rightarrow> ''else''
      | Enum_kw \<Rightarrow> ''enum''
      | Errdefer_kw \<Rightarrow> ''errdefer''
      | Every_kw \<Rightarrow> ''every''
      | Export_kw \<Rightarrow> ''export''
      | False_kw \<Rightarrow> ''false''
      | For_kw \<Rightarrow> ''for''
      | Guard_kw \<Rightarrow> ''guard''
      | If_kw \<Rightarrow> ''if''
      | In_kw \<Rightarrow> ''in''
      | Let_kw \<Rightarrow> ''let''
      | Const_kw \<Rightarrow> ''const''
      | Loop_kw \<Rightarrow> ''loop''
      | Match_kw \<Rightarrow> ''match''
      | Not_kw \<Rightarrow> ''not''
      | Null_kw \<Rightarrow> ''null''
      | Or_kw \<Rightarrow> ''or''
      | Proc_kw \<Rightarrow> ''proc''
      | Pure_kw \<Rightarrow> ''pure''
      | Retry_kw \<Rightarrow> ''retry''
      | Try_kw \<Rightarrow> ''try''
      | Return_kw \<Rightarrow> ''return''
      | Run_kw \<Rightarrow> ''run''
      | Spawn_kw \<Rightarrow> ''spawn''
      | Stream_kw \<Rightarrow> ''stream''
      | True_kw \<Rightarrow> ''true''
      | Type_kw \<Rightarrow> ''type''
      | Unless_kw \<Rightarrow> ''unless''
      | Until_kw \<Rightarrow> ''until''
      | Use_kw \<Rightarrow> ''use''
      | Var_kw \<Rightarrow> ''var''
      | Wait_kw \<Rightarrow> ''wait''
      | When_kw \<Rightarrow> ''when''
      | While_kw \<Rightarrow> ''while''
      | With_kw \<Rightarrow> ''with''
      | Within_kw \<Rightarrow> ''within''
      | Yield_kw \<Rightarrow> ''yield'')"

definition keyword_text :: "keyword \<Rightarrow> u8 list" where
  "keyword_text kw = bytes_of (keyword_string kw)"

definition keyword_table :: "(string \<times> keyword) list" where
  "keyword_table = [
     (''and'', And_kw), (''assert'', Assert_kw), (''atomically'', Atomically_kw)
     , (''backoff'', Backoff_kw), (''break'', Break_kw), (''continue'', Continue_kw)
     , (''defer'', Defer_kw), (''else'', Else_kw), (''enum'', Enum_kw)
     , (''errdefer'', Errdefer_kw), (''every'', Every_kw), (''export'', Export_kw)
     , (''false'', False_kw), (''for'', For_kw), (''guard'', Guard_kw), (''if'', If_kw)
     , (''in'', In_kw), (''let'', Let_kw), (''const'', Const_kw), (''loop'', Loop_kw)
     , (''match'', Match_kw), (''not'', Not_kw), (''null'', Null_kw), (''or'', Or_kw)
     , (''proc'', Proc_kw), (''pure'', Pure_kw), (''retry'', Retry_kw), (''try'', Try_kw)
     , (''return'', Return_kw), (''run'', Run_kw), (''spawn'', Spawn_kw), (''stream'', Stream_kw)
     , (''true'', True_kw), (''type'', Type_kw), (''unless'', Unless_kw), (''until'', Until_kw)
     , (''use'', Use_kw), (''var'', Var_kw), (''wait'', Wait_kw), (''when'', When_kw)
     , (''while'', While_kw), (''with'', With_kw), (''within'', Within_kw), (''yield'', Yield_kw)]"

definition keyword_from_ident :: "u8 list \<Rightarrow> keyword option" where
  "keyword_from_ident ident = map_of (map (\<lambda>(text, kw). (bytes_of text, kw)) keyword_table) ident"

fun position :: "'a \<Rightarrow> 'a list \<Rightarrow> nat" where
  "position x [] = 0"
| "position x (y # ys) = (if x = y then 0 else Suc (position x ys))"

definition keyword_code :: "keyword \<Rightarrow> u32" where
  "keyword_code kw = of_nat (position kw all_keywords)"

definition keyword_from_payload :: "u32 \<Rightarrow> keyword option" where
  "keyword_from_payload payload = find (\<lambda>kw. keyword_code kw = payload) all_keywords"

section \<open>Payloads\<close>

record string_flags =
  has_interpolation :: bool
  raw_literal :: bool

definition flags_from_payload :: "u32 \<Rightarrow> string_flags" where
  "flags_from_payload payload =
     \<lparr>has_interpolation = payload AND 1 \<noteq> 0, raw_literal = payload AND 2 \<noteq> 0\<rparr>"

definition flags_to_payload :: "string_flags \<Rightarrow> u32" where
  "flags_to_payload flags =
     (if has_interpolation flags then 1 else 0) OR (if raw_literal flags then 2 else 0)"

definition compact_payload :: "(u8 list \<Rightarrow> u32) \<Rightarrow> token_kind \<Rightarrow> u32" where
  "compact_payload symbol kind =
     (case kind of
        Ident_k nm \<Rightarrow> symbol nm
      | Proc_Ident_k nm \<Rightarrow> symbol nm
      | Dollar_Ident_k nm \<Rightarrow> symbol nm
      | Keyword_k kw \<Rightarrow> keyword_code kw
      | String_k interpolated raw \<Rightarrow>
          flags_to_payload \<lparr>has_interpolation = interpolated, raw_literal = raw\<rparr>
      | Fmt_String_k raw \<Rightarrow> flags_to_payload \<lparr>has_interpolation = True, raw_literal = raw\<rparr>
      | _ \<Rightarrow> 0)"

section \<open>The table\<close>

definition u32_try_from :: "nat \<Rightarrow> u32 option" where
  "u32_try_from n = (if int n < 2 ^ 32 then Some (of_nat n) else None)"

definition u16_try_from :: "u32 \<Rightarrow> u16 option" where
  "u16_try_from n = (if n < 0x10000 then Some (ucast n) else None)"

text \<open>\<open>TokenId\<close> is a non-zero number, one more than the index.\<close>

definition token_id_new :: "nat \<Rightarrow> u32 option" where
  "token_id_new index = u32_try_from (index + 1)"

definition token_index :: "u32 \<Rightarrow> nat" where
  "token_index ident = unat ident - 1"

datatype token_starts = Starts16 "u16 list" | Starts32 "u32 list"

definition starts_push :: "nat \<Rightarrow> token_starts \<Rightarrow> token_starts option" where
  "starts_push start starts =
     (case u32_try_from start of
        None \<Rightarrow> None
      | Some st \<Rightarrow>
          Some (case starts of
            Starts16 xs \<Rightarrow>
              (case u16_try_from st of
                 Some short \<Rightarrow> Starts16 (xs @ [short])
               | None \<Rightarrow> Starts32 (map ucast xs @ [st]))
          | Starts32 xs \<Rightarrow> Starts32 (xs @ [st])))"

definition starts_get :: "token_starts \<Rightarrow> nat \<Rightarrow> nat option" where
  "starts_get starts index =
     (case starts of
        Starts16 xs \<Rightarrow> if index < length xs then Some (unat (xs ! index)) else None
      | Starts32 xs \<Rightarrow> if index < length xs then Some (unat (xs ! index)) else None)"

record table_builder =
  b_tags :: "token_tag list"
  b_starts :: token_starts
  b_payloads :: "(u32 \<times> u32) list"
  b_continuations :: "u32 list"

record token_table =
  tags :: "token_tag list"
  starts :: token_starts
  payloads :: "(u32 \<times> u32) list"
  line_continuations :: "u32 list"

definition builder_default :: table_builder where
  "builder_default = \<lparr>b_tags = [], b_starts = Starts16 [], b_payloads = [], b_continuations = []\<rparr>"

definition push_line_continuation :: "nat \<Rightarrow> table_builder \<Rightarrow> table_builder option" where
  "push_line_continuation at_byte b =
     map_option (\<lambda>n. b\<lparr>b_continuations := b_continuations b @ [n]\<rparr>) (u32_try_from at_byte)"

definition push_kind ::
  "(u8 list \<Rightarrow> u32) \<Rightarrow> token_kind \<Rightarrow> nat \<Rightarrow> table_builder \<Rightarrow> (u32 \<times> table_builder) option" where
  "push_kind symbol kind start b =
     (let index = length (b_tags b) in
      case token_id_new index of
        None \<Rightarrow> None
      | Some ident \<Rightarrow>
          (case starts_push start (b_starts b) of
             None \<Rightarrow> None
           | Some sts \<Rightarrow>
               (let b1 = b\<lparr>b_tags := b_tags b @ [kind_tag kind], b_starts := sts\<rparr>;
                    payload = compact_payload symbol kind
                in if payload \<noteq> 0 then
                     map_option (\<lambda>i. (ident, b1\<lparr>b_payloads := b_payloads b1 @ [(i, payload)]\<rparr>))
                       (u32_try_from index)
                   else Some (ident, b1))))"

definition builder_finish :: "table_builder \<Rightarrow> token_table" where
  "builder_finish b =
     \<lparr>tags = b_tags b, starts = b_starts b, payloads = b_payloads b,
      line_continuations = b_continuations b\<rparr>"

section \<open>Queries\<close>

definition table_len :: "token_table \<Rightarrow> nat" where
  "table_len t = length (tags t)"

definition tag_at :: "token_table \<Rightarrow> nat \<Rightarrow> token_tag option" where
  "tag_at t index = (if index < length (tags t) then Some (tags t ! index) else None)"

definition start_at :: "token_table \<Rightarrow> nat \<Rightarrow> nat option" where
  "start_at t index = starts_get (starts t) index"

text \<open>The indices of the payloads increase, so the binary search finds the one there is.\<close>

definition payload_at :: "token_table \<Rightarrow> nat \<Rightarrow> u32 option" where
  "payload_at t index =
     (if index \<ge> table_len t then None
      else
        (case u32_try_from index of
           None \<Rightarrow> None
         | Some i \<Rightarrow>
             (case find (\<lambda>entry. fst entry = i) (payloads t) of
                Some entry \<Rightarrow> Some (snd entry)
              | None \<Rightarrow> Some 0)))"

definition name_at :: "token_table \<Rightarrow> nat \<Rightarrow> u32 option" where
  "name_at t index =
     (case tag_at t index of
        None \<Rightarrow> None
      | Some tag \<Rightarrow>
          if tag \<in> {Ident_t, Proc_Ident_t, Dollar_Ident_t} then payload_at t index else None)"

definition keyword_at :: "token_table \<Rightarrow> nat \<Rightarrow> keyword option" where
  "keyword_at t index =
     (if tag_at t index \<noteq> Some Keyword_t then None
      else Option.bind (payload_at t index) keyword_from_payload)"

definition label_text_at :: "(u32 \<Rightarrow> u8 list) \<Rightarrow> token_table \<Rightarrow> nat \<Rightarrow> u8 list option" where
  "label_text_at spelling t index =
     (case tag_at t index of
        Some Ident_t \<Rightarrow> map_option spelling (name_at t index)
      | Some Keyword_t \<Rightarrow> map_option keyword_text (keyword_at t index)
      | _ \<Rightarrow> None)"

definition string_flags_at :: "token_table \<Rightarrow> nat \<Rightarrow> string_flags option" where
  "string_flags_at t index =
     (case tag_at t index of
        None \<Rightarrow> None
      | Some tag \<Rightarrow>
          if tag \<in> {String_t, Fmt_String_t}
          then map_option flags_from_payload (payload_at t index) else None)"

end
