(* ===== verification/Xsh_Literal.thy ===== *)
theory Xsh_Literal
  imports Xsh_Token
begin

text \<open>
  Quoted literals (\<open>syntax/literal.rs\<close> and the tables of \<open>syntax/grammar.rs\<close>): their prefixes and
  suffixes, escapes, and the scanner that finds the end of a literal. Inside an interpolation the
  scanner has to find the closing brace, which means scanning the strings there, and so on; the two
  searches for a closing brace are parameters here and are tied to the scanner in \<open>Xsh_Lexer\<close>.

  A source is the list of its UTF-8 bytes. A run ends in \<open>Panicked\<close> where the code panics and in
  \<open>Exhausted\<close> where the fuel of a loop is used up; \<open>Xsh_Lexer_Correct\<close> shows that the latter never
  happens. The thread's count of open scans (\<open>INTERPOLATION_SCANS\<close>) is the state.
\<close>

datatype halt = Panicked | Exhausted

section \<open>Bytes of the source\<close>

type_synonym source = "u8 list"

definition peek :: "source \<Rightarrow> nat \<Rightarrow> u8 option" where
  "peek bs i = (if i < length bs then Some (bs ! i) else None)"

text \<open>\<open>while peek is in P: offset += 1\<close>.\<close>

definition scan_while :: "(u8 \<Rightarrow> bool) \<Rightarrow> source \<Rightarrow> nat \<Rightarrow> nat" where
  "scan_while P bs i = i + length (takeWhile P (drop i bs))"

definition starts_at :: "source \<Rightarrow> nat \<Rightarrow> u8 list \<Rightarrow> bool" where
  "starts_at bs i text \<longleftrightarrow> take (length text) (drop i bs) = text"

definition is_alphabetic :: "u8 \<Rightarrow> bool" where
  "is_alphabetic b \<longleftrightarrow> 65 \<le> b \<and> b \<le> 90 \<or> 97 \<le> b \<and> b \<le> 122"

definition is_digit :: "u8 \<Rightarrow> bool" where
  "is_digit b \<longleftrightarrow> 48 \<le> b \<and> b \<le> 57"

definition is_hexdigit :: "u8 \<Rightarrow> bool" where
  "is_hexdigit b \<longleftrightarrow> hex_digit b \<noteq> None"

definition is_ident_start :: "u8 \<Rightarrow> bool" where
  "is_ident_start b \<longleftrightarrow> is_alphabetic b \<or> b = 95"

definition is_ident_continue :: "u8 \<Rightarrow> bool" where
  "is_ident_continue b \<longleftrightarrow> is_alphabetic b \<or> is_digit b \<or> b = 95"

text \<open>\<open>str::is_char_boundary\<close> on the bytes of a text, and a slice of it.\<close>

definition boundary :: "source \<Rightarrow> nat \<Rightarrow> bool" where
  "boundary bs i \<longleftrightarrow> i = 0 \<or> i = length bs \<or> i < length bs \<and> \<not> continuation (bs ! i)"

definition slice :: "source \<Rightarrow> nat \<Rightarrow> nat \<Rightarrow> u8 list option" where
  "slice bs i j =
     (if i \<le> j \<and> boundary bs i \<and> boundary bs j then get_range i j bs else None)"

text \<open>The length of the character that starts with a byte.\<close>

definition lead_width :: "u8 \<Rightarrow> nat" where
  "lead_width b = (if b < 0x80 then 1 else if b < 0xE0 then 2 else if b < 0xF0 then 3 else 4)"

section \<open>Prefixes and suffixes\<close>

datatype literal_kind =
    Str_lit | Bytes_lit | Regex_lit | Path_lit | Glob_lit | Env_lit | Fmt_lit | Path_Fmt_lit

record literal_form =
  form_prefix :: "u8 list"
  form_kind :: literal_kind
  form_raw :: bool
  form_token :: token_tag

definition literal_forms :: "literal_form list" where
  "literal_forms =
     [\<lparr>form_prefix = bytes_of ''rx'', form_kind = Regex_lit, form_raw = True, form_token = Regex_t\<rparr>,
      \<lparr>form_prefix = bytes_of ''fp'', form_kind = Path_Fmt_lit, form_raw = False,
       form_token = Path_Fmt_String_t\<rparr>,
      \<lparr>form_prefix = bytes_of ''b'', form_kind = Bytes_lit, form_raw = False, form_token = Bytes_t\<rparr>,
      \<lparr>form_prefix = bytes_of ''p'', form_kind = Path_lit, form_raw = False,
       form_token = Path_String_t\<rparr>,
      \<lparr>form_prefix = bytes_of ''g'', form_kind = Glob_lit, form_raw = False,
       form_token = Glob_String_t\<rparr>,
      \<lparr>form_prefix = bytes_of ''e'', form_kind = Env_lit, form_raw = True,
       form_token = Env_String_t\<rparr>,
      \<lparr>form_prefix = bytes_of ''f'', form_kind = Fmt_lit, form_raw = False,
       form_token = Fmt_String_t\<rparr>,
      \<lparr>form_prefix = bytes_of ''r'', form_kind = Str_lit, form_raw = True, form_token = String_t\<rparr>,
      \<lparr>form_prefix = [], form_kind = Str_lit, form_raw = False, form_token = String_t\<rparr>]"

definition quoted_literal_at :: "source \<Rightarrow> nat \<Rightarrow> literal_form option" where
  "quoted_literal_at bs start =
     (if start \<le> length bs
      then find (\<lambda>form. starts_at bs start (form_prefix form) \<and>
          peek bs (start + length (form_prefix form)) = Some 34) literal_forms
      else None)"

definition duration_suffixes :: "u8 list list" where
  "duration_suffixes = [bytes_of ''ms'', bytes_of ''s'', bytes_of ''m'', bytes_of ''h'']"

definition duration_suffix_at :: "source \<Rightarrow> nat \<Rightarrow> u8 list option" where
  "duration_suffix_at bs i =
     (if i \<le> length bs then find (starts_at bs i) duration_suffixes else None)"

definition size_suffixes :: "(u8 list \<times> u64) list" where
  "size_suffixes =
     [(bytes_of ''KiB'', 0x400), (bytes_of ''MiB'', 0x100000), (bytes_of ''GiB'', 0x40000000),
      (bytes_of ''KB'', 1000), (bytes_of ''MB'', 1000000), (bytes_of ''GB'', 1000000000)]"

definition size_suffix_at :: "source \<Rightarrow> nat \<Rightarrow> u8 list option" where
  "size_suffix_at bs i =
     (if i \<le> length bs
      then find (\<lambda>suffix. starts_at bs i suffix \<and>
          \<not> (case peek bs (i + length suffix) of None \<Rightarrow> False | Some b \<Rightarrow> is_ident_continue b))
        (map fst size_suffixes)
      else None)"

text \<open>The offset after the escape that starts with the backslash at \<open>i\<close>.\<close>

definition escape_end :: "source \<Rightarrow> nat \<Rightarrow> nat" where
  "escape_end bs i =
     (if peek bs (i + 1) = Some 117 \<and> peek bs (i + 2) = Some 123
      then (let close = scan_while is_hexdigit bs (i + 3)
            in if peek bs close = Some 125 then close + 1 else close)
      else min (i + 2) (length bs))"

definition fmt_interpolates :: "literal_kind \<Rightarrow> bool \<Rightarrow> bool" where
  "fmt_interpolates kind raw \<longleftrightarrow> \<not> raw \<and> (kind = Fmt_lit \<or> kind = Path_Fmt_lit)"

definition command_string_interpolates :: "literal_kind \<Rightarrow> bool \<Rightarrow> bool" where
  "command_string_interpolates kind raw \<longleftrightarrow> \<not> raw \<and> kind = Str_lit"

section \<open>Open interpolation scans\<close>

record scans =
  open_scans :: u32
  refused :: bool
  unwinding :: bool

definition MAX_NESTING_DEPTH :: u32 where
  "MAX_NESTING_DEPTH = 128"

definition fresh_scans :: scans where
  "fresh_scans = \<lparr>open_scans = 0, refused = False, unwinding = False\<rparr>"

definition scan_open :: "(scans, halt, bool) op" where
  "scan_open s =
     (let opened = (\<not> unwinding s \<and> open_scans s < MAX_NESTING_DEPTH)
      in (Inr opened,
          if opened then s\<lparr>open_scans := open_scans s + 1\<rparr>
          else s\<lparr>refused := True, unwinding := True\<rparr>))"

definition scan_drop :: "scans \<Rightarrow> scans" where
  "scan_drop s =
     (let n = open_scans s - 1
      in s\<lparr>open_scans := n, unwinding := (if n = 0 then False else unwinding s)\<rparr>)"

definition take_refused :: "(scans, halt, bool) op" where
  "take_refused s = (Inr (refused s), s\<lparr>refused := False\<rparr>)"

definition is_unwinding :: "(scans, halt, bool) op" where
  "is_unwinding s = (Inr (unwinding s), s)"

text \<open>A scan that is open while \<open>m\<close> runs; \<open>refusal\<close> is the result when it is refused.\<close>

definition while_open :: "'a \<Rightarrow> (scans, halt, 'a) op \<Rightarrow> (scans, halt, 'a) op" where
  "while_open refusal m =
     bindS scan_open (\<lambda>opened.
       if opened then bindS m (\<lambda>r. bindS (updS scan_drop) (\<lambda>_. retS r)) else retS refusal)"

section \<open>The end of a quoted literal\<close>

record quoted_literal =
  q_kind :: literal_kind
  q_raw :: bool
  delimiter_len :: nat
  content_start :: nat
  content_end :: nat
  q_end :: nat

datatype quoted_scan = Terminated quoted_literal | Unterminated nat

text \<open>How the tokens after an opening brace end.\<close>

datatype interpolation_end_at = Close nat | Comment_at nat | Unclosed

definition quotes3 :: "u8 list" where
  "quotes3 = [34, 34, 34]"

text \<open>The loop of \<open>scan_quoted_literal\<close>; \<open>step\<close> continues at another offset unless the scan unwinds.\<close>

definition unless_unwinding ::
  "source \<Rightarrow> (scans, halt, quoted_scan) op \<Rightarrow> (scans, halt, quoted_scan) op" where
  "unless_unwinding bs continue =
     bindS is_unwinding (\<lambda>u. if u then retS (Unterminated (length bs)) else continue)"

fun quoted_loop ::
  "(nat \<Rightarrow> (scans, halt, interpolation_end_at) op) \<Rightarrow> (nat \<Rightarrow> (scans, halt, nat option) op) \<Rightarrow>
   source \<Rightarrow> bool \<Rightarrow> quoted_literal \<Rightarrow> nat \<Rightarrow> nat \<Rightarrow> (scans, halt, quoted_scan) op"
where
  "quoted_loop iend iclose bs stop lit 0 i = failS Exhausted"
| "quoted_loop iend iclose bs stop lit (Suc n) i =
     (if length bs \<le> i then retS (Unterminated i)
      else if delimiter_len lit = 3 \<and> get_range i (i + 3) bs = Some quotes3
      then retS (Terminated (lit\<lparr>content_end := i, q_end := i + 3\<rparr>))
      else if delimiter_len lit = 1 \<and> bs ! i = 34
      then retS (Terminated (lit\<lparr>content_end := i, q_end := i + 1\<rparr>))
      else if fmt_interpolates (q_kind lit) (q_raw lit) \<and> (bs ! i = 123 \<or> bs ! i = 125)
      then
        bindS (if peek bs (i + 1) = Some (bs ! i) then retS 2
               else if bs ! i = 123
               then bindS (iend (i + 1)) (\<lambda>r.
                      retS (case r of Close close \<Rightarrow> close + 1 - i | _ \<Rightarrow> 1))
               else retS 1) (\<lambda>width.
        unless_unwinding bs (quoted_loop iend iclose bs stop lit n (i + width)))
      else if command_string_interpolates (q_kind lit) (q_raw lit) \<and> bs ! i = 36 \<and>
              peek bs (i + 1) = Some 123
      then
        bindS (iclose (i + 2)) (\<lambda>r.
          unless_unwinding bs (quoted_loop iend iclose bs stop lit n
            (case r of Some close \<Rightarrow> close + 1 | None \<Rightarrow> i + 2)))
      else if stop \<and> delimiter_len lit = 1 \<and> (bs ! i = 10 \<or> bs ! i = 13)
      then retS (Unterminated i)
      else quoted_loop iend iclose bs stop lit n
             (if bs ! i = 92 \<and> \<not> q_raw lit then escape_end bs i else i + 1))"

definition scan_quoted_literal ::
  "(nat \<Rightarrow> (scans, halt, interpolation_end_at) op) \<Rightarrow> (nat \<Rightarrow> (scans, halt, nat option) op) \<Rightarrow>
   source \<Rightarrow> nat \<Rightarrow> bool \<Rightarrow> (scans, halt, quoted_scan option) op"
where
  "scan_quoted_literal iend iclose bs start stop =
     (case quoted_literal_at bs start of
        None \<Rightarrow> retS None
      | Some form \<Rightarrow>
          (let quote = start + length (form_prefix form);
               delimiter = (if get_range quote (quote + 3) bs = Some quotes3 then 3 else 1);
               from = quote + delimiter;
               lit = \<lparr>q_kind = form_kind form, q_raw = form_raw form, delimiter_len = delimiter,
                      content_start = from, content_end = from, q_end = from\<rparr>
           in bindS (quoted_loop iend iclose bs stop lit (Suc (length bs)) from)
                (\<lambda>r. retS (Some r))))"

section \<open>The end of a command interpolation\<close>

definition skip_string_in_expr ::
  "(nat \<Rightarrow> (scans, halt, interpolation_end_at) op) \<Rightarrow> (nat \<Rightarrow> (scans, halt, nat option) op) \<Rightarrow>
   source \<Rightarrow> nat \<Rightarrow> (scans, halt, nat option) op"
where
  "skip_string_in_expr iend iclose bs start =
     bindS (scan_quoted_literal iend iclose bs start False) (\<lambda>r.
       retS (case r of Some (Terminated lit) \<Rightarrow> Some (q_end lit) | _ \<Rightarrow> None))"

fun close_loop ::
  "(nat \<Rightarrow> (scans, halt, interpolation_end_at) op) \<Rightarrow> (nat \<Rightarrow> (scans, halt, nat option) op) \<Rightarrow>
   source \<Rightarrow> nat \<Rightarrow> nat \<Rightarrow> nat \<Rightarrow> (scans, halt, nat option) op"
where
  "close_loop iend iclose bs 0 i depth = failS Exhausted"
| "close_loop iend iclose bs (Suc n) i depth =
     (if length bs \<le> i then retS None
      else if quoted_literal_at bs i \<noteq> None
      then bindS (skip_string_in_expr iend iclose bs i) (\<lambda>r.
             case r of None \<Rightarrow> retS None | Some j \<Rightarrow> close_loop iend iclose bs n j depth)
      else if bs ! i = 35
      then close_loop iend iclose bs n (scan_while (\<lambda>b. b \<noteq> 13 \<and> b \<noteq> 10) bs i) depth
      else if bs ! i \<in> {40, 91, 123} then close_loop iend iclose bs n (i + 1) (depth + 1)
      else if bs ! i \<in> {41, 93} then close_loop iend iclose bs n (i + 1) (depth - 1)
      else if bs ! i = 125 \<and> depth = 0 then retS (Some i)
      else if bs ! i = 125 then close_loop iend iclose bs n (i + 1) (depth - 1)
      else close_loop iend iclose bs n (i + 1) depth)"

end
