(* ===== verification/Xsh_Lexer.thy ===== *)
theory Xsh_Lexer
  imports Xsh_Literal
begin

text \<open>
  The lexer (\<open>syntax/lexer.rs\<close>). One step, \<open>lex_token\<close>, consumes the bytes of one token, of
  whitespace, or of a region it reports. The end of an interpolation of an f-string is found by
  running the same lexer, without recording anything, until its closing brace. The lexer, the
  scanner of literals and the two searches for a closing brace are mutually recursive; the fuel of
  \<open>interpolation_end\<close> and \<open>interpolation_close\<close> is the depth that may still be entered.
\<close>

unbundle bit_operations_syntax

section \<open>State and diagnostics\<close>

datatype diagnostic_code =
    Lex_Unexpected_Character | Lex_Invalid_Octal | Lex_Invalid_Float | Lex_Invalid_Escape
  | Lex_Invalid_Bytes_Escape | Lex_Invalid_String | Lex_Unterminated_String
  | Lex_Unterminated_Bytes | Lex_Unterminated_Fmt_String | Lex_Unterminated_Path_Fmt_String
  | Parse_Nesting_Depth

text \<open>The hint of a diagnostic is the text that replaces its span.\<close>

record diagnostic =
  diag_code :: diagnostic_code
  diag_span :: "nat \<times> nat"
  diag_message :: string
  diag_label :: string
  diag_fix :: "u8 list option"

record lexer =
  at_byte :: nat
  token_builder :: table_builder
  diagnostics :: "diagnostic list"
  symbols :: "u8 list \<Rightarrow> u32"
  scan_only :: bool
  thread_scans :: scans

type_synonym 'a lexing = "(lexer, halt, 'a) op"

definition on_scans :: "(scans, halt, 'a) op \<Rightarrow> 'a lexing" where
  "on_scans m s = (case m (thread_scans s) of (r, t) \<Rightarrow> (r, s\<lparr>thread_scans := t\<rparr>))"

definition here_at :: "nat lexing" where
  "here_at s = (Inr (at_byte s), s)"

definition goto_byte :: "nat \<Rightarrow> unit lexing" where
  "goto_byte i = updS (\<lambda>s. s\<lparr>at_byte := i\<rparr>)"

definition advance :: "nat \<Rightarrow> unit lexing" where
  "advance n = updS (\<lambda>s. s\<lparr>at_byte := at_byte s + n\<rparr>)"

definition skip_while :: "(u8 \<Rightarrow> bool) \<Rightarrow> source \<Rightarrow> unit lexing" where
  "skip_while P bs = updS (\<lambda>s. s\<lparr>at_byte := scan_while P bs (at_byte s)\<rparr>)"

text \<open>\<open>Span::new\<close> asserts that the span is not reversed and fits 32 bits.\<close>

definition span_ok :: "nat \<Rightarrow> nat \<Rightarrow> bool" where
  "span_ok i j \<longleftrightarrow> int i < 2 ^ 32 \<and> i \<le> j \<and> int (j - i) < 2 ^ 32"

definition report_with ::
  "diagnostic_code \<Rightarrow> nat \<Rightarrow> nat \<Rightarrow> string \<Rightarrow> string \<Rightarrow> u8 list option \<Rightarrow> unit lexing" where
  "report_with code i j message label fix =
     (if span_ok i j
      then updS (\<lambda>s. s\<lparr>diagnostics := diagnostics s @
             [\<lparr>diag_code = code, diag_span = (i, j), diag_message = message, diag_label = label,
               diag_fix = fix\<rparr>]\<rparr>)
      else failS Panicked)"

definition report_at :: "diagnostic_code \<Rightarrow> nat \<Rightarrow> nat \<Rightarrow> string \<Rightarrow> string \<Rightarrow> unit lexing" where
  "report_at code i j message label = report_with code i j message label None"

text \<open>The diagnostics most calls make, from a start to the current byte.\<close>

definition report_from :: "diagnostic_code \<Rightarrow> nat \<Rightarrow> string \<Rightarrow> string \<Rightarrow> unit lexing" where
  "report_from code start message label =
     bindS here_at (\<lambda>j. report_at code start j message label)"

definition push_token :: "token_kind \<Rightarrow> nat \<Rightarrow> unit lexing" where
  "push_token kind start s =
     (if scan_only s then (Inr (), s)
      else
        (case push_kind (symbols s) kind start (token_builder s) of
           None \<Rightarrow> (Inl Panicked, s)
         | Some (ident, b) \<Rightarrow> (Inr (), s\<lparr>token_builder := b\<rparr>)))"

definition push_continuation :: "nat \<Rightarrow> unit lexing" where
  "push_continuation start s =
     (if scan_only s then (Inr (), s)
      else
        (case push_line_continuation start (token_builder s) of
           None \<Rightarrow> (Inl Panicked, s)
         | Some b \<Rightarrow> (Inr (), s\<lparr>token_builder := b\<rparr>)))"

section \<open>Whitespace, comments, names\<close>

definition lex_whitespace :: "source \<Rightarrow> unit lexing" where
  "lex_whitespace bs = skip_while (\<lambda>b. b = 32 \<or> b = 9) bs"

definition lex_line_continuation :: "source \<Rightarrow> unit lexing" where
  "lex_line_continuation bs =
     bindS here_at (\<lambda>start.
       (let after_space = (start \<noteq> 0 \<and> peek bs (start - 1) \<in> {Some 32, Some 9});
            line_break = (if starts_at bs (start + 1) [13, 10] then 2
                          else if starts_at bs (start + 1) [10] then 1 else 0)
        in bindS (advance 1) (\<lambda>_.
             if after_space \<and> 0 < line_break
             then bindS (advance line_break) (\<lambda>_. push_continuation start)
             else report_from Lex_Unexpected_Character start ''unexpected character''
                    (if 0 < line_break then ''write a space before a `'' @ [CHR 0x5C] @ ''` that continues a command''
                     else ''a `'' @ [CHR 0x5C] @ ''` continues a command only as the last character of its line''))))"

definition lex_comment :: "source \<Rightarrow> unit lexing" where
  "lex_comment bs =
     bindS here_at (\<lambda>start. bindS (advance 1) (\<lambda>_.
       bindS (skip_while (\<lambda>b. b \<noteq> 10 \<and> b \<noteq> 13) bs) (\<lambda>_. push_token Comment_k start)))"

text \<open>\<open>&source[i..j]\<close>.\<close>

definition sliced :: "source \<Rightarrow> nat \<Rightarrow> nat \<Rightarrow> u8 list lexing" where
  "sliced bs i j = (case slice bs i j of None \<Rightarrow> failS Panicked | Some text \<Rightarrow> retS text)"

definition is_scan_only :: "bool lexing" where
  "is_scan_only s = (Inr (scan_only s), s)"

definition ident_kind :: "u8 list \<Rightarrow> token_kind" where
  "ident_kind text =
     (case keyword_from_ident text of
        Some kw \<Rightarrow> Keyword_k kw
      | None \<Rightarrow> if 45 \<in> set text then Proc_Ident_k text else Ident_k text)"

definition lex_ident_or_keyword :: "source \<Rightarrow> unit lexing" where
  "lex_ident_or_keyword bs =
     bindS here_at (\<lambda>start. bindS (advance 1) (\<lambda>_.
     bindS (skip_while (\<lambda>b. is_ident_continue b \<or> b = 45) bs) (\<lambda>_.
     bindS here_at (\<lambda>end_at. bindS (sliced bs start end_at) (\<lambda>text.
     bindS is_scan_only (\<lambda>only.
       if only then retS () else push_token (ident_kind text) start))))))"

section \<open>Numbers\<close>

definition lex_octal :: "source \<Rightarrow> nat \<Rightarrow> unit lexing" where
  "lex_octal bs start =
     bindS (advance 2) (\<lambda>_. bindS here_at (\<lambda>digits_start.
     bindS (skip_while (\<lambda>b. 48 \<le> b \<and> b \<le> 55) bs) (\<lambda>_. bindS here_at (\<lambda>i.
     bindS (if case peek bs i of Some b \<Rightarrow> is_ident_continue b | None \<Rightarrow> False
            then bindS (advance 1) (\<lambda>_. bindS (skip_while is_ident_continue bs) (\<lambda>_.
                   report_from Lex_Invalid_Octal start ''invalid octal integer literal''
                     ''octal literals use digits 0 through 7''))
            else retS ()) (\<lambda>_. bindS here_at (\<lambda>j.
     bindS (if j = digits_start
            then report_from Lex_Invalid_Octal start ''invalid octal integer literal''
                   ''expected octal digits after 0o''
            else retS ()) (\<lambda>_. push_token Int_k start)))))))"

definition lex_fraction :: "source \<Rightarrow> bool lexing" where
  "lex_fraction bs =
     bindS here_at (\<lambda>i.
       if peek bs i = Some 46 \<and> (case peek bs (i + 1) of Some b \<Rightarrow> is_digit b | None \<Rightarrow> False)
       then bindS (advance 1) (\<lambda>_. bindS (skip_while is_digit bs) (\<lambda>_. retS True))
       else retS False)"

definition lex_exponent :: "source \<Rightarrow> nat \<Rightarrow> bool lexing" where
  "lex_exponent bs start =
     bindS here_at (\<lambda>i.
       if peek bs i \<in> {Some 101, Some 69}
       then
         bindS (advance 1) (\<lambda>_. bindS here_at (\<lambda>i.
         bindS (if peek bs i \<in> {Some 43, Some 45} then advance 1 else retS ()) (\<lambda>_.
         bindS here_at (\<lambda>digits_start. bindS (skip_while is_digit bs) (\<lambda>_. bindS here_at (\<lambda>j.
         bindS (if j = digits_start
                then report_from Lex_Invalid_Float start ''invalid float literal''
                       ''expected exponent digits''
                else retS ()) (\<lambda>_. retS True)))))))
       else retS False)"

text \<open>The unit, if there is one, and the token.\<close>

definition lex_number_token :: "source \<Rightarrow> nat \<Rightarrow> bool \<Rightarrow> unit lexing" where
  "lex_number_token bs start is_float =
     (if is_float then push_token Float_k start
      else
        bindS here_at (\<lambda>i.
          case duration_suffix_at bs i of
            Some suffix \<Rightarrow> bindS (advance (length suffix)) (\<lambda>_. push_token Duration_k start)
          | None \<Rightarrow>
              bindS (case size_suffix_at bs i of
                       Some suffix \<Rightarrow> advance (length suffix)
                     | None \<Rightarrow> retS ()) (\<lambda>_. push_token Int_k start)))"

definition lex_number :: "source \<Rightarrow> unit lexing" where
  "lex_number bs =
     bindS here_at (\<lambda>start.
       if peek bs start = Some 48 \<and> peek bs (start + 1) = Some 111 then lex_octal bs start
       else
         bindS (skip_while is_digit bs) (\<lambda>_.
         bindS (lex_fraction bs) (\<lambda>fraction. bindS (lex_exponent bs start) (\<lambda>exponent.
           lex_number_token bs start (fraction \<or> exponent)))))"

section \<open>Escapes\<close>

definition invalid_escape :: "nat \<Rightarrow> nat \<Rightarrow> unit lexing" where
  "invalid_escape start end_at =
     report_at Lex_Invalid_Escape start (max end_at (start + 1)) ''invalid escape sequence''
       ''unsupported escape sequence''"

text \<open>\<open>u8::from_str_radix(text, 16)\<close>.\<close>

definition u8_from_hex :: "u8 list \<Rightarrow> u8 option" where
  "u8_from_hex text =
     (case u32_from_hex text of
        Some n \<Rightarrow> if unat n < 256 then Some (ucast n) else None
      | None \<Rightarrow> None)"

definition decode_hex :: "source \<Rightarrow> nat \<Rightarrow> u8 list lexing" where
  "decode_hex bs escape_start =
     bindS here_at (\<lambda>hex_start.
     bindS (if hex_start + 2 \<le> length bs
            then bindS (sliced bs hex_start (hex_start + 2)) (\<lambda>hex. retS (u8_from_hex hex))
            else retS None) (\<lambda>value.
       case value of
         Some b \<Rightarrow> bindS (advance 2) (\<lambda>_. retS [b])
       | None \<Rightarrow> bindS (invalid_escape escape_start hex_start) (\<lambda>_. retS [])))"

text \<open>\<open>char::from_u32\<close>.\<close>

definition char_from_u32 :: "u32 \<Rightarrow> nat option" where
  "char_from_u32 n = (if is_scalar (unat n) then Some (unat n) else None)"

definition decode_unicode :: "source \<Rightarrow> nat \<Rightarrow> u8 list lexing" where
  "decode_unicode bs escape_start =
     bindS (advance 1) (\<lambda>_. bindS here_at (\<lambda>digits_start.
     bindS (skip_while is_hexdigit bs) (\<lambda>_. bindS here_at (\<lambda>i.
     bindS (if peek bs i = Some 125
            then bindS (sliced bs digits_start i) (\<lambda>digits. bindS (advance 1) (\<lambda>_.
                   retS (Option.bind (u32_from_hex digits) char_from_u32)))
            else retS None) (\<lambda>value.
       case value of
         Some c \<Rightarrow> retS (encode_utf8 c)
       | None \<Rightarrow>
           bindS here_at (\<lambda>j. bindS (invalid_escape escape_start j) (\<lambda>_. retS [])))))))"

text \<open>What an escape stands for; the backslash is consumed.\<close>

definition decode_escape :: "source \<Rightarrow> bool \<Rightarrow> nat \<Rightarrow> u8 list lexing" where
  "decode_escape bs in_bytes escape_start =
     bindS here_at (\<lambda>i.
       case peek bs i of
         None \<Rightarrow> bindS (invalid_escape escape_start i) (\<lambda>_. retS [])
       | Some b \<Rightarrow>
           bindS (advance 1) (\<lambda>_.
             if b = 92 then retS [92]
             else if b = 34 then retS [34]
             else if b = 36 \<and> \<not> in_bytes then retS [36]
             else if b = 110 then retS [10]
             else if b = 114 then retS [13]
             else if b = 116 then retS [9]
             else if b = 48 then retS [0]
             else if b = 120 then decode_hex bs escape_start
             else if b = 117 \<and> \<not> in_bytes \<and> peek bs (i + 1) = Some 123
             then decode_unicode bs escape_start
             else if b = 117 \<and> in_bytes
             then bindS (report_from Lex_Invalid_Bytes_Escape escape_start
                     ''unicode escapes are not valid in bytes literals''
                     ''bytes literals use byte escapes only'') (\<lambda>_. retS [])
             else bindS (invalid_escape escape_start (i + 1)) (\<lambda>_. retS [])))"

section \<open>String literals\<close>

text \<open>The loop over the content: whether it interpolates, and the decoded bytes.\<close>

fun decode_loop ::
  "(nat \<Rightarrow> (scans, halt, nat option) op) \<Rightarrow> source \<Rightarrow> literal_kind \<Rightarrow> bool \<Rightarrow> nat \<Rightarrow> nat \<Rightarrow>
     bool \<Rightarrow> u8 list \<Rightarrow> (bool \<times> u8 list) lexing"
where
  "decode_loop iclose bs kind raw stop_at 0 interpolates decoded = failS Exhausted"
| "decode_loop iclose bs kind raw stop_at (Suc n) interpolates decoded =
     bindS here_at (\<lambda>i.
       if stop_at \<le> i then retS (interpolates, decoded)
       else
         (case peek bs i of
            None \<Rightarrow> failS Panicked
          | Some b \<Rightarrow>
              if b = 36 \<and> peek bs (i + 1) = Some 123 \<and> kind = Str_lit \<and> \<not> raw
              then bindS (on_scans (iclose (i + 2))) (\<lambda>r.
                (case r of
                   Some close \<Rightarrow>
                     if close < stop_at
                     then bindS (goto_byte (close + 1)) (\<lambda>_.
                       decode_loop iclose bs kind raw stop_at n True
                         (decoded @ take (close + 1 - i) (drop i bs)))
                     else bindS (advance 2) (\<lambda>_.
                       decode_loop iclose bs kind raw stop_at n True (decoded @ [36, 123]))
                 | None \<Rightarrow> bindS (advance 2) (\<lambda>_.
                     decode_loop iclose bs kind raw stop_at n True (decoded @ [36, 123]))))
              else if b = 92 \<and> \<not> raw
              then bindS (advance 1) (\<lambda>_.
                bindS (decode_escape bs (kind = Bytes_lit) i) (\<lambda>text.
                  decode_loop iclose bs kind raw stop_at n interpolates (decoded @ text)))
              else bindS (advance 1) (\<lambda>_.
                decode_loop iclose bs kind raw stop_at n interpolates (decoded @ [b]))))"

definition string_kind :: "literal_kind \<Rightarrow> bool \<Rightarrow> bool \<Rightarrow> token_kind" where
  "string_kind kind interpolates raw =
     (case kind of
        Str_lit \<Rightarrow> String_k interpolates raw
      | Bytes_lit \<Rightarrow> Bytes_k
      | Regex_lit \<Rightarrow> Regex_k
      | Path_lit \<Rightarrow> Path_String_k
      | Glob_lit \<Rightarrow> Glob_String_k
      | Env_lit \<Rightarrow> Env_String_k
      | Fmt_lit \<Rightarrow> Fmt_String_k raw
      | Path_Fmt_lit \<Rightarrow> Path_Fmt_String_k)"

definition unterminated_string :: "literal_kind \<Rightarrow> nat \<Rightarrow> unit lexing" where
  "unterminated_string kind start =
     report_from (if kind = Bytes_lit then Lex_Unterminated_Bytes else Lex_Unterminated_String)
       start ''unterminated string literal'' ''string literal starts here''"

definition lex_string ::
  "(nat \<Rightarrow> (scans, halt, interpolation_end_at) op) \<Rightarrow> (nat \<Rightarrow> (scans, halt, nat option) op) \<Rightarrow>
   source \<Rightarrow> literal_kind \<Rightarrow> bool \<Rightarrow> nat \<Rightarrow> unit lexing"
where
  "lex_string iend iclose bs kind raw literal_start =
     bindS here_at (\<lambda>quote_start.
     bindS (on_scans (scan_quoted_literal iend iclose bs literal_start True)) (\<lambda>r.
       case r of
         Some (Terminated lit) \<Rightarrow>
           bindS (goto_byte (content_start lit)) (\<lambda>_.
           bindS (decode_loop iclose bs kind raw (content_end lit) (Suc (length bs)) False [])
             (\<lambda>(interpolates, decoded).
           bindS (goto_byte (q_end lit)) (\<lambda>_.
             if kind = Bytes_lit \<or> decode_utf8 decoded \<noteq> None
             then push_token (string_kind kind interpolates raw) literal_start
             else report_from Lex_Invalid_String literal_start
                    ''string literal is not valid UTF-8'' ''invalid string literal'')))
       | Some (Unterminated end_at) \<Rightarrow>
           bindS (goto_byte end_at) (\<lambda>_. unterminated_string kind (min literal_start quote_start))
       | None \<Rightarrow>
           bindS (goto_byte quote_start) (\<lambda>_.
             unterminated_string Str_lit (min literal_start quote_start))))"

definition unterminated_fmt :: "nat \<Rightarrow> unit lexing" where
  "unterminated_fmt start =
     report_from Lex_Unterminated_Fmt_String start ''unterminated fmt string literal''
       ''fmt string literal starts here''"

definition lex_fmt_string ::
  "(nat \<Rightarrow> (scans, halt, interpolation_end_at) op) \<Rightarrow> (nat \<Rightarrow> (scans, halt, nat option) op) \<Rightarrow>
   source \<Rightarrow> unit lexing"
where
  "lex_fmt_string iend iclose bs =
     bindS here_at (\<lambda>start.
     bindS (on_scans (scan_quoted_literal iend iclose bs start True)) (\<lambda>r.
       case r of
         Some (Terminated lit) \<Rightarrow>
           if q_kind lit = Fmt_lit
           then bindS (goto_byte (q_end lit)) (\<lambda>_. push_token (Fmt_String_k (q_raw lit)) start)
           else bindS (advance 1) (\<lambda>_. unterminated_fmt start)
       | Some (Unterminated end_at) \<Rightarrow>
           bindS (goto_byte end_at) (\<lambda>_. unterminated_fmt start)
       | None \<Rightarrow> unterminated_fmt start))"

definition unterminated_path_fmt :: "nat \<Rightarrow> unit lexing" where
  "unterminated_path_fmt start =
     report_from Lex_Unterminated_Path_Fmt_String start ''unterminated path fmt string literal''
       ''path fmt string literal starts here''"

definition lex_path_fmt_string ::
  "(nat \<Rightarrow> (scans, halt, interpolation_end_at) op) \<Rightarrow> (nat \<Rightarrow> (scans, halt, nat option) op) \<Rightarrow>
   source \<Rightarrow> unit lexing"
where
  "lex_path_fmt_string iend iclose bs =
     bindS here_at (\<lambda>start.
     bindS (on_scans (scan_quoted_literal iend iclose bs start True)) (\<lambda>r.
       case r of
         Some (Terminated lit) \<Rightarrow>
           if q_kind lit = Path_Fmt_lit
           then bindS (goto_byte (q_end lit)) (\<lambda>_. push_token Path_Fmt_String_k start)
           else bindS (advance 1) (\<lambda>_. unterminated_path_fmt start)
       | Some (Unterminated end_at) \<Rightarrow>
           bindS (goto_byte end_at) (\<lambda>_. unterminated_path_fmt start)
       | None \<Rightarrow> bindS (advance 1) (\<lambda>_. unterminated_path_fmt start)))"

section \<open>Habits from other languages\<close>

text \<open>\<open>rest.find(['\'', '\n'])\<close>, kept when it is the quote.\<close>

definition closing_quote :: "u8 list \<Rightarrow> nat option" where
  "closing_quote rest =
     (let prior = takeWhile (\<lambda>b. b \<noteq> 39 \<and> b \<noteq> 10) rest
      in if length prior < length rest \<and> rest ! length prior = 39
         then Some (length prior) else None)"

definition report_single_quoted_text :: "source \<Rightarrow> nat \<Rightarrow> bool lexing" where
  "report_single_quoted_text bs start =
     bindS (sliced bs (start + 1) (length bs)) (\<lambda>rest.
       case closing_quote rest of
         None \<Rightarrow> retS False
       | Some close \<Rightarrow>
           (let text = take close rest
            in bindS (goto_byte (start + 1 + close + 1)) (\<lambda>_. bindS here_at (\<lambda>j.
               bindS (report_with Lex_Unexpected_Character start j
                  ''single quotes do not delimit strings in XSH'' ''XSH strings use double quotes''
                  (if set text \<inter> {34, 92, 36, 123, 125} = {} then Some (34 # text @ [34])
                   else None)) (\<lambda>_.
                 retS True)))))"

text \<open>The offset after the parenthesis that closes the first one, if there is one on the line.\<close>

fun substitution_end :: "nat \<Rightarrow> nat \<Rightarrow> u8 list \<Rightarrow> nat option" where
  "substitution_end depth index [] = None"
| "substitution_end depth index (b # rest) =
     (if b = 40 then substitution_end (depth + 1) (index + 1) rest
      else if b = 41 then
        (if depth - 1 = 0 then Some (index + 1)
         else substitution_end (depth - 1) (index + 1) rest)
      else if b = 10 then None
      else substitution_end depth (index + 1) rest)"

definition report_command_substitution :: "source \<Rightarrow> nat \<Rightarrow> bool lexing" where
  "report_command_substitution bs start =
     (if peek bs (start + 1) \<noteq> Some 40 then retS False
      else
        bindS (goto_byte (case substitution_end 0 0 (drop (start + 1) bs) of
                 Some n \<Rightarrow> start + 1 + n
               | None \<Rightarrow> start + 1)) (\<lambda>_.
        bindS (report_from Lex_Unexpected_Character start
            ''`$(...)` command substitution is shell syntax''
            ''capture a command's output with `run.text COMMAND ?`'') (\<lambda>_.
          retS True)))"

section \<open>One step\<close>

definition unexpected_character :: "source \<Rightarrow> nat \<Rightarrow> unit lexing" where
  "unexpected_character bs start =
     bindS (goto_byte (start +
         (if start < length bs \<and> boundary bs start then lead_width (bs ! start) else 1))) (\<lambda>_.
       report_from Lex_Unexpected_Character start ''unexpected character'' ''not valid in source'')"

text \<open>The tokens of one byte.\<close>

definition single_byte_kind :: "u8 \<Rightarrow> token_kind option" where
  "single_byte_kind b =
     map_of [(40, LParen_k), (41, RParen_k), (123, LBrace_k), (125, RBrace_k), (91, LBracket_k),
       (93, RBracket_k), (44, Comma_k), (58, Colon_k), (59, Semicolon_k), (46, Dot_k), (64, At_k),
       (63, Question_k), (61, Equals_k), (33, Bang_k), (60, Lt_k), (62, Gt_k), (43, Plus_k),
       (45, Minus_k), (42, Star_k), (47, Slash_k), (37, Percent_k), (124, Pipe_k), (38, Amp_k)] b"

definition lex_single_byte :: "source \<Rightarrow> nat \<Rightarrow> u8 \<Rightarrow> unit lexing" where
  "lex_single_byte bs start b =
     bindS (advance 1) (\<lambda>_.
       case single_byte_kind b of
         Some kind \<Rightarrow> push_token kind start
       | None \<Rightarrow>
           bindS (if b = 39 then report_single_quoted_text bs start
                  else if b = 36 then report_command_substitution bs start
                  else retS False) (\<lambda>reported.
             if reported then retS () else unexpected_character bs start))"

text \<open>The tokens of more than one byte with a fixed text, in the order of the arms.\<close>

definition fixed_tokens :: "(u8 list \<times> token_kind) list" where
  "fixed_tokens =
     [(bytes_of ''->'', Arrow_k), (bytes_of ''=>'', Fat_Arrow_k), (bytes_of ''=='', Eq_Eq_k),
      (bytes_of ''!='', Bang_Eq_k), (bytes_of ''<='', Le_k), (bytes_of ''>='', Ge_k),
      (bytes_of ''>>'', Gt_Gt_k), (bytes_of ''??'', Question_Question_k),
      (bytes_of ''|>'', Pipe_Gt_k)]"

definition lex_dollar_ident :: "source \<Rightarrow> nat \<Rightarrow> unit lexing" where
  "lex_dollar_ident bs start =
     bindS (advance 2) (\<lambda>_. bindS (skip_while is_ident_continue bs) (\<lambda>_.
     bindS is_scan_only (\<lambda>only.
       if only then retS ()
       else bindS here_at (\<lambda>j. bindS (sliced bs (start + 1) j) (\<lambda>text.
              push_token (Dollar_Ident_k text) start)))))"

definition lex_fixed :: "source \<Rightarrow> nat \<Rightarrow> token_kind \<Rightarrow> nat \<Rightarrow> unit lexing" where
  "lex_fixed bs start kind n = bindS (advance n) (\<lambda>_. push_token kind start)"

definition lex_quoted ::
  "(nat \<Rightarrow> (scans, halt, interpolation_end_at) op) \<Rightarrow> (nat \<Rightarrow> (scans, halt, nat option) op) \<Rightarrow>
   source \<Rightarrow> literal_form \<Rightarrow> nat \<Rightarrow> unit lexing"
where
  "lex_quoted iend iclose bs form start =
     bindS (advance (length (form_prefix form))) (\<lambda>_.
       if form_kind form = Fmt_lit
       then bindS (goto_byte start) (\<lambda>_. lex_fmt_string iend iclose bs)
       else if form_kind form = Path_Fmt_lit
       then bindS (goto_byte start) (\<lambda>_. lex_path_fmt_string iend iclose bs)
       else lex_string iend iclose bs (form_kind form) (form_raw form) start)"

definition lex_punctuation :: "source \<Rightarrow> nat \<Rightarrow> u8 \<Rightarrow> unit lexing" where
  "lex_punctuation bs start b =
     (if starts_at bs start (bytes_of ''E>>'') then lex_fixed bs start Error_Gt_Gt_k 3
      else if starts_at bs start (bytes_of ''E>'') then lex_fixed bs start Error_Gt_k 2
      else if is_ident_start b then lex_ident_or_keyword bs
      else if is_digit b then lex_number bs
      else if starts_at bs start (bytes_of ''$?'') then lex_fixed bs start Last_Status_k 2
      else if starts_at bs start (bytes_of ''${'') then lex_fixed bs start Dollar_LBrace_k 2
      else if b = 36 \<and> (case peek bs (start + 1) of Some x \<Rightarrow> is_ident_start x | None \<Rightarrow> False)
      then lex_dollar_ident bs start
      else
        (case find (\<lambda>(text, _). starts_at bs start text) fixed_tokens of
           Some (text, kind) \<Rightarrow> lex_fixed bs start kind (length text)
         | None \<Rightarrow> lex_single_byte bs start b))"

definition lex_token ::
  "(nat \<Rightarrow> (scans, halt, interpolation_end_at) op) \<Rightarrow> (nat \<Rightarrow> (scans, halt, nat option) op) \<Rightarrow>
   source \<Rightarrow> unit lexing"
where
  "lex_token iend iclose bs =
     bindS here_at (\<lambda>start.
       case peek bs start of
         None \<Rightarrow> retS ()
       | Some b \<Rightarrow>
           if b = 32 \<or> b = 9 then lex_whitespace bs
           else if b = 92 then lex_line_continuation bs
           else if starts_at bs start [13, 10] then lex_fixed bs start Newline_k 2
           else if b = 10 then lex_fixed bs start Newline_k 1
           else if b = 35 then lex_comment bs
           else
             (case quoted_literal_at bs start of
                Some form \<Rightarrow> lex_quoted iend iclose bs form start
              | None \<Rightarrow> lex_punctuation bs start b))"

section \<open>The end of an f-string interpolation\<close>

definition scanner_at :: "nat \<Rightarrow> scans \<Rightarrow> lexer" where
  "scanner_at start t =
     \<lparr>at_byte = start, token_builder = builder_default, diagnostics = [], symbols = (\<lambda>_. 0),
      scan_only = True, thread_scans = t\<rparr>"

fun end_loop :: "unit lexing \<Rightarrow> source \<Rightarrow> nat \<Rightarrow> nat \<Rightarrow> interpolation_end_at lexing" where
  "end_loop step bs 0 depth = failS Exhausted"
| "end_loop step bs (Suc n) depth =
     bindS (lex_whitespace bs) (\<lambda>_. bindS here_at (\<lambda>token_start.
       if peek bs token_start = None then retS Unclosed
       else if peek bs token_start = Some 35 then retS (Comment_at token_start)
       else
         bindS step (\<lambda>_. bindS (on_scans is_unwinding) (\<lambda>u.
         if u then retS Unclosed
         else
           bindS here_at (\<lambda>i. bindS (if i = token_start then advance 1 else retS ()) (\<lambda>_.
           bindS here_at (\<lambda>j. bindS (sliced bs token_start j) (\<lambda>text.
             if text \<in> {[40], [91], [123], [36, 123]} then end_loop step bs n (depth + 1)
             else if text \<in> {[41], [93]} then end_loop step bs n (depth - 1)
             else if text = [125] \<and> depth = 0 then retS (Close token_start)
             else if text = [125] then end_loop step bs n (depth - 1)
             else end_loop step bs n depth))))))))"

text \<open>A lexer of its own that shares the thread's scans.\<close>

definition run_scanner :: "nat \<Rightarrow> 'a lexing \<Rightarrow> (scans, halt, 'a) op" where
  "run_scanner start m t = (case m (scanner_at start t) of (r, s) \<Rightarrow> (r, thread_scans s))"

fun interpolation_end :: "nat \<Rightarrow> source \<Rightarrow> nat \<Rightarrow> (scans, halt, interpolation_end_at) op"
and interpolation_close :: "nat \<Rightarrow> source \<Rightarrow> nat \<Rightarrow> (scans, halt, nat option) op"
where
  "interpolation_end 0 bs = (\<lambda>start. failS Exhausted)"
| "interpolation_end (Suc n) bs =
     (\<lambda>start. while_open Unclosed (run_scanner start
        (end_loop (lex_token (interpolation_end n bs) (interpolation_close n bs) bs) bs
           (Suc (length bs)) 0)))"
| "interpolation_close 0 bs = (\<lambda>start. failS Exhausted)"
| "interpolation_close (Suc n) bs =
     (\<lambda>start. while_open None
        (close_loop (interpolation_end n bs) (interpolation_close n bs) bs (Suc (length bs)) start 0))"

text \<open>One more than the number of scans that may be open.\<close>

definition nesting_fuel :: nat where
  "nesting_fuel = Suc (unat MAX_NESTING_DEPTH)"

definition scan_literal :: "source \<Rightarrow> nat \<Rightarrow> bool \<Rightarrow> (scans, halt, quoted_scan option) op" where
  "scan_literal bs =
     scan_quoted_literal (interpolation_end nesting_fuel bs) (interpolation_close nesting_fuel bs) bs"

definition next_token :: "source \<Rightarrow> unit lexing" where
  "next_token bs =
     lex_token (interpolation_end nesting_fuel bs) (interpolation_close nesting_fuel bs) bs"

section \<open>The whole source\<close>

definition lexer_new :: "(u8 list \<Rightarrow> u32) \<Rightarrow> scans \<Rightarrow> lexer" where
  "lexer_new symbol t =
     \<lparr>at_byte = 0, token_builder = builder_default, diagnostics = [], symbols = symbol,
      scan_only = False, thread_scans = t\<rparr>"

fun lex_loop :: "source \<Rightarrow> nat \<Rightarrow> unit lexing" where
  "lex_loop bs 0 = failS Exhausted"
| "lex_loop bs (Suc n) =
     bindS here_at (\<lambda>start.
       if length bs \<le> start then retS ()
       else
         bindS (next_token bs) (\<lambda>_. bindS (on_scans take_refused) (\<lambda>r.
         bindS (if r
                then bindS (report_at Parse_Nesting_Depth start (length bs)
                       (''nesting is deeper than '' @ show_nat (unat MAX_NESTING_DEPTH) @ '' levels'')
                       ''the interpolations in this string are nested too deeply; bind an inner string with `let`'')
                     (\<lambda>_. goto_byte (length bs))
                else retS ()) (\<lambda>_. lex_loop bs n))))"

definition lex_source :: "source \<Rightarrow> unit lexing" where
  "lex_source bs =
     bindS (on_scans take_refused) (\<lambda>_.
     bindS (lex_loop bs (Suc (length bs))) (\<lambda>_.
     bindS here_at (\<lambda>i. push_token Eof_k i)))"

text \<open>The table and the diagnostics; lexing starts with no scan open.\<close>

definition lex_compact ::
  "(u8 list \<Rightarrow> u32) \<Rightarrow> source \<Rightarrow> halt + (token_table \<times> diagnostic list)" where
  "lex_compact symbol bs =
     (case lex_source bs (lexer_new symbol fresh_scans) of
        (Inl e, s) \<Rightarrow> Inl e
      | (Inr _, s) \<Rightarrow> Inr (builder_finish (token_builder s), diagnostics s))"

section \<open>Ends of tokens, computed again\<close>

definition scan_number_end :: "source \<Rightarrow> nat \<Rightarrow> token_tag \<Rightarrow> nat" where
  "scan_number_end bs start tag =
     (if peek bs start = Some 48 \<and> peek bs (start + 1) = Some 111
      then
        (let i = scan_while (\<lambda>b. 48 \<le> b \<and> b \<le> 55) bs (start + 2)
         in if case peek bs i of Some b \<Rightarrow> is_ident_continue b | None \<Rightarrow> False
            then scan_while is_ident_continue bs (i + 1) else i)
      else
        (let i = scan_while is_digit bs start;
             j = (if peek bs i = Some 46 \<and>
                    (case peek bs (i + 1) of Some b \<Rightarrow> is_digit b | None \<Rightarrow> False)
                  then scan_while is_digit bs (i + 1) else i);
             k = (if peek bs j \<in> {Some 101, Some 69}
                  then scan_while is_digit bs
                         (if peek bs (j + 1) \<in> {Some 43, Some 45} then j + 2 else j + 1)
                  else j);
             suffix = (if tag = Duration_t then duration_suffix_at bs k
                       else if tag = Int_t then size_suffix_at bs k else None)
         in k + (case suffix of None \<Rightarrow> 0 | Some text \<Rightarrow> length text)))"

definition token_end_by ::
  "(nat \<Rightarrow> bool \<Rightarrow> (scans, halt, quoted_scan option) op) \<Rightarrow> source \<Rightarrow> nat \<Rightarrow> token_tag \<Rightarrow>
     (scans, halt, nat) op" where
  "token_end_by scan bs start tag =
     (if tag = Eof_t then retS start
      else if tag = Newline_t
      then retS (if get_range start (start + 2) bs = Some [13, 10] then start + 2 else start + 1)
      else if tag = Comment_t
      then retS (scan_while (\<lambda>b. \<not> (b = 13 \<or> b = 10)) bs (start + 1))
      else if tag \<in> {Ident_t, Proc_Ident_t, Keyword_t}
      then retS (scan_while (\<lambda>b. is_ident_continue b \<or> b = 45) bs (start + 1))
      else if tag = Dollar_Ident_t then retS (scan_while is_ident_continue bs (start + 2))
      else if tag \<in> {Int_t, Float_t, Duration_t} then retS (scan_number_end bs start tag)
      else if tag \<in> {String_t, Path_String_t, Glob_String_t, Env_String_t, Fmt_String_t,
                Path_Fmt_String_t, Bytes_t, Regex_t}
      then bindS (scan start True) (\<lambda>r.
             retS (case r of
                     Some (Terminated lit) \<Rightarrow> q_end lit
                   | Some (Unterminated i) \<Rightarrow> i
                   | None \<Rightarrow> start))
      else retS (start + fixed_width tag))"

definition token_end :: "source \<Rightarrow> nat \<Rightarrow> token_tag \<Rightarrow> (scans, halt, nat) op" where
  "token_end bs = token_end_by (scan_literal bs) bs"

text \<open>\<open>TokenTable::end_at\<close> and \<open>lex_spellings\<close>, with no scan open.\<close>

definition end_at :: "token_table \<Rightarrow> source \<Rightarrow> nat \<Rightarrow> halt + nat option" where
  "end_at t bs index =
     (case (tag_at t index, start_at t index) of
        (Some tag, Some start) \<Rightarrow>
          (case fst (token_end bs start tag fresh_scans) of Inl e \<Rightarrow> Inl e | Inr j \<Rightarrow> Inr (Some j))
      | _ \<Rightarrow> Inr None)"

end
