(* ===== verification/Xsh_Scan_Correct.thy ===== *)
theory Xsh_Scan_Correct
  imports Xsh_Lexer "HOL-Library.Sublist"
begin

text \<open>
  What the scanner of literals does (\<open>syntax/literal.rs\<close>): it ends, it stops on the boundary of a
  character, and it leaves the thread's scans as it found them. The contract of the two searches for
  a closing brace is the locale \<open>scanners\<close>; \<open>Xsh_Lexer_Correct\<close> interprets it on the searches of
  the lexer. Conditions on runs are computed backwards from the condition at the end, by the
  equations of the collection \<open>wp\<close>.
\<close>

section \<open>What a run ends with\<close>

text \<open>\<open>ends panics m Q s\<close>: the run ends, with a result for which \<open>Q\<close> holds or, where \<open>panics\<close>
  allows it, in a panic; it never exhausts its fuel. The equations compute the condition on the
  state before from the one after.\<close>

definition ends :: "bool \<Rightarrow> ('s, halt, 'a) op \<Rightarrow> ('a \<Rightarrow> 's \<Rightarrow> bool) \<Rightarrow> 's \<Rightarrow> bool" where
  "ends panics m Q s =
     (case m s of
        (Inr a, t) \<Rightarrow> Q a t
      | (Inl e, t) \<Rightarrow> e = Panicked \<and> panics)"

named_theorems wp

lemma ends_ret [wp]: "ends p (retS a) Q = (\<lambda>s. Q a s)"
  by (simp add: fun_eq_iff ends_def)

lemma ends_Pair [wp]:
  "ends p (Pair (Inr a)) Q = Q a" "ends p (Pair (Inl e)) Q = (\<lambda>s. e = Panicked \<and> p)"
  by (simp_all add: fun_eq_iff ends_def)

lemma ends_upd [wp]: "ends p (updS f) Q = (\<lambda>s. Q () (f s))"
  by (simp add: fun_eq_iff ends_def)

lemma ends_fail [wp]: "ends p (failS e) Q = (\<lambda>s. e = Panicked \<and> p)"
  by (simp add: fun_eq_iff ends_def)

lemma ends_bind [wp]: "ends p (bindS m f) Q = (\<lambda>s. ends p m (\<lambda>a. ends p (f a) Q) s)"
  by (simp add: fun_eq_iff ends_def bindS_def split: prod.split sum.split)

lemma ends_here [wp]: "ends p here_at Q = (\<lambda>s. Q (at_byte s) s)"
  by (simp add: fun_eq_iff ends_def here_at_def)

lemma ends_goto [wp]: "ends p (goto_byte i) Q = (\<lambda>s. Q () (s\<lparr>at_byte := i\<rparr>))"
  by (simp add: fun_eq_iff goto_byte_def wp)

lemma ends_advance [wp]: "ends p (advance n) Q = (\<lambda>s. Q () (s\<lparr>at_byte := at_byte s + n\<rparr>))"
  by (simp add: fun_eq_iff advance_def wp)

lemma ends_skip [wp]: "ends p (skip_while P bs) Q = (\<lambda>s. Q () (s\<lparr>at_byte := scan_while P bs (at_byte s)\<rparr>))"
  by (simp add: fun_eq_iff skip_while_def wp)

lemma ends_only [wp]: "ends p is_scan_only Q = (\<lambda>s. Q (scan_only s) s)"
  by (simp add: fun_eq_iff ends_def is_scan_only_def)

lemma ends_unwinding [wp]: "ends p is_unwinding Q = (\<lambda>t. Q (unwinding t) t)"
  by (simp add: fun_eq_iff ends_def is_unwinding_def)

lemma ends_scans [wp]: "ends p (on_scans m) Q = (\<lambda>s. ends p m (\<lambda>a t. Q a (s\<lparr>thread_scans := t\<rparr>)) (thread_scans s))"
  by (simp add: fun_eq_iff ends_def on_scans_def split: prod.split sum.split)

lemma ends_sliced [wp]:
  "ends p (sliced bs i j) Q = (\<lambda>s. (case slice bs i j of None \<Rightarrow> p | Some text \<Rightarrow> Q text s))"
  by (simp add: fun_eq_iff sliced_def wp split: option.split)

lemma ends_if [wp]: "ends p (if c then m else m') Q = (\<lambda>s. (if c then ends p m Q s else ends p m' Q s))"
  by simp

lemma ends_option [wp]:
  "ends p (case x of None \<Rightarrow> m | Some y \<Rightarrow> f y) Q = (\<lambda>s.
     (case x of None \<Rightarrow> ends p m Q s | Some y \<Rightarrow> ends p (f y) Q s))"
  by (simp split: option.split)

lemma ends_mono: "ends p m Q s \<Longrightarrow> (\<And>a t. Q a t \<Longrightarrow> R a t) \<Longrightarrow> ends p m R s"
  by (auto simp: ends_def split: prod.splits sum.splits)

text \<open>The result of a run that ends is the one it returns.\<close>

lemma ends_result: "ends p m Q s \<Longrightarrow> ends p m (\<lambda>a t. Q a t \<and> m s = (Inr a, t)) s"
  by (auto simp: ends_def split: prod.splits sum.splits)

lemma ends_conj: "ends p m Q s \<Longrightarrow> ends p m R s \<Longrightarrow> ends p m (\<lambda>a t. Q a t \<and> R a t) s"
  by (auto simp: ends_def split: prod.splits sum.splits)

section \<open>Sources and their characters\<close>

definition valid_source :: "source \<Rightarrow> bool" where
  "valid_source bs \<longleftrightarrow> (\<exists>s. text_ok s \<and> bs = as_bytes s) \<and> int (length bs) + 1 < 2 ^ 32"

lemma boundary_as_bytes: "boundary (as_bytes s) i \<longleftrightarrow> is_char_boundary s i"
  by (simp add: boundary_def is_char_boundary_def)

lemma boundary_ends [simp]: "boundary bs 0" "boundary bs (length bs)"
  by (simp_all add: boundary_def)

lemma boundary_le: "boundary bs i \<Longrightarrow> i \<le> length bs"
  by (auto simp: boundary_def)

lemma boundary_ascii: "i < length bs \<Longrightarrow> bs ! i < 0x80 \<Longrightarrow> boundary bs i"
  by (simp add: boundary_def continuation_def byte_less_80)

lemma char_after:
  assumes "valid_source bs" and "i < length bs" and "boundary bs i"
  shows "boundary bs (i + lead_width (bs ! i))"
proof -
  obtain s where s: "text_ok s" "bs = as_bytes s" using assms(1) by (auto simp: valid_source_def)
  then obtain a b where ab: "s = a @ b" "i = tlen a"
    using assms(3) boundary_iff [OF s(1)] by (auto simp: boundary_as_bytes)
  then obtain c b' where b: "b = c # b'" using assms(2) s by (cases b) auto
  have sc: "is_scalar c" using s ab b by simp
  then obtain x xs where x: "encode_utf8 c = x # xs" "unat x = (if c < 0x80 then c
      else if c < 0x800 then 0xC0 + c div 64 else if c < 0x10000 then 0xE0 + c div 4096
      else 0xF0 + c div 262144)"
    using encode_head [OF sc] by blast
  have "bs ! i = x" using nth_as_bytes [of 0 c a b'] s ab b x by simp
  moreover have "lead_width x = len_utf8 c"
  proof -
    consider "c < 0x80" | "0x80 \<le> c" "c < 0x800" | "0x800 \<le> c" "c < 0x10000" | "0x10000 \<le> c"
      by linarith
    then show ?thesis
      by cases (use x in \<open>auto simp: lead_width_def len_utf8_def word_less_nat_alt\<close>)
  qed
  ultimately have "i + lead_width (bs ! i) = tlen (a @ [c])" using ab by simp
  moreover have "is_char_boundary s (tlen (a @ [c]))"
    using boundary_append [of "a @ [c]" b'] s(1) ab b by simp
  ultimately show ?thesis using s by (simp add: boundary_as_bytes)
qed

lemma after_ascii:
  assumes "valid_source bs" and "i < length bs" and "bs ! i < 0x80"
  shows "boundary bs (Suc i)"
  using char_after [OF assms(1,2) boundary_ascii [OF assms(2,3)]] assms(3) by (simp add: lead_width_def)

lemma peek_Some: "peek bs i = Some b \<longleftrightarrow> i < length bs \<and> bs ! i = b"
  by (auto simp: peek_def)

lemma peek_None: "peek bs i = None \<longleftrightarrow> length bs \<le> i"
  by (auto simp: peek_def)

lemma after_peek: "valid_source bs \<Longrightarrow> peek bs i = Some b \<Longrightarrow> b < 0x80 \<Longrightarrow> boundary bs (Suc i)"
  by (auto simp: peek_Some after_ascii)

section \<open>Scanning while a condition holds\<close>

lemma scan_while_ge: "i \<le> scan_while P bs i"
  by (simp add: scan_while_def)

lemma scan_while_le: "i \<le> length bs \<Longrightarrow> scan_while P bs i \<le> length bs"
  using length_takeWhile_le [of P "drop i bs"] by (simp add: scan_while_def)

lemma scan_while_beyond: "length bs \<le> i \<Longrightarrow> scan_while P bs i = i"
  by (simp add: scan_while_def)

lemma scan_while_stop: "scan_while P bs i < length bs \<Longrightarrow> \<not> P (bs ! scan_while P bs i)"
  using nth_length_takeWhile [of P "drop i bs"] by (simp add: scan_while_def)

lemma scan_while_inside: "i \<le> j \<Longrightarrow> j < scan_while P bs i \<Longrightarrow> P (bs ! j)"
proof -
  assume j: "i \<le> j" "j < scan_while P bs i"
  then have k: "j - i < length (takeWhile P (drop i bs))" by (simp add: scan_while_def)
  then have "takeWhile P (drop i bs) ! (j - i) = drop i bs ! (j - i)" by (rule takeWhile_nth)
  moreover have "j < length bs"
    using k length_takeWhile_le [of P "drop i bs"] j by simp
  moreover have "P (takeWhile P (drop i bs) ! (j - i))"
    using k by (meson nth_mem set_takeWhileD)
  ultimately show ?thesis using j by simp
qed

lemma scan_while_boundary:
  assumes "valid_source bs" and "boundary bs i" and "\<And>b. P b \<Longrightarrow> b < 0x80"
  shows "boundary bs (scan_while P bs i)"
proof (cases "scan_while P bs i = i")
  case False
  then have less: "i < scan_while P bs i" using scan_while_ge [of i P bs] by simp
  then have le: "scan_while P bs i \<le> length bs"
    using scan_while_le [OF boundary_le [OF assms(2)]] by simp
  have "P (bs ! (scan_while P bs i - 1))" by (rule scan_while_inside [of i]) (use less in auto)
  then show ?thesis
    using after_ascii [OF assms(1), of "scan_while P bs i - 1"] assms(3) less le by simp
qed (use assms in simp)

lemma scan_until_boundary:
  assumes "\<And>b. \<not> P b \<Longrightarrow> b < 0x80" and "i \<le> length bs"
  shows "boundary bs (scan_while P bs i)"
proof (cases "scan_while P bs i < length bs")
  case True
  then show ?thesis using scan_while_stop [OF True] assms(1) by (intro boundary_ascii) auto
next
  case False
  then have "scan_while P bs i = length bs" using scan_while_le [OF assms(2), of P] by simp
  then show ?thesis by simp
qed

section \<open>Scans\<close>

definition scans_ok :: "scans \<Rightarrow> bool" where
  "scans_ok t \<longleftrightarrow> open_scans t \<le> MAX_NESTING_DEPTH"

text \<open>The scans that may still be opened.\<close>

definition room :: "scans \<Rightarrow> nat" where
  "room t = unat (MAX_NESTING_DEPTH - open_scans t)"

definition scans_after :: "scans \<Rightarrow> scans \<Rightarrow> bool" where
  "scans_after t t' \<longleftrightarrow>
     open_scans t' = open_scans t \<and> (refused t \<longrightarrow> refused t') \<and>
     (unwinding t' \<longrightarrow> unwinding t \<or> open_scans t \<noteq> 0 \<and> refused t')"

lemma scans_after_refl [simp]: "scans_after t t"
  by (simp add: scans_after_def)

lemma scans_after_trans: "scans_after t u \<Longrightarrow> scans_after u v \<Longrightarrow> scans_after t v"
  by (auto simp: scans_after_def)

lemma scans_after_ok: "scans_after t t' \<Longrightarrow> scans_ok t' \<longleftrightarrow> scans_ok t"
  by (simp add: scans_after_def scans_ok_def)

lemma scans_after_room: "scans_after t t' \<Longrightarrow> room t' = room t"
  by (simp add: scans_after_def room_def)

lemma scans_after_idle:
  "scans_after t t' \<Longrightarrow> open_scans t = 0 \<Longrightarrow> \<not> unwinding t \<Longrightarrow> \<not> refused t' \<Longrightarrow> t' = fresh_scans"
  by (auto simp: scans_after_def fresh_scans_def)

lemma room_opened:
  assumes "open_scans t < MAX_NESTING_DEPTH"
  shows "room t = Suc (room (t\<lparr>open_scans := open_scans t + 1\<rparr>))"
    and "scans_ok (t\<lparr>open_scans := open_scans t + 1\<rparr>)"
    and "open_scans t + 1 \<noteq> 0"
proof -
  have less: "unat (open_scans t) < 128"
    using assms by (simp add: MAX_NESTING_DEPTH_def word_less_nat_alt)
  then have one: "unat (open_scans t + 1) = unat (open_scans t) + 1"
    by (simp add: unat_word_ariths)
  then show "open_scans t + 1 \<noteq> 0" by (metis Suc_eq_plus1 nat.distinct(1) unat_0)
  show "scans_ok (t\<lparr>open_scans := open_scans t + 1\<rparr>)"
    using less one by (simp add: scans_ok_def MAX_NESTING_DEPTH_def word_le_nat_alt)
  show "room t = Suc (room (t\<lparr>open_scans := open_scans t + 1\<rparr>))"
    using less one by (simp add: room_def MAX_NESTING_DEPTH_def unat_sub_if' word_le_nat_alt)
qed

lemma ends_scan_open [wp]:
  "ends p scan_open Q = (\<lambda>t.
     (if \<not> unwinding t \<and> open_scans t < MAX_NESTING_DEPTH
      then Q True (t\<lparr>open_scans := open_scans t + 1\<rparr>)
      else Q False (t\<lparr>refused := True, unwinding := True\<rparr>)))"
  by (simp add: fun_eq_iff ends_def scan_open_def Let_def)

lemma ends_while_open:
  assumes "scans_ok t"
    and "\<And>t'. scans_after t t' \<Longrightarrow> Q refusal t'"
    and "\<And>u. scans_ok u \<Longrightarrow> room t = Suc (room u) \<Longrightarrow>
      ends p m (\<lambda>a v. scans_after u v \<and> (\<forall>t'. scans_after t t' \<longrightarrow> Q a t')) u"
  shows "ends p (while_open refusal m) Q t"
proof (cases "\<not> unwinding t \<and> open_scans t < MAX_NESTING_DEPTH")
  case True
  let ?u = "t\<lparr>open_scans := open_scans t + 1\<rparr>"
  have "ends p m (\<lambda>a v. scans_after ?u v \<and> (\<forall>t'. scans_after t t' \<longrightarrow> Q a t')) ?u"
    using room_opened True by (intro assms(3)) auto
  then have "ends p m (\<lambda>a v. Q a (scan_drop v)) ?u"
    by (rule ends_mono)
      (use True room_opened(3) [of t] in \<open>auto simp: scans_after_def scan_drop_def Let_def\<close>)
  then show ?thesis using True by (simp add: while_open_def wp)
next
  case False
  then have "scans_after t (t\<lparr>refused := True, unwinding := True\<rparr>)"
    using assms(1) by (auto simp: scans_after_def scans_ok_def MAX_NESTING_DEPTH_def)
  from assms(2) [OF this] show ?thesis
    using False by (auto simp: while_open_def wp)
qed

section \<open>Where the code may panic\<close>

text \<open>Every \<open>\x\<close> is followed by two bytes that are not cut out of a character.\<close>

definition plain_hex :: "source \<Rightarrow> bool" where
  "plain_hex bs \<longleftrightarrow>
     (\<forall>i < length bs. peek bs i = Some 92 \<and> peek bs (i + 1) = Some 120 \<and> i + 4 \<le> length bs \<longrightarrow>
        boundary bs (i + 4))"

abbreviation ends_in :: "source \<Rightarrow> ('s, halt, 'a) op \<Rightarrow> ('a \<Rightarrow> 's \<Rightarrow> bool) \<Rightarrow> 's \<Rightarrow> bool" where
  "ends_in bs \<equiv> ends (\<not> plain_hex bs)"

section \<open>Literals\<close>

lemma quoted_literal_at_Some:
  assumes "quoted_literal_at bs start = Some form"
  shows "starts_at bs start (form_prefix form) \<and> peek bs (start + length (form_prefix form)) = Some 34 \<and>
    form \<in> set literal_forms"
  using assms by (auto simp: quoted_literal_at_def find_Some_iff split: if_splits)

lemma escape_end_bounds:
  assumes "i < length bs"
  shows "i < escape_end bs i" "escape_end bs i \<le> length bs"
proof -
  let ?c = "scan_while is_hexdigit bs (i + 3)"
  have ge: "i + 3 \<le> ?c" by (rule scan_while_ge)
  show "i < escape_end bs i" using assms ge by (auto simp: escape_end_def Let_def)
  have "?c \<le> length bs" if "peek bs (i + 2) = Some 123"
    using that by (intro scan_while_le) (auto simp: peek_Some)
  then show "escape_end bs i \<le> length bs"
    using assms by (auto simp: escape_end_def Let_def peek_Some)
qed

definition literal_found :: "source \<Rightarrow> quoted_literal \<Rightarrow> nat \<Rightarrow> quoted_scan \<Rightarrow> bool" where
  "literal_found bs lit i r =
     (case r of
        Terminated l \<Rightarrow>
          q_kind l = q_kind lit \<and> q_raw l = q_raw lit \<and> delimiter_len l = delimiter_len lit \<and>
          content_start l = content_start lit \<and> i \<le> content_end l \<and>
          q_end l = content_end l + delimiter_len l \<and> q_end l \<le> length bs \<and>
          boundary bs (content_end l) \<and> boundary bs (q_end l)
      | Unterminated j \<Rightarrow> i \<le> j \<and> boundary bs j)"

lemma literal_found_mono: "i \<le> j \<Longrightarrow> literal_found bs lit j r \<Longrightarrow> literal_found bs lit i r"
  by (auto simp: literal_found_def split: quoted_scan.splits)

text \<open>The two searches for a closing brace as their callers see them, with fuel for \<open>n\<close> open scans.\<close>

locale scanners =
  fixes bs :: source and n :: nat
    and iend :: "nat \<Rightarrow> (scans, halt, interpolation_end_at) op"
    and iclose :: "nat \<Rightarrow> (scans, halt, nat option) op"
  assumes iend_ends: "valid_source bs \<Longrightarrow> scans_ok t \<Longrightarrow> room t < n \<Longrightarrow> boundary bs start \<Longrightarrow>
      ends_in bs (iend start) (\<lambda>r t'. scans_after t t' \<and>
        (case r of
           Close j \<Rightarrow> start \<le> j \<and> peek bs j = Some 125
         | Comment_at j \<Rightarrow> start \<le> j \<and> peek bs j = Some 35
         | Unclosed \<Rightarrow> True)) t"
    and iclose_ends: "valid_source bs \<Longrightarrow> scans_ok t \<Longrightarrow> room t < n \<Longrightarrow> start \<le> length bs \<Longrightarrow>
      ends_in bs (iclose start) (\<lambda>r t'. scans_after t t' \<and>
        (\<forall>j. r = Some j \<longrightarrow> start \<le> j \<and> peek bs j = Some 125)) t"
begin

lemma quoted_loop_ends:
  assumes valid: "valid_source bs" and delim: "delimiter_len lit = 1 \<or> delimiter_len lit = 3"
  shows "scans_ok t \<Longrightarrow> room t < n \<Longrightarrow> i \<le> length bs \<Longrightarrow> length bs - i < fuel \<Longrightarrow>
    ends_in bs (quoted_loop iend iclose bs stop lit fuel i)
      (\<lambda>r t'. scans_after t t' \<and> literal_found bs lit i r) t"
proof (induction fuel arbitrary: i t)
  case (Suc fuel)
  have next_loop: "ends_in bs (quoted_loop iend iclose bs stop lit fuel j)
      (\<lambda>r t'. scans_after t t' \<and> literal_found bs lit i r) u"
    if "i < j" "j \<le> length bs" "scans_after t u" for j u
    by (rule ends_mono [OF Suc.IH])
      (use that Suc.prems in \<open>auto simp: scans_after_ok scans_after_room
        intro: scans_after_trans literal_found_mono [of i j]\<close>)
  have unwound: "ends_in bs (unless_unwinding bs (quoted_loop iend iclose bs stop lit fuel j))
      (\<lambda>r t'. scans_after t t' \<and> literal_found bs lit i r) u"
    if "i < j" "j \<le> length bs" "scans_after t u" for j u
    using next_loop [OF that] that Suc.prems(3)
    by (simp add: unless_unwinding_def wp literal_found_def)
  have brace: "ends_in bs (iend (i + 1)) (\<lambda>r t'. scans_after t t' \<and>
      (case r of Close j \<Rightarrow> i + 1 \<le> j \<and> peek bs j = Some 125
         | Comment_at j \<Rightarrow> i + 1 \<le> j \<and> peek bs j = Some 35 | Unclosed \<Rightarrow> True)) t"
    if "i < length bs" "bs ! i = 123"
    using iend_ends [OF valid Suc.prems(1,2), of "i + 1"] after_ascii [OF valid that(1)] that(2) by simp
  have dollar: "ends_in bs (iclose (i + 2)) (\<lambda>r t'. scans_after t t' \<and>
      (\<forall>j. r = Some j \<longrightarrow> i + 2 \<le> j \<and> peek bs j = Some 125)) t"
    if "peek bs (i + 1) = Some 123"
    using iclose_ends [OF valid Suc.prems(1,2), of "i + 2"] that by (simp add: peek_Some)
  let ?c = "bs ! i"
  consider (eof) "length bs \<le> i"
    | (triple) "i < length bs" "delimiter_len lit = 3" "get_range i (i + 3) bs = Some quotes3"
    | (single) "i < length bs" "delimiter_len lit = 1" "?c = 34"
    | (fmt) "i < length bs" "\<not> (delimiter_len lit = 3 \<and> get_range i (i + 3) bs = Some quotes3)"
        "\<not> (delimiter_len lit = 1 \<and> ?c = 34)" "fmt_interpolates (q_kind lit) (q_raw lit)"
        "?c = 123 \<or> ?c = 125"
    | (plain) "i < length bs" "\<not> (delimiter_len lit = 3 \<and> get_range i (i + 3) bs = Some quotes3)"
        "\<not> (delimiter_len lit = 1 \<and> ?c = 34)"
        "\<not> (fmt_interpolates (q_kind lit) (q_raw lit) \<and> (?c = 123 \<or> ?c = 125))"
    by linarith
  then show ?case
  proof cases
    case eof
    then have "i = length bs" using Suc.prems(3) by simp
    then show ?thesis by (simp add: wp literal_found_def)
  next
    case triple
    then have q: "i + 3 \<le> length bs" "take 3 (drop i bs) = [34, 34, 34]"
      by (auto simp: get_range_Some quotes3_def)
    then have "take 3 (drop i bs) ! k = 34" if "k < 3" for k
      using that by (auto simp: less_Suc_eq numeral_3_eq_3)
    then have "bs ! (i + k) = 34" if "k < 3" for k
      using that q(1) by force
    from this [of 0] this [of 2] show ?thesis
      using triple q(1) after_ascii [OF valid, of "i + 2"] boundary_ascii [of i bs]
      by (simp add: wp literal_found_def numeral_3_eq_3)
  next
    case single
    then show ?thesis
      using after_ascii [OF valid, of i] boundary_ascii [of i bs]
      by (simp add: wp literal_found_def)
  next
    case fmt
    have step: "ends_in bs (unless_unwinding bs (quoted_loop iend iclose bs stop lit fuel (i + w)))
        (\<lambda>r t'. scans_after t t' \<and> literal_found bs lit i r) u"
      if "0 < w" "i + w \<le> length bs" "scans_after t u" for w u
      using unwound [of "i + w" u] that by simp
    show ?thesis
    proof (cases "peek bs (i + 1) = Some ?c")
      case True
      then have "i + 2 \<le> length bs" by (auto simp: peek_Some)
      then show ?thesis using fmt True step [of 2 t] by (auto simp: wp)
    next
      case False
      show ?thesis
      proof (cases "?c = 123")
        case True
        show ?thesis
          using fmt False True brace
          by (auto simp: wp peek_Some intro!: step elim!: ends_mono split: interpolation_end_at.splits)
      qed (use fmt False step [of 1 t] in \<open>auto simp: wp\<close>)
    qed
  next
    case plain
    show ?thesis
    proof (cases "command_string_interpolates (q_kind lit) (q_raw lit) \<and> ?c = 36 \<and> peek bs (i + 1) = Some 123")
      case True
      then have "i + 2 \<le> length bs" by (auto simp: peek_Some)
      then show ?thesis
        using plain True dollar
        by (auto simp: wp peek_Some intro!: unwound elim!: ends_mono split: option.splits)
    next
      case False
      then show ?thesis
        using plain escape_end_bounds [of i bs] next_loop [of "i + 1" t] next_loop [of "escape_end bs i" t]
          boundary_ascii [of i bs]
        by (auto simp: wp literal_found_def)
    qed
  qed
qed simp

end

section \<open>Steps of the lexer\<close>

lemma scan_while_gt: "i < length bs \<Longrightarrow> P (bs ! i) \<Longrightarrow> i < scan_while P bs i"
  by (simp add: scan_while_def Cons_nth_drop_Suc [symmetric])

lemma ends_report_with [wp]:
  "ends p (report_with code i j message label fix) Q =
     (\<lambda>s. if span_ok i j
          then Q () (s\<lparr>diagnostics := diagnostics s @
            [\<lparr>diag_code = code, diag_span = (i, j), diag_message = message, diag_label = label,
              diag_fix = fix\<rparr>]\<rparr>)
          else p)"
  by (simp add: fun_eq_iff report_with_def wp)

lemma ends_push_token [wp]:
  "ends p (push_token kind start) Q =
     (\<lambda>s. if scan_only s then Q () s
          else (case push_kind (symbols s) kind start (token_builder s) of
                  None \<Rightarrow> p | Some (ident, b) \<Rightarrow> Q () (s\<lparr>token_builder := b\<rparr>)))"
  by (simp add: fun_eq_iff ends_def push_token_def split: option.split)

lemma ends_push_continuation [wp]:
  "ends p (push_continuation start) Q =
     (\<lambda>s. if scan_only s then Q () s
          else (case push_line_continuation start (token_builder s) of
                  None \<Rightarrow> p | Some b \<Rightarrow> Q () (s\<lparr>token_builder := b\<rparr>)))"
  by (simp add: fun_eq_iff ends_def push_continuation_def split: option.split)

text \<open>A run that leaves the tokens alone and at most adds diagnostics.\<close>

definition same_tokens :: "lexer \<Rightarrow> lexer \<Rightarrow> bool" where
  "same_tokens s s' \<longleftrightarrow>
     token_builder s' = token_builder s \<and> symbols s' = symbols s \<and> scan_only s' = scan_only s \<and>
     prefix (diagnostics s) (diagnostics s') \<and> scans_after (thread_scans s) (thread_scans s')"

lemma same_tokens_refl [simp]: "same_tokens s s"
  by (simp add: same_tokens_def)

lemma same_tokens_trans: "same_tokens s t \<Longrightarrow> same_tokens t u \<Longrightarrow> same_tokens s u"
  by (auto simp: same_tokens_def intro: prefix_order.trans scans_after_trans)

lemma same_tokens_goto [simp]: "same_tokens s (t\<lparr>at_byte := i\<rparr>) \<longleftrightarrow> same_tokens s t"
  by (simp add: same_tokens_def)

lemma same_tokens_report: "same_tokens s t \<Longrightarrow> same_tokens s (t\<lparr>diagnostics := diagnostics t @ ds\<rparr>)"
  by (auto simp: same_tokens_def)

lemma same_tokens_scans:
  "same_tokens s t \<Longrightarrow> scans_after (thread_scans t) u \<Longrightarrow> same_tokens s (t\<lparr>thread_scans := u\<rparr>)"
  by (auto simp: same_tokens_def intro: scans_after_trans)

lemma span_in_source:
  "valid_source bs \<Longrightarrow> i \<le> j \<Longrightarrow> j \<le> length bs + 1 \<Longrightarrow> span_ok i j"
  by (auto simp: span_ok_def valid_source_def)

text \<open>What is known of a scan that found a literal.\<close>

definition scan_found :: "source \<Rightarrow> literal_form \<Rightarrow> nat \<Rightarrow> quoted_scan \<Rightarrow> bool" where
  "scan_found bs form start r =
     (case r of
        Terminated l \<Rightarrow>
          q_kind l = form_kind form \<and> q_raw l = form_raw form \<and>
          start + length (form_prefix form) < content_start l \<and> content_start l \<le> content_end l \<and>
          content_end l < q_end l \<and> boundary bs (content_start l) \<and> boundary bs (content_end l) \<and>
          boundary bs (q_end l)
      | Unterminated j \<Rightarrow> start + length (form_prefix form) < j \<and> boundary bs j)"

context scanners
begin

lemma scan_quoted_ends:
  assumes "valid_source bs" and "scans_ok t" and "room t < n" and form: "quoted_literal_at bs start = Some form"
  shows "ends_in bs (scan_quoted_literal iend iclose bs start stop)
    (\<lambda>r t'. scans_after t t' \<and> (\<exists>sc. r = Some sc \<and> scan_found bs form start sc)) t"
proof -
  define quote where "quote = start + length (form_prefix form)"
  define delim where "delim = (if get_range quote (quote + 3) bs = Some quotes3 then 3 else 1 :: nat)"
  define lit where "lit = \<lparr>q_kind = form_kind form, q_raw = form_raw form, delimiter_len = delim,
    content_start = quote + delim, content_end = quote + delim, q_end = quote + delim\<rparr>"
  have "quote < length bs" using quoted_literal_at_Some [OF form] by (simp add: peek_Some quote_def)
  then have le: "quote + delim \<le> length bs" by (auto simp: get_range_Some delim_def)
  have delim: "delim = 1 \<or> delim = 3" by (simp add: delim_def)
  have from_q: "boundary bs (quote + delim)"
  proof (cases "delim = 3")
    case True
    then have "get_range quote (quote + 3) bs = Some quotes3" by (simp add: delim_def split: if_splits)
    then have q: "quote + 3 \<le> length bs" "take 3 (drop quote bs) = [34, 34, 34]"
      by (auto simp: get_range_Some quotes3_def)
    then have "take 3 (drop quote bs) ! 2 = 34" by simp
    then have "bs ! (quote + 2) = 34" using q(1) by simp
    then show ?thesis using after_ascii [OF assms(1), of "quote + 2"] q(1) True by (simp add: numeral_3_eq_3)
  next
    case False
    then have "delim = 1" using delim by simp
    moreover have "peek bs quote = Some 34" using quoted_literal_at_Some [OF form] by (simp add: quote_def)
    ultimately show ?thesis using after_peek [OF assms(1), of quote 34] by simp
  qed
  have found: "scan_found bs form start r" if "literal_found bs lit (quote + delim) r" for r
    using that delim from_q by (auto simp: literal_found_def scan_found_def lit_def quote_def split: quoted_scan.splits)
  have "ends_in bs (quoted_loop iend iclose bs stop lit (Suc (length bs)) (quote + delim))
      (\<lambda>r t'. scans_after t t' \<and> literal_found bs lit (quote + delim) r) t"
    by (rule quoted_loop_ends [OF assms(1) _ assms(2,3) le]) (use delim in \<open>simp_all add: lit_def\<close>)
  moreover have "scan_quoted_literal iend iclose bs start stop =
      bindS (quoted_loop iend iclose bs stop lit (Suc (length bs)) (quote + delim)) (\<lambda>r. retS (Some r))"
    by (simp add: scan_quoted_literal_def form Let_def lit_def quote_def delim_def del: quoted_loop.simps)
  ultimately show ?thesis
    by (simp only: wp) (erule ends_mono, auto intro: found)
qed

lemma scan_quoted_none:
  "quoted_literal_at bs start = None \<Longrightarrow> scan_quoted_literal iend iclose bs start stop t = (Inr None, t)"
  by (simp add: scan_quoted_literal_def)

lemma skip_string_ends:
  assumes "valid_source bs" and "scans_ok t" and "room t < n" and "quoted_literal_at bs i = Some form"
  shows "ends_in bs (skip_string_in_expr iend iclose bs i)
    (\<lambda>r t'. scans_after t t' \<and> (\<forall>j. r = Some j \<longrightarrow> i < j \<and> j \<le> length bs)) t"
proof -
  have "i < j \<and> j \<le> length bs" if "scan_found bs form i (Terminated l)" "j = q_end l" for l j
    using that by (auto simp: scan_found_def intro: boundary_le)
  then show ?thesis
    unfolding skip_string_in_expr_def ends_bind ends_ret
    by (intro ends_mono [OF scan_quoted_ends [OF assms]]) (auto split: quoted_scan.splits)
qed

lemma close_loop_ends:
  assumes valid: "valid_source bs"
  shows "scans_ok t \<Longrightarrow> room t < n \<Longrightarrow> i \<le> length bs \<Longrightarrow> length bs - i < fuel \<Longrightarrow>
    ends_in bs (close_loop iend iclose bs fuel i depth)
      (\<lambda>r t'. scans_after t t' \<and> (\<forall>j. r = Some j \<longrightarrow> i \<le> j \<and> peek bs j = Some 125)) t"
proof (induction fuel arbitrary: i depth t)
  case (Suc fuel)
  have next_loop: "ends_in bs (close_loop iend iclose bs fuel j d)
      (\<lambda>r t'. scans_after t t' \<and> (\<forall>j. r = Some j \<longrightarrow> i \<le> j \<and> peek bs j = Some 125)) u"
    if "i < j" "j \<le> length bs" "scans_after t u" for j d u
    by (rule ends_mono [OF Suc.IH])
      (use that Suc.prems in \<open>auto simp: scans_after_ok scans_after_room intro: scans_after_trans\<close>)
  show ?case
  proof (cases "i < length bs")
    case False
    then show ?thesis using Suc.prems(3) by (simp add: wp)
  next
    case less: True
    show ?thesis
    proof (cases "quoted_literal_at bs i")
      case (Some form)
      show ?thesis
        using less Some skip_string_ends [OF valid Suc.prems(1,2) Some]
        by (auto simp: wp intro!: next_loop elim!: ends_mono split: option.splits)
    next
      case None
      have hash: "i < scan_while (\<lambda>b. b \<noteq> 13 \<and> b \<noteq> 10) bs i" if "bs ! i = 35"
        using less that by (intro scan_while_gt) auto
      moreover have "peek bs i = Some (bs ! i)" using less by (simp add: peek_Some)
      ultimately show ?thesis
        using less None scan_while_le [of i bs "\<lambda>b. b \<noteq> 13 \<and> b \<noteq> 10"]
        by (auto simp: wp intro!: next_loop)
    qed
  qed
qed simp

end

declare quoted_loop.simps [simp del] close_loop.simps [simp del]

lemma slice_Some:
  "i \<le> j \<Longrightarrow> boundary bs i \<Longrightarrow> boundary bs j \<Longrightarrow> slice bs i j = Some (take (j - i) (drop i bs))"
  by (simp add: slice_def get_range_def boundary_le)

lemma ends_invalid_escape:
  "valid_source bs \<Longrightarrow> i < length bs \<Longrightarrow> j \<le> length bs \<Longrightarrow>
     ends p (invalid_escape i j) (\<lambda>_ s'. same_tokens s s' \<and> at_byte s' = at_byte s) s"
  by (simp add: invalid_escape_def report_at_def wp span_in_source same_tokens_report)

lemma ends_report_same:
  "valid_source bs \<Longrightarrow> i \<le> at_byte s \<Longrightarrow> at_byte s \<le> length bs \<Longrightarrow>
     ends p (report_from code i message label) (\<lambda>_ s'. same_tokens s s' \<and> at_byte s' = at_byte s) s"
  by (simp add: report_from_def report_at_def wp span_in_source same_tokens_report)

text \<open>A run that stays in the source, as the parts of a literal do.\<close>

definition moves_on :: "source \<Rightarrow> lexer \<Rightarrow> lexer \<Rightarrow> bool" where
  "moves_on bs s s' \<longleftrightarrow> same_tokens s s' \<and> at_byte s \<le> at_byte s' \<and> at_byte s' \<le> length bs"

lemma moves_on_trans: "moves_on bs s t \<Longrightarrow> moves_on bs t u \<Longrightarrow> moves_on bs s u"
  by (auto simp: moves_on_def intro: same_tokens_trans)

lemma decode_hex_ends:
  assumes valid: "valid_source bs" and s: "at_byte s = e + 2" "at_byte s \<le> length bs"
    and esc: "peek bs e = Some 92" "peek bs (e + 1) = Some 120"
  shows "ends_in bs (decode_hex bs e) (\<lambda>_. moves_on bs s) s"
proof -
  have bd: "boundary bs (e + 2)" using after_peek [OF valid esc(2)] by simp
  have inv: "ends_in bs (invalid_escape e (e + 2)) (\<lambda>_ s'. moves_on bs s s') s"
    by (rule ends_mono [OF ends_invalid_escape [OF valid]])
      (use s esc in \<open>auto simp: peek_Some moves_on_def\<close>)
  have sl: "slice bs (e + 2) (e + 4) \<noteq> None" if "plain_hex bs" "e + 4 \<le> length bs"
  proof -
    have "boundary bs (e + 4)" using that esc by (auto simp: plain_hex_def peek_Some)
    then show ?thesis using slice_Some [OF _ bd] by simp
  qed
  show ?thesis
    using inv s sl
    by (auto simp: decode_hex_def wp moves_on_def numeral_eq_Suc split: option.split)
qed

lemma decode_unicode_ends:
  assumes valid: "valid_source bs" and s: "at_byte s = e + 2"
    and esc: "peek bs e = Some 92" "peek bs (e + 2) = Some 123"
  shows "ends_in bs (decode_unicode bs e) (\<lambda>_. moves_on bs s) s"
proof -
  let ?j = "scan_while is_hexdigit bs (e + 3)"
  have "boundary bs (Suc (e + 2))" by (rule after_peek [OF valid esc(2)]) simp
  then have bd: "boundary bs (e + 3)" by (simp add: numeral_3_eq_3)
  have ge: "e + 3 \<le> ?j" by (rule scan_while_ge)
  have le: "?j \<le> length bs" using boundary_le [OF bd] by (rule scan_while_le)
  have sl: "slice bs (e + 3) ?j \<noteq> None" if "peek bs ?j = Some 125"
    using slice_Some [OF ge bd boundary_ascii] that by (auto simp: peek_Some)
  have inv: "ends_in bs (invalid_escape e i) (\<lambda>_ s'. moves_on bs s s') (s\<lparr>at_byte := i\<rparr>)"
    if "e + 2 \<le> i" "i \<le> length bs" for i
    by (rule ends_mono [OF ends_invalid_escape [OF valid _ that(2)]])
      (use s esc that in \<open>auto simp: peek_Some moves_on_def same_tokens_def\<close>)
  show ?thesis
    using s sl ge le inv [of ?j] inv [of "Suc ?j"]
    by (auto simp: decode_unicode_def wp moves_on_def peek_Some numeral_eq_Suc split: option.split)
qed

lemma decode_escape_ends:
  assumes valid: "valid_source bs" and s: "at_byte s = e + 1" "e + 1 \<le> length bs"
    and esc: "peek bs e = Some 92"
  shows "ends_in bs (decode_escape bs in_bytes e) (\<lambda>_. moves_on bs s) s"
proof (cases "peek bs (e + 1)")
  case None
  have "ends_in bs (invalid_escape e (e + 1)) (\<lambda>_ s'. moves_on bs s s') s"
    by (rule ends_mono [OF ends_invalid_escape [OF valid]])
      (use s esc in \<open>auto simp: peek_Some moves_on_def\<close>)
  then show ?thesis using None s by (simp add: decode_escape_def wp)
next
  case (Some b)
  let ?s = "s\<lparr>at_byte := e + 2\<rparr>"
  have le: "e + 2 \<le> length bs" using Some by (simp add: peek_Some)
  have on: "moves_on bs s u" if "moves_on bs ?s u" for u
    using that s by (auto simp: moves_on_def same_tokens_def)
  have inv: "ends_in bs (invalid_escape e (e + 2)) (\<lambda>_ s'. moves_on bs s s') ?s"
    by (rule ends_mono [OF ends_invalid_escape [OF valid]])
      (use s esc le in \<open>auto simp: peek_Some moves_on_def same_tokens_def\<close>)
  have rep: "ends_in bs (report_from code e message label) (\<lambda>_ s'. moves_on bs s s') ?s"
    for code message label
    by (rule ends_mono [OF ends_report_same [OF valid]])
      (use s le in \<open>auto simp: moves_on_def same_tokens_def\<close>)
  have hex: "ends_in bs (decode_hex bs e) (\<lambda>_. moves_on bs s) ?s" if "b = 120"
    by (rule ends_mono [OF decode_hex_ends [OF valid]]) (use that s esc le Some on in auto)
  have uni: "ends_in bs (decode_unicode bs e) (\<lambda>_. moves_on bs s) ?s" if "peek bs (e + 2) = Some 123"
    by (rule ends_mono [OF decode_unicode_ends [OF valid]]) (use that s esc on in auto)
  have stay: "moves_on bs s ?s" using s le by (simp add: moves_on_def)
  show ?thesis
    using Some s inv rep hex uni stay by (simp add: decode_escape_def wp)
qed

context scanners
begin

lemma decode_loop_ends:
  assumes valid: "valid_source bs" and stop: "stop \<le> length bs"
  shows "scans_ok (thread_scans s) \<Longrightarrow> room (thread_scans s) < n \<Longrightarrow> at_byte s \<le> length bs \<Longrightarrow>
    length bs - at_byte s < fuel \<Longrightarrow>
    ends_in bs (decode_loop iclose bs kind raw stop fuel x decoded) (\<lambda>_. moves_on bs s) s"
proof (induction fuel arbitrary: s x decoded)
  case (Suc fuel)
  let ?i = "at_byte s"
  have next_loop: "ends_in bs (decode_loop iclose bs kind raw stop fuel y more) (\<lambda>_. moves_on bs s) u"
    if "moves_on bs s u" "?i < at_byte u" for u y more
    by (rule ends_mono [OF Suc.IH])
      (use that Suc.prems in \<open>auto simp: moves_on_def same_tokens_def scans_after_ok scans_after_room
        intro: prefix_order.trans scans_after_trans\<close>)
  show ?case
  proof (cases "?i < stop")
    case False
    then show ?thesis using Suc.prems(3) by (simp add: wp moves_on_def)
  next
    case True
    define b where "b = bs ! ?i"
    have pk: "peek bs ?i = Some b" using True stop by (simp add: peek_Some b_def)
    consider (dollar) "b = 36" "peek bs (?i + 1) = Some 123" "kind = Str_lit" "\<not> raw"
      | (escape) "\<not> (b = 36 \<and> peek bs (?i + 1) = Some 123 \<and> kind = Str_lit \<and> \<not> raw)" "b = 92" "\<not> raw"
      | (plain) "\<not> (b = 36 \<and> peek bs (?i + 1) = Some 123 \<and> kind = Str_lit \<and> \<not> raw)" "\<not> (b = 92 \<and> \<not> raw)"
      by blast
    then show ?thesis
    proof cases
      case dollar
      have le: "?i + 2 \<le> length bs" using dollar by (simp add: peek_Some)
      have raw: "raw = False" using dollar by simp
      have go: "ends_in bs (decode_loop iclose bs kind raw stop fuel y more) (\<lambda>_. moves_on bs s)
          (s\<lparr>thread_scans := t, at_byte := j\<rparr>)"
        if "scans_after (thread_scans s) t" "?i < j" "j \<le> length bs" for t j y more
        by (rule next_loop) (use that in \<open>simp_all add: moves_on_def same_tokens_scans\<close>)
      have "ends_in bs (iclose (?i + 2)) (\<lambda>r t. scans_after (thread_scans s) t \<and>
          (\<forall>j. r = Some j \<longrightarrow> ?i + 2 \<le> j \<and> j + 1 \<le> length bs)) (thread_scans s)"
        by (rule ends_mono [OF iclose_ends [OF valid Suc.prems(1,2) le]]) (auto simp: peek_Some)
      then show ?thesis
        using True pk dollar le
        by (auto simp: wp intro!: go [unfolded dollar(3) raw] elim!: ends_mono
            split: option.splits)
    next
      case escape
      have raw: "raw = False" using escape by simp
      have "ends_in bs (decode_escape bs (kind = Bytes_lit) ?i) (\<lambda>_ u. moves_on bs s u \<and> ?i < at_byte u)
          (s\<lparr>at_byte := ?i + 1\<rparr>)"
        by (rule ends_mono [OF decode_escape_ends [OF valid]])
          (use escape pk in \<open>auto simp: peek_Some moves_on_def same_tokens_def\<close>)
      then show ?thesis
        using True pk escape by (auto simp: wp intro!: next_loop [unfolded raw] elim!: ends_mono)
    next
      case plain
      have "moves_on bs s (s\<lparr>at_byte := ?i + 1\<rparr>)" using pk by (simp add: moves_on_def peek_Some)
      then show ?thesis using True pk plain next_loop [of "s\<lparr>at_byte := ?i + 1\<rparr>"] by (auto simp: wp)
    qed
  qed
qed simp

end

end
