(* ===== verification/Xsh_Token_Correct.thy ===== *)
theory Xsh_Token_Correct
  imports Xsh_Token
begin

text \<open>
  The compact token table stores what was pushed: the sequence of the tokens with their starts is
  its abstraction, and every query answers from that sequence, whatever the width of the starts and
  however sparse the payloads. Keywords and string flags are read back from their payloads.
\<close>

section \<open>Keywords and flags\<close>

lemma keyword_cases_all: "kw \<in> set all_keywords"
  by (cases kw) (simp_all add: all_keywords_def)

lemma position_less: "x \<in> set xs \<Longrightarrow> position x xs < length xs"
  by (induction xs) auto

lemma nth_position: "x \<in> set xs \<Longrightarrow> xs ! position x xs = x"
  by (induction xs) auto

lemma find_eq: "x \<in> set xs \<Longrightarrow> find (\<lambda>y. y = x) xs = Some x"
  by (induction xs) auto

lemma keyword_code_inject: "keyword_code a = keyword_code b \<longleftrightarrow> a = b"
proof
  have less: "position k all_keywords < 44" for k
    using position_less [OF keyword_cases_all [of k]] by (simp add: all_keywords_def)
  assume "keyword_code a = keyword_code b"
  then have "unat (keyword_code a) = unat (keyword_code b)" by simp
  moreover have "unat (keyword_code k) = position k all_keywords" for k
    unfolding keyword_code_def by (rule unat_of_nat_small) (use less [of k] in simp)
  ultimately have "position a all_keywords = position b all_keywords" by simp
  then show "a = b"
    using nth_position [OF keyword_cases_all [of a]] nth_position [OF keyword_cases_all [of b]] by metis
qed simp

lemma keyword_from_payload_code [simp]: "keyword_from_payload (keyword_code kw) = Some kw"
  by (simp add: keyword_from_payload_def keyword_code_inject find_eq keyword_cases_all)

lemma inj_bytes_of: "inj_on bytes_of {s. True}"
proof (rule inj_onI)
  fix s t assume "bytes_of s = bytes_of t"
  moreover have "(of_nat (of_char c) :: u8) = of_nat (of_char d) \<longleftrightarrow> c = d" for c d :: char
  proof
    assume eq: "(of_nat (of_char c) :: u8) = of_nat (of_char d)"
    have "unat (of_nat (of_char c) :: u8) = of_char c" for c :: char
      by (rule unat_of_nat_small) simp
    then have "(of_char c :: nat) = of_char d" using eq by metis
    then show "c = d" by simp
  qed simp
  ultimately show "s = t"
    unfolding bytes_of_def by (subst (asm) inj_map_eq_map) (auto simp: inj_def)
qed

lemma keyword_table_text: "(text, kw) \<in> set keyword_table \<longleftrightarrow> text = keyword_string kw"
proof
  have "list_all (\<lambda>(text, kw). text = keyword_string kw) keyword_table"
    by (simp add: keyword_table_def keyword_string_def)
  then show "(text, kw) \<in> set keyword_table \<Longrightarrow> text = keyword_string kw"
    by (auto simp: list_all_iff)
  show "text = keyword_string kw \<Longrightarrow> (text, kw) \<in> set keyword_table"
    by (cases kw) (simp_all add: keyword_table_def keyword_string_def)
qed

lemma distinct_keyword_texts: "distinct (map fst keyword_table)"
  by code_simp

lemma bytes_of_inject: "bytes_of s = bytes_of t \<longleftrightarrow> s = t"
  using inj_bytes_of by (auto dest: inj_onD)

lemma keyword_from_ident_iff: "keyword_from_ident text = Some kw \<longleftrightarrow> text = keyword_text kw"
proof -
  let ?table = "map (\<lambda>(text, kw). (bytes_of text, kw)) keyword_table"
  have "map fst ?table = map bytes_of (map fst keyword_table)" by (simp add: case_prod_unfold)
  then have "distinct (map fst ?table)"
    using distinct_keyword_texts by (simp add: distinct_map bytes_of_inject inj_on_def)
  then have "map_of ?table text = Some kw \<longleftrightarrow> (text, kw) \<in> set ?table"
    by (rule map_of_eq_Some_iff)
  also have "\<dots> \<longleftrightarrow> text = keyword_text kw"
    by (auto simp: keyword_table_text keyword_text_def image_iff split: prod.splits)
  finally show ?thesis by (simp add: keyword_from_ident_def)
qed

lemma keyword_from_ident_text [simp]: "keyword_from_ident (keyword_text kw) = Some kw"
  by (simp add: keyword_from_ident_iff)

lemma flags_roundtrip [simp]: "flags_from_payload (flags_to_payload flags) = flags"
  by (cases flags) (simp add: flags_from_payload_def flags_to_payload_def)

section \<open>The rows a table stands for\<close>

definition start_list :: "token_starts \<Rightarrow> nat list" where
  "start_list sts = (case sts of Starts16 xs \<Rightarrow> map unat xs | Starts32 xs \<Rightarrow> map unat xs)"

text \<open>The payloads that are not zero, with the indices of their tokens from \<open>i\<close>.\<close>

fun sparse :: "(token_kind \<Rightarrow> u32) \<Rightarrow> nat \<Rightarrow> (token_kind \<times> nat) list \<Rightarrow> (u32 \<times> u32) list" where
  "sparse payload i [] = []"
| "sparse payload i ((kind, start) # rows) =
     (if payload kind \<noteq> 0 then [(of_nat i, payload kind)] else []) @ sparse payload (Suc i) rows"

definition represents ::
  "(u8 list \<Rightarrow> u32) \<Rightarrow> table_builder \<Rightarrow> (token_kind \<times> nat) list \<Rightarrow> bool" where
  "represents symbol b rows \<longleftrightarrow>
     b_tags b = map (kind_tag \<circ> fst) rows \<and> start_list (b_starts b) = map snd rows \<and>
     b_payloads b = sparse (compact_payload symbol) 0 rows \<and> int (length rows) < 2 ^ 32"

lemma represents_default: "represents symbol builder_default []"
  by (simp add: represents_def builder_default_def start_list_def)

lemma starts_get_eq:
  "starts_get sts i = (if i < length (start_list sts) then Some (start_list sts ! i) else None)"
  by (cases sts) (simp_all add: starts_get_def start_list_def)

lemma unat_of_nat_u32: "int n < 2 ^ 32 \<Longrightarrow> unat (of_nat n :: u32) = n"
  by (rule unat_of_nat_small) simp

lemma starts_push_eq:
  "int start < 2 ^ 32 \<Longrightarrow> \<exists>sts'. starts_push start sts = Some sts' \<and> start_list sts' = start_list sts @ [start]"
  "\<not> int start < 2 ^ 32 \<Longrightarrow> starts_push start sts = None"
proof -
  assume small: "int start < 2 ^ 32"
  have short: "unat (ucast (of_nat start :: u32) :: u16) = start" if "(of_nat start :: u32) < 0x10000"
  proof -
    have "start < 65536" using that small unat_of_nat_u32 [OF small] by (simp add: word_less_nat_alt)
    then show ?thesis using unat_of_nat_u32 [OF small] by (simp add: unsigned_ucast_eq take_bit_nat_eq_self)
  qed
  have wide: "unat (ucast x :: u32) = unat x" for x :: u16
  proof -
    have "unat x < 2 ^ 16" using unsigned_less [of x] by simp
    then show ?thesis by (simp add: unsigned_ucast_eq take_bit_nat_eq_self)
  qed
  show "\<exists>sts'. starts_push start sts = Some sts' \<and> start_list sts' = start_list sts @ [start]"
    using small short wide unat_of_nat_u32 [OF small]
    by (cases sts) (auto simp: starts_push_def u32_try_from_def u16_try_from_def start_list_def)
qed (simp add: starts_push_def u32_try_from_def)

lemma sparse_append:
  "sparse payload i (rows @ [(kind, start)]) =
     sparse payload i rows @ (if payload kind \<noteq> 0 then [(of_nat (i + length rows), payload kind)] else [])"
  by (induction payload i rows rule: sparse.induct) simp_all

lemma sparse_fst:
  "(x, y) \<in> set (sparse payload i rows) \<Longrightarrow> \<exists>j. i \<le> j \<and> j < i + length rows \<and> x = of_nat j"
proof (induction payload i rows rule: sparse.induct)
  case (2 payload i kind start rows)
  then consider "x = of_nat i" | "(x, y) \<in> set (sparse payload (Suc i) rows)"
    by (auto split: if_splits)
  then show ?case
  proof cases
    case 2
    then obtain j where "Suc i \<le> j" "j < Suc i + length rows" "x = of_nat j" using "2.IH" by blast
    then show ?thesis by (intro exI [of _ j]) simp
  qed auto
qed simp

lemma find_sparse:
  "int (i + length rows) < 2 ^ 32 \<Longrightarrow> j < length rows \<Longrightarrow>
     find (\<lambda>entry. fst entry = of_nat (i + j)) (sparse payload i rows) =
     (let p = payload (fst (rows ! j)) in if p \<noteq> 0 then Some (of_nat (i + j), p) else None)"
proof (induction payload i rows arbitrary: j rule: sparse.induct)
  case (2 payload i kind start rows)
  show ?case
  proof (cases j)
    case 0
    have "find (\<lambda>entry. fst entry = (of_nat i :: u32)) (sparse payload (Suc i) rows) = None"
    proof (rule ccontr)
      assume "find (\<lambda>entry. fst entry = (of_nat i :: u32)) (sparse payload (Suc i) rows) \<noteq> None"
      then obtain y where "(of_nat i :: u32, y) \<in> set (sparse payload (Suc i) rows)"
        by (auto simp: find_None_iff)
      then obtain k where k: "Suc i \<le> k" "k < Suc i + length rows" "(of_nat i :: u32) = of_nat k"
        using sparse_fst by blast
      then have "unat (of_nat i :: u32) = unat (of_nat k :: u32)" by simp
      moreover have "int k < 2 ^ 32" "int i < 2 ^ 32" using k 2(2) by auto
      ultimately show False using k(1) unat_of_nat_u32 by (metis Suc_n_not_le_n)
    qed
    then show ?thesis using 0 by (auto simp: Let_def)
  next
    case (Suc j')
    have small: "int i < 2 ^ 32" "int (i + j) < 2 ^ 32" using 2(2,3) by auto
    have "(of_nat i :: u32) \<noteq> of_nat (i + j)"
    proof
      assume "(of_nat i :: u32) = of_nat (i + j)"
      then have "i = i + j" using small unat_of_nat_u32 by metis
      then show False using Suc by simp
    qed
    moreover have "find (\<lambda>entry. fst entry = of_nat (i + j)) (sparse payload (Suc i) rows) =
        (let p = payload (fst (rows ! j')) in if p \<noteq> 0 then Some (of_nat (i + j), p) else None)"
      using 2(1) [of j'] 2(2,3) Suc by (simp add: Let_def)
    ultimately show ?thesis using Suc by (auto simp: Let_def simp del: of_nat_add)
  qed
qed simp

lemma push_kind_spec:
  assumes "represents symbol b rows"
  shows "int (length rows + 1) < 2 ^ 32 \<Longrightarrow> int start < 2 ^ 32 \<Longrightarrow>
      \<exists>b'. push_kind symbol kind start b = Some (of_nat (length rows + 1), b') \<and>
        represents symbol b' (rows @ [(kind, start)]) \<and> b_continuations b' = b_continuations b"
    and "\<not> int (length rows + 1) < 2 ^ 32 \<or> \<not> int start < 2 ^ 32 \<Longrightarrow> push_kind symbol kind start b = None"
proof -
  have len: "length (b_tags b) = length rows" using assms by (simp add: represents_def)
  show "\<exists>b'. push_kind symbol kind start b = Some (of_nat (length rows + 1), b') \<and>
        represents symbol b' (rows @ [(kind, start)]) \<and> b_continuations b' = b_continuations b"
    if small: "int (length rows + 1) < 2 ^ 32" "int start < 2 ^ 32"
  proof -
    obtain sts where "starts_push start (b_starts b) = Some sts"
      "start_list sts = start_list (b_starts b) @ [start]"
      using starts_push_eq(1) [OF small(2)] by blast
    then show ?thesis
      using assms small len
      by (auto simp: push_kind_def token_id_new_def u32_try_from_def Let_def represents_def sparse_append)
  qed
  show "push_kind symbol kind start b = None"
    if "\<not> int (length rows + 1) < 2 ^ 32 \<or> \<not> int start < 2 ^ 32"
    using that len starts_push_eq(2) [of start]
    by (auto simp: push_kind_def token_id_new_def u32_try_from_def Let_def split: option.splits)
qed

lemma table_queries:
  assumes "represents symbol b rows"
  shows "tag_at (builder_finish b) i = (if i < length rows then Some (kind_tag (fst (rows ! i))) else None) \<and>
    start_at (builder_finish b) i = (if i < length rows then Some (snd (rows ! i)) else None) \<and>
    payload_at (builder_finish b) i =
      (if i < length rows then Some (compact_payload symbol (fst (rows ! i))) else None)"
proof -
  have len: "length (b_tags b) = length rows" "length (start_list (b_starts b)) = length rows"
    using assms by (simp_all add: represents_def)
  have "payload_at (builder_finish b) i = Some (compact_payload symbol (fst (rows ! i)))" if "i < length rows"
  proof -
    have "find (\<lambda>entry. fst entry = of_nat i) (b_payloads b) =
        (let p = compact_payload symbol (fst (rows ! i)) in if p \<noteq> 0 then Some (of_nat i, p) else None)"
      using assms that find_sparse [of 0 rows i "compact_payload symbol"] by (simp add: represents_def Let_def)
    moreover have "int i < 2 ^ 32" using assms that by (simp add: represents_def)
    ultimately show ?thesis
      using that len by (simp add: payload_at_def table_len_def builder_finish_def u32_try_from_def Let_def)
  qed
  moreover have "payload_at (builder_finish b) i = None" if "\<not> i < length rows"
    using that len by (simp add: payload_at_def table_len_def builder_finish_def)
  ultimately show ?thesis
    using assms len by (simp add: tag_at_def start_at_def starts_get_eq builder_finish_def represents_def)
qed

lemma table_lookups:
  assumes "represents symbol b rows" and "i < length rows"
  shows "fst (rows ! i) = Keyword_k kw \<Longrightarrow> keyword_at (builder_finish b) i = Some kw"
    and "fst (rows ! i) = Ident_k nm \<Longrightarrow> name_at (builder_finish b) i = Some (symbol nm)"
    and "fst (rows ! i) = String_k x y \<Longrightarrow>
      string_flags_at (builder_finish b) i = Some \<lparr>has_interpolation = x, raw_literal = y\<rparr>"
  using table_queries [OF assms(1), of i] assms(2)
  by (simp_all add: keyword_at_def name_at_def string_flags_at_def kind_tag_def compact_payload_def)

section \<open>Tables built by a run of pushes\<close>

fun push_rows ::
  "(u8 list \<Rightarrow> u32) \<Rightarrow> (token_kind \<times> nat) list \<Rightarrow> table_builder \<Rightarrow> table_builder option" where
  "push_rows symbol [] b = Some b"
| "push_rows symbol ((kind, start) # rows) b =
     (case push_kind symbol kind start b of None \<Rightarrow> None | Some (ident, b') \<Rightarrow> push_rows symbol rows b')"

lemma push_rows_represents:
  "represents symbol b done_rows \<Longrightarrow> push_rows symbol rows b = Some b' \<Longrightarrow>
     represents symbol b' (done_rows @ rows)"
proof (induction symbol rows b arbitrary: done_rows rule: push_rows.induct)
  case (2 symbol kind start rows b)
  from 2(3) obtain ident b1 where b1: "push_kind symbol kind start b = Some (ident, b1)"
    "push_rows symbol rows b1 = Some b'" by (auto split: option.splits)
  then have "int (length done_rows + 1) < 2 ^ 32" "int start < 2 ^ 32"
    using push_kind_spec(2) [OF 2(2), of start kind] by (metis option.distinct(1))+
  then have "represents symbol b1 (done_rows @ [(kind, start)])"
    using push_kind_spec(1) [OF 2(2), of start kind] b1(1) by auto
  from 2(1) [OF b1(1) refl this b1(2)] show ?case by simp
qed simp

lemma push_rows_fit:
  "represents symbol b done_rows \<Longrightarrow> int (length done_rows + length rows) < 2 ^ 32 \<Longrightarrow>
     list_all (\<lambda>(kind, start). int start < 2 ^ 32) rows \<Longrightarrow> \<exists>b'. push_rows symbol rows b = Some b'"
proof (induction rows arbitrary: b done_rows)
  case (Cons row rows)
  obtain kind start where row: "row = (kind, start)" by (cases row)
  have "int (length done_rows + 1) < 2 ^ 32" "int start < 2 ^ 32" using Cons.prems(2,3) row by auto
  then obtain b1 where "push_kind symbol kind start b = Some (of_nat (length done_rows + 1), b1)"
    "represents symbol b1 (done_rows @ [(kind, start)])"
    using push_kind_spec(1) [OF Cons.prems(1)] by blast
  then show ?case using Cons.IH [of b1 "done_rows @ [(kind, start)]"] Cons.prems(2,3) row by simp
qed simp



end
