(* ===== verification/Xsh_Step_Correct.thy ===== *)
theory Xsh_Step_Correct
  imports Xsh_Scan_Correct Xsh_Token_Correct
begin

text \<open>
  One step of the lexer (\<open>lex_token\<close>), arm by arm: it moves on, it stops on the boundary of a
  character, and it accounts for every byte it consumed.
\<close>

section \<open>What one step does\<close>

text \<open>The bytes between two states of the lexer are accounted for: they are a token that is pushed
  and whose end is found again from the source, or a line continuation that is recorded, or white
  space, or they are inside the span of a diagnostic.\<close>

definition line_break_at :: "source \<Rightarrow> nat \<Rightarrow> nat \<Rightarrow> bool" where
  "line_break_at bs i j \<longleftrightarrow> starts_at bs i [13, 10] \<and> j = i + 2 \<or> starts_at bs i [10] \<and> j = i + 1"

definition blank :: "source \<Rightarrow> nat \<Rightarrow> nat \<Rightarrow> bool" where
  "blank bs i j \<longleftrightarrow> (\<forall>k. i \<le> k \<and> k < j \<longrightarrow> bs ! k = 32 \<or> bs ! k = 9)"

definition reported :: "diagnostic list \<Rightarrow> nat \<Rightarrow> nat \<Rightarrow> bool" where
  "reported ds i j \<longleftrightarrow> (\<exists>d \<in> set ds. fst (diag_span d) \<le> i \<and> j \<le> snd (diag_span d))"

definition accounted ::
  "source \<Rightarrow> (nat \<Rightarrow> bool \<Rightarrow> (scans, halt, quoted_scan option) op) \<Rightarrow> lexer \<Rightarrow> lexer \<Rightarrow> bool" where
  "accounted bs scan s s' \<longleftrightarrow>
     (\<exists>kind ident. push_kind (symbols s) kind (at_byte s) (token_builder s) = Some (ident, token_builder s') \<and>
        fst (token_end_by scan bs (at_byte s) (kind_tag kind) (thread_scans s)) = Inr (at_byte s')) \<or>
     push_line_continuation (at_byte s) (token_builder s) = Some (token_builder s') \<and>
       peek bs (at_byte s) = Some 92 \<and> line_break_at bs (at_byte s + 1) (at_byte s') \<or>
     token_builder s' = token_builder s \<and>
       (blank bs (at_byte s) (at_byte s') \<or> reported (diagnostics s') (at_byte s) (at_byte s'))"

definition stepped ::
  "source \<Rightarrow> (nat \<Rightarrow> bool \<Rightarrow> (scans, halt, quoted_scan option) op) \<Rightarrow> lexer \<Rightarrow> lexer \<Rightarrow> bool" where
  "stepped bs scan s s' \<longleftrightarrow>
     at_byte s < at_byte s' \<and> boundary bs (at_byte s') \<and> symbols s' = symbols s \<and>
     scan_only s' = scan_only s \<and> prefix (diagnostics s) (diagnostics s') \<and>
     scans_after (thread_scans s) (thread_scans s') \<and>
     (if scan_only s then token_builder s' = token_builder s else accounted bs scan s s')"

definition ready :: "source \<Rightarrow> nat \<Rightarrow> lexer \<Rightarrow> bool" where
  "ready bs n s \<longleftrightarrow>
     valid_source bs \<and> scans_ok (thread_scans s) \<and> room (thread_scans s) < n \<and>
     at_byte s < length bs \<and> boundary bs (at_byte s) \<and>
     (scan_only s \<or>
      (\<exists>rows. represents (symbols s) (token_builder s) rows \<and> length rows \<le> at_byte s))"

text \<open>On the way from \<open>s\<close>: no token is pushed yet.\<close>

definition within :: "source \<Rightarrow> lexer \<Rightarrow> lexer \<Rightarrow> bool" where
  "within bs s u \<longleftrightarrow> same_tokens s u \<and> at_byte s < at_byte u \<and> boundary bs (at_byte u)"

lemma within_le: "within bs s u \<Longrightarrow> at_byte u \<le> length bs"
  by (simp add: within_def boundary_le)

lemma source_small: "valid_source bs \<Longrightarrow> i \<le> length bs \<Longrightarrow> int i < 2 ^ 32 \<and> int (i + 1) < 2 ^ 32"
  by (auto simp: valid_source_def)

lemma push_step:
  assumes "ready bs n s" and "within bs s u" and a: "a = at_byte s"
    and "fst (token_end_by scan bs (at_byte s) (kind_tag kind) (thread_scans s)) = Inr (at_byte u)"
  shows "ends p (push_token kind a) (\<lambda>_. stepped bs scan s) u"
proof (cases "scan_only s")
  case True
  then show ?thesis
    using assms(2) by (auto simp: wp within_def same_tokens_def stepped_def)
next
  case False
  then obtain rows where rows: "represents (symbols s) (token_builder s) rows" "length rows \<le> at_byte s"
    using assms(1) by (auto simp: ready_def)
  have "at_byte s \<le> length bs" using assms(1) by (simp add: ready_def)
  then have "int (length rows + 1) < 2 ^ 32" "int (at_byte s) < 2 ^ 32"
    using source_small [of bs "at_byte s"] rows(2) assms(1) by (auto simp: ready_def)
  then obtain b where "push_kind (symbols s) kind (at_byte s) (token_builder s) =
      Some (of_nat (length rows + 1), b)"
    using push_kind_spec(1) [OF rows(1)] by blast
  then show ?thesis
    using assms False by (auto simp: wp within_def same_tokens_def stepped_def accounted_def)
qed

lemma report_with_step:
  assumes "ready bs n s" and "within bs s u" and "a \<le> at_byte s" and j: "j = at_byte u"
  shows "ends p (report_with code a j message label fix) (\<lambda>_. stepped bs scan s) u"
proof -
  have "span_ok a j"
    using assms within_le [OF assms(2)] span_in_source [of bs a j]
    by (auto simp: ready_def within_def)
  then show ?thesis
    using assms by (auto simp: wp within_def same_tokens_def stepped_def accounted_def reported_def)
qed

lemma report_step:
  "ready bs n s \<Longrightarrow> within bs s u \<Longrightarrow> a \<le> at_byte s \<Longrightarrow>
     ends p (report_from code a message label) (\<lambda>_. stepped bs scan s) u"
  unfolding report_from_def report_at_def ends_bind ends_here by (rule report_with_step) simp_all

lemma within_goto:
  "ready bs n s \<Longrightarrow> at_byte s < i \<Longrightarrow> boundary bs i \<Longrightarrow> within bs s (s\<lparr>at_byte := i\<rparr>)"
  by (simp add: within_def)

lemmas moves = ends_bind ends_here ends_advance ends_skip ends_goto ends_ret ends_if ends_option
  ends_only ends_Pair

lemma readyD:
  assumes "ready bs n s"
  shows "valid_source bs" "scans_ok (thread_scans s)" "room (thread_scans s) < n"
    "at_byte s < length bs" "boundary bs (at_byte s)"
  using assms by (simp_all add: ready_def)

section \<open>Tokens with a fixed text\<close>

lemma starts_at_nth: "starts_at bs i text \<Longrightarrow> k < length text \<Longrightarrow> i + k < length bs \<and> bs ! (i + k) = text ! k"
proof -
  assume s: "starts_at bs i text" "k < length text"
  then have "length (take (length text) (drop i bs)) = length text" by (simp add: starts_at_def)
  then have "i + k < length bs" using s(2) by simp
  moreover have "take (length text) (drop i bs) ! k = text ! k" using s by (simp add: starts_at_def)
  ultimately show ?thesis using s(2) by simp
qed

lemma starts_at_boundary:
  assumes "valid_source bs" and "starts_at bs i text" and "text \<noteq> []" and "last text < 0x80"
  shows "boundary bs (i + length text)"
proof -
  have k: "length text - 1 < length text" using assms(3) by simp
  have eq: "Suc (i + (length text - 1)) = i + length text" using assms(3) by (cases "text") simp_all
  have "boundary bs (Suc (i + (length text - 1)))"
    by (rule after_ascii [OF assms(1)]) (use starts_at_nth [OF assms(2) k] assms(3,4) in \<open>simp_all add: last_conv_nth\<close>)
  then show ?thesis unfolding eq .
qed

lemma fixed_end:
  "fixed_text tag = Some text \<Longrightarrow> tag \<noteq> Eof_t \<Longrightarrow> fst (token_end_by scan bs i tag t) = Inr (i + length text)"
  by (cases tag) (simp_all add: token_end_by_def fixed_text_def fixed_width_def)

lemma lex_fixed_step:
  assumes r: "ready bs n s" and "starts_at bs (at_byte s) text" and "text \<noteq> []" and "last text < 0x80"
    and "fixed_text (kind_tag kind) = Some text" and "kind_tag kind \<noteq> Eof_t"
    and "a = at_byte s" and "w = length text"
  shows "ends p (lex_fixed bs a kind w) (\<lambda>_. stepped bs scan s) s"
proof -
  have "within bs s (s\<lparr>at_byte := at_byte s + length text\<rparr>)"
    using starts_at_boundary [OF readyD(1) [OF r] assms(2-4)] assms(3) by (intro within_goto [OF r]) auto
  then show ?thesis
    unfolding lex_fixed_def ends_bind ends_advance assms(8)
    by (rule push_step [OF r _ assms(7)]) (simp add: fixed_end [OF assms(5,6)])
qed

lemma newline_step:
  assumes r: "ready bs n s" and a: "a = at_byte s"
  shows "starts_at bs (at_byte s) [13, 10] \<Longrightarrow> ends p (lex_fixed bs a Newline_k 2) (\<lambda>_. stepped bs scan s) s"
    and "peek bs (at_byte s) = Some 10 \<Longrightarrow> ends p (lex_fixed bs a Newline_k 1) (\<lambda>_. stepped bs scan s) s"
proof -
  have two: "starts_at bs i [13, 10] \<longleftrightarrow> get_range i (i + 2) bs = Some [13, 10]" for i
  proof
    assume st: "starts_at bs i [13, 10]"
    have "i + 2 \<le> length bs" using starts_at_nth [OF st, of 1] by simp
    then show "get_range i (i + 2) bs = Some [13, 10]"
      using st by (simp add: get_range_def starts_at_def numeral_2_eq_2)
  qed (auto simp: get_range_Some starts_at_def numeral_2_eq_2)
  have e: "fst (token_end_by scan bs (at_byte s) (kind_tag Newline_k) t) =
      Inr (if starts_at bs (at_byte s) [13, 10] then at_byte s + 2 else at_byte s + 1)" for t
    by (simp add: token_end_by_def kind_tag_def two)
  show "ends p (lex_fixed bs a Newline_k 2) (\<lambda>_. stepped bs scan s) s" if "starts_at bs (at_byte s) [13, 10]"
    unfolding lex_fixed_def ends_bind ends_advance
    using starts_at_boundary [OF readyD(1) [OF r] that] that e
    by (intro push_step [OF r within_goto [OF r] a]) simp_all
  show "ends p (lex_fixed bs a Newline_k 1) (\<lambda>_. stepped bs scan s) s" if "peek bs (at_byte s) = Some 10"
  proof -
    have "\<not> starts_at bs (at_byte s) [13, 10]"
      using that starts_at_nth [of bs "at_byte s" "[13, 10]" 0] by (auto simp: peek_Some)
    then show ?thesis
      unfolding lex_fixed_def ends_bind ends_advance
      using after_peek [OF readyD(1) [OF r] that] e
      by (intro push_step [OF r within_goto [OF r] a]) simp_all
  qed
qed

section \<open>White space, comments, names\<close>

lemma lex_whitespace_step:
  assumes r: "ready bs n s" and c: "bs ! at_byte s = 32 \<or> bs ! at_byte s = 9"
  shows "ends p (lex_whitespace bs) (\<lambda>_. stepped bs scan s) s"
proof -
  let ?P = "\<lambda>b :: u8. b = 32 \<or> b = 9"
  let ?j = "scan_while ?P bs (at_byte s)"
  have "at_byte s < ?j" by (rule scan_while_gt) (use readyD(4) [OF r] c in auto)
  moreover have "boundary bs ?j"
    by (rule scan_while_boundary [OF readyD(1,5) [OF r]]) auto
  moreover have "blank bs (at_byte s) ?j"
    unfolding blank_def using scan_while_inside [of "at_byte s" _ ?P bs] by blast
  ultimately show ?thesis
    by (simp add: lex_whitespace_def wp stepped_def accounted_def)
qed

lemma lex_comment_step:
  assumes r: "ready bs n s" and c: "peek bs (at_byte s) = Some 35"
  shows "ends p (lex_comment bs) (\<lambda>_. stepped bs scan s) s"
proof -
  let ?P = "\<lambda>b :: u8. b \<noteq> 10 \<and> b \<noteq> 13"
  let ?j = "scan_while ?P bs (at_byte s + 1)"
  have P: "(\<lambda>b. b \<noteq> 13 \<and> b \<noteq> 10) = ?P" by auto
  have le: "at_byte s + 1 \<le> length bs" using readyD(4) [OF r] by simp
  have "boundary bs ?j" by (rule scan_until_boundary [OF _ le]) auto
  moreover have "at_byte s < ?j" using scan_while_ge [of "at_byte s + 1" ?P bs] by simp
  ultimately have w: "within bs s (s\<lparr>at_byte := ?j\<rparr>)" by (intro within_goto [OF r]) auto
  have "ends p (push_token Comment_k (at_byte s)) (\<lambda>_. stepped bs scan s) (s\<lparr>at_byte := ?j\<rparr>)"
    by (rule push_step [OF r w refl]) (simp add: token_end_by_def kind_tag_def P)
  then show ?thesis by (simp add: lex_comment_def moves)
qed

lemma lex_line_continuation_step:
  assumes r: "ready bs n s" and c: "peek bs (at_byte s) = Some 92"
  shows "ends p (lex_line_continuation bs) (\<lambda>_. stepped bs scan s) s"
proof -
  let ?i = "at_byte s"
  have one: "within bs s (s\<lparr>at_byte := ?i + 1\<rparr>)"
    using after_peek [OF readyD(1) [OF r] c] by (intro within_goto [OF r]) auto
  have cont: "ends p (push_continuation ?i) (\<lambda>_. stepped bs scan s) (s\<lparr>at_byte := j\<rparr>)"
    if "line_break_at bs (?i + 1) j" for j
  proof -
    have "boundary bs j" "?i < j"
      using that starts_at_boundary [OF readyD(1) [OF r], of "?i + 1" "[13, 10]"]
        starts_at_boundary [OF readyD(1) [OF r], of "?i + 1" "[10]"] by (auto simp: line_break_at_def)
    moreover have "push_line_continuation ?i (token_builder s) \<noteq> None"
      using source_small [OF readyD(1) [OF r], of ?i] readyD(4) [OF r]
      by (simp add: push_line_continuation_def u32_try_from_def)
    ultimately show ?thesis
      using that c by (auto simp: wp stepped_def accounted_def)
  qed
  show ?thesis
    using cont [of "?i + 3"] cont [of "?i + 2"] report_step [OF r one, of ?i p]
    by (auto simp: lex_line_continuation_def Let_def moves line_break_at_def numeral_3_eq_3)
qed

lemma ident_kind_tag: "kind_tag (ident_kind text) \<in> {Ident_t, Proc_Ident_t, Keyword_t}"
  by (simp add: ident_kind_def kind_tag_def split: option.split)

lemma is_ident_continue_ascii: "is_ident_continue b \<Longrightarrow> b < 0x80"
  by (auto simp: is_ident_continue_def is_alphabetic_def is_digit_def word_le_nat_alt word_less_nat_alt)

lemma is_digit_ascii: "is_digit b \<Longrightarrow> b < 0x80"
  by (auto simp: is_digit_def word_le_nat_alt word_less_nat_alt)

lemma ident_start_continue: "is_ident_start b \<Longrightarrow> is_ident_continue b"
  by (auto simp: is_ident_start_def is_ident_continue_def)

lemma lex_ident_step:
  assumes r: "ready bs n s" and c: "is_ident_start (bs ! at_byte s)"
  shows "ends p (lex_ident_or_keyword bs) (\<lambda>_. stepped bs scan s) s"
proof -
  let ?P = "\<lambda>b :: u8. is_ident_continue b \<or> b = 45"
  let ?j = "scan_while ?P bs (at_byte s + 1)"
  have "boundary bs (at_byte s + 1)"
    using after_ascii [OF readyD(1,4) [OF r]] is_ident_continue_ascii [OF ident_start_continue [OF c]] by simp
  then have bd: "boundary bs ?j"
    by (rule scan_while_boundary [OF readyD(1) [OF r]]) (auto dest: is_ident_continue_ascii)
  have ge: "at_byte s + 1 \<le> ?j" by (rule scan_while_ge)
  have sl: "slice bs (at_byte s) ?j \<noteq> None"
    using slice_Some [of "at_byte s" ?j bs] readyD(5) [OF r] bd ge by simp
  have w: "within bs s (s\<lparr>at_byte := ?j\<rparr>)" using ge bd by (intro within_goto [OF r]) auto
  have "ends p (push_token (ident_kind nm) (at_byte s)) (\<lambda>_. stepped bs scan s) (s\<lparr>at_byte := ?j\<rparr>)" for nm
    by (rule push_step [OF r w refl]) (use ident_kind_tag [of nm] in \<open>auto simp: token_end_by_def\<close>)
  moreover have "stepped bs scan s (s\<lparr>at_byte := ?j\<rparr>)" if "scan_only s"
    using that w by (simp add: within_def stepped_def)
  ultimately show ?thesis
    using sl by (auto simp: lex_ident_or_keyword_def moves ends_sliced)
qed

lemma lex_dollar_ident_step:
  assumes r: "ready bs n s" and c: "peek bs (at_byte s) = Some 36"
    "peek bs (at_byte s + 1) = Some b" "is_ident_start b"
  shows "ends p (lex_dollar_ident bs (at_byte s)) (\<lambda>_. stepped bs scan s) s"
proof -
  let ?j = "scan_while is_ident_continue bs (at_byte s + 2)"
  have "b < 0x80" using is_ident_continue_ascii [OF ident_start_continue [OF c(3)]] .
  then have "boundary bs (Suc (at_byte s + 1))" by (rule after_peek [OF readyD(1) [OF r] c(2)])
  then have "boundary bs (at_byte s + 2)" by simp
  then have bd: "boundary bs ?j"
    by (rule scan_while_boundary [OF readyD(1) [OF r]]) (rule is_ident_continue_ascii)
  have ge: "at_byte s + 2 \<le> ?j" by (rule scan_while_ge)
  have "boundary bs (Suc (at_byte s))" by (rule after_peek [OF readyD(1) [OF r] c(1)]) simp
  then have sl: "slice bs (Suc (at_byte s)) ?j \<noteq> None"
    using slice_Some [of "Suc (at_byte s)" ?j bs] bd ge by simp
  have w: "within bs s (s\<lparr>at_byte := ?j\<rparr>)" using ge bd by (intro within_goto [OF r]) auto
  have "ends p (push_token (Dollar_Ident_k nm) (at_byte s)) (\<lambda>_. stepped bs scan s) (s\<lparr>at_byte := ?j\<rparr>)"
    for nm
    by (rule push_step [OF r w refl]) (simp add: token_end_by_def kind_tag_def)
  moreover have "stepped bs scan s (s\<lparr>at_byte := ?j\<rparr>)" if "scan_only s"
    using that w by (simp add: within_def stepped_def)
  ultimately show ?thesis
    using sl by (auto simp: lex_dollar_ident_def moves ends_sliced)
qed

section \<open>Numbers\<close>

lemma report_within:
  assumes "ready bs n s" and "within bs s u" and "a = at_byte s"
    and "\<And>u'. within bs s u' \<Longrightarrow> at_byte u' = at_byte u \<Longrightarrow> Q () u'"
  shows "ends p (report_from code a message label) Q u"
proof (rule ends_mono [OF ends_report_same])
  show "valid_source bs" "a \<le> at_byte u" "at_byte u \<le> length bs"
    using assms(1-3) within_le [OF assms(2)] by (auto simp: ready_def within_def)
  show "Q x t" if "same_tokens u t \<and> at_byte t = at_byte u" for x t
    using assms(4) [of t] assms(2) that by (auto simp: within_def intro: same_tokens_trans)
qed

lemma goto_same: "at_byte u = i \<Longrightarrow> u\<lparr>at_byte := i\<rparr> = u"
  by (cases u) simp

lemma within_move: "within bs s u \<Longrightarrow> at_byte u \<le> j \<Longrightarrow> boundary bs j \<Longrightarrow> within bs s (u\<lparr>at_byte := j\<rparr>)"
  by (auto simp: within_def)

lemma within_skip:
  assumes "ready bs n s" and "within bs s u" and "\<And>b. P b \<Longrightarrow> b < 0x80"
  shows "within bs s (u\<lparr>at_byte := scan_while P bs (at_byte u)\<rparr>)"
  using assms(2) scan_while_ge [of "at_byte u" P bs]
    scan_while_boundary [OF readyD(1) [OF assms(1)], of "at_byte u" P] assms(3)
  by (intro within_move) (auto simp: within_def)

lemma within_byte:
  assumes "ready bs n s" and "within bs s u" and "peek bs (at_byte u) = Some b" and "b < 0x80"
  shows "within bs s (u\<lparr>at_byte := Suc (at_byte u)\<rparr>)"
  using after_peek [OF readyD(1) [OF assms(1)] assms(3,4)] by (intro within_move [OF assms(2)]) simp_all

definition digit_at :: "source \<Rightarrow> nat \<Rightarrow> bool" where
  "digit_at bs i \<longleftrightarrow> (case peek bs i of Some b \<Rightarrow> is_digit b | None \<Rightarrow> False)"

definition fraction_end :: "source \<Rightarrow> nat \<Rightarrow> nat" where
  "fraction_end bs i =
     (if peek bs i = Some 46 \<and> digit_at bs (i + 1) then scan_while is_digit bs (i + 1) else i)"

definition exponent_end :: "source \<Rightarrow> nat \<Rightarrow> nat" where
  "exponent_end bs j =
     (if peek bs j \<in> {Some 101, Some 69}
      then scan_while is_digit bs (if peek bs (j + 1) \<in> {Some 43, Some 45} then j + 2 else j + 1)
      else j)"

lemma lex_fraction_ends:
  assumes r: "ready bs n s" and w: "within bs s u"
  shows "ends p (lex_fraction bs) (\<lambda>x v. within bs s v \<and> at_byte v = fraction_end bs (at_byte u) \<and>
      (x \<longleftrightarrow> peek bs (at_byte u) = Some 46 \<and> digit_at bs (at_byte u + 1))) u"
proof (cases "peek bs (at_byte u) = Some 46 \<and> digit_at bs (at_byte u + 1)")
  case True
  then have "within bs s (u\<lparr>at_byte := Suc (at_byte u)\<rparr>)" by (intro within_byte [OF r w, of 46]) auto
  from within_skip [OF r this is_digit_ascii] show ?thesis
    using True by (simp add: lex_fraction_def moves fraction_end_def digit_at_def)
next
  case False
  then show ?thesis using w by (auto simp: lex_fraction_def moves fraction_end_def digit_at_def)
qed

lemma lex_exponent_ends:
  assumes r: "ready bs n s" and w: "within bs s u" and a: "a = at_byte s"
  shows "ends p (lex_exponent bs a) (\<lambda>x v. within bs s v \<and> at_byte v = exponent_end bs (at_byte u) \<and>
      (x \<longleftrightarrow> peek bs (at_byte u) \<in> {Some 101, Some 69})) u"
proof (cases "peek bs (at_byte u) \<in> {Some 101, Some 69}")
  case True
  let ?i = "at_byte u"
  let ?k = "if peek bs (?i + 1) \<in> {Some 43, Some 45} then ?i + 2 else ?i + 1"
  have one: "within bs s (u\<lparr>at_byte := Suc ?i\<rparr>)" using True by (auto intro: within_byte [OF r w])
  have two: "within bs s (u\<lparr>at_byte := ?k\<rparr>)"
  proof (cases "peek bs (?i + 1) \<in> {Some 43, Some 45}")
    case sign: True
    then show ?thesis using within_byte [OF r one] by auto
  qed (use one in auto)
  have digits: "within bs s (u\<lparr>at_byte := scan_while is_digit bs ?k\<rparr>)"
    using within_skip [OF r two is_digit_ascii] by simp
  have rep: "ends p (report_from code a message label) (\<lambda>_ v. within bs s v \<and> at_byte v = scan_while is_digit bs ?k)
      (u\<lparr>at_byte := scan_while is_digit bs ?k\<rparr>)" for code message label
    by (rule report_within [OF r digits a]) auto
  have e: "exponent_end bs ?i = scan_while is_digit bs ?k" using True by (simp add: exponent_end_def)
  show ?thesis
    using True rep digits unfolding e lex_exponent_def
    by (auto simp: moves split: if_splits)
next
  case False
  then show ?thesis using w by (auto simp: lex_exponent_def moves exponent_end_def)
qed

lemma suffix_boundary:
  assumes "valid_source bs" and "boundary bs i" and "starts_at bs i sx" and "list_all (\<lambda>b. b < 0x80) sx"
  shows "boundary bs (i + length sx)"
  using starts_at_boundary [OF assms(1,3)] assms(2,4) by (cases "sx = []") (auto simp: list_all_iff)

lemma duration_suffix_ascii:
  "duration_suffix_at bs i = Some sx \<Longrightarrow> starts_at bs i sx \<and> list_all (\<lambda>b. b < 0x80) sx"
  by (auto simp: duration_suffix_at_def duration_suffixes_def bytes_of_def split: if_splits)

lemma size_suffix_ascii:
  "size_suffix_at bs i = Some sx \<Longrightarrow> starts_at bs i sx \<and> list_all (\<lambda>b. b < 0x80) sx"
  by (auto simp: size_suffix_at_def size_suffixes_def bytes_of_def split: if_splits)

lemma lex_octal_step:
  assumes r: "ready bs n s" and o: "peek bs (at_byte s) = Some 48" "peek bs (at_byte s + 1) = Some 111"
  shows "ends p (lex_octal bs (at_byte s)) (\<lambda>_. stepped bs scan s) s"
proof -
  let ?a = "at_byte s"
  let ?oct = "\<lambda>b :: u8. 48 \<le> b \<and> b \<le> 55"
  let ?i = "scan_while ?oct bs (?a + 2)"
  let ?more = "case peek bs ?i of Some b \<Rightarrow> is_ident_continue b | None \<Rightarrow> False"
  let ?j = "if ?more then scan_while is_ident_continue bs (?i + 1) else ?i"
  have e: "fst (token_end_by scan bs ?a (kind_tag Int_k) t) = Inr ?j" for t
    using o by (simp add: token_end_by_def kind_tag_def scan_number_end_def Let_def)
  have final: "ends p (push_token Int_k ?a) (\<lambda>_. stepped bs scan s) u"
    if "within bs s u" "at_byte u = ?j" for u
    by (rule push_step [OF r that(1) refl]) (simp add: e that(2))
  have last_part: "ends p (if c then report_from code ?a message label else retS ())
      (\<lambda>_. ends p (push_token Int_k ?a) (\<lambda>_. stepped bs scan s)) u"
    if "within bs s u" "at_byte u = ?j" for u c code message label
    using that by (auto simp: moves intro!: final report_within [OF r that(1) refl])
  have "boundary bs (Suc (?a + 1))" by (rule after_peek [OF readyD(1) [OF r] o(2)]) simp
  then have one: "within bs s (s\<lparr>at_byte := ?a + 2\<rparr>)" by (intro within_goto [OF r]) simp_all
  have w: "within bs s (s\<lparr>at_byte := ?i\<rparr>)"
    using within_skip [OF r one, of ?oct] by (simp add: word_le_nat_alt word_less_nat_alt)
  have more: "ends p (report_from code ?a message label) (\<lambda>_ u. within bs s u \<and> at_byte u = ?j)
      (s\<lparr>at_byte := ?j\<rparr>)" if m: ?more for code message label
  proof -
    obtain b where b: "peek bs ?i = Some b" "is_ident_continue b" using m by (auto split: option.splits)
    have "within bs s (s\<lparr>at_byte := Suc ?i\<rparr>)"
      using within_byte [OF r w, of b] b is_ident_continue_ascii by simp
    from within_skip [OF r this is_ident_continue_ascii]
    have "within bs s (s\<lparr>at_byte := ?j\<rparr>)" using m by simp
    then show ?thesis by (rule report_within [OF r _ refl]) simp
  qed
  show ?thesis
  proof (cases ?more)
    case True
    have more': "ends p (report_from code ?a message label) (\<lambda>_ u. within bs s u \<and> at_byte u = ?j)
        (s\<lparr>at_byte := scan_while is_ident_continue bs (Suc ?i)\<rparr>)" for code message label
      using more [OF True] True by simp
    show ?thesis
      unfolding lex_octal_def moves
      using True by (auto simp del: add_2_eq_Suc' intro!: ends_mono [OF more'] report_within [OF r _ refl] final)
  next
    case False
    then show ?thesis
      unfolding lex_octal_def moves
      using w by (auto simp del: add_2_eq_Suc' intro!: report_within [OF r _ refl] final)
  qed
qed

lemma lex_number_step:
  assumes r: "ready bs n s" and d: "is_digit (bs ! at_byte s)"
  shows "ends p (lex_number bs) (\<lambda>_. stepped bs scan s) s"
proof (cases "peek bs (at_byte s) = Some 48 \<and> peek bs (at_byte s + 1) = Some 111")
  case True
  then show ?thesis using lex_octal_step [OF r] by (simp add: lex_number_def moves)
next
  case False
  let ?a = "at_byte s"
  let ?i = "scan_while is_digit bs ?a"
  let ?j = "fraction_end bs ?i"
  let ?k = "exponent_end bs ?j"
  have "?a < ?i" by (rule scan_while_gt [where P = is_digit]) (use d readyD(4) [OF r] in auto)
  moreover have "boundary bs ?i"
    by (rule scan_while_boundary [OF readyD(1,5) [OF r] is_digit_ascii])
  ultimately have w: "within bs s (s\<lparr>at_byte := ?i\<rparr>)" by (intro within_goto [OF r])
  have e: "scan_number_end bs ?a tag = ?k + (case if tag = Duration_t then duration_suffix_at bs ?k
      else if tag = Int_t then size_suffix_at bs ?k else None of None \<Rightarrow> 0 | Some sx \<Rightarrow> length sx)" for tag
    unfolding scan_number_end_def Let_def fraction_end_def [symmetric] exponent_end_def [symmetric]
      digit_at_def [symmetric] if_not_P [OF False] by (rule refl)
  have plain: "fraction_end bs ?i = ?i" if "\<not> (peek bs ?i = Some 46 \<and> digit_at bs (?i + 1))"
    using that by (auto simp: fraction_end_def)
  have float: "ends p (push_token Float_k ?a) (\<lambda>_. stepped bs scan s) u"
    if "within bs s u" "at_byte u = ?k" for u
    by (rule push_step [OF r that(1) refl]) (simp add: token_end_by_def kind_tag_def e that(2))
  have duration: "ends p (push_token Duration_k ?a) (\<lambda>_. stepped bs scan s) (u\<lparr>at_byte := ?k + length sx\<rparr>)"
    if "within bs s u" "at_byte u = ?k" "duration_suffix_at bs ?k = Some sx" for u sx
  proof -
    have "boundary bs (?k + length sx)"
      using that duration_suffix_ascii [OF that(3)]
      by (intro suffix_boundary [OF readyD(1) [OF r]]) (auto simp: within_def)
    then have "within bs s (u\<lparr>at_byte := ?k + length sx\<rparr>)" using that by (intro within_move) auto
    then show ?thesis
      by (rule push_step [OF r _ refl]) (simp add: token_end_by_def kind_tag_def e that(3))
  qed
  have int: "ends p (push_token Int_k ?a) (\<lambda>_. stepped bs scan s)
      (u\<lparr>at_byte := ?k + (case size_suffix_at bs ?k of None \<Rightarrow> 0 | Some sx \<Rightarrow> length sx)\<rparr>)"
    if "within bs s u" "at_byte u = ?k" for u
  proof -
    have "boundary bs (?k + (case size_suffix_at bs ?k of None \<Rightarrow> 0 | Some sx \<Rightarrow> length sx))"
      using that size_suffix_ascii [of bs ?k] suffix_boundary [OF readyD(1) [OF r], of ?k]
      by (auto simp: within_def split: option.split)
    then have "within bs s (u\<lparr>at_byte := ?k + (case size_suffix_at bs ?k of None \<Rightarrow> 0 | Some sx \<Rightarrow> length sx)\<rparr>)"
      using that by (intro within_move) auto
    then show ?thesis
      by (rule push_step [OF r _ refl]) (simp add: token_end_by_def kind_tag_def e)
  qed
  have bare: "ends p (push_token Int_k ?a) (\<lambda>_. stepped bs scan s) u"
    if "within bs s u" "at_byte u = ?k" "size_suffix_at bs ?k = None" for u
    using int [OF that(1,2)] unfolding that(3) option.case add_0_right goto_same [OF that(2)] .
  have after: "ends p (lex_number_token bs ?a x) (\<lambda>_. stepped bs scan s) u"
    if "within bs s u" "at_byte u = ?k" for u x
    using float [OF that] duration [OF that] int [OF that] bare [OF that] that(2)
    by (auto simp: lex_number_token_def moves split: option.splits)
  have exponent: "ends p (lex_exponent bs ?a) (\<lambda>y. ends p (lex_number_token bs ?a (x \<or> y)) (\<lambda>_. stepped bs scan s)) u"
    if "within bs s u" "at_byte u = ?j" for u x
    by (rule ends_mono [OF lex_exponent_ends [OF r that(1) refl]]) (use that in \<open>auto intro: after\<close>)
  have "ends p (lex_fraction bs) (\<lambda>x. ends p (lex_exponent bs ?a)
      (\<lambda>y. ends p (lex_number_token bs ?a (x \<or> y)) (\<lambda>_. stepped bs scan s))) (s\<lparr>at_byte := ?i\<rparr>)"
    by (rule ends_mono [OF lex_fraction_ends [OF r w]]) (auto intro: exponent)
  then show ?thesis
    using False unfolding lex_number_def ends_bind ends_here ends_if ends_skip by auto
qed

section \<open>Quoted literals\<close>

declare decode_loop.simps [simp del]

lemma literal_token_end:
  assumes "scan i True t = (Inr (Some (Terminated l)), t')"
    and "tag \<in> {String_t, Path_String_t, Glob_String_t, Env_String_t, Fmt_String_t, Path_Fmt_String_t,
      Bytes_t, Regex_t}"
  shows "fst (token_end_by scan bs i tag t) = Inr (q_end l)"
proof -
  have "token_end_by scan bs i tag = bindS (scan i True) (\<lambda>r.
      retS (case r of Some (Terminated lit) \<Rightarrow> q_end lit | Some (Unterminated j) \<Rightarrow> j | None \<Rightarrow> i))"
    using assms(2) by (auto simp: token_end_by_def)
  then show ?thesis using assms(1) by (simp add: bindS_Inr)
qed

lemma within_scanned:
  "scans_after (thread_scans s) t \<Longrightarrow> at_byte s < j \<Longrightarrow> boundary bs j \<Longrightarrow>
     within bs s (s\<lparr>at_byte := j, thread_scans := t\<rparr>)"
  by (simp add: within_def same_tokens_def)

lemma update_order: "s\<lparr>thread_scans := t, at_byte := j\<rparr> = s\<lparr>at_byte := j, thread_scans := t\<rparr>"
  by (cases s) simp

context scanners
begin

abbreviation "scan \<equiv> scan_quoted_literal iend iclose bs"

lemmas scan_token_end = literal_token_end [of "scan_quoted_literal iend iclose bs"]

lemma scan_step:
  assumes r: "ready bs n s" and form: "quoted_literal_at bs (at_byte s) = Some form"
    and found: "\<And>l t. scan_found bs form (at_byte s) (Terminated l) \<Longrightarrow> scans_after (thread_scans s) t \<Longrightarrow>
      scan (at_byte s) True (thread_scans s) = (Inr (Some (Terminated l)), t) \<Longrightarrow> Q (Some (Terminated l)) t"
    and unterm: "\<And>j t. scan_found bs form (at_byte s) (Unterminated j) \<Longrightarrow> scans_after (thread_scans s) t \<Longrightarrow>
      Q (Some (Unterminated j)) t"
  shows "ends_in bs (scan (at_byte s) True) Q (thread_scans s)"
proof (rule ends_mono [OF ends_result [OF scan_quoted_ends [OF readyD(1-3) [OF r] form]]])
  fix r t
  assume *: "(scans_after (thread_scans s) t \<and> (\<exists>sc. r = Some sc \<and> scan_found bs form (at_byte s) sc)) \<and>
    scan (at_byte s) True (thread_scans s) = (Inr r, t)"
  then obtain sc where "r = Some sc" "scan_found bs form (at_byte s) sc" by blast
  then show "Q r t" using * found unterm by (cases sc) auto
qed

lemma found_within:
  assumes "scans_after (thread_scans s) t"
  shows "scan_found bs form (at_byte s) (Terminated l) \<Longrightarrow>
      within bs s (s\<lparr>at_byte := q_end l, thread_scans := t\<rparr>)"
    and "scan_found bs form (at_byte s) (Unterminated j) \<Longrightarrow>
      within bs s (s\<lparr>at_byte := j, thread_scans := t\<rparr>)"
  using assms by (auto simp: scan_found_def intro!: within_scanned)

lemma lex_fmt_string_step:
  assumes r: "ready bs n s" and form: "quoted_literal_at bs (at_byte s) = Some form" "form_kind form = Fmt_lit"
  shows "ends_in bs (lex_fmt_string iend iclose bs) (\<lambda>_. stepped bs scan s) s"
  unfolding lex_fmt_string_def ends_bind ends_here ends_scans
proof (rule scan_step [OF r form(1)], goal_cases)
  case (1 l t)
  have "ends_in bs (push_token (Fmt_String_k (q_raw l)) (at_byte s)) (\<lambda>_. stepped bs scan s)
      (s\<lparr>at_byte := q_end l, thread_scans := t\<rparr>)"
    by (rule push_step [OF r found_within(1) [OF 1(2,1)] refl])
      (simp add: scan_token_end [OF 1(3)] kind_tag_def)
  then show ?case using 1(1) form(2) by (simp add: moves scan_found_def update_order)
next
  case (2 j t)
  then show ?case
    using report_step [OF r found_within(2) [OF 2(2,1)], of "at_byte s"]
    by (simp add: moves update_order unterminated_fmt_def)
qed

lemma lex_path_fmt_string_step:
  assumes r: "ready bs n s" and form: "quoted_literal_at bs (at_byte s) = Some form" "form_kind form = Path_Fmt_lit"
  shows "ends_in bs (lex_path_fmt_string iend iclose bs) (\<lambda>_. stepped bs scan s) s"
  unfolding lex_path_fmt_string_def ends_bind ends_here ends_scans
proof (rule scan_step [OF r form(1)], goal_cases)
  case (1 l t)
  have "ends_in bs (push_token Path_Fmt_String_k (at_byte s)) (\<lambda>_. stepped bs scan s)
      (s\<lparr>at_byte := q_end l, thread_scans := t\<rparr>)"
    by (rule push_step [OF r found_within(1) [OF 1(2,1)] refl])
      (simp add: scan_token_end [OF 1(3)] kind_tag_def)
  then show ?case using 1(1) form(2) by (simp add: moves scan_found_def update_order)
next
  case (2 j t)
  then show ?case
    using report_step [OF r found_within(2) [OF 2(2,1)], of "at_byte s"]
    by (simp add: moves update_order unterminated_path_fmt_def)
qed

lemma string_kind_tag:
  "kind_tag (string_kind kind x raw) \<in> {String_t, Path_String_t, Glob_String_t, Env_String_t, Fmt_String_t,
     Path_Fmt_String_t, Bytes_t, Regex_t}"
  by (cases kind) (simp_all add: string_kind_def kind_tag_def)

lemma lex_string_step:
  assumes r: "ready bs n s" and form: "quoted_literal_at bs (at_byte s) = Some form"
    and q: "at_byte s \<le> q"
  shows "ends_in bs (lex_string iend iclose bs kind raw (at_byte s)) (\<lambda>_. stepped bs scan s) (s\<lparr>at_byte := q\<rparr>)"
proof -
  have "ends_in bs (scan (at_byte s) True) (\<lambda>r t. ends_in bs (case r of
         Some (Terminated lit) \<Rightarrow>
           bindS (goto_byte (content_start lit)) (\<lambda>_.
           bindS (decode_loop iclose bs kind raw (content_end lit) (Suc (length bs)) False [])
             (\<lambda>(interpolates, decoded).
           bindS (goto_byte (q_end lit)) (\<lambda>_.
             if kind = Bytes_lit \<or> decode_utf8 decoded \<noteq> None
             then push_token (string_kind kind interpolates raw) (at_byte s)
             else report_from Lex_Invalid_String (at_byte s)
                    ''string literal is not valid UTF-8'' ''invalid string literal'')))
       | Some (Unterminated j) \<Rightarrow>
           bindS (goto_byte j) (\<lambda>_. unterminated_string kind (min (at_byte s) q))
       | None \<Rightarrow>
           bindS (goto_byte q) (\<lambda>_.
             unterminated_string Str_lit (min (at_byte s) q))) (\<lambda>_. stepped bs scan s)
        (s\<lparr>at_byte := q, thread_scans := t\<rparr>)) (thread_scans s)"
  proof (rule scan_step [OF r form], goal_cases)
    case (1 l t)
    let ?s = "s\<lparr>at_byte := content_start l, thread_scans := t\<rparr>"
    have q_end: "content_start l \<le> content_end l" "content_end l < q_end l" "q_end l \<le> length bs"
      "at_byte s < q_end l" "boundary bs (q_end l)"
      using 1(1) by (auto simp: scan_found_def intro: boundary_le)
    have "ends_in bs (decode_loop iclose bs kind raw (content_end l) (Suc (length bs)) False [])
        (\<lambda>_. moves_on bs ?s) ?s"
      by (rule decode_loop_ends [OF readyD(1) [OF r]])
        (use q_end readyD(2,3) [OF r] 1(2) in \<open>auto simp: scans_after_ok scans_after_room\<close>)
    moreover have "within bs s (u\<lparr>at_byte := q_end l\<rparr>)" if "moves_on bs ?s u" for u
      using that q_end 1(2) by (auto simp: moves_on_def within_def same_tokens_def intro: scans_after_trans)
    then have "ends_in bs (push_token (string_kind kind x raw) (at_byte s)) (\<lambda>_. stepped bs scan s) (u\<lparr>at_byte := q_end l\<rparr>)"
      "ends_in bs (report_from code (at_byte s) message label) (\<lambda>_. stepped bs scan s) (u\<lparr>at_byte := q_end l\<rparr>)"
      if "moves_on bs ?s u" for u x code message label
      using that scan_token_end [OF 1(3) string_kind_tag]
      by (auto intro!: push_step [OF r] report_step [OF r])
    ultimately show ?case
      by (auto simp: moves update_order elim!: ends_mono)
  next
    case (2 j t)
    then show ?case
      using report_step [OF r found_within(2) [OF 2(2,1)], of "at_byte s"] q
      by (simp add: moves update_order unterminated_string_def)
  qed
  note main = this
  have same: "at_byte (s\<lparr>at_byte := q\<rparr>) = q" "thread_scans (s\<lparr>at_byte := q\<rparr>) = thread_scans s"
    by simp_all
  show ?thesis
    unfolding lex_string_def ends_bind ends_here ends_scans same by (rule main)
qed

lemma lex_quoted_step:
  assumes r: "ready bs n s" and form: "quoted_literal_at bs (at_byte s) = Some form"
  shows "ends_in bs (lex_quoted iend iclose bs form (at_byte s)) (\<lambda>_. stepped bs scan s) s"
  using lex_fmt_string_step [OF r form] lex_path_fmt_string_step [OF r form]
    lex_string_step [OF r form, of "at_byte s + length (form_prefix form)"] goto_same [of s "at_byte s"]
  by (auto simp: lex_quoted_def moves)

end

section \<open>Single bytes\<close>

lemma lead_width_pos: "0 < lead_width b"
  by (simp add: lead_width_def)

lemma unexpected_step:
  assumes r: "ready bs n s"
  shows "ends p (unexpected_character bs (at_byte s)) (\<lambda>_. stepped bs scan s) (s\<lparr>at_byte := q\<rparr>)"
proof -
  have "within bs s (s\<lparr>at_byte := at_byte s + lead_width (bs ! at_byte s)\<rparr>)"
    using char_after [OF readyD(1,4,5) [OF r]] lead_width_pos by (intro within_goto [OF r]) auto
  from report_step [OF r this order.refl] show ?thesis
    using readyD(4,5) [OF r] by (simp add: unexpected_character_def moves)
qed

lemma closing_quote_Some:
  "closing_quote rest = Some k \<Longrightarrow> k < length rest \<and> rest ! k = 39"
  by (auto simp: closing_quote_def Let_def split: if_splits)

lemma single_quoted_step:
  assumes r: "ready bs n s" and c: "bs ! at_byte s < 0x80"
  shows "ends p (report_single_quoted_text bs (at_byte s))
      (\<lambda>x t. if x then stepped bs scan s t else t = s\<lparr>at_byte := q\<rparr>) (s\<lparr>at_byte := q\<rparr>)"
proof -
  let ?i = "at_byte s + 1"
  have bd: "boundary bs ?i" using after_ascii [OF readyD(1,4) [OF r] c] by simp
  have le: "?i \<le> length bs" using readyD(4) [OF r] by simp
  have sl: "slice bs ?i (length bs) = Some (drop ?i bs)"
    using slice_Some [OF le bd] by (simp add: get_range_def le)
  have w: "within bs s (s\<lparr>at_byte := ?i + k + 1\<rparr>)" if "closing_quote (drop ?i bs) = Some k" for k
  proof -
    have "?i + k < length bs" "bs ! (?i + k) = 39"
      using closing_quote_Some [OF that] le by auto
    then show ?thesis
      using after_ascii [OF readyD(1) [OF r], of "?i + k"] by (intro within_goto [OF r]) simp_all
  qed
  show ?thesis
    using sl report_with_step [OF r w order.refl refl, of _ p]
    by (auto simp: report_single_quoted_text_def moves ends_sliced Let_def split: option.split)
qed

lemma substitution_end_Some:
  "substitution_end depth i rest = Some k \<Longrightarrow> i < k \<and> k \<le> i + length rest \<and> rest ! (k - 1 - i) = 41"
  by (induction depth i rest rule: substitution_end.induct)
    (auto split: if_splits simp: nth_Cons' )

lemma command_substitution_step:
  assumes r: "ready bs n s" and c: "bs ! at_byte s < 0x80"
  shows "ends p (report_command_substitution bs (at_byte s))
      (\<lambda>x t. if x then stepped bs scan s t else t = s\<lparr>at_byte := q\<rparr>) (s\<lparr>at_byte := q\<rparr>)"
proof -
  let ?i = "at_byte s + 1"
  let ?j = "case substitution_end 0 0 (drop ?i bs) of Some k \<Rightarrow> ?i + k | None \<Rightarrow> ?i"
  have "boundary bs ?i" using after_ascii [OF readyD(1,4) [OF r] c] by simp
  moreover have "boundary bs (?i + k)" if k: "substitution_end 0 0 (drop ?i bs) = Some k" for k
  proof -
    obtain m where m: "k = Suc m" using substitution_end_Some [OF k] by (cases k) auto
    then have "?i + m < length bs" "bs ! (?i + m) = 41"
      using substitution_end_Some [OF k] readyD(4) [OF r] by auto
    then show ?thesis using after_ascii [OF readyD(1) [OF r], of "?i + m"] m by simp
  qed
  ultimately have w: "within bs s (s\<lparr>at_byte := ?j\<rparr>)"
    by (intro within_goto [OF r]) (auto split: option.split)
  show ?thesis
    using report_step [OF r w order.refl, of p]
    by (auto simp: report_command_substitution_def moves)
qed

lemma single_byte_kind_text:
  assumes "single_byte_kind b = Some kind"
  shows "fixed_text (kind_tag kind) = Some [b] \<and> b < 0x80 \<and> kind_tag kind \<noteq> Eof_t"
  using map_of_SomeD [OF assms [unfolded single_byte_kind_def]]
  by (auto simp: kind_tag_def fixed_text_def bytes_of_def)

lemma starts_at_byte: "i < length bs \<Longrightarrow> starts_at bs i [bs ! i]"
  by (simp add: starts_at_def take_Suc_conv_app_nth hd_drop_conv_nth take_Suc)

lemma lex_single_byte_step:
  assumes r: "ready bs n s" and b: "b = bs ! at_byte s"
  shows "ends p (lex_single_byte bs (at_byte s) b) (\<lambda>_. stepped bs scan s) s"
proof (cases "single_byte_kind b")
  case (Some kind)
  have "ends p (lex_fixed bs (at_byte s) kind 1) (\<lambda>_. stepped bs scan s) s"
    using single_byte_kind_text [OF Some] starts_at_byte [OF readyD(4) [OF r]] b
    by (intro lex_fixed_step [OF r, of "[b]"]) auto
  then show ?thesis using Some by (simp add: lex_single_byte_def lex_fixed_def moves)
next
  case None
  let ?u = "s\<lparr>at_byte := at_byte s + 1\<rparr>"
  have rest: "ends p m (\<lambda>x. ends p (if x then retS () else unexpected_character bs (at_byte s))
      (\<lambda>_. stepped bs scan s)) ?u"
    if "ends p m (\<lambda>x t. if x then stepped bs scan s t else t = ?u) ?u" for m
    using that unexpected_step [OF r, of p] by (auto simp: moves elim!: ends_mono)
  have "ends p (if b = 39 then report_single_quoted_text bs (at_byte s)
      else if b = 36 then report_command_substitution bs (at_byte s) else retS False)
      (\<lambda>x t. if x then stepped bs scan s t else t = ?u) ?u"
    using single_quoted_step [OF r, of p scan "at_byte s + 1"] b
      command_substitution_step [OF r, of p scan "at_byte s + 1"] by (simp add: ends_ret)
  from rest [OF this] show ?thesis
    unfolding lex_single_byte_def None option.case ends_bind ends_advance .
qed

lemma fixed_tokens_text:
  assumes "(text, kind) \<in> set fixed_tokens"
  shows "fixed_text (kind_tag kind) = Some text \<and> text \<noteq> [] \<and> last text < 0x80 \<and> kind_tag kind \<noteq> Eof_t"
  using assms by (auto simp: fixed_tokens_def kind_tag_def fixed_text_def bytes_of_def)

lemma ends_ifI:
  "(c \<Longrightarrow> ends p m Q s) \<Longrightarrow> (\<not> c \<Longrightarrow> ends p m' Q s) \<Longrightarrow> ends p (if c then m else m') Q s"
  by simp

lemma lex_punctuation_step:
  assumes r: "ready bs n s" and b: "b = bs ! at_byte s"
  shows "ends p (lex_punctuation bs (at_byte s) b) (\<lambda>_. stepped bs scan s) s"
proof -
  have fixed: "ends p (lex_fixed bs (at_byte s) kind w) (\<lambda>_. stepped bs scan s) s"
    if "starts_at bs (at_byte s) text" "fixed_text (kind_tag kind) = Some text" "kind_tag kind \<noteq> Eof_t"
      "text \<noteq> [] \<and> last text < 0x80" "w = length text" for kind w "text"
    using that by (intro lex_fixed_step [OF r that(1)]) auto
  have found: "ends p (lex_fixed bs (at_byte s) kind (length text)) (\<lambda>_. stepped bs scan s) s"
    if "find (\<lambda>(text, _). starts_at bs (at_byte s) text) fixed_tokens = Some (text, kind)" for "text" kind
  proof -
    have "(text, kind) \<in> set fixed_tokens" "starts_at bs (at_byte s) text"
      using that by (auto simp: find_Some_iff intro: nth_mem [where xs = fixed_tokens, THEN back_subst [where P = "\<lambda>x. x \<in> _"]])
    then show ?thesis using fixed_tokens_text by (intro fixed) auto
  qed
  have dollar: "peek bs (at_byte s) = Some 36" if "b = 36"
    using that b readyD(4) [OF r] by (simp add: peek_Some)
  show ?thesis
    unfolding lex_punctuation_def
  proof (intro ends_ifI, goal_cases)
    case 1
    then show ?case by (rule fixed) (simp_all add: kind_tag_def fixed_text_def bytes_of_def)
  next
    case 2
    then show ?case by (intro fixed [of "bytes_of ''E>''"]) (simp_all add: kind_tag_def fixed_text_def bytes_of_def)
  next
    case 3
    then show ?case using b by (intro lex_ident_step [OF r]) simp
  next
    case 4
    then show ?case using b by (intro lex_number_step [OF r]) simp
  next
    case 5
    then show ?case by (intro fixed [of "bytes_of ''$?''"]) (simp_all add: kind_tag_def fixed_text_def bytes_of_def)
  next
    case 6
    then show ?case by (intro fixed [of "bytes_of ''${''"]) (simp_all add: kind_tag_def fixed_text_def bytes_of_def)
  next
    case 7
    then show ?case using dollar lex_dollar_ident_step [OF r] by (auto split: option.splits)
  next
    case 8
    show ?case using found lex_single_byte_step [OF r b] by (simp split: option.split)
  qed
qed

context scanners
begin

lemma lex_token_step:
  assumes r: "ready bs n s"
  shows "ends_in bs (lex_token iend iclose bs) (\<lambda>_. stepped bs scan s) s"
proof -
  have pk: "peek bs (at_byte s) = Some (bs ! at_byte s)" using readyD(4) [OF r] by (simp add: peek_Some)
  show ?thesis
    unfolding lex_token_def moves pk option.case
    using pk lex_whitespace_step [OF r] lex_line_continuation_step [OF r] newline_step [OF r refl]
      lex_comment_step [OF r] lex_quoted_step [OF r] lex_punctuation_step [OF r refl]
    by (auto split: option.split)
qed

end

end
