(* ===== verification/Xsh_Lexer_Correct.thy ===== *)
theory Xsh_Lexer_Correct
  imports Xsh_Step_Correct
begin

text \<open>
  The searches for a closing brace keep the contract of \<open>scanners\<close>, and what holds of the lexer on a
  whole source: it ends, its tokens are in order, no byte is lost, and where it panics.
\<close>

section \<open>The end of an interpolation\<close>

definition brace_found :: "source \<Rightarrow> nat \<Rightarrow> interpolation_end_at \<Rightarrow> bool" where
  "brace_found bs start r =
     (case r of
        Close j \<Rightarrow> start \<le> j \<and> peek bs j = Some 125
      | Comment_at j \<Rightarrow> start \<le> j \<and> peek bs j = Some 35
      | Unclosed \<Rightarrow> True)"

lemma brace_found_Unclosed [simp]: "brace_found bs start Unclosed"
  by (simp add: brace_found_def)

lemma brace_found_mono: "i \<le> j \<Longrightarrow> brace_found bs j r \<Longrightarrow> brace_found bs i r"
  by (auto simp: brace_found_def split: interpolation_end_at.splits)

lemma ends_run_scanner [wp]:
  "ends p (run_scanner start m) Q = (\<lambda>t. ends p m (\<lambda>r s. Q r (thread_scans s)) (scanner_at start t))"
  by (simp add: fun_eq_iff ends_def run_scanner_def split: prod.split sum.split)

lemma slice_head: "slice bs i j = Some (b # rest) \<Longrightarrow> peek bs i = Some b"
proof -
  assume "slice bs i j = Some (b # rest)"
  then have t: "take (j - i) (drop i bs) = b # rest" by (auto simp: slice_def get_range_def split: if_splits)
  then have "take (j - i) (drop i bs) ! 0 = b" "0 < length (take (j - i) (drop i bs))" by simp_all
  then show ?thesis by (auto simp: peek_Some)
qed

context scanners
begin

lemma end_loop_ends:
  assumes valid: "valid_source bs"
  shows "scan_only s \<Longrightarrow> scans_ok (thread_scans s) \<Longrightarrow> room (thread_scans s) < n \<Longrightarrow>
    boundary bs (at_byte s) \<Longrightarrow> length bs - at_byte s < fuel \<Longrightarrow>
    ends_in bs (end_loop (lex_token iend iclose bs) bs fuel depth)
      (\<lambda>r t. scans_after (thread_scans s) (thread_scans t) \<and> brace_found bs (at_byte s) r) s"
proof (induction fuel arbitrary: s depth)
  case (Suc fuel)
  let ?P = "\<lambda>b :: u8. b = 32 \<or> b = 9"
  let ?i = "scan_while ?P bs (at_byte s)"
  let ?s = "s\<lparr>at_byte := ?i\<rparr>"
  let ?step = "lex_token iend iclose bs"
  let ?next = "\<lambda>text. if text \<in> {[40], [91], [123], [36, 123]} then end_loop ?step bs fuel (depth + 1)
       else if text \<in> {[41], [93]} then end_loop ?step bs fuel (depth - 1)
       else if text = [125] \<and> depth = 0 then retS (Close ?i)
       else if text = [125] then end_loop ?step bs fuel (depth - 1)
       else end_loop ?step bs fuel depth"
  let ?Q = "\<lambda>r t. scans_after (thread_scans s) (thread_scans t) \<and> brace_found bs (at_byte s) r"
  have ge: "at_byte s \<le> ?i" by (rule scan_while_ge)
  have bd: "boundary bs ?i" by (rule scan_while_boundary [OF valid Suc.prems(4)]) auto
  have again: "ends_in bs (end_loop (lex_token iend iclose bs) bs fuel d) ?Q u" if "stepped bs scan ?s u" for u d
  proof (rule ends_mono [OF Suc.IH])
    show "scan_only u" "scans_ok (thread_scans u)" "room (thread_scans u) < n" "boundary bs (at_byte u)"
      using that Suc.prems(1-3) by (auto simp: stepped_def scans_after_ok scans_after_room)
    show "length bs - at_byte u < fuel"
      using that Suc.prems(5) ge boundary_le [of bs "at_byte u"] by (auto simp: stepped_def)
    show "?Q r t" if "scans_after (thread_scans u) (thread_scans t) \<and> brace_found bs (at_byte u) r" for r t
      using that \<open>stepped bs scan ?s u\<close> ge brace_found_mono [of "at_byte s" "at_byte u"]
      by (auto simp: stepped_def intro: scans_after_trans)
  qed
  have close: "brace_found bs (at_byte s) (Close ?i)" if "slice bs ?i j = Some [125]" for j
    using slice_head [OF that] ge by (simp add: brace_found_def)
  have tail: "ends_in bs (sliced bs ?i (at_byte u)) (\<lambda>text. ends_in bs (?next text) ?Q) u"
    if u: "stepped bs scan ?s u" for u
  proof -
    obtain "text" where cut: "slice bs ?i (at_byte u) = Some text"
      using slice_Some [of ?i "at_byte u" bs] u bd by (auto simp: stepped_def)
    have "?Q (Close ?i) u" if "text = [125] \<and> depth = 0"
      using close cut that u by (auto simp: stepped_def)
    then show ?thesis
      unfolding ends_sliced cut option.case by (intro ends_ifI again u) (simp add: ends_ret)
  qed
  let ?after = "bindS (on_scans is_unwinding) (\<lambda>w. if w then retS Unclosed
      else bindS here_at (\<lambda>i. bindS (if i = ?i then advance 1 else retS ()) (\<lambda>_.
        bindS here_at (\<lambda>j. bindS (sliced bs ?i j) ?next))))"
  have after: "ends_in bs ?after ?Q u" if u: "stepped bs scan ?s u" for u
  proof -
    have ne: "(at_byte u = ?i) = False" and q: "?Q Unclosed u" using u by (auto simp: stepped_def)
    have same: "u\<lparr>thread_scans := thread_scans u\<rparr> = u" by simp
    show ?thesis
      unfolding ends_bind ends_scans ends_unwinding same
    proof (rule ends_ifI)
      show "ends_in bs (retS Unclosed) ?Q u" using q by (simp only: ends_ret)
    qed (use tail [OF u] in \<open>simp only: ends_bind ends_here ends_ret ne if_False\<close>)
  qed
  show ?case
  proof (cases "peek bs ?i = None \<or> peek bs ?i = Some 35")
    case True
    then show ?thesis using ge by (auto simp: lex_whitespace_def wp brace_found_def)
  next
    case False
    then have "ready bs n ?s"
      using valid Suc.prems(1-3) bd by (auto simp: ready_def peek_None)
    then have "ends_in bs ?step (\<lambda>_. ends_in bs ?after ?Q) ?s"
      by (rule ends_mono [OF lex_token_step]) (rule after)
    moreover have "(peek bs ?i = None) = False" "(peek bs ?i = Some 35) = False" "at_byte ?s = ?i"
      using False by simp_all
    ultimately show ?thesis
      by (simp only: end_loop.simps lex_whitespace_def ends_bind ends_skip ends_here if_False)
  qed
qed simp

lemma interpolation_end_step:
  assumes "valid_source bs" and "scans_ok t" and "room t < Suc n" and "boundary bs start"
  shows "ends_in bs (while_open Unclosed (run_scanner start
        (end_loop (lex_token iend iclose bs) bs (Suc (length bs)) depth)))
      (\<lambda>r t'. scans_after t t' \<and> brace_found bs start r) t"
proof (rule ends_while_open [OF assms(2)])
  show "scans_after t t' \<and> brace_found bs start Unclosed" if "scans_after t t'" for t'
    using that by simp
  show "ends_in bs (run_scanner start (end_loop (lex_token iend iclose bs) bs (Suc (length bs)) depth))
      (\<lambda>r v. scans_after u v \<and> (\<forall>t'. scans_after t t' \<longrightarrow> scans_after t t' \<and> brace_found bs start r)) u"
    if "scans_ok u" "room t = Suc (room u)" for u
    unfolding ends_run_scanner
    by (rule ends_mono [OF end_loop_ends [OF assms(1)]])
      (use that assms in \<open>auto simp: scanner_at_def\<close>)
qed

lemma interpolation_close_step:
  assumes "valid_source bs" and "scans_ok t" and "room t < Suc n" and "start \<le> length bs"
  shows "ends_in bs (while_open None (close_loop iend iclose bs (Suc (length bs)) start depth))
      (\<lambda>r t'. scans_after t t' \<and> (\<forall>j. r = Some j \<longrightarrow> start \<le> j \<and> peek bs j = Some 125)) t"
proof (rule ends_while_open [OF assms(2)])
  show "ends_in bs (close_loop iend iclose bs (Suc (length bs)) start depth)
      (\<lambda>r v. scans_after u v \<and> (\<forall>t'. scans_after t t' \<longrightarrow>
        scans_after t t' \<and> (\<forall>j. r = Some j \<longrightarrow> start \<le> j \<and> peek bs j = Some 125))) u"
    if "scans_ok u" "room t = Suc (room u)" for u
    by (rule ends_mono [OF close_loop_ends [OF assms(1)]]) (use that assms in auto)
qed auto

end

text \<open>The searches keep the contract with the fuel that is their depth.\<close>

lemma scanners_interpolation: "scanners bs n (interpolation_end n bs) (interpolation_close n bs)"
proof (induction n)
  case 0
  show ?case by unfold_locales auto
next
  case (Suc n)
  show ?case
    by (rule scanners.intro)
      (use scanners.interpolation_end_step [OF Suc] scanners.interpolation_close_step [OF Suc] in
        \<open>simp_all add: brace_found_def\<close>)
qed

interpretation lexing: scanners bs n "interpolation_end n bs" "interpolation_close n bs"
  for bs :: source and n :: nat
  by (rule scanners_interpolation)

section \<open>The whole source\<close>

text \<open>The tokens from offset \<open>i\<close> to \<open>j\<close>, in order and apart, with the ends computed from the source.\<close>

fun laid_out :: "source \<Rightarrow> nat \<Rightarrow> (token_kind \<times> nat) list \<Rightarrow> nat \<Rightarrow> bool" where
  "laid_out bs i [] j \<longleftrightarrow> i \<le> j"
| "laid_out bs i ((kind, start) # rows) j \<longleftrightarrow> i \<le> start \<and>
     (\<exists>e. fst (token_end bs start (kind_tag kind) fresh_scans) = Inr e \<and> start < e \<and> laid_out bs e rows j)"

lemma laid_out_append:
  "laid_out bs i rows j \<Longrightarrow> j \<le> start \<Longrightarrow>
     fst (token_end bs start (kind_tag kind) fresh_scans) = Inr e \<Longrightarrow> start < e \<Longrightarrow>
     laid_out bs i (rows @ [(kind, start)]) e"
  by (induction bs i rows j rule: laid_out.induct) auto

lemma laid_out_mono: "laid_out bs i rows j \<Longrightarrow> j \<le> k \<Longrightarrow> laid_out bs i rows k"
  by (induction bs i rows j rule: laid_out.induct) auto

lemma laid_out_length: "laid_out bs i rows j \<Longrightarrow> i + length rows \<le> j"
  by (induction bs i rows j rule: laid_out.induct) force+

lemma laid_out_nth:
  "laid_out bs i rows j \<Longrightarrow> k < length rows \<Longrightarrow>
     \<exists>e. fst (token_end bs (snd (rows ! k)) (kind_tag (fst (rows ! k))) fresh_scans) = Inr e \<and>
       snd (rows ! k) < e \<and> e \<le> j \<and> (Suc k < length rows \<longrightarrow> e \<le> snd (rows ! Suc k))"
proof (induction bs i rows j arbitrary: k rule: laid_out.induct)
  case (2 bs i kind start rows j)
  then obtain e where e: "fst (token_end bs start (kind_tag kind) fresh_scans) = Inr e" "start < e"
    "laid_out bs e rows j" by auto
  show ?case
  proof (cases k)
    case 0
    have "e \<le> j" using laid_out_length [OF e(3)] by simp
    moreover have "e \<le> snd (rows ! 0)" if "rows \<noteq> []" using e(3) that by (cases rows) auto
    ultimately show ?thesis using 0 e by auto
  next
    case (Suc m)
    then show ?thesis using 2(1) [OF e(3), of m] 2(3) by simp
  qed
qed simp

text \<open>What a byte of the source became.\<close>

definition in_token :: "source \<Rightarrow> (token_kind \<times> nat) list \<Rightarrow> nat \<Rightarrow> bool" where
  "in_token bs rows i \<longleftrightarrow> (\<exists>(kind, start) \<in> set rows. \<exists>e.
     fst (token_end bs start (kind_tag kind) fresh_scans) = Inr e \<and> start \<le> i \<and> i < e)"

definition in_continuation :: "source \<Rightarrow> u32 list \<Rightarrow> nat \<Rightarrow> bool" where
  "in_continuation bs cs i \<longleftrightarrow> (\<exists>c \<in> set cs. \<exists>j. peek bs (unat c) = Some 92 \<and>
     line_break_at bs (unat c + 1) j \<and> unat c \<le> i \<and> i < j)"

definition byte_accounted ::
  "source \<Rightarrow> (token_kind \<times> nat) list \<Rightarrow> u32 list \<Rightarrow> diagnostic list \<Rightarrow> nat \<Rightarrow> bool" where
  "byte_accounted bs rows cs ds i \<longleftrightarrow>
     in_token bs rows i \<or> in_continuation bs cs i \<or> bs ! i = 32 \<or> bs ! i = 9 \<or> reported ds i (i + 1)"

lemma byte_accounted_mono:
  assumes "byte_accounted bs rows cs ds i"
    and "set rows \<subseteq> set rows'" "set cs \<subseteq> set cs'" "set ds \<subseteq> set ds'"
  shows "byte_accounted bs rows' cs' ds' i"
  using assms unfolding byte_accounted_def in_token_def in_continuation_def reported_def by blast

definition lexed :: "source \<Rightarrow> lexer \<Rightarrow> bool" where
  "lexed bs s \<longleftrightarrow>
     thread_scans s = fresh_scans \<and> \<not> scan_only s \<and> boundary bs (at_byte s) \<and>
     (\<exists>rows. represents (symbols s) (token_builder s) rows \<and> laid_out bs 0 rows (at_byte s) \<and>
       (\<forall>i < at_byte s. byte_accounted bs rows (b_continuations (token_builder s)) (diagnostics s) i))"

lemma fresh_room: "scans_ok fresh_scans" "room fresh_scans < nesting_fuel"
  by (simp_all add: scans_ok_def room_def fresh_scans_def nesting_fuel_def)

lemma lexed_ready:
  assumes "valid_source bs" and "lexed bs s" and "at_byte s < length bs"
  shows "ready bs nesting_fuel s"
proof -
  obtain rows where "represents (symbols s) (token_builder s) rows" "laid_out bs 0 rows (at_byte s)"
    using assms(2) by (auto simp: lexed_def)
  then show ?thesis
    using assms fresh_room laid_out_length [of bs 0 rows "at_byte s"] by (auto simp: ready_def lexed_def)
qed

text \<open>The rows after a step.\<close>

lemma accounted_rows:
  assumes small: "int (length bs) + 1 < 2 ^ 32"
    and rows: "represents (symbols s) (token_builder s) rows" "laid_out bs 0 rows (at_byte s)"
    and scans: "thread_scans s = fresh_scans"
    and a: "accounted bs (scan_literal bs) s t" "at_byte s < at_byte t" "at_byte s < length bs"
  shows "\<exists>rows'. represents (symbols s) (token_builder t) rows' \<and> laid_out bs 0 rows' (at_byte t) \<and>
    set rows \<subseteq> set rows' \<and> set (b_continuations (token_builder s)) \<subseteq> set (b_continuations (token_builder t)) \<and>
    (\<forall>i. at_byte s \<le> i \<and> i < at_byte t \<longrightarrow>
       byte_accounted bs rows' (b_continuations (token_builder t)) (diagnostics t) i)"
proof -
  have len: "length rows \<le> at_byte s" using laid_out_length [OF rows(2)] by simp
  then have small': "int (length rows + 1) < 2 ^ 32" "int (at_byte s) < 2 ^ 32"
    using small a(3) by auto
  from a(1) consider (token) kind ident where
      "push_kind (symbols s) kind (at_byte s) (token_builder s) = Some (ident, token_builder t)"
      "fst (token_end bs (at_byte s) (kind_tag kind) fresh_scans) = Inr (at_byte t)"
    | (continuation) "push_line_continuation (at_byte s) (token_builder s) = Some (token_builder t)"
      "peek bs (at_byte s) = Some 92" "line_break_at bs (at_byte s + 1) (at_byte t)"
    | (rest) "token_builder t = token_builder s"
      "blank bs (at_byte s) (at_byte t) \<or> reported (diagnostics t) (at_byte s) (at_byte t)"
    unfolding accounted_def scans token_end_def [symmetric] by blast
  then show ?thesis
  proof cases
    case token
    then have "represents (symbols s) (token_builder t) (rows @ [(kind, at_byte s)])"
      "b_continuations (token_builder t) = b_continuations (token_builder s)"
      using push_kind_spec(1) [OF rows(1) small', of kind] by auto
    moreover have "laid_out bs 0 (rows @ [(kind, at_byte s)]) (at_byte t)"
      by (rule laid_out_append [OF rows(2) order.refl token(2) a(2)])
    ultimately show ?thesis
      using token(2) by (intro exI [of _ "rows @ [(kind, at_byte s)]"]) (auto simp: byte_accounted_def in_token_def)
  next
    case continuation
    have n: "u32_try_from (at_byte s) = Some (of_nat (at_byte s))" using small' by (simp add: u32_try_from_def)
    then have b: "token_builder t = (token_builder s)\<lparr>b_continuations := b_continuations (token_builder s) @
        [of_nat (at_byte s)]\<rparr>"
      using continuation(1) by (simp add: push_line_continuation_def)
    have "unat (of_nat (at_byte s) :: u32) = at_byte s" using small' by (intro unat_of_nat_u32)
    then show ?thesis
      using rows a(2) continuation(2,3) unfolding b
      by (intro exI [of _ rows])
        (auto simp: represents_def byte_accounted_def in_continuation_def intro: laid_out_mono)
  next
    case rest
    have "bs ! i = 32 \<or> bs ! i = 9 \<or> reported (diagnostics t) i (i + 1)" if "at_byte s \<le> i \<and> i < at_byte t" for i
      using rest(2) that unfolding blank_def reported_def by fastforce
    then show ?thesis
      using rest(1) rows a(2) by (intro exI [of _ rows]) (auto simp: byte_accounted_def intro: laid_out_mono)
  qed
qed

lemma lexed_step:
  assumes valid: "valid_source bs" and s: "lexed bs s" "at_byte s < length bs"
    and t: "stepped bs (scan_literal bs) s t"
  shows "lexed bs (t\<lparr>thread_scans := fresh_scans\<rparr>)"
proof -
  obtain rows where rows: "represents (symbols s) (token_builder s) rows" "laid_out bs 0 rows (at_byte s)"
    and old: "\<forall>i < at_byte s. byte_accounted bs rows (b_continuations (token_builder s)) (diagnostics s) i"
    using s(1) by (auto simp: lexed_def)
  have st: "thread_scans s = fresh_scans" "\<not> scan_only s" using s(1) by (auto simp: lexed_def)
  have acc: "accounted bs (scan_literal bs) s t" "at_byte s < at_byte t" "set (diagnostics s) \<subseteq> set (diagnostics t)"
    using t st(2) by (auto simp: stepped_def dest: set_mono_prefix)
  have small: "int (length bs) + 1 < 2 ^ 32" using valid by (simp add: valid_source_def)
  obtain rows' where rows': "represents (symbols s) (token_builder t) rows'" "laid_out bs 0 rows' (at_byte t)"
    "set rows \<subseteq> set rows'" "set (b_continuations (token_builder s)) \<subseteq> set (b_continuations (token_builder t))"
    "\<forall>i. at_byte s \<le> i \<and> i < at_byte t \<longrightarrow>
       byte_accounted bs rows' (b_continuations (token_builder t)) (diagnostics t) i"
    using accounted_rows [OF small rows st(1) acc(1,2) s(2)] by blast
  have "byte_accounted bs rows' (b_continuations (token_builder t)) (diagnostics t) i" if "i < at_byte t" for i
    using that rows'(5) old byte_accounted_mono [OF _ rows'(3,4) acc(3)] by (cases "i < at_byte s") auto
  then show ?thesis
    using t st rows'(1,2) by (auto simp: lexed_def stepped_def)
qed

lemma ends_bindI:
  "ends p m R s \<Longrightarrow> (\<And>a t. R a t \<Longrightarrow> ends p (f a) Q t) \<Longrightarrow> ends p (bindS m f) Q s"
  by (simp add: ends_bind ends_mono)

text \<open>A source that nests too deeply is reported from the token on, to its end.\<close>

lemma lexed_refused:
  assumes "lexed bs u" and "at_byte s \<le> at_byte u" and "d = diagnostics u @ [x]"
    and "diag_span x = (at_byte s, length bs)"
  shows "lexed bs (u\<lparr>diagnostics := d, at_byte := length bs\<rparr>)"
proof -
  obtain rows where rows: "represents (symbols u) (token_builder u) rows" "laid_out bs 0 rows (at_byte u)"
    and old: "\<forall>i < at_byte u. byte_accounted bs rows (b_continuations (token_builder u)) (diagnostics u) i"
    using assms(1) by (auto simp: lexed_def)
  have "byte_accounted bs rows (b_continuations (token_builder u)) d i" if "i < length bs" for i
  proof (cases "i < at_byte u")
    case True
    then show ?thesis using old byte_accounted_mono [of bs rows _ "diagnostics u" i rows _ d] assms(3) by auto
  next
    case False
    then show ?thesis using assms(2-4) that by (auto simp: byte_accounted_def reported_def)
  qed
  moreover have "laid_out bs 0 rows (length bs)"
    using rows(2) assms(1) boundary_le by (auto simp: lexed_def intro: laid_out_mono)
  ultimately show ?thesis using assms(1) rows by (auto simp: lexed_def)
qed

lemma ends_take_refused [wp]: "ends p take_refused Q = (\<lambda>t. Q (refused t) (t\<lparr>refused := False\<rparr>))"
  by (simp add: fun_eq_iff ends_def take_refused_def)

lemma next_token_ends:
  assumes "valid_source bs" and "lexed bs s" and "at_byte s < length bs"
  shows "ends_in bs (next_token bs) (\<lambda>_. stepped bs (scan_literal bs) s) s"
  using lexing.lex_token_step [OF lexed_ready [OF assms]] by (simp add: next_token_def scan_literal_def)

lemma scans_reset: "scans_after fresh_scans t \<Longrightarrow> t\<lparr>refused := False\<rparr> = fresh_scans"
  by (cases t) (auto simp: scans_after_def fresh_scans_def)

lemma lex_loop_ends:
  assumes valid: "valid_source bs"
  shows "lexed bs s \<Longrightarrow> length bs - at_byte s < fuel \<Longrightarrow>
    ends_in bs (lex_loop bs fuel) (\<lambda>_ t. lexed bs t \<and> at_byte t = length bs \<and> symbols t = symbols s) s"
proof (induction fuel arbitrary: s)
  case (Suc fuel)
  let ?Q = "\<lambda>_ t. lexed bs t \<and> at_byte t = length bs \<and> symbols t = symbols s"
  have le: "at_byte s \<le> length bs" using Suc.prems(1) by (simp add: lexed_def boundary_le)
  show ?case
  proof (cases "at_byte s < length bs")
    case False
    then show ?thesis using le Suc.prems(1) by (simp add: moves)
  next
    case True
    have again: "ends_in bs (lex_loop bs fuel) ?Q u"
      if "lexed bs u" "at_byte s < at_byte u" "symbols u = symbols s" for u
      using Suc.IH [OF that(1)] that(2,3) Suc.prems(2) True by simp
    have rest: "ends_in bs (bindS (on_scans take_refused) (\<lambda>r.
         bindS (if r
                then bindS (report_at Parse_Nesting_Depth (at_byte s) (length bs) message label)
                     (\<lambda>_. goto_byte (length bs))
                else retS ()) (\<lambda>_. lex_loop bs fuel))) ?Q t"
      if t: "stepped bs (scan_literal bs) s t" for t message label
    proof -
      let ?t = "t\<lparr>thread_scans := fresh_scans\<rparr>"
      have l: "lexed bs ?t" "at_byte s < at_byte ?t" "symbols ?t = symbols s"
        using lexed_step [OF valid Suc.prems(1) True t] t by (auto simp: stepped_def)
      have reset: "(thread_scans t)\<lparr>refused := False\<rparr> = fresh_scans"
        using t Suc.prems(1) by (intro scans_reset) (auto simp: stepped_def lexed_def)
      have ok: "span_ok (at_byte s) (length bs)" using span_in_source [OF valid le] by simp
      have refused: "ends_in bs (lex_loop bs fuel) ?Q (?t\<lparr>diagnostics := diagnostics t @ [x], at_byte := length bs\<rparr>)"
        if "diag_span x = (at_byte s, length bs)" for x
        by (rule again [OF lexed_refused [OF l(1), where s = s and x = x]]) (use that l True in simp_all)
      show ?thesis
        using again [OF l] refused ok
        by (auto simp: moves ends_scans ends_take_refused reset report_at_def ends_report_with)
    qed
    have cond: "(length bs \<le> at_byte s) = False" using True by simp
    show ?thesis
      unfolding lex_loop.simps
    proof (rule ends_bindI [where R = "\<lambda>a t. a = at_byte s \<and> t = s"])
      show "ends_in bs here_at (\<lambda>a t. a = at_byte s \<and> t = s) s" by (simp add: ends_here)
    qed (use rest in \<open>auto simp only: cond if_False intro!: ends_bindI [OF next_token_ends [OF valid Suc.prems(1) True]]\<close>)
  qed
qed simp

lemma lexed_new: "lexed bs (lexer_new symbol fresh_scans)"
  unfolding lexed_def by (auto simp: lexer_new_def represents_default intro!: exI [of _ "[]"])

text \<open>What a whole run leaves behind.\<close>

definition lexed_source :: "source \<Rightarrow> (u8 list \<Rightarrow> u32) \<Rightarrow> lexer \<Rightarrow> bool" where
  "lexed_source bs symbol t \<longleftrightarrow>
     (\<exists>rows. represents symbol (token_builder t) (rows @ [(Eof_k, length bs)]) \<and>
       laid_out bs 0 rows (length bs) \<and>
       (\<forall>i < length bs. byte_accounted bs rows (b_continuations (token_builder t)) (diagnostics t) i))"

lemma lex_source_ends:
  assumes valid: "valid_source bs"
  shows "ends_in bs (lex_source bs) (\<lambda>_ t. lexed_source bs symbol t) (lexer_new symbol fresh_scans)"
proof -
  let ?s = "lexer_new symbol fresh_scans"
  have s: "lexed bs ?s" "at_byte ?s = 0" "symbols ?s = symbol"
    by (rule lexed_new) (simp_all add: lexer_new_def)
  have eof: "ends_in bs (push_token Eof_k (length bs)) (\<lambda>_ t. lexed_source bs symbol t) t"
    if t: "lexed bs t" "at_byte t = length bs" "symbols t = symbol" for t
  proof -
    obtain rows where rows: "represents symbol (token_builder t) rows" "laid_out bs 0 rows (length bs)"
      "\<forall>i < length bs. byte_accounted bs rows (b_continuations (token_builder t)) (diagnostics t) i"
      using t by (auto simp: lexed_def)
    have "int (length rows + 1) < 2 ^ 32" "int (length bs) < 2 ^ 32"
      using valid laid_out_length [OF rows(2)] by (auto simp: valid_source_def)
    from push_kind_spec(1) [OF rows(1) this, of Eof_k] obtain ident b' where
      "push_kind symbol Eof_k (length bs) (token_builder t) = Some (ident, b')"
      "represents symbol b' (rows @ [(Eof_k, length bs)])"
      "b_continuations b' = b_continuations (token_builder t)" by blast
    then show ?thesis
      using t rows by (auto simp: ends_push_token lexed_def lexed_source_def intro!: exI [of _ rows])
  qed
  have loop: "ends_in bs (lex_loop bs (Suc (length bs)))
      (\<lambda>_ t. lexed bs t \<and> at_byte t = length bs \<and> symbols t = symbol) ?s"
    using lex_loop_ends [OF valid s(1), of "Suc (length bs)"] s by simp
  have same: "?s\<lparr>thread_scans := (thread_scans ?s)\<lparr>refused := False\<rparr>\<rparr> = ?s"
    by (simp add: lexer_new_def fresh_scans_def)
  have "ends_in bs (bindS (lex_loop bs (Suc (length bs))) (\<lambda>_. bindS here_at (\<lambda>i. push_token Eof_k i)))
      (\<lambda>_ t. lexed_source bs symbol t) ?s"
    by (rule ends_bindI [OF loop]) (auto simp: ends_bind ends_here eof)
  then show ?thesis
    unfolding lex_source_def ends_bind [of _ "on_scans take_refused"] ends_scans ends_take_refused same .
qed

lemma lex_compact_cases:
  assumes "valid_source bs"
  shows "(\<exists>t. lex_compact symbol bs = Inr (builder_finish (token_builder t), diagnostics t) \<and>
      lexed_source bs symbol t) \<or> lex_compact symbol bs = Inl Panicked \<and> \<not> plain_hex bs"
  using lex_source_ends [OF assms, of symbol]
  by (auto simp: ends_def lex_compact_def split: prod.splits sum.splits)

lemma lex_compact_result:
  assumes "valid_source bs" and "lex_compact symbol bs = Inr (t, ds)"
  obtains b rows where "represents symbol b (rows @ [(Eof_k, length bs)])" "t = builder_finish b"
    "laid_out bs 0 rows (length bs)" "\<forall>i < length bs. byte_accounted bs rows (b_continuations b) ds i"
proof -
  obtain s where "t = builder_finish (token_builder s)" "ds = diagnostics s" "lexed_source bs symbol s"
    using lex_compact_cases [OF assms(1), of symbol] assms(2) by auto
  then show thesis using that by (auto simp: lexed_source_def)
qed

text \<open>Token \<open>k\<close> of a table covers offset \<open>i\<close>.\<close>

definition token_covers :: "token_table \<Rightarrow> source \<Rightarrow> nat \<Rightarrow> nat \<Rightarrow> bool" where
  "token_covers t bs k i \<longleftrightarrow>
     (case (start_at t k, end_at t bs k) of
        (Some start, Inr (Some j)) \<Rightarrow> start \<le> i \<and> i < j
      | _ \<Rightarrow> False)"

lemma table_end_at:
  assumes "represents symbol b rows" and "k < length rows"
  shows "end_at (builder_finish b) bs k =
    (case fst (token_end bs (snd (rows ! k)) (kind_tag (fst (rows ! k))) fresh_scans) of
       Inl e \<Rightarrow> Inl e | Inr j \<Rightarrow> Inr (Some j))"
  using table_queries [OF assms(1), of k] assms(2) by (simp add: end_at_def)

lemma valid_source_text:
  "text_ok s \<Longrightarrow> as_bytes s = bs \<Longrightarrow> int (length bs) + 1 < 2 ^ 32 \<Longrightarrow> valid_source bs"
  unfolding valid_source_def by blast

lemma letter_source: "valid_source [97]" "plain_hex [97]"
  by (rule valid_source_text [of "[97]"]) (simp_all add: encode_utf8_def is_scalar_def plain_hex_def peek_def)

text \<open>C24: Lexing ends. Whatever the source, no loop and no search for a closing brace runs on, and
  the depth the code admits for interpolations in one another is enough for every one of them; where
  no \<open>\x\<close> escape is cut by a character, there is no panic either, and the result is a table of
  tokens with the diagnostics.\<close>

theorem lexing_ends:
  assumes "valid_source bs"
  shows "lex_compact symbol bs \<noteq> Inl Exhausted \<and>
    (plain_hex bs \<longrightarrow> (\<exists>t ds. lex_compact symbol bs = Inr (t, ds)))"
  using lex_compact_cases [OF assms, of symbol] by auto

theorem lexing_ends_witness: "\<exists>t ds. lex_compact (\<lambda>_. 7) [97] = Inr (t, ds)"
  using lexing_ends [OF letter_source(1), of "\<lambda>_. 7"] letter_source(2) by simp



text \<open>C22: Lexing loses nothing. Every byte of the source lies in a token of the table, in a line
  continuation the table records, in the span of a diagnostic, or is a space or a tab.\<close>

theorem every_byte_accounted:
  assumes "valid_source bs" and "lex_compact symbol bs = Inr (t, ds)" and "i < length bs"
  shows "(\<exists>k < table_len t. token_covers t bs k i) \<or> in_continuation bs (line_continuations t) i \<or>
    bs ! i = 32 \<or> bs ! i = 9 \<or> reported ds i (i + 1)"
proof -
  obtain b rows where s: "represents symbol b (rows @ [(Eof_k, length bs)])"
    and acc: "byte_accounted bs rows (b_continuations b) ds i" and t: "t = builder_finish b"
    using lex_compact_result [OF assms(1,2)] assms(3) by metis
  have "\<exists>k < table_len t. token_covers t bs k i" if tok: "in_token bs rows i"
  proof -
    obtain k e where k: "k < length rows"
      "fst (token_end bs (snd (rows ! k)) (kind_tag (fst (rows ! k))) fresh_scans) = Inr e"
      "snd (rows ! k) \<le> i" "i < e"
      using tok by (fastforce simp: in_token_def in_set_conv_nth)
    have "k < table_len t" using s k(1) by (simp add: t table_len_def builder_finish_def represents_def)
    moreover have "token_covers t bs k i"
      using k table_queries [OF s, of k, folded t] table_end_at [OF s, of k bs, folded t]
      by (simp add: token_covers_def nth_append)
    ultimately show ?thesis by blast
  qed
  then show ?thesis using acc t by (auto simp: byte_accounted_def builder_finish_def)
qed

theorem every_byte_accounted_witness:
  "\<exists>t ds. lex_compact (\<lambda>_. 7) [97] = Inr (t, ds) \<and>
     ((\<exists>k < table_len t. token_covers t [97] k 0) \<or> in_continuation [97] (line_continuations t) 0 \<or>
      reported ds 0 1)"
proof -
  obtain t ds where "lex_compact (\<lambda>_. 7) [97] = Inr (t, ds)"
    using lex_compact_cases [OF letter_source(1), of "\<lambda>_. 7"] letter_source(2) by auto
  then show ?thesis using every_byte_accounted [OF letter_source(1), of "\<lambda>_. 7" t ds 0] by auto
qed

section \<open>A character inside an escape\<close>

declare quoted_loop.simps [simp del] decode_loop.simps [simp del]

text \<open>The source \<open>"\xa\<dots>"\<close> with a character of two bytes as its second digit.\<close>

definition cut_escape :: source where
  "cut_escape = [34, 92, 120, 97, 0xC3, 0xA9, 34]"

lemma cut_bytes [simp]:
  "length cut_escape = 7" "cut_escape ! 0 = 34" "cut_escape ! 1 = 92" "cut_escape ! Suc 0 = 92"
  "cut_escape ! 2 = 120"
  "cut_escape ! 3 = 97" "cut_escape ! 4 = 0xC3" "cut_escape ! 5 = 0xA9" "cut_escape ! 6 = 34"
  by (simp_all add: cut_escape_def)

abbreviation "cut_form \<equiv> \<lparr>form_prefix = [], form_kind = Str_lit, form_raw = False, form_token = String_t\<rparr>"
abbreviation "cut_literal i j \<equiv> \<lparr>q_kind = Str_lit, q_raw = False, delimiter_len = 1, content_start = 1,
  content_end = i, q_end = j\<rparr>"

lemma cut_form: "quoted_literal_at cut_escape 0 = Some cut_form"
  by (simp add: quoted_literal_at_def literal_forms_def starts_at_def peek_def bytes_of_def cut_escape_def)

lemma cut_step:
  assumes "i < 7" and "cut_escape ! i \<notin> {34, 36, 10, 13}"
  shows "quoted_loop iend iclose cut_escape True (cut_literal 1 1) (Suc n) i =
    quoted_loop iend iclose cut_escape True (cut_literal 1 1) n
      (if cut_escape ! i = 92 then escape_end cut_escape i else i + 1)"
  using assms by (simp add: quoted_loop.simps fmt_interpolates_def)

lemma cut_escape_end: "escape_end cut_escape (Suc 0) = 3"
  by (simp add: escape_end_def peek_def cut_escape_def)

lemma cut_loop:
  "quoted_loop iend iclose cut_escape True (cut_literal 1 1) (Suc (length cut_escape)) 1 =
      retS (Terminated (cut_literal 6 7))"
proof -
  let ?q = "quoted_loop iend iclose cut_escape True (cut_literal 1 1)"
  have "?q (Suc 7) 1 = ?q 7 3" using cut_step [of 1 iend iclose 7] by (simp add: cut_escape_end)
  also have "\<dots> = ?q 6 4" using cut_step [of 3 iend iclose 6] by simp
  also have "\<dots> = ?q 5 5" using cut_step [of 4 iend iclose 5] by simp
  also have "\<dots> = ?q 4 6" using cut_step [of 5 iend iclose 4] by simp
  also have "\<dots> = retS (Terminated (cut_literal 6 7))"
    using quoted_loop.simps(2) [of iend iclose cut_escape True "cut_literal 1 1" 3 6] by simp
  finally show ?thesis by simp
qed

lemma cut_scan:
  "scan_quoted_literal iend iclose cut_escape 0 True t = (Inr (Some (Terminated (cut_literal 6 7))), t)"
proof -
  have "get_range 0 3 cut_escape \<noteq> Some quotes3"
    by (simp add: get_range_def quotes3_def cut_escape_def)
  then show ?thesis
    using cut_loop [of iend iclose]
    by (simp add: scan_quoted_literal_def cut_form Let_def bindS_def retS_def)
qed

lemma cut_decode:
  assumes "at_byte s = 1"
  shows "decode_loop iclose cut_escape Str_lit False 6 (Suc n) False [] s = (Inl Panicked, s\<lparr>at_byte := 3\<rparr>)"
proof -
  have hex: "decode_hex cut_escape 1 (s\<lparr>at_byte := 3\<rparr>) = (Inl Panicked, s\<lparr>at_byte := 3\<rparr>)"
    by (simp add: decode_hex_def sliced_def slice_def boundary_def continuation_def bindS_def here_at_def failS_def)
  have esc: "decode_escape cut_escape False 1 (s\<lparr>at_byte := 2\<rparr>) = (Inl Panicked, s\<lparr>at_byte := 3\<rparr>)"
    using hex by (simp add: decode_escape_def bindS_def here_at_def advance_def updS_def peek_def)
  show ?thesis
    using assms esc
    by (subst decode_loop.simps(2)) (simp add: numeral_2_eq_2 [symmetric] bindS_def here_at_def advance_def updS_def peek_def)
qed

lemma cut_token:
  assumes "at_byte s = 0"
  shows "fst (lex_token iend iclose cut_escape s) = Inl Panicked"
proof -
  have "fst (lex_string iend iclose cut_escape Str_lit False 0 s) = Inl Panicked"
    using assms cut_scan [of iend iclose "thread_scans s"]
      cut_decode [of "s\<lparr>thread_scans := thread_scans s, at_byte := Suc 0\<rparr>" iclose 7]
    by (simp add: lex_string_def bindS_def here_at_def on_scans_def goto_byte_def updS_def)
  then have "fst (lex_quoted iend iclose cut_escape cut_form 0 s) = Inl Panicked"
    by (simp add: lex_quoted_def advance_def bindS_def updS_def)
  then show ?thesis
    using assms cut_form by (simp add: lex_token_def bindS_def here_at_def peek_def starts_at_def cut_escape_def)
qed

text \<open>C28: A panic: where the second byte after \<open>\x\<close> begins a character of two bytes, lexing a text
  that is valid UTF-8 slices it inside that character.\<close>

theorem cut_escape_panics:
  "valid_source cut_escape \<and> lex_compact symbol cut_escape = Inl Panicked"
proof -
  have valid: "valid_source cut_escape"
    by (rule valid_source_text [of "[34, 92, 120, 97, 0xE9, 34]"])
      (simp_all add: encode_utf8_def is_scalar_def cut_escape_def)
  let ?s = "lexer_new symbol fresh_scans"
  have at_0: "at_byte ?s = 0" by (simp add: lexer_new_def)
  have same: "on_scans take_refused ?s = (Inr False, ?s)"
    by (simp add: on_scans_def take_refused_def lexer_new_def fresh_scans_def)
  have "fst (next_token cut_escape ?s) = Inl Panicked"
    unfolding next_token_def by (rule cut_token) (simp add: lexer_new_def)
  then obtain t where "next_token cut_escape ?s = (Inl Panicked, t)"
    by (cases "next_token cut_escape ?s") auto
  then have "lex_loop cut_escape (Suc (length cut_escape)) ?s = (Inl Panicked, t)"
    by (subst lex_loop.simps(2)) (simp add: bindS_def here_at_def at_0)
  then have "lex_compact symbol cut_escape = Inl Panicked"
    by (simp add: lex_compact_def lex_source_def bindS_def same)
  then show ?thesis using valid by simp
qed

end
