(* ===== verification/Xsh_Chunks.thy ===== *)
theory Xsh_Chunks
  imports Xsh_Lexer
begin

text \<open>
  The division of a quoted literal into text and interpolations, the layout of block strings, and
  the escapes of the text (\<open>syntax/literal.rs\<close>). A chunk is a part of the source with its offset;
  the slices the code takes are taken here as well, so that one inside a character is a panic. The
  search for the end of an f-string interpolation is the parameter \<open>iend\<close> of the loop, and the
  lexer's in \<open>fmt_chunks\<close>.
\<close>

datatype chunk = Text_chunk "u8 list" nat | Expr_chunk "u8 list" nat

fun chunk_start :: "chunk \<Rightarrow> nat" where
  "chunk_start (Text_chunk t i) = i"
| "chunk_start (Expr_chunk t i) = i"

fun chunk_source :: "chunk \<Rightarrow> u8 list" where
  "chunk_source (Text_chunk t i) = t"
| "chunk_source (Expr_chunk t i) = t"

fun is_expr :: "chunk \<Rightarrow> bool" where
  "is_expr (Expr_chunk t i) = True"
| "is_expr (Text_chunk t i) = False"

type_synonym 'a scanning = "(scans, halt, 'a) op"

definition cut :: "source \<Rightarrow> nat \<Rightarrow> nat \<Rightarrow> u8 list scanning" where
  "cut bs i j = (case slice bs i j of None \<Rightarrow> failS Panicked | Some t \<Rightarrow> retS t)"

section \<open>Interpolations of command words\<close>

text \<open>An odd number of backslashes before an offset.\<close>

definition is_escaped :: "source \<Rightarrow> nat \<Rightarrow> bool" where
  "is_escaped bs i \<longleftrightarrow> odd (length (takeWhile (\<lambda>b. b = 92) (rev (take i bs))))"

text \<open>A name, and the fields after it. Each turn of the loop consumes a dot.\<close>

fun fields_end :: "nat \<Rightarrow> source \<Rightarrow> nat \<Rightarrow> nat" where
  "fields_end 0 bs i = i"
| "fields_end (Suc n) bs i =
     (if peek bs i = Some 46 \<and> (case peek bs (i + 1) of Some b \<Rightarrow> is_ident_start b | None \<Rightarrow> False)
      then fields_end n bs (scan_while is_ident_continue bs (i + 1)) else i)"

definition shorthand_end :: "source \<Rightarrow> nat \<Rightarrow> nat" where
  "shorthand_end bs i = fields_end (length bs) bs (scan_while is_ident_continue bs i)"

definition find_byte :: "(u8 \<Rightarrow> bool) \<Rightarrow> u8 list \<Rightarrow> nat option" where
  "find_byte P t =
     (let k = length (takeWhile (\<lambda>b. \<not> P b) t) in if k < length t then Some k else None)"

definition add_text :: "source \<Rightarrow> nat \<Rightarrow> nat \<Rightarrow> nat \<Rightarrow> chunk list \<Rightarrow> chunk list scanning" where
  "add_text bs base i j chunks =
     (if i < j then bindS (cut bs i j) (\<lambda>t. retS (chunks @ [Text_chunk t (base + i)]))
      else retS chunks)"

fun interpolation_loop ::
  "(nat \<Rightarrow> nat option scanning) \<Rightarrow> source \<Rightarrow> nat \<Rightarrow> nat \<Rightarrow> chunk list \<Rightarrow> nat \<Rightarrow> nat \<Rightarrow>
     chunk list option scanning"
where
  "interpolation_loop iclose bs base 0 chunks rest_start i = failS Exhausted"
| "interpolation_loop iclose bs base (Suc n) chunks rest_start i =
     (let finish = bindS (add_text bs base rest_start (length bs) chunks) (\<lambda>c. retS (Some c)) in
      if length bs \<le> i then finish
      else
        bindS (cut bs i (length bs)) (\<lambda>rest.
          case find_byte (\<lambda>b. b = 36) rest of
            None \<Rightarrow> finish
          | Some k \<Rightarrow>
              (let dollar = i + k in
               if is_escaped bs dollar
               then interpolation_loop iclose bs base n chunks rest_start (dollar + 1)
               else
                 (case peek bs (dollar + 1) of
                    None \<Rightarrow> finish
                  | Some b \<Rightarrow>
                      if b = 123
                      then bindS (iclose (dollar + 2)) (\<lambda>r.
                        case r of
                          None \<Rightarrow> retS None
                        | Some close \<Rightarrow>
                            bindS (add_text bs base rest_start dollar chunks) (\<lambda>c.
                            bindS (cut bs (dollar + 2) close) (\<lambda>t.
                              interpolation_loop iclose bs base n (c @ [Expr_chunk t (base + dollar + 2)])
                                (close + 1) (close + 1))))
                      else if is_ident_start b
                      then (let close = shorthand_end bs (dollar + 1) in
                            bindS (add_text bs base rest_start dollar chunks) (\<lambda>c.
                            bindS (cut bs (dollar + 1) close) (\<lambda>t.
                              interpolation_loop iclose bs base n (c @ [Expr_chunk t (base + dollar + 1)])
                                close close)))
                      else interpolation_loop iclose bs base n chunks rest_start (dollar + 1)))))"

definition interpolation_chunks :: "source \<Rightarrow> nat \<Rightarrow> chunk list option scanning" where
  "interpolation_chunks raw content_offset =
     interpolation_loop (interpolation_close nesting_fuel raw) raw content_offset (Suc (length raw)) [] 0 0"

section \<open>Interpolations of f-strings\<close>

datatype fmt_issue_kind =
    Lone_Close_Brace | Brace_Unclosed | Comment_Inside | Line_Break_Inside | Empty_Braces | Dollar_Brace

record fmt_issue =
  issue_kind :: fmt_issue_kind
  issue_start :: nat
  issue_end :: nat

definition fmt_issue_at :: "fmt_issue_kind \<Rightarrow> nat \<Rightarrow> nat \<Rightarrow> fmt_issue" where
  "fmt_issue_at k i j = \<lparr>issue_kind = k, issue_start = i, issue_end = j\<rparr>"

definition is_line_break :: "u8 \<Rightarrow> bool" where
  "is_line_break b \<longleftrightarrow> b = 10 \<or> b = 13"

text \<open>\<open>text.trim().is_empty()\<close>.\<close>

definition blank_text :: "u8 list \<Rightarrow> bool" where
  "blank_text t = (case decode_utf8 t of Some s \<Rightarrow> list_all is_whitespace s | None \<Rightarrow> False)"

definition line_break_issue :: "quoted_literal \<Rightarrow> nat \<Rightarrow> u8 list \<Rightarrow> fmt_issue list" where
  "line_break_issue lit opening t =
     (case if delimiter_len lit = 1 then find_byte is_line_break t else None of
        Some at_break \<Rightarrow> [fmt_issue_at Line_Break_Inside (opening + 1 + at_break) (opening + 2 + at_break)]
      | None \<Rightarrow> [])"

fun fmt_loop ::
  "(nat \<Rightarrow> interpolation_end_at scanning) \<Rightarrow> source \<Rightarrow> quoted_literal \<Rightarrow> nat \<Rightarrow> chunk list \<Rightarrow>
     fmt_issue list \<Rightarrow> nat \<Rightarrow> nat \<Rightarrow> (chunk list \<times> fmt_issue list) scanning"
where
  "fmt_loop iend bs lit 0 chunks issues text_start i = failS Exhausted"
| "fmt_loop iend bs lit (Suc n) chunks issues text_start i =
     (let stop_at = content_end lit;
          finish = (\<lambda>issues. bindS (add_text bs 0 text_start stop_at chunks) (\<lambda>c. retS (c, issues)))
      in if stop_at \<le> i then finish issues
      else
        (case peek bs i of
           None \<Rightarrow> failS Panicked
         | Some b \<Rightarrow>
             if b = 92 then fmt_loop iend bs lit n chunks issues text_start (min (escape_end bs i) stop_at)
             else if (b = 123 \<or> b = 125) \<and> i + 1 < stop_at \<and> peek bs (i + 1) = Some b
             then bindS (add_text bs 0 text_start (i + 1) chunks) (\<lambda>c.
                    fmt_loop iend bs lit n c issues (i + 2) (i + 2))
             else if b = 125
             then fmt_loop iend bs lit n chunks (issues @ [fmt_issue_at Lone_Close_Brace i (i + 1)]) text_start (i + 1)
             else if b = 36 \<and> peek bs (i + 1) = Some 123 \<and> peek bs (i + 2) \<noteq> Some 123
             then bindS (add_text bs 0 text_start i chunks) (\<lambda>c.
                    fmt_loop iend bs lit n c (issues @ [fmt_issue_at Dollar_Brace i (i + 2)]) (i + 1) (i + 1))
             else if b = 123
             then bindS (iend (i + 1)) (\<lambda>r.
                    case r of
                      Close close \<Rightarrow>
                        if close < stop_at
                        then bindS (add_text bs 0 text_start i chunks) (\<lambda>c.
                             bindS (cut bs (i + 1) close) (\<lambda>t.
                               if blank_text t
                               then fmt_loop iend bs lit n c (issues @ [fmt_issue_at Empty_Braces i (close + 1)])
                                      (close + 1) (close + 1)
                               else fmt_loop iend bs lit n (c @ [Expr_chunk t (i + 1)])
                                      (issues @ line_break_issue lit i t) (close + 1) (close + 1)))
                        else finish (issues @ [fmt_issue_at Brace_Unclosed i (i + 1)])
                    | Comment_at at_hash \<Rightarrow>
                        if at_hash < stop_at
                        then bindS (cut bs at_hash stop_at) (\<lambda>t.
                          finish (issues @ [fmt_issue_at Comment_Inside at_hash
                            (case find_byte is_line_break t of None \<Rightarrow> stop_at | Some k \<Rightarrow> at_hash + k)]))
                        else finish (issues @ [fmt_issue_at Brace_Unclosed i (i + 1)])
                    | Unclosed \<Rightarrow> finish (issues @ [fmt_issue_at Brace_Unclosed i (i + 1)]))
             else fmt_loop iend bs lit n chunks issues text_start (i + 1)))"

definition fmt_chunks_by ::
  "(nat \<Rightarrow> interpolation_end_at scanning) \<Rightarrow> source \<Rightarrow> quoted_literal \<Rightarrow> (chunk list \<times> fmt_issue list) scanning"
where
  "fmt_chunks_by iend bs lit =
     fmt_loop iend bs lit (Suc (length bs)) [] [] (content_start lit) (content_start lit)"

definition fmt_chunks :: "source \<Rightarrow> quoted_literal \<Rightarrow> (chunk list \<times> fmt_issue list) scanning" where
  "fmt_chunks bs = fmt_chunks_by (interpolation_end nesting_fuel bs) bs"

text \<open>The names of a plain literal that would be interpolations with the prefix \<open>f\<close>.\<close>

definition is_dotted :: "u8 list \<Rightarrow> bool" where
  "is_dotted t = list_all (\<lambda>part. (case part of b # _ \<Rightarrow> is_ident_start b | [] \<Rightarrow> False) \<and>
     list_all is_ident_continue part) (split_on 46 t)"

definition dotted_name :: "chunk \<Rightarrow> u8 list \<times> nat \<times> nat" where
  "dotted_name c =
     (hd (split_on 46 (chunk_source c)), chunk_start c, chunk_start c + length (chunk_source c))"

definition dotted_names_if_formatted :: "source \<Rightarrow> (u8 list \<times> nat \<times> nat) list option scanning" where
  "dotted_names_if_formatted bs =
     bindS (scan_literal bs 0 False) (\<lambda>r.
       case r of
         Some (Terminated lit) \<Rightarrow>
           if q_raw lit \<or> q_end lit \<noteq> length bs \<or> q_kind lit \<notin> {Str_lit, Path_lit} then retS None
           else
             bindS (fmt_chunks bs lit) (\<lambda>(chunks, issues).
               (let exprs = filter is_expr chunks in
                retS (if issues \<noteq> [] \<or> \<not> list_all (\<lambda>c. is_dotted (chunk_source c)) exprs \<or> exprs = [] then None
                      else Some (map dotted_name exprs))))
       | _ \<Rightarrow> retS None)"

text \<open>The unescaped \<open>$name\<close> of a text, with the offset it has in the source.\<close>

fun dollar_names :: "nat \<Rightarrow> nat \<Rightarrow> u8 list \<Rightarrow> nat \<Rightarrow> (nat \<times> nat) list" where
  "dollar_names 0 base t i = []"
| "dollar_names (Suc n) base t i =
     (case peek t i of
        None \<Rightarrow> []
      | Some b \<Rightarrow>
          if b = 92 then dollar_names n base t (i + 2)
          else if b = 36 \<and> (case peek t (i + 1) of Some x \<Rightarrow> is_ident_start x | None \<Rightarrow> False)
          then (let j = scan_while is_ident_continue t (i + 2)
                in (base + i, base + j) # dollar_names n base t j)
          else dollar_names n base t (i + 1))"

definition fmt_text_dollar_names :: "source \<Rightarrow> quoted_literal \<Rightarrow> (nat \<times> nat) list scanning" where
  "fmt_text_dollar_names bs lit =
     bindS (fmt_chunks bs lit) (\<lambda>(chunks, issues).
       retS (concat (map (\<lambda>c. dollar_names (length (chunk_source c)) (chunk_start c) (chunk_source c) 0)
         (filter (\<lambda>c. \<not> is_expr c) chunks))))"

section \<open>Names and bare paths\<close>

definition is_env_string_name :: "u8 list \<Rightarrow> bool" where
  "is_env_string_name nm =
     (case nm of b # rest \<Rightarrow> is_ident_start b \<and> list_all is_ident_continue rest | [] \<Rightarrow> False)"

definition is_bare_path_literal_char :: "nat \<Rightarrow> bool" where
  "is_bare_path_literal_char c \<longleftrightarrow> \<not> is_whitespace c \<and>
     c \<notin> {34, 39, 92, 40, 41, 123, 125, 91, 93, 59, 44, 63, 36, 124, 38, 60, 62, 35}"

definition scan_bare_path_at :: "source \<Rightarrow> nat \<Rightarrow> nat option" where
  "scan_bare_path_at bs start =
     (if \<not> (start \<le> length bs \<and> boundary bs start) then None
      else
        (let rest = drop start bs in
         if \<not> (take 1 rest = [47] \<or> take 2 rest = [46, 47] \<or> take 3 rest = [46, 46, 47]) then None
         else
           (case decode_utf8 rest of
              None \<Rightarrow> None
            | Some s \<Rightarrow>
                (let n = tlen (takeWhile is_bare_path_literal_char s)
                 in if 0 < n then Some (start + n) else None))))"

section \<open>Block strings\<close>

definition cutE :: "source \<Rightarrow> nat \<Rightarrow> nat \<Rightarrow> halt + u8 list" where
  "cutE bs i j = ok_or (slice bs i j) Panicked"

definition line_break_len :: "source \<Rightarrow> nat \<Rightarrow> nat" where
  "line_break_len bs i =
     (if peek bs i = Some 13 \<and> peek bs (i + 1) = Some 10 then 2
      else if peek bs i \<in> {Some 13, Some 10} then 1 else 0)"

definition is_blank :: "u8 \<Rightarrow> bool" where
  "is_blank b \<longleftrightarrow> b = 32 \<or> b = 9"

text \<open>Where the lines of a block begin and end, and the margin of its closing line; \<open>None\<close> for a
  literal that is not a block.\<close>

definition block_lines :: "source \<Rightarrow> quoted_literal \<Rightarrow> halt + (nat \<times> nat \<times> u8 list) option" where
  "block_lines bs lit =
     (let opening = line_break_len bs (content_start lit) in
      if delimiter_len lit \<noteq> 3 \<or> q_kind lit \<notin> {Str_lit, Fmt_lit} \<or> opening = 0 then Inr None
      else
        bindE (cutE bs 0 (content_end lit)) (\<lambda>head.
        bindE (cutE bs (q_end lit) (length bs)) (\<lambda>tail.
          (let margin = rev (takeWhile (\<lambda>b. \<not> is_line_break b) (rev head));
               closing_line = length head - length margin;
               first = content_start lit + opening;
               closing_break =
                 (if 1 < closing_line \<and> take 2 (drop (closing_line - 2) bs) = [13, 10]
                  then closing_line - 2 else closing_line - 1)
           in if list_all is_blank margin \<and>
                 list_all is_blank (takeWhile (\<lambda>b. \<not> is_line_break b) tail)
              then Inr (Some (first, max closing_break first, margin))
              else Inr None))))"

text \<open>The bytes of an interpolation with its braces.\<close>

definition expression_range :: "source \<Rightarrow> quoted_literal \<Rightarrow> chunk \<Rightarrow> halt + (nat \<times> nat)" where
  "expression_range bs lit c =
     (let i = chunk_start c; j = i + length (chunk_source c) in
      if q_kind lit = Fmt_lit then (if i < 1 then Inl Panicked else Inr (i - 1, j + 1))
      else
        bindE (cutE bs 0 i) (\<lambda>before_it.
          if take 2 (rev before_it) = [123, 36] then Inr (i - 2, j + 1)
          else if i < 1 then Inl Panicked else Inr (i - 1, j)))"

fun expression_ranges :: "source \<Rightarrow> quoted_literal \<Rightarrow> chunk list \<Rightarrow> halt + (nat \<times> nat) list" where
  "expression_ranges bs lit [] = Inr []"
| "expression_ranges bs lit (c # cs) =
     (if is_expr c
      then bindE (expression_range bs lit c) (\<lambda>r. bindE (expression_ranges bs lit cs) (\<lambda>rs. Inr (r # rs)))
      else expression_ranges bs lit cs)"

fun common_length :: "u8 list \<Rightarrow> u8 list \<Rightarrow> nat" where
  "common_length (a # as) (b # bs) = (if a = b then Suc (common_length as bs) else 0)"
| "common_length as bs = 0"

type_synonym layout = "(nat \<times> nat) list \<times> (nat \<times> nat) list"

text \<open>What is removed at the start of a line, or the issue there.\<close>

definition line_margin ::
  "source \<Rightarrow> nat \<Rightarrow> u8 list \<Rightarrow> nat \<Rightarrow> layout \<Rightarrow> halt + (nat \<times> layout)" where
  "line_margin bs stop_at margin i l =
     bindE (cutE bs i stop_at) (\<lambda>rest.
       (let width = length (takeWhile (\<lambda>b. \<not> is_line_break b) rest) in
        bindE (cutE bs i (i + width)) (\<lambda>line.
          (let matching = common_length margin line in
           if \<not> blank_text line \<and> matching \<noteq> length margin
           then Inr (i, fst l, snd l @ [(i, min (i + max (length margin) 1) (i + width))])
           else if 0 < matching then Inr (i + matching, fst l @ [(i, i + matching)], snd l)
           else Inr (i, l)))))"

fun layout_loop ::
  "source \<Rightarrow> nat \<Rightarrow> u8 list \<Rightarrow> nat \<Rightarrow> (nat \<times> nat) list \<Rightarrow> nat \<Rightarrow> bool \<Rightarrow> layout \<Rightarrow> halt + layout"
where
  "layout_loop bs stop_at margin 0 exprs i line_start l = Inl Exhausted"
| "layout_loop bs stop_at margin (Suc n) exprs i line_start l =
     (if stop_at \<le> i then Inr l
      else
        (let exprs = dropWhile (\<lambda>(a, b). b \<le> i) exprs in
         bindE (if line_start then line_margin bs stop_at margin i l else Inr (i, l)) (\<lambda>(i, l).
           if line_start \<and> stop_at \<le> i then Inr l
           else
             (case exprs of
                (a, b) # rest \<Rightarrow>
                  if a = i then layout_loop bs stop_at margin n rest b False l
                  else if 0 < line_break_len bs i
                  then layout_loop bs stop_at margin n exprs (i + line_break_len bs i) True l
                  else layout_loop bs stop_at margin n exprs (i + 1) False l
              | [] \<Rightarrow>
                  if 0 < line_break_len bs i
                  then layout_loop bs stop_at margin n exprs (i + line_break_len bs i) True l
                  else layout_loop bs stop_at margin n exprs (i + 1) False l))))"

text \<open>A text without the ranges that are removed.\<close>

fun without_ranges :: "source \<Rightarrow> nat \<Rightarrow> (nat \<times> nat) list \<Rightarrow> nat \<Rightarrow> halt + chunk list" where
  "without_ranges bs limit [] i =
     (if i < limit then bindE (cutE bs i limit) (\<lambda>t. Inr [Text_chunk t i]) else Inr [])"
| "without_ranges bs limit ((a, b) # rs) i =
     (if limit \<le> a \<or> b \<le> i then without_ranges bs limit rs i
      else
        bindE (if i < a then bindE (cutE bs i a) (\<lambda>t. Inr [Text_chunk t i]) else Inr []) (\<lambda>c.
        bindE (without_ranges bs limit rs (max i b)) (\<lambda>cs. Inr (c @ cs))))"

fun laid_chunks :: "source \<Rightarrow> nat \<Rightarrow> nat \<Rightarrow> (nat \<times> nat) list \<Rightarrow> chunk list \<Rightarrow> halt + chunk list" where
  "laid_chunks bs first stop_at removed [] = Inr []"
| "laid_chunks bs first stop_at removed (c # cs) =
     bindE (if is_expr c then Inr [c]
            else without_ranges bs (min (chunk_start c + length (chunk_source c)) stop_at) removed
                   (max (chunk_start c) first)) (\<lambda>a.
     bindE (laid_chunks bs first stop_at removed cs) (\<lambda>b. Inr (a @ b)))"

definition block_string_chunks ::
  "source \<Rightarrow> quoted_literal \<Rightarrow> chunk list \<Rightarrow> halt + chunk list \<times> (nat \<times> nat) list" where
  "block_string_chunks bs lit chunks =
     bindE (block_lines bs lit) (\<lambda>block.
       case block of
         None \<Rightarrow> Inr (chunks, [])
       | Some (first, stop_at, margin) \<Rightarrow>
           bindE (expression_ranges bs lit chunks) (\<lambda>exprs.
           bindE (layout_loop bs stop_at margin (Suc (length bs)) exprs first True ([], [])) (\<lambda>(removed, issues).
           bindE (laid_chunks bs first stop_at removed chunks) (\<lambda>cs. Inr (cs, issues)))))"

section \<open>Escapes of the text\<close>

datatype escape_issue_kind = Invalid_escape | Bytes_unicode

record escape_issue =
  escape_kind :: escape_issue_kind
  escape_start :: nat
  escape_stop :: nat

definition escape_issue_at :: "escape_issue_kind \<Rightarrow> nat \<Rightarrow> nat \<Rightarrow> escape_issue" where
  "escape_issue_at k i j = \<lparr>escape_kind = k, escape_start = i, escape_stop = j\<rparr>"

text \<open>The characters a backslash and one character stand for.\<close>

definition simple_escape :: "u8 \<Rightarrow> u8 option" where
  "simple_escape b = map_of [(92, 92), (34, 34), (36, 36), (110, 10), (114, 13), (116, 9), (48, 0)] b"

text \<open>After \<open>\x\<close>, at \<open>j\<close>: the bytes, the issue, and where the text goes on.\<close>

definition text_hex ::
  "source \<Rightarrow> nat \<Rightarrow> nat \<Rightarrow> nat \<Rightarrow> halt + u8 list \<times> escape_issue list \<times> nat" where
  "text_hex bs base i j =
     (let hex_end = min (j + 2) (length bs);
          refuse = Inr ([], [escape_issue_at Invalid_escape (base + i) (base + max hex_end j)], hex_end)
      in if j + 2 \<le> length bs
         then bindE (cutE bs j (j + 2)) (\<lambda>hex.
                case if list_all is_hexdigit hex then u8_from_hex hex else None of
                  Some v \<Rightarrow> Inr ([v], [], j + 2)
                | None \<Rightarrow> refuse)
         else refuse)"

definition text_unicode ::
  "source \<Rightarrow> nat \<Rightarrow> nat \<Rightarrow> nat \<Rightarrow> halt + u8 list \<times> escape_issue list \<times> nat" where
  "text_unicode bs base i j =
     (let digits_end = scan_while (\<lambda>b. b \<noteq> 125) bs (j + 1);
          terminated = (peek bs digits_end = Some 125);
          stop_at = (if terminated then digits_end + 1 else digits_end)
      in bindE (cutE bs (j + 1) digits_end) (\<lambda>digits.
           case if digits \<noteq> [] \<and> terminated \<and> list_all is_hexdigit digits
                then Option.bind (u32_from_hex digits) char_from_u32 else None of
             Some c \<Rightarrow> Inr (encode_utf8 c, [], stop_at)
           | None \<Rightarrow> Inr ([], [escape_issue_at Invalid_escape (base + i) (base + stop_at)], stop_at)))"

text \<open>The escape whose backslash is at \<open>i\<close>.\<close>

definition text_escape ::
  "bool \<Rightarrow> source \<Rightarrow> nat \<Rightarrow> nat \<Rightarrow> halt + u8 list \<times> escape_issue list \<times> nat" where
  "text_escape allow_unicode bs base i =
     (case peek bs (i + 1) of
        None \<Rightarrow> Inr ([92], [escape_issue_at Invalid_escape (base + i) (base + length bs)], length bs)
      | Some b \<Rightarrow>
          (let j = i + 1 + lead_width b in
           case simple_escape b of
             Some v \<Rightarrow> Inr ([v], [], j)
           | None \<Rightarrow>
               if b = 120 then text_hex bs base i j
               else if b = 117 \<and> allow_unicode \<and> peek bs j = Some 123 then text_unicode bs base i j
               else if b = 117 \<and> allow_unicode
               then Inr ([], [escape_issue_at Invalid_escape (base + i) (base + j)], j)
               else if b = 117 then Inr ([], [escape_issue_at Bytes_unicode (base + i) (base + j)], j)
               else Inr (take (lead_width b) (drop (i + 1) bs),
                      [escape_issue_at Invalid_escape (base + i) (base + j)], j)))"

fun text_loop ::
  "bool \<Rightarrow> source \<Rightarrow> nat \<Rightarrow> nat \<Rightarrow> nat \<Rightarrow> halt + u8 list \<times> escape_issue list" where
  "text_loop allow_unicode bs base 0 i = Inl Exhausted"
| "text_loop allow_unicode bs base (Suc n) i =
     (if length bs \<le> i then Inr ([], [])
      else
        bindE (cutE bs i (length bs)) (\<lambda>rest.
        bindE (if bs ! i = 92 then text_escape allow_unicode bs base i
               else Inr (take (lead_width (bs ! i)) rest, [], i + lead_width (bs ! i))) (\<lambda>(t, issues, j).
        bindE (text_loop allow_unicode bs base n j) (\<lambda>(t', issues').
          Inr (t @ t', issues @ issues')))))"

definition decode_string_text :: "source \<Rightarrow> nat \<Rightarrow> bool \<Rightarrow> halt + u8 list \<times> escape_issue list" where
  "decode_string_text raw base_offset allow_unicode =
     text_loop allow_unicode raw base_offset (Suc (length raw)) 0"

end
