(* ===== verification/Xsh_Chunks_Correct.thy ===== *)
theory Xsh_Chunks_Correct
  imports Xsh_Chunks Xsh_Lexer_Correct
begin

text \<open>
  The regions of an f-string divide its content: a chunk is the part of the source it says, the chunks
  are in order and apart, and every byte outside them is a brace or has an issue. The invariant
  \<open>divided_to\<close> of the loop says so up to the byte the text begins at. The second part relates the two
  decoders of escapes, that of the lexer and that of the compiler.
\<close>

section \<open>Chunks in a row\<close>

definition chunk_end :: "chunk \<Rightarrow> nat" where
  "chunk_end c = chunk_start c + length (chunk_source c)"

text \<open>The chunks between two offsets: parts of the source, in order and apart, none of them an empty
  text, the interpolations between braces.\<close>

fun tiles :: "source \<Rightarrow> nat \<Rightarrow> chunk list \<Rightarrow> nat \<Rightarrow> bool" where
  "tiles bs i [] j \<longleftrightarrow> i \<le> j"
| "tiles bs i (c # cs) j \<longleftrightarrow>
     slice bs (chunk_start c) (chunk_end c) = Some (chunk_source c) \<and>
     (if is_expr c
      then i < chunk_start c \<and> peek bs (chunk_start c - 1) = Some 123 \<and> peek bs (chunk_end c) = Some 125 \<and>
        \<not> blank_text (chunk_source c) \<and> tiles bs (chunk_end c + 1) cs j
      else i \<le> chunk_start c \<and> chunk_source c \<noteq> [] \<and> tiles bs (chunk_end c) cs j)"

text \<open>What became of a byte of the content.\<close>

definition in_chunk :: "chunk list \<Rightarrow> nat \<Rightarrow> bool" where
  "in_chunk cs k \<longleftrightarrow> (\<exists>c \<in> set cs. chunk_start c \<le> k \<and> k < chunk_end c)"

definition in_issue :: "fmt_issue list \<Rightarrow> nat \<Rightarrow> bool" where
  "in_issue issues k \<longleftrightarrow> (\<exists>x \<in> set issues. issue_start x \<le> k \<and> k < issue_end x)"

definition divided :: "source \<Rightarrow> chunk list \<Rightarrow> fmt_issue list \<Rightarrow> nat \<Rightarrow> bool" where
  "divided bs cs issues k \<longleftrightarrow>
     in_chunk cs k \<or> in_issue issues k \<or> peek bs k = Some 123 \<or> peek bs k = Some 125"

text \<open>Everything up to an offset is divided.\<close>

definition divided_to :: "source \<Rightarrow> nat \<Rightarrow> chunk list \<Rightarrow> fmt_issue list \<Rightarrow> nat \<Rightarrow> bool" where
  "divided_to bs i cs issues j \<longleftrightarrow>
     tiles bs i cs j \<and> boundary bs j \<and> (\<forall>k. i \<le> k \<and> k < j \<longrightarrow> divided bs cs issues k)"

lemma tiles_mono: "tiles bs i cs j \<Longrightarrow> j \<le> k \<Longrightarrow> tiles bs i cs k"
  by (induction bs i cs j rule: tiles.induct) (auto split: if_splits)

lemma tiles_le: "tiles bs i cs j \<Longrightarrow> i \<le> j"
proof (induction bs i cs j rule: tiles.induct)
  case (2 bs i c cs j)
  then show ?case by (cases "is_expr c") (auto simp: chunk_end_def)
qed simp

lemma tiles_text:
  "tiles bs i cs j \<Longrightarrow> j < k \<Longrightarrow> slice bs j k = Some t \<Longrightarrow> length t = k - j \<Longrightarrow>
     tiles bs i (cs @ [Text_chunk t j]) k"
  by (induction bs i cs j rule: tiles.induct) (auto simp: chunk_end_def split: if_splits)

lemma tiles_expr:
  "tiles bs i cs j \<Longrightarrow> peek bs j = Some 123 \<Longrightarrow> peek bs k = Some 125 \<Longrightarrow> slice bs (j + 1) k = Some t \<Longrightarrow>
     length t = k - (j + 1) \<Longrightarrow> j < k \<Longrightarrow> \<not> blank_text t \<Longrightarrow> tiles bs i (cs @ [Expr_chunk t (j + 1)]) (k + 1)"
  by (induction bs i cs j rule: tiles.induct) (auto simp: chunk_end_def split: if_splits)

lemma divided_mono:
  "divided bs cs issues k \<Longrightarrow> set cs \<subseteq> set cs' \<Longrightarrow> set issues \<subseteq> set issues' \<Longrightarrow> divided bs cs' issues' k"
  unfolding divided_def in_chunk_def in_issue_def by blast

lemma slice_length: "slice bs i j = Some t \<Longrightarrow> length t = j - i \<and> i \<le> j"
  by (auto simp: slice_def get_range_def split: if_splits)

text \<open>The steps of the loop.\<close>

lemma divided_to_text:
  assumes "divided_to bs i cs issues j" and "j < k" and "slice bs j k = Some t"
  shows "divided_to bs i (cs @ [Text_chunk t j]) issues k"
proof -
  have len: "length t = k - j" using slice_length [OF assms(3)] by simp
  have "divided bs (cs @ [Text_chunk t j]) issues m" if "i \<le> m" "m < k" for m
  proof (cases "m < j")
    case True
    then show ?thesis
      using assms(1) that(1) by (auto simp: divided_to_def intro: divided_mono)
  next
    case False
    then show ?thesis using that(2) len by (simp add: divided_def in_chunk_def chunk_end_def)
  qed
  moreover have "boundary bs k" using assms(3) by (auto simp: slice_def split: if_splits)
  ultimately show ?thesis
    using assms len by (auto simp: divided_to_def intro: tiles_text)
qed

lemma divided_to_skip:
  assumes "divided_to bs i cs issues j" and "j \<le> k" and "boundary bs k" and "set issues \<subseteq> set issues'"
    and "\<And>m. j \<le> m \<Longrightarrow> m < k \<Longrightarrow> in_issue issues' m \<or> peek bs m = Some 123 \<or> peek bs m = Some 125"
  shows "divided_to bs i cs issues' k"
proof -
  have "divided bs cs issues' m" if "i \<le> m" "m < k" for m
  proof (cases "m < j")
    case True
    then show ?thesis using assms(1,4) that(1) by (auto simp: divided_to_def intro: divided_mono)
  qed (use assms(5) that(2) in \<open>auto simp: divided_def\<close>)
  then show ?thesis using assms by (auto simp: divided_to_def intro: tiles_mono)
qed

lemma divided_to_expr:
  assumes "divided_to bs i cs issues j" and "peek bs j = Some 123" and "peek bs k = Some 125" and "j < k"
    and "slice bs (j + 1) k = Some t" and "\<not> blank_text t" and "boundary bs (k + 1)" and "set issues \<subseteq> set issues'"
  shows "divided_to bs i (cs @ [Expr_chunk t (j + 1)]) issues' (k + 1)"
proof -
  have len: "length t = k - (j + 1)" using slice_length [OF assms(5)] by simp
  have "divided bs (cs @ [Expr_chunk t (j + 1)]) issues' m" if m: "i \<le> m" "m < k + 1" for m
  proof (cases "m < j")
    case True
    then show ?thesis using assms(1,8) m(1) by (auto simp: divided_to_def intro: divided_mono)
  next
    case False
    then consider "m = j" | "m = k" | "j < m" "m < k" using m(2) by linarith
    then show ?thesis
      by cases (use assms(2,3) len in \<open>auto simp: divided_def in_chunk_def chunk_end_def\<close>)
  qed
  then show ?thesis
    using assms len tiles_expr [of bs i cs j k t] by (auto simp: divided_to_def)
qed

lemma ends_cut [wp]:
  "ends p (cut bs i j) Q = (\<lambda>s. (case slice bs i j of None \<Rightarrow> p | Some t \<Rightarrow> Q t s))"
  by (simp add: fun_eq_iff cut_def wp split: option.split)

lemma add_text_ends:
  assumes "divided_to bs a cs issues j" and "j \<le> k" and "boundary bs k"
    and "\<And>c. divided_to bs a c issues k \<Longrightarrow> Q c s"
  shows "ends p (add_text bs 0 j k cs) Q s"
proof (cases "j < k")
  case True
  moreover obtain t where t: "slice bs j k = Some t"
    using slice_Some [OF assms(2) _ assms(3)] assms(1) by (auto simp: divided_to_def)
  ultimately show ?thesis
    using assms(4) [OF divided_to_text [OF assms(1) True t]] by (simp add: add_text_def wp)
next
  case False
  then show ?thesis using assms by (simp add: add_text_def wp)
qed

lemma divided_to_issue:
  "divided_to bs a cs issues j \<Longrightarrow> set issues \<subseteq> set issues' \<Longrightarrow> divided_to bs a cs issues' j"
  by (rule divided_to_skip) (auto simp: divided_to_def)

context scanners
begin

lemma fmt_loop_ends:
  assumes valid: "valid_source bs" and stop: "boundary bs (content_end lit)"
  shows "scans_ok t \<Longrightarrow> room t < n \<Longrightarrow> divided_to bs a cs issues j \<Longrightarrow> j \<le> i \<Longrightarrow> i \<le> content_end lit \<Longrightarrow>
    content_end lit - i < fuel \<Longrightarrow>
    ends_in bs (fmt_loop iend bs lit fuel cs issues j i)
      (\<lambda>r t'. scans_after t t' \<and> divided_to bs a (fst r) (snd r) (content_end lit)) t"
proof (induction fuel arbitrary: t cs issues j i)
  case (Suc fuel)
  let ?stop = "content_end lit"
  let ?Q = "\<lambda>r t'. scans_after t t' \<and> divided_to bs a (fst r) (snd r) ?stop"
  have le: "?stop \<le> length bs" by (rule boundary_le [OF stop])
  have again: "ends_in bs (fmt_loop iend bs lit fuel cs' issues' j' i') ?Q u"
    if "scans_after t u" "divided_to bs a cs' issues' j'" "j' \<le> i'" "i < i'" "i' \<le> ?stop" for u cs' issues' j' i'
    by (rule ends_mono [OF Suc.IH])
      (use that Suc.prems in \<open>auto simp: scans_after_ok scans_after_room intro: scans_after_trans\<close>)
  have finish: "ends_in bs (bindS (add_text bs 0 j ?stop cs) (\<lambda>c. retS (c, issues'))) ?Q u"
    if "scans_after t u" "set issues \<subseteq> set issues'" for u issues'
    unfolding ends_bind
    by (rule add_text_ends [OF divided_to_issue [OF Suc.prems(3) that(2)] _ stop])
      (use that Suc.prems(4,5) in \<open>auto simp: ends_ret\<close>)
  show ?case
  proof (cases "?stop \<le> i")
    case True
    then show ?thesis using finish [of t issues] by simp
  next
    case False
    then have i: "i < length bs" using le by simp
    define b where "b = bs ! i"
    have pk: "peek bs i = Some b" using i by (simp add: peek_Some b_def)
    have bd: "boundary bs i" "boundary bs (i + 1)" if "b < 0x80"
      using boundary_ascii [OF i] after_ascii [OF valid i] that by (simp_all add: b_def)
    consider (escape) "b = 92"
      | (double) "b = 123 \<or> b = 125" "i + 1 < ?stop" "peek bs (i + 1) = Some b"
      | (lone) "b = 125" "\<not> (i + 1 < ?stop \<and> peek bs (i + 1) = Some b)"
      | (dollar) "b = 36" "peek bs (i + 1) = Some 123" "peek bs (i + 2) \<noteq> Some 123"
      | (brace) "b = 123" "\<not> (i + 1 < ?stop \<and> peek bs (i + 1) = Some b)"
      | (plain) "b \<noteq> 92" "b \<noteq> 123" "b \<noteq> 125" "\<not> (b = 36 \<and> peek bs (i + 1) = Some 123 \<and> peek bs (i + 2) \<noteq> Some 123)"
      by auto
    then show ?thesis
    proof cases
      case escape
      then show ?thesis
        using False pk escape_end_bounds(1) [OF i] Suc.prems(3,4)
        by (auto simp: intro!: again)
    next
      case double
      have d: "divided_to bs a c issues (i + 2)" if "divided_to bs a c issues (i + 1)" for c
      proof (rule divided_to_skip [OF that])
        have "b < 0x80" using double(1) by auto
        then show "boundary bs (i + 2)" using after_peek [OF valid double(3)] by simp
        show "in_issue issues m \<or> peek bs m = Some 123 \<or> peek bs m = Some 125" if "i + 1 \<le> m" "m < i + 2" for m
        proof -
          have "m = i + 1" using that by simp
          then show ?thesis using double(1,3) by auto
        qed
      qed simp_all
      have "ends_in bs (add_text bs 0 j (i + 1) cs)
          (\<lambda>c. ends_in bs (fmt_loop iend bs lit fuel c issues (i + 2) (i + 2)) ?Q) t"
        by (rule add_text_ends [OF Suc.prems(3)]) (use Suc.prems(4) bd(2) double d in \<open>auto intro!: again\<close>)
      then show ?thesis using False pk double by (auto simp: ends_bind)
    next
      case lone
      then show ?thesis
        using False pk Suc.prems(3,4) by (auto intro!: again divided_to_issue [OF Suc.prems(3)])
    next
      case dollar
      have "divided_to bs a c (issues @ [fmt_issue_at Dollar_Brace i (i + 2)]) (i + 1)"
        if "divided_to bs a c issues i" for c
        by (rule divided_to_skip [OF that]) (use bd(2) dollar in \<open>auto simp: in_issue_def fmt_issue_at_def\<close>)
      then have "ends_in bs (add_text bs 0 j i cs)
          (\<lambda>c. ends_in bs (fmt_loop iend bs lit fuel c (issues @ [fmt_issue_at Dollar_Brace i (i + 2)]) (i + 1) (i + 1)) ?Q) t"
        by (intro add_text_ends [OF Suc.prems(3)])
          (use Suc.prems(4) bd(1) dollar False in \<open>auto intro!: again\<close>)
      then show ?thesis using False pk dollar by (auto simp: ends_bind)
    next
      case plain
      then show ?thesis using False pk Suc.prems(3,4) by (auto intro!: again)
    next
      case brace
      define finish_with where "finish_with = (\<lambda>x. bindS (add_text bs 0 j ?stop cs) (\<lambda>c. retS (c, issues @ [x])))"
      define found where "found = (\<lambda>close. bindS (add_text bs 0 j i cs) (\<lambda>c. bindS (cut bs (i + 1) close) (\<lambda>t.
          if blank_text t
          then fmt_loop iend bs lit fuel c (issues @ [fmt_issue_at Empty_Braces i (close + 1)]) (close + 1) (close + 1)
          else fmt_loop iend bs lit fuel (c @ [Expr_chunk t (i + 1)]) (issues @ line_break_issue lit i t)
                 (close + 1) (close + 1))))"
      have e: "fmt_loop iend bs lit (Suc fuel) cs issues j i = bindS (iend (i + 1)) (\<lambda>r.
          case r of
            Close close \<Rightarrow> if close < ?stop then found close else finish_with (fmt_issue_at Brace_Unclosed i (i + 1))
          | Comment_at at_hash \<Rightarrow>
              if at_hash < ?stop
              then bindS (cut bs at_hash ?stop) (\<lambda>t. finish_with (fmt_issue_at Comment_Inside at_hash
                     (case find_byte is_line_break t of None \<Rightarrow> ?stop | Some k \<Rightarrow> at_hash + k)))
              else finish_with (fmt_issue_at Brace_Unclosed i (i + 1))
          | Unclosed \<Rightarrow> finish_with (fmt_issue_at Brace_Unclosed i (i + 1)))"
      proof -
        have "(?stop \<le> i) = False" "(b = 92) = False" "(b = 125) = False" "(b = 123) = True" "(b = 36) = False"
          "((b = 123 \<or> b = 125) \<and> i + 1 < ?stop \<and> peek bs (i + 1) = Some b) = False"
          using False brace by auto
        then show ?thesis
          by (simp only: fmt_loop.simps Let_def found_def finish_with_def pk option.case if_False if_True simp_thms)
      qed
      have finish_ends: "ends_in bs (finish_with x) ?Q u" if "scans_after t u" for x u
        unfolding finish_with_def by (rule finish) (use that in auto)
      have found_ends: "ends_in bs (found close) ?Q u"
        if u: "scans_after t u" "i + 1 \<le> close" "peek bs close = Some 125" "close < ?stop" for close u
      proof -
        have close: "boundary bs close" "boundary bs (close + 1)"
          using u(3) boundary_ascii [of close bs] after_peek [OF valid u(3)] by (auto simp: peek_Some)
        obtain t where t: "slice bs (i + 1) close = Some t"
          using slice_Some [OF u(2) _ close(1)] bd(2) brace(1) by auto
        have empty: "divided_to bs a c (issues @ [fmt_issue_at Empty_Braces i (close + 1)]) (close + 1)"
          if "divided_to bs a c issues i" for c
          by (rule divided_to_skip [OF that]) (use close u in \<open>auto simp: in_issue_def fmt_issue_at_def\<close>)
        have expr: "divided_to bs a (c @ [Expr_chunk t (i + 1)]) (issues @ line_break_issue lit i t) (close + 1)"
          if "divided_to bs a c issues i" "\<not> blank_text t" for c
          by (rule divided_to_expr [OF that(1)]) (use pk brace u t that close in auto)
        show ?thesis
          unfolding found_def ends_bind
          by (rule add_text_ends [OF Suc.prems(3)])
            (use Suc.prems(4) bd(1) brace(1) u t in \<open>auto simp: ends_cut intro!: again empty [simplified] expr [simplified]\<close>)
      qed
      have comment: "boundary bs k" if "peek bs k = Some 35" for k
        using that boundary_ascii [of k bs] by (auto simp: peek_Some)
      have iend: "ends_in bs (iend (i + 1)) (\<lambda>r u. scans_after t u \<and>
          (case r of Close k \<Rightarrow> i + 1 \<le> k \<and> peek bs k = Some 125
           | Comment_at k \<Rightarrow> i + 1 \<le> k \<and> peek bs k = Some 35 | Unclosed \<Rightarrow> True)) t"
        by (rule iend_ends [OF valid Suc.prems(1,2)]) (use bd(2) brace(1) in simp)
      show ?thesis
        unfolding e
      proof (rule ends_bindI [OF iend], goal_cases)
        case (1 r u)
        then show ?case
          using found_ends finish_ends comment slice_Some [OF _ comment stop]
          by (cases r) (auto simp: ends_bind ends_cut)
      qed
    qed
  qed
qed simp

end

lemma scan_literal_found:
  assumes "valid_source bs" and "plain_hex bs"
    and "fst (scan_literal bs start stop fresh_scans) = Inr (Some (Terminated lit))"
  shows "boundary bs (content_start lit) \<and> boundary bs (content_end lit) \<and> content_start lit \<le> content_end lit"
proof -
  obtain form where form: "quoted_literal_at bs start = Some form"
    using assms(3) by (cases "quoted_literal_at bs start") (auto simp: scan_literal_def scan_quoted_literal_def retS_def)
  from lexing.scan_quoted_ends [OF assms(1) fresh_room form, of stop] assms(2,3)
  have "scan_found bs form start (Terminated lit)"
    by (auto simp: ends_def scan_literal_def split: prod.splits sum.splits)
  then show ?thesis by (simp add: scan_found_def)
qed

text \<open>C25: A literal that the scanner found is divided without loss: the chunks lie in its content in
  their order and apart, each is the part of the source it says, an interpolation stands between its
  braces and is not blank, and every other byte of the content is a brace or inside the range of an
  issue.\<close>

theorem fmt_chunks_divide:
  assumes "valid_source bs" and "plain_hex bs"
    and "fst (scan_literal bs start stop fresh_scans) = Inr (Some (Terminated lit))"
  shows "\<exists>chunks issues. fst (fmt_chunks bs lit fresh_scans) = Inr (chunks, issues) \<and>
    tiles bs (content_start lit) chunks (content_end lit) \<and>
    (\<forall>k. content_start lit \<le> k \<and> k < content_end lit \<longrightarrow> divided bs chunks issues k)"
proof -
  have lit: "boundary bs (content_start lit)" "boundary bs (content_end lit)" "content_start lit \<le> content_end lit"
    using scan_literal_found [OF assms] by simp_all
  have "divided_to bs (content_start lit) [] [] (content_start lit)" using lit(1) by (auto simp: divided_to_def)
  moreover have "content_end lit - content_start lit < Suc (length bs)" using boundary_le [OF lit(2)] by simp
  ultimately have "ends_in bs (fmt_chunks bs lit)
      (\<lambda>r t. scans_after fresh_scans t \<and> divided_to bs (content_start lit) (fst r) (snd r) (content_end lit)) fresh_scans"
    unfolding fmt_chunks_def fmt_chunks_by_def
    using lexing.fmt_loop_ends [OF assms(1) lit(2) fresh_room] lit(3) by blast
  then show ?thesis
    using assms(2) by (auto simp: ends_def divided_to_def split: prod.splits sum.splits)
qed

theorem fmt_chunks_divide_witness:
  "\<exists>chunks issues. fst (fmt_chunks [102, 34, 97, 34] \<lparr>q_kind = Fmt_lit, q_raw = False, delimiter_len = 1,
       content_start = 2, content_end = 3, q_end = 4\<rparr> fresh_scans) = Inr (chunks, issues) \<and>
     tiles [102, 34, 97, 34] 2 chunks 3"
proof -
  let ?bs = "[102, 34, 97, 34] :: source"
  let ?l = "\<lambda>i j. \<lparr>q_kind = Fmt_lit, q_raw = False, delimiter_len = 1, content_start = 2, content_end = i, q_end = j\<rparr>"
  have valid: "valid_source ?bs"
    by (rule valid_source_text [of "[102, 34, 97, 34]"]) (simp_all add: encode_utf8_def is_scalar_def)
  have hex: "plain_hex ?bs" by (simp add: plain_hex_def peek_def nth_Cons')
  have form: "quoted_literal_at ?bs 0 = Some \<lparr>form_prefix = [102], form_kind = Fmt_lit, form_raw = False, form_token = Fmt_String_t\<rparr>"
    by (simp add: quoted_literal_at_def literal_forms_def starts_at_def peek_def bytes_of_def)
  have q: "get_range (Suc 0) 4 ?bs \<noteq> Some quotes3" by (simp add: get_range_def quotes3_def)
  have loop: "quoted_loop iend iclose ?bs True (?l 2 2) (Suc (Suc n)) 2 = retS (Terminated (?l 3 4))" for iend iclose n
    by (simp add: quoted_loop.simps fmt_interpolates_def command_string_interpolates_def)
  have "fst (scan_literal ?bs 0 True fresh_scans) = Inr (Some (Terminated (?l 3 4)))"
    using loop [of _ _ 3] by (simp add: scan_literal_def scan_quoted_literal_def form q Let_def bindS_def retS_def)
  from fmt_chunks_divide [OF valid hex this] show ?thesis by auto
qed

section \<open>The two decoders of escapes\<close>

text \<open>The bytes of a character after its first.\<close>

lemma char_rest:
  assumes "valid_source bs" and "i < length bs" and "boundary bs i" and "0 < k" and "k < lead_width (bs ! i)"
  shows "i + k < length bs \<and> 0x80 \<le> bs ! (i + k)"
proof -
  obtain s where s: "text_ok s" "bs = as_bytes s" using assms(1) by (auto simp: valid_source_def)
  then obtain a b where ab: "s = a @ b" "i = tlen a"
    using assms(3) boundary_iff [OF s(1)] by (auto simp: boundary_as_bytes)
  then obtain c b' where b: "b = c # b'" using assms(2) s by (cases b) auto
  have sc: "is_scalar c" using s ab b by simp
  have "boundary bs (i + lead_width (bs ! i))" using char_after [OF assms(1-3)] .
  then have le: "i + lead_width (bs ! i) \<le> length bs" by (rule boundary_le)
  have k: "k < len_utf8 c"
  proof (rule ccontr)
    assume "\<not> k < len_utf8 c"
    then have "len_utf8 c < lead_width (bs ! i)" using assms(5) by simp
    have *: "bs ! i = encode_utf8 c ! 0" using nth_as_bytes [of 0 c a b'] s ab b by simp
    obtain x xs where x: "encode_utf8 c = x # xs" "unat x = (if c < 0x80 then c else if c < 0x800 then 0xC0 + c div 64
        else if c < 0x10000 then 0xE0 + c div 4096 else 0xF0 + c div 262144)"
      using encode_head [OF sc] by blast
    consider "c < 0x80" | "0x80 \<le> c" "c < 0x800" | "0x800 \<le> c" "c < 0x10000" | "0x10000 \<le> c" by linarith
    then have "lead_width x = len_utf8 c"
      by cases (use x in \<open>auto simp: lead_width_def len_utf8_def word_less_nat_alt\<close>)
    then show False using \<open>len_utf8 c < lead_width (bs ! i)\<close> * x by simp
  qed
  then have "bs ! (i + k) = encode_utf8 c ! k" using nth_as_bytes [of k c a b'] s ab b by simp
  then have "continuation (bs ! (i + k))" using encode_later [OF sc assms(4) k] by simp
  then show ?thesis using le assms(5) by (auto simp: continuation_def word_le_nat_alt)
qed

lemma plain_step:
  assumes "i < length bs" and "at_byte s = i" and "bs ! i \<noteq> 92"
    and "\<not> (kind = Str_lit \<and> bs ! i = 36 \<and> peek bs (i + 1) = Some 123)"
  shows "decode_loop iclose bs kind False (length bs) (Suc n) x decoded s =
    decode_loop iclose bs kind False (length bs) n x (decoded @ [bs ! i]) (s\<lparr>at_byte := Suc i\<rparr>)"
proof -
  have "peek bs i = Some (bs ! i)" using assms(1) by (simp add: peek_Some)
  then show ?thesis
    using assms by (subst decode_loop.simps(2)) (auto simp: bindS_def here_at_def advance_def updS_def)
qed

lemma plain_run:
  "i + w \<le> length bs \<Longrightarrow> at_byte s = i \<Longrightarrow>
     (\<And>k. k < w \<Longrightarrow> bs ! (i + k) \<noteq> 92 \<and> \<not> (kind = Str_lit \<and> bs ! (i + k) = 36 \<and> peek bs (i + k + 1) = Some 123)) \<Longrightarrow>
     decode_loop iclose bs kind False (length bs) (w + n) x decoded s =
     decode_loop iclose bs kind False (length bs) n x (decoded @ take w (drop i bs)) (s\<lparr>at_byte := i + w\<rparr>)"
proof (induction w arbitrary: i decoded s)
  case 0
  then have "s\<lparr>at_byte := i\<rparr> = s" by simp
  then show ?case by simp
next
  case (Suc w)
  have "decode_loop iclose bs kind False (length bs) (Suc (w + n)) x decoded s =
      decode_loop iclose bs kind False (length bs) (w + n) x (decoded @ [bs ! i]) (s\<lparr>at_byte := Suc i\<rparr>)"
    using Suc.prems(3) [of 0] Suc.prems(1,2) by (intro plain_step) auto
  also have "\<dots> = decode_loop iclose bs kind False (length bs) n x (decoded @ [bs ! i] @ take w (drop (Suc i) bs))
      (s\<lparr>at_byte := Suc i + w\<rparr>)"
    using Suc.IH [of "Suc i" "s\<lparr>at_byte := Suc i\<rparr>" "decoded @ [bs ! i]"] Suc.prems(1)
      Suc.prems(3) [of "Suc _"] by simp
  also have "[bs ! i] @ take w (drop (Suc i) bs) = take (Suc w) (drop i bs)"
    using Suc.prems(1) by (simp flip: Cons_nth_drop_Suc)
  finally show ?case by simp
qed

definition no_dollar_brace :: "source \<Rightarrow> bool" where
  "no_dollar_brace bs \<longleftrightarrow> (\<forall>i < length bs. peek bs i = Some 36 \<longrightarrow> peek bs (i + 1) \<noteq> Some 123)"

lemma cutE_Inr: "cutE bs i j = Inr t \<longleftrightarrow> slice bs i j = Some t"
  by (simp add: cutE_def ok_or_def split: option.split)

lemma slice_end: "slice bs i j = Some t \<Longrightarrow> j \<le> length bs \<and> boundary bs j \<and> t = take (j - i) (drop i bs)"
  by (auto simp: slice_def get_range_def split: if_splits)

text \<open>An escape the one decoder accepts is the same text for the other.\<close>

lemma hex_agree:
  assumes "text_hex bs base i k = Inr (t, [], j)" and "at_byte s = k"
  shows "decode_hex bs i s = (Inr t, s\<lparr>at_byte := j\<rparr>) \<and> j = k + 2 \<and> boundary bs j"
proof -
  obtain hex v where "k + 2 \<le> length bs" "slice bs k (k + 2) = Some hex" "u8_from_hex hex = Some v"
      "t = [v]" "j = k + 2"
    using assms(1)
    by (auto simp: text_hex_def Let_def cutE_Inr split: if_splits option.splits)
  then show ?thesis
    using assms(2) slice_end [of bs k "k + 2"]
    by (auto simp: decode_hex_def bindS_def here_at_def retS_def sliced_def advance_def updS_def)
qed

lemma takeWhile_same: "(\<And>b. P b \<Longrightarrow> Q b) \<Longrightarrow> list_all P (takeWhile Q xs) \<Longrightarrow> takeWhile P xs = takeWhile Q xs"
  by (induction xs) (auto split: if_splits)

lemma unicode_agree:
  assumes "text_unicode bs base i k = Inr (t, [], j)" and "at_byte s = k"
  shows "decode_unicode bs i s = (Inr t, s\<lparr>at_byte := j\<rparr>) \<and> k \<le> j \<and> peek bs (j - 1) = Some 125"
proof -
  let ?e = "scan_while (\<lambda>b. b \<noteq> 125) bs (Suc k)"
  obtain digits n c where d: "slice bs (Suc k) ?e = Some digits" "list_all is_hexdigit digits" "peek bs ?e = Some 125"
      "u32_from_hex digits = Some n" "char_from_u32 n = Some c" "t = encode_utf8 c" "j = ?e + 1"
    using assms(1)
    by (auto simp: text_unicode_def Let_def cutE_Inr bind_eq_Some_conv
        split: if_splits option.splits)
  have "digits = takeWhile (\<lambda>b. b \<noteq> 125) (drop (Suc k) bs)"
    using slice_end [OF d(1)] by (simp add: scan_while_def takeWhile_eq_take [symmetric])
  moreover have "b \<noteq> 125" if "is_hexdigit b" for b
    using that by (auto simp: is_hexdigit_def hex_digit_def)
  ultimately have "scan_while is_hexdigit bs (Suc k) = ?e"
    using takeWhile_same [of is_hexdigit "\<lambda>b. b \<noteq> 125" "drop (Suc k) bs"] d(2)
    by (simp add: scan_while_def)
  then show ?thesis
    using assms(2) d scan_while_ge [of "Suc k" "\<lambda>b. b \<noteq> 125" bs]
    by (auto simp: decode_unicode_def bindS_def here_at_def retS_def sliced_def advance_def updS_def skip_while_def)
qed

lemma escape_agree:
  assumes valid: "valid_source bs" and esc: "i < length bs" "bs ! i = 92" and s: "at_byte s = i + 1"
    and e: "text_escape True bs base i = Inr (t, [], j)"
  shows "decode_escape bs False i s = (Inr t, s\<lparr>at_byte := j\<rparr>) \<and> i < j \<and> boundary bs j"
proof -
  obtain b where b: "peek bs (i + 1) = Some b"
    using e by (cases "peek bs (i + 1)") (auto simp: text_escape_def)
  have small: "b < 0x80 \<Longrightarrow> boundary bs (i + 2)" using after_peek [OF valid b] by simp
  consider (simple) v where "simple_escape b = Some v"
    | (hex) "b = 120" "text_hex bs base i (i + 2) = Inr (t, [], j)"
    | (unicode) "b = 117" "peek bs (i + 2) = Some 123" "text_unicode bs base i (i + 2) = Inr (t, [], j)"
  proof (cases "simple_escape b")
    case None
    then consider "b = 120" | "b = 117" "peek bs (i + 2) = Some 123"
      using e b by (auto simp: text_escape_def Let_def lead_width_def split: if_splits)
    then show ?thesis
      using e b None that(2,3) by cases (auto simp: text_escape_def Let_def lead_width_def)
  qed
  then show ?thesis
  proof cases
    case simple
    then have "b \<in> {92, 34, 36, 110, 114, 116, 48}"
      by (auto simp: simple_escape_def split: if_splits)
    then show ?thesis
      using e b s simple small
      by (auto simp: text_escape_def simple_escape_def decode_escape_def bindS_def here_at_def advance_def updS_def
          lead_width_def)
  next
    case hex
    then show ?thesis
      using hex_agree [OF hex(2), of "s\<lparr>at_byte := i + 2\<rparr>"] b s
      by (auto simp: decode_escape_def bindS_def here_at_def advance_def updS_def)
  next
    case unicode
    then show ?thesis
      using unicode_agree [OF unicode(3), of "s\<lparr>at_byte := i + 2\<rparr>"] b s after_peek [OF valid, of "j - 1" 125]
      by (auto simp: decode_escape_def bindS_def here_at_def advance_def updS_def)
  qed
qed

lemma decode_run:
  assumes valid: "valid_source bs" and free: "kind \<noteq> Bytes_lit" "kind = Str_lit \<Longrightarrow> no_dollar_brace bs"
  shows "text_loop True bs base m i = Inr (out, []) \<Longrightarrow> boundary bs i \<Longrightarrow> at_byte s = i \<Longrightarrow> length bs - i < n \<Longrightarrow>
    decode_loop iclose bs kind False (length bs) n x decoded s = (Inr (x, decoded @ out), s\<lparr>at_byte := length bs\<rparr>)"
proof (induction m arbitrary: i out s n decoded)
  case (Suc m)
  obtain n' where n: "n = Suc n'" using Suc.prems(4) by (cases n) auto
  show ?case
  proof (cases "i < length bs")
    case False
    then have "i = length bs" using boundary_le [OF Suc.prems(2)] by simp
    then show ?thesis using Suc.prems(1,3) n goto_same [of s i] by (simp add: bindS_def here_at_def)
  next
    case True
    show ?thesis
    proof (cases "bs ! i = 92")
      case esc: True
      then obtain t j t' where e: "text_escape True bs base i = Inr (t, [], j)"
          "text_loop True bs base m j = Inr (t', [])" "out = t @ t'"
        using Suc.prems(1) True by auto
      have *: "decode_escape bs False i (s\<lparr>at_byte := Suc i\<rparr>) = (Inr t, s\<lparr>at_byte := j\<rparr>)" "i < j" "boundary bs j"
        using escape_agree [OF valid True esc _ e(1), of "s\<lparr>at_byte := Suc i\<rparr>"] by simp_all
      have "decode_loop iclose bs kind False (length bs) n' x (decoded @ t) (s\<lparr>at_byte := j\<rparr>) =
          (Inr (x, (decoded @ t) @ t'), s\<lparr>at_byte := length bs\<rparr>)"
        using Suc.IH [OF e(2) *(3), of "s\<lparr>at_byte := j\<rparr>" n' "decoded @ t"] Suc.prems(4) *(2) n True by simp
      moreover have "peek bs i = Some 92" using True esc by (simp add: peek_Some)
      ultimately show ?thesis
        using * esc True Suc.prems(3) n e(3) free(1)
        by (simp add: bindS_def here_at_def advance_def updS_def)
    next
      case plain: False
      let ?w = "lead_width (bs ! i)"
      obtain t' where e: "text_loop True bs base m (i + ?w) = Inr (t', [])"
          "out = take ?w (drop i bs) @ t'"
        using Suc.prems(1) True plain by (auto simp: cutE_Inr dest!: slice_end)
      have w: "boundary bs (i + ?w)" "0 < ?w"
        using char_after [OF valid True Suc.prems(2)] by (simp_all add: lead_width_def)
      then have le: "i + ?w \<le> length bs" by (simp add: boundary_le)
      have ordinary: "bs ! (i + k) \<noteq> 92 \<and> \<not> (kind = Str_lit \<and> bs ! (i + k) = 36 \<and> peek bs (i + k + 1) = Some 123)"
        if "k < ?w" for k
      proof (cases "k = 0")
        case True
        then show ?thesis using plain free(2) \<open>i < length bs\<close> by (auto simp: no_dollar_brace_def peek_Some)
      next
        case False
        then show ?thesis
          using char_rest [OF valid \<open>i < length bs\<close> Suc.prems(2), of k] that by auto
      qed
      obtain k where k: "n = ?w + k" "length bs - (i + ?w) < k"
        using Suc.prems(4) le by (intro that [of "n - ?w"]) auto
      show ?thesis
        unfolding k(1)
        using plain_run [OF le Suc.prems(3) ordinary, of iclose k x decoded]
          Suc.IH [OF e(1) w(1), of "s\<lparr>at_byte := i + ?w\<rparr>" k "decoded @ take ?w (drop i bs)"] k(2) e(2)
        by simp
    qed
  qed
qed simp



end
