(* ===== verification/Xsh_Source.thy ===== *)
theory Xsh_Source
  imports Xsh_Text
begin

text \<open>
  Sources, spans and locations (\<open>source.rs\<close>). A text is the list of its characters; offsets are bytes
  of its encoding. \<open>None\<close> where the result is not an \<open>Option\<close> of the code, and the outer \<open>None\<close> where
  it is, stands for a panic: the assertions of \<open>Span\<close> and \<open>SourceId\<close>, and slices inside characters.
\<close>

section \<open>Identities and spans\<close>

definition fits_u32 :: "nat \<Rightarrow> bool" where
  "fits_u32 n \<longleftrightarrow> n \<le> 4294967295"

definition source_id_new :: "nat \<Rightarrow> u32 option" where
  "source_id_new raw = (if fits_u32 raw then Some (of_nat raw) else None)"

record span =
  span_source :: u32
  start_field :: u32
  len_field :: u32

definition span_new :: "u32 \<Rightarrow> nat \<Rightarrow> nat \<Rightarrow> span option" where
  "span_new ident i j =
     (if fits_u32 i \<and> i \<le> j \<and> fits_u32 (j - i)
      then Some \<lparr>span_source = ident, start_field = of_nat i, len_field = of_nat (j - i)\<rparr>
      else None)"

definition span_at :: "u32 \<Rightarrow> nat \<Rightarrow> span option" where
  "span_at ident i =
     (if fits_u32 i then Some \<lparr>span_source = ident, start_field = of_nat i, len_field = 0\<rparr> else None)"

definition span_start :: "span \<Rightarrow> nat" where
  "span_start sp = unat (start_field sp)"

definition span_end :: "span \<Rightarrow> nat" where
  "span_end sp = unat (start_field sp) + unat (len_field sp)"

definition set_start :: "nat \<Rightarrow> span \<Rightarrow> span option" where
  "set_start i sp =
     (let j = span_end sp
      in if i \<le> j \<and> fits_u32 i
         then Some (sp\<lparr>start_field := of_nat i, len_field := of_nat (j - i)\<rparr>) else None)"

definition set_end :: "nat \<Rightarrow> span \<Rightarrow> span option" where
  "set_end j sp =
     (let i = span_start sp
      in if i \<le> j \<and> fits_u32 (j - i) then Some (sp\<lparr>len_field := of_nat (j - i)\<rparr>) else None)"

text \<open>\<open>usize::saturating_add\<close> on 64 bits.\<close>

definition usize_add :: "nat \<Rightarrow> nat \<Rightarrow> nat" where
  "usize_add m n = min (m + n) 18446744073709551615"

definition shift_start :: "nat \<Rightarrow> span \<Rightarrow> span option" where
  "shift_start n sp =
     (let i = usize_add (span_start sp) n; j = usize_add (span_end sp) n
      in if fits_u32 i \<and> i \<le> j \<and> fits_u32 (j - i)
         then Some (sp\<lparr>start_field := of_nat i, len_field := of_nat (j - i)\<rparr>) else None)"

definition span_is_empty :: "span \<Rightarrow> bool" where
  "span_is_empty sp \<longleftrightarrow> len_field sp = 0"

section \<open>Source files\<close>

record source_location =
  loc_file :: string
  loc_line :: nat
  loc_column :: nat
  loc_offset :: nat

record load_error =
  err_name :: string
  err_offset :: nat
  err_message :: string

record source_file =
  file_id :: u32
  file_name :: string
  file_text :: text_str
  line_starts :: "nat list"

text \<open>The offsets after the line feeds of bytes that begin at \<open>i\<close>.\<close>

fun starts_from :: "nat \<Rightarrow> u8 list \<Rightarrow> nat list" where
  "starts_from i [] = []"
| "starts_from i (b # bs) = (if b = 10 then [Suc i] else []) @ starts_from (Suc i) bs"

definition file_new :: "u32 \<Rightarrow> string \<Rightarrow> text_str \<Rightarrow> source_file" where
  "file_new ident nm s =
     \<lparr>file_id = ident, file_name = nm, file_text = s, line_starts = 0 # starts_from 0 (as_bytes s)\<rparr>"

text \<open>\<open>Utf8Error::valid_up_to\<close>: the longest prefix that is valid.\<close>

definition valid_up_to :: "u8 list \<Rightarrow> nat" where
  "valid_up_to bs = hd (filter (\<lambda>n. decode_utf8 (take n bs) \<noteq> None) (rev [0..<Suc (length bs)]))"

definition file_from_utf8 :: "u32 \<Rightarrow> string \<Rightarrow> u8 list \<Rightarrow> load_error + source_file" where
  "file_from_utf8 ident nm bs =
     (case decode_utf8 bs of
        None \<Rightarrow> Inl \<lparr>err_name = nm, err_offset = valid_up_to bs,
                     err_message = ''source file is not valid UTF-8''\<rparr>
      | Some s \<Rightarrow> Inr (file_new ident nm s))"

definition file_len :: "source_file \<Rightarrow> nat" where
  "file_len f = tlen (file_text f)"

definition line_count :: "source_file \<Rightarrow> nat" where
  "line_count f = length (line_starts f)"

text \<open>\<open>text[i..j]\<close>.\<close>

definition text_slice :: "nat \<Rightarrow> nat \<Rightarrow> text_str \<Rightarrow> text_str option" where
  "text_slice i j s =
     (if i \<le> j
      then Option.bind (split_bytes i s) (\<lambda>(a, b). map_option fst (split_bytes (j - i) b))
      else None)"

definition trim_line_end :: "text_str \<Rightarrow> text_str" where
  "trim_line_end s = rev (dropWhile (\<lambda>c. c = 13 \<or> c = 10) (rev s))"

definition line_text :: "source_file \<Rightarrow> nat \<Rightarrow> text_str option option" where
  "line_text f one_based =
     (if one_based = 0 \<or> length (line_starts f) < one_based then Some None
      else
        (let index = one_based - 1;
             j = (if Suc index < length (line_starts f) then line_starts f ! Suc index
                  else tlen (file_text f))
         in map_option (\<lambda>s. Some (trim_line_end s)) (text_slice (line_starts f ! index) j (file_text f))))"

text \<open>\<open>binary_search\<close> on a list in strictly increasing order: the index of the value, or where it
  would be inserted.\<close>

definition search_sorted :: "nat list \<Rightarrow> nat \<Rightarrow> nat + nat" where
  "search_sorted xs v =
     (let k = length (takeWhile (\<lambda>x. x < v) xs)
      in if k < length xs \<and> xs ! k = v then Inr k else Inl k)"

definition location :: "source_file \<Rightarrow> nat \<Rightarrow> source_location option option" where
  "location f i =
     (if tlen (file_text f) < i \<or> \<not> is_char_boundary (file_text f) i then Some None
      else
        (let k = (case search_sorted (line_starts f) i of Inr k \<Rightarrow> k | Inl k \<Rightarrow> k - 1)
         in if k < length (line_starts f)
            then map_option (\<lambda>s. Some \<lparr>loc_file = file_name f, loc_line = k + 1,
                   loc_column = length s + 1, loc_offset = i\<rparr>)
                 (text_slice (line_starts f ! k) i (file_text f))
            else None))"

definition inferred_span_end :: "source_file \<Rightarrow> span \<Rightarrow> nat option" where
  "inferred_span_end f sp = (if span_source sp \<noteq> file_id f then None else Some (span_end sp))"

definition span_text :: "source_file \<Rightarrow> span \<Rightarrow> text_str option option" where
  "span_text f sp =
     (case inferred_span_end f sp of
        None \<Rightarrow> Some None
      | Some j \<Rightarrow>
          (let i = span_start sp
           in if j < i \<or> tlen (file_text f) < j \<or> \<not> is_char_boundary (file_text f) i \<or>
                 \<not> is_char_boundary (file_text f) j
              then Some None
              else map_option Some (text_slice i j (file_text f))))"

section \<open>Source maps\<close>

type_synonym source_map = "source_file list"

text \<open>\<open>absolute\<close> is \<open>std::path::absolute\<close>, which reads the current directory; it fails, or gives a
  path that is not Unicode, as \<open>None\<close>.\<close>

definition resolve_source_path :: "(string \<Rightarrow> string option) \<Rightarrow> string \<Rightarrow> string" where
  "resolve_source_path absolute nm =
     (if CHR ''/'' \<notin> set nm then nm else (case absolute nm of Some p \<Rightarrow> p | None \<Rightarrow> nm))"

definition add_file ::
  "(string \<Rightarrow> string option) \<Rightarrow> string \<Rightarrow> text_str \<Rightarrow> source_map \<Rightarrow> (u32 \<times> source_map) option" where
  "add_file absolute nm s files =
     map_option (\<lambda>ident. (ident, files @ [file_new ident (resolve_source_path absolute nm) s]))
       (source_id_new (length files))"

definition add_file_from_utf8 ::
  "(string \<Rightarrow> string option) \<Rightarrow> string \<Rightarrow> u8 list \<Rightarrow> source_map \<Rightarrow>
     ((load_error + u32) \<times> source_map) option" where
  "add_file_from_utf8 absolute nm bs files =
     map_option (\<lambda>ident.
        case file_from_utf8 ident (resolve_source_path absolute nm) bs of
          Inl e \<Rightarrow> (Inl e, files)
        | Inr f \<Rightarrow> (Inr ident, files @ [f]))
       (source_id_new (length files))"

definition map_get :: "source_map \<Rightarrow> u32 \<Rightarrow> source_file option" where
  "map_get files ident = (if unat ident < length files then Some (files ! unat ident) else None)"

definition map_location :: "source_map \<Rightarrow> u32 \<Rightarrow> nat \<Rightarrow> source_location option option" where
  "map_location files ident i =
     (case map_get files ident of None \<Rightarrow> Some None | Some f \<Rightarrow> location f i)"

definition map_span_end :: "source_map \<Rightarrow> span \<Rightarrow> nat option" where
  "map_span_end files sp = Option.bind (map_get files (span_source sp)) (\<lambda>f. inferred_span_end f sp)"

definition map_span_text :: "source_map \<Rightarrow> span \<Rightarrow> text_str option option" where
  "map_span_text files sp =
     (case map_get files (span_source sp) of None \<Rightarrow> Some None | Some f \<Rightarrow> span_text f sp)"

section \<open>Spans keep their bounds\<close>

lemma fits_unat: "fits_u32 n \<Longrightarrow> unat (of_nat n :: u32) = n"
  by (rule unat_of_nat_small) (simp add: fits_u32_def)

lemma span_new_bounds:
  "span_new ident i j = Some sp \<Longrightarrow> span_start sp = i \<and> span_end sp = j \<and> span_source sp = ident"
  by (auto simp: span_new_def span_start_def span_end_def fits_unat simp del: of_nat_diff split: if_splits)

lemma set_end_bounds:
  "set_end j sp = Some sp' \<Longrightarrow> span_start sp' = span_start sp \<and> span_end sp' = j"
  by (auto simp: set_end_def span_start_def span_end_def fits_unat Let_def simp del: of_nat_diff split: if_splits)

lemma set_start_bounds:
  assumes "set_start i sp = Some sp'" and "fits_u32 (span_end sp - i)"
  shows "span_start sp' = i \<and> span_end sp' = span_end sp"
proof -
  have i: "i \<le> span_end sp" "fits_u32 i"
    and sp': "sp' = sp\<lparr>start_field := of_nat i, len_field := of_nat (span_end sp - i)\<rparr>"
    using assms(1) by (auto simp: set_start_def Let_def split: if_splits)
  have "unat (of_nat (span_end sp - i) :: u32) = span_end sp - i" using assms(2) by (rule fits_unat)
  then show ?thesis using i by (simp add: sp' span_start_def span_end_def fits_unat del: of_nat_diff)
qed

text \<open>Without the assertion the other operations make, the length is cut to 32 bits.\<close>

lemma set_start_cuts:
  "\<exists>sp'. set_start 0 \<lparr>span_source = 0, start_field = 0xFFFFFFFF, len_field = 2\<rparr> = Some sp' \<and> span_end sp' = 1"
  by (simp add: set_start_def span_end_def fits_u32_def)

lemma shift_start_bounds:
  assumes "shift_start n sp = Some sp'"
  shows "span_start sp' = usize_add (span_start sp) n \<and> span_end sp' = usize_add (span_end sp) n"
proof -
  let ?i = "usize_add (span_start sp) n"
  let ?j = "usize_add (span_end sp) n"
  have f: "fits_u32 ?i" "?i \<le> ?j" "fits_u32 (?j - ?i)"
    and sp': "sp' = sp\<lparr>start_field := of_nat ?i, len_field := of_nat (?j - ?i)\<rparr>"
    using assms by (auto simp: shift_start_def Let_def split: if_splits)
  then show ?thesis
    using fits_unat [OF f(1)] fits_unat [OF f(3)] by (simp add: sp' span_start_def span_end_def del: of_nat_diff)
qed

section \<open>Lines\<close>

lemma starts_append: "starts_from i (a @ b) = starts_from i a @ starts_from (i + length a) b"
  by (induction a arbitrary: i) simp_all

lemma starts_bounds: "x \<in> set (starts_from i bs) \<Longrightarrow> i < x \<and> x \<le> i + length bs"
  by (induction bs arbitrary: i) (force split: if_splits)+

lemma starts_sorted: "sorted_wrt (<) (starts_from i bs)"
  by (induction bs arbitrary: i) (auto dest: starts_bounds)

text \<open>A byte of ten is a line feed.\<close>

lemma ten_in_encoding: "is_scalar c \<Longrightarrow> 10 \<in> set (encode_utf8 c) \<longleftrightarrow> c = 10"
  by (simp add: ascii_in_encoding)

lemma starts_count: "text_ok s \<Longrightarrow> length (starts_from i (as_bytes s)) = count_list s 10"
proof (induction s arbitrary: i)
  case (Cons c s)
  have none: "starts_from k bs = []" if "10 \<notin> set bs" for k bs
    using that by (induction bs arbitrary: k) auto
  show ?case
  proof (cases "c = 10")
    case True
    then show ?thesis using Cons by (simp add: encode_utf8_def)
  next
    case False
    then show ?thesis using Cons ten_in_encoding [of c] by (simp add: starts_append none)
  qed
qed simp

lemma starts_none: "text_ok s \<Longrightarrow> 10 \<notin> set s \<Longrightarrow> starts_from i (as_bytes s) = []"
  using starts_count [of s i] by (simp add: count_list_0_iff)

text \<open>The search for an offset among the starts of a text cut there.\<close>

lemma search_line:
  assumes p: "sorted_wrt (<) ps" "ps \<noteq> []" "\<forall>x \<in> set ps. x \<le> v" and q: "\<forall>x \<in> set qs. v < x"
  shows "(case search_sorted (ps @ qs) v of Inr k \<Rightarrow> k | Inl k \<Rightarrow> k - 1) = length ps - 1"
proof -
  obtain rs l where ps: "ps = rs @ [l]" using p(2) by (metis rev_exhaust)
  then have "\<forall>x \<in> set rs. x < v" "l \<le> v" using p(1,3) by (fastforce simp: sorted_wrt_append)+
  moreover have "takeWhile (\<lambda>x. x < v) qs = []" "qs = [] \<or> qs ! 0 \<noteq> v" using q by (cases qs; auto)+
  ultimately show ?thesis
    unfolding search_sorted_def Let_def ps
    by (cases "l = v") (auto simp: takeWhile_append2 nth_append)
qed

text \<open>The part of a text since its last line feed.\<close>

definition last_line :: "text_str \<Rightarrow> text_str" where
  "last_line s = rev (takeWhile (\<lambda>c. c \<noteq> 10) (rev s))"

lemma last_line_split: "\<exists>a. s = a @ last_line s \<and> (a = [] \<or> last a = 10) \<and> 10 \<notin> set (last_line s)"
proof -
  let ?d = "dropWhile (\<lambda>c. c \<noteq> 10) (rev s)"
  have "rev s = takeWhile (\<lambda>c. c \<noteq> 10) (rev s) @ ?d" by simp
  then have "s = rev ?d @ last_line s" unfolding last_line_def by (metis rev_append rev_rev_ident)
  moreover have "rev ?d = [] \<or> last (rev ?d) = 10"
    using hd_dropWhile [of "\<lambda>c. c \<noteq> 10" "rev s"] by (auto simp: last_rev)
  moreover have "10 \<notin> set (last_line s)" unfolding last_line_def using set_takeWhileD by fastforce
  ultimately show ?thesis by blast
qed

lemma line_starts_last:
  assumes "text_ok (a @ b)" and "a = [] \<or> last a = 10" and "10 \<notin> set b"
  shows "last (0 # starts_from 0 (as_bytes (a @ b))) = tlen a"
proof (cases "a = []")
  case True
  then show ?thesis using assms starts_none by simp
next
  case False
  then obtain a' where a: "a = a' @ [10]" using assms(2) by (metis append_butlast_last_id)
  have "starts_from 0 (as_bytes (a @ b)) = starts_from 0 (as_bytes a') @ [Suc (tlen a')]"
    using assms starts_none [of b] by (simp add: a starts_append encode_utf8_def)
  then show ?thesis by (simp add: a len_utf8_def)
qed

lemma location_inside:
  assumes "text_ok s" and s: "s = a @ b"
  shows "location (file_new ident nm s) (tlen a) =
      Some (Some \<lparr>loc_file = nm, loc_line = count_list a 10 + 1,
        loc_column = length (last_line a) + 1, loc_offset = tlen a\<rparr>)"
proof -
  obtain p where p: "a = p @ last_line a" "p = [] \<or> last p = 10" "10 \<notin> set (last_line a)"
    using last_line_split by blast
  let ?ps = "0 # starts_from 0 (as_bytes a)"
  let ?qs = "starts_from (tlen a) (as_bytes b)"
  have starts: "line_starts (file_new ident nm s) = ?ps @ ?qs" by (simp add: s file_new_def starts_append)
  have "(case search_sorted (?ps @ ?qs) (tlen a) of Inr k \<Rightarrow> k | Inl k \<Rightarrow> k - 1) = length ?ps - 1"
    by (rule search_line) (use starts_sorted starts_bounds in \<open>auto dest: starts_bounds\<close>)
  moreover have "length ?ps - 1 = count_list a 10" using starts_count [of a 0] assms s by simp
  ultimately have k: "(case search_sorted (?ps @ ?qs) (tlen a) of Inr k \<Rightarrow> k | Inl k \<Rightarrow> k - 1) = count_list a 10"
    by simp
  have "(?ps @ ?qs) ! (length ?ps - 1) = last ?ps"
    by (cases ?ps rule: rev_cases) (simp_all add: nth_append)
  then have "(?ps @ ?qs) ! count_list a 10 = last ?ps" using starts_count [of a 0] assms s by simp
  also have "\<dots> = tlen p" using line_starts_last [of p "last_line a"] assms s p by (metis list_all_append)
  finally have start: "(?ps @ ?qs) ! count_list a 10 = tlen p" .
  have "split_bytes (tlen p) s = Some (p, last_line a @ b)"
    using p(1) s by (simp add: split_bytes_Some)
  moreover have "tlen a = tlen p + tlen (last_line a)" using p(1) by (metis tlen_simps(3))
  ultimately have slice: "text_slice (tlen p) (tlen a) s = Some (last_line a)"
    by (simp add: text_slice_def)
  have "is_char_boundary s (tlen a)" "tlen a \<le> tlen s" using assms s by auto
  moreover have "count_list a 10 < length (?ps @ ?qs)" using starts_count [of a 0] assms s by simp
  ultimately show ?thesis
    unfolding location_def starts k start Let_def
    using slice by (simp add: file_new_def)
qed

text \<open>C32: The location of an offset is the number of line feeds before it and the number of
  characters since the last of them, both counted from one; an offset past the end of the text or
  inside a character has no location; and neither the search nor the slice panics.\<close>

theorem location_counts:
  assumes "text_ok s"
  shows "location (file_new ident nm s) i =
    Some (map_option (\<lambda>(a, b). \<lparr>loc_file = nm, loc_line = count_list a 10 + 1,
      loc_column = length (last_line a) + 1, loc_offset = i\<rparr>) (split_bytes i s))"
proof (cases "split_bytes i s")
  case None
  then have "\<nexists>a b. s = a @ b \<and> i = tlen a" by auto
  then show ?thesis using None boundary_iff [OF assms, of i] by (auto simp: location_def file_new_def)
next
  case (Some ab)
  then show ?thesis using location_inside [OF assms] by (cases ab) (simp add: split_bytes_Some)
qed

theorem location_counts_witness:
  "location (file_new 0 ''f'' [97, 10, 0xE9, 98]) 4 =
     Some (Some \<lparr>loc_file = ''f'', loc_line = 2, loc_column = 2, loc_offset = 4\<rparr>)"
proof -
  have "text_ok [97, 10, 0xE9, 98]" by (simp add: is_scalar_def)
  moreover have "split_bytes 4 [97, 10, 0xE9, 98] = Some ([97, 10, 0xE9], [98])"
    by (simp add: split_bytes_Some len_utf8_def)
  ultimately show ?thesis using location_counts [of "[97, 10, 0xE9, 98]" 0 "''f''" 4] by (simp add: last_line_def)
qed

end
