(* ===== verification/Xsh_Ssh_Wire.thy ===== *)
theory Xsh_Ssh_Wire
  imports Xsh_Text
begin

text \<open>
  Errors of the SSH client (\<open>crates/xsh-ssh/src/error.rs\<close>) and the values of the wire format
  (\<open>wire.rs\<close>): \<open>put_string\<close>, the bounded reader \<open>SshReader\<close>, and the text of a server made safe to
  show. Texts are lists of characters.
\<close>

definition text_of :: "string \<Rightarrow> text_str" where
  "text_of s = map of_char s"

section \<open>Errors\<close>

datatype certainty = Not_Submitted | Was_Submitted

datatype ssh_error =
    Invalid_Fingerprint text_str
  | Host_Key_Mismatch text_str text_str
  | Unknown_Host_Key text_str text_str
  | Revoked_Host_Key text_str
  | Unsupported_Trust text_str
  | Invalid_Trust text_str
  | Bad_Host_Key text_str
  | Unsupported_Algorithm string text_str
  | Strict_Kex_Unsupported
  | Key_File text_str
  | Agent_Failed text_str
  | Encrypted_Key
  | Authentication_Failed text_str
  | Channel_Failed text_str
  | Failed_Before text_str
  | Failed_After text_str
  | Protocol_Violated text_str
  | Timed_Out certainty
  | Was_Cancelled certainty
  | Invalid_Environment text_str
  | Request_Rejected string
  | Output_Limit string
  | Unsupported_Hardware string
  | Unusable_Connection

definition error_text :: "ssh_error \<Rightarrow> text_str" where
  "error_text e =
     (case e of
        Invalid_Fingerprint t \<Rightarrow> text_of ''invalid fingerprint: '' @ t
      | Host_Key_Mismatch expected actual \<Rightarrow>
          text_of ''host key mismatch: expected '' @ expected @ text_of '', got '' @ actual
      | Unknown_Host_Key host fp \<Rightarrow>
          text_of ''no trusted host key for '' @ host @ text_of ''; server presented '' @ fp
      | Revoked_Host_Key fp \<Rightarrow> text_of ''host key '' @ fp @ text_of '' is revoked''
      | Unsupported_Trust t \<Rightarrow> text_of ''unsupported trust material: '' @ t
      | Invalid_Trust t \<Rightarrow> text_of ''invalid trust material: '' @ t
      | Bad_Host_Key t \<Rightarrow> text_of ''host key verification failed: '' @ t
      | Unsupported_Algorithm c nm \<Rightarrow>
          text_of ''no supported '' @ text_of c @ text_of '' algorithm: '' @ nm
      | Strict_Kex_Unsupported \<Rightarrow> text_of ''server does not support strict key exchange''
      | Key_File t \<Rightarrow> text_of ''SSH key file: '' @ t
      | Agent_Failed t \<Rightarrow> text_of ''ssh-agent: '' @ t
      | Encrypted_Key \<Rightarrow> text_of ''encrypted SSH keys are unsupported''
      | Authentication_Failed t \<Rightarrow> text_of ''authentication failed: '' @ t
      | Channel_Failed t \<Rightarrow> text_of ''SSH channel failed: '' @ t
      | Failed_Before t \<Rightarrow> text_of ''SSH transport failed before submission: '' @ t
      | Failed_After t \<Rightarrow> text_of ''SSH transport failed after submission: '' @ t
      | Protocol_Violated t \<Rightarrow> text_of ''SSH protocol error: '' @ t
      | Timed_Out Not_Submitted \<Rightarrow> text_of ''SSH operation timed out before submission''
      | Timed_Out Was_Submitted \<Rightarrow> text_of ''SSH operation timed out after submission''
      | Was_Cancelled Not_Submitted \<Rightarrow> text_of ''SSH operation cancelled before submission''
      | Was_Cancelled Was_Submitted \<Rightarrow> text_of ''SSH operation cancelled after submission''
      | Invalid_Environment t \<Rightarrow> text_of ''invalid environment: '' @ t
      | Request_Rejected r \<Rightarrow> text_of ''server rejected the '' @ text_of r @ text_of '' request''
      | Output_Limit out \<Rightarrow> text_of out @ text_of '' exceeded the capture limit''
      | Unsupported_Hardware f \<Rightarrow>
          text_of ''this processor lacks '' @ text_of f @ text_of '', which the SSH cryptography requires''
      | Unusable_Connection \<Rightarrow> text_of ''SSH connection is unusable after an earlier failure'')"

definition certainty_of :: "ssh_error \<Rightarrow> certainty" where
  "certainty_of e =
     (case e of
        Failed_After t \<Rightarrow> Was_Submitted
      | Output_Limit out \<Rightarrow> Was_Submitted
      | Timed_Out c \<Rightarrow> c
      | Was_Cancelled c \<Rightarrow> c
      | _ \<Rightarrow> Not_Submitted)"

definition after_submission :: "ssh_error \<Rightarrow> ssh_error" where
  "after_submission e =
     (case e of
        Failed_After t \<Rightarrow> e
      | Output_Limit out \<Rightarrow> e
      | Timed_Out c \<Rightarrow> e
      | Was_Cancelled c \<Rightarrow> e
      | Request_Rejected r \<Rightarrow> e
      | Unusable_Connection \<Rightarrow> e
      | Failed_Before t \<Rightarrow> Failed_After t
      | _ \<Rightarrow> Failed_After (error_text e))"

section \<open>Numbers and strings\<close>

definition be_bytes :: "u32 \<Rightarrow> u8 list" where
  "be_bytes n =
     [of_nat (unat n div 16777216), of_nat (unat n div 65536 mod 256), of_nat (unat n div 256 mod 256),
      of_nat (unat n mod 256)]"

fun from_be :: "u8 list \<Rightarrow> u32" where
  "from_be [a, b, c, d] = of_nat (((unat a * 256 + unat b) * 256 + unat c) * 256 + unat d)"
| "from_be _ = 0"

text \<open>The length is cut to 32 bits.\<close>

definition put_string :: "u8 list \<Rightarrow> u8 list" where
  "put_string v = be_bytes (of_nat (length v)) @ v"

section \<open>The reader\<close>

record ssh_reader =
  rd_data :: "u8 list"
  rd_pos :: nat

type_synonym 'a reading = "(ssh_reader, ssh_error, 'a) op"

definition reader_new :: "u8 list \<Rightarrow> ssh_reader" where
  "reader_new bs = \<lparr>rd_data = bs, rd_pos = 0\<rparr>"

definition protocol_error :: "string \<Rightarrow> ssh_error" where
  "protocol_error t = Protocol_Violated (text_of t)"

definition short_message :: ssh_error where
  "short_message = protocol_error ''truncated SSH message''"

text \<open>\<open>data.get(position..position + n)\<close>, and the step past it.\<close>

definition take_bytes :: "nat \<Rightarrow> u8 list reading" where
  "take_bytes n r =
     (case get_range (rd_pos r) (rd_pos r + n) (rd_data r) of
        None \<Rightarrow> (Inl short_message, r)
      | Some bs \<Rightarrow> (Inr bs, r\<lparr>rd_pos := rd_pos r + n\<rparr>))"

definition read_u8 :: "u8 reading" where
  "read_u8 r =
     (if rd_pos r < length (rd_data r)
      then (Inr (rd_data r ! rd_pos r), r\<lparr>rd_pos := rd_pos r + 1\<rparr>)
      else (Inl short_message, r))"

definition read_u32 :: "u32 reading" where
  "read_u32 = bindS (take_bytes 4) (\<lambda>bs. retS (from_be bs))"

definition read_string :: "u8 list reading" where
  "read_string = bindS read_u32 (\<lambda>n. take_bytes (unat n))"

definition read_text :: "text_str reading" where
  "read_text =
     bindS read_string (\<lambda>bs.
       case decode_utf8 bs of
         None \<Rightarrow> failS (protocol_error ''invalid UTF-8 in string'')
       | Some s \<Rightarrow> retS s)"

definition read_name_list :: "text_str list reading" where
  "read_name_list = bindS read_text (\<lambda>s. retS (if s = [] then [] else split_on 44 s))"

definition read_finish :: "unit reading" where
  "read_finish r =
     (if rd_pos r = length (rd_data r) then (Inr (), r)
      else (Inl (protocol_error ''trailing bytes in SSH message''), r))"

definition remaining :: "ssh_reader \<Rightarrow> nat" where
  "remaining r = length (rd_data r) - rd_pos r"

text \<open>A reader that is made, used and dropped.\<close>

definition parse_body :: "'a reading \<Rightarrow> u8 list \<Rightarrow> ssh_error + 'a" where
  "parse_body m bs = fst (m (reader_new bs))"

section \<open>Text of the server\<close>

text \<open>\<open>char::is_control\<close>: the general category Cc.\<close>

definition is_control :: "nat \<Rightarrow> bool" where
  "is_control c \<longleftrightarrow> c < 0x20 \<or> 0x7F \<le> c \<and> c \<le> 0x9F"

definition is_bidi_control :: "nat \<Rightarrow> bool" where
  "is_bidi_control c \<longleftrightarrow>
     c = 0x200E \<or> c = 0x200F \<or> 0x202A \<le> c \<and> c \<le> 0x202E \<or> 0x2066 \<le> c \<and> c \<le> 0x2069"

definition MAX_TEXT :: nat where
  "MAX_TEXT = 512"

definition plain_text :: "text_str \<Rightarrow> text_str" where
  "plain_text s =
     take MAX_TEXT (filter (\<lambda>c. \<not> is_control c \<and> \<not> is_bidi_control c) s) @
     (if MAX_TEXT < length s then text_of ''...'' else [])"

section \<open>Round trips\<close>

lemma of_nat_byte_div: "n < 4294967296 \<Longrightarrow> unat (of_nat (n div 16777216) :: u8) = n div 16777216"
  by (rule unat_of_nat_small) (simp add: less_mult_imp_div_less)

lemma of_nat_byte_mod: "unat (of_nat (n mod 256) :: u8) = n mod 256"
  by (rule unat_of_nat_small) simp

lemma four_digits: "(((n div 16777216) * 256 + n div 65536 mod 256) * 256 + n div 256 mod 256) * 256 + n mod 256 = (n :: nat)"
proof -
  have "n div 256 * 256 + n mod 256 = n" by simp
  moreover have "n div 65536 * 256 + n div 256 mod 256 = n div 256"
    using div_mult_mod_eq [of "n div 256" 256] by (simp add: div_mult2_eq [symmetric])
  moreover have "n div 16777216 * 256 + n div 65536 mod 256 = n div 65536"
    using div_mult_mod_eq [of "n div 65536" 256] by (simp add: div_mult2_eq [symmetric])
  ultimately show ?thesis by simp
qed

lemma length_be [simp]: "length (be_bytes n) = 4"
  by (simp add: be_bytes_def)

lemma from_be_bytes [simp]: "from_be (be_bytes n) = n"
proof -
  have "unat n < 4294967296" using unat_less_2p [of n] by simp
  then show ?thesis
    by (simp only: be_bytes_def from_be.simps of_nat_byte_div of_nat_byte_mod four_digits) simp
qed

text \<open>The reader stands before \<open>b\<close> when its data is \<open>a @ b\<close> and its position the length of \<open>a\<close>.\<close>

definition before :: "u8 list \<Rightarrow> u8 list \<Rightarrow> ssh_reader" where
  "before a b = \<lparr>rd_data = a @ b, rd_pos = length a\<rparr>"

lemma reader_new_before: "reader_new bs = before [] bs"
  by (simp add: reader_new_def before_def)

lemma take_bytes_before: "take_bytes (length v) (before a (v @ b)) = (Inr v, before (a @ v) b)"
  by (simp add: take_bytes_def before_def get_range_def)

lemma read_u32_before: "read_u32 (before a (be_bytes n @ b)) = (Inr n, before (a @ be_bytes n) b)"
  using take_bytes_before [of "be_bytes n" a b] by (simp add: read_u32_def bindS_def)

lemma read_string_before:
  assumes "length v < 4294967296"
  shows "read_string (before a (put_string v @ b)) = (Inr v, before (a @ put_string v) b)"
proof -
  have "unat (of_nat (length v) :: u32) = length v" using assms by (intro unat_of_nat_small) simp
  then show ?thesis
    using read_u32_before [of a "of_nat (length v)" "v @ b"] take_bytes_before [of v "a @ be_bytes (of_nat (length v))" b]
    by (simp add: read_string_def put_string_def bindS_def)
qed

lemma read_text_before:
  assumes "text_ok s" and "tlen s < 4294967296"
  shows "read_text (before a (put_string (as_bytes s) @ b)) = (Inr s, before (a @ put_string (as_bytes s)) b)"
  using read_string_before [of "as_bytes s" a b] assms
  by (simp add: read_text_def bindS_def decode_as_bytes)

text \<open>What \<open>put_string\<close> wrote is read back, whatever was written before and follows: the bytes, the
  text, and the names of a list of names without commas.\<close>

theorem ssh_string_roundtrip:
  assumes "length v < 4294967296" and "text_ok (join_with 44 names)" and "tlen (join_with 44 names) < 4294967296"
    and "names = [] \<or> join_with 44 names \<noteq> []" and "\<forall>x \<in> set names. 44 \<notin> set x"
  shows "parse_body (bindS read_string (\<lambda>x. bindS read_name_list (\<lambda>xs. bindS read_u32 (\<lambda>n.
      bindS read_finish (\<lambda>_. retS (x, xs, n))))))
      (put_string v @ put_string (as_bytes (join_with 44 names)) @ be_bytes k) = Inr (v, names, k)"
proof -
  have split: "(if join_with 44 names = [] then [] else split_on 44 (join_with 44 names)) = names"
    using assms(4,5) by (cases "names = []") (auto simp: split_join)
  show ?thesis
    using read_string_before [OF assms(1), of "[]"]
      read_text_before [OF assms(2,3), of "put_string v" "be_bytes k"]
      read_u32_before [of "put_string v @ put_string (as_bytes (join_with 44 names))" k "[]"] split
    by (simp add: parse_body_def reader_new_before bindS_def read_name_list_def read_finish_def before_def [of _ "[]"])
qed

theorem ssh_string_roundtrip_witness:
  "parse_body (bindS read_string (\<lambda>x. bindS read_name_list (\<lambda>xs. bindS read_u32 (\<lambda>n.
      bindS read_finish (\<lambda>_. retS (x, xs, n))))))
      (put_string [1, 2] @ put_string (as_bytes [97, 44, 98]) @ be_bytes 7) = Inr ([1, 2], [[97], [98]], 7)"
  using ssh_string_roundtrip [of "[1, 2]" "[[97], [98]]" 7] by (simp add: is_scalar_def len_utf8_def)

end
