(* ===== verification/Xsh_Ssh_Transport.thy ===== *)
theory Xsh_Ssh_Transport
  imports Xsh_Ssh_Wire
begin

text \<open>
  The transport of the SSH client (\<open>Transport\<close> of \<open>crates/xsh-ssh/src/wire.rs\<close>): its deadlines, its
  waits, and packets in and out. The socket, the clock and the caller's cancellation are the operations
  of the record \<open>ports\<close> on a world \<open>'w\<close>; the codec of packets is the crate \<open>oxish_proto\<close>, on states \<open>'r\<close>
  for reading and \<open>'o\<close> for writing. Times are nanoseconds. A loop that waits for the peer takes fuel.
\<close>

datatype stop = Fail ssh_error | Out_Of_Fuel

datatype message_type =
    Disconnect_m | Ignore_m | Unimplemented_m | Debug_m
  | Kex_Init_m | New_Keys_m | Ecdh_Init_m | Ecdh_Reply_m
  | Global_Request_m | Request_Success_m | Request_Failure_m
  | Channel_Open_m | Open_Confirmation_m | Open_Failure_m | Window_Adjust_m | Data_m | Extended_Data_m
  | Eof_m | Close_m | Channel_Request_m | Channel_Success_m | Channel_Failure_m
  | Other_m u8

record packet =
  message_type :: message_type
  payload :: "u8 list"

datatype io_kind = Would_Block | Interrupted_call | Deadline_passed | Other_kind

record io_failure =
  io_kind :: io_kind
  io_text :: text_str

text \<open>\<open>ProtoError\<close>, with the text its \<open>Display\<close> writes.\<close>

datatype codec_error = Incomplete_packet text_str | Codec_failed text_str

fun codec_text :: "codec_error \<Rightarrow> text_str" where
  "codec_text (Incomplete_packet t) = t"
| "codec_text (Codec_failed t) = t"

record poll_events =
  ev_in :: bool
  ev_hup :: bool
  ev_err :: bool
  ev_nval :: bool

text \<open>\<open>type_byte\<close>, \<open>type_name\<close> and \<open>quoted\<close> are the number of a message type and the texts \<open>Debug\<close> writes.
  A poll answers with \<open>None\<close> when no descriptor is ready.\<close>

record ('w, 'r, 'o) ports =
  type_byte :: "message_type \<Rightarrow> u8"
  type_name :: "message_type \<Rightarrow> text_str"
  quoted :: "text_str \<Rightarrow> text_str"
  clock :: "'w \<Rightarrow> nat \<times> 'w"
  interrupts :: "'w \<Rightarrow> bool \<times> 'w"
  socket_read :: "nat \<Rightarrow> 'w \<Rightarrow> (io_failure + u8 list) \<times> 'w"
  socket_write :: "u8 list \<Rightarrow> 'w \<Rightarrow> (io_failure + nat) \<times> 'w"
  socket_poll :: "bool \<Rightarrow> bool \<Rightarrow> bool \<Rightarrow> nat \<Rightarrow> 'w \<Rightarrow> (io_failure + poll_events option) \<times> 'w"
  socket_error :: "'w \<Rightarrow> text_str option \<times> 'w"
  socket_shutdown :: "'w \<Rightarrow> 'w"
  extend_input :: "u8 list \<Rightarrow> 'r \<Rightarrow> 'r"
  input_length :: "'r \<Rightarrow> nat"
  poll_packet :: "'r \<Rightarrow> (codec_error + (nat \<times> nat) option) \<times> 'r"
  decode_packet :: "nat \<Rightarrow> nat \<Rightarrow> 'r \<Rightarrow> (codec_error + packet) \<times> 'r"
  encode_packet :: "u8 list \<Rightarrow> 'o \<Rightarrow> (codec_error + unit) \<times> 'o"
  append_raw :: "u8 list \<Rightarrow> 'o \<Rightarrow> 'o"
  buffered :: "'o \<Rightarrow> u8 list"
  note_written :: "nat \<Rightarrow> 'o \<Rightarrow> (io_failure + unit) \<times> 'o"

record ('w, 'r, 'o) transport =
  world :: 'w
  reading :: 'r
  writing :: 'o
  client_id :: "u8 list"
  server_id :: "u8 list"
  certainty_now :: certainty
  idle :: nat
  deadline :: "nat option"
  interruptible :: bool
  last_progress :: nat
  write_progress :: nat
  kex_bytes :: u64
  kex_packets :: u64
  kex_started :: nat
  awaiting_command :: bool
  peer_closed :: bool

section \<open>Access to the state\<close>

definition askS :: "('s \<Rightarrow> 'a) \<Rightarrow> ('s, 'e, 'a) op" where
  "askS f s = (Inr (f s), s)"

definition failE :: "ssh_error \<Rightarrow> ('s, stop, 'a) op" where
  "failE e = failS (Fail e)"

definition liftE :: "ssh_error + 'a \<Rightarrow> ('s, stop, 'a) op" where
  "liftE r = (case r of Inl e \<Rightarrow> failE e | Inr a \<Rightarrow> retS a)"

type_synonym ('w, 'r, 'o, 'z, 'a) transporting = "(('w, 'r, 'o, 'z) transport_scheme, stop, 'a) op"

definition on_world :: "('w \<Rightarrow> 'a \<times> 'w) \<Rightarrow> ('w, 'r, 'o, 'z, 'a) transporting" where
  "on_world f s = (case f (world s) of (a, w) \<Rightarrow> (Inr a, s\<lparr>world := w\<rparr>))"

definition on_reading :: "('r \<Rightarrow> 'a \<times> 'r) \<Rightarrow> ('w, 'r, 'o, 'z, 'a) transporting" where
  "on_reading f s = (case f (reading s) of (a, r) \<Rightarrow> (Inr a, s\<lparr>reading := r\<rparr>))"

definition on_writing :: "('o \<Rightarrow> 'a \<times> 'o) \<Rightarrow> ('w, 'r, 'o, 'z, 'a) transporting" where
  "on_writing f s = (case f (writing s) of (a, w) \<Rightarrow> (Inr a, s\<lparr>writing := w\<rparr>))"

definition now :: "('w, 'r, 'o) ports \<Rightarrow> ('w, 'r, 'o, 'z, nat) transporting" where
  "now h = on_world (clock h)"

section \<open>Certainty and failures\<close>

text \<open>\<open>attribute\<close>: a failure of the transport after the request was submitted says so.\<close>

definition attributed :: "certainty \<Rightarrow> ssh_error \<Rightarrow> ssh_error" where
  "attributed c e =
     (case (c, e) of (Was_Submitted, Failed_Before t) \<Rightarrow> Failed_After t | _ \<Rightarrow> e)"

definition fail_transport :: "text_str \<Rightarrow> ('w, 'r, 'o, 'z, 'a) transporting" where
  "fail_transport t = bindS (askS certainty_now) (\<lambda>c. failE (attributed c (Failed_Before t)))"

definition fail_io :: "io_failure \<Rightarrow> ('w, 'r, 'o, 'z, 'a) transporting" where
  "fail_io e =
     (if io_kind e = Deadline_passed then bindS (askS certainty_now) (\<lambda>c. failE (Timed_Out c))
      else fail_transport (io_text e))"

definition mark_submitted :: "('w, 'r, 'o, 'z, unit) transporting" where
  "mark_submitted = updS (\<lambda>s. s\<lparr>certainty_now := Was_Submitted\<rparr>)"

section \<open>Bounds of an operation\<close>

definition begin_operation ::
  "('w, 'r, 'o) ports \<Rightarrow> nat option \<Rightarrow> bool \<Rightarrow> ('w, 'r, 'o, 'z, unit) transporting" where
  "begin_operation h timeout can_interrupt =
     bindS (case timeout of None \<Rightarrow> retS None | Some d \<Rightarrow> bindS (now h) (\<lambda>t. retS (Some (t + d)))) (\<lambda>limit.
     bindS (now h) (\<lambda>progress. bindS (now h) (\<lambda>written.
       updS (\<lambda>s. s\<lparr>deadline := limit, interruptible := can_interrupt, last_progress := progress,
         write_progress := written, certainty_now := Not_Submitted, awaiting_command := False\<rparr>))))"

definition bound_phase :: "('w, 'r, 'o) ports \<Rightarrow> nat \<Rightarrow> ('w, 'r, 'o, 'z, nat option) transporting" where
  "bound_phase h limit =
     bindS (askS deadline) (\<lambda>previous. bindS (now h) (\<lambda>t.
     bindS (updS (\<lambda>s. s\<lparr>deadline :=
         Some (case previous of None \<Rightarrow> t + limit | Some d \<Rightarrow> min d (t + limit))\<rparr>)) (\<lambda>_.
       retS previous)))"

definition restore_deadline :: "nat option \<Rightarrow> ('w, 'r, 'o, 'z, unit) transporting" where
  "restore_deadline previous = updS (\<lambda>s. s\<lparr>deadline := previous\<rparr>)"

definition end_operation :: "('w, 'r, 'o, 'z, unit) transporting" where
  "end_operation = updS (\<lambda>s. s\<lparr>deadline := None, interruptible := False, awaiting_command := False\<rparr>)"

definition await_command :: "('w, 'r, 'o, 'z, unit) transporting" where
  "await_command = updS (\<lambda>s. s\<lparr>awaiting_command := True\<rparr>)"

definition has_pending_output :: "('w, 'r, 'o) ports \<Rightarrow> ('w, 'r, 'o, 'z) transport_scheme \<Rightarrow> bool" where
  "has_pending_output h s \<longleftrightarrow> buffered h (writing s) \<noteq> []"

definition pending_output :: "('w, 'r, 'o) ports \<Rightarrow> ('w, 'r, 'o, 'z) transport_scheme \<Rightarrow> nat" where
  "pending_output h s = length (buffered h (writing s))"

definition idle_bound :: "('w, 'r, 'o) ports \<Rightarrow> ('w, 'r, 'o, 'z) transport_scheme \<Rightarrow> bool" where
  "idle_bound h s \<longleftrightarrow> \<not> awaiting_command s \<or> has_pending_output h s"

definition over_limit :: "('w, 'r, 'o) ports \<Rightarrow> nat \<Rightarrow> ('w, 'r, 'o, 'z) transport_scheme \<Rightarrow> bool" where
  "over_limit h t s \<longleftrightarrow>
     (case deadline s of None \<Rightarrow> False | Some d \<Rightarrow> d \<le> t) \<or>
     has_pending_output h s \<and> idle s \<le> t - write_progress s \<or>
     idle_bound h s \<and> idle s \<le> t - last_progress s"

definition is_interrupted :: "('w, 'r, 'o) ports \<Rightarrow> ('w, 'r, 'o, 'z, bool) transporting" where
  "is_interrupted h =
     bindS (askS interruptible) (\<lambda>can. if can then on_world (interrupts h) else retS False)"

text \<open>\<open>limit_error\<close>, with the failure raised as \<open>check\<close> does.\<close>

definition check_limits :: "('w, 'r, 'o) ports \<Rightarrow> ('w, 'r, 'o, 'z, unit) transporting" where
  "check_limits h =
     bindS (is_interrupted h) (\<lambda>stopped. bindS (askS certainty_now) (\<lambda>c.
       if stopped then failE (Was_Cancelled c)
       else
         bindS (now h) (\<lambda>t. bindS (askS (over_limit h t)) (\<lambda>over.
           if over then failE (Timed_Out c) else retS ()))))"

definition INTERRUPT_POLL :: nat where
  "INTERRUPT_POLL = 50000000"

text \<open>How long one poll may wait.\<close>

definition poll_time :: "('w, 'r, 'o) ports \<Rightarrow> nat \<Rightarrow> ('w, 'r, 'o, 'z) transport_scheme \<Rightarrow> nat" where
  "poll_time h t s =
     (let a = (if interruptible s then INTERRUPT_POLL else 1000000000);
          b = (case deadline s of None \<Rightarrow> a | Some d \<Rightarrow> min a (d - t));
          c = (if idle_bound h s then min b (last_progress s + idle s - t) else b)
      in if has_pending_output h s then min c (write_progress s + idle s - t) else c)"

definition reports_socket_failure :: "poll_events \<Rightarrow> bool" where
  "reports_socket_failure ev \<longleftrightarrow> ev_err ev \<or> ev_nval ev"

fun wait_for ::
  "('w, 'r, 'o) ports \<Rightarrow> nat \<Rightarrow> bool \<Rightarrow> bool \<Rightarrow> bool \<Rightarrow> ('w, 'r, 'o, 'z, poll_events) transporting" where
  "wait_for h 0 for_read for_write input = failS Out_Of_Fuel"
| "wait_for h (Suc n) for_read for_write input =
     bindS (check_limits h) (\<lambda>_. bindS (now h) (\<lambda>t. bindS (askS (poll_time h t)) (\<lambda>remaining.
     bindS (on_world (socket_poll h for_read for_write input remaining)) (\<lambda>r.
       case r of
         Inl e \<Rightarrow>
           if io_kind e = Interrupted_call then wait_for h n for_read for_write input
           else fail_transport (io_text e)
       | Inr None \<Rightarrow> wait_for h n for_read for_write input
       | Inr (Some ev) \<Rightarrow>
           if reports_socket_failure ev
           then bindS (on_world (socket_error h)) (\<lambda>found.
                  fail_transport (case found of Some t \<Rightarrow> t | None \<Rightarrow> text_of ''socket error''))
           else retS ev))))"

section \<open>Reading\<close>

definition fill_nonblocking :: "('w, 'r, 'o) ports \<Rightarrow> ('w, 'r, 'o, 'z, bool) transporting" where
  "fill_nonblocking h =
     bindS (on_world (socket_read h 16384)) (\<lambda>r.
       case r of
         Inl e \<Rightarrow> if io_kind e \<in> {Would_Block, Interrupted_call} then retS False else fail_io e
       | Inr [] \<Rightarrow>
           bindS (updS (\<lambda>s. s\<lparr>peer_closed := True\<rparr>)) (\<lambda>_. fail_transport (text_of ''connection closed''))
       | Inr bs \<Rightarrow>
           bindS (updS (\<lambda>s. s\<lparr>reading := extend_input h bs (reading s)\<rparr>)) (\<lambda>_. bindS (now h) (\<lambda>t.
           bindS (updS (\<lambda>s. s\<lparr>last_progress := t, kex_bytes := kex_bytes s + of_nat (length bs)\<rparr>)) (\<lambda>_.
             retS True))))"

definition fail_codec :: "codec_error \<Rightarrow> ('w, 'r, 'o, 'z, 'a) transporting" where
  "fail_codec e = failE (Protocol_Violated (codec_text e))"

definition try_recv :: "('w, 'r, 'o) ports \<Rightarrow> ('w, 'r, 'o, 'z, packet option) transporting" where
  "try_recv h =
     bindS (on_reading (poll_packet h)) (\<lambda>r.
       case r of
         Inl (Incomplete_packet t) \<Rightarrow> retS None
       | Inl e \<Rightarrow> fail_codec e
       | Inr None \<Rightarrow> retS None
       | Inr (Some (sequence, len)) \<Rightarrow>
           bindS (on_reading (decode_packet h sequence len)) (\<lambda>r.
             case r of
               Inl e \<Rightarrow> fail_codec e
             | Inr p \<Rightarrow>
                 bindS (updS (\<lambda>s. s\<lparr>kex_packets := kex_packets s + 1\<rparr>)) (\<lambda>_. retS (Some p))))"

section \<open>Writing\<close>

definition note_enqueue :: "('w, 'r, 'o) ports \<Rightarrow> ('w, 'r, 'o, 'z, unit) transporting" where
  "note_enqueue h =
     bindS (askS (has_pending_output h)) (\<lambda>has.
       if has then retS () else bindS (now h) (\<lambda>t. updS (\<lambda>s. s\<lparr>write_progress := t\<rparr>)))"

definition encode_raw :: "('w, 'r, 'o) ports \<Rightarrow> u8 list \<Rightarrow> ('w, 'r, 'o, 'z, unit) transporting" where
  "encode_raw h bs =
     bindS (note_enqueue h) (\<lambda>_. bindS (on_writing (encode_packet h bs)) (\<lambda>r.
       case r of
         Inl e \<Rightarrow> fail_codec e
       | Inr u \<Rightarrow> updS (\<lambda>s. s\<lparr>kex_packets := kex_packets s + 1\<rparr>)))"

fun flush_nonblocking :: "('w, 'r, 'o) ports \<Rightarrow> nat \<Rightarrow> ('w, 'r, 'o, 'z, bool) transporting" where
  "flush_nonblocking h 0 = failS Out_Of_Fuel"
| "flush_nonblocking h (Suc n) =
     bindS (askS (\<lambda>s. buffered h (writing s))) (\<lambda>out.
       if out = [] then retS True
       else
         bindS (on_world (socket_write h out)) (\<lambda>r.
           case r of
             Inl e \<Rightarrow>
               if io_kind e = Would_Block then retS False
               else if io_kind e = Interrupted_call then flush_nonblocking h n
               else fail_io e
           | Inr k \<Rightarrow>
               if k = 0 then fail_transport (text_of ''write returned zero'')
               else
                 bindS (now h) (\<lambda>t.
                 bindS (updS (\<lambda>s. s\<lparr>last_progress := t, write_progress := t,
                     kex_bytes := kex_bytes s + of_nat k\<rparr>)) (\<lambda>_.
                 bindS (on_writing (note_written h k)) (\<lambda>r.
                   case r of Inl e \<Rightarrow> fail_io e | Inr u \<Rightarrow> flush_nonblocking h n)))))"

definition READ_BUFFER_LIMIT :: nat where
  "READ_BUFFER_LIMIT = 262144"

definition REPLY_HIGH_WATER :: nat where
  "REPLY_HIGH_WATER = 65536"

fun flush_output :: "('w, 'r, 'o) ports \<Rightarrow> nat \<Rightarrow> ('w, 'r, 'o, 'z, unit) transporting" where
  "flush_output h 0 = failS Out_Of_Fuel"
| "flush_output h (Suc n) =
     bindS (flush_nonblocking h n) (\<lambda>flushed.
       if flushed then retS ()
       else
         bindS (askS (\<lambda>s. input_length h (reading s) < READ_BUFFER_LIMIT)) (\<lambda>can_read.
         bindS (wait_for h n can_read True False) (\<lambda>ev.
         bindS (if can_read \<and> ev_in ev then fill_nonblocking h else retS False) (\<lambda>_.
           flush_output h n))))"

fun drain_output :: "('w, 'r, 'o) ports \<Rightarrow> nat \<Rightarrow> ('w, 'r, 'o, 'z, unit) transporting" where
  "drain_output h 0 = failS Out_Of_Fuel"
| "drain_output h (Suc n) =
     bindS (flush_nonblocking h n) (\<lambda>flushed.
       if flushed then retS ()
       else bindS (wait_for h n False True False) (\<lambda>_. drain_output h n))"

definition reply :: "('w, 'r, 'o) ports \<Rightarrow> nat \<Rightarrow> u8 list \<Rightarrow> ('w, 'r, 'o, 'z, unit) transporting" where
  "reply h n bs =
     bindS (encode_raw h bs) (\<lambda>_. bindS (askS (pending_output h)) (\<lambda>k.
       if REPLY_HIGH_WATER \<le> k then drain_output h n else retS ()))"

definition send_raw :: "('w, 'r, 'o) ports \<Rightarrow> nat \<Rightarrow> u8 list \<Rightarrow> ('w, 'r, 'o, 'z, unit) transporting" where
  "send_raw h n bs = bindS (encode_raw h bs) (\<lambda>_. flush_output h n)"

fun recv :: "('w, 'r, 'o) ports \<Rightarrow> nat \<Rightarrow> ('w, 'r, 'o, 'z, packet) transporting" where
  "recv h 0 = failS Out_Of_Fuel"
| "recv h (Suc n) =
     bindS (try_recv h) (\<lambda>found.
       case found of
         Some p \<Rightarrow> retS p
       | None \<Rightarrow>
           bindS (flush_nonblocking h n) (\<lambda>flushed.
           bindS (wait_for h n True (\<not> flushed) False) (\<lambda>_.
           bindS (fill_nonblocking h) (\<lambda>_. recv h n))))"

definition shutdown :: "('w, 'r, 'o) ports \<Rightarrow> ('w, 'r, 'o, 'z, unit) transporting" where
  "shutdown h = updS (\<lambda>s. s\<lparr>world := socket_shutdown h (world s)\<rparr>)"

text \<open>Bytes, packets and time under the current keys.\<close>

definition kex_usage :: "('w, 'r, 'o) ports \<Rightarrow> ('w, 'r, 'o, 'z, u64 \<times> u64 \<times> nat) transporting" where
  "kex_usage h =
     bindS (now h) (\<lambda>t. askS (\<lambda>s. (kex_bytes s, kex_packets s, t - kex_started s)))"

section \<open>Identification\<close>

fun read_byte :: "('w, 'r, 'o) ports \<Rightarrow> nat \<Rightarrow> ('w, 'r, 'o, 'z, u8) transporting" where
  "read_byte h 0 = failS Out_Of_Fuel"
| "read_byte h (Suc n) =
     bindS (on_world (socket_read h 1)) (\<lambda>r.
       case r of
         Inl e \<Rightarrow>
           if io_kind e \<in> {Would_Block, Interrupted_call}
           then bindS (wait_for h n True False False) (\<lambda>_. read_byte h n)
           else fail_io e
       | Inr [] \<Rightarrow> fail_transport (text_of ''connection closed'')
       | Inr (b # _) \<Rightarrow>
           bindS (now h) (\<lambda>t. bindS (updS (\<lambda>s. s\<lparr>last_progress := t\<rparr>)) (\<lambda>_. retS b)))"

definition ends_line :: "u8 list \<Rightarrow> bool" where
  "ends_line bs \<longleftrightarrow> 2 \<le> length bs \<and> drop (length bs - 2) bs = [13, 10]"

text \<open>The line is at most 257 bytes long, so the loop is over the bytes it may still have.\<close>

fun identification_loop ::
  "('w, 'r, 'o) ports \<Rightarrow> nat \<Rightarrow> nat \<Rightarrow> u8 list \<Rightarrow> ('w, 'r, 'o, 'z, u8 list) transporting" where
  "identification_loop h n left_over line =
     (if ends_line line then retS line
      else
        bindS (read_byte h n) (\<lambda>b.
          case left_over of
            0 \<Rightarrow> failE (protocol_error ''identification line too long'')
          | Suc k \<Rightarrow> identification_loop h n k (line @ [b])))"

definition exchange_identifications ::
  "('w, 'r, 'o) ports \<Rightarrow> nat \<Rightarrow> string \<Rightarrow> ('w, 'r, 'o, 'z, unit) transporting" where
  "exchange_identifications h n software =
     (let client = bytes_of (''SSH-2.0-'' @ software) in
      bindS (note_enqueue h) (\<lambda>_.
      bindS (updS (\<lambda>s. s\<lparr>writing := append_raw h [13, 10] (append_raw h client (writing s))\<rparr>)) (\<lambda>_.
      bindS (flush_output h n) (\<lambda>_.
      bindS (updS (\<lambda>s. s\<lparr>client_id := client\<rparr>)) (\<lambda>_.
      bindS (identification_loop h n 257 []) (\<lambda>line.
        (let line = take (length line - 2) line in
         case decode_utf8 line of
           None \<Rightarrow> failE (protocol_error ''identification is not UTF-8'')
         | Some t \<Rightarrow>
             if take 8 t \<noteq> text_of ''SSH-2.0-''
             then failE (Protocol_Violated (text_of ''unsupported SSH identification '' @ quoted h t))
             else updS (\<lambda>s. s\<lparr>server_id := line\<rparr>))))))))"

end
