(* ===== verification/Xsh_Known_Hosts.thy ===== *)
theory Xsh_Known_Hosts
  imports Xsh_Ssh_Wire
begin

text \<open>
  Which host keys the SSH client trusts (\<open>crates/xsh-ssh/src/known_hosts.rs\<close> and \<open>HostTrust\<close> of
  \<open>host_key.rs\<close>): the file of known hosts, its patterns, and the verdict on a key. Base 64, which a
  crate decodes, is the parameter \<open>decode64\<close>; the loop of the wildcards terminates by a measure on the
  position of the last star.
\<close>

section \<open>Texts\<close>

definition strip_return :: "text_str \<Rightarrow> text_str" where
  "strip_return s = (if s \<noteq> [] \<and> last s = 13 then butlast s else s)"

text \<open>\<open>str::lines\<close>: the carriage return goes only with the line feed after it.\<close>

definition text_lines :: "text_str \<Rightarrow> text_str list" where
  "text_lines s =
     (let ps = split_on 10 s
      in map strip_return (butlast ps) @ (if last ps = [] then [] else [last ps]))"

definition trim :: "text_str \<Rightarrow> text_str" where
  "trim s = rev (dropWhile is_whitespace (rev (dropWhile is_whitespace s)))"

text \<open>\<open>str::split_whitespace\<close>.\<close>

function words :: "text_str \<Rightarrow> text_str list" where
  "words s =
     (case dropWhile is_whitespace s of
        [] \<Rightarrow> []
      | c # r \<Rightarrow>
          (c # takeWhile (\<lambda>c. \<not> is_whitespace c) r) # words (dropWhile (\<lambda>c. \<not> is_whitespace c) r))"
  by pat_completeness auto
termination
proof (relation "measure length")
  fix s c r
  assume "dropWhile is_whitespace s = c # r"
  then have "length r < length s" using length_dropWhile_le [of is_whitespace s] by simp
  then show "(dropWhile (\<lambda>c. \<not> is_whitespace c) r, s) \<in> measure length"
    using length_dropWhile_le [of "\<lambda>c. \<not> is_whitespace c" r] by simp
qed simp

declare words.simps [simp del]

definition lower :: "nat \<Rightarrow> nat" where
  "lower c = (if 65 \<le> c \<and> c \<le> 90 then c + 32 else c)"

definition to_ascii_lowercase :: "text_str \<Rightarrow> text_str" where
  "to_ascii_lowercase s = map lower s"

section \<open>The file\<close>

record host_entry =
  revoked :: bool
  patterns :: "text_str list"
  key_blob :: "u8 list"

datatype verdict = Trusted | Revoked_key | Changed | Unknown_host

definition line_text_of :: "nat \<Rightarrow> string \<Rightarrow> text_str" where
  "line_text_of n detail =
     text_of ''known_hosts line '' @ text_of (show_nat n) @ text_of '': '' @ text_of detail"

definition invalid_line :: "nat \<Rightarrow> string \<Rightarrow> ssh_error" where
  "invalid_line n detail = Invalid_Trust (line_text_of n detail)"

definition unsupported_line :: "nat \<Rightarrow> string \<Rightarrow> ssh_error" where
  "unsupported_line n detail = Unsupported_Trust (line_text_of n detail)"

text \<open>The type a key blob declares.\<close>

definition declared_type :: "u8 list \<Rightarrow> u8 list option" where
  "declared_type blob =
     (if length blob < 4 then None
      else get_range 0 (unat (from_be (take 4 blob))) (drop 4 blob))"

definition next_field :: "nat \<Rightarrow> string \<Rightarrow> text_str list \<Rightarrow> ssh_error + text_str \<times> text_str list" where
  "next_field n detail parts =
     (case parts of [] \<Rightarrow> Inl (invalid_line n detail) | f # rest \<Rightarrow> Inr (f, rest))"

text \<open>The marker of a line, if it has one, and the parts from the host names on.\<close>

definition line_marker :: "nat \<Rightarrow> text_str list \<Rightarrow> ssh_error + bool \<times> text_str \<times> text_str list" where
  "line_marker n parts =
     bindE (next_field n ''empty entry'' parts) (\<lambda>(f, rest).
       if take 1 f = text_of ''@''
       then bindE (if f = text_of ''@revoked'' then Inr True
                   else if f = text_of ''@cert-authority''
                   then Inl (unsupported_line n ''certificate authorities are not supported'')
                   else Inl (invalid_line n ''unknown marker'')) (\<lambda>is_revoked.
            bindE (next_field n ''marker without a host'' rest) (\<lambda>(f, rest). Inr (is_revoked, f, rest)))
       else Inr (False, f, rest))"

definition parse_line :: "(u8 list \<Rightarrow> u8 list option) \<Rightarrow> nat \<Rightarrow> text_str \<Rightarrow> ssh_error + host_entry" where
  "parse_line decode64 n line =
     bindE (line_marker n (words line)) (\<lambda>(is_revoked, hosts, parts).
     if take 1 hosts = text_of ''|'' then Inl (unsupported_line n ''hashed host names are not supported'')
     else
       bindE (next_field n ''missing key type'' parts) (\<lambda>(key_type, parts).
       bindE (next_field n ''missing key'' parts) (\<lambda>(encoded, parts).
       bindE (ok_or (decode64 (as_bytes encoded)) (invalid_line n ''key is not base64'')) (\<lambda>blob.
       bindE (ok_or (declared_type blob) (invalid_line n ''key blob is truncated'')) (\<lambda>declared.
       if declared \<noteq> as_bytes key_type then Inl (invalid_line n ''key type differs from the key blob'')
       else
         (let ps = map to_ascii_lowercase (split_on 44 hosts)
          in if [] \<in> set ps \<or> text_of ''!'' \<in> set ps then Inl (invalid_line n ''empty host pattern'')
             else Inr \<lparr>revoked = is_revoked, patterns = ps, key_blob = blob\<rparr>))))))"

definition is_entry_line :: "text_str \<Rightarrow> bool" where
  "is_entry_line line \<longleftrightarrow> line \<noteq> [] \<and> take 1 line \<noteq> text_of ''#''"

fun parse_lines ::
  "(u8 list \<Rightarrow> u8 list option) \<Rightarrow> nat \<Rightarrow> text_str list \<Rightarrow> ssh_error + host_entry list" where
  "parse_lines decode64 n [] = Inr []"
| "parse_lines decode64 n (line # rest) =
     (if is_entry_line (trim line)
      then bindE (parse_line decode64 n (trim line)) (\<lambda>e.
             bindE (parse_lines decode64 (n + 1) rest) (\<lambda>es. Inr (e # es)))
      else parse_lines decode64 (n + 1) rest)"

definition parse_known_hosts :: "(u8 list \<Rightarrow> u8 list option) \<Rightarrow> text_str \<Rightarrow> ssh_error + host_entry list" where
  "parse_known_hosts decode64 s = parse_lines decode64 1 (text_lines s)"

section \<open>Patterns\<close>

text \<open>The loop: positions in the pattern and in the name, and the last star with the position in the
  name it was tried at.\<close>

function glob_loop :: "u8 list \<Rightarrow> u8 list \<Rightarrow> nat \<Rightarrow> nat \<Rightarrow> (nat \<times> nat) option \<Rightarrow> bool" where
  "glob_loop pat nm p n backtrack =
     (if n < length nm
      then
        (if p < length pat \<and> (pat ! p = 63 \<or> pat ! p = nm ! n) then glob_loop pat nm (p + 1) (n + 1) backtrack
         else if p < length pat \<and> pat ! p = 42 then glob_loop pat nm (p + 1) n (Some (p, n))
         else
           (case backtrack of
              Some (star, matched) \<Rightarrow> glob_loop pat nm (star + 1) (matched + 1) (Some (star, matched + 1))
            | None \<Rightarrow> False))
      else list_all (\<lambda>b. b = 42) (drop p pat))"
  by pat_completeness auto
termination
  by (relation "measures
      [\<lambda>(pat, nm, p, n, bt). (case bt of None \<Rightarrow> length nm + 2 | Some (s, m) \<Rightarrow> length nm + 1 - min m n),
       \<lambda>(pat, nm, p, n, bt). length pat - p]")
    (auto simp: min_def split: option.splits if_splits)

declare glob_loop.simps [simp del]

definition glob :: "text_str \<Rightarrow> text_str \<Rightarrow> bool" where
  "glob pattern nm = glob_loop (as_bytes pattern) (as_bytes nm) 0 0 None"

fun matches_from :: "text_str list \<Rightarrow> text_str \<Rightarrow> bool \<Rightarrow> bool" where
  "matches_from [] nm matched = matched"
| "matches_from (p # ps) nm matched =
     (if take 1 p = text_of ''!''
      then if glob (drop 1 p) nm then False else matches_from ps nm matched
      else matches_from ps nm (matched \<or> glob p nm))"

definition entry_matches :: "host_entry \<Rightarrow> text_str \<Rightarrow> bool" where
  "entry_matches e nm = matches_from (patterns e) nm False"

section \<open>Verdicts\<close>

definition endpoint_name :: "text_str \<Rightarrow> u16 \<Rightarrow> text_str" where
  "endpoint_name host port =
     (if port = 22 then to_ascii_lowercase host
      else text_of ''['' @ to_ascii_lowercase host @ text_of '']:'' @ text_of (show_nat (unat port)))"

fun judge_loop :: "u8 list \<Rightarrow> host_entry list \<Rightarrow> bool \<Rightarrow> bool \<Rightarrow> verdict" where
  "judge_loop blob [] trusted named =
     (if trusted then Trusted else if named then Changed else Unknown_host)"
| "judge_loop blob (e # es) trusted named =
     (if key_blob e = blob
      then if revoked e then Revoked_key else judge_loop blob es True named
      else judge_loop blob es trusted (named \<or> \<not> revoked e))"

definition judge :: "host_entry list \<Rightarrow> text_str \<Rightarrow> u16 \<Rightarrow> u8 list \<Rightarrow> verdict" where
  "judge entries host port blob =
     judge_loop blob (filter (\<lambda>e. entry_matches e (endpoint_name host port)) entries) False False"

datatype host_trust = Pinned text_str | Known_Hosts "host_entry list"

definition trust_verify :: "host_trust \<Rightarrow> text_str \<Rightarrow> u16 \<Rightarrow> u8 list \<Rightarrow> text_str \<Rightarrow> ssh_error + unit" where
  "trust_verify trust host port blob fp =
     (case trust of
        Pinned pin \<Rightarrow> if pin = fp then Inr () else Inl (Host_Key_Mismatch pin fp)
      | Known_Hosts entries \<Rightarrow>
          (case judge entries host port blob of
             Trusted \<Rightarrow> Inr ()
           | Revoked_key \<Rightarrow> Inl (Revoked_Host_Key fp)
           | Changed \<Rightarrow> Inl (Host_Key_Mismatch (text_of ''a key listed for '' @ host) fp)
           | Unknown_host \<Rightarrow> Inl (Unknown_Host_Key host fp)))"

text \<open>\<open>Fingerprint::parse\<close>, over the decoder and the encoder of unpadded base 64.\<close>

definition fingerprint_parse ::
  "(u8 list \<Rightarrow> u8 list option) \<Rightarrow> (u8 list \<Rightarrow> text_str) \<Rightarrow> text_str \<Rightarrow> ssh_error + text_str" where
  "fingerprint_parse decode_nopad encode_nopad s =
     (let v = trim s; prefix = text_of ''SHA256:'' in
      if take (length prefix) v \<noteq> prefix
      then Inl (Invalid_Fingerprint (text_of ''fingerprint must start with SHA256:''))
      else
        bindE (ok_or (decode_nopad (as_bytes (drop (length prefix) v)))
                (Invalid_Fingerprint (text_of ''fingerprint is not unpadded base64''))) (\<lambda>digest.
          if length digest \<noteq> 32
          then Inl (Invalid_Fingerprint (text_of ''fingerprint must be a SHA-256 digest''))
          else Inr (prefix @ encode_nopad digest)))"

section \<open>What a pattern means\<close>

fun wild :: "u8 list \<Rightarrow> u8 list \<Rightarrow> bool" where
  "wild [] ns \<longleftrightarrow> ns = []"
| "wild (c # ps) [] \<longleftrightarrow> c = 42 \<and> wild ps []"
| "wild (c # ps) (x # ns) \<longleftrightarrow>
     (if c = 42 then wild ps (x # ns) \<or> wild (c # ps) ns else (c = 63 \<or> c = x) \<and> wild ps ns)"

lemma wild_all: "wild ps [] \<longleftrightarrow> list_all (\<lambda>b. b = 42) ps"
  by (induction ps) auto

lemma wild_star: "wild (42 # ps) ns \<longleftrightarrow> (\<exists>k \<le> length ns. wild ps (drop k ns))"
proof (induction ns)
  case (Cons x ns)
  have "(\<exists>k \<le> length (x # ns). wild ps (drop k (x # ns))) \<longleftrightarrow>
      wild ps (x # ns) \<or> (\<exists>k \<le> length ns. wild ps (drop k ns))"
    by (metis Suc_le_mono drop0 drop_Suc_Cons le0 length_Cons not0_implies_Suc)
  then show ?case using Cons by simp
qed simp

lemma wild_segment: "42 \<notin> set seg \<Longrightarrow> wild (seg @ ps) ns \<Longrightarrow> length seg \<le> length ns \<and> wild ps (drop (length seg) ns)"
proof (induction seg arbitrary: ns)
  case (Cons c seg)
  then show ?case by (cases ns) auto
qed simp

text \<open>Between the last star and the pattern's position the loop has matched byte for byte.\<close>

definition glob_inv :: "u8 list \<Rightarrow> nat \<Rightarrow> nat \<Rightarrow> (nat \<times> nat) option \<Rightarrow> bool" where
  "glob_inv pat p n bt \<longleftrightarrow>
     (case bt of None \<Rightarrow> True
      | Some (s, m) \<Rightarrow> s < p \<and> p \<le> length pat \<and> pat ! s = 42 \<and> m \<le> n \<and> p - Suc s = n - m \<and>
          42 \<notin> set (take (p - Suc s) (drop (Suc s) pat)))"

definition glob_alternative :: "u8 list \<Rightarrow> u8 list \<Rightarrow> (nat \<times> nat) option \<Rightarrow> bool" where
  "glob_alternative pat nm bt \<longleftrightarrow>
     (case bt of None \<Rightarrow> False | Some (s, m) \<Rightarrow> m < length nm \<and> wild (drop s pat) (drop (Suc m) nm))"

lemma alternative_segment:
  assumes "glob_inv pat p n bt" and "glob_alternative pat nm bt"
  obtains k where "n < k" "k \<le> length nm" "wild (drop p pat) (drop k nm)"
proof -
  obtain s m where bt: "bt = Some (s, m)" "s < p" "p \<le> length pat" "pat ! s = 42" "m \<le> n" "p - Suc s = n - m"
      "42 \<notin> set (take (p - Suc s) (drop (Suc s) pat))" "m < length nm" "wild (drop s pat) (drop (Suc m) nm)"
    using assms by (auto simp: glob_inv_def glob_alternative_def split: option.splits)
  let ?seg = "take (p - Suc s) (drop (Suc s) pat)"
  have "drop s pat = 42 # ?seg @ drop p pat"
    using bt(2-4) append_take_drop_id [of "p - Suc s" "drop (Suc s) pat"]
    by (simp add: Cons_nth_drop_Suc [symmetric])
  then obtain j where j: "j \<le> length (drop (Suc m) nm)" "wild (?seg @ drop p pat) (drop j (drop (Suc m) nm))"
    using bt(9) wild_star by auto
  from wild_segment [OF bt(7) j(2)]
  have "length ?seg \<le> length nm - (Suc m + j)" "wild (drop p pat) (drop (Suc m + j + length ?seg) nm)"
    by (auto simp: add.commute add.left_commute)
  moreover have "length ?seg = n - m" using bt(2,3,6) by simp
  ultimately show thesis using j(1) bt(5,8) by (intro that [of "Suc m + j + (n - m)"]) auto
qed

lemma glob_loop_wild:
  "42 \<notin> set nm \<Longrightarrow> n \<le> length nm \<Longrightarrow> glob_inv pat p n bt \<Longrightarrow>
     glob_loop pat nm p n bt \<longleftrightarrow> wild (drop p pat) (drop n nm) \<or> glob_alternative pat nm bt"
proof (induction pat nm p n bt rule: glob_loop.induct)
  case (1 pat nm p n bt)
  note free = "1.prems"(1)
  show ?case
  proof (cases "n < length nm")
    case False
    then have "\<not> glob_alternative pat nm bt"
      using alternative_segment [OF "1.prems"(3)] by fastforce
    then show ?thesis
      using False "1.prems"(2) by (subst glob_loop.simps) (simp add: wild_all)
  next
    case n: True
    have name: "drop n nm = nm ! n # drop (Suc n) nm" "nm ! n \<noteq> 42"
      using n free by (auto simp: Cons_nth_drop_Suc dest: nth_mem)
    have mismatch: ?thesis
      if no: "\<not> (p < length pat \<and> (pat ! p = 63 \<or> pat ! p = nm ! n))" "\<not> (p < length pat \<and> pat ! p = 42)"
    proof -
      have "\<not> wild (drop p pat) (drop n nm)"
        using no name by (cases "p < length pat") (auto simp: Cons_nth_drop_Suc [symmetric])
      moreover have "glob_loop pat nm p n bt \<longleftrightarrow> glob_alternative pat nm bt"
      proof (cases bt)
        case None
        then show ?thesis using n no by (subst glob_loop.simps) (auto simp: glob_alternative_def)
      next
        case (Some sm)
        obtain s m where sm: "sm = (s, m)" by (cases sm)
        have inv: "s < length pat" "pat ! s = 42" "m \<le> n"
          using "1.prems"(3) Some sm by (auto simp: glob_inv_def)
        then have "glob_inv pat (s + 1) (m + 1) (Some (s, m + 1))" by (simp add: glob_inv_def)
        then have "glob_loop pat nm p n bt \<longleftrightarrow> wild (drop (s + 1) pat) (drop (m + 1) nm) \<or>
            glob_alternative pat nm (Some (s, m + 1))"
          using "1.IH"(3) [OF n no(1) no(2) Some sm [symmetric]] n no Some sm free inv(3)
          by (subst glob_loop.simps) auto
        moreover have "drop s pat = 42 # drop (Suc s) pat"
          using inv by (simp add: Cons_nth_drop_Suc [symmetric])
        moreover have "drop (Suc m) nm = nm ! Suc m # drop (Suc (Suc m)) nm" if "Suc m < length nm"
          using that by (simp add: Cons_nth_drop_Suc)
        ultimately show ?thesis
          using Some sm n inv(3) by (cases "Suc m < length nm") (auto simp: glob_alternative_def)
      qed
      ultimately show ?thesis by simp
    qed
    show ?thesis
    proof (cases "p < length pat")
      case p: True
      have pattern: "drop p pat = pat ! p # drop (Suc p) pat" using p by (simp add: Cons_nth_drop_Suc)
      consider (char) "pat ! p = 63 \<or> pat ! p = nm ! n"
        | (star) "\<not> (pat ! p = 63 \<or> pat ! p = nm ! n)" "pat ! p = 42"
        | (other) "\<not> (pat ! p = 63 \<or> pat ! p = nm ! n)" "pat ! p \<noteq> 42" by blast
      then show ?thesis
      proof cases
        case char
        have "glob_inv pat (p + 1) (n + 1) bt"
        proof (cases bt)
          case (Some sm)
          moreover obtain s m where "sm = (s, m)" by (cases sm)
          moreover have "s < p \<Longrightarrow> take (Suc p - Suc s) (drop (Suc s) pat) = take (p - Suc s) (drop (Suc s) pat) @ [pat ! p]"
            using p take_Suc_conv_app_nth [of "p - Suc s" "drop (Suc s) pat"] by (simp add: Suc_diff_Suc)
          ultimately show ?thesis using "1.prems"(3) p char name(2) by (auto simp: glob_inv_def)
        qed (simp add: glob_inv_def)
        then show ?thesis
          using "1.IH"(1) [OF n] p n char free name pattern by (subst glob_loop.simps) auto
      next
        case star
        have "glob_inv pat (p + 1) n (Some (p, n))" using p star(2) by (simp add: glob_inv_def)
        then have "glob_loop pat nm p n bt \<longleftrightarrow> wild (drop p pat) (drop n nm)"
          using "1.IH"(2) [OF n] p n star free name pattern
          by (subst glob_loop.simps) (auto simp: glob_alternative_def)
        moreover have "wild (drop p pat) (drop n nm)" if alt: "glob_alternative pat nm bt"
        proof -
          obtain k where k: "n < k" "k \<le> length nm" "wild (drop p pat) (drop k nm)"
            using alternative_segment [OF "1.prems"(3) alt] by blast
          then obtain j where "j \<le> length (drop k nm)" "wild (drop (Suc p) pat) (drop j (drop k nm))"
            using pattern star(2) wild_star by auto
          then have "wild (42 # drop (Suc p) pat) (drop n nm)"
            using k(1,2) wild_star [of "drop (Suc p) pat" "drop n nm"] by (auto intro!: exI [of _ "j + k - n"])
          then show ?thesis using pattern star(2) by simp
        qed
        ultimately show ?thesis by blast
      next
        case other
        then show ?thesis by (intro mismatch) auto
      qed
    next
      case False
      then show ?thesis by (intro mismatch) auto
    qed
  qed
qed

lemma glob_wild: "42 \<notin> set (as_bytes nm) \<Longrightarrow> glob p nm \<longleftrightarrow> wild (as_bytes p) (as_bytes nm)"
  using glob_loop_wild [of "as_bytes nm" 0 "as_bytes p" 0 None]
  by (simp add: glob_def glob_inv_def glob_alternative_def)

text \<open>The loop compares bytes before it looks at a star, so a star in the name uses up the star of the
  pattern.\<close>

lemma glob_star_in_name: "\<not> glob [42] [42, 97]" "wild (as_bytes [42]) (as_bytes [42, 97])"
  by (simp_all add: glob_def encode_utf8_def glob_loop.simps)

text \<open>C14: The backtracking matcher decides what a pattern means: a star stands for any bytes, a
  question mark for any byte, every other byte for itself.\<close>

theorem glob_matches:
  assumes "text_ok nm" and "42 \<notin> set nm"
  shows "glob p nm \<longleftrightarrow> wild (as_bytes p) (as_bytes nm)"
  using assms ascii_in_text [of nm 42] by (intro glob_wild) simp

theorem glob_matches_witness:
  "glob [42, 46, 120, 63] [97, 46, 98, 46, 120, 121]"
  using glob_matches [of "[97, 46, 98, 46, 120, 121]" "[42, 46, 120, 63]"]
  by (simp add: is_scalar_def encode_utf8_def)

section \<open>What a file of known hosts says\<close>

definition negated :: "text_str \<Rightarrow> bool" where
  "negated p \<longleftrightarrow> take 1 p = text_of ''!''"

definition covers :: "host_entry \<Rightarrow> text_str \<Rightarrow> bool" where
  "covers e nm \<longleftrightarrow>
     (\<exists>p \<in> set (patterns e). \<not> negated p \<and> wild (as_bytes p) (as_bytes nm)) \<and>
     (\<forall>p \<in> set (patterns e). negated p \<longrightarrow> \<not> wild (as_bytes (drop 1 p)) (as_bytes nm))"

lemma matches_from_iff:
  "matches_from ps nm m \<longleftrightarrow>
     (m \<or> (\<exists>p \<in> set ps. \<not> negated p \<and> glob p nm)) \<and> (\<forall>p \<in> set ps. negated p \<longrightarrow> \<not> glob (drop 1 p) nm)"
  by (induction ps nm m rule: matches_from.induct) (auto simp: negated_def)

lemma entry_covers: "42 \<notin> set (as_bytes nm) \<Longrightarrow> entry_matches e nm \<longleftrightarrow> covers e nm"
  by (simp add: entry_matches_def matches_from_iff covers_def glob_wild)

lemma judge_loop_spec:
  "judge_loop blob es t nd =
     (if \<exists>e \<in> set es. key_blob e = blob \<and> revoked e then Revoked_key
      else if t \<or> (\<exists>e \<in> set es. key_blob e = blob) then Trusted
      else if nd \<or> (\<exists>e \<in> set es. \<not> revoked e) then Changed else Unknown_host)"
  by (induction blob es t nd rule: judge_loop.induct) auto

lemma digit_in_nat: "c \<in> set (show_nat n) \<Longrightarrow> 48 \<le> (of_char c :: nat) \<and> (of_char c :: nat) \<le> 57"
proof (induction n rule: show_nat.induct)
  case (1 n)
  have "n < 10 \<Longrightarrow> show_nat n = [char_of (48 + n)]" "\<not> n < 10 \<Longrightarrow> show_nat n = show_nat (n div 10) @ [char_of (48 + n mod 10)]"
    by (simp_all add: show_nat.simps [of n])
  then show ?case using 1 by (cases "n < 10") auto
qed

lemma endpoint_plain:
  assumes "text_ok host" and "42 \<notin> set host"
  shows "42 \<notin> set (as_bytes (endpoint_name host port))"
proof -
  have "is_scalar (lower c) \<and> lower c \<noteq> 42" if "c \<in> set host" for c
    using assms that by (auto simp: lower_def is_scalar_def list_all_iff)
  then have "text_ok (to_ascii_lowercase host)" "42 \<notin> set (to_ascii_lowercase host)"
    by (fastforce simp: to_ascii_lowercase_def list_all_iff)+
  moreover have "is_scalar c \<and> c \<noteq> 42" if "c \<in> set (text_of (show_nat k))" for c k
    using that digit_in_nat [of _ k] by (fastforce simp: text_of_def is_scalar_def)
  then have "text_ok (text_of (show_nat k))" "42 \<notin> set (text_of (show_nat k))" for k
    by (auto simp: list_all_iff)
  ultimately have "text_ok (endpoint_name host port) \<and> 42 \<notin> set (endpoint_name host port)"
    by (auto simp: endpoint_name_def text_of_def is_scalar_def)
  then show ?thesis using ascii_in_text [of "endpoint_name host port" 42] by simp
qed

lemma judge_spec:
  assumes "text_ok host" and "42 \<notin> set host"
  shows "judge entries host port blob =
    (if \<exists>e \<in> set entries. covers e (endpoint_name host port) \<and> key_blob e = blob \<and> revoked e then Revoked_key
     else if \<exists>e \<in> set entries. covers e (endpoint_name host port) \<and> key_blob e = blob then Trusted
     else if \<exists>e \<in> set entries. covers e (endpoint_name host port) \<and> \<not> revoked e then Changed
     else Unknown_host)"
  using entry_covers [OF endpoint_plain [OF assms]] by (auto simp: judge_def judge_loop_spec)



text \<open>The entry of a line.\<close>

definition entry_of_line :: "(u8 list \<Rightarrow> u8 list option) \<Rightarrow> text_str \<Rightarrow> host_entry \<Rightarrow> bool" where
  "entry_of_line decode64 line e \<longleftrightarrow>
     (\<exists>mark hosts key_type key rest.
        words line = mark @ [hosts, key_type, key] @ rest \<and>
        (if revoked e then mark = [text_of ''@revoked''] else mark = [] \<and> take 1 hosts \<noteq> text_of ''@'') \<and>
        take 1 hosts \<noteq> text_of ''|'' \<and>
        patterns e = map to_ascii_lowercase (split_on 44 hosts) \<and>
        [] \<notin> set (patterns e) \<and> text_of ''!'' \<notin> set (patterns e) \<and>
        decode64 (as_bytes key) = Some (key_blob e) \<and> declared_type (key_blob e) = Some (as_bytes key_type))"

lemma next_field_Inr [simp]: "next_field n t xs = Inr (f, r) \<longleftrightarrow> xs = f # r"
  by (auto simp: next_field_def split: list.splits)

lemma line_marker_Inr:
  "line_marker n xs = Inr (b, hosts, r) \<Longrightarrow>
     (if b then xs = text_of ''@revoked'' # hosts # r else xs = hosts # r \<and> take 1 hosts \<noteq> text_of ''@'')"
  by (auto simp: line_marker_def split: if_splits)

lemma parse_line_entry:
  assumes "parse_line decode64 n line = Inr e"
  shows "entry_of_line decode64 line e"
proof -
  obtain b hosts r key_type key rest where
    "line_marker n (words line) = Inr (b, hosts, r)" and e: "take 1 hosts \<noteq> text_of ''|''" "r = key_type # key # rest"
      "decode64 (as_bytes key) = Some (key_blob e)" "declared_type (key_blob e) = Some (as_bytes key_type)"
      "patterns e = map to_ascii_lowercase (split_on 44 hosts)" "[] \<notin> set (patterns e)" "text_of ''!'' \<notin> set (patterns e)"
      "revoked e = b"
    using assms by (auto simp: parse_line_def Let_def split: if_splits)
  then show ?thesis
    using line_marker_Inr [of n "words line" b hosts r]
    by (cases b) (auto simp: entry_of_line_def intro!: exI [of _ hosts])
qed

text \<open>C15: A file of known hosts is read line by line and nothing is skipped: each line that is not blank
  or a comment is one entry, with the patterns, the revocation and the key the line spells, and the
  key of the type it names. A file with a line of any other form, a hashed name or a certificate
  authority among them, is refused as a whole.\<close>

theorem known_hosts_lines:
  assumes "parse_known_hosts decode64 s = Inr entries"
  shows "list_all2 (entry_of_line decode64) (filter is_entry_line (map trim (text_lines s))) entries"
proof -
  have "parse_lines decode64 n ls = Inr es \<Longrightarrow>
      list_all2 (entry_of_line decode64) (filter is_entry_line (map trim ls)) es" for n ls es
    by (induction decode64 n ls arbitrary: es rule: parse_lines.induct)
      (auto dest: parse_line_entry split: if_splits)
  then show ?thesis using assms by (simp add: parse_known_hosts_def)
qed

theorem known_hosts_lines_witness:
  "entry_of_line (\<lambda>_. Some [0, 0, 0, 1, 107]) [97, 32, 107, 32, 98]
     \<lparr>revoked = False, patterns = [[97]], key_blob = [0, 0, 0, 1, 107]\<rparr>"
proof -
  have lines: "text_lines [97, 32, 107, 32, 98, 10] = [[97, 32, 107, 32, 98]]"
    by (simp add: text_lines_def strip_return_def)
  have trims: "trim [97, 32, 107, 32, 98] = [97, 32, 107, 32, 98]" by (simp add: trim_def is_whitespace_def)
  have w: "words [97, 32, 107, 32, 98] = [[97], [107], [98]]" by (simp add: words.simps is_whitespace_def)
  have "parse_known_hosts (\<lambda>_. Some [0, 0, 0, 1, 107]) [97, 32, 107, 32, 98, 10] =
      Inr [\<lparr>revoked = False, patterns = [[97]], key_blob = [0, 0, 0, 1, 107]\<rparr>]"
    by (simp add: parse_known_hosts_def lines trims w is_entry_line_def text_of_def parse_line_def line_marker_def
        next_field_def declared_type_def get_range_def encode_utf8_def to_ascii_lowercase_def lower_def)
  from known_hosts_lines [OF this] show ?thesis
    by (simp add: lines trims is_entry_line_def text_of_def)
qed

end
