(* ===== verification/Xsh_Ssh_Kex.thy ===== *)
theory Xsh_Ssh_Kex
  imports Xsh_Ssh_Transport Xsh_Known_Hosts
begin

text \<open>
  Key exchange (\<open>crates/xsh-ssh/src/kex.rs\<close> and \<open>verify\<close> of \<open>host_key.rs\<close>): the client's proposal, the
  negotiation, the packets that arrive meanwhile, and the exchange itself over the transport. The
  cryptography of the crates is the record \<open>crypto\<close>: ephemeral keys \<open>'e\<close>, derived keys \<open>'k\<close>, hashes and
  signatures.
\<close>

section \<open>Negotiation\<close>

definition HYBRID_KEX :: text_str where
  "HYBRID_KEX = text_of ''mlkem768x25519-sha256''"

definition CLASSICAL_KEX :: text_str where
  "CLASSICAL_KEX = text_of ''curve25519-sha256''"

definition STRICT_KEX_CLIENT :: text_str where
  "STRICT_KEX_CLIENT = text_of ''kex-strict-c-v00@openssh.com''"

definition STRICT_KEX_SERVER :: text_str where
  "STRICT_KEX_SERVER = text_of ''kex-strict-s-v00@openssh.com''"

definition KEX_ALGORITHMS :: "text_str list" where
  "KEX_ALGORITHMS = [HYBRID_KEX, CLASSICAL_KEX, STRICT_KEX_CLIENT]"

definition ED25519 :: text_str where
  "ED25519 = text_of ''ssh-ed25519''"

definition HOST_KEY_ALGORITHMS :: "text_str list" where
  "HOST_KEY_ALGORITHMS = [ED25519]"

definition ENCRYPTION_ALGORITHMS :: "text_str list" where
  "ENCRYPTION_ALGORITHMS = [text_of ''aes128-gcm@openssh.com'', text_of ''chacha20-poly1305@openssh.com'']"

definition MAC_ALGORITHMS :: "text_str list" where
  "MAC_ALGORITHMS =
     [text_of ''hmac-sha2-256-etm@openssh.com'', text_of ''hmac-sha2-512-etm@openssh.com'']"

definition COMPRESSION_ALGORITHMS :: "text_str list" where
  "COMPRESSION_ALGORITHMS = [text_of ''none'']"

record algorithms =
  alg_kex :: text_str
  alg_host_key :: text_str
  alg_outgoing :: text_str
  alg_incoming :: text_str

record server_init =
  si_kex :: "text_str list"
  si_host_key :: "text_str list"
  si_encryption_out :: "text_str list"
  si_encryption_in :: "text_str list"
  si_compression_out :: "text_str list"
  si_compression_in :: "text_str list"
  si_guessed :: bool

definition put_name_list :: "text_str list \<Rightarrow> u8 list" where
  "put_name_list names = put_string (as_bytes (join_with 44 names))"

definition kexinit_payload :: "u8 \<Rightarrow> u8 list \<Rightarrow> u8 list" where
  "kexinit_payload type cookie =
     [type] @ cookie @ put_name_list KEX_ALGORITHMS @ put_name_list HOST_KEY_ALGORITHMS @
     put_name_list ENCRYPTION_ALGORITHMS @ put_name_list ENCRYPTION_ALGORITHMS @
     put_name_list MAC_ALGORITHMS @ put_name_list MAC_ALGORITHMS @
     put_name_list COMPRESSION_ALGORITHMS @ put_name_list COMPRESSION_ALGORITHMS @
     put_name_list [] @ put_name_list [] @ [0] @ be_bytes 0"

fun skip_u8s :: "nat \<Rightarrow> unit reading" where
  "skip_u8s 0 = retS ()"
| "skip_u8s (Suc n) = bindS read_u8 (\<lambda>_. skip_u8s n)"

definition read_kexinit :: "server_init reading" where
  "read_kexinit =
     bindS (skip_u8s 16) (\<lambda>_.
     bindS read_name_list (\<lambda>kex. bindS read_name_list (\<lambda>host_key.
     bindS read_name_list (\<lambda>enc_out. bindS read_name_list (\<lambda>enc_in.
     bindS read_name_list (\<lambda>_. bindS read_name_list (\<lambda>_.
     bindS read_name_list (\<lambda>comp_out. bindS read_name_list (\<lambda>comp_in.
     bindS read_name_list (\<lambda>_. bindS read_name_list (\<lambda>_.
     bindS read_u8 (\<lambda>guessed. bindS read_u32 (\<lambda>_. bindS read_finish (\<lambda>_.
       retS \<lparr>si_kex = kex, si_host_key = host_key, si_encryption_out = enc_out, si_encryption_in = enc_in,
         si_compression_out = comp_out, si_compression_in = comp_in, si_guessed = (guessed \<noteq> 0)\<rparr>))))))))))))))"

definition parse_kexinit :: "u8 list \<Rightarrow> ssh_error + server_init" where
  "parse_kexinit bs = parse_body read_kexinit bs"

definition first_common :: "text_str list \<Rightarrow> text_str list \<Rightarrow> string \<Rightarrow> ssh_error + text_str" where
  "first_common client server category =
     ok_or (find (\<lambda>x. x \<in> set server) client)
       (Unsupported_Algorithm category (plain_text (join_with 44 server)))"

text \<open>\<open>KeyExchangeAlgorithm\<close>, \<open>PublicKeyAlgorithm\<close> and \<open>EncryptionAlgorithm\<close> as far as they are supported.\<close>

datatype kex_algorithm = Hybrid | Classical

datatype cipher = Aes128_Gcm | Chacha20_Poly1305

record negotiated =
  n_kex :: kex_algorithm
  n_cipher_out :: cipher
  n_cipher_in :: cipher
  n_strict :: bool
  n_names :: algorithms

definition encryption :: "text_str \<Rightarrow> ssh_error + cipher" where
  "encryption nm =
     (if nm = text_of ''aes128-gcm@openssh.com'' then Inr Aes128_Gcm
      else if nm = text_of ''chacha20-poly1305@openssh.com'' then Inr Chacha20_Poly1305
      else Inl (Unsupported_Algorithm ''encryption'' nm))"

definition negotiate :: "server_init \<Rightarrow> bool \<Rightarrow> ssh_error + negotiated" where
  "negotiate server require_strict =
     (if si_guessed server then Inl (protocol_error ''server sent a guessed key-exchange packet'')
      else
        bindE (first_common KEX_ALGORITHMS (si_kex server) ''key exchange'') (\<lambda>kex_name.
        bindE (if kex_name = HYBRID_KEX then Inr Hybrid
               else if kex_name = CLASSICAL_KEX then Inr Classical
               else Inl (Unsupported_Algorithm ''key exchange'' kex_name)) (\<lambda>kex.
        bindE (first_common HOST_KEY_ALGORITHMS (si_host_key server) ''host key'') (\<lambda>host_key.
        bindE (if host_key = ED25519 then Inr ()
               else Inl (Unsupported_Algorithm ''host key'' host_key)) (\<lambda>_.
        bindE (first_common ENCRYPTION_ALGORITHMS (si_encryption_out server) ''client-to-server encryption'')
          (\<lambda>c2s.
        bindE (first_common ENCRYPTION_ALGORITHMS (si_encryption_in server) ''server-to-client encryption'')
          (\<lambda>s2c.
        bindE (first_common COMPRESSION_ALGORITHMS (si_compression_out server) ''client-to-server compression'')
          (\<lambda>_.
        bindE (first_common COMPRESSION_ALGORITHMS (si_compression_in server) ''server-to-client compression'')
          (\<lambda>_.
          (let strict = (STRICT_KEX_SERVER \<in> set (si_kex server)) in
           if require_strict \<and> \<not> strict then Inl Strict_Kex_Unsupported
           else
             bindE (encryption c2s) (\<lambda>out. bindE (encryption s2c) (\<lambda>inc.
               Inr \<lparr>n_kex = kex, n_cipher_out = out, n_cipher_in = inc, n_strict = strict,
                 n_names = \<lparr>alg_kex = kex_name, alg_host_key = host_key, alg_outgoing = c2s,
                   alg_incoming = s2c\<rparr>\<rparr>))))))))))))"

definition negotiate_payload :: "u8 list \<Rightarrow> bool \<Rightarrow> ssh_error + algorithms" where
  "negotiate_payload bs require_strict =
     bindE (parse_kexinit bs) (\<lambda>server. bindE (negotiate server require_strict) (\<lambda>n. Inr (n_names n)))"

section \<open>Packets that arrive during an exchange\<close>

definition is_connection_layer :: "message_type \<Rightarrow> bool" where
  "is_connection_layer t \<longleftrightarrow>
     t \<in> {Global_Request_m, Request_Success_m, Request_Failure_m, Channel_Open_m, Open_Confirmation_m,
       Open_Failure_m, Window_Adjust_m, Data_m, Extended_Data_m, Eof_m, Close_m, Channel_Request_m,
       Channel_Success_m, Channel_Failure_m}"

definition MAX_QUEUED_PACKETS :: nat where
  "MAX_QUEUED_PACKETS = 4096"

definition LOCAL_WINDOW :: u32 where
  "LOCAL_WINDOW = 2097152"

definition MAX_QUEUED_BYTES :: nat where
  "MAX_QUEUED_BYTES = unat LOCAL_WINDOW + 262144"

record kex_queue =
  q_packets :: "packet list"
  q_bytes :: nat
  q_init_seen :: bool

definition queue_new :: "bool \<Rightarrow> kex_queue" where
  "queue_new seen = \<lparr>q_packets = [], q_bytes = 0, q_init_seen = seen\<rparr>"

definition queue_admit :: "(message_type \<Rightarrow> text_str) \<Rightarrow> packet \<Rightarrow> kex_queue \<Rightarrow> ssh_error + kex_queue" where
  "queue_admit name p q =
     (if q_init_seen q
      then Inl (Protocol_Violated (text_of ''server sent '' @ name (message_type p) @
                  text_of '' after its key-exchange init''))
      else
        (let bytes = q_bytes q + (length (payload p) + 1) in
         if MAX_QUEUED_PACKETS \<le> length (q_packets q) \<or> MAX_QUEUED_BYTES < bytes
         then Inl (protocol_error
                (''server sent more than the channel windows allow while the key exchange was '' @ ''starting''))
         else Inr (q\<lparr>q_packets := q_packets q @ [p], q_bytes := bytes\<rparr>)))"

fun kex_receive ::
  "('w, 'r, 'o) ports \<Rightarrow> nat \<Rightarrow> message_type \<Rightarrow> kex_queue option \<Rightarrow>
     ('w, 'r, 'o, 'z, packet \<times> kex_queue option) transporting"
where
  "kex_receive h 0 expected queue = failS Out_Of_Fuel"
| "kex_receive h (Suc n) expected queue =
     bindS (recv h n) (\<lambda>p.
       if message_type p = expected then retS (p, queue)
       else if queue \<noteq> None \<and> is_connection_layer (message_type p)
       then bindS (liftE (queue_admit (type_name h) p (the queue))) (\<lambda>q. kex_receive h n expected (Some q))
       else if queue \<noteq> None \<and> message_type p \<in> {Ignore_m, Debug_m, Unimplemented_m}
       then kex_receive h n expected queue
       else if message_type p = Disconnect_m
       then failE (protocol_error ''server disconnected during key exchange'')
       else failE (Protocol_Violated (text_of ''expected '' @ type_name h expected @ text_of '', got '' @
              type_name h (message_type p))))"

section \<open>Cryptography\<close>

text \<open>The operations of the crates that can fail answer with the text of the failure. \<open>complete\<close> agrees
  on X25519, \<open>decapsulate\<close> is ML-KEM, \<open>prefixed\<close> is how \<open>HandshakeBuffer\<close> adds a string.\<close>

record ('w, 'r, 'o, 'e, 'k) crypto =
  random_cookie :: "'w \<Rightarrow> (text_str + u8 list) \<times> 'w"
  new_x25519 :: "'w \<Rightarrow> (text_str + 'e) \<times> 'w"
  x25519_public :: "'e \<Rightarrow> u8 list"
  x25519_peer :: "u8 list \<Rightarrow> text_str option"
  x25519_agree :: "'e \<Rightarrow> u8 list \<Rightarrow> text_str + u8 list"
  new_mlkem :: "'w \<Rightarrow> (text_str + 'e) \<times> 'w"
  mlkem_public :: "'e \<Rightarrow> u8 list"
  decapsulate :: "'e \<Rightarrow> u8 list \<Rightarrow> u8 list"
  encode_mpint :: "u8 list \<Rightarrow> u8 list"
  encode_digest :: "u8 list \<Rightarrow> u8 list"
  prefixed :: "u8 list \<Rightarrow> u8 list"
  hash_for :: "kex_algorithm \<Rightarrow> text_str + (u8 list \<Rightarrow> u8 list)"
  base64_nopad :: "u8 list \<Rightarrow> text_str"
  is_ed25519 :: "text_str \<Rightarrow> bool"
  algorithm_debug :: "text_str \<Rightarrow> text_str"
  verifying_key :: "u8 list \<Rightarrow> text_str option"
  bad_signature :: "u8 list \<Rightarrow> u8 list \<Rightarrow> u8 list \<Rightarrow> text_str option"
  derive_key :: "bool \<Rightarrow> cipher \<Rightarrow> u8 list \<Rightarrow> u8 list \<Rightarrow> u8 list \<Rightarrow> text_str + 'k"
  seal_with :: "'k \<Rightarrow> 'o \<Rightarrow> text_str + 'o"
  open_with :: "'k \<Rightarrow> 'r \<Rightarrow> text_str + 'r"
  restart_writing :: "'o \<Rightarrow> 'o"
  restart_reading :: "'r \<Rightarrow> 'r"

text \<open>A failure of the provider becomes \<open>HostKey\<close>, one of the key generation \<open>Protocol\<close>.\<close>

definition provided :: "text_str + 'a \<Rightarrow> ssh_error + 'a" where
  "provided r = map_sum Bad_Host_Key id r"

lemma provided_Inr [simp]: "provided r = Inr a \<longleftrightarrow> r = Inr a"
  by (cases r) (simp_all add: provided_def)

definition generated :: "string \<Rightarrow> text_str + 'a \<Rightarrow> ssh_error + 'a" where
  "generated what r = map_sum (\<lambda>t. Protocol_Violated (text_of what @ t)) id r"

text \<open>The second key is there for the hybrid exchange.\<close>

datatype 'e ephemeral = X25519 'e | Both 'e 'e

definition new_ephemeral ::
  "('w, 'r, 'o, 'e, 'k) crypto \<Rightarrow> kex_algorithm \<Rightarrow> ('w, 'r, 'o, 'z, 'e ephemeral) transporting" where
  "new_ephemeral c alg =
     bindS (on_world (new_x25519 c)) (\<lambda>r.
     bindS (liftE (generated ''cannot generate X25519 key: '' r)) (\<lambda>private.
       case alg of
         Classical \<Rightarrow> retS (X25519 private)
       | Hybrid \<Rightarrow>
           bindS (on_world (new_mlkem c)) (\<lambda>r.
           bindS (liftE (generated ''cannot generate ML-KEM key: '' r)) (\<lambda>d. retS (Both private d)))))"

fun public_key :: "('w, 'r, 'o, 'e, 'k) crypto \<Rightarrow> 'e ephemeral \<Rightarrow> u8 list" where
  "public_key c (X25519 private) = x25519_public c private"
| "public_key c (Both private d) = mlkem_public c d @ x25519_public c private"

definition agree_with :: "('w, 'r, 'o, 'e, 'k) crypto \<Rightarrow> 'e \<Rightarrow> u8 list \<Rightarrow> ssh_error + u8 list" where
  "agree_with c private peer =
     (case x25519_peer c peer of
        Some t \<Rightarrow> Inl (Protocol_Violated (text_of ''invalid X25519 peer key: '' @ t))
      | None \<Rightarrow> generated ''X25519 key agreement failed: '' (x25519_agree c private peer))"

definition MLKEM768_CIPHERTEXT :: nat where
  "MLKEM768_CIPHERTEXT = 1088"

definition X25519_KEY :: nat where
  "X25519_KEY = 32"

fun complete ::
  "('w, 'r, 'o, 'e, 'k) crypto \<Rightarrow> kex_algorithm \<Rightarrow> 'e ephemeral \<Rightarrow> u8 list \<Rightarrow> ssh_error + u8 list" where
  "complete c alg (X25519 private) peer =
     bindE (agree_with c private peer) (\<lambda>shared. Inr (encode_mpint c shared))"
| "complete c alg (Both private d) peer =
     (if length peer \<noteq> MLKEM768_CIPHERTEXT + X25519_KEY
      then Inl (protocol_error ''hybrid key-exchange reply has the wrong length'')
      else
        (let post_quantum = decapsulate c d (take MLKEM768_CIPHERTEXT peer) in
         bindE (agree_with c private (drop MLKEM768_CIPHERTEXT peer)) (\<lambda>classical.
         bindE (provided (hash_for c alg)) (\<lambda>hash.
           Inr (encode_digest c (hash (post_quantum @ classical)))))))"

definition fingerprint :: "('w, 'r, 'o, 'e, 'k) crypto \<Rightarrow> u8 list \<Rightarrow> ssh_error + text_str" where
  "fingerprint c blob =
     bindE (provided (hash_for c Classical)) (\<lambda>hash.
       Inr (text_of ''SHA256:'' @ base64_nopad c (hash blob)))"

text \<open>\<open>host_key::verify\<close>: the signature of the server over the exchange hash.\<close>

definition verify_host_key ::
  "('w, 'r, 'o, 'e, 'k) crypto \<Rightarrow> u8 list \<Rightarrow> u8 list \<Rightarrow> u8 list \<Rightarrow> ssh_error + unit" where
  "verify_host_key c blob signature_blob digest =
     bindE (parse_body (bindS read_text (\<lambda>alg. bindS read_string (\<lambda>key. bindS read_finish (\<lambda>_.
       retS (alg, key))))) blob) (\<lambda>(alg, key).
     if \<not> is_ed25519 c alg
     then Inl (Bad_Host_Key (text_of ''server used host key algorithm '' @ algorithm_debug c alg))
     else
       bindE (parse_body (bindS read_text (\<lambda>alg. bindS read_string (\<lambda>sig. bindS read_finish (\<lambda>_.
         retS (alg, sig))))) signature_blob) (\<lambda>(sig_alg, sig).
       if sig_alg \<noteq> alg
       then Inl (Bad_Host_Key (text_of ''signature algorithm differs from host key algorithm''))
       else
         (case verifying_key c key of
            Some t \<Rightarrow> Inl (Bad_Host_Key t)
          | None \<Rightarrow>
              (case bad_signature c key digest sig of
                 Some t \<Rightarrow> Inl (Bad_Host_Key (text_of ''server signature is invalid: '' @ t))
               | None \<Rightarrow> Inr ()))))"

section \<open>The exchange\<close>

record kex_context =
  ctx_host :: text_str
  ctx_port :: u16
  ctx_trust :: host_trust

record session_facts =
  sess_id :: "u8 list"
  sess_strict :: bool
  sess_host_key :: "u8 list"

record established =
  est_session :: "u8 list"
  est_fingerprint :: text_str
  est_host_key :: "u8 list"
  est_strict :: bool
  est_algorithms :: algorithms

text \<open>The proposals: ours, and the server's, which it may have sent before.\<close>

definition exchange_inits ::
  "('w, 'r, 'o) ports \<Rightarrow> ('w, 'r, 'o, 'e, 'k) crypto \<Rightarrow> nat \<Rightarrow> packet option \<Rightarrow> kex_queue option \<Rightarrow>
     ('w, 'r, 'o, 'z, u8 list \<times> packet \<times> kex_queue option) transporting"
where
  "exchange_inits h c n server_kexinit queue =
     bindS (on_world (random_cookie c)) (\<lambda>r.
     bindS (liftE (generated ''cannot generate KEXINIT cookie: '' r)) (\<lambda>cookie.
       (let ours = kexinit_payload (type_byte h Kex_Init_m) cookie in
        bindS (send_raw h n ours) (\<lambda>_.
          case server_kexinit of
            Some p \<Rightarrow> retS (ours, p, queue)
          | None \<Rightarrow>
              bindS (kex_receive h n Kex_Init_m queue) (\<lambda>(p, queue).
                retS (ours, p, map_option (\<lambda>q. q\<lparr>q_init_seen := True\<rparr>) queue))))))"

definition read_reply :: "(u8 list \<times> u8 list \<times> u8 list) reading" where
  "read_reply =
     bindS read_string (\<lambda>blob. bindS read_string (\<lambda>public. bindS read_string (\<lambda>sig.
     bindS read_finish (\<lambda>_. retS (blob, public, sig)))))"

text \<open>The host key of a later exchange is the one of the first.\<close>

definition same_host_key ::
  "('w, 'r, 'o, 'e, 'k) crypto \<Rightarrow> session_facts option \<Rightarrow> u8 list \<Rightarrow> ssh_error + unit" where
  "same_host_key c session blob =
     (case session of
        None \<Rightarrow> Inr ()
      | Some s \<Rightarrow>
          if sess_host_key s = blob then Inr ()
          else bindE (fingerprint c (sess_host_key s)) (\<lambda>expected. bindE (fingerprint c blob) (\<lambda>actual.
                 Inl (Host_Key_Mismatch expected actual))))"

text \<open>New keys in both directions.\<close>

definition install_keys ::
  "('w, 'r, 'o) ports \<Rightarrow> ('w, 'r, 'o, 'e, 'k) crypto \<Rightarrow> nat \<Rightarrow> bool \<Rightarrow> 'k \<Rightarrow> 'k \<Rightarrow> kex_queue option \<Rightarrow>
     ('w, 'r, 'o, 'z, kex_queue option) transporting"
where
  "install_keys h c n strict key_out key_in queue =
     bindS (send_raw h n [type_byte h New_Keys_m]) (\<lambda>_.
     bindS (updS (\<lambda>s. if strict then s\<lparr>writing := restart_writing c (writing s)\<rparr> else s)) (\<lambda>_.
     bindS (askS (\<lambda>s. provided (seal_with c key_out (writing s)))) (\<lambda>r. bindS (liftE r) (\<lambda>w.
     bindS (updS (\<lambda>s. s\<lparr>writing := w\<rparr>)) (\<lambda>_.
     bindS (kex_receive h n New_Keys_m queue) (\<lambda>(_, queue).
     bindS (updS (\<lambda>s. if strict then s\<lparr>reading := restart_reading c (reading s)\<rparr> else s)) (\<lambda>_.
     bindS (askS (\<lambda>s. provided (open_with c key_in (reading s)))) (\<lambda>r. bindS (liftE r) (\<lambda>rd.
     bindS (now h) (\<lambda>t.
     bindS (updS (\<lambda>s. s\<lparr>reading := rd, kex_bytes := 0, kex_packets := 0, kex_started := t\<rparr>)) (\<lambda>_.
       retS queue)))))))))))"

definition exchange ::
  "('w, 'r, 'o) ports \<Rightarrow> ('w, 'r, 'o, 'e, 'k) crypto \<Rightarrow> nat \<Rightarrow> kex_context \<Rightarrow> session_facts option \<Rightarrow>
     packet option \<Rightarrow> kex_queue option \<Rightarrow>
     ('w, 'r, 'o, 'z, established \<times> kex_queue option) transporting"
where
  "exchange h c n ctx session server_kexinit queue =
     bindS (askS (\<lambda>s. prefixed c (client_id s) @ prefixed c (server_id s))) (\<lambda>ids.
     bindS (exchange_inits h c n server_kexinit queue) (\<lambda>(ours, theirs, queue).
     bindS (liftE (parse_kexinit (payload theirs))) (\<lambda>server.
     bindS (liftE (negotiate server (session = None))) (\<lambda>neg.
     bindS (liftE (provided (hash_for c (n_kex neg)))) (\<lambda>hash.
     bindS (new_ephemeral c (n_kex neg)) (\<lambda>ephemeral.
     bindS (send_raw h n ([type_byte h Ecdh_Init_m] @ put_string (public_key c ephemeral))) (\<lambda>_.
     bindS (kex_receive h n Ecdh_Reply_m queue) (\<lambda>(answer, queue).
     bindS (liftE (parse_body read_reply (payload answer))) (\<lambda>(blob, public, sig).
     bindS (liftE (same_host_key c session blob)) (\<lambda>_.
     bindS (liftE (complete c (n_kex neg) ephemeral public)) (\<lambda>secret.
       (let strict = (case session of None \<Rightarrow> n_strict neg | Some s \<Rightarrow> sess_strict s);
            digest = hash (ids @ prefixed c ours @
              prefixed c (type_byte h (message_type theirs) # payload theirs) @ prefixed c blob @
              prefixed c (public_key c ephemeral) @ prefixed c public @ secret)
        in
        bindS (liftE (fingerprint c blob)) (\<lambda>fp.
        bindS (liftE (trust_verify (ctx_trust ctx) (ctx_host ctx) (ctx_port ctx) blob fp)) (\<lambda>_.
        bindS (liftE (verify_host_key c blob sig digest)) (\<lambda>_.
          (let session_id = (case session of None \<Rightarrow> digest | Some s \<Rightarrow> sess_id s) in
           bindS (liftE (provided (derive_key c True (n_cipher_out neg) secret digest session_id))) (\<lambda>key_out.
           bindS (liftE (provided (derive_key c False (n_cipher_in neg) secret digest session_id))) (\<lambda>key_in.
           bindS (install_keys h c n strict key_out key_in queue) (\<lambda>queue.
             retS (\<lparr>est_session = session_id, est_fingerprint = fp, est_host_key = blob,
                est_strict = strict, est_algorithms = n_names neg\<rparr>, queue))))))))))))))))))))"

definition kex_connect ::
  "('w, 'r, 'o) ports \<Rightarrow> ('w, 'r, 'o, 'e, 'k) crypto \<Rightarrow> nat \<Rightarrow> kex_context \<Rightarrow>
     ('w, 'r, 'o, 'z, established) transporting"
where
  "kex_connect h c n ctx =
     bindS (exchange h c n ctx None None None) (\<lambda>(est, _). retS est)"

definition kex_rekey ::
  "('w, 'r, 'o) ports \<Rightarrow> ('w, 'r, 'o, 'e, 'k) crypto \<Rightarrow> nat \<Rightarrow> kex_context \<Rightarrow> session_facts \<Rightarrow>
     packet option \<Rightarrow> ('w, 'r, 'o, 'z, algorithms \<times> packet list) transporting"
where
  "kex_rekey h c n ctx session server_kexinit =
     bindS (exchange h c n ctx (Some session) server_kexinit (Some (queue_new (server_kexinit \<noteq> None))))
       (\<lambda>(est, queue). retS (est_algorithms est, case queue of Some q \<Rightarrow> q_packets q | None \<Rightarrow> []))"

end
