(* ===== verification/Xsh_Ssh_Client.thy ===== *)
theory Xsh_Ssh_Client
  imports Xsh_Ssh_Kex
begin

text \<open>
  An SSH connection and its session channel (\<open>Connection\<close> of \<open>crates/xsh-ssh/src/client.rs\<close> and
  \<open>channel.rs\<close>). The record \<open>connection\<close> extends the transport by what the connection keeps; the
  configuration and the facts of the session that never change are the record \<open>client_config\<close>.
  A channel is a value the operations take and give back.
\<close>

section \<open>Connections\<close>

record client_config =
  cfg_context :: kex_context
  cfg_session :: session_facts
  rekey_bytes :: u64
  rekey_packets :: u64
  rekey_interval :: nat
  phase_deadline :: nat

record ('w, 'r, 'o) connection = "('w, 'r, 'o) transport" +
  current_algorithms :: algorithms
  pending :: "packet list"
  usable :: bool

type_synonym ('w, 'r, 'o, 'z, 'a) connecting = "(('w, 'r, 'o, 'z) connection_scheme, stop, 'a) op"

definition require_usable :: "('w, 'r, 'o, 'z, unit) connecting" where
  "require_usable = bindS (askS usable) (\<lambda>u. if u then retS () else failE Unusable_Connection)"

definition mark_unusable :: "('w, 'r, 'o) ports \<Rightarrow> ('w, 'r, 'o, 'z, unit) connecting" where
  "mark_unusable h = bindS (updS (\<lambda>s. s\<lparr>usable := False\<rparr>)) (\<lambda>_. shutdown h)"

text \<open>\<open>disconnect\<close>: failures are ignored.\<close>

definition disconnect :: "('w, 'r, 'o) ports \<Rightarrow> nat \<Rightarrow> ('w, 'r, 'o, 'z, unit) connecting" where
  "disconnect h n =
     bindS (askS usable) (\<lambda>u.
       if \<not> u then retS ()
       else
         bindS (updS (\<lambda>s. s\<lparr>usable := False\<rparr>)) (\<lambda>_.
         bindS (\<lambda>s. case encode_raw h ([type_byte h Disconnect_m] @ be_bytes 11 @ put_string [] @ put_string []) s of
                   (Inl e, s) \<Rightarrow> (Inr (), s)
                 | (Inr u, s) \<Rightarrow> (case flush_nonblocking h n s of (r, s) \<Rightarrow> (Inr (), s))) (\<lambda>_.
           shutdown h)))"

definition rekey ::
  "('w, 'r, 'o) ports \<Rightarrow> ('w, 'r, 'o, 'e, 'k) crypto \<Rightarrow> client_config \<Rightarrow> nat \<Rightarrow> packet option \<Rightarrow>
     ('w, 'r, 'o, 'z, unit) connecting"
where
  "rekey h c cfg n server_kexinit =
     bindS (bound_phase h (phase_deadline cfg)) (\<lambda>previous. (\<lambda>s.
       case kex_rekey h c n (cfg_context cfg) (cfg_session cfg) server_kexinit s of
         (outcome, s) \<Rightarrow>
           bindS (restore_deadline previous) (\<lambda>_.
             case outcome of
               Inl e \<Rightarrow> failS e
             | Inr (algs, queued) \<Rightarrow>
                 updS (\<lambda>s. s\<lparr>current_algorithms := algs, pending := pending s @ queued\<rparr>)) s))"

definition rekey_due ::
  "('w, 'r, 'o) ports \<Rightarrow> client_config \<Rightarrow> ('w, 'r, 'o, 'z, bool) connecting" where
  "rekey_due h cfg =
     bindS (kex_usage h) (\<lambda>(bytes, packets, elapsed).
       retS (rekey_bytes cfg \<le> bytes \<or> rekey_packets cfg \<le> packets \<or> rekey_interval cfg \<le> elapsed))"

definition rekey_if_due ::
  "('w, 'r, 'o) ports \<Rightarrow> ('w, 'r, 'o, 'e, 'k) crypto \<Rightarrow> client_config \<Rightarrow> nat \<Rightarrow>
     ('w, 'r, 'o, 'z, unit) connecting" where
  "rekey_if_due h c cfg n =
     bindS (rekey_due h cfg) (\<lambda>due. if due then rekey h c cfg n None else retS ())"

section \<open>Packets of the connection\<close>

definition refusal :: "('w, 'r, 'o) ports \<Rightarrow> u32 \<Rightarrow> u8 list" where
  "refusal h sender =
     [type_byte h Open_Failure_m] @ be_bytes sender @ be_bytes 1 @
     put_string (bytes_of ''channels are not accepted'') @ put_string []"

text \<open>Transport traffic is answered here; \<open>None\<close> when nothing is left for the caller.\<close>

definition filter_packet ::
  "('w, 'r, 'o) ports \<Rightarrow> ('w, 'r, 'o, 'e, 'k) crypto \<Rightarrow> client_config \<Rightarrow> nat \<Rightarrow> packet \<Rightarrow>
     ('w, 'r, 'o, 'z, packet option) connecting"
where
  "filter_packet h c cfg n p =
     (case message_type p of
        Ignore_m \<Rightarrow> retS None
      | Debug_m \<Rightarrow> retS None
      | Unimplemented_m \<Rightarrow> retS None
      | Global_Request_m \<Rightarrow>
          bindS (liftE (parse_body (bindS read_text (\<lambda>_. read_u8)) (payload p))) (\<lambda>wants.
          bindS (if wants \<noteq> 0 then reply h n [type_byte h Request_Failure_m] else retS ()) (\<lambda>_.
            retS None))
      | Channel_Open_m \<Rightarrow>
          bindS (liftE (parse_body (bindS read_text (\<lambda>_. read_u32)) (payload p))) (\<lambda>sender.
          bindS (reply h n (refusal h sender)) (\<lambda>_. retS None))
      | Kex_Init_m \<Rightarrow> bindS (rekey h c cfg n (Some p)) (\<lambda>_. retS None)
      | _ \<Rightarrow> retS (Some p))"

definition or_else :: "ssh_error + 'a \<Rightarrow> 'a \<Rightarrow> 'a" where
  "or_else r d = (case r of Inl e \<Rightarrow> d | Inr a \<Rightarrow> a)"

text \<open>The reason and the description, as far as they can be read.\<close>

definition disconnect_detail :: "u8 list \<Rightarrow> text_str" where
  "disconnect_detail bs =
     (case read_u32 (reader_new bs) of (reason, r) \<Rightarrow>
        text_of ''server disconnected (reason '' @ text_of (show_nat (unat (or_else reason 0))) @
        text_of ''): '' @ plain_text (or_else (fst (read_text r)) []))"

definition reject_disconnect :: "packet \<Rightarrow> ('w, 'r, 'o, 'z, packet) connecting" where
  "reject_disconnect p =
     (if message_type p = Disconnect_m
      then bindS (askS certainty_now) (\<lambda>c.
             failE (case c of
                      Not_Submitted \<Rightarrow> Failed_Before (disconnect_detail (payload p))
                    | Was_Submitted \<Rightarrow> Failed_After (disconnect_detail (payload p))))
      else retS p)"

definition pop_pending :: "('w, 'r, 'o, 'z, packet option) connecting" where
  "pop_pending s =
     (case pending s of [] \<Rightarrow> (Inr None, s) | p # ps \<Rightarrow> (Inr (Some p), s\<lparr>pending := ps\<rparr>))"

fun next_message ::
  "('w, 'r, 'o) ports \<Rightarrow> ('w, 'r, 'o, 'e, 'k) crypto \<Rightarrow> client_config \<Rightarrow> nat \<Rightarrow>
     ('w, 'r, 'o, 'z, packet) connecting"
where
  "next_message h c cfg 0 = failS Out_Of_Fuel"
| "next_message h c cfg (Suc n) =
     bindS pop_pending (\<lambda>found.
     bindS (case found of
              Some p \<Rightarrow> retS p
            | None \<Rightarrow> bindS (rekey_if_due h c cfg n) (\<lambda>_. recv h n)) (\<lambda>p.
     bindS (filter_packet h c cfg n p) (\<lambda>kept.
       case kept of Some p \<Rightarrow> retS p | None \<Rightarrow> next_message h c cfg n)))"

definition next_packet ::
  "('w, 'r, 'o) ports \<Rightarrow> ('w, 'r, 'o, 'e, 'k) crypto \<Rightarrow> client_config \<Rightarrow> nat \<Rightarrow>
     ('w, 'r, 'o, 'z, packet) connecting"
where
  "next_packet h c cfg n = bindS (next_message h c cfg n) reject_disconnect"

fun try_next_packet ::
  "('w, 'r, 'o) ports \<Rightarrow> ('w, 'r, 'o, 'e, 'k) crypto \<Rightarrow> client_config \<Rightarrow> nat \<Rightarrow>
     ('w, 'r, 'o, 'z, packet option) connecting"
where
  "try_next_packet h c cfg 0 = failS Out_Of_Fuel"
| "try_next_packet h c cfg (Suc n) =
     bindS pop_pending (\<lambda>found.
     bindS (case found of Some p \<Rightarrow> retS (Some p) | None \<Rightarrow> try_recv h) (\<lambda>found.
       case found of
         None \<Rightarrow> retS None
       | Some p \<Rightarrow>
           bindS (filter_packet h c cfg n p) (\<lambda>kept.
             case kept of
               Some p \<Rightarrow> bindS (reject_disconnect p) (\<lambda>p. retS (Some p))
             | None \<Rightarrow> try_next_packet h c cfg n)))"

section \<open>Environment\<close>

definition channel_error :: "text_str \<Rightarrow> ssh_error" where
  "channel_error t = Channel_Failed t"

definition is_letter :: "nat \<Rightarrow> bool" where
  "is_letter c \<longleftrightarrow> 65 \<le> c \<and> c \<le> 90 \<or> 97 \<le> c \<and> c \<le> 122"

definition portable_name :: "text_str \<Rightarrow> bool" where
  "portable_name nm \<longleftrightarrow>
     (case nm of
        [] \<Rightarrow> False
      | c # cs \<Rightarrow> (c = 95 \<or> is_letter c) \<and> list_all (\<lambda>c. c = 95 \<or> is_letter c \<or> 48 \<le> c \<and> c \<le> 57) cs) \<and>
     tlen nm \<le> 128"

definition MAX_ENVIRONMENT :: nat where
  "MAX_ENVIRONMENT = 64"

definition MAX_ENVIRONMENT_VALUE :: nat where
  "MAX_ENVIRONMENT_VALUE = 4096"

fun validate_variables ::
  "('w, 'r, 'o) ports \<Rightarrow> (text_str \<times> text_str) list \<Rightarrow> ssh_error + unit" where
  "validate_variables h [] = Inr ()"
| "validate_variables h ((nm, v) # rest) =
     (if \<not> portable_name nm
      then Inl (Invalid_Environment (quoted h nm @ text_of '' is not a portable variable name''))
      else if 0 \<in> set v \<or> MAX_ENVIRONMENT_VALUE < tlen v
      then Inl (Invalid_Environment (text_of ''the value of '' @ nm @
             text_of '' has a NUL byte or exceeds 4096 bytes''))
      else validate_variables h rest)"

definition validate_environment ::
  "('w, 'r, 'o) ports \<Rightarrow> (text_str \<times> text_str) list \<Rightarrow> ssh_error + unit" where
  "validate_environment h env =
     (if MAX_ENVIRONMENT < length env then Inl (Invalid_Environment (text_of ''more than 64 variables''))
      else validate_variables h env)"

section \<open>Channels\<close>

definition LOCAL_MAX_PACKET :: u32 where
  "LOCAL_MAX_PACKET = 32768"

definition SEND_CHUNK :: nat where
  "SEND_CHUNK = 32768"

record channel =
  local_id :: u32
  remote_id :: u32
  remote_window :: u32
  remote_max_packet :: u32
  local_window :: u32
  consumed :: u32
  eof_received :: bool
  eof_sent :: bool
  close_received :: bool
  close_sent :: bool

definition local_recipient :: "u32 \<Rightarrow> u32 \<Rightarrow> ssh_error + unit" where
  "local_recipient recipient local =
     (if recipient = local then Inr ()
      else Inl (channel_error (text_of ''message for unknown channel '' @ text_of (show_nat (unat recipient)))))"

definition expect_recipient :: "channel \<Rightarrow> u32 \<Rightarrow> ssh_error + unit" where
  "expect_recipient ch recipient = local_recipient recipient (local_id ch)"

definition open_request :: "('w, 'r, 'o) ports \<Rightarrow> u8 list" where
  "open_request h =
     [type_byte h Channel_Open_m] @ put_string (bytes_of ''session'') @ be_bytes 0 @
     be_bytes LOCAL_WINDOW @ be_bytes LOCAL_MAX_PACKET"

definition open_confirmed :: "u8 list \<Rightarrow> ssh_error + channel" where
  "open_confirmed bs =
     bindE (parse_body (bindS read_u32 (\<lambda>recipient. bindS read_u32 (\<lambda>sender. bindS read_u32 (\<lambda>window.
       bindS read_u32 (\<lambda>maximum. bindS read_finish (\<lambda>_.
         retS (recipient, sender, window, maximum))))))) bs) (\<lambda>(recipient, sender, window, maximum).
     bindE (local_recipient recipient 0) (\<lambda>_.
       if maximum = 0 then Inl (protocol_error ''peer allows no data in a packet'')
       else Inr \<lparr>local_id = 0, remote_id = sender, remote_window = window, remote_max_packet = maximum,
              local_window = LOCAL_WINDOW, consumed = 0, eof_received = False, eof_sent = False,
              close_received = False, close_sent = False\<rparr>))"

definition open_failed :: "u8 list \<Rightarrow> ssh_error + 'a" where
  "open_failed bs =
     bindE (parse_body (bindS read_u32 (\<lambda>recipient. bindS read_u32 (\<lambda>reason. bindS read_text (\<lambda>t.
       bindS read_string (\<lambda>_. bindS read_finish (\<lambda>_.
         retS (recipient, reason, plain_text t))))))) bs) (\<lambda>(recipient, reason, description).
     bindE (local_recipient recipient 0) (\<lambda>_.
       Inl (channel_error (text_of ''channel open failed ('' @ text_of (show_nat (unat reason)) @
         text_of ''): '' @ description))))"

definition channel_open ::
  "('w, 'r, 'o) ports \<Rightarrow> ('w, 'r, 'o, 'e, 'k) crypto \<Rightarrow> client_config \<Rightarrow> nat \<Rightarrow>
     ('w, 'r, 'o, 'z, channel) connecting"
where
  "channel_open h c cfg n =
     bindS (send_raw h n (open_request h)) (\<lambda>_. bindS (next_packet h c cfg n) (\<lambda>p.
       if message_type p = Open_Confirmation_m then liftE (open_confirmed (payload p))
       else if message_type p = Open_Failure_m then liftE (open_failed (payload p))
       else failE (Protocol_Violated (text_of ''unexpected channel-open message '' @ type_name h (message_type p)))))"

definition window_adjust :: "u8 list \<Rightarrow> channel \<Rightarrow> ssh_error + channel" where
  "window_adjust bs ch =
     bindE (parse_body (bindS read_u32 (\<lambda>recipient. bindS read_u32 (\<lambda>added. bindS read_finish (\<lambda>_.
       retS (recipient, added))))) bs) (\<lambda>(recipient, added).
     bindE (expect_recipient ch recipient) (\<lambda>_.
     bindE (ok_or (checked_add (remote_window ch) added) (protocol_error ''peer window exceeds 2^32-1 bytes''))
       (\<lambda>w. Inr (ch\<lparr>remote_window := w\<rparr>))))"

definition expect_recipient_only :: "channel \<Rightarrow> u8 list \<Rightarrow> ssh_error + unit" where
  "expect_recipient_only ch bs =
     bindE (parse_body (bindS read_u32 (\<lambda>recipient. bindS read_finish (\<lambda>_. retS recipient))) bs)
       (expect_recipient ch)"

text \<open>The answer to a request: success, a refusal, or more room for data.\<close>

fun await_answer ::
  "('w, 'r, 'o) ports \<Rightarrow> ('w, 'r, 'o, 'e, 'k) crypto \<Rightarrow> client_config \<Rightarrow> string \<Rightarrow> nat \<Rightarrow> channel \<Rightarrow>
     ('w, 'r, 'o, 'z, channel) connecting"
where
  "await_answer h c cfg request 0 ch = failS Out_Of_Fuel"
| "await_answer h c cfg request (Suc n) ch =
     bindS (next_packet h c cfg n) (\<lambda>p.
       if message_type p = Channel_Success_m
       then bindS (liftE (expect_recipient_only ch (payload p))) (\<lambda>_. retS ch)
       else if message_type p = Channel_Failure_m
       then bindS (liftE (expect_recipient_only ch (payload p))) (\<lambda>_. failE (Request_Rejected request))
       else if message_type p = Window_Adjust_m
       then bindS (liftE (window_adjust (payload p) ch)) (\<lambda>ch. await_answer h c cfg request n ch)
       else failE (Protocol_Violated (text_of ''unexpected '' @ text_of request @ text_of '' reply '' @
              type_name h (message_type p))))"

definition request_head :: "('w, 'r, 'o) ports \<Rightarrow> channel \<Rightarrow> string \<Rightarrow> u8 list" where
  "request_head h ch request =
     [type_byte h Channel_Request_m] @ be_bytes (remote_id ch) @ put_string (bytes_of request) @ [1]"

definition set_environment ::
  "('w, 'r, 'o) ports \<Rightarrow> ('w, 'r, 'o, 'e, 'k) crypto \<Rightarrow> client_config \<Rightarrow> nat \<Rightarrow> text_str \<Rightarrow> text_str \<Rightarrow>
     channel \<Rightarrow> ('w, 'r, 'o, 'z, channel) connecting"
where
  "set_environment h c cfg n nm v ch =
     bindS (send_raw h n (request_head h ch ''env'' @ put_string (as_bytes nm) @ put_string (as_bytes v)))
       (\<lambda>_. await_answer h c cfg ''env'' n ch)"

definition channel_exec ::
  "('w, 'r, 'o) ports \<Rightarrow> ('w, 'r, 'o, 'e, 'k) crypto \<Rightarrow> client_config \<Rightarrow> nat \<Rightarrow> u8 list \<Rightarrow>
     channel \<Rightarrow> ('w, 'r, 'o, 'z, channel) connecting"
where
  "channel_exec h c cfg n command ch =
     bindS mark_submitted (\<lambda>_.
     bindS (send_raw h n (request_head h ch ''exec'' @ put_string command)) (\<lambda>_.
       await_answer h c cfg ''exec'' n ch))"

section \<open>Flow control\<close>

text \<open>\<open>receive\<close>: data counts against the window that was granted.\<close>

definition channel_receive :: "nat \<Rightarrow> channel \<Rightarrow> ssh_error + channel" where
  "channel_receive len ch =
     (if unat LOCAL_MAX_PACKET < len then Inl (protocol_error ''peer exceeded the advertised packet size'')
      else
        bindE (ok_or (checked_sub (local_window ch) (of_nat len))
                (protocol_error ''peer exceeded the advertised window'')) (\<lambda>w.
          Inr (ch\<lparr>local_window := w, consumed := consumed ch + of_nat len\<rparr>)))"

definition replenish ::
  "('w, 'r, 'o) ports \<Rightarrow> nat \<Rightarrow> channel \<Rightarrow> ('w, 'r, 'o, 'z, channel) transporting" where
  "replenish h n ch =
     (if consumed ch < LOCAL_WINDOW div 2 then retS ch
      else
        bindS (reply h n ([type_byte h Window_Adjust_m] @ be_bytes (remote_id ch) @ be_bytes (consumed ch)))
          (\<lambda>_. retS (ch\<lparr>local_window := local_window ch + consumed ch, consumed := 0\<rparr>)))"

definition send_limit :: "channel \<Rightarrow> u8 list \<Rightarrow> nat" where
  "send_limit ch bs =
     min (min (unat (min (remote_window ch) (remote_max_packet ch))) SEND_CHUNK) (length bs)"

definition send_data ::
  "('w, 'r, 'o) ports \<Rightarrow> channel \<Rightarrow> u8 list \<Rightarrow> ('w, 'r, 'o, 'z, nat \<times> channel) transporting" where
  "send_data h ch bs =
     (let k = send_limit ch bs in
      if k = 0 then retS (0, ch)
      else
        bindS (encode_raw h ([type_byte h Data_m] @ be_bytes (remote_id ch) @ put_string (take k bs)))
          (\<lambda>_. retS (k, ch\<lparr>remote_window := remote_window ch - of_nat k\<rparr>)))"

definition send_eof :: "('w, 'r, 'o) ports \<Rightarrow> channel \<Rightarrow> ('w, 'r, 'o, 'z, channel) transporting" where
  "send_eof h ch =
     (if eof_sent ch then retS ch
      else bindS (encode_raw h ([type_byte h Eof_m] @ be_bytes (remote_id ch))) (\<lambda>_. retS (ch\<lparr>eof_sent := True\<rparr>)))"

definition send_close :: "('w, 'r, 'o) ports \<Rightarrow> channel \<Rightarrow> ('w, 'r, 'o, 'z, channel) transporting" where
  "send_close h ch =
     (if close_sent ch then retS ch
      else bindS (encode_raw h ([type_byte h Close_m] @ be_bytes (remote_id ch)))
             (\<lambda>_. retS (ch\<lparr>close_sent := True\<rparr>)))"

definition is_closed :: "channel \<Rightarrow> bool" where
  "is_closed ch \<longleftrightarrow> close_received ch \<and> close_sent ch"

end
