(* ===== verification/Xsh_Ssh_Exec.thy ===== *)
theory Xsh_Ssh_Exec
  imports Xsh_Ssh_Client
begin

text \<open>
  A remote command with its input and output (\<open>crates/xsh-ssh/src/stream.rs\<close>). The record \<open>session\<close>
  extends the connection by the channel, what the server reported of the command, and the input that
  was read and not sent. The caller's input and output are the record \<open>stream_ports\<close>.
\<close>

datatype sink_failure = Sink_deadline | Sink_cancelled | Sink_full | Sink_failed text_str

record 'w stream_ports =
  has_input :: bool
  input_descriptor :: "'w \<Rightarrow> bool"
  input_ready :: "'w \<Rightarrow> bool \<times> 'w"
  input_read :: "'w \<Rightarrow> (io_failure + u8 list) \<times> 'w"
  sink_write :: "bool \<Rightarrow> u8 list \<Rightarrow> 'w \<Rightarrow> (sink_failure + unit) \<times> 'w"

record ('w, 'r, 'o) session = "('w, 'r, 'o) connection" +
  chan :: channel
  exit_status :: "u32 option"
  exit_signal :: "text_str option"
  unsent :: "u8 list"
  input_ended :: bool

type_synonym ('w, 'r, 'o, 'z, 'a) streaming = "(('w, 'r, 'o, 'z) session_scheme, stop, 'a) op"

datatype exec_status = Exited u32 | Signaled text_str | Missing

definition is_reported :: "('w, 'r, 'o, 'z) session_scheme \<Rightarrow> bool" where
  "is_reported s \<longleftrightarrow> exit_status s \<noteq> None \<or> exit_signal s \<noteq> None"

definition completion_status :: "('w, 'r, 'o, 'z) session_scheme \<Rightarrow> exec_status" where
  "completion_status s =
     (case exit_status s of
        Some n \<Rightarrow> Exited n
      | None \<Rightarrow> (case exit_signal s of Some t \<Rightarrow> Signaled t | None \<Rightarrow> Missing))"

section \<open>The channel of the session\<close>

definition on_channel ::
  "(channel \<Rightarrow> ('w, 'r, 'o, 'z, channel) streaming) \<Rightarrow> ('w, 'r, 'o, 'z, unit) streaming" where
  "on_channel f =
     bindS (askS chan) (\<lambda>ch. bindS (f ch) (\<lambda>ch. updS (\<lambda>s. s\<lparr>chan := ch\<rparr>)))"

definition with_channel :: "(channel \<Rightarrow> ssh_error + 'a) \<Rightarrow> ('w, 'r, 'o, 'z, 'a) streaming" where
  "with_channel f = bindS (askS chan) (\<lambda>ch. liftE (f ch))"

section \<open>Input\<close>

fun refill ::
  "'w stream_ports \<Rightarrow> nat \<Rightarrow> ('w, 'r, 'o, 'z, unit) streaming" where
  "refill sp 0 = failS Out_Of_Fuel"
| "refill sp (Suc n) =
     (if \<not> has_input sp then updS (\<lambda>s. s\<lparr>input_ended := True\<rparr>)
      else
        bindS (on_world (input_read sp)) (\<lambda>r.
          case r of
            Inl e \<Rightarrow>
              if io_kind e = Interrupted_call then refill sp n
              else failE (Failed_After (text_of ''stdin read failed: '' @ io_text e))
          | Inr [] \<Rightarrow> updS (\<lambda>s. s\<lparr>input_ended := True\<rparr>)
          | Inr bs \<Rightarrow> updS (\<lambda>s. s\<lparr>unsent := bs\<rparr>)))"

definition input_readable :: "'w stream_ports \<Rightarrow> ('w, 'r, 'o, 'z, bool) streaming" where
  "input_readable sp =
     bindS (askS (\<lambda>s. has_input sp \<and> input_descriptor sp (world s))) (\<lambda>polled.
       if polled then on_world (input_ready sp) else retS True)"

datatype feeding = Feed_Done | Waiting_For_Window | Waiting_For_Input | Output_Full

definition OUTPUT_HIGH_WATER :: nat where
  "OUTPUT_HIGH_WATER = 262144"

fun feed_loop ::
  "('w, 'r, 'o) ports \<Rightarrow> 'w stream_ports \<Rightarrow> nat \<Rightarrow> ('w, 'r, 'o, 'z, feeding) streaming" where
  "feed_loop h sp 0 = failS Out_Of_Fuel"
| "feed_loop h sp (Suc n) =
     bindS (askS (\<lambda>s. (pending_output h s, unsent s, input_ended s, remote_window (chan s))))
       (\<lambda>(queued, left_over, ended, window).
       if OUTPUT_HIGH_WATER \<le> queued then retS Output_Full
       else if left_over = []
       then
         if ended then bindS (on_channel (send_eof h)) (\<lambda>_. retS Feed_Done)
         else if window = 0 then retS Waiting_For_Window
         else
           bindS (input_readable sp) (\<lambda>ready.
             if \<not> ready then retS Waiting_For_Input
             else bindS (refill sp n) (\<lambda>_. feed_loop h sp n))
       else if window = 0 then retS Waiting_For_Window
       else
         bindS (askS chan) (\<lambda>ch. bindS (send_data h ch left_over) (\<lambda>(sent, ch).
         bindS (updS (\<lambda>s. s\<lparr>chan := ch, unsent := drop sent left_over\<rparr>)) (\<lambda>_. feed_loop h sp n))))"

definition feed ::
  "('w, 'r, 'o) ports \<Rightarrow> 'w stream_ports \<Rightarrow> nat \<Rightarrow> ('w, 'r, 'o, 'z, feeding) streaming" where
  "feed h sp n =
     bindS (askS (\<lambda>s. eof_sent (chan s) \<or> close_received (chan s))) (\<lambda>finished.
       if finished then retS Feed_Done else feed_loop h sp n)"

section \<open>Packets of the channel\<close>

definition check_open_for_data :: "channel \<Rightarrow> ssh_error + unit" where
  "check_open_for_data ch =
     (if eof_received ch \<or> close_received ch
      then Inl (protocol_error ''data after the peer ended its output'') else Inr ())"

definition write_sink ::
  "'w stream_ports \<Rightarrow> bool \<Rightarrow> u8 list \<Rightarrow> ('w, 'r, 'o, 'z, unit) streaming" where
  "write_sink sp to_stderr bs =
     bindS (on_world (sink_write sp to_stderr bs)) (\<lambda>r.
       let out = (if to_stderr then ''stderr'' else ''stdout'') in
       case r of
         Inr u \<Rightarrow> retS ()
       | Inl Sink_deadline \<Rightarrow> failE (Timed_Out Was_Submitted)
       | Inl Sink_cancelled \<Rightarrow> failE (Was_Cancelled Was_Submitted)
       | Inl Sink_full \<Rightarrow> failE (Output_Limit out)
       | Inl (Sink_failed t) \<Rightarrow> failE (Failed_After (text_of out @ text_of '' write failed: '' @ t)))"

text \<open>Data in order of the checks: addressed to the channel, allowed, within the window; then it goes to
  its sink and the window is given back.\<close>

definition take_data ::
  "('w, 'r, 'o) ports \<Rightarrow> 'w stream_ports \<Rightarrow> nat \<Rightarrow> u32 \<Rightarrow> bool option \<Rightarrow> u8 list \<Rightarrow>
     ('w, 'r, 'o, 'z, unit) streaming" where
  "take_data h sp n recipient sink bs =
     bindS (with_channel (\<lambda>ch. expect_recipient ch recipient)) (\<lambda>_.
     bindS (with_channel check_open_for_data) (\<lambda>_.
     bindS (with_channel (channel_receive (length bs))) (\<lambda>ch.
     bindS (updS (\<lambda>s. s\<lparr>chan := ch\<rparr>)) (\<lambda>_.
     bindS (case sink of Some to_stderr \<Rightarrow> write_sink sp to_stderr bs | None \<Rightarrow> retS ()) (\<lambda>_.
       on_channel (replenish h n))))))"

definition record_completion ::
  "u32 option \<Rightarrow> text_str option \<Rightarrow> ('w, 'r, 'o, 'z, unit) streaming" where
  "record_completion status signal =
     bindS (askS is_reported) (\<lambda>twice.
       if twice then failE (protocol_error ''server reported the command's completion twice'')
       else updS (\<lambda>s. s\<lparr>exit_status := status, exit_signal := signal\<rparr>))"

datatype channel_request = Exit_status_r u32 | Exit_signal_r text_str | Other_request

definition read_request :: "channel \<Rightarrow> (channel_request \<times> bool) reading" where
  "read_request ch =
     bindS read_u32 (\<lambda>recipient. bindS (liftS (expect_recipient ch recipient)) (\<lambda>_.
     bindS read_text (\<lambda>request. bindS read_u8 (\<lambda>want_reply.
       if request = text_of ''exit-status''
       then bindS read_u32 (\<lambda>status. bindS read_finish (\<lambda>_. retS (Exit_status_r status, want_reply \<noteq> 0)))
       else if request = text_of ''exit-signal''
       then bindS read_text (\<lambda>t. bindS read_u8 (\<lambda>_. bindS read_string (\<lambda>_. bindS read_string (\<lambda>_.
              bindS read_finish (\<lambda>_. retS (Exit_signal_r (plain_text t), want_reply \<noteq> 0))))))
       else retS (Other_request, want_reply \<noteq> 0)))))"

definition on_request ::
  "('w, 'r, 'o) ports \<Rightarrow> nat \<Rightarrow> u8 list \<Rightarrow> ('w, 'r, 'o, 'z, unit) streaming" where
  "on_request h n bs =
     bindS (with_channel (\<lambda>ch. parse_body (read_request ch) bs)) (\<lambda>(request, want_reply).
     bindS (case request of
              Exit_status_r status \<Rightarrow> record_completion (Some status) None
            | Exit_signal_r t \<Rightarrow> record_completion None (Some t)
            | Other_request \<Rightarrow> retS ()) (\<lambda>_.
     bindS (askS (\<lambda>s. remote_id (chan s))) (\<lambda>peer.
       if want_reply then reply h n ([type_byte h Channel_Failure_m] @ be_bytes peer) else retS ())))"

definition STDERR_EXTENDED_DATA :: u32 where
  "STDERR_EXTENDED_DATA = 1"

definition on_packet ::
  "('w, 'r, 'o) ports \<Rightarrow> 'w stream_ports \<Rightarrow> nat \<Rightarrow> packet \<Rightarrow> ('w, 'r, 'o, 'z, unit) streaming" where
  "on_packet h sp n p =
     (case message_type p of
        Data_m \<Rightarrow>
          bindS (liftE (parse_body (bindS read_u32 (\<lambda>recipient. bindS read_string (\<lambda>bs.
            bindS read_finish (\<lambda>_. retS (recipient, bs))))) (payload p))) (\<lambda>(recipient, bs).
            take_data h sp n recipient (Some False) bs)
      | Extended_Data_m \<Rightarrow>
          bindS (liftE (parse_body (bindS read_u32 (\<lambda>recipient. bindS read_u32 (\<lambda>kind. bindS read_string (\<lambda>bs.
            bindS read_finish (\<lambda>_. retS (recipient, kind, bs)))))) (payload p))) (\<lambda>(recipient, kind, bs).
            take_data h sp n recipient (if kind = STDERR_EXTENDED_DATA then Some True else None) bs)
      | Window_Adjust_m \<Rightarrow> on_channel (\<lambda>ch. liftE (window_adjust (payload p) ch))
      | Channel_Request_m \<Rightarrow> on_request h n (payload p)
      | Eof_m \<Rightarrow>
          bindS (with_channel (\<lambda>ch. expect_recipient_only ch (payload p))) (\<lambda>_.
            updS (\<lambda>s. s\<lparr>chan := (chan s)\<lparr>eof_received := True\<rparr>\<rparr>))
      | Close_m \<Rightarrow>
          bindS (with_channel (\<lambda>ch. expect_recipient_only ch (payload p))) (\<lambda>_.
            updS (\<lambda>s. s\<lparr>chan := (chan s)\<lparr>close_received := True\<rparr>\<rparr>))
      | t \<Rightarrow> failE (Protocol_Violated (text_of ''unexpected channel message '' @ type_name h t)))"

section \<open>The loop\<close>

fun take_packets ::
  "('w, 'r, 'o) ports \<Rightarrow> ('w, 'r, 'o, 'e, 'k) crypto \<Rightarrow> client_config \<Rightarrow> 'w stream_ports \<Rightarrow> nat \<Rightarrow>
     ('w, 'r, 'o, 'z, unit) streaming"
where
  "take_packets h c cfg sp 0 = failS Out_Of_Fuel"
| "take_packets h c cfg sp (Suc n) =
     bindS (try_next_packet h c cfg n) (\<lambda>found.
       case found of
         None \<Rightarrow> retS ()
       | Some p \<Rightarrow> bindS (on_packet h sp n p) (\<lambda>_. take_packets h c cfg sp n))"

text \<open>The end of a turn: output goes out, new keys when they are due, and a wait for the peer.\<close>

definition await_events ::
  "('w, 'r, 'o) ports \<Rightarrow> 'w stream_ports \<Rightarrow> nat \<Rightarrow> bool \<Rightarrow> feeding \<Rightarrow> ('w, 'r, 'o, 'z, unit) streaming" where
  "await_events h sp n flushed feeding =
     bindS (askS (\<lambda>s. feeding = Waiting_For_Input \<and> has_input sp \<and> input_descriptor sp (world s))) (\<lambda>input.
     bindS (wait_for h n True (\<not> flushed) input) (\<lambda>ev.
       if ev_in ev \<or> ev_hup ev then bindS (fill_nonblocking h) (\<lambda>_. retS ()) else retS ()))"

fun drive ::
  "('w, 'r, 'o) ports \<Rightarrow> ('w, 'r, 'o, 'e, 'k) crypto \<Rightarrow> client_config \<Rightarrow> 'w stream_ports \<Rightarrow> nat \<Rightarrow>
     ('w, 'r, 'o, 'z, unit) streaming"
where
  "drive h c cfg sp 0 = failS Out_Of_Fuel"
| "drive h c cfg sp (Suc n) =
     bindS (askS (\<lambda>s. is_closed (chan s))) (\<lambda>closed.
       if closed then retS ()
       else
         bindS (check_limits h) (\<lambda>_.
         bindS (take_packets h c cfg sp n) (\<lambda>_.
         bindS (feed h sp n) (\<lambda>feeding.
         bindS (askS (\<lambda>s. close_received (chan s))) (\<lambda>closing.
         bindS (if closing then on_channel (send_close h) else retS ()) (\<lambda>_.
         bindS (flush_nonblocking h n) (\<lambda>flushed.
         bindS (askS (\<lambda>s. is_closed (chan s))) (\<lambda>closed.
           if closed \<and> flushed then retS ()
           else
             bindS (rekey_due h cfg) (\<lambda>due.
               if due then bindS (rekey h c cfg n None) (\<lambda>_. drive h c cfg sp n)
               else if flushed \<and> feeding = Output_Full then drive h c cfg sp n
               else bindS (await_events h sp n flushed feeding) (\<lambda>_. drive h c cfg sp n))))))))))"

section \<open>A command\<close>

fun set_variables ::
  "('w, 'r, 'o) ports \<Rightarrow> ('w, 'r, 'o, 'e, 'k) crypto \<Rightarrow> client_config \<Rightarrow> nat \<Rightarrow>
     (text_str \<times> text_str) list \<Rightarrow> channel \<Rightarrow> ('w, 'r, 'o, 'z, channel) connecting"
where
  "set_variables h c cfg n [] ch = retS ch"
| "set_variables h c cfg n ((nm, v) # env) ch =
     bindS (set_environment h c cfg n nm v ch) (\<lambda>ch. set_variables h c cfg n env ch)"

text \<open>The part of \<open>run\<close> before the loop.\<close>

definition submit ::
  "('w, 'r, 'o) ports \<Rightarrow> ('w, 'r, 'o, 'e, 'k) crypto \<Rightarrow> client_config \<Rightarrow> nat \<Rightarrow> u8 list \<Rightarrow>
     (text_str \<times> text_str) list \<Rightarrow> ('w, 'r, 'o, 'z, channel) connecting"
where
  "submit h c cfg n command env =
     bindS (channel_open h c cfg n) (\<lambda>ch.
     bindS (set_variables h c cfg n env ch) (\<lambda>ch.
     bindS (channel_exec h c cfg n command ch) (\<lambda>ch.
     bindS await_command (\<lambda>_. retS ch))))"

text \<open>The loop with what it leaves: a connection the peer closed after it reported the command's end is
  a result, and the connection cannot be used again.\<close>

definition finish_run ::
  "('w, 'r, 'o) ports \<Rightarrow> (stop + unit) \<times> ('w, 'r, 'o, 'z) session_scheme \<Rightarrow>
     (stop + exec_status) \<times> ('w, 'r, 'o, 'z) session_scheme" where
  "finish_run h outcome =
     (case outcome of
        (Inr u, s) \<Rightarrow> (Inr (completion_status s), s)
      | (Inl (Fail e), s) \<Rightarrow>
          if peer_closed s \<and> is_reported s
          then bindS (mark_unusable h) (\<lambda>_. askS completion_status) s
          else (Inl (Fail e), s)
      | (Inl Out_Of_Fuel, s) \<Rightarrow> (Inl Out_Of_Fuel, s))"

definition start_session :: "'w stream_ports \<Rightarrow> channel \<Rightarrow> ('w, 'r, 'o) connection \<Rightarrow> ('w, 'r, 'o) session" where
  "start_session sp ch s = connection.extend s (session.fields ch None None [] (\<not> has_input sp))"

definition exec_run ::
  "('w, 'r, 'o) ports \<Rightarrow> ('w, 'r, 'o, 'e, 'k) crypto \<Rightarrow> client_config \<Rightarrow> 'w stream_ports \<Rightarrow> nat \<Rightarrow> u8 list \<Rightarrow>
     (text_str \<times> text_str) list \<Rightarrow> (('w, 'r, 'o) connection, stop, exec_status) op"
where
  "exec_run h c cfg sp n command env =
     bindS (submit h c cfg n command env) (\<lambda>ch. (\<lambda>s.
       case finish_run h (drive h c cfg sp n (start_session sp ch s)) of
         (r, s) \<Rightarrow> (r, connection.truncate s)))"

definition failed_exec ::
  "('w, 'r, 'o) ports \<Rightarrow> ssh_error \<Rightarrow> ('w, 'r, 'o, 'z, 'a) connecting" where
  "failed_exec h e =
     bindS (askS certainty_now) (\<lambda>k.
     bindS (mark_unusable h) (\<lambda>_.
       failE (if k = Was_Submitted then after_submission e else e)))"

definition exec_stream ::
  "('w, 'r, 'o) ports \<Rightarrow> ('w, 'r, 'o, 'e, 'k) crypto \<Rightarrow> client_config \<Rightarrow> 'w stream_ports \<Rightarrow> nat \<Rightarrow>
     nat option \<Rightarrow> bool \<Rightarrow> u8 list \<Rightarrow> (text_str \<times> text_str) list \<Rightarrow>
     (('w, 'r, 'o) connection, stop, exec_status) op"
where
  "exec_stream h c cfg sp n timeout can_interrupt command env =
     bindS require_usable (\<lambda>_.
     bindS (liftE (validate_environment h env)) (\<lambda>_.
     bindS (begin_operation h timeout can_interrupt) (\<lambda>_. (\<lambda>s.
       case exec_run h c cfg sp n command env s of
         (outcome, s) \<Rightarrow>
           bindS end_operation (\<lambda>_.
             case outcome of
               Inr status \<Rightarrow> retS status
             | Inl (Fail e) \<Rightarrow> failed_exec h e
             | Inl Out_Of_Fuel \<Rightarrow> failS Out_Of_Fuel) s))))"

end
