(* ===== verification/Xsh_Ssh_Scripted.thy ===== *)
theory Xsh_Ssh_Scripted
  imports Xsh_Ssh_Exec
begin

text \<open>
  A scripted peer, on which the properties of the SSH client are tried out: the ports hand out the packets
  of a list and log the packets that are encoded, the clock counts its readings, and the socket has nothing
  to read for a while and is closed then. The cryptography accepts a signature that equals the digest.
\<close>

definition scripted_ports :: "(nat, packet list, u8 list list) ports" where
  "scripted_ports = \<lparr>
     type_byte = (\<lambda>t. if t = Channel_Request_m then 98 else 20),
     type_name = (\<lambda>_. []),
     quoted = id,
     clock = (\<lambda>w. (w, w + 1)),
     interrupts = (\<lambda>w. (False, w)),
     socket_read = (\<lambda>_ w. (Inr [], w)),
     socket_write = (\<lambda>bs w. (Inr (length bs), w)),
     socket_poll = (\<lambda>_ _ _ _ w.
       (Inr (if w < 5 then None else Some \<lparr>ev_in = True, ev_hup = False, ev_err = False, ev_nval = False\<rparr>), w)),
     socket_error = (\<lambda>w. (None, w)),
     socket_shutdown = id,
     extend_input = (\<lambda>_ r. r),
     input_length = (\<lambda>_. 0),
     poll_packet = (\<lambda>r. (Inr (if r = [] then None else Some (0, 0)), r)),
     decode_packet = (\<lambda>_ _ r. (case r of [] \<Rightarrow> (Inl (Codec_failed []), []) | p # ps \<Rightarrow> (Inr p, ps))),
     encode_packet = (\<lambda>bs w. (Inr (), w @ [bs])),
     append_raw = (\<lambda>_ w. w),
     buffered = (\<lambda>_. []),
     note_written = (\<lambda>_ w. (Inr (), w))\<rparr>"

definition scripted_crypto :: "(nat, packet list, u8 list list, unit, unit) crypto" where
  "scripted_crypto = \<lparr>
     random_cookie = (\<lambda>w. (Inr (replicate 16 0), w)),
     new_x25519 = (\<lambda>w. (Inr (), w)),
     x25519_public = (\<lambda>_. [1]),
     x25519_peer = (\<lambda>_. None),
     x25519_agree = (\<lambda>_ _. Inr [2]),
     new_mlkem = (\<lambda>w. (Inr (), w)),
     mlkem_public = (\<lambda>_. [3]),
     decapsulate = (\<lambda>_ _. [4]),
     encode_mpint = id,
     encode_digest = id,
     prefixed = put_string,
     hash_for = (\<lambda>_. Inr (\<lambda>_. [7])),
     base64_nopad = map unat,
     is_ed25519 = (\<lambda>t. t = ED25519),
     algorithm_debug = id,
     verifying_key = (\<lambda>_. None),
     bad_signature = (\<lambda>_ digest sig. if sig = digest then None else Some []),
     derive_key = (\<lambda>_ _ _ _ _. Inr ()),
     seal_with = (\<lambda>_ w. Inr w),
     open_with = (\<lambda>_ r. Inr r),
     restart_writing = id,
     restart_reading = id\<rparr>"

definition scripted_transport :: "packet list \<Rightarrow> (nat, packet list, u8 list list) transport" where
  "scripted_transport script = \<lparr>
     world = 0, reading = script, writing = [], client_id = [65], server_id = [66],
     certainty_now = Not_Submitted, idle = 100, deadline = Some 90, interruptible = False, last_progress = 0,
     write_progress = 0, kex_bytes = 0, kex_packets = 0, kex_started = 0, awaiting_command = False,
     peer_closed = False\<rparr>"

definition scripted_key :: "u8 list \<Rightarrow> u8 list" where
  "scripted_key bs = put_string (as_bytes ED25519) @ put_string bs"

definition scripted_proposal :: packet where
  "scripted_proposal = \<lparr>message_type = Kex_Init_m, payload =
     replicate 16 0 @ put_name_list [CLASSICAL_KEX, STRICT_KEX_SERVER] @ put_name_list HOST_KEY_ALGORITHMS @
     put_name_list ENCRYPTION_ALGORITHMS @ put_name_list ENCRYPTION_ALGORITHMS @
     put_name_list MAC_ALGORITHMS @ put_name_list MAC_ALGORITHMS @
     put_name_list COMPRESSION_ALGORITHMS @ put_name_list COMPRESSION_ALGORITHMS @
     put_name_list [] @ put_name_list [] @ [0] @ be_bytes 0\<rparr>"

definition scripted_exchange :: "packet list" where
  "scripted_exchange =
     [scripted_proposal,
      \<lparr>message_type = Ecdh_Reply_m, payload =
         put_string (scripted_key [5]) @ put_string [6] @ put_string (scripted_key [7])\<rparr>,
      \<lparr>message_type = New_Keys_m, payload = []\<rparr>]"

definition scripted_context :: kex_context where
  "scripted_context =
     \<lparr>ctx_host = text_of ''a.b'', ctx_port = 22,
      ctx_trust = Known_Hosts [\<lparr>revoked = False, patterns = [text_of ''a.b''], key_blob = scripted_key [5]\<rparr>]\<rparr>"

definition scripted_config :: client_config where
  "scripted_config = \<lparr>cfg_context = scripted_context,
     cfg_session = \<lparr>sess_id = [7], sess_strict = True, sess_host_key = scripted_key [5]\<rparr>,
     rekey_bytes = 1000, rekey_packets = 1000, rekey_interval = 1000, phase_deadline = 50\<rparr>"

definition scripted_connection :: "packet list \<Rightarrow> (nat, packet list, u8 list list) connection" where
  "scripted_connection script =
     transport.extend (scripted_transport script)
       (connection.fields \<lparr>alg_kex = [], alg_host_key = [], alg_outgoing = [], alg_incoming = []\<rparr> [] True)"

definition no_streams :: "nat stream_ports" where
  "no_streams = \<lparr>has_input = False, input_descriptor = (\<lambda>_. False), input_ready = (\<lambda>w. (False, w)),
     input_read = (\<lambda>w. (Inr [], w)), sink_write = (\<lambda>_ _ w. (Inr (), w))\<rparr>"

section \<open>The proposal is read back\<close>

lemma read_u8_before: "read_u8 (before a (b # bs)) = (Inr b, before (a @ [b]) bs)"
  by (simp add: read_u8_def before_def)

lemma skip_before: "skip_u8s (length v) (before a (v @ b)) = (Inr (), before (a @ v) b)"
  by (induction v arbitrary: a) (simp_all add: bindS_def read_u8_before)

lemma finish_before: "read_finish (before a []) = (Inr (), before a [])"
  by (simp add: read_finish_def before_def)

text \<open>The names a list can carry.\<close>

definition names_ok :: "text_str list \<Rightarrow> bool" where
  "names_ok names \<longleftrightarrow> text_ok (join_with 44 names) \<and> tlen (join_with 44 names) < 4294967296 \<and>
     (names = [] \<or> join_with 44 names \<noteq> []) \<and> (\<forall>x \<in> set names. 44 \<notin> set x)"

lemma read_names_before:
  assumes "names_ok names"
  shows "read_name_list (before a (put_name_list names @ b)) = (Inr names, before (a @ put_name_list names) b)"
proof -
  have "(if join_with 44 names = [] then [] else split_on 44 (join_with 44 names)) = names"
    using assms by (cases "names = []") (auto simp: names_ok_def split_join)
  then show ?thesis
    using read_text_before [of "join_with 44 names" a b] assms
    by (simp add: read_name_list_def put_name_list_def names_ok_def bindS_def)
qed

lemma kexinit_read:
  assumes "length cookie = 16" and "list_all names_ok [kex, key, e1, e2, m1, m2, c1, c2, l1, l2]"
  shows "parse_kexinit (cookie @ put_name_list kex @ put_name_list key @ put_name_list e1 @ put_name_list e2 @
      put_name_list m1 @ put_name_list m2 @ put_name_list c1 @ put_name_list c2 @ put_name_list l1 @
      put_name_list l2 @ [guess] @ be_bytes 0) =
    Inr \<lparr>si_kex = kex, si_host_key = key, si_encryption_out = e1, si_encryption_in = e2,
      si_compression_out = c1, si_compression_in = c2, si_guessed = (guess \<noteq> 0)\<rparr>"
proof -
  have skip: "skip_u8s 16 (before a (cookie @ b)) = (Inr (), before (a @ cookie) b)" for a b
    using skip_before [of cookie a b] assms(1) by simp
  have word: "read_u32 (before a (be_bytes 0)) = (Inr 0, before (a @ be_bytes 0) [])" for a
    using read_u32_before [of a 0 "[]"] by simp
  show ?thesis
    using assms(2)
    by (simp add: parse_kexinit_def parse_body_def reader_new_before read_kexinit_def bindS_def skip
        read_names_before read_u8_before word finish_before del: skip_u8s.simps)
qed

lemma names_ok_ours:
  "names_ok [CLASSICAL_KEX, STRICT_KEX_SERVER]" "names_ok HOST_KEY_ALGORITHMS" "names_ok ENCRYPTION_ALGORITHMS"
  "names_ok MAC_ALGORITHMS" "names_ok COMPRESSION_ALGORITHMS" "names_ok []"
  by (simp_all add: names_ok_def CLASSICAL_KEX_def STRICT_KEX_SERVER_def HOST_KEY_ALGORITHMS_def ED25519_def
      ENCRYPTION_ALGORITHMS_def MAC_ALGORITHMS_def COMPRESSION_ALGORITHMS_def text_of_def is_scalar_def len_utf8_def)

definition scripted_offer :: server_init where
  "scripted_offer = \<lparr>si_kex = [CLASSICAL_KEX, STRICT_KEX_SERVER], si_host_key = HOST_KEY_ALGORITHMS,
     si_encryption_out = ENCRYPTION_ALGORITHMS, si_encryption_in = ENCRYPTION_ALGORITHMS,
     si_compression_out = COMPRESSION_ALGORITHMS, si_compression_in = COMPRESSION_ALGORITHMS, si_guessed = False\<rparr>"

lemma scripted_proposal_read: "parse_kexinit (payload scripted_proposal) = Inr scripted_offer"
  using kexinit_read [of "replicate 16 0" "[CLASSICAL_KEX, STRICT_KEX_SERVER]" HOST_KEY_ALGORITHMS ENCRYPTION_ALGORITHMS
      ENCRYPTION_ALGORITHMS MAC_ALGORITHMS MAC_ALGORITHMS COMPRESSION_ALGORITHMS COMPRESSION_ALGORITHMS "[]" "[]" 0]
    names_ok_ours by (simp add: scripted_proposal_def scripted_offer_def)

definition scripted_algorithms :: algorithms where
  "scripted_algorithms = \<lparr>alg_kex = CLASSICAL_KEX, alg_host_key = ED25519,
     alg_outgoing = text_of ''aes128-gcm@openssh.com'', alg_incoming = text_of ''aes128-gcm@openssh.com''\<rparr>"

lemma scripted_negotiated:
  "negotiate scripted_offer b = Inr \<lparr>n_kex = Classical, n_cipher_out = Aes128_Gcm, n_cipher_in = Aes128_Gcm,
     n_strict = True, n_names = scripted_algorithms\<rparr>"
proof -
  have "HYBRID_KEX \<noteq> CLASSICAL_KEX" "HYBRID_KEX \<noteq> STRICT_KEX_SERVER"
    by (simp_all add: HYBRID_KEX_def CLASSICAL_KEX_def STRICT_KEX_SERVER_def text_of_def)
  then show ?thesis
    by (simp add: negotiate_def scripted_offer_def first_common_def KEX_ALGORITHMS_def HOST_KEY_ALGORITHMS_def
        ENCRYPTION_ALGORITHMS_def COMPRESSION_ALGORITHMS_def encryption_def ok_or_def scripted_algorithms_def)
qed

section \<open>The exchange\<close>

lemma put_string_fits [simp]: "length v < 4294967296 \<Longrightarrow> read_string (before a (put_string v)) = (Inr v, before (a @ put_string v) [])"
  using read_string_before [of v a "[]"] by simp

lemma text_fits [simp]:
  "text_ok s \<Longrightarrow> tlen s < 4294967296 \<Longrightarrow>
     read_text (before a (put_string (as_bytes s) @ b)) = (Inr s, before (a @ put_string (as_bytes s)) b)"
  by (rule read_text_before)

lemma ed25519_ok [simp]: "text_ok ED25519" "tlen ED25519 = 11"
  by (simp_all add: ED25519_def text_of_def is_scalar_def len_utf8_def)

lemma length_scripted_key [simp]: "length (scripted_key bs) = length bs + 19"
  by (simp add: scripted_key_def put_string_def)

lemma scripted_reply_read:
  "parse_body read_reply (put_string (scripted_key [5]) @ put_string [6] @ put_string (scripted_key [7])) =
     Inr (scripted_key [5], [6], scripted_key [7])"
  by (simp add: parse_body_def reader_new_before read_reply_def bindS_def read_string_before finish_before)

lemma scripted_verified: "verify_host_key scripted_crypto (scripted_key [5]) (scripted_key [7]) [7] = Inr ()"
  by (simp add: verify_host_key_def scripted_key_def [of "[5]"] scripted_key_def [of "[7]"] parse_body_def
      reader_new_before bindS_def finish_before scripted_crypto_def)

lemma scripted_trusted: "trust_verify (ctx_trust scripted_context) (ctx_host scripted_context) (ctx_port scripted_context)
    (scripted_key [5]) fp = Inr ()"
proof -
  let ?e = "\<lparr>revoked = False, patterns = [text_of ''a.b''], key_blob = scripted_key [5]\<rparr>"
  have "endpoint_name (text_of ''a.b'') 22 = [97, 46, 98]"
    by (simp add: endpoint_name_def to_ascii_lowercase_def lower_def text_of_def)
  moreover have "covers ?e [97, 46, 98]"
    by (simp add: covers_def negated_def text_of_def encode_utf8_def)
  moreover have "entry_matches ?e [97, 46, 98] = covers ?e [97, 46, 98]"
    by (rule entry_covers) (simp_all add: is_scalar_def encode_utf8_def)
  ultimately show ?thesis
    by (simp add: scripted_context_def trust_verify_def judge_def)
qed

lemmas scripted_steps =
  exchange_def exchange_inits_def install_keys_def new_ephemeral_def kex_receive.simps recv.simps try_recv_def send_raw_def
  encode_raw_def note_enqueue_def has_pending_output_def flush_output.simps flush_nonblocking.simps
  on_world_def on_reading_def on_writing_def now_def bindS_def askS_def liftE_def failE_def
  Let_def generated_def provided_def fingerprint_def same_host_key_def agree_with_def is_connection_layer_def

lemma scripted_message: "message_type scripted_proposal = Kex_Init_m"
  by (simp add: scripted_proposal_def)

lemma scripted_ports_simps [simp]:
  "type_byte scripted_ports m = (if m = Channel_Request_m then 98 else 20)" "type_name scripted_ports m = []"
  "clock scripted_ports w = (w, w + 1)" "interrupts scripted_ports w = (False, w)"
  "encode_packet scripted_ports bs l = (Inr (), l @ [bs])" "buffered scripted_ports l = []"
  "poll_packet scripted_ports r = (Inr (if r = [] then None else Some (0, 0)), r)"
  "decode_packet scripted_ports i j r = (case r of [] \<Rightarrow> (Inl (Codec_failed []), []) | p # ps \<Rightarrow> (Inr p, ps))"
  "socket_read scripted_ports k w = (Inr [], w)" "note_written scripted_ports k l = (Inr (), l)"
  "socket_poll scripted_ports x y z d w =
     (Inr (if w < 5 then None else Some \<lparr>ev_in = True, ev_hup = False, ev_err = False, ev_nval = False\<rparr>), w)"
  by (simp_all add: scripted_ports_def)

lemma scripted_crypto_simps [simp]:
  "random_cookie scripted_crypto w = (Inr (replicate 16 0), w)" "new_x25519 scripted_crypto w = (Inr (), w)"
  "x25519_public scripted_crypto e = [1]" "x25519_peer scripted_crypto bs = None"
  "x25519_agree scripted_crypto e bs = Inr [2]" "encode_mpint scripted_crypto bs = bs"
  "prefixed scripted_crypto bs = put_string bs" "hash_for scripted_crypto k = Inr (\<lambda>_. [7])"
  "base64_nopad scripted_crypto bs = map unat bs" "derive_key scripted_crypto b i x y v = Inr ()"
  "seal_with scripted_crypto u l = Inr l" "open_with scripted_crypto u r = Inr r"
  "restart_writing scripted_crypto l = l" "restart_reading scripted_crypto r = r"
  by (simp_all add: scripted_crypto_def)

lemma scripted_exchanged:
  "\<exists>t. exchange scripted_ports scripted_crypto (Suc (Suc (Suc n))) scripted_context None None None (scripted_transport scripted_exchange) =
     (Inr (\<lparr>est_session = [7], est_fingerprint = text_of ''SHA256:'' @ [7], est_host_key = scripted_key [5],
        est_strict = True, est_algorithms = scripted_algorithms\<rparr>, None), t)"
  using scripted_proposal_read scripted_negotiated scripted_reply_read scripted_verified scripted_trusted scripted_message
  by (simp add: scripted_steps scripted_exchange_def scripted_transport_def)

definition held_packet :: packet where
  "held_packet = \<lparr>message_type = Data_m, payload = [1]\<rparr>"

lemma scripted_rekeyed:
  "\<exists>t. kex_rekey scripted_ports scripted_crypto (Suc (Suc (Suc n))) scripted_context (cfg_session scripted_config) None
      (scripted_transport (held_packet # scripted_exchange)) = (Inr (scripted_algorithms, [held_packet]), t)"
  using scripted_proposal_read scripted_negotiated scripted_reply_read scripted_verified scripted_trusted scripted_message
  by (simp add: kex_rekey_def scripted_steps scripted_exchange_def scripted_transport_def scripted_config_def
      queue_new_def held_packet_def queue_admit_def MAX_QUEUED_PACKETS_def MAX_QUEUED_BYTES_def LOCAL_WINDOW_def)

lemma scripted_usable [simp]:
  "usable (scripted_connection script)" "writing (scripted_connection script) = []"
  by (simp_all add: scripted_connection_def scripted_transport_def transport.defs connection.defs)

lemma scripted_closed:
  "\<exists>t. exec_stream scripted_ports scripted_crypto scripted_config no_streams (Suc (Suc (Suc (Suc (Suc (Suc (Suc (Suc n)))))))) None False [1] []
      (scripted_connection []) = (Inl (Fail (Failed_Before (text_of ''connection closed''))), t)"
  by (simp add: exec_stream_def require_usable_def validate_environment_def begin_operation_def exec_run_def submit_def
      channel_open_def next_packet_def scripted_steps scripted_connection_def scripted_transport_def transport.defs connection.defs
      pop_pending_def rekey_if_due_def rekey_due_def kex_usage_def scripted_config_def wait_for.simps check_limits_def
      is_interrupted_def over_limit_def idle_bound_def poll_time_def INTERRUPT_POLL_def reports_socket_failure_def
      fill_nonblocking_def fail_transport_def attributed_def end_operation_def failed_exec_def mark_unusable_def shutdown_def
      MAX_ENVIRONMENT_def word_le_nat_alt)

end
