(* ===== verification/Xsh_Ssh_Exchange.thy ===== *)
theory Xsh_Ssh_Exchange
  imports Xsh_Ssh_Scripted
begin

text \<open>
  What a key exchange has checked when it ends well, what it holds back meanwhile, and that a wait under a
  deadline ends.
\<close>

section \<open>What a key exchange has checked\<close>

lemma liftE_eq_Inr [simp]: "liftE r s = (Inr a, t) \<longleftrightarrow> r = Inr a \<and> t = s"
  by (auto simp: liftE_def failE_def split: sum.splits)

lemma askS_eq_Inr [simp]: "askS f s = (Inr a, t) \<longleftrightarrow> a = f s \<and> t = s"
  by (auto simp: askS_def)

lemma negotiated_strict: "negotiate server True = Inr neg \<Longrightarrow> n_strict neg"
  by (auto simp: negotiate_def Let_def split: if_splits)

lemma same_key: "same_host_key c (Some f) blob = Inr u \<Longrightarrow> blob = sess_host_key f"
  by (auto simp: same_host_key_def split: if_splits)

lemma bindS_InrE:
  assumes "bindS m f s = (Inr b, t)"
  obtains a u where "m s = (Inr a, u)" and "f a u = (Inr b, t)"
  using assms by (auto simp: bindS_eq_Inr)

lemma caseS_InrE:
  assumes "(case p of (x, y) \<Rightarrow> g x y) s = (Inr b, t)"
  obtains x y where "p = (x, y)" and "g x y s = (Inr b, t)"
  using assms by (cases p) auto

lemma liftE_InrE:
  assumes "liftE r s = (Inr a, t)"
  obtains "r = Inr a" and "t = s"
  using assms by simp

lemma askS_InrE:
  assumes "askS f s = (Inr a, t)"
  obtains "a = f s" and "t = s"
  using assms by simp

text \<open>The steps of an exchange that ended well.\<close>

lemma exchange_steps:
  fixes s :: "('w, 'r, 'o, 'z) transport_scheme"
  assumes "exchange h c n ctx session server_kexinit queue s = (Inr (est, queue'), t)"
  obtains ours theirs q1 s1 server neg hash ephemeral answer q2 public sig secret ko ki u1 u2 u3
    and s2 s3 s4 :: "('w, 'r, 'o, 'z) transport_scheme" where
    "exchange_inits h c n server_kexinit queue s = (Inr (ours, theirs, q1), s1)"
    and "parse_kexinit (payload theirs) = Inr server"
    and "negotiate server (session = None) = Inr neg"
    and "hash_for c (n_kex neg) = Inr hash"
    and "kex_receive h n Ecdh_Reply_m q1 s2 = (Inr (answer, q2), s3)"
    and "same_host_key c session (est_host_key est) = Inr u1"
    and "fingerprint c (est_host_key est) = Inr (est_fingerprint est)"
    and "trust_verify (ctx_trust ctx) (ctx_host ctx) (ctx_port ctx) (est_host_key est) (est_fingerprint est) = Inr u2"
    and "verify_host_key c (est_host_key est) sig (hash ((prefixed c (client_id s) @ prefixed c (server_id s)) @
        prefixed c ours @ prefixed c (type_byte h (message_type theirs) # payload theirs) @
        prefixed c (est_host_key est) @ prefixed c (public_key c ephemeral) @ prefixed c public @ secret)) = Inr u3"
    and "install_keys h c n (est_strict est) ko ki q2 s4 = (Inr queue', t)"
    and "est_session est = (case session of
        None \<Rightarrow> hash ((prefixed c (client_id s) @ prefixed c (server_id s)) @
          prefixed c ours @ prefixed c (type_byte h (message_type theirs) # payload theirs) @
          prefixed c (est_host_key est) @ prefixed c (public_key c ephemeral) @ prefixed c public @ secret)
      | Some f \<Rightarrow> sess_id f)"
    and "est_strict est = (case session of None \<Rightarrow> n_strict neg | Some f \<Rightarrow> sess_strict f)"
    and "est_algorithms est = n_names neg"
  using assms unfolding exchange_def Let_def
  apply (elim bindS_InrE caseS_InrE liftE_InrE askS_InrE)
  apply (simp only: retS_app prod.inject sum.inject provided_Inr)
  apply (elim conjE)
  apply (hypsubst_thin)+
  subgoal premises prems
    by (rule prems(1)) (rule prems(2-) refl | simp only: established.select_convs)+
  done

text \<open>C11: A key exchange ends well only with a host the caller trusts. The host key is the one the trust
  policy accepts for the host and port, under the fingerprint computed from it; its signature holds over
  an exchange hash that covers both identifications, the server's proposal and the host key; the
  algorithms are the ones negotiated from that proposal, and the first exchange is strict. A later
  exchange keeps the host key, the session identifier and the strictness of the first.\<close>

theorem exchange_authenticates:
  fixes s :: "('w, 'r, 'o, 'z) transport_scheme"
  assumes "exchange h c n ctx session server_kexinit queue s = (Inr (est, queue'), t)"
  shows "trust_verify (ctx_trust ctx) (ctx_host ctx) (ctx_port ctx) (est_host_key est) (est_fingerprint est) = Inr () \<and>
    fingerprint c (est_host_key est) = Inr (est_fingerprint est) \<and>
    (\<exists>(theirs :: packet) server neg hash ours rest sig.
       parse_kexinit (payload theirs) = Inr server \<and> negotiate server (session = None) = Inr neg \<and>
       est_algorithms est = n_names neg \<and> hash_for c (n_kex neg) = Inr hash \<and>
       (let digest = hash (prefixed c (client_id s) @ prefixed c (server_id s) @ prefixed c ours @
              prefixed c (type_byte h (message_type theirs) # payload theirs) @ prefixed c (est_host_key est) @ rest)
        in verify_host_key c (est_host_key est) sig digest = Inr () \<and>
           (session = None \<longrightarrow> est_session est = digest))) \<and>
    (case session of
       None \<Rightarrow> est_strict est
     | Some f \<Rightarrow> est_host_key est = sess_host_key f \<and> est_session est = sess_id f \<and> est_strict est = sess_strict f)"
  using assms
proof (rule exchange_steps)
  fix ours q1 s1 server neg ephemeral answer q2 public sig secret ko ki u1 u2 u3
    and theirs :: packet and hash :: "u8 list \<Rightarrow> u8 list" and s2 s3 s4 :: "('w, 'r, 'o, 'z) transport_scheme"
  let ?digest = "hash ((prefixed c (client_id s) @ prefixed c (server_id s)) @
      prefixed c ours @ prefixed c (type_byte h (message_type theirs) # payload theirs) @
      prefixed c (est_host_key est) @ prefixed c (public_key c ephemeral) @ prefixed c public @ secret)"
  assume neg: "parse_kexinit (payload theirs) = Inr server" "negotiate server (session = None) = Inr neg"
      "hash_for c (n_kex neg) = Inr hash" "est_algorithms est = n_names neg"
    and key: "same_host_key c session (est_host_key est) = Inr u1" "fingerprint c (est_host_key est) = Inr (est_fingerprint est)"
      "trust_verify (ctx_trust ctx) (ctx_host ctx) (ctx_port ctx) (est_host_key est) (est_fingerprint est) = Inr u2"
    and sig: "verify_host_key c (est_host_key est) sig ?digest = Inr u3"
    and session: "est_session est = (case session of None \<Rightarrow> ?digest | Some f \<Rightarrow> sess_id f)"
      "est_strict est = (case session of None \<Rightarrow> n_strict neg | Some f \<Rightarrow> sess_strict f)"
  have "case session of None \<Rightarrow> est_strict est
     | Some f \<Rightarrow> est_host_key est = sess_host_key f \<and> est_session est = sess_id f \<and> est_strict est = sess_strict f"
    using neg(2) key(1) session negotiated_strict [of server neg] same_key [of c _ "est_host_key est"]
    by (cases session) auto
  moreover have "\<exists>(theirs :: packet) server neg hash ours rest sig.
       parse_kexinit (payload theirs) = Inr server \<and> negotiate server (session = None) = Inr neg \<and>
       est_algorithms est = n_names neg \<and> hash_for c (n_kex neg) = Inr hash \<and>
       (let digest = hash (prefixed c (client_id s) @ prefixed c (server_id s) @ prefixed c ours @
              prefixed c (type_byte h (message_type theirs) # payload theirs) @ prefixed c (est_host_key est) @ rest)
        in verify_host_key c (est_host_key est) sig digest = Inr () \<and>
           (session = None \<longrightarrow> est_session est = digest))"
    unfolding Let_def
    by (rule exI [of _ theirs], rule exI [of _ server], rule exI [of _ neg], rule exI [of _ hash], rule exI [of _ ours],
        rule exI [of _ "prefixed c (public_key c ephemeral) @ prefixed c public @ secret"], rule exI [of _ sig])
      (use neg sig session(1) in simp)
  ultimately show ?thesis using key(2,3) by simp
qed

theorem exchange_authenticates_witness:
  "\<exists>est :: established. trust_verify (ctx_trust scripted_context) (ctx_host scripted_context) (ctx_port scripted_context)
      (est_host_key est) (est_fingerprint est) = Inr () \<and> est_host_key est = scripted_key [5] \<and>
    fingerprint scripted_crypto (est_host_key est) = Inr (est_fingerprint est) \<and> est_strict est"
proof -
  obtain t where "exchange scripted_ports scripted_crypto 3 scripted_context None None None (scripted_transport scripted_exchange) =
      (Inr (\<lparr>est_session = [7], est_fingerprint = text_of ''SHA256:'' @ [7], est_host_key = scripted_key [5],
         est_strict = True, est_algorithms = scripted_algorithms\<rparr>, None), t)"
    using scripted_exchanged [of 0] by (auto simp: numeral_3_eq_3)
  from exchange_authenticates [OF this] show ?thesis
    by (auto intro!: exI [of _ "\<lparr>est_session = [7], est_fingerprint = text_of ''SHA256:'' @ [7], est_host_key = scripted_key [5],
         est_strict = True, est_algorithms = scripted_algorithms\<rparr>"])
qed

section \<open>The queue of a key exchange\<close>

definition queue_ok :: "kex_queue \<Rightarrow> bool" where
  "queue_ok q \<longleftrightarrow>
     length (q_packets q) \<le> MAX_QUEUED_PACKETS \<and> q_bytes q \<le> MAX_QUEUED_BYTES \<and>
     q_bytes q = sum_list (map (\<lambda>p. length (payload p) + 1) (q_packets q)) \<and>
     list_all (\<lambda>p. is_connection_layer (message_type p)) (q_packets q)"

text \<open>Once the peer's proposal was seen, the queue stays as it is.\<close>

definition queue_grows :: "kex_queue option \<Rightarrow> kex_queue option \<Rightarrow> bool" where
  "queue_grows queue queue' \<longleftrightarrow>
     (case queue of
        None \<Rightarrow> queue' = None
      | Some q \<Rightarrow> \<exists>q'. queue' = Some q' \<and> (queue_ok q \<longrightarrow> queue_ok q') \<and>
          (q_init_seen q \<longrightarrow> q' = q))"

lemma grows_refl [simp]: "queue_grows q q"
  by (auto simp: queue_grows_def split: option.splits)

lemma grows_trans: "queue_grows a b \<Longrightarrow> queue_grows b d \<Longrightarrow> queue_grows a d"
  by (auto simp: queue_grows_def split: option.splits)

lemma admit_grows:
  assumes "queue_admit name p q = Inr q'" and "is_connection_layer (message_type p)"
  shows "queue_grows (Some q) (Some q')"
  using assms by (auto simp: queue_admit_def Let_def queue_grows_def queue_ok_def MAX_QUEUED_PACKETS_def split: if_splits)

lemma receive_grows: "kex_receive h n expected queue s = (Inr (p, queue'), t) \<Longrightarrow> queue_grows queue queue'"
proof (induction n arbitrary: queue s)
  case (Suc n)
  obtain p1 s1 where p1: "recv h n s = (Inr p1, s1)" using Suc.prems by (auto simp: bindS_eq_Inr)
  note rest = Suc.prems [unfolded kex_receive.simps bindS_eq_Inr p1]
  show ?case
  proof (cases "message_type p1 \<noteq> expected \<and> queue \<noteq> None \<and> is_connection_layer (message_type p1)")
    case True
    then obtain q q1 where "queue = Some q" "queue_admit (type_name h) p1 q = Inr q1"
      "kex_receive h n expected (Some q1) s1 = (Inr (p, queue'), t)" "is_connection_layer (message_type p1)"
      using rest by (auto simp: bindS_eq_Inr)
    then show ?thesis using Suc.IH admit_grows grows_trans by blast
  next
    case False
    then show ?thesis using rest Suc.IH by (auto simp: failE_def split: if_splits)
  qed
qed (simp add: failE_def)

definition noted :: "kex_queue option \<Rightarrow> kex_queue option" where
  "noted = map_option (\<lambda>q. q\<lparr>q_init_seen := True\<rparr>)"

lemma inits_grow:
  assumes "exchange_inits h c n server_kexinit queue s = (Inr (ours, theirs, queue'), t)"
  shows "if server_kexinit = None then \<exists>q. queue_grows queue q \<and> queue' = noted q else queue' = queue"
  using assms
  by (auto simp: exchange_inits_def Let_def bindS_eq_Inr noted_def dest: receive_grows split: option.splits)

lemma install_grows: "install_keys h c n strict ko ki queue s = (Inr queue', t) \<Longrightarrow> queue_grows queue queue'"
  by (auto simp: install_keys_def bindS_eq_Inr dest: receive_grows)

lemma exchange_queue:
  fixes s :: "('w, 'r, 'o, 'z) transport_scheme"
  assumes "exchange h c n ctx session server_kexinit queue s = (Inr (est, queue'), t)"
  shows "\<exists>q. (if server_kexinit = None then \<exists>q0. queue_grows queue q0 \<and> q = noted q0 else q = queue) \<and>
    queue_grows q queue'"
  using assms
proof (rule exchange_steps)
  fix ours theirs q1 s1 answer q2 ko ki and s2 s3 s4 :: "('w, 'r, 'o, 'z) transport_scheme"
  assume "exchange_inits h c n server_kexinit queue s = (Inr (ours, theirs, q1), s1)"
    and "kex_receive h n Ecdh_Reply_m q1 s2 = (Inr (answer, q2), s3)"
    and "install_keys h c n (est_strict est) ko ki q2 s4 = (Inr queue', t)"
  note steps = inits_grow [OF this(1)] receive_grows [OF this(2)] install_grows [OF this(3)]
  show ?thesis using steps(1) grows_trans [OF steps(2,3)] by (intro exI [of _ q1]) auto
qed

text \<open>C16: What a re-key holds back is bounded. The packets it returns for later are of the connection layer,
  at most 4096 of at most 2359296 bytes with their types, in the order the peer sent them before its proposal; a
  re-key the peer began holds none back.\<close>

theorem rekey_queue_bounded:
  assumes "kex_rekey h c n ctx session server_kexinit s = (Inr (algs, packets), t)"
  shows "length packets \<le> 4096 \<and> sum_list (map (\<lambda>p. length (payload p) + 1) packets) \<le> 2359296 \<and>
    list_all (\<lambda>p. is_connection_layer (message_type p)) packets \<and>
    (server_kexinit \<noteq> None \<longrightarrow> packets = [])"
proof -
  let ?new = "queue_new (server_kexinit \<noteq> None)"
  obtain est queue' where ex: "exchange h c n ctx (Some session) server_kexinit (Some ?new) s = (Inr (est, queue'), t)"
    and packets: "packets = (case queue' of Some q \<Rightarrow> q_packets q | None \<Rightarrow> [])"
    using assms by (auto simp: kex_rekey_def bindS_eq_Inr)
  have new: "queue_ok ?new" by (simp add: queue_ok_def queue_new_def)
  have "\<exists>q'. queue' = Some q' \<and> queue_ok q' \<and> (server_kexinit \<noteq> None \<longrightarrow> q' = ?new)"
    using exchange_queue [OF ex] new
    by (cases "server_kexinit = None") (auto simp: queue_grows_def noted_def queue_ok_def queue_new_def)
  then show ?thesis
    by (auto simp: packets queue_ok_def queue_new_def MAX_QUEUED_PACKETS_def MAX_QUEUED_BYTES_def LOCAL_WINDOW_def)
qed

theorem rekey_queue_bounded_witness:
  "length [held_packet] \<le> 4096 \<and> is_connection_layer (message_type held_packet)"
proof -
  obtain t where "kex_rekey scripted_ports scripted_crypto 3 scripted_context (cfg_session scripted_config) None
      (scripted_transport (held_packet # scripted_exchange)) = (Inr (scripted_algorithms, [held_packet]), t)"
    using scripted_rekeyed [of 0] by (auto simp: numeral_3_eq_3)
  from rekey_queue_bounded [OF this] show ?thesis by simp
qed

section \<open>Waiting\<close>

text \<open>The clock goes on at each reading, and nothing else turns it back.\<close>

definition clock_goes_on :: "('w, 'r, 'o) ports \<Rightarrow> bool" where
  "clock_goes_on h \<longleftrightarrow>
     (\<forall>w. fst (clock h w) < fst (clock h (snd (clock h w)))) \<and>
     (\<forall>w. fst (clock h w) \<le> fst (clock h (snd (interrupts h w)))) \<and>
     (\<forall>a b d limit w. fst (clock h w) \<le> fst (clock h (snd (socket_poll h a b d limit w))))"

lemma checked_goes_on:
  assumes "clock_goes_on h" and "check_limits h s = (Inr (), t)"
  shows "fst (clock h (world s)) < fst (clock h (world t)) \<and> deadline t = deadline s \<and>
    (\<forall>d. deadline s = Some d \<longrightarrow> fst (clock h (world s)) < d)"
proof -
  define i where "i = (if interruptible s then snd (interrupts h (world s)) else world s)"
  have t: "t = s\<lparr>world := snd (clock h i)\<rparr>" "\<not> over_limit h (fst (clock h i)) (s\<lparr>world := snd (clock h i)\<rparr>)"
    using assms(2)
    by (auto simp: i_def check_limits_def bindS_eq_Inr failE_def is_interrupted_def on_world_def now_def
        split: if_splits prod.splits)
  have "fst (clock h (world s)) \<le> fst (clock h i)" "fst (clock h i) < fst (clock h (snd (clock h i)))"
    using assms(1) by (simp_all add: clock_goes_on_def i_def)
  then show ?thesis using t by (auto simp: over_limit_def)
qed

lemma bindS_fuel:
  "fst (bindS m f s) \<noteq> Inl Out_Of_Fuel \<longleftrightarrow>
     fst (m s) \<noteq> Inl Out_Of_Fuel \<and> (\<forall>a t. m s = (Inr a, t) \<longrightarrow> fst (f a t) \<noteq> Inl Out_Of_Fuel)"
  by (auto simp: bindS_def split: prod.splits sum.splits)

lemma failE_fuel: "fst (failE e s) \<noteq> Inl Out_Of_Fuel"
  by (simp add: failE_def)

lemma checks_end: "fst (check_limits h s) \<noteq> Inl Out_Of_Fuel" "fst (fail_transport t s) \<noteq> Inl Out_Of_Fuel"
  by (simp_all add: check_limits_def fail_transport_def is_interrupted_def now_def on_world_def askS_def bindS_def
      failE_def split: prod.splits)



end
