(* ===== verification/Xsh_Ssh_Sound.thy ===== *)
theory Xsh_Ssh_Sound
  imports Xsh_Ssh_Exec
begin

text \<open>
  What every operation of the SSH client keeps, proved bottom up by rules on its composition: an operation
  leaves the certainty of its request and, until a command is asked for, whatever is said of the codec's
  output, and after the request was submitted it fails only with errors that say so.
\<close>

section \<open>Failures that say what was submitted\<close>

text \<open>What \<open>after_submission\<close> makes of an error says that the request was submitted.\<close>

definition plain :: "ssh_error \<Rightarrow> bool" where
  "plain e \<longleftrightarrow> certainty_of (after_submission e) = Was_Submitted"

text \<open>What an operation may fail with after the submission.\<close>

definition err_ok :: "certainty \<Rightarrow> ssh_error \<Rightarrow> bool" where
  "err_ok k e \<longleftrightarrow> k = Was_Submitted \<longrightarrow> plain e \<or> e = Request_Rejected ''exec''"

lemma plain_simps [simp]:
  "plain (Invalid_Fingerprint t)" "plain (Host_Key_Mismatch t u)" "plain (Unknown_Host_Key t u)"
  "plain (Revoked_Host_Key t)" "plain (Unsupported_Trust t)" "plain (Invalid_Trust t)" "plain (Bad_Host_Key t)"
  "plain (Unsupported_Algorithm c t)" "plain Strict_Kex_Unsupported" "plain (Channel_Failed t)"
  "plain (Failed_Before t)" "plain (Failed_After t)" "plain (Protocol_Violated t)" "plain (Invalid_Environment t)"
  "plain (Output_Limit out)" "plain (Timed_Out Was_Submitted)" "plain (Was_Cancelled Was_Submitted)"
  by (simp_all add: plain_def after_submission_def certainty_of_def)

lemma plain_protocol [simp]: "plain (protocol_error t)" "plain (channel_error u)" "plain short_message"
  by (simp_all add: protocol_error_def channel_error_def short_message_def)

lemma err_okI: "plain e \<Longrightarrow> err_ok k e"
  by (simp add: err_ok_def)

lemma err_ok_simps [simp]:
  "err_ok k (Timed_Out k)" "err_ok k (Was_Cancelled k)" "err_ok k (Request_Rejected ''exec'')" "err_ok Not_Submitted e"
  by (cases k; simp add: err_ok_def)+

section \<open>Pure results\<close>

definition plainE :: "ssh_error + 'a \<Rightarrow> bool" where
  "plainE r \<longleftrightarrow> (\<forall>e. r = Inl e \<longrightarrow> plain e)"

named_theorems plain_intros \<open>results whose errors are plain\<close>

lemma plainE_rules [plain_intros]:
  "plainE (Inr a)"
  "plain e \<Longrightarrow> plainE (Inl e)"
  "plain e \<Longrightarrow> plainE (ok_or x e)"
  "plainE r \<Longrightarrow> (\<And>a. plainE (f a)) \<Longrightarrow> plainE (bindE r f)"
  "(b \<Longrightarrow> plainE r) \<Longrightarrow> (\<not> b \<Longrightarrow> plainE r') \<Longrightarrow> plainE (if b then r else r')"
  by (auto simp: plainE_def bindE_eq_Inl ok_or_def split: option.splits)

lemma plainE_cases [plain_intros]:
  "(\<And>x y. plainE (g x y)) \<Longrightarrow> plainE (case p of (x, y) \<Rightarrow> g x y)"
  "plainE u \<Longrightarrow> (\<And>a. plainE (v a)) \<Longrightarrow> plainE (case z of None \<Rightarrow> u | Some a \<Rightarrow> v a)"
  by (auto split: prod.splits option.splits)

definition plainR :: "'a reading \<Rightarrow> bool" where
  "plainR m \<longleftrightarrow> (\<forall>r. plainE (fst (m r)))"

lemma plainR_bind [plain_intros]:
  assumes "plainR m" and "\<And>a. plainR (g a)"
  shows "plainR (bindS m g)"
  unfolding plainR_def
proof
  fix r
  show "plainE (fst (bindS m g r))"
  proof (cases "m r")
    case (Pair x r')
    then show ?thesis
      using assms by (cases x) (auto simp: plainR_def plainE_def bindS_def dest: spec [of _ r])
  qed
qed

lemma plainR_rules [plain_intros]:
  "plainR (retS a)"
  "plain e \<Longrightarrow> plainR (failS e)"
  "plainE x \<Longrightarrow> plainR (liftS x)"
  "(b \<Longrightarrow> plainR m) \<Longrightarrow> (\<not> b \<Longrightarrow> plainR m') \<Longrightarrow> plainR (if b then m else m')"
  "plainR u \<Longrightarrow> (\<And>a. plainR (v a)) \<Longrightarrow> plainR (case z of None \<Rightarrow> u | Some a \<Rightarrow> v a)"
  by (auto simp: plainR_def plainE_def split: option.splits)

lemma plainR_readers [plain_intros]:
  "plainR read_u8" "plainR (take_bytes n)" "plainR read_finish"
  by (simp_all add: plainR_def plainE_def read_u8_def take_bytes_def read_finish_def split: option.splits)

lemma plainR_read_u32 [plain_intros]: "plainR read_u32"
  unfolding read_u32_def by (intro plain_intros)

lemma plainR_read_string [plain_intros]: "plainR read_string"
  unfolding read_string_def by (intro plain_intros)

lemma plainR_read_text [plain_intros]: "plainR read_text"
  unfolding read_text_def by (intro plain_intros) simp

lemma plainR_read_names [plain_intros]: "plainR read_name_list"
  unfolding read_name_list_def by (intro plain_intros)

lemma plainE_parse [plain_intros]: "plainR m \<Longrightarrow> plainE (parse_body m bs)"
  by (simp add: plainR_def parse_body_def)

lemma plainE_recipient [plain_intros]:
  "plainE (local_recipient a b)" "plainE (expect_recipient ch a)"
  by (simp_all add: plainE_def local_recipient_def expect_recipient_def)

lemma plainE_provided [plain_intros]: "plainE (provided x)" "plainE (generated t x)"
  by (cases x; simp add: plainE_def provided_def generated_def)+

lemma plainR_skip [plain_intros]: "plainR (skip_u8s n)"
  by (induction n) (simp_all only: skip_u8s.simps plainR_rules plainR_bind plainR_readers)

lemma plainE_first_common [plain_intros]: "plainE (first_common a b t)"
  unfolding first_common_def by (intro plain_intros) simp

lemma plainE_encryption [plain_intros]: "plainE (encryption t)"
  unfolding encryption_def by (intro plain_intros) simp

lemma plainE_kexinit [plain_intros]: "plainE (parse_kexinit bs)"
  unfolding parse_kexinit_def read_kexinit_def by (intro plain_intros)

lemma plainE_negotiate [plain_intros]: "plainE (negotiate server b)"
  unfolding negotiate_def Let_def by (intro plain_intros) simp_all

lemma plainE_admit [plain_intros]: "plainE (queue_admit name p q)"
  unfolding queue_admit_def Let_def by (intro plain_intros) simp_all

lemma plainE_agree [plain_intros]: "plainE (agree_with c e bs)"
  unfolding agree_with_def by (intro plain_intros) simp

lemma plainE_complete [plain_intros]: "plainE (complete c alg e bs)"
  by (cases e) (auto simp: Let_def intro!: plain_intros)

lemma plainE_fingerprint [plain_intros]: "plainE (fingerprint c bs)"
  unfolding fingerprint_def by (intro plain_intros)

lemma plainE_verify [plain_intros]: "plainE (verify_host_key c a b d)"
  unfolding verify_host_key_def by (intro plain_intros) simp_all

lemma plainE_trust [plain_intros]: "plainE (trust_verify t host port bs fp)"
  by (auto simp: trust_verify_def plainE_def split: host_trust.splits verdict.splits)

lemma plainE_same [plain_intros]: "plainE (same_host_key c s bs)"
  unfolding same_host_key_def by (intro plain_intros) simp

lemma plainR_reply [plain_intros]: "plainR read_reply"
  unfolding read_reply_def by (intro plain_intros)

lemma plainE_open [plain_intros]: "plainE (open_confirmed bs)" "plainE (open_failed bs)"
  unfolding open_confirmed_def open_failed_def by (intro plain_intros; simp)+

lemma plainE_adjust [plain_intros]: "plainE (window_adjust bs ch)"
  unfolding window_adjust_def by (intro plain_intros) simp

lemma plainE_only [plain_intros]: "plainE (expect_recipient_only ch bs)"
  unfolding expect_recipient_only_def by (intro plain_intros)

lemma plainE_receive [plain_intros]: "plainE (channel_receive n ch)"
  unfolding channel_receive_def by (intro plain_intros) simp_all

lemma plainE_data [plain_intros]: "plainE (check_open_for_data ch)"
  unfolding check_open_for_data_def by (intro plain_intros) simp

lemma plainR_request [plain_intros]: "plainR (read_request ch)"
  unfolding read_request_def by (intro plain_intros)

section \<open>Operations\<close>

text \<open>An operation keeps an invariant, and fails as it may at this certainty.\<close>

definition sound :: "certainty \<Rightarrow> ('s \<Rightarrow> bool) \<Rightarrow> ('s, stop, 'a) op \<Rightarrow> bool" where
  "sound k J m \<longleftrightarrow> (\<forall>s. J s \<longrightarrow> J (snd (m s)) \<and> (\<forall>e. fst (m s) = Inl (Fail e) \<longrightarrow> err_ok k e))"

named_theorems sound_intros \<open>operations that keep an invariant\<close>

lemma soundD: "sound k J m \<Longrightarrow> J s \<Longrightarrow> m s = (r, t) \<Longrightarrow> J t \<and> (\<forall>e. r = Inl (Fail e) \<longrightarrow> err_ok k e)"
  by (metis fst_conv snd_conv sound_def)

lemma sound_bind [sound_intros]:
  assumes "sound k J m" and "\<And>a. sound k J (g a)"
  shows "sound k J (bindS m g)"
  unfolding sound_def
proof (intro allI impI)
  fix s
  assume "J s"
  moreover obtain r t where m: "m s = (r, t)" by (cases "m s")
  ultimately have "J t \<and> (\<forall>e. r = Inl (Fail e) \<longrightarrow> err_ok k e)" using soundD [OF assms(1)] by blast
  then show "J (snd (bindS m g s)) \<and> (\<forall>e. fst (bindS m g s) = Inl (Fail e) \<longrightarrow> err_ok k e)"
    using assms(2) m by (cases r) (simp_all add: bindS_def sound_def)
qed

lemma sound_basic [sound_intros]:
  "sound k J (retS a)"
  "sound k J (failS Out_Of_Fuel)"
  "err_ok k e \<Longrightarrow> sound k J (failE e)"
  "plainE x \<Longrightarrow> sound k J (liftE x)"
  "(\<And>s. J s \<Longrightarrow> J (f s)) \<Longrightarrow> sound k J (updS f)"
  by (auto simp: sound_def failE_def liftE_def plainE_def intro: err_okI split: sum.splits)

lemma sound_ask [sound_intros]: "sound k J (askS f)"
  by (simp add: sound_def askS_def)

text \<open>What is asked of the state may be used: the invariant holds of it.\<close>

lemma sound_bind_ask [sound_intros]:
  assumes "\<And>s. J s \<Longrightarrow> sound k J (g (f s))"
  shows "sound k J (bindS (askS f) g)"
  using assms by (simp add: sound_def bindS_def askS_def)

lemma sound_if [sound_intros]:
  "(b \<Longrightarrow> sound k J m) \<Longrightarrow> (\<not> b \<Longrightarrow> sound k J m') \<Longrightarrow> sound k J (if b then m else m')"
  by simp

lemma sound_sum [sound_intros]:
  "(\<And>e. x = Inl e \<Longrightarrow> sound k J (f e)) \<Longrightarrow> (\<And>a. x = Inr a \<Longrightarrow> sound k J (g a)) \<Longrightarrow>
     sound k J (case x of Inl e \<Rightarrow> f e | Inr a \<Rightarrow> g a)"
  by (cases x) simp_all

lemma sound_option [sound_intros]:
  "(z = None \<Longrightarrow> sound k J u) \<Longrightarrow> (\<And>a. z = Some a \<Longrightarrow> sound k J (v a)) \<Longrightarrow>
     sound k J (case z of None \<Rightarrow> u | Some a \<Rightarrow> v a)"
  by (cases z) simp_all

lemma sound_prod [sound_intros]:
  "(\<And>x y. p = (x, y) \<Longrightarrow> sound k J (g x y)) \<Longrightarrow> sound k J (case p of (x, y) \<Rightarrow> g x y)"
  by (cases p) simp

lemma sound_list [sound_intros]:
  "(xs = [] \<Longrightarrow> sound k J u) \<Longrightarrow> (\<And>y ys. xs = y # ys \<Longrightarrow> sound k J (v y ys)) \<Longrightarrow>
     sound k J (case xs of [] \<Rightarrow> u | y # ys \<Rightarrow> v y ys)"
  by (cases xs) simp_all

section \<open>The transport\<close>

text \<open>A packet that asks for a command.\<close>

definition is_exec :: "('w, 'r, 'o) ports \<Rightarrow> u8 list \<Rightarrow> bool" where
  "is_exec h bs \<longleftrightarrow>
     (\<exists>peer rest. bs = [type_byte h Channel_Request_m] @ be_bytes peer @ put_string (bytes_of ''exec'') @ rest)"

text \<open>What is said of the codec's output holds until such a packet is encoded.\<close>

definition quiet :: "('w, 'r, 'o) ports \<Rightarrow> ('o \<Rightarrow> bool) \<Rightarrow> bool" where
  "quiet h P \<longleftrightarrow>
     (\<forall>t. type_byte h t = type_byte h Channel_Request_m \<longrightarrow> t = Channel_Request_m) \<and>
     (\<forall>bs w. \<not> is_exec h bs \<longrightarrow> P w \<longrightarrow> P (snd (encode_packet h bs w))) \<and>
     (\<forall>n w. P w \<longrightarrow> P (snd (note_written h n w)))"

definition quiet_keys :: "('w, 'r, 'o, 'e, 'k) crypto \<Rightarrow> ('o \<Rightarrow> bool) \<Rightarrow> bool" where
  "quiet_keys c P \<longleftrightarrow>
     (\<forall>key w w'. P w \<longrightarrow> seal_with c key w = Inr w' \<longrightarrow> P w') \<and> (\<forall>w. P w \<longrightarrow> P (restart_writing c w))"

text \<open>After the submission nothing is asked of the ports.\<close>

definition quiet_at :: "certainty \<Rightarrow> ('w, 'r, 'o) ports \<Rightarrow> ('o \<Rightarrow> bool) \<Rightarrow> bool" where
  "quiet_at k h P \<longleftrightarrow> k = Not_Submitted \<longrightarrow> quiet h P"

definition keys_at :: "certainty \<Rightarrow> ('w, 'r, 'o, 'e, 'k) crypto \<Rightarrow> ('o \<Rightarrow> bool) \<Rightarrow> bool" where
  "keys_at k c P \<longleftrightarrow> k = Not_Submitted \<longrightarrow> quiet_keys c P"

text \<open>The certainty and what extends the transport do not change, and before the submission the output
  is quiet.\<close>

definition tinv :: "('o \<Rightarrow> bool) \<Rightarrow> certainty \<Rightarrow> 'z \<Rightarrow> ('w, 'r, 'o, 'z) transport_scheme \<Rightarrow> bool" where
  "tinv P k M s \<longleftrightarrow> certainty_now s = k \<and> transport.more s = M \<and> (k = Not_Submitted \<longrightarrow> P (writing s))"

definition may_send :: "('w, 'r, 'o) ports \<Rightarrow> certainty \<Rightarrow> u8 list \<Rightarrow> bool" where
  "may_send h k bs \<longleftrightarrow> k = Was_Submitted \<or> \<not> is_exec h bs"

lemma sound_world [sound_intros]: "sound k (tinv P k M) (on_world f)" "sound k (tinv P k M) (on_reading f)"
  by (auto simp: sound_def on_world_def on_reading_def tinv_def split: prod.splits)

lemma sound_now [sound_intros]: "sound k (tinv P k M) (now h)"
  unfolding now_def by (rule sound_world)

lemma sound_fail_transport [sound_intros]: "sound k (tinv P k M) (fail_transport t)"
  unfolding fail_transport_def
  by (intro sound_intros) (auto simp: tinv_def attributed_def intro: err_okI split: certainty.split)

lemma sound_fail_io [sound_intros]: "sound k (tinv P k M) (fail_io e)"
  unfolding fail_io_def by (intro sound_intros) (simp add: tinv_def)

lemma sound_fail_codec [sound_intros]: "sound k (tinv P k M) (fail_codec e)"
  unfolding fail_codec_def by (intro sound_intros err_okI) simp

lemma sound_interrupted [sound_intros]: "sound k (tinv P k M) (is_interrupted h)"
  unfolding is_interrupted_def by (intro sound_intros)

lemma sound_check [sound_intros]: "sound k (tinv P k M) (check_limits h)"
  unfolding check_limits_def by (intro sound_intros) (auto simp: tinv_def)

lemma sound_bound [sound_intros]: "sound k (tinv P k M) (bound_phase h d)"
  unfolding bound_phase_def by (intro sound_intros) (auto simp: tinv_def)

lemma sound_restore [sound_intros]: "sound k (tinv P k M) (restore_deadline d)"
  unfolding restore_deadline_def by (intro sound_intros) (auto simp: tinv_def)

lemma sound_wait [sound_intros]: "sound k (tinv P k M) (wait_for h n a b d)"
  by (induction n) (simp_all only: wait_for.simps, (intro sound_intros; assumption)+)

lemma sound_fill [sound_intros]: "sound k (tinv P k M) (fill_nonblocking h)"
  unfolding fill_nonblocking_def by (intro sound_intros) (auto simp: tinv_def)

lemma sound_try_recv [sound_intros]: "sound k (tinv P k M) (try_recv h)"
proof -
  have "sound k (tinv P k M) (case e of Incomplete_packet t \<Rightarrow> retS None | Codec_failed t \<Rightarrow> fail_codec (Codec_failed t))" for e
    by (cases e) (simp_all add: sound_intros del: retS_app)
  then show ?thesis unfolding try_recv_def by (intro sound_intros) (auto simp: tinv_def)
qed

lemma sound_enqueue [sound_intros]: "sound k (tinv P k M) (note_enqueue h)"
  unfolding note_enqueue_def by (intro sound_intros) (auto simp: tinv_def)

lemma sound_kex_usage [sound_intros]: "sound k (tinv P k M) (kex_usage h)"
  unfolding kex_usage_def by (intro sound_intros sound_ask)

lemma sound_end [sound_intros]: "sound k (tinv P k M) end_operation" "sound k (tinv P k M) await_command"
  "sound k (tinv P k M) (shutdown h)"
  unfolding end_operation_def await_command_def shutdown_def by (intro sound_intros; auto simp: tinv_def)+

lemma quiet_steps:
  assumes "quiet h P"
  shows "encode_packet h bs w = (r, w') \<Longrightarrow> \<not> is_exec h bs \<Longrightarrow> P w \<Longrightarrow> P w'"
    and "note_written h n w = (q, w') \<Longrightarrow> P w \<Longrightarrow> P w'"
proof -
  have "\<not> is_exec h bs \<Longrightarrow> P w \<Longrightarrow> P (snd (encode_packet h bs w))" "P w \<Longrightarrow> P (snd (note_written h n w))"
    using assms by (simp_all add: quiet_def)
  then show "encode_packet h bs w = (r, w') \<Longrightarrow> \<not> is_exec h bs \<Longrightarrow> P w \<Longrightarrow> P w'"
    "note_written h n w = (q, w') \<Longrightarrow> P w \<Longrightarrow> P w'" by simp_all
qed

lemma sound_encode [sound_intros]:
  assumes q: "quiet_at k h P" and may: "may_send h k bs"
  shows "sound k (tinv P k M) (encode_raw h bs)"
proof -
  have "sound k (tinv P k M) (on_writing (encode_packet h bs))"
    using may q by (auto simp: sound_def on_writing_def tinv_def may_send_def quiet_at_def intro: quiet_steps split: prod.splits)
  then show ?thesis
    unfolding encode_raw_def by (intro sound_intros) (auto simp: tinv_def)
qed

lemma sound_note [sound_intros]: "quiet_at k h P \<Longrightarrow> sound k (tinv P k M) (on_writing (note_written h j))"
  by (auto simp: sound_def on_writing_def tinv_def quiet_at_def intro: quiet_steps split: prod.splits)

lemma sound_flush_nonblocking [sound_intros]: "quiet_at k h P \<Longrightarrow> sound k (tinv P k M) (flush_nonblocking h n)"
proof (induction n)
  case (Suc n)
  then show ?case
    unfolding flush_nonblocking.simps by (intro sound_intros; (assumption | auto simp: tinv_def))
qed (simp only: flush_nonblocking.simps sound_basic)

lemma sound_flush [sound_intros]:
  assumes q: "quiet_at k h P"
  shows "sound k (tinv P k M) (flush_output h n)"
proof (induction n)
  case (Suc n)
  show ?case unfolding flush_output.simps by (intro sound_intros q Suc)
qed (simp only: flush_output.simps sound_basic)

lemma sound_drain [sound_intros]:
  assumes q: "quiet_at k h P"
  shows "sound k (tinv P k M) (drain_output h n)"
proof (induction n)
  case (Suc n)
  show ?case unfolding drain_output.simps by (intro sound_intros q Suc)
qed (simp only: drain_output.simps sound_basic)

lemma sound_reply [sound_intros]: "quiet_at k h P \<Longrightarrow> may_send h k bs \<Longrightarrow> sound k (tinv P k M) (reply h n bs)"
  unfolding reply_def by (intro sound_intros)

lemma sound_send [sound_intros]: "quiet_at k h P \<Longrightarrow> may_send h k bs \<Longrightarrow> sound k (tinv P k M) (send_raw h n bs)"
  unfolding send_raw_def by (intro sound_intros)

lemma sound_recv [sound_intros]:
  assumes q: "quiet_at k h P"
  shows "sound k (tinv P k M) (recv h n)"
proof (induction n)
  case (Suc n)
  show ?case unfolding recv.simps by (intro sound_intros q Suc)
qed (simp only: recv.simps sound_basic)

lemma may_send_other: "quiet_at k h P \<Longrightarrow> t \<noteq> Channel_Request_m \<Longrightarrow> may_send h k (type_byte h t # bs)"
  by (cases k) (auto simp: may_send_def is_exec_def quiet_at_def quiet_def)

section \<open>Key exchange\<close>

lemma sound_cases_alg [sound_intros]:
  "(x = Hybrid \<Longrightarrow> sound k J u) \<Longrightarrow> (x = Classical \<Longrightarrow> sound k J v) \<Longrightarrow>
     sound k J (case x of Hybrid \<Rightarrow> u | Classical \<Rightarrow> v)"
  by (cases x) simp_all

lemma sound_kex_receive [sound_intros]:
  assumes q: "quiet_at k h P"
  shows "sound k (tinv P k M) (kex_receive h n t queue)"
proof (induction n arbitrary: queue)
  case (Suc n)
  then show ?case
    unfolding kex_receive.simps by (intro sound_intros plain_intros q Suc err_okI plain_simps) simp_all
qed (simp only: kex_receive.simps sound_basic)

lemma sound_inits [sound_intros]:
  assumes q: "quiet_at k h P"
  shows "sound k (tinv P k M) (exchange_inits h c n p queue)"
proof -
  have may: "may_send h k (kexinit_payload (type_byte h Kex_Init_m) cookie)" for cookie
    unfolding kexinit_payload_def append_Cons by (rule may_send_other [OF q]) simp
  show ?thesis
    unfolding exchange_inits_def Let_def by (intro sound_intros plain_intros q may)
qed

lemma sound_ephemeral [sound_intros]: "sound k (tinv P k M) (new_ephemeral c alg)"
  unfolding new_ephemeral_def by (intro sound_intros plain_intros)

lemma sound_install [sound_intros]:
  fixes h :: "('w, 'r, 'o) ports" and M :: 'z
  assumes q: "quiet_at k h P" and keys: "keys_at k c P"
  shows "sound k (tinv P k M) (install_keys h c n strict ko ki queue)"
proof -
  have may: "may_send h k [type_byte h New_Keys_m]" by (rule may_send_other [OF q]) simp
  have sealed: "sound k (tinv P k M) (bindS (liftE r) (\<lambda>w. bindS (updS (\<lambda>s. s\<lparr>writing := w\<rparr>)) g))"
    if r: "\<And>w. k = Not_Submitted \<Longrightarrow> r = Inr w \<Longrightarrow> P w" "plainE r" and g: "\<And>u. sound k (tinv P k M) (g u)"
    for r and g :: "unit \<Rightarrow> _"
  proof (cases r)
    case (Inl e)
    then show ?thesis
      using r(2) by (auto simp: sound_def liftE_def failE_def plainE_def intro: err_okI)
  next
    case (Inr w)
    have "sound k (tinv P k M) (bindS (updS (\<lambda>s. s\<lparr>writing := w\<rparr>)) g)"
      by (intro sound_intros g) (use r(1) Inr in \<open>auto simp: tinv_def\<close>)
    moreover have "bindS (liftE r) (\<lambda>w. bindS (updS (\<lambda>s. s\<lparr>writing := w\<rparr>)) g) = bindS (updS (\<lambda>s. s\<lparr>writing := w\<rparr>)) g"
      by (rule ext) (simp add: liftE_def Inr)
    ultimately show ?thesis by simp
  qed
  show ?thesis
    unfolding install_keys_def
    by (intro sound_bind_ask sealed sound_intros q may plain_intros)
      (use keys in \<open>auto simp: tinv_def keys_at_def quiet_keys_def\<close>)
qed

lemma sound_exchange [sound_intros]:
  assumes q: "quiet_at k h P" "keys_at k c P"
  shows "sound k (tinv P k M) (exchange h c n ctx session p queue)"
proof -
  have may: "may_send h k ([type_byte h Ecdh_Init_m] @ bs)" for bs
    unfolding append_Cons by (rule may_send_other [OF q(1)]) simp
  show ?thesis
    unfolding exchange_def Let_def by (intro sound_intros plain_intros q may)
qed

lemma sound_rekey_kex [sound_intros]:
  "quiet_at k h P \<Longrightarrow> keys_at k c P \<Longrightarrow> sound k (tinv P k M) (kex_rekey h c n ctx session p)"
  unfolding kex_rekey_def by (intro sound_intros)

section \<open>Connections\<close>

definition cinv :: "('o \<Rightarrow> bool) \<Rightarrow> certainty \<Rightarrow> 'z \<Rightarrow> ('w, 'r, 'o, 'z) connection_scheme \<Rightarrow> bool" where
  "cinv P k M s \<longleftrightarrow> certainty_now s = k \<and> connection.more s = M \<and> (k = Not_Submitted \<longrightarrow> P (writing s))"

lemma more_connection:
  "transport.more s = transport.more t \<Longrightarrow> connection.more s = connection.more t"
  by (cases s, cases t) simp

text \<open>What an operation of the transport does, the connection it is part of sees.\<close>

lemma sound_transport:
  fixes m :: "('w, 'r, 'o, 'z, 'a) connecting"
  assumes "\<And>M. sound k (tinv P k M) m"
  shows "sound k (cinv P k M) m"
  unfolding sound_def
proof (intro allI impI)
  fix s :: "('w, 'r, 'o, 'z) connection_scheme"
  assume J: "cinv P k M s"
  obtain r t where m: "m s = (r, t)" by (cases "m s")
  have "tinv P k (transport.more s) s" using J by (simp add: cinv_def tinv_def)
  from soundD [OF assms this m] J more_connection [of t s]
  have "cinv P k M t \<and> (\<forall>e. r = Inl (Fail e) \<longrightarrow> err_ok k e)" by (auto simp: cinv_def tinv_def)
  then show "cinv P k M (snd (m s)) \<and> (\<forall>e. fst (m s) = Inl (Fail e) \<longrightarrow> err_ok k e)" by (simp add: m)
qed

lemmas transport_sound = sound_now sound_check sound_bound sound_restore sound_wait sound_fill sound_try_recv
  sound_kex_usage sound_end

lemma connection_sound [sound_intros]:
  "sound k (cinv P k M) (bound_phase h d)" "sound k (cinv P k M) (restore_deadline lim)"
  "sound k (cinv P k M) (try_recv h)" "sound k (cinv P k M) (kex_usage h)"
  "sound k (cinv P k M) end_operation" "sound k (cinv P k M) await_command" "sound k (cinv P k M) (shutdown h)"
  by (rule sound_transport, rule sound_intros)+

lemma connection_output_sound [sound_intros]:
  "quiet_at k h P \<Longrightarrow> sound k (cinv P k M) (recv h n)"
  "quiet_at k h P \<Longrightarrow> may_send h k bs \<Longrightarrow> sound k (cinv P k M) (reply h n bs)"
  "quiet_at k h P \<Longrightarrow> may_send h k bs \<Longrightarrow> sound k (cinv P k M) (send_raw h n bs)"
  "quiet_at k h P \<Longrightarrow> keys_at k c P \<Longrightarrow> sound k (cinv P k M) (kex_rekey h c n ctx session p)"
  by (rule sound_transport, intro sound_intros; assumption)+

text \<open>What is done after an operation whatever its outcome.\<close>

lemma sound_after:
  assumes "sound k J m" and "\<And>r. (\<And>e. r = Inl (Fail e) \<Longrightarrow> err_ok k e) \<Longrightarrow> sound k J (g r)"
  shows "sound k J (\<lambda>s. case m s of (r, s) \<Rightarrow> g r s)"
  unfolding sound_def
proof (intro allI impI)
  fix s
  assume J: "J s"
  obtain r t where m: "m s = (r, t)" by (cases "m s")
  have t: "J t" "\<And>e. r = Inl (Fail e) \<Longrightarrow> err_ok k e" using soundD [OF assms(1) J m] by auto
  then show "J (snd (case m s of (r, s) \<Rightarrow> g r s)) \<and>
      (\<forall>e. fst (case m s of (r, s) \<Rightarrow> g r s) = Inl (Fail e) \<longrightarrow> err_ok k e)"
    using assms(2) [OF t(2)] m by (simp add: sound_def)
qed

lemma sound_failS: "(\<And>e'. e = Fail e' \<Longrightarrow> err_ok k e') \<Longrightarrow> sound k J (failS e)"
  by (simp add: sound_def)

lemma sound_rekey [sound_intros]:
  assumes q: "quiet_at k h P" "keys_at k c P"
  shows "sound k (cinv P k M) (rekey h c cfg n p)"
  unfolding rekey_def
  by (intro sound_intros sound_after sound_failS q) (auto simp: cinv_def)

lemma sound_due [sound_intros]: "sound k (cinv P k M) (rekey_due h cfg)"
  unfolding rekey_due_def by (intro sound_intros)

lemma sound_if_due [sound_intros]:
  "quiet_at k h P \<Longrightarrow> keys_at k c P \<Longrightarrow> sound k (cinv P k M) (rekey_if_due h c cfg n)"
  unfolding rekey_if_due_def by (intro sound_intros)

lemma sound_filter [sound_intros]:
  assumes q: "quiet_at k h P" "keys_at k c P"
  shows "sound k (cinv P k M) (filter_packet h c cfg n p)"
proof -
  have may: "may_send h k [type_byte h Request_Failure_m]" "may_send h k (refusal h sender)" for sender
    by (simp_all add: refusal_def may_send_other [OF q(1)])
  have "sound k (cinv P k M) (bindS (liftE (parse_body (bindS read_text (\<lambda>_. read_u8)) (payload p))) (\<lambda>wants.
      bindS (if wants \<noteq> 0 then reply h n [type_byte h Request_Failure_m] else retS ()) (\<lambda>_. retS None)))"
    "sound k (cinv P k M) (bindS (liftE (parse_body (bindS read_text (\<lambda>_. read_u32)) (payload p))) (\<lambda>sender.
      bindS (reply h n (refusal h sender)) (\<lambda>_. retS None)))"
    "sound k (cinv P k M) (bindS (rekey h c cfg n (Some p)) (\<lambda>_. retS None))"
    by (intro sound_intros plain_intros q may)+
  moreover have "sound k (cinv P k M) (retS r)" for r :: "packet option" by (rule sound_basic)
  ultimately show ?thesis unfolding filter_packet_def by (cases "message_type p") (simp_all only: message_type.case)
qed

lemma sound_reject [sound_intros]: "sound k (cinv P k M) (reject_disconnect p)"
  unfolding reject_disconnect_def by (intro sound_intros) (auto intro: err_okI split: certainty.split)

lemma sound_pop [sound_intros]: "sound k (cinv P k M) pop_pending"
  by (auto simp: sound_def pop_pending_def cinv_def split: list.splits)

lemma sound_next_message [sound_intros]:
  assumes q: "quiet_at k h P" "keys_at k c P"
  shows "sound k (cinv P k M) (next_message h c cfg n)"
proof (induction n)
  case (Suc n)
  show ?case unfolding next_message.simps by (intro sound_intros q Suc)
qed (simp only: next_message.simps sound_basic)

lemma sound_next_packet [sound_intros]:
  "quiet_at k h P \<Longrightarrow> keys_at k c P \<Longrightarrow> sound k (cinv P k M) (next_packet h c cfg n)"
  unfolding next_packet_def by (intro sound_intros)

lemma sound_try_next [sound_intros]:
  assumes q: "quiet_at k h P" "keys_at k c P"
  shows "sound k (cinv P k M) (try_next_packet h c cfg n)"
proof (induction n)
  case (Suc n)
  show ?case unfolding try_next_packet.simps by (intro sound_intros q Suc)
qed (simp only: try_next_packet.simps sound_basic)

section \<open>Channels\<close>

lemma sound_channel_open [sound_intros]:
  assumes q: "quiet_at k h P" "keys_at k c P"
  shows "sound k (cinv P k M) (channel_open h c cfg n)"
proof -
  have "may_send h k (open_request h)" by (simp add: open_request_def may_send_other [OF q(1)])
  then show ?thesis
    unfolding channel_open_def by (intro sound_intros plain_intros q err_okI plain_simps)
qed

lemma sound_answer [sound_intros]:
  assumes q: "quiet_at k h P" "keys_at k c P" and request: "k = Was_Submitted \<Longrightarrow> request = ''exec''"
  shows "sound k (cinv P k M) (await_answer h c cfg request n ch)"
proof (induction n arbitrary: ch)
  case (Suc n)
  have "err_ok k (Request_Rejected request)" using request by (cases k) auto
  then show ?case
    unfolding await_answer.simps by (intro sound_intros plain_intros q Suc) (auto intro: err_okI)
qed (simp only: await_answer.simps sound_basic)

text \<open>A request for a variable is none for a command.\<close>

lemma env_not_exec: "\<not> is_exec h (request_head h ch ''env'' @ bs)"
proof
  assume "is_exec h (request_head h ch ''env'' @ bs)"
  then obtain peer rest where e: "be_bytes (remote_id ch) @ put_string (bytes_of ''env'') @ [1] @ bs =
      be_bytes peer @ put_string (bytes_of ''exec'') @ rest"
    by (auto simp: is_exec_def request_head_def)
  have "drop 4 (be_bytes (remote_id ch) @ put_string (bytes_of ''env'') @ [1] @ bs) ! 3 = 3"
    by (simp add: put_string_def be_bytes_def bytes_of_def)
  moreover have "drop 4 (be_bytes peer @ put_string (bytes_of ''exec'') @ rest) ! 3 = 4"
    by (simp add: put_string_def be_bytes_def bytes_of_def)
  ultimately show False using e by simp
qed

lemma sound_environment [sound_intros]:
  assumes q: "quiet_at Not_Submitted h P" "keys_at Not_Submitted c P"
  shows "sound Not_Submitted (cinv P Not_Submitted M) (set_environment h c cfg n nm v ch)"
proof -
  have "may_send h Not_Submitted (request_head h ch ''env'' @ bs)" for bs
    by (simp add: may_send_def env_not_exec)
  then show ?thesis unfolding set_environment_def by (intro sound_intros q) simp_all
qed

end
