(* ===== verification/Xsh_Ssh_Correct.thy ===== *)
theory Xsh_Ssh_Correct
  imports Xsh_Ssh_Sound Xsh_Ssh_Scripted
begin

text \<open>
  The flow control of a channel and the certainty of a command, from the rules of the theory of what every
  operation keeps.
\<close>

section \<open>Flow control\<close>

text \<open>What the peer may still send and what it has sent since the last grant make up the window.\<close>

definition flow_ok :: "channel \<Rightarrow> bool" where
  "flow_ok ch \<longleftrightarrow> unat (local_window ch) + unat (consumed ch) = unat LOCAL_WINDOW"

lemma flow_opened: "open_confirmed bs = Inr ch \<Longrightarrow> flow_ok ch"
  by (auto simp: open_confirmed_def flow_ok_def split: if_splits)

lemma flow_adjust: "flow_ok ch \<Longrightarrow> window_adjust bs ch = Inr ch' \<Longrightarrow> flow_ok ch'"
  by (auto simp: window_adjust_def flow_ok_def)

lemma flow_receive:
  assumes "flow_ok ch" and "channel_receive n ch = Inr ch'"
  shows "flow_ok ch' \<and> n \<le> unat (local_window ch) \<and> unat (local_window ch') = unat (local_window ch) - n"
proof -
  obtain w where n: "n \<le> 32768" and w: "checked_sub (local_window ch) (of_nat n) = Some w"
    and ch': "ch' = ch\<lparr>local_window := w, consumed := consumed ch + of_nat n\<rparr>"
    using assms(2) by (auto simp: channel_receive_def LOCAL_MAX_PACKET_def split: if_splits)
  have u: "unat (of_nat n :: u32) = n" using n by (intro unat_of_nat_small) simp
  have w': "n \<le> unat (local_window ch)" "unat w = unat (local_window ch) - n"
    using w u by (auto simp: checked_sub_Some)
  have "unat (consumed ch) + n < 2 ^ 32"
    using assms(1) n by (simp add: flow_ok_def LOCAL_WINDOW_def)
  then have "unat (consumed ch + of_nat n) = unat (consumed ch) + n"
    using unat_add_noflow [of "consumed ch" "of_nat n"] u by simp
  then show ?thesis using assms(1) w' ch' by (simp add: flow_ok_def)
qed

lemma flow_replenish: "flow_ok ch \<Longrightarrow> replenish h n ch s = (Inr ch', t) \<Longrightarrow> flow_ok ch'"
proof -
  assume ok: "flow_ok ch" and r: "replenish h n ch s = (Inr ch', t)"
  have "unat (local_window ch + consumed ch) = unat (local_window ch) + unat (consumed ch)"
    using ok by (intro unat_add_noflow) (simp add: flow_ok_def LOCAL_WINDOW_def)
  then show ?thesis using ok r by (auto simp: replenish_def bindS_eq_Inr flow_ok_def split: if_splits)
qed

lemma flow_send:
  "send_data h ch bs s = (Inr (k, ch'), t) \<Longrightarrow>
     k \<le> unat (remote_window ch) \<and> k \<le> unat (remote_max_packet ch) \<and> k \<le> SEND_CHUNK \<and> k \<le> length bs \<and>
     unat (remote_window ch') = unat (remote_window ch) - k \<and> (flow_ok ch \<longrightarrow> flow_ok ch')"
proof -
  assume r: "send_data h ch bs s = (Inr (k, ch'), t)"
  have k: "k = send_limit ch bs" "ch' = ch\<lparr>remote_window := remote_window ch - of_nat k\<rparr>"
    using r by (auto simp: send_data_def Let_def bindS_eq_Inr split: if_splits)
  have le: "k \<le> unat (remote_window ch)" "k \<le> unat (remote_max_packet ch)" "k \<le> SEND_CHUNK" "k \<le> length bs"
    using k(1) by (auto simp: send_limit_def min_def word_le_nat_alt split: if_splits)
  have "unat (of_nat k :: u32) = k"
    using le(3) by (intro unat_of_nat_small) (simp add: SEND_CHUNK_def)
  then have "unat (remote_window ch - of_nat k) = unat (remote_window ch) - k"
    using le(1) by (simp add: unat_sub_noflow)
  then show ?thesis using k le by (simp add: flow_ok_def)
qed

lemma flow_ends: "send_eof h ch s = (Inr ch', t) \<Longrightarrow> flow_ok ch \<Longrightarrow> flow_ok ch'"
  "send_close h ch s = (Inr ch', t) \<Longrightarrow> flow_ok ch \<Longrightarrow> flow_ok ch'"
  by (auto simp: send_eof_def send_close_def bindS_eq_Inr flow_ok_def split: if_splits)

section \<open>The session\<close>

definition sinv :: "('w, 'r, 'o, 'z) session_scheme \<Rightarrow> bool" where
  "sinv s \<longleftrightarrow> certainty_now s = Was_Submitted \<and> flow_ok (chan s)"

lemma more_session: "connection.more s = connection.more t \<Longrightarrow> chan s = chan t"
  by (cases s, cases t) simp

lemma sound_connection:
  fixes m :: "('w, 'r, 'o, 'z, 'a) streaming"
  assumes "\<And>M. sound Was_Submitted (cinv (\<lambda>_. True) Was_Submitted M) m"
  shows "sound Was_Submitted sinv m"
  unfolding sound_def
proof (intro allI impI)
  fix s :: "('w, 'r, 'o, 'z) session_scheme"
  assume J: "sinv s"
  obtain r t where m: "m s = (r, t)" by (cases "m s")
  have "cinv (\<lambda>_. True) Was_Submitted (connection.more s) s" using J by (simp add: cinv_def sinv_def)
  from soundD [OF assms this m] J more_session [of t s]
  have "sinv t \<and> (\<forall>e. r = Inl (Fail e) \<longrightarrow> err_ok Was_Submitted e)" by (auto simp: cinv_def sinv_def)
  then show "sinv (snd (m s)) \<and> (\<forall>e. fst (m s) = Inl (Fail e) \<longrightarrow> err_ok Was_Submitted e)" by (simp add: m)
qed

lemma submitted_quiet: "quiet_at Was_Submitted h P" "keys_at Was_Submitted c P" "may_send h Was_Submitted bs"
  by (simp_all add: quiet_at_def keys_at_def may_send_def)

lemma session_world [sound_intros]: "sound Was_Submitted sinv (on_world f)"
  by (auto simp: sound_def on_world_def sinv_def split: prod.splits)

lemma session_sound [sound_intros]:
  "sound Was_Submitted sinv (try_next_packet h c cfg n)" "sound Was_Submitted sinv (rekey h c cfg n p)"
  "sound Was_Submitted sinv (rekey_due h cfg)"
  by (rule sound_connection, intro sound_intros submitted_quiet)+

lemma session_transport [sound_intros]:
  "sound Was_Submitted sinv (check_limits h)" "sound Was_Submitted sinv (wait_for h n a b d)"
  "sound Was_Submitted sinv (fill_nonblocking h)" "sound Was_Submitted sinv (flush_nonblocking h n)"
  "sound Was_Submitted sinv (reply h n bs)" "sound Was_Submitted sinv (encode_raw h bs)"
  by (rule sound_connection, rule sound_transport, intro sound_intros submitted_quiet)+

lemma sound_on_channel:
  fixes f :: "channel \<Rightarrow> ('w, 'r, 'o, 'z, channel) streaming"
  assumes "\<And>ch. sound Was_Submitted sinv (f ch)"
    and "\<And>ch s ch' t. flow_ok ch \<Longrightarrow> f ch s = (Inr ch', t) \<Longrightarrow> flow_ok ch'"
  shows "sound Was_Submitted sinv (on_channel f)"
  unfolding sound_def
proof (intro allI impI)
  fix s :: "('w, 'r, 'o, 'z) session_scheme"
  assume J: "sinv s"
  obtain r t where m: "f (chan s) s = (r, t)" by (cases "f (chan s) s")
  have "sinv t" "\<And>e. r = Inl (Fail e) \<Longrightarrow> err_ok Was_Submitted e" using soundD [OF assms(1) J m] by auto
  moreover have "flow_ok ch" if "r = Inr ch" for ch
    using assms(2) [of "chan s" s ch t] J m that by (simp add: sinv_def)
  ultimately show "sinv (snd (on_channel f s)) \<and> (\<forall>e. fst (on_channel f s) = Inl (Fail e) \<longrightarrow> err_ok Was_Submitted e)"
    using m by (cases r) (simp_all add: on_channel_def bindS_def askS_def sinv_def)
qed

lemma session_channel [sound_intros]:
  fixes h :: "('w, 'r, 'o) ports" and bs :: "u8 list"
  shows "sound Was_Submitted sinv (on_channel (replenish h n))" "sound Was_Submitted sinv (on_channel (send_eof h))"
  "sound Was_Submitted sinv (on_channel (send_close h))"
  "sound Was_Submitted sinv (on_channel (\<lambda>ch. liftE (window_adjust bs ch)) :: ('w, 'r, 'o, 'z, unit) streaming)"
proof -
  show "sound Was_Submitted sinv (on_channel (replenish h n))"
    by (rule sound_on_channel, unfold replenish_def, intro sound_intros)
      (rule flow_replenish, unfold replenish_def, assumption+)
  show "sound Was_Submitted sinv (on_channel (send_eof h))"
    by (rule sound_on_channel) (auto simp: send_eof_def intro!: sound_intros dest: flow_ends [unfolded send_eof_def])
  show "sound Was_Submitted sinv (on_channel (send_close h))"
    by (rule sound_on_channel) (auto simp: send_close_def intro!: sound_intros dest: flow_ends [unfolded send_close_def])
  have adjusted: "flow_ok ch'" if "flow_ok ch" "liftE (window_adjust bs ch) s = (Inr ch', t)" for ch ch' and s t :: "('w, 'r, 'o, 'z) session_scheme"
    using that flow_adjust [of ch bs ch'] by (cases "window_adjust bs ch") (simp_all add: liftE_def failE_def)
  show "sound Was_Submitted sinv (on_channel (\<lambda>ch. liftE (window_adjust bs ch)) :: ('w, 'r, 'o, 'z, unit) streaming)"
    by (rule sound_on_channel, intro sound_intros plain_intros) (rule adjusted)
qed

section \<open>Data\<close>

lemma session_refill [sound_intros]: "sound Was_Submitted sinv (refill sp n)"
proof (induction n)
  case (Suc n)
  show ?case
    unfolding refill.simps by (intro sound_intros Suc err_okI plain_simps) (simp_all add: sinv_def)
qed (simp only: refill.simps sound_basic)

lemma session_readable [sound_intros]: "sound Was_Submitted sinv (input_readable sp)"
  unfolding input_readable_def by (intro sound_intros)

text \<open>An operation whose result the next one takes: what the invariant says of the result may be used.\<close>

lemma sound_bind_result:
  assumes "sound k J m" and "\<And>s a t. J s \<Longrightarrow> m s = (Inr a, t) \<Longrightarrow> J t \<Longrightarrow> Q a"
    and "\<And>a. Q a \<Longrightarrow> sound k J (g a)"
  shows "sound k J (bindS m g)"
  unfolding sound_def
proof (intro allI impI)
  fix s
  assume J: "J s"
  obtain r t where m: "m s = (r, t)" by (cases "m s")
  have t: "J t" "\<And>e. r = Inl (Fail e) \<Longrightarrow> err_ok k e" using soundD [OF assms(1) J m] by auto
  show "J (snd (bindS m g s)) \<and> (\<forall>e. fst (bindS m g s) = Inl (Fail e) \<longrightarrow> err_ok k e)"
  proof (cases r)
    case (Inr a)
    then show ?thesis using assms(2) [OF J] assms(3) [of a] m t by (simp add: bindS_def sound_def)
  qed (use m t in \<open>simp add: bindS_def\<close>)
qed

lemma session_send:
  fixes h :: "('w, 'r, 'o) ports"
  shows "sound Was_Submitted sinv (send_data h ch bs :: ('w, 'r, 'o, 'z, nat \<times> channel) streaming)"
  unfolding send_data_def Let_def by (intro sound_intros)

lemma session_feed_loop [sound_intros]:
  fixes h :: "('w, 'r, 'o) ports"
  shows "sound Was_Submitted sinv (feed_loop h sp n :: ('w, 'r, 'o, 'z, feeding) streaming)"
proof (induction n)
  case (Suc n)
  have step: "sound Was_Submitted sinv (bindS (send_data h ch left_over) (\<lambda>(sent, ch).
      bindS (updS (\<lambda>s. s\<lparr>chan := ch, unsent := drop sent left_over\<rparr>)) (\<lambda>_. feed_loop h sp n))
      :: ('w, 'r, 'o, 'z, feeding) streaming)" if ch: "flow_ok ch" for ch left_over
  proof (rule sound_bind_result [where Q = "\<lambda>r. flow_ok (snd r)"])
    show "flow_ok (snd r)" if "send_data h ch left_over s = (Inr r, t)"
      for r and s t :: "('w, 'r, 'o, 'z) session_scheme"
      using flow_send [of h ch left_over s "fst r" "snd r" t] that ch by simp
    show "sound Was_Submitted sinv ((case r of (sent, ch) \<Rightarrow>
      bindS (updS (\<lambda>s. s\<lparr>chan := ch, unsent := drop sent left_over\<rparr>)) (\<lambda>_. feed_loop h sp n))
      :: ('w, 'r, 'o, 'z, feeding) streaming)" if "flow_ok (snd r)" for r
      using that by (intro sound_intros Suc) (auto simp: sinv_def)
  qed (rule session_send)
  show ?case
    unfolding feed_loop.simps by (intro step sound_intros Suc) (simp add: sinv_def)
qed (simp only: feed_loop.simps sound_basic)

lemma session_feed [sound_intros]: "sound Was_Submitted sinv (feed h sp n)"
  unfolding feed_def by (intro sound_intros)

lemma session_sink [sound_intros]: "sound Was_Submitted sinv (write_sink sp to_stderr bs)"
proof -
  have "sound Was_Submitted sinv (case e of Sink_deadline \<Rightarrow> failE (Timed_Out Was_Submitted)
      | Sink_cancelled \<Rightarrow> failE (Was_Cancelled Was_Submitted) | Sink_full \<Rightarrow> failE (Output_Limit out)
      | Sink_failed t \<Rightarrow> failE (Failed_After (u @ v @ t)))" for e out u v
    by (cases e) (simp_all only: sink_failure.case, (intro sound_intros err_ok_simps err_okI plain_simps)+)
  then show ?thesis unfolding write_sink_def Let_def by (intro sound_intros)
qed

lemma session_with [sound_intros]:
  "(\<And>ch. plainE (f ch)) \<Longrightarrow> sound Was_Submitted sinv (with_channel f)"
  unfolding with_channel_def by (intro sound_intros)

lemma session_take_data [sound_intros]:
  fixes h :: "('w, 'r, 'o) ports"
  shows "sound Was_Submitted sinv (take_data h sp n recipient sink bs :: ('w, 'r, 'o, 'z, unit) streaming)"
proof -
  have received: "sound Was_Submitted sinv (bindS (with_channel (channel_receive j)) (\<lambda>ch. bindS (updS (\<lambda>s. s\<lparr>chan := ch\<rparr>)) g)
      :: ('w, 'r, 'o, 'z, unit) streaming)"
    if "\<And>u. sound Was_Submitted sinv (g u :: ('w, 'r, 'o, 'z, unit) streaming)" for j g
  proof (rule sound_bind_result [where Q = flow_ok])
    show "flow_ok ch" if "sinv s" "with_channel (channel_receive j) s = (Inr ch, t)"
      for ch and s t :: "('w, 'r, 'o, 'z) session_scheme"
      using that flow_receive [of "chan s" j ch]
      by (cases "channel_receive j (chan s)")
        (simp_all add: with_channel_def bindS_def askS_def liftE_def failE_def sinv_def)
  qed (intro sound_intros plain_intros that; simp add: sinv_def)+
  show ?thesis unfolding take_data_def by (intro received sound_intros plain_intros)
qed

lemma session_completion [sound_intros]: "sound Was_Submitted sinv (record_completion a b)"
  unfolding record_completion_def by (intro sound_intros err_okI plain_simps plain_protocol) (simp_all add: sinv_def)

lemma session_request [sound_intros]: "sound Was_Submitted sinv (on_request h n bs)"
proof -
  have "sound Was_Submitted sinv (case r of Exit_status_r status \<Rightarrow> record_completion (Some status) None
      | Exit_signal_r t \<Rightarrow> record_completion None (Some t) | Other_request \<Rightarrow> retS ())" for r
    by (cases r) (simp_all only: channel_request.case, (intro sound_intros)+)
  then show ?thesis unfolding on_request_def by (intro sound_intros plain_intros)
qed

lemma session_packet [sound_intros]: "sound Was_Submitted sinv (on_packet h sp n p)"
  unfolding on_packet_def
  by (cases "message_type p"; simp only: message_type.case; intro sound_intros plain_intros err_okI plain_simps plain_protocol)
    (simp_all add: sinv_def flow_ok_def)

section \<open>The loop\<close>

lemma session_packets [sound_intros]: "sound Was_Submitted sinv (take_packets h c cfg sp n)"
proof (induction n)
  case (Suc n)
  show ?case unfolding take_packets.simps by (intro sound_intros Suc)
qed (simp only: take_packets.simps sound_basic)

lemma session_await [sound_intros]: "sound Was_Submitted sinv (await_events h sp n flushed feeding)"
  unfolding await_events_def by (intro sound_intros)

lemma session_drive [sound_intros]: "sound Was_Submitted sinv (drive h c cfg sp n)"
proof (induction n)
  case (Suc n)
  show ?case unfolding drive.simps by (intro sound_intros Suc)
qed (simp only: drive.simps sound_basic)

text \<open>C12: The windows of a command's channel add up at every point. Whatever the peer and the caller do, \<open>drive\<close>
  ends, with a result or an error, in a state where what the peer may still send and what it has sent since
  the last grant make up the window that was advertised, and the request counts as submitted.\<close>

theorem drive_keeps_windows:
  fixes s :: "('w, 'r, 'o, 'z) session_scheme"
  assumes "certainty_now s = Was_Submitted"
    and "unat (local_window (chan s)) + unat (consumed (chan s)) = unat LOCAL_WINDOW"
    and "drive h c cfg sp n s = (r, t)"
  shows "unat (local_window (chan t)) + unat (consumed (chan t)) = unat LOCAL_WINDOW \<and>
    certainty_now t = Was_Submitted \<and>
    (\<forall>e. r = Inl (Fail e) \<longrightarrow> certainty_of (after_submission e) = Was_Submitted \<or> e = Request_Rejected ''exec'')"
proof -
  have "sinv s" using assms(1,2) by (simp add: sinv_def flow_ok_def)
  from soundD [OF session_drive this assms(3)] show ?thesis
    by (auto simp: sinv_def flow_ok_def err_ok_def plain_def)
qed

lemma start_session_sinv:
  "certainty_now s = Was_Submitted \<Longrightarrow> flow_ok ch \<Longrightarrow> sinv (start_session sp ch s)"
  by (cases s) (simp add: start_session_def sinv_def connection.defs session.defs)

definition scripted_session :: "packet list \<Rightarrow> (nat, packet list, u8 list list) session" where
  "scripted_session script =
     start_session no_streams
       \<lparr>local_id = 0, remote_id = 4, remote_window = 3, remote_max_packet = 2, local_window = LOCAL_WINDOW, consumed = 0,
        eof_received = False, eof_sent = False, close_received = False, close_sent = False\<rparr>
       ((scripted_connection script)\<lparr>certainty_now := Was_Submitted\<rparr>)"

theorem drive_keeps_windows_witness:
  "unat (local_window (chan (snd (drive scripted_ports scripted_crypto scripted_config no_streams 7
      (scripted_session [held_packet]))))) +
   unat (consumed (chan (snd (drive scripted_ports scripted_crypto scripted_config no_streams 7
      (scripted_session [held_packet]))))) = unat LOCAL_WINDOW"
proof -
  have "sinv (scripted_session [held_packet])"
    unfolding scripted_session_def by (rule start_session_sinv) (simp_all add: flow_ok_def)
  then show ?thesis
    using drive_keeps_windows [of "scripted_session [held_packet]" scripted_ports scripted_crypto scripted_config no_streams 7
        "fst (drive scripted_ports scripted_crypto scripted_config no_streams 7 (scripted_session [held_packet]))"
        "snd (drive scripted_ports scripted_crypto scripted_config no_streams 7 (scripted_session [held_packet]))"]
    by (simp add: sinv_def flow_ok_def del: drive.simps)
qed

section \<open>Data that is sent\<close>

text \<open>C17: \<open>send_data\<close> sends no more than the peer allows. It sends a prefix of the data that fits the peer's
  window, the peer's largest packet and a chunk of 32768 bytes, as one packet, takes its length from the
  window, and sends nothing only where there is no window, no room in a packet or no data.\<close>

theorem send_within_window:
  assumes "send_data h ch bs s = (Inr (k, ch'), t)"
  shows "k \<le> unat (remote_window ch) \<and> k \<le> unat (remote_max_packet ch) \<and> k \<le> 32768 \<and> k \<le> length bs \<and>
    unat (remote_window ch') = unat (remote_window ch) - k \<and>
    (k = 0 \<longleftrightarrow> remote_window ch = 0 \<or> remote_max_packet ch = 0 \<or> bs = []) \<and>
    writing t = (if k = 0 then writing s
      else snd (encode_packet h ([type_byte h Data_m] @ be_bytes (remote_id ch) @ put_string (take k bs)) (writing s)))"
proof -
  have k: "k = send_limit ch bs" using assms by (auto simp: send_data_def Let_def bindS_eq_Inr split: if_splits)
  have zero: "k = 0 \<longleftrightarrow> remote_window ch = 0 \<or> remote_max_packet ch = 0 \<or> bs = []"
    by (auto simp: k send_limit_def min_def SEND_CHUNK_def unat_eq_zero split: if_splits)
  have out: "writing t = (if k = 0 then writing s
      else snd (encode_packet h ([type_byte h Data_m] @ be_bytes (remote_id ch) @ put_string (take k bs)) (writing s)))"
    using assms
    by (auto simp: k send_data_def Let_def bindS_eq_Inr encode_raw_def note_enqueue_def now_def on_world_def on_writing_def
        askS_def fail_codec_def failE_def split: if_splits prod.splits sum.splits)
  show ?thesis using flow_send [OF assms] zero out by (simp add: SEND_CHUNK_def)
qed

theorem send_within_window_witness:
  "\<exists>k ch' t. send_data scripted_ports (chan (scripted_session [])) [9, 8, 7, 6] (scripted_session []) = (Inr (k, ch'), t) \<and>
     k = 2 \<and> unat (remote_window ch') = 1 \<and> writing t = [[20, 0, 0, 0, 4, 0, 0, 0, 2, 9, 8]]"
proof -
  have ch: "remote_window (chan (scripted_session [])) = 3" "remote_max_packet (chan (scripted_session [])) = 2"
    "remote_id (chan (scripted_session [])) = 4" "writing (scripted_session []) = []"
    by (simp_all add: scripted_session_def start_session_def scripted_connection_def scripted_transport_def
        transport.defs connection.defs session.defs)
  have lim: "send_limit (chan (scripted_session [])) [9, 8, 7, 6] = 2"
    by (simp add: send_limit_def ch SEND_CHUNK_def min_def word_le_nat_alt)
  obtain k ch' t where r: "send_data scripted_ports (chan (scripted_session [])) [9, 8, 7, 6] (scripted_session []) = (Inr (k, ch'), t)"
    and k: "k = 2"
    by (simp add: send_data_def Let_def lim scripted_steps)
  from send_within_window [OF r] show ?thesis
    using r k by (simp add: ch put_string_def be_bytes_def)
qed

section \<open>A command\<close>

lemma flow_answer:
  "await_answer h c cfg request n ch s = (Inr ch', t) \<Longrightarrow> flow_ok ch \<Longrightarrow> flow_ok ch'"
proof (induction n arbitrary: ch s)
  case (Suc n)
  obtain p s1 where p: "next_packet h c cfg n s = (Inr p, s1)"
    using Suc.prems(1) by (auto simp: bindS_eq_Inr)
  show ?case
  proof (cases "message_type p = Window_Adjust_m")
    case True
    then obtain ch1 where "window_adjust (payload p) ch = Inr ch1" "await_answer h c cfg request n ch1 s1 = (Inr ch', t)"
      using Suc.prems(1) p by (cases "window_adjust (payload p) ch") (auto simp: bindS_def liftE_def failE_def)
    then show ?thesis using Suc.IH Suc.prems(2) flow_adjust by blast
  next
    case False
    then show ?thesis
      using Suc.prems p by (auto simp: bindS_def liftE_def failE_def split: if_splits sum.splits)
  qed
qed (simp add: failE_def)

lemma flow_variables: "set_variables h c cfg n env ch s = (Inr ch', t) \<Longrightarrow> flow_ok ch \<Longrightarrow> flow_ok ch'"
proof (induction env arbitrary: ch s)
  case (Cons v env)
  then show ?case
    by (cases v) (auto simp: bindS_eq_Inr set_environment_def dest: flow_answer)
qed simp

lemma flow_open: "channel_open h c cfg n s = (Inr ch, t) \<Longrightarrow> flow_ok ch"
  by (auto simp: channel_open_def bindS_eq_Inr liftE_def failE_def open_failed_def bindE_def
      intro: flow_opened split: if_splits sum.splits prod.splits)

lemma sound_variables [sound_intros]:
  assumes q: "quiet_at Not_Submitted h P" "keys_at Not_Submitted c P"
  shows "sound Not_Submitted (cinv P Not_Submitted M) (set_variables h c cfg n env ch)"
proof (induction env arbitrary: ch)
  case (Cons v env)
  show ?case by (cases v) (simp only: set_variables.simps, intro sound_intros q Cons)
qed (simp only: set_variables.simps sound_basic)

text \<open>Either nothing was submitted and the output is quiet, or the errors say that something was.\<close>

definition phase :: "('o \<Rightarrow> bool) \<Rightarrow> (stop + 'a) \<Rightarrow> ('w, 'r, 'o, 'z) connection_scheme \<Rightarrow> bool" where
  "phase P r s \<longleftrightarrow>
     certainty_now s = Not_Submitted \<and> P (writing s) \<or>
     certainty_now s = Was_Submitted \<and> (\<forall>e. r = Inl (Fail e) \<longrightarrow> err_ok Was_Submitted e)"

lemma phase_before:
  assumes "sound Not_Submitted (cinv P Not_Submitted M) m" and "cinv P Not_Submitted M s" and "m s = (r, t)"
  shows "phase P r' t" "cinv P Not_Submitted M t"
  using soundD [OF assms] by (auto simp: phase_def cinv_def)

lemma exec_asked:
  assumes "cinv P Not_Submitted M s" and "bindS (channel_exec h c cfg n command ch) (\<lambda>ch. bindS await_command (\<lambda>_. retS ch)) s = (r, t)"
  shows "certainty_now t = Was_Submitted \<and> (\<forall>e. r = Inl (Fail e) \<longrightarrow> err_ok Was_Submitted e)"
proof -
  let ?m = "bindS (send_raw h n (request_head h ch ''exec'' @ put_string command))
      (\<lambda>_. await_answer h c cfg ''exec'' n ch)"
  have m: "sound Was_Submitted (cinv P Was_Submitted M) (bindS ?m (\<lambda>ch. bindS await_command (\<lambda>_. retS ch)))"
    by (intro sound_intros submitted_quiet) simp
  have "cinv P Was_Submitted M (s\<lparr>certainty_now := Was_Submitted\<rparr>)" using assms(1) by (simp add: cinv_def)
  moreover have "bindS ?m (\<lambda>ch. bindS await_command (\<lambda>_. retS ch)) (s\<lparr>certainty_now := Was_Submitted\<rparr>) = (r, t)"
    using assms(2) by (simp add: channel_exec_def mark_submitted_def bindS_def)
  ultimately show ?thesis using soundD [OF m, of "s\<lparr>certainty_now := Was_Submitted\<rparr>" r t] by (auto simp: cinv_def)
qed

lemma submit_phase:
  assumes q: "quiet_at Not_Submitted h P" "keys_at Not_Submitted c P"
    and J: "cinv P Not_Submitted M s" and r: "submit h c cfg n command env s = (r, t)"
  shows "phase P r t \<and> (\<forall>ch. r = Inr ch \<longrightarrow> certainty_now t = Was_Submitted \<and> flow_ok ch)"
proof -
  obtain r1 s1 where opened: "channel_open h c cfg n s = (r1, s1)" by (cases "channel_open h c cfg n s")
  note o = phase_before [OF sound_channel_open [OF q] J opened]
  show ?thesis
  proof (cases r1)
    case (Inl e)
    then show ?thesis using o(1) r opened by (auto simp: submit_def bindS_def)
  next
    case (Inr ch1)
    obtain r2 s2 where vars: "set_variables h c cfg n env ch1 s1 = (r2, s2)"
      by (cases "set_variables h c cfg n env ch1 s1")
    note v = phase_before [OF sound_variables [OF q] o(2) vars]
    show ?thesis
    proof (cases r2)
      case (Inl e)
      then show ?thesis using v(1) r opened Inr vars by (auto simp: submit_def bindS_def)
    next
      case Inr2: (Inr ch2)
      have rest: "bindS (channel_exec h c cfg n command ch2) (\<lambda>ch. bindS await_command (\<lambda>_. retS ch)) s2 = (r, t)"
        using r opened Inr vars Inr2 by (simp add: submit_def bindS_def)
      have "flow_ok ch2" using flow_variables vars Inr2 flow_open opened Inr by blast
      then have "flow_ok ch" if "r = Inr ch" for ch
        using rest that flow_answer by (auto simp: channel_exec_def bindS_eq_Inr)
      then show ?thesis using exec_asked [OF v(2) rest] by (auto simp: phase_def)
    qed
  qed
qed

lemma truncated_certainty: "certainty_now (connection.truncate s) = certainty_now s"
  by (cases s) (simp add: connection.defs)

lemma finished_sinv:
  assumes "sinv s" and "\<And>e. r = Inl (Fail e) \<Longrightarrow> err_ok Was_Submitted e" and "finish_run h (r, s) = (r', t)"
  shows "certainty_now t = Was_Submitted \<and> (\<forall>e. r' = Inl (Fail e) \<longrightarrow> err_ok Was_Submitted e)"
  using assms
  by (auto simp: finish_run_def sinv_def bindS_def mark_unusable_def shutdown_def askS_def split: sum.splits stop.splits if_splits)

lemma run_phase:
  assumes q: "quiet_at Not_Submitted h P" "keys_at Not_Submitted c P"
    and J: "cinv P Not_Submitted M s" and r: "exec_run h c cfg sp n command env s = (r, t)"
  shows "phase P r t"
proof -
  obtain r1 s1 where sub: "submit h c cfg n command env s = (r1, s1)" by (cases "submit h c cfg n command env s")
  note p = submit_phase [OF q J sub]
  show ?thesis
  proof (cases r1)
    case (Inl e)
    then show ?thesis using p r sub by (auto simp: exec_run_def bindS_def phase_def)
  next
    case (Inr ch)
    then have J1: "sinv (start_session sp ch s1)" using p start_session_sinv by blast
    obtain r2 s2 where d: "drive h c cfg sp n (start_session sp ch s1) = (r2, s2)"
      by (cases "drive h c cfg sp n (start_session sp ch s1)")
    obtain r3 s3 where f: "finish_run h (r2, s2) = (r3, s3)" by (cases "finish_run h (r2, s2)")
    have "sinv s2" "\<And>e. r2 = Inl (Fail e) \<Longrightarrow> err_ok Was_Submitted e"
      using soundD [OF session_drive J1 d] by auto
    note w = finished_sinv [OF this f]
    have "r = r3" "t = connection.truncate s3" using r sub Inr d f by (simp_all add: exec_run_def bindS_def)
    then show ?thesis using w by (simp add: phase_def truncated_certainty)
  qed
qed

lemma after_rejected: "after_submission (Request_Rejected t) = Request_Rejected t"
  by (simp add: after_submission_def)

lemma begun:
  assumes "P (writing s)"
  shows "\<exists>t. begin_operation h timeout can s = (Inr (), t) \<and> cinv P Not_Submitted (connection.more t) t"
  using assms
  by (cases timeout)
    (auto simp: begin_operation_def bindS_def now_def on_world_def cinv_def split: prod.splits)

text \<open>C10: a command that failed before it was submitted was not asked for. Whatever may be said of the
  codec's output until a command request is encoded holds of it still when \<open>exec_stream\<close> fails with an error
  whose certainty is "not submitted"; the one other case is that the server has refused the command itself.\<close>

theorem command_certainty:
  assumes "quiet h P" and "quiet_keys c P" and "P (writing s)"
    and "exec_stream h c cfg sp n timeout can_interrupt command env s = (Inl (Fail e), t)"
    and "certainty_of e = Not_Submitted"
  shows "P (writing t) \<or> e = Request_Rejected ''exec''"
proof -
  have q: "quiet_at Not_Submitted h P" "keys_at Not_Submitted c P"
    using assms(1,2) by (simp_all add: quiet_at_def keys_at_def)
  obtain s1 where b: "begin_operation h timeout can_interrupt s = (Inr (), s1)"
    and J: "cinv P Not_Submitted (connection.more s1) s1" using begun [of P s h timeout can_interrupt] assms(3) by blast
  obtain r s2 where run: "exec_run h c cfg sp n command env s1 = (r, s2)"
    by (cases "exec_run h c cfg sp n command env s1")
  note p = run_phase [OF q J run]
  consider (early) "t = s"
    | (ran) e' where "r = Inl (Fail e')" "writing t = writing s2"
        "e = (if certainty_now s2 = Was_Submitted then after_submission e' else e')"
    using assms(4) b run
    by (auto simp: exec_stream_def require_usable_def bindS_def askS_def liftE_def failE_def end_operation_def
        failed_exec_def mark_unusable_def shutdown_def split: if_splits sum.splits stop.splits)
  then show ?thesis
  proof cases
    case early
    then show ?thesis using assms(3) by simp
  next
    case ran
    then show ?thesis
      using p assms(5) by (auto simp: phase_def err_ok_def plain_def after_rejected)
  qed
qed

theorem command_certainty_witness:
  "\<exists>t. exec_stream scripted_ports scripted_crypto scripted_config no_streams 8 None False [1] [] (scripted_connection []) =
       (Inl (Fail (Failed_Before (text_of ''connection closed''))), t) \<and>
     (\<forall>bs \<in> set (writing t). \<not> is_exec scripted_ports bs)"
proof -
  let ?P = "\<lambda>l. \<forall>bs \<in> set l. \<not> is_exec scripted_ports bs"
  have q: "quiet scripted_ports ?P" by (auto simp: quiet_def)
  have keys: "quiet_keys scripted_crypto ?P" by (simp add: quiet_keys_def)
  have start: "?P (writing (scripted_connection []))" by simp
  obtain t where ex: "exec_stream scripted_ports scripted_crypto scripted_config no_streams 8 None False [1] []
      (scripted_connection []) = (Inl (Fail (Failed_Before (text_of ''connection closed''))), t)"
    using scripted_closed [of 0] by (auto simp: eval_nat_numeral)
  from command_certainty [OF q keys start this] show ?thesis using ex by (simp add: certainty_of_def)
qed

end
