(* ===== verification/Spec2Isabelle.thy ===== *)
theory Spec2Isabelle
  imports Xsh_Effects Xsh_Publish_Correct Xsh_Line_Correct Xsh_Schema_Correct
    Xsh_Lexer_Correct Xsh_Chunks_Correct Xsh_Source Xsh_Ssh_Exchange Xsh_Ssh_Correct
begin

text \<open>
  Verification development of XSH, a statically checked shell language in Rust, and of the crates it
  is shipped with. Paths are relative to the root of the repository.

  \<^bold>\<open>The program.\<close> A source text is cut into tokens (\<open>src/syntax\<close>), parsed, checked against a type and
  effect system (\<open>src/sema\<close>), lowered, and run by an evaluator (\<open>src/runtime/eval\<close>) over dynamic
  values; data from outside is decoded and validated against types at boundaries (\<open>.require(T)\<close> and
  the codecs). \<open>crates/xsh-archive\<close> reads and writes archives for the standard library: every byte
  of an archive is untrusted, so its readers charge budgets and its extraction stages an archive in
  a directory of its own before it is published. \<open>crates/xsh-ssh\<close> runs commands on other hosts: whatever
  the server sends is untrusted, and a failure must say whether the command may have run.
  \<open>crates/xshi\<close> is the interactive shell.

  \<^bold>\<open>Shared vocabulary.\<close>
  \<^item> \<open>Xsh_Prelude\<close>: machine integers as words with the checked and saturating operations of Rust,
    \<open>Result\<close> as the sum type with the error on the left, stateful operations \<open>'s \<Rightarrow> ('e + 'a) \<times> 's\<close>
    (\<open>bindS\<close>, \<open>retS\<close>, \<open>failS\<close>), ranges of slices, hexadecimal numbers.
  \<^item> \<open>Xsh_Text\<close>: \<open>str\<close> as the list of scalar values, UTF-8, byte offsets and character boundaries.
  \<^item> \<open>Xsh_Btree\<close>: \<open>BTreeMap\<close> as an ordered association list; the locale \<open>ordered_map\<close> states its laws.

  \<^bold>\<open>Lexer\<close> (\<open>src/syntax/token.rs\<close>, \<open>lexer.rs\<close>, \<open>literal.rs\<close>, \<open>grammar.rs\<close>).
  \<^item> \<open>Xsh_Token\<close>: tags, kinds, keywords, \<open>TokenTableBuilder\<close> and \<open>TokenTable\<close> (starts of 16 bits until
    one needs 32, payloads only where they are not zero). \<open>Xsh_Token_Correct\<close>: a table answers from
    the sequence of its pushes.
  \<^item> \<open>Xsh_Literal\<close>: prefixes and suffixes, \<open>scan_quoted_literal\<close>, the thread's \<open>InterpolationScans\<close> as
    the record \<open>scans\<close>, the search for the end of \<open>${...}\<close>. \<open>Xsh_Chunks\<close>: the division of a literal
    into text and interpolations, and the escapes of its text.
  \<^item> \<open>Xsh_Lexer\<close>: the record \<open>lexer\<close> is \<open>Lexer\<close> with the scans of the thread; \<open>lex_token\<close> and every
    function it calls, \<open>interpolation_end\<close>, which runs the same lexer in scanning mode, and the ends
    of tokens computed again from the source (\<open>token_end\<close>). Panics are values (\<open>Panicked\<close>); a loop
    takes as fuel the length of the source plus one, and the mutually recursive searches the number
    of scans that may still be opened (\<open>nesting_fuel\<close>, from \<open>MAX_NESTING_DEPTH\<close>). That \<open>Exhausted\<close>
    never comes out is \<open>lexing_ends\<close>.
  \<^item> \<open>Xsh_Scan_Correct\<close>, \<open>Xsh_Step_Correct\<close>, \<open>Xsh_Lexer_Correct\<close>: the locale \<open>scanners\<close> is the contract
    of the two searches for a closing brace, interpreted on them by induction on the depth; every
    arm of \<open>lex_token\<close> moves on to a character boundary and accounts for the bytes it consumed; a
    whole run ends, loses no byte, and orders its tokens; where it panics.
  \<^item> \<open>Xsh_Chunks_Correct\<close>: the regions of an f-string lose nothing of its content, and the compiler's
    decoder of escapes agrees with the lexer's.
  \<^item> \<open>Xsh_Source\<close>: spans, source files and maps, and the line and column of an offset
    (\<open>src/source.rs\<close>); the location counts the line feeds before an offset and the characters since.

  \<^bold>\<open>Effects\<close> (\<open>src/syntax/node.rs\<close>, \<open>src/sema/effects.rs\<close>). \<open>Xsh_Effects\<close>: \<open>EffectSet\<close> as a byte (locale
  \<open>effect_set_ops\<close>), symbolic effect expressions and contracts with their substitution, the three
  answers of \<open>satisfaction\<close>, which is sound and, where it says yes, complete over all assignments of
  effect variables.

  \<^bold>\<open>Types and values\<close> (\<open>src/sema/types.rs\<close>, \<open>validated.rs\<close>, \<open>src/runtime\<close>).
  \<^item> \<open>Xsh_Types\<close>, \<open>Xsh_Type_Ops\<close>: the type language (recursion on the size of the types), the relations
    \<open>matches_expected\<close>, \<open>matches_stored\<close>, \<open>matches_invariant\<close>, unions, joins, module contracts and the
    explanation of a failed one, validations. \<open>Xsh_Types_Correct\<close>: case rules for the relations, unions.
  \<^item> \<open>Xsh_Map_Key\<close>, \<open>Xsh_Values\<close>: the ordered keys, \<open>Value\<close> and \<open>LoweredValue\<close>, and the runtime test
    \<open>value_matches\<close>. \<open>Xsh_Values_Correct\<close>: what the static relations promise about the runtime test,
    over any test of callables that satisfies the locale \<open>contract_test\<close>.
  \<^item> \<open>Xsh_Schema\<close>: \<open>PreparedSchema\<close>, its compilation, the decoder with its three policies for unknown
    fields, \<open>.require\<close>. What the evaluator supplies (inferred signatures, callable matching) is the
    parameter record \<open>decoder\<close>. \<open>Xsh_Schema_Correct\<close>: a decoded value passes the test of its type.

  \<^bold>\<open>Archives\<close> (\<open>crates/xsh-archive\<close>).
  \<^item> \<open>Xsh_Io\<close>: errors, \<open>Budget\<close>, counted and metered readers over a port, a list of the answers of the
    host's \<open>read\<close>. \<open>Xsh_Cpio\<close>, \<open>Xsh_Cpio_Correct\<close>: the newc reader and its round trip with the writer
    of \<open>Xsh_Create\<close>, which walks a host tree given as a datatype.
  \<^item> \<open>Xsh_Extract\<close>, \<open>Xsh_Extract_Correct\<close>: member names, links, the policy, staging over the operations
    of a root (record \<open>root_ops\<close>, locale \<open>stage_root\<close>, interpreted on a tree of entries).
  \<^item> \<open>Xsh_Publish\<close>, \<open>Xsh_Merge_Correct\<close>, \<open>Xsh_Publish_Correct\<close>: placement, stage, conflicts, merge and
    publication over directory calls (record \<open>host_fs\<close>); the locales \<open>host_directory\<close> and
    \<open>staging_host\<close> state what the code relies on of the host and are interpreted on a disk of nested
    directories. The recursion over the stage takes fuel; a number above the depth of the stage is
    enough (\<open>publication_ends\<close>).

  \<^bold>\<open>SSH client\<close> (\<open>crates/xsh-ssh\<close>).
  \<^item> \<open>Xsh_Ssh_Wire\<close> (\<open>error.rs\<close>, \<open>wire.rs\<close>): errors with the certainty of the request, the reader of
    messages and its round trip. \<open>Xsh_Known_Hosts\<close> (\<open>known_hosts.rs\<close>, \<open>host_key.rs\<close>): the file, its
    patterns, verdicts and trust, with what each means.
  \<^item> \<open>Xsh_Ssh_Transport\<close> (\<open>wire.rs\<close>): \<open>Transport\<close> as a record over the record \<open>ports\<close> (socket, clock,
    cancellation, and the codec of \<open>oxish_proto\<close>). \<open>Xsh_Ssh_Kex\<close> (\<open>kex.rs\<close>): negotiation and exchange over
    the record \<open>crypto\<close>. \<open>Xsh_Ssh_Client\<close> (\<open>client.rs\<close>, \<open>channel.rs\<close>) extends the transport's record by
    the connection, \<open>Xsh_Ssh_Exec\<close> (\<open>stream.rs\<close>) that of the connection by the session of a command. A loop
    that waits for the peer takes fuel; running out of it is a stop of its own, distinct from errors, and
    what is proved holds whatever the fuel. That a wait under a deadline does not run out is \<open>wait_ends\<close>.
  \<^item> \<open>Xsh_Ssh_Sound\<close>: composition rules for operations that keep an invariant and fail only as they may,
    applied bottom up to every operation of the client. \<open>Xsh_Ssh_Correct\<close>: the windows of a channel and
    the certainty of a command. \<open>Xsh_Ssh_Exchange\<close>: what an exchange has checked, what a re-key holds
    back, and waits. \<open>Xsh_Ssh_Scripted\<close>: a peer that plays a script, on which they are tried out.

  \<^bold>\<open>Interactive line\<close> (\<open>crates/xshi/src/interactive/line.rs\<close>). \<open>Xsh_Line\<close>: \<open>LineBuffer\<close> as a record with
  byte offsets, a panic as \<open>None\<close>. \<open>Xsh_Line_Correct\<close>: it refines the pair of texts around the cursor.

  \<^bold>\<open>Parameters.\<close> Code outside the repository and the host are arguments: the interner of names, the
  host's directory calls, \<open>read\<close> and \<open>write\<close>, sockets and clocks, the codec and the cryptography of SSH,
  checksums and base 64 where a crate computes them. Hash maps and
  sharing (\<open>Arc\<close>) carry no meaning and are not modelled.

  \<^bold>\<open>Not modelled.\<close> The parser and the arena of syntax (a mutable arena of some thirty node kinds that
  the grammar functions append to), the type checker and its constraint solver, which traverse that
  arena, the lowering to indexed programs and the evaluator, whose state is the whole heap of values
  and the processes of the host; the tar, zip and compression readers, where third-party crates do
  the decoding; opening and authenticating an SSH connection (sockets, key files, the agent) and the
  files of a remote command; networking, around sockets and third-party resolvers; terminal handling, the tables of the standard library's signatures, and the test
  runner, which start processes and print.
\<close>

section \<open>Lexical containment of paths\<close>

lemma rel_depth_iff: "rel_depth (length dir) parts \<longleftrightarrow> resolve_lexically dir parts \<noteq> None"
  by (induction dir parts rule: resolve_lexically.induct)
    (auto split: nat.splits simp: length_0_conv)

text \<open>The test of the type \<open>RelPath\<close> accepts exactly the non-empty relative paths whose lexical
  resolution never leaves the directory it starts in, and agrees with the archive's check of the
  target of a symbolic link at the root of an extraction.\<close>

theorem rel_path_spec:
  "(is_rel_path p \<longleftrightarrow>
      p \<noteq> [] \<and> take 1 p \<noteq> [slash] \<and> resolve_lexically [] (split_on slash p) \<noteq> None) \<and>
   (contained_link nm [here] p = Inr () \<longleftrightarrow> p = [] \<or> is_rel_path p)"
proof -
  have 1: "is_rel_path p \<longleftrightarrow>
      p \<noteq> [] \<and> take 1 p \<noteq> [slash] \<and> resolve_lexically [] (split_on slash p) \<noteq> None"
    using rel_depth_iff [of "[]" "split_on slash p"]
    by (cases p) (simp_all add: is_rel_path_def)
  have "contained_link nm [here] p = Inr () \<longleftrightarrow>
      take 1 p \<noteq> [slash] \<and> resolve_lexically [] (split_on slash p) \<noteq> None"
    using contained_parts_iff [of nm "[]" "split_on slash p"]
    by (cases p) (simp_all add: contained_link_def del: split_on.simps)
  with 1 show ?thesis by (cases p) auto
qed

end
